(* ===== verification/Prelude.thy ===== *)
theory Prelude
  imports Main "HOL-Library.Word" "HOL-Library.Monad_Syntax"
begin

text \<open>
  Shared vocabulary of the development: the types that stand for C bytes, strings and
  addresses, the string functions of the C library the sources call (\<^verbatim>\<open>strlen\<close>,
  \<^verbatim>\<open>strrchr\<close>, \<^verbatim>\<open>strcasecmp\<close>), little-endian byte encodings of integers, and the lemmas on
  lists cut into fixed-width chunks that the byte-level components share.
\<close>

named_theorems chunk_simps \<open>buffers seen as concatenations of fixed-width chunks\<close>
named_theorems heap_simps \<open>reads after writes on the object heap\<close>
named_theorems fault_simps \<open>unfolding of the fault monad\<close>

type_synonym byte = "8 word"
type_synonym addr = nat


section \<open>C strings\<close>

text \<open>
  An sds or \<^verbatim>\<open>char *\<close> buffer is a list of characters. The functions of \<^verbatim>\<open><string.h>\<close>
  see only the part before the first NUL.
\<close>

abbreviation NUL :: char where
  "NUL \<equiv> CHR 0x00"

definition c_str :: "string \<Rightarrow> string" where
  "c_str s = takeWhile (\<lambda>c. c \<noteq> NUL) s"

definition strlen :: "string \<Rightarrow> nat" where
  "strlen s = length (c_str s)"

lemma c_str_no_NUL [simp]: "NUL \<notin> set s \<Longrightarrow> c_str s = s"
  by (induction s) (auto simp: c_str_def)

lemma NUL_notin_c_str [simp]: "NUL \<notin> set (c_str s)"
  by (auto simp: c_str_def dest: set_takeWhileD)

lemma c_str_idem [simp]: "c_str (c_str s) = c_str s"
  by simp

text \<open>
  \<^verbatim>\<open>strrchr(s, c)\<close> points at the last occurrence of \<open>c\<close>; the model returns what comes
  before it and the suffix that starts at it, or None for the null pointer.
\<close>

fun rsplit :: "char \<Rightarrow> string \<Rightarrow> (string \<times> string) option" where
  "rsplit c [] = None"
| "rsplit c (x # xs) =
     (case rsplit c xs of
        Some (p, q) \<Rightarrow> Some (x # p, q)
      | None \<Rightarrow> if x = c then Some ([], x # xs) else None)"

lemma rsplit_None: "rsplit c s = None \<longleftrightarrow> c \<notin> set s"
  by (induction s) (auto split: option.splits)

lemma rsplit_Some:
  "rsplit c s = Some (p, q) \<Longrightarrow> s = p @ q \<and> (\<exists>t. q = c # t \<and> c \<notin> set t)"
proof (induction s arbitrary: p q)
  case (Cons x xs)
  then show ?case
    by (cases "rsplit c xs") (auto simp: rsplit_None split: if_splits)
qed simp

lemma rsplit_append [simp]: "c \<notin> set t \<Longrightarrow> rsplit c (p @ c # t) = Some (p, c # t)"
proof (induction p)
  case Nil
  then have "rsplit c t = None" by (simp add: rsplit_None)
  then show ?case by simp
qed simp

lemma length_rsplit: "rsplit c s = Some (p, q) \<Longrightarrow> length p < length s"
  by (auto dest: rsplit_Some)

text \<open>ASCII case folding, \<^verbatim>\<open>strcasecmp(a,b) == 0\<close> and \<^verbatim>\<open>strncasecmp(a,b,n) == 0\<close>.\<close>

definition tolower :: "char \<Rightarrow> char" where
  "tolower c = (if 65 \<le> (of_char c :: nat) \<and> (of_char c :: nat) \<le> 90
                then char_of ((of_char c :: nat) + 32) else c)"

definition toupper :: "char \<Rightarrow> char" where
  "toupper c = (if 97 \<le> (of_char c :: nat) \<and> (of_char c :: nat) \<le> 122
                then char_of ((of_char c :: nat) - 32) else c)"

definition strcaseeq :: "string \<Rightarrow> string \<Rightarrow> bool" where
  "strcaseeq a b \<longleftrightarrow> map tolower (c_str a) = map tolower (c_str b)"

definition strncaseeq :: "nat \<Rightarrow> string \<Rightarrow> string \<Rightarrow> bool" where
  "strncaseeq n a b \<longleftrightarrow> map tolower (take n (c_str a)) = map tolower (take n (c_str b))"


section \<open>Little-endian integers in byte buffers\<close>

text \<open>
  \<open>le_bytes n v\<close> is the two's complement representation of \<open>v\<close> in \<open>n\<close> bytes, least
  significant byte first (the layout the sources keep on every host through
  \<^verbatim>\<open>memrev16ifbe\<close> and its kin); \<open>le_sint\<close> reads it back with sign extension.
\<close>

primrec le_bytes :: "nat \<Rightarrow> int \<Rightarrow> byte list" where
  "le_bytes 0 v = []"
| "le_bytes (Suc n) v = word_of_int v # le_bytes n (v div 256)"

primrec le_uint :: "byte list \<Rightarrow> int" where
  "le_uint [] = 0"
| "le_uint (b # bs) = uint b + 256 * le_uint bs"

definition le_sint :: "byte list \<Rightarrow> int" where
  "le_sint bs = (let u = le_uint bs; m = 256 ^ length bs
                 in if 2 * u < m then u else u - m)"

definition fits_bytes :: "nat \<Rightarrow> int \<Rightarrow> bool" where
  "fits_bytes n v \<longleftrightarrow> - (256 ^ n) \<le> 2 * v \<and> 2 * v < 256 ^ n"

lemma length_le_bytes [simp]: "length (le_bytes n v) = n"
  by (induction n arbitrary: v) auto

lemma uint_byte: "uint (word_of_int v :: byte) = v mod 256"
  by (simp add: unsigned_of_int take_bit_eq_mod)

lemma le_uint_le_bytes: "le_uint (le_bytes n v) = v mod 256 ^ n"
proof (induction n arbitrary: v)
  case (Suc n)
  have "v mod (256 * 256 ^ n) = 256 * (v div 256 mod 256 ^ n) + v mod 256"
    by (rule zmod_zmult2_eq) simp
  with Suc show ?case
    by (simp add: uint_byte)
qed simp

lemma le_sint_le_bytes [simp]:
  assumes "fits_bytes n v"
  shows "le_sint (le_bytes n v) = v"
proof (cases "0 \<le> v")
  case True
  with assms have "v mod 256 ^ n = v" by (auto simp: fits_bytes_def)
  with assms show ?thesis
    by (simp add: le_sint_def le_uint_le_bytes fits_bytes_def)
next
  case False
  with assms have *: "0 \<le> v + 256 ^ n" "v + 256 ^ n < 256 ^ n"
    by (auto simp: fits_bytes_def)
  have "v mod 256 ^ n = (v + 256 ^ n) mod 256 ^ n" by simp
  also have "\<dots> = v + 256 ^ n" using * by (rule mod_pos_pos_trivial)
  finally have "v mod 256 ^ n = v + 256 ^ n" .
  with assms False show ?thesis
    by (simp add: le_sint_def le_uint_le_bytes fits_bytes_def)
qed


section \<open>Buffers made of fixed-width chunks\<close>

lemma length_concat_chunks [chunk_simps]:
  "(\<And>x. x \<in> set xs \<Longrightarrow> length (f x) = e) \<Longrightarrow> length (concat (map f xs)) = length xs * e"
  by (induction xs) auto

lemma take_concat_chunks [chunk_simps]:
  "(\<And>x. x \<in> set xs \<Longrightarrow> length (f x) = e) \<Longrightarrow>
   take (p * e) (concat (map f xs)) = concat (map f (take p xs))"
proof (induction xs arbitrary: p)
  case (Cons x xs)
  then show ?case by (cases p) auto
qed simp

lemma drop_concat_chunks [chunk_simps]:
  "(\<And>x. x \<in> set xs \<Longrightarrow> length (f x) = e) \<Longrightarrow>
   drop (p * e) (concat (map f xs)) = concat (map f (drop p xs))"
proof (induction xs arbitrary: p)
  case (Cons x xs)
  then show ?case by (cases p) auto
qed simp

lemma chunk_at:
  assumes "\<And>x. x \<in> set xs \<Longrightarrow> length (f x) = e" and "p < length xs"
  shows "take e (drop (p * e) (concat (map f xs) @ rest)) = f (xs ! p)"
proof -
  have len: "length (concat (map f xs)) = length xs * e"
    using assms(1) by (rule length_concat_chunks)
  have "p * e \<le> length xs * e" using assms(2) by simp
  then have "drop (p * e) (concat (map f xs) @ rest) = concat (map f (drop p xs)) @ rest"
    using assms(1) by (simp add: len drop_concat_chunks)
  also have "drop p xs = xs ! p # drop (Suc p) xs"
    using assms(2) by (simp add: Cons_nth_drop_Suc)
  finally show ?thesis
    using assms by simp
qed

end
