(* ===== verification/Intset.thy ===== *)
theory Intset
  imports Prelude
begin

text \<open>
  The integer set of \<^verbatim>\<open>redis-2.8.17/src/intset.c\<close>: a sorted array of 16, 32 or 64 bit
  integers in one byte buffer. kvolve keeps the ids of the clients connected to a
  namespace in one, and Redis sets of small integers are stored as one.

  The model works on the bytes. Every read, write and \<^verbatim>\<open>memmove\<close> checks the bounds of the
  buffer, with None for an access outside it, so a result \<open>Some\<close> is also a statement of
  memory safety. \<open>intset_rep is xs\<close> relates a buffer to the strictly sorted integer list
  it stores; the operations are shown to compute the sorted-list operations.
\<close>

record intset =
  is_encoding :: nat
  is_length :: nat
  is_contents :: "byte list"

abbreviation (input) INTSET_ENC_INT16 :: nat where "INTSET_ENC_INT16 \<equiv> 2"
abbreviation (input) INTSET_ENC_INT32 :: nat where "INTSET_ENC_INT32 \<equiv> 4"
abbreviation (input) INTSET_ENC_INT64 :: nat where "INTSET_ENC_INT64 \<equiv> 8"

section \<open>The operations\<close>

definition intsetValueEncoding :: "int \<Rightarrow> nat" where
  "intsetValueEncoding v =
     (if v < - (2 ^ 31) \<or> v > 2 ^ 31 - 1 then INTSET_ENC_INT64
      else if v < - (2 ^ 15) \<or> v > 2 ^ 15 - 1 then INTSET_ENC_INT32
      else INTSET_ENC_INT16)"

text \<open>The width of the array type the code casts the contents to, for an encoding.\<close>

definition cast_width :: "nat \<Rightarrow> nat" where
  "cast_width enc = (if enc = INTSET_ENC_INT64 then 8 else if enc = INTSET_ENC_INT32 then 4 else 2)"

definition intsetGetEncoded :: "intset \<Rightarrow> nat \<Rightarrow> nat \<Rightarrow> int option" where
  "intsetGetEncoded is pos enc =
     (let w = cast_width enc in
      if pos * w + w \<le> length (is_contents is)
      then Some (le_sint (take w (drop (pos * w) (is_contents is))))
      else None)"

definition internal_intsetGet :: "intset \<Rightarrow> nat \<Rightarrow> int option" where
  "internal_intsetGet is pos = intsetGetEncoded is pos (is_encoding is)"

definition internal_intsetSet :: "intset \<Rightarrow> nat \<Rightarrow> int \<Rightarrow> intset option" where
  "internal_intsetSet is pos v =
     (let w = cast_width (is_encoding is); c = is_contents is in
      if pos * w + w \<le> length c
      then Some (is\<lparr>is_contents := take (pos * w) c @ le_bytes w v @ drop (pos * w + w) c\<rparr>)
      else None)"

definition intsetNew :: intset where
  "intsetNew = \<lparr>is_encoding = INTSET_ENC_INT16, is_length = 0, is_contents = []\<rparr>"

text \<open>
  \<^verbatim>\<open>zrealloc\<close> keeps the common prefix; the bytes it adds are unspecified in C and zero
  here, and every caller writes them before reading them. The size is a 32-bit product.
\<close>

definition intsetResize :: "intset \<Rightarrow> nat \<Rightarrow> intset" where
  "intsetResize is n =
     (let size = (n * is_encoding is) mod 2 ^ 32; c = is_contents is
      in is\<lparr>is_contents := take size c @ replicate (size - length c) 0\<rparr>)"

text \<open>
  The binary search. The indices are C ints; the midpoint is computed in unsigned
  32-bit arithmetic. None stands for a read outside the buffer or for not returning.
\<close>

partial_function (option) intsetSearch_loop ::
  "intset \<Rightarrow> int \<Rightarrow> int \<Rightarrow> int \<Rightarrow> int \<Rightarrow> int \<Rightarrow> (int \<times> int \<times> int) option" where
  "intsetSearch_loop is v mn mx mid cur =
     (if mx < mn then Some (mn, mid, cur)
      else let mid' = ((mn mod 2 ^ 32 + mx mod 2 ^ 32) mod 2 ^ 32) div 2 in
        case internal_intsetGet is (nat mid') of
          None \<Rightarrow> None
        | Some cur' \<Rightarrow>
            if v > cur' then intsetSearch_loop is v (mid' + 1) mx mid' cur'
            else if v < cur' then intsetSearch_loop is v mn (mid' - 1) mid' cur'
            else Some (mn, mid', cur'))"

definition intsetSearch :: "intset \<Rightarrow> int \<Rightarrow> (bool \<times> nat) option" where
  "intsetSearch is v =
     (let len = is_length is;
          mx = (if len \<le> 2 ^ 31 then int len - 1 else int len - 1 - 2 ^ 32) in
      if len = 0 then Some (False, 0)
      else do {
        last_v \<leftarrow> internal_intsetGet is (len - 1);
        if v > last_v then Some (False, len)
        else do {
          first_v \<leftarrow> internal_intsetGet is 0;
          if v < first_v then Some (False, 0)
          else do {
            (mn, mid, cur) \<leftarrow> intsetSearch_loop is v 0 mx (-1) (-1);
            if v = cur then Some (True, nat mid) else Some (False, nat mn)
          }
        }
      })"

primrec intsetUpgrade_loop :: "nat \<Rightarrow> nat \<Rightarrow> nat \<Rightarrow> intset \<Rightarrow> intset option" where
  "intsetUpgrade_loop 0 prepend curenc is = Some is"
| "intsetUpgrade_loop (Suc i) prepend curenc is = do {
     v \<leftarrow> intsetGetEncoded is i curenc;
     is' \<leftarrow> internal_intsetSet is (i + prepend) v;
     intsetUpgrade_loop i prepend curenc is'
   }"

definition intsetUpgradeAndAdd :: "intset \<Rightarrow> int \<Rightarrow> intset option" where
  "intsetUpgradeAndAdd is v =
     (let curenc = is_encoding is;
          newenc = intsetValueEncoding v;
          prepend = (if v < 0 then 1 else 0);
          is1 = intsetResize (is\<lparr>is_encoding := newenc\<rparr>) (is_length is + 1) in
      do {
        is2 \<leftarrow> intsetUpgrade_loop (is_length is) prepend curenc is1;
        is3 \<leftarrow> internal_intsetSet is2 (if prepend = 1 then 0 else is_length is2) v;
        Some (is3\<lparr>is_length := (is_length is3 + 1) mod 2 ^ 32\<rparr>)
      })"

definition intsetMoveTail :: "intset \<Rightarrow> nat \<Rightarrow> nat \<Rightarrow> intset option" where
  "intsetMoveTail is from to =
     (let w = cast_width (is_encoding is);
          c = is_contents is;
          bytes = nat (((int (is_length is) - int from) * int w) mod 2 ^ 32);
          src = from * w; dst = to * w in
      if src + bytes \<le> length c \<and> dst + bytes \<le> length c
      then Some (is\<lparr>is_contents := take dst c @ take bytes (drop src c) @ drop (dst + bytes) c\<rparr>)
      else None)"

definition intsetAdd :: "intset \<Rightarrow> int \<Rightarrow> (intset \<times> bool) option" where
  "intsetAdd is v =
     (if intsetValueEncoding v > is_encoding is
      then do { is' \<leftarrow> intsetUpgradeAndAdd is v; Some (is', True) }
      else do {
        (found, pos) \<leftarrow> intsetSearch is v;
        if found then Some (is, False)
        else do {
          let is1 = intsetResize is (is_length is + 1);
          is2 \<leftarrow> (if pos < is_length is1 then intsetMoveTail is1 pos (pos + 1) else Some is1);
          is3 \<leftarrow> internal_intsetSet is2 pos v;
          Some (is3\<lparr>is_length := (is_length is3 + 1) mod 2 ^ 32\<rparr>, True)
        }
      })"

definition intsetRemove :: "intset \<Rightarrow> int \<Rightarrow> (intset \<times> bool) option" where
  "intsetRemove is v =
     (if intsetValueEncoding v \<le> is_encoding is
      then do {
        (found, pos) \<leftarrow> intsetSearch is v;
        if found then do {
          let len = is_length is;
          is1 \<leftarrow> (if pos < len - 1 then intsetMoveTail is (pos + 1) pos else Some is);
          let is2 = intsetResize is1 (len - 1);
          Some (is2\<lparr>is_length := len - 1\<rparr>, True)
        }
        else Some (is, False)
      }
      else Some (is, False))"

definition intsetFind :: "intset \<Rightarrow> int \<Rightarrow> bool option" where
  "intsetFind is v =
     (if intsetValueEncoding v \<le> is_encoding is
      then do { (found, _) \<leftarrow> intsetSearch is v; Some found }
      else Some False)"

text \<open>\<open>r\<close> is what \<^verbatim>\<open>rand()\<close> returned; the remainder by a zero length traps.\<close>

definition intsetRandom :: "intset \<Rightarrow> nat \<Rightarrow> int option" where
  "intsetRandom is r =
     (if is_length is = 0 then None else internal_intsetGet is (r mod is_length is))"

definition intsetGet :: "intset \<Rightarrow> nat \<Rightarrow> int option option" where
  "intsetGet is pos =
     (if pos < is_length is
      then do { v \<leftarrow> internal_intsetGet is pos; Some (Some v) }
      else Some None)"

definition intsetLen :: "intset \<Rightarrow> nat" where
  "intsetLen is = is_length is"

definition intsetBlobLen :: "intset \<Rightarrow> nat" where
  "intsetBlobLen is = 8 + (is_length is * is_encoding is) mod 2 ^ 32"


section \<open>Representation\<close>

definition intset_rep :: "intset \<Rightarrow> int list \<Rightarrow> bool" where
  "intset_rep is xs \<longleftrightarrow>
     is_encoding is \<in> {2, 4, 8} \<and> is_length is = length xs \<and>
     is_contents is = concat (map (le_bytes (is_encoding is)) xs) \<and>
     (\<forall>x \<in> set xs. fits_bytes (is_encoding is) x) \<and>
     sorted_wrt (<) xs \<and> length xs * is_encoding is < 2 ^ 32"

definition intset_elems :: "intset \<Rightarrow> int list" where
  "intset_elems is =
     map (\<lambda>i. le_sint (take (is_encoding is) (drop (i * is_encoding is) (is_contents is))))
       [0..<is_length is]"

definition intset_inv :: "intset \<Rightarrow> bool" where
  "intset_inv is \<longleftrightarrow> intset_rep is (intset_elems is)"

text \<open>A value the code can be handed: the argument type is \<^verbatim>\<open>int64_t\<close>.\<close>

abbreviation int64 :: "int \<Rightarrow> bool" where
  "int64 v \<equiv> fits_bytes 8 v"

text \<open>The set can take one more element without its byte size wrapping 32 bits.\<close>

definition intset_room :: "intset \<Rightarrow> int \<Rightarrow> bool" where
  "intset_room is v \<longleftrightarrow>
     (is_length is + 1) * max (is_encoding is) (intsetValueEncoding v) < 2 ^ 32"

lemma cast_width_enc [simp]: "enc \<in> {2, 4, 8} \<Longrightarrow> cast_width enc = enc"
  by (auto simp: cast_width_def)

lemma intset_repD:
  assumes "intset_rep is xs"
  shows "is_encoding is \<in> {2, 4, 8}" "is_length is = length xs"
    "is_contents is = concat (map (le_bytes (is_encoding is)) xs)"
    "\<And>x. x \<in> set xs \<Longrightarrow> fits_bytes (is_encoding is) x"
    "sorted_wrt (<) xs" "length xs * is_encoding is < 2 ^ 32"
  using assms by (auto simp: intset_rep_def)

lemma intset_rep_length: "intset_rep is xs \<Longrightarrow> length xs < 2 ^ 31"
  by (auto simp: intset_rep_def)

lemma intset_elems_rep:
  assumes "intset_rep is xs"
  shows "intset_elems is = xs"
proof (rule nth_equalityI)
  show "length (intset_elems is) = length xs"
    using assms by (simp add: intset_elems_def intset_repD)
next
  fix i assume "i < length (intset_elems is)"
  then have i: "i < length xs"
    using assms by (simp add: intset_elems_def intset_repD)
  let ?e = "is_encoding is"
  have "take ?e (drop (i * ?e) (is_contents is @ [])) = le_bytes ?e (xs ! i)"
    unfolding intset_repD(3) [OF assms] by (rule chunk_at) (simp_all add: i)
  then show "intset_elems is ! i = xs ! i"
    using assms i by (simp add: intset_elems_def intset_repD)
qed

lemma intset_inv_iff: "intset_inv is \<longleftrightarrow> (\<exists>xs. intset_rep is xs)"
  by (auto simp: intset_inv_def intset_elems_rep)

lemma intset_invE:
  assumes "intset_inv is"
  obtains xs where "intset_rep is xs" "intset_elems is = xs"
  using assms by (simp add: intset_inv_def)

lemma fits_valueEncoding: "int64 v \<Longrightarrow> fits_bytes (intsetValueEncoding v) v"
  by (auto simp: fits_bytes_def intsetValueEncoding_def)

lemma valueEncoding_cases [simp]: "intsetValueEncoding v \<in> {2, 4, 8}"
  by (auto simp: intsetValueEncoding_def)

lemma fits_bytes_mono: "fits_bytes m v \<Longrightarrow> m \<le> n \<Longrightarrow> fits_bytes n v"
proof -
  assume "fits_bytes m v" "m \<le> n"
  moreover have "(256 :: int) ^ m \<le> 256 ^ n" using \<open>m \<le> n\<close> by (simp add: power_increasing)
  ultimately show ?thesis unfolding fits_bytes_def by linarith
qed

lemma fits_iff_valueEncoding:
  "e \<in> {2, 4, 8} \<Longrightarrow> int64 v \<Longrightarrow> fits_bytes e v \<longleftrightarrow> intsetValueEncoding v \<le> e"
  by (auto simp: fits_bytes_def intsetValueEncoding_def)

lemma get_rep:
  assumes "intset_rep is xs" and "i < length xs"
  shows "internal_intsetGet is i = Some (xs ! i)"
proof -
  let ?e = "is_encoding is"
  have "(i + 1) * ?e \<le> length xs * ?e" using assms(2) by (intro mult_le_mono1) simp
  then have b: "i * ?e + ?e \<le> length (is_contents is)"
    by (simp add: intset_repD(3) [OF assms(1)] length_concat_chunks)
  have "take ?e (drop (i * ?e) (is_contents is @ [])) = le_bytes ?e (xs ! i)"
    unfolding intset_repD(3) [OF assms(1)] by (rule chunk_at) (simp_all add: assms)
  with b show ?thesis
    using assms intset_repD(1) [OF assms(1)]
    by (simp add: internal_intsetGet_def intsetGetEncoded_def intset_repD Let_def)
qed


section \<open>Binary search\<close>

text \<open>What the search promises: the position of the value, or where it has to go.\<close>

definition search_ok :: "int list \<Rightarrow> int \<Rightarrow> bool \<times> nat \<Rightarrow> bool" where
  "search_ok xs v r \<longleftrightarrow>
     (case r of
        (True, p) \<Rightarrow> p < length xs \<and> xs ! p = v
      | (False, p) \<Rightarrow> p \<le> length xs \<and> (\<forall>x \<in> set (take p xs). x < v) \<and>
                      (\<forall>x \<in> set (drop p xs). v < x))"

lemma search_ok_notin:
  assumes "search_ok xs v (False, p)"
  shows "v \<notin> set xs"
proof -
  have "\<forall>x \<in> set (take p xs). x < v" "\<forall>x \<in> set (drop p xs). v < x"
    using assms by (auto simp: search_ok_def)
  moreover have "set xs = set (take p xs) \<union> set (drop p xs)"
    by (metis append_take_drop_id set_append)
  ultimately show ?thesis by auto
qed

lemma sorted_wrt_less_nth: "sorted_wrt (<) (xs :: int list) \<Longrightarrow> i \<le> j \<Longrightarrow> j < length xs \<Longrightarrow> xs ! i \<le> xs ! j"
  by (metis le_neq_implies_less nless_le order_refl sorted_wrt_nth_less)

lemma search_loop_step:
  assumes "0 \<le> mn" "mn \<le> mx" "mx < 2 ^ 31" and m: "m = (mn + mx) div 2"
    and get: "internal_intsetGet is (nat m) = Some c"
  shows "intsetSearch_loop is v mn mx mid cur =
           (if v > c then intsetSearch_loop is v (m + 1) mx m c
            else if v < c then intsetSearch_loop is v mn (m - 1) m c
            else Some (mn, m, c))"
proof -
  have "((mn mod 2 ^ 32 + mx mod 2 ^ 32) mod 2 ^ 32) div 2 = m"
    using assms(1-3) by (simp add: m)
  then show ?thesis
    using assms(2) by (subst intsetSearch_loop.simps) (simp add: get del: power_numeral)
qed

lemma search_loop_ok:
  assumes rep: "intset_rep is xs"
    and "0 \<le> mn" "mx < int (length xs)" "mn \<le> mx + 1"
    and lo: "\<forall>i < nat mn. xs ! i < v"
    and hi: "\<forall>i < length xs. mx < int i \<longrightarrow> v < xs ! i"
    and "mn \<le> mx \<or> cur \<noteq> v"
  shows "\<exists>mn' mid' cur'. intsetSearch_loop is v mn mx mid cur = Some (mn', mid', cur') \<and>
           (if cur' = v then 0 \<le> mid' \<and> nat mid' < length xs \<and> xs ! nat mid' = v
            else 0 \<le> mn' \<and> nat mn' \<le> length xs \<and> (\<forall>i < nat mn'. xs ! i < v) \<and>
                 (\<forall>i < length xs. nat mn' \<le> i \<longrightarrow> v < xs ! i))"
  using assms(2-)
proof (induction "nat (mx + 1 - mn)" arbitrary: mn mx mid cur rule: less_induct)
  case less
  note prems = less.prems
  show ?case
  proof (cases "mx < mn")
    case True
    with prems show ?thesis
      by (subst intsetSearch_loop.simps) auto
  next
    case False
    have small: "mx < 2 ^ 31" using prems(2) intset_rep_length [OF rep] by simp
    define m where "m = (mn + mx) div 2"
    have m: "mn \<le> m" "m \<le> mx" using False by (auto simp: m_def)
    with prems(1,2) have ml: "nat m < length xs" by linarith
    have get: "internal_intsetGet is (nat m) = Some (xs ! nat m)"
      using rep ml by (rule get_rep)
    have sorted: "sorted_wrt (<) xs" using rep by (rule intset_repD)
    have step: "intsetSearch_loop is v mn mx mid cur =
           (if v > xs ! nat m then intsetSearch_loop is v (m + 1) mx m (xs ! nat m)
            else if v < xs ! nat m then intsetSearch_loop is v mn (m - 1) m (xs ! nat m)
            else Some (mn, m, xs ! nat m))"
      using prems(1) False small m_def get by (intro search_loop_step) auto
    consider "v > xs ! nat m" | "v < xs ! nat m" | "v = xs ! nat m" by linarith
    then show ?thesis
    proof cases
      case 1
      have "intsetSearch_loop is v mn mx mid cur = intsetSearch_loop is v (m + 1) mx m (xs ! nat m)"
        using 1 by (simp add: step)
      moreover have "\<forall>i < nat (m + 1). xs ! i < v"
        using 1 ml m prems(1) sorted_wrt_less_nth [OF sorted, of _ "nat m"]
        by (auto simp: nat_add_distrib less_Suc_eq_le intro: le_less_trans)
      ultimately show ?thesis
        using less.hyps [of mx "m + 1" "xs ! nat m" m] m prems 1 by (simp add: nat_less_iff)
    next
      case 2
      have "intsetSearch_loop is v mn mx mid cur = intsetSearch_loop is v mn (m - 1) m (xs ! nat m)"
        using 2 by (simp add: step)
      moreover have "\<forall>i < length xs. m - 1 < int i \<longrightarrow> v < xs ! i"
      proof (intro allI impI)
        fix i assume "i < length xs" "m - 1 < int i"
        then have "xs ! nat m \<le> xs ! i"
          by (intro sorted_wrt_less_nth [OF sorted]) auto
        with 2 show "v < xs ! i" by simp
      qed
      ultimately show ?thesis
        using less.hyps [of "m - 1" mn "xs ! nat m" m] m prems 2 ml by (simp add: nat_less_iff)
    next
      case 3
      then have "intsetSearch_loop is v mn mx mid cur = Some (mn, m, xs ! nat m)"
        by (subst step) simp
      with 3 show ?thesis
        using m prems(1) ml by auto
    qed
  qed
qed

lemma search_rep:
  assumes rep: "intset_rep is xs"
  shows "\<exists>r. intsetSearch is v = Some r \<and> search_ok xs v r"
proof (cases "xs = []")
  case True
  with rep show ?thesis
    by (auto simp: intsetSearch_def intset_repD search_ok_def)
next
  case False
  have sorted: "sorted_wrt (<) xs" using rep by (rule intset_repD)
  have len: "is_length is = length xs" using rep by (rule intset_repD)
  have small: "length xs < 2 ^ 31" using rep by (rule intset_rep_length)
  from False have l: "internal_intsetGet is (length xs - 1) = Some (last xs)"
    using get_rep [OF rep, of "length xs - 1"] by (simp add: last_conv_nth)
  from False have f: "internal_intsetGet is 0 = Some (hd xs)"
    using get_rep [OF rep, of 0] by (simp add: hd_conv_nth)
  have bounds: "hd xs \<le> x" "x \<le> last xs" if x: "x \<in> set xs" for x
  proof -
    from x obtain i where "i < length xs" "x = xs ! i" by (metis in_set_conv_nth)
    with sorted False show "hd xs \<le> x" "x \<le> last xs"
      by (simp_all add: hd_conv_nth last_conv_nth sorted_wrt_less_nth)
  qed
  obtain mn mid cur where lp: "intsetSearch_loop is v 0 (int (length xs) - 1) (-1) (-1) = Some (mn, mid, cur)"
    and res: "if cur = v then 0 \<le> mid \<and> nat mid < length xs \<and> xs ! nat mid = v
            else 0 \<le> mn \<and> nat mn \<le> length xs \<and> (\<forall>i < nat mn. xs ! i < v) \<and>
                 (\<forall>i < length xs. nat mn \<le> i \<longrightarrow> v < xs ! i)"
    using search_loop_ok [OF rep, of 0 "int (length xs) - 1" v "-1" "-1"] False by auto
  have "search_ok xs v (if v = cur then (True, nat mid) else (False, nat mn))"
    using res by (auto simp: search_ok_def in_set_conv_nth)
  moreover have "search_ok xs v (False, length xs)" if "v > last xs"
    using that bounds(2) by (auto simp: search_ok_def intro: le_less_trans)
  moreover have "search_ok xs v (False, 0)" if "v < hd xs"
    using that bounds(1) by (auto simp: search_ok_def intro: less_le_trans)
  moreover have "intsetSearch is v =
      Some (if v > last xs then (False, length xs) else if v < hd xs then (False, 0)
            else if v = cur then (True, nat mid) else (False, nat mn))"
    using False small l f lp by (simp add: intsetSearch_def len Let_def)
  ultimately show ?thesis by simp
qed


section \<open>Insertion and removal\<close>

lemma resize_rep:
  assumes "n * is_encoding is < 2 ^ 32" "length (is_contents is) \<le> n * is_encoding is"
  shows "intsetResize is n = is\<lparr>is_contents := is_contents is @
           replicate (n * is_encoding is - length (is_contents is)) 0\<rparr>"
  using assms by (simp add: intsetResize_def Let_def)

lemma insert_slot:
  assumes "length Z = e"
  shows "take (length A) (take (length A + e) (A @ B @ Z) @ B) @ V @
           drop (length A + e) (take (length A + e) (A @ B @ Z) @ B) = A @ V @ B"
  using assms by simp

lemma upgrade_loop_rep:
  assumes "is_encoding is = new" "new \<in> {2, 4, 8}" "cur \<in> {2, 4, 8}" "cur \<le> new"
    and "\<And>x. x \<in> set xs \<Longrightarrow> fits_bytes cur x"
    and "i \<le> length xs" "(i + pre) * new \<le> length (is_contents is)"
    and "take (i * cur) (is_contents is) = concat (map (le_bytes cur) (take i xs))"
  shows "\<exists>p. length p = pre * new \<and> intsetUpgrade_loop i pre cur is =
           Some (is\<lparr>is_contents := p @ concat (map (le_bytes new) (take i xs)) @
                     drop ((i + pre) * new) (is_contents is)\<rparr>)"
  using assms
proof (induction i arbitrary: "is")
  case 0
  then show ?case
    by (intro exI [of _ "take (pre * new) (is_contents is)"]) simp
next
  case (Suc i)
  let ?c = "is_contents is"
  have "i * cur + cur \<le> (i + 1) * new"
    using Suc.prems(4) mult_le_mono2 [of cur new "i + 1"] by (simp add: algebra_simps)
  also have "\<dots> \<le> (Suc i + pre) * new" by (intro mult_le_mono1) simp
  also have "\<dots> \<le> length ?c" by (rule Suc.prems)
  finally have b1: "i * cur + cur \<le> length ?c" .
  have "take cur (drop (i * cur) ?c) = take cur (drop (i * cur) (take (Suc i * cur) ?c @ []))"
    by (simp add: drop_take)
  also have "\<dots> = le_bytes cur (take (Suc i) xs ! i)"
    unfolding Suc.prems(8) by (rule chunk_at) (use Suc.prems(6) in auto)
  finally have rd: "take cur (drop (i * cur) ?c) = le_bytes cur (xs ! i)" by simp
  have get: "intsetGetEncoded is i cur = Some (xs ! i)"
    using b1 rd Suc.prems(3,5,6) by (simp add: intsetGetEncoded_def Let_def)
  let ?is1 = "is\<lparr>is_contents := take ((i + pre) * new) ?c @ le_bytes new (xs ! i) @
                  drop ((i + pre) * new + new) ?c\<rparr>"
  have b2: "(i + pre) * new + new \<le> length ?c"
    using Suc.prems(7) by (simp add: algebra_simps)
  then have set: "internal_intsetSet is (i + pre) (xs ! i) = Some ?is1"
    using Suc.prems(1,2) by (simp add: internal_intsetSet_def Let_def)
  have le: "i * cur \<le> (i + pre) * new"
    using Suc.prems(4) by (simp add: mult_le_mono)
  have "take (i * cur) ?c = take (i * cur) (take (Suc i * cur) ?c)"
    by (simp add: min_absorb1)
  also have "\<dots> = concat (map (le_bytes cur) (take i xs))"
    unfolding Suc.prems(8) by (subst take_concat_chunks) (auto simp: min_def)
  finally have pre': "take (i * cur) (is_contents ?is1) = concat (map (le_bytes cur) (take i xs))"
    using le b2 by (simp add: min_absorb1)
  have "\<exists>p. length p = pre * new \<and> intsetUpgrade_loop i pre cur ?is1 =
           Some (?is1\<lparr>is_contents := p @ concat (map (le_bytes new) (take i xs)) @
                     drop ((i + pre) * new) (is_contents ?is1)\<rparr>)"
    using Suc.prems b2 pre' by (intro Suc.IH) auto
  moreover have "drop ((i + pre) * new) (is_contents ?is1) =
      le_bytes new (xs ! i) @ drop ((Suc i + pre) * new) ?c"
    using b2 by (simp add: add.commute)
  ultimately show ?case
    using Suc.prems(6) by (auto simp: get set take_Suc_conv_app_nth)
qed

lemma rep_ins:
  assumes rep: "intset_rep is xs" and "fits_bytes (is_encoding is) v" "p \<le> length xs"
    and "\<forall>x \<in> set (take p xs). x < v" "\<forall>x \<in> set (drop p xs). v < x"
    and "(length xs + 1) * is_encoding is < 2 ^ 32"
  shows "intset_rep (is\<lparr>is_contents := concat (map (le_bytes (is_encoding is)) (take p xs @ v # drop p xs)),
            is_length := length xs + 1\<rparr>) (take p xs @ v # drop p xs)"
proof -
  have "sorted_wrt (<) (take p xs @ drop p xs)" using rep by (simp add: intset_repD)
  then have "sorted_wrt (<) (take p xs @ v # drop p xs)"
    unfolding sorted_wrt_append using assms(4,5) by auto
  then show ?thesis
    using assms by (auto simp: intset_rep_def dest: in_set_takeD in_set_dropD)
qed

text \<open>A value that needs a wider encoding lies outside the range of the stored ones.\<close>

lemma sorted_outlier:
  assumes rep: "intset_rep is xs" and v: "int64 v" "intsetValueEncoding v > is_encoding is"
  shows "sorted_wrt (<) (if v < 0 then v # xs else xs @ [v])"
proof -
  let ?e = "is_encoding is"
  have out: "\<not> fits_bytes ?e v"
    using fits_iff_valueEncoding [OF intset_repD(1) [OF rep] v(1)] v(2) by simp
  have "(if v < 0 then v < x else x < v)" if "x \<in> set xs" for x
  proof -
    have "(0 :: int) < 256 ^ ?e" by simp
    with out intset_repD(4) [OF rep that] show ?thesis
      unfolding fits_bytes_def by (cases "v < 0") auto
  qed
  then show ?thesis
    using intset_repD(5) [OF rep] by (auto simp: sorted_wrt_append)
qed

lemma upgrade_rep:
  assumes rep: "intset_rep is xs" and v: "int64 v" "intsetValueEncoding v > is_encoding is"
    and room: "(length xs + 1) * intsetValueEncoding v < 2 ^ 32"
  shows "\<exists>is'. intsetUpgradeAndAdd is v = Some is' \<and>
           intset_rep is' (if v < 0 then v # xs else xs @ [v])"
proof -
  define cur new pre where "cur = is_encoding is" and "new = intsetValueEncoding v"
    and "pre = (if v < 0 then 1 else 0 :: nat)"
  have enc: "cur \<in> {2, 4, 8}" "new \<in> {2, 4, 8}" "cur < new" "fits_bytes new v"
    unfolding cur_def new_def
    using intset_repD(1) [OF rep] valueEncoding_cases v by (simp_all add: fits_valueEncoding)
  have c: "is_contents is = concat (map (le_bytes cur) xs)" "is_length is = length xs"
    using rep by (simp_all add: cur_def intset_repD)
  have len_c: "length (concat (map (le_bytes cur) xs)) = length xs * cur"
    by (rule length_concat_chunks) simp
  have le: "length xs * cur \<le> (length xs + 1) * new"
    using enc(3) by (intro mult_le_mono) auto
  define k where "k = (length xs + 1) * new - length xs * cur"
  let ?is1 = "is\<lparr>is_encoding := new, is_contents := concat (map (le_bytes cur) xs) @ replicate k 0\<rparr>"
  have "intsetResize (is\<lparr>is_encoding := new\<rparr>) (length xs + 1) = ?is1"
    using room le by (subst resize_rep) (auto simp: c len_c k_def new_def [symmetric])
  note resize = this
  have fits: "fits_bytes cur x" if "x \<in> set xs" for x
    using rep that by (simp add: cur_def intset_repD)
  have len1: "length (is_contents ?is1) = (length xs + 1) * new"
    using le by (simp add: len_c k_def)
  have "\<exists>p. length p = pre * new \<and> intsetUpgrade_loop (length xs) pre cur ?is1 =
      Some (?is1\<lparr>is_contents := p @ concat (map (le_bytes new) (take (length xs) xs)) @
              drop ((length xs + pre) * new) (is_contents ?is1)\<rparr>)"
    using enc fits len1 by (intro upgrade_loop_rep) (auto simp: pre_def len_c)
  then obtain p where p: "length p = pre * new"
    and loop: "intsetUpgrade_loop (length xs) pre cur ?is1 =
      Some (?is1\<lparr>is_contents := p @ concat (map (le_bytes new) xs) @
              drop ((length xs + pre) * new) (is_contents ?is1)\<rparr>)"
    by auto
  define q where "q = drop ((length xs + pre) * new) (is_contents ?is1)"
  have q: "length q = (1 - pre) * new"
    unfolding q_def length_drop len1 by (simp add: pre_def)
  have len_new: "length (concat (map (le_bytes new) xs)) = length xs * new"
    by (rule length_concat_chunks) simp
  let ?ys = "if v < 0 then v # xs else xs @ [v]"
  define is2 where "is2 = ?is1\<lparr>is_contents := p @ concat (map (le_bytes new) xs) @ q\<rparr>"
  have len2: "is_length is2 = length xs" by (simp add: is2_def c)
  have set: "internal_intsetSet is2 (if pre = 1 then 0 else is_length is2) v =
      Some (?is1\<lparr>is_contents := concat (map (le_bytes new) ?ys)\<rparr>)"
    unfolding len2 using enc(2) p q len_new
    by (auto simp: internal_intsetSet_def Let_def pre_def is2_def split: if_splits)
  have small: "length xs + 1 < 2 ^ 32"
    using room enc(2) by (auto simp: new_def [symmetric])
  have "intsetUpgradeAndAdd is v =
      Some (?is1\<lparr>is_contents := concat (map (le_bytes new) ?ys), is_length := length xs + 1\<rparr>)"
    using small unfolding intsetUpgradeAndAdd_def Let_def c(2) new_def [symmetric]
      cur_def [symmetric] pre_def [symmetric] resize loop q_def [symmetric] is2_def [symmetric]
    by (simp add: c(2) set del: map_append One_nat_def split del: if_split)
  moreover have "sorted_wrt (<) ?ys"
    using rep v(2) by (intro sorted_outlier) (auto simp: v(1))
  moreover have "\<forall>x \<in> set ?ys. fits_bytes new x"
    using fits enc(3,4) fits_bytes_mono [of cur _ new] by auto
  ultimately show ?thesis
    using enc(2) room by (auto simp: intset_rep_def new_def [symmetric])
qed


lemma move_tail:
  assumes "is_encoding is \<in> {2, 4, 8}" and c: "is_contents is = X @ B @ Y"
    and "length X = from * is_encoding is" "length B = (is_length is - from) * is_encoding is"
    and "from \<le> is_length is" "length B < 2 ^ 32"
    and "to * is_encoding is + length B \<le> length (X @ B @ Y)"
  shows "intsetMoveTail is from to =
           Some (is\<lparr>is_contents := take (to * is_encoding is) (X @ B @ Y) @ B @
                      drop (to * is_encoding is + length B) (X @ B @ Y)\<rparr>)"
proof -
  have "(int (is_length is) - int from) * int (is_encoding is) = int (length B)"
    using assms(4,5) by (simp add: of_nat_diff)
  moreover have "int (length B) mod 2 ^ 32 = int (length B)"
    using assms(6) by simp
  ultimately have "nat ((int (is_length is) - int from) * int (is_encoding is) mod 2 ^ 32) = length B"
    by (simp del: power_numeral)
  moreover have "take (length B) (drop (length X) (X @ B @ Y)) = B" by simp
  ultimately show ?thesis
    unfolding intsetMoveTail_def Let_def cast_width_enc [OF assms(1)] c assms(3) [symmetric]
    using assms(7) by simp
qed

lemma add_fitting_rep:
  assumes rep: "intset_rep is xs" and fv: "fits_bytes (is_encoding is) v"
    and room: "(length xs + 1) * is_encoding is < 2 ^ 32"
    and p: "p \<le> length xs" "\<forall>x \<in> set (take p xs). x < v" "\<forall>x \<in> set (drop p xs). v < x"
  shows "\<exists>is'. do {
      let is1 = intsetResize is (is_length is + 1);
      is2 \<leftarrow> (if p < is_length is1 then intsetMoveTail is1 p (p + 1) else Some is1);
      is3 \<leftarrow> internal_intsetSet is2 p v;
      Some (is3\<lparr>is_length := (is_length is3 + 1) mod 2 ^ 32\<rparr>, True)
    } = Some (is', True) \<and> intset_rep is' (take p xs @ v # drop p xs)"
proof -
  let ?e = "is_encoding is"
  note D = intset_repD [OF rep]
  define A B Z where "A = concat (map (le_bytes ?e) (take p xs))"
    and "B = concat (map (le_bytes ?e) (drop p xs))" and "Z = replicate ?e (0 :: byte)"
  have c: "is_contents is = A @ B"
    unfolding A_def B_def D(3) by (metis append_take_drop_id concat_append map_append)
  have len: "length A = p * ?e" "length B = (length xs - p) * ?e" "length Z = ?e"
    using p(1) by (simp_all add: A_def B_def Z_def length_concat_chunks min_absorb2)
  have len_AB: "length A + length B = length xs * ?e"
    unfolding len using p(1) by (simp add: distrib_right [symmetric])
  have resize: "intsetResize is (length xs + 1) = is\<lparr>is_contents := A @ B @ Z\<rparr>"
    using room len_AB by (subst resize_rep) (auto simp: c Z_def)
  define is2 where "is2 = is\<lparr>is_contents := take (length A + ?e) (A @ B @ Z) @ B\<rparr>"
  have "intsetMoveTail (is\<lparr>is_contents := A @ B @ Z\<rparr>) p (p + 1) = Some is2"
    using D(1) p(1) room len_AB
    by (subst move_tail [where X = A and B = B and Y = Z])
      (auto simp: D(2) len is2_def add.commute)
  moreover have "is\<lparr>is_contents := A @ B @ Z\<rparr> = is2" if "\<not> p < length xs"
    using that p(1) len by (simp add: is2_def)
  ultimately have move: "(if p < length xs then intsetMoveTail (is\<lparr>is_contents := A @ B @ Z\<rparr>) p (p + 1)
      else Some (is\<lparr>is_contents := A @ B @ Z\<rparr>)) = Some is2"
    by simp
  have "p * ?e + ?e \<le> length (take (length A + ?e) (A @ B @ Z) @ B)"
    using len by simp
  then have set: "internal_intsetSet is2 p v = Some (is\<lparr>is_contents := A @ le_bytes ?e v @ B\<rparr>)"
    using D(1) insert_slot [OF len(3), of A B "le_bytes ?e v"]
    by (simp add: internal_intsetSet_def Let_def is2_def len(1))
  have small: "length xs + 1 < 2 ^ 32"
    using room D(1) by auto
  have "intset_rep (is\<lparr>is_contents := A @ le_bytes ?e v @ B, is_length := length xs + 1\<rparr>)
      (take p xs @ v # drop p xs)"
    using rep_ins [OF rep fv p room] by (simp add: A_def B_def)
  with small resize move set show ?thesis by (simp add: D(2) Let_def)
qed

theorem add_rep:
  assumes rep: "intset_rep is xs" and v: "int64 v" and room: "intset_room is v"
  shows "\<exists>is' ys. intsetAdd is v = Some (is', v \<notin> set xs) \<and> intset_rep is' ys \<and>
           set ys = insert v (set xs)"
proof (cases "intsetValueEncoding v > is_encoding is")
  case True
  have "\<not> fits_bytes (is_encoding is) v"
    using True v intset_repD(1) [OF rep] by (simp add: fits_iff_valueEncoding)
  then have "v \<notin> set xs" using rep by (auto simp: intset_repD)
  moreover have "(length xs + 1) * intsetValueEncoding v < 2 ^ 32"
    using room True rep by (simp add: intset_room_def intset_repD max_def)
  then obtain is' where "intsetUpgradeAndAdd is v = Some is'"
    "intset_rep is' (if v < 0 then v # xs else xs @ [v])"
    using upgrade_rep [OF rep v True] by blast
  ultimately show ?thesis
    using True by (intro exI [of _ is'] exI [of _ "if v < 0 then v # xs else xs @ [v]"])
      (auto simp: intsetAdd_def)
next
  case False
  note D = intset_repD [OF rep]
  have fv: "fits_bytes (is_encoding is) v" using False v D(1) by (simp add: fits_iff_valueEncoding)
  have room': "(length xs + 1) * is_encoding is < 2 ^ 32"
    using room False by (simp add: intset_room_def D(2) max_def)
  obtain found p where s: "intsetSearch is v = Some (found, p)" and ok: "search_ok xs v (found, p)"
    using search_rep [OF rep] by (metis prod.exhaust)
  show ?thesis
  proof (cases found)
    case True
    with ok have "v \<in> set xs" by (auto simp: search_ok_def)
    with False True s rep show ?thesis
      by (auto simp: intsetAdd_def intro!: exI [of _ xs])
  next
    case nf: False
    with ok have p: "p \<le> length xs" "\<forall>x \<in> set (take p xs). x < v" "\<forall>x \<in> set (drop p xs). v < x"
      by (auto simp: search_ok_def)
    have "v \<notin> set xs"
      using ok nf by (auto dest: search_ok_notin)
    moreover have "set (take p xs @ v # drop p xs) = insert v (set xs)"
      by (metis Un_insert_right append_take_drop_id list.simps(15) set_append)
    moreover obtain is' where "intsetAdd is v = Some (is', True)" "intset_rep is' (take p xs @ v # drop p xs)"
      using add_fitting_rep [OF rep fv room' p] False nf s unfolding intsetAdd_def by auto
    ultimately show ?thesis
      by (intro exI [of _ is'] exI [of _ "take p xs @ v # drop p xs"]) simp
  qed
qed

lemma remove_at_rep:
  assumes rep: "intset_rep is xs" and p: "p < length xs"
  shows "\<exists>is'. do {
      let len = is_length is;
      is1 \<leftarrow> (if p < len - 1 then intsetMoveTail is (p + 1) p else Some is);
      let is2 = intsetResize is1 (len - 1);
      Some (is2\<lparr>is_length := len - 1\<rparr>, True)
    } = Some (is', True) \<and> intset_rep is' (take p xs @ drop (Suc p) xs) \<and>
      is_encoding is' = is_encoding is"
proof -
  let ?e = "is_encoding is"
  note D = intset_repD [OF rep]
  define A V B where "A = concat (map (le_bytes ?e) (take p xs))" and "V = le_bytes ?e (xs ! p)"
    and "B = concat (map (le_bytes ?e) (drop (Suc p) xs))"
  have "xs = take p xs @ xs ! p # drop (Suc p) xs" using p by (rule id_take_nth_drop)
  then have c: "is_contents is = A @ V @ B"
    unfolding A_def V_def B_def D(3) by (metis concat.simps(2) concat_append list.simps(9) map_append)
  have len: "length A = p * ?e" "length B = (length xs - Suc p) * ?e" "length V = ?e"
    using p by (simp_all add: A_def B_def V_def length_concat_chunks min_absorb2)
  have len_AB: "length A + length B = (length xs - 1) * ?e"
    unfolding len using p by (simp add: distrib_right [symmetric])
  have "length A + length B \<le> length xs * ?e" unfolding len_AB by simp
  with D(6) have small: "length A + length B < 2 ^ 32" by linarith
  define Y where "Y = drop (length A + length B) (A @ V @ B)"
  have "intsetMoveTail is (p + 1) p = Some (is\<lparr>is_contents := A @ B @ Y\<rparr>)"
    using D(1) p small
    by (subst move_tail [where X = "A @ V" and B = B and Y = "[]"])
      (auto simp: D(2) len c Y_def)
  moreover have "A @ B @ Y = is_contents is" if "\<not> p < length xs - 1"
    using that p len by (simp add: Y_def c)
  ultimately have move: "(if p < length xs - 1 then intsetMoveTail is (p + 1) p else Some is) =
      Some (is\<lparr>is_contents := A @ B @ Y\<rparr>)"
    by simp
  have "sorted_wrt (<) (take p xs @ xs ! p # drop (Suc p) xs)"
    using D(5) id_take_nth_drop [OF p] by simp
  then have "sorted_wrt (<) (take p xs @ drop (Suc p) xs)"
    by (simp add: sorted_wrt_append)
  moreover have "set (take p xs @ drop (Suc p) xs) \<subseteq> set xs"
    by (auto dest: in_set_takeD in_set_dropD)
  ultimately have "intset_rep (is\<lparr>is_contents := A @ B, is_length := length xs - 1\<rparr>)
      (take p xs @ drop (Suc p) xs)"
    using D p small unfolding intset_rep_def len_AB by (auto simp: A_def B_def subset_iff)
  moreover have "intsetResize (is\<lparr>is_contents := A @ B @ Y\<rparr>) (length xs - 1) = is\<lparr>is_contents := A @ B\<rparr>"
  proof -
    have "(length xs - 1) * ?e mod 2 ^ 32 = length A + length B"
      using small by (simp add: len_AB)
    then show ?thesis by (simp add: intsetResize_def Let_def del: power_numeral)
  qed
  ultimately show ?thesis
    using move by (simp add: D(2))
qed

theorem remove_rep:
  assumes rep: "intset_rep is xs" and v: "int64 v"
  shows "\<exists>is' ys. intsetRemove is v = Some (is', v \<in> set xs) \<and> intset_rep is' ys \<and>
           set ys = set xs - {v} \<and> is_encoding is' = is_encoding is"
proof (cases "intsetValueEncoding v \<le> is_encoding is")
  case False
  then have "v \<notin> set xs"
    using v intset_repD(1,4) [OF rep] by (meson fits_iff_valueEncoding)
  with False rep show ?thesis by (auto simp: intsetRemove_def intro!: exI [of _ xs])
next
  case True
  obtain found p where s: "intsetSearch is v = Some (found, p)" and ok: "search_ok xs v (found, p)"
    using search_rep [OF rep] by (metis prod.exhaust)
  show ?thesis
  proof (cases found)
    case False
    with ok have "v \<notin> set xs" by (auto dest: search_ok_notin)
    with False True s rep show ?thesis by (auto simp: intsetRemove_def intro!: exI [of _ xs])
  next
    case found: True
    with ok have p: "p < length xs" "xs ! p = v" by (auto simp: search_ok_def)
    have "distinct xs" using intset_repD(5) [OF rep] by (simp add: strict_sorted_iff)
    then have "set (take p xs @ drop (Suc p) xs) = set xs - {v}"
    proof -
      obtain us vs where "xs = us @ v # vs" "take p xs = us" "drop (Suc p) xs = vs"
        using p id_take_nth_drop [OF p(1)] by blast
      with \<open>distinct xs\<close> show ?thesis by auto
    qed
    moreover have "v \<in> set xs" using p by auto
    moreover obtain is' where "intsetRemove is v = Some (is', True)"
      "intset_rep is' (take p xs @ drop (Suc p) xs)" "is_encoding is' = is_encoding is"
      using remove_at_rep [OF rep p(1)] True found s unfolding intsetRemove_def by auto
    ultimately show ?thesis
      by (intro exI [of _ is'] exI [of _ "take p xs @ drop (Suc p) xs"]) simp
  qed
qed


theorem find_rep:
  assumes rep: "intset_rep is xs" and v: "int64 v"
  shows "intsetFind is v = Some (v \<in> set xs)"
proof (cases "intsetValueEncoding v \<le> is_encoding is")
  case False
  then have "v \<notin> set xs"
    using v intset_repD(1,4) [OF rep] by (meson fits_iff_valueEncoding)
  with False show ?thesis by (simp add: intsetFind_def)
next
  case True
  obtain found p where s: "intsetSearch is v = Some (found, p)" and ok: "search_ok xs v (found, p)"
    using search_rep [OF rep] by (metis prod.exhaust)
  have "found \<longleftrightarrow> v \<in> set xs"
  proof (cases found)
    case True
    with ok show ?thesis by (auto simp: search_ok_def)
  next
    case False
    with ok search_ok_notin [of xs v p] show ?thesis by simp
  qed
  with True s show ?thesis by (simp add: intsetFind_def)
qed

lemma new_rep: "intset_rep intsetNew []"
  by (simp add: intset_rep_def intsetNew_def)


section \<open>The interface: a finite set of 64-bit integers\<close>

text \<open>
  What the clients of the integer set rely on: kvolve's registry of connected clients
  (\<^verbatim>\<open>version_hash.is\<close>) and the set type of \<^verbatim>\<open>t_set.c\<close>. The operations are partial: they
  promise a result for values of the element type when there is room for one more.
\<close>

locale int_set =
  fixes empty :: 's
    and add :: "'s \<Rightarrow> int \<Rightarrow> ('s \<times> bool) option"
    and remove :: "'s \<Rightarrow> int \<Rightarrow> ('s \<times> bool) option"
    and find :: "'s \<Rightarrow> int \<Rightarrow> bool option"
    and size :: "'s \<Rightarrow> nat"
    and elems :: "'s \<Rightarrow> int set"
    and invar :: "'s \<Rightarrow> bool"
    and room :: "'s \<Rightarrow> int \<Rightarrow> bool"
    and valid :: "int \<Rightarrow> bool"
  assumes elems_empty: "elems empty = {}"
    and invar_empty: "invar empty"
    and add_ok: "invar s \<Longrightarrow> valid v \<Longrightarrow> room s v \<Longrightarrow>
      \<exists>s'. add s v = Some (s', v \<notin> elems s) \<and> invar s' \<and> elems s' = insert v (elems s)"
    and remove_ok: "invar s \<Longrightarrow> valid v \<Longrightarrow>
      \<exists>s'. remove s v = Some (s', v \<in> elems s) \<and> invar s' \<and> elems s' = elems s - {v}"
    and find_ok: "invar s \<Longrightarrow> valid v \<Longrightarrow> find s v = Some (v \<in> elems s)"
    and size_ok: "invar s \<Longrightarrow> size s = card (elems s)"
    and finite_elems: "invar s \<Longrightarrow> finite (elems s)"
begin

text \<open>Adding a value makes it found; removing it again restores the elements.\<close>

lemma find_after_add:
  assumes "invar s" "valid v" "room s v" "valid w"
  shows "\<exists>s'. add s v = Some (s', v \<notin> elems s) \<and> find s' w = Some (w = v \<or> w \<in> elems s)"
  using add_ok [OF assms(1-3)] find_ok assms(4) by auto

lemma remove_after_add:
  assumes "invar s" "valid v" "room s v" "v \<notin> elems s"
  shows "\<exists>s' s''. add s v = Some (s', True) \<and> remove s' v = Some (s'', True) \<and>
           invar s'' \<and> elems s'' = elems s"
proof -
  obtain s' where s': "add s v = Some (s', True)" "invar s'" "elems s' = insert v (elems s)"
    using add_ok [OF assms(1-3)] assms(4) by auto
  then obtain s'' where "remove s' v = Some (s'', True)" "invar s''" "elems s'' = elems s' - {v}"
    using remove_ok [OF s'(2) assms(2)] by auto
  with s' assms(4) show ?thesis by auto
qed

lemma size_after_add:
  assumes "invar s" "valid v" "room s v"
  shows "\<exists>s'. add s v = Some (s', v \<notin> elems s) \<and>
           size s' = (if v \<in> elems s then size s else Suc (size s))"
  using add_ok [OF assms] size_ok finite_elems [OF assms(1)] assms(1)
  by (auto simp: insert_absorb)

text \<open>Draining a list of members one by one, the way deprecated clients are dropped.\<close>

primrec drain :: "'s \<Rightarrow> int list \<Rightarrow> 's option" where
  "drain s [] = Some s"
| "drain s (v # vs) = (case remove s v of None \<Rightarrow> None | Some (s', _) \<Rightarrow> drain s' vs)"

lemma drain_ok:
  assumes "invar s" "\<forall>v \<in> set vs. valid v"
  shows "\<exists>s'. drain s vs = Some s' \<and> invar s' \<and> elems s' = elems s - set vs"
  using assms
proof (induction vs arbitrary: s)
  case (Cons v vs)
  then obtain s' where s': "remove s v = Some (s', v \<in> elems s)" "invar s'" "elems s' = elems s - {v}"
    using remove_ok [of s v] by auto
  with Cons.IH [of s'] Cons.prems obtain s'' where
    "drain s' vs = Some s''" "invar s''" "elems s'' = elems s' - set vs"
    by auto
  with s' show ?case by auto
qed simp

end

lemma intset_elems_sorted:
  "intset_inv is \<Longrightarrow> sorted_wrt (<) (intset_elems is) \<and> length (intset_elems is) = is_length is"
  by (simp add: intset_inv_def intset_repD)

interpretation intset: int_set intsetNew intsetAdd intsetRemove intsetFind intsetLen
  "\<lambda>is. set (intset_elems is)" intset_inv intset_room int64
proof
  show "set (intset_elems intsetNew) = {}"
    by (simp add: intset_elems_rep [OF new_rep])
  show "intset_inv intsetNew"
    using new_rep by (auto simp: intset_inv_iff)
next
  fix s v assume s: "intset_inv s" and v: "int64 v"
  from s obtain xs where xs: "intset_rep s xs" "intset_elems s = xs" by (rule intset_invE)
  show "\<exists>s'. intsetAdd s v = Some (s', v \<notin> set (intset_elems s)) \<and> intset_inv s' \<and>
      set (intset_elems s') = insert v (set (intset_elems s))" if "intset_room s v"
    using add_rep [OF xs(1) v that] xs(2) by (auto simp: intset_inv_iff dest: intset_elems_rep)
  show "\<exists>s'. intsetRemove s v = Some (s', v \<in> set (intset_elems s)) \<and> intset_inv s' \<and>
      set (intset_elems s') = set (intset_elems s) - {v}"
    using remove_rep [OF xs(1) v] xs(2) by (auto simp: intset_inv_iff dest: intset_elems_rep)
  show "intsetFind s v = Some (v \<in> set (intset_elems s))"
    using find_rep [OF xs(1) v] xs(2) by simp
next
  fix s assume "intset_inv s"
  then have "distinct (intset_elems s)" "length (intset_elems s) = is_length s"
    using intset_elems_sorted by (auto simp: strict_sorted_iff)
  then show "intsetLen s = card (set (intset_elems s))"
    by (simp add: intsetLen_def distinct_card)
qed simp

lemma random_rep:
  assumes "intset_inv is" "is_length is \<noteq> 0"
  shows "\<exists>v. intsetRandom is r = Some v \<and> v \<in> set (intset_elems is)"
proof -
  obtain xs where xs: "intset_rep is xs" "intset_elems is = xs"
    using assms(1) by (rule intset_invE)
  then have "r mod is_length is < length xs"
    using assms(2) by (simp add: intset_repD)
  then show ?thesis
    using get_rep [OF xs(1)] xs assms(2) by (auto simp: intsetRandom_def intset_repD)
qed



section \<open>Properties\<close>

text \<open>C40. Adding a 64-bit value to an integer set succeeds, reports whether the value was new,
  keeps the representation invariant (sorted, one width for all elements), and makes exactly
  that value a new member for every later lookup, whatever the upgrade of the encoding moves.\<close>

theorem intset_add_find:
  assumes "intset_inv s" "int64 v" "intset_room s v" "int64 w"
  shows "\<exists>s'. intsetAdd s v = Some (s', v \<notin> set (intset_elems s)) \<and> intset_inv s' \<and>
           intsetFind s' w = Some (w = v \<or> w \<in> set (intset_elems s))"
  using intset.add_ok [OF assms(1-3)] intset.find_ok assms(4) by auto

theorem intset_add_find_witness:
  "\<exists>s'. intsetAdd intsetNew 70000 = Some (s', True) \<and> intset_inv s' \<and> intsetFind s' 5 = Some False"
proof -
  have "int64 70000" "int64 5" by (simp_all add: fits_bytes_def)
  moreover have "intset_room intsetNew 70000" by (simp add: intset_room_def intsetNew_def intsetValueEncoding_def)
  ultimately show ?thesis
    using intset_add_find [OF intset.invar_empty, of 70000 5] intset.elems_empty by auto
qed

text \<open>Removing a value that was just added restores the members of the set, and both calls
  report success.\<close>

theorem intset_add_remove:
  assumes "intset_inv s" "int64 v" "intset_room s v" "v \<notin> set (intset_elems s)"
  shows "\<exists>s' s''. intsetAdd s v = Some (s', True) \<and> intsetRemove s' v = Some (s'', True) \<and>
           intset_inv s'' \<and> set (intset_elems s'') = set (intset_elems s)"
  using assms by (rule intset.remove_after_add)

theorem intset_add_remove_witness:
  "\<exists>s' s''. intsetAdd intsetNew (- 3) = Some (s', True) \<and> intsetRemove s' (- 3) = Some (s'', True) \<and>
     set (intset_elems s'') = {}"
proof -
  have "int64 (- 3)" by (simp add: fits_bytes_def)
  moreover have "intset_room intsetNew (- 3)" by (simp add: intset_room_def intsetNew_def intsetValueEncoding_def)
  ultimately show ?thesis
    using intset_add_remove [OF intset.invar_empty, of "- 3"] intset.elems_empty by auto
qed

end
