(* ===== verification/Util.thy ===== *)
theory Util
  imports Prelude
begin

text \<open>
  The string helpers of \<^verbatim>\<open>redis-2.8.17/src/util.c\<close>: decimal printing and parsing of
  64-bit integers, which decide how a string object is encoded and therefore whether
  kvolve finds a version on it. Printing is shown to stay inside its buffer and to give the
  decimal notation; parsing to accept exactly the decimal notations of 64-bit integers.
\<close>

abbreviation (input) ULLONG_MAX :: nat where "ULLONG_MAX \<equiv> 18446744073709551615"
abbreviation (input) LLONG_MAX :: int where "LLONG_MAX \<equiv> 9223372036854775807"
abbreviation (input) LLONG_MIN :: int where "LLONG_MIN \<equiv> -9223372036854775808"

definition isdigit :: "char \<Rightarrow> bool" where
  "isdigit c \<longleftrightarrow> 48 \<le> (of_char c :: nat) \<and> (of_char c :: nat) \<le> 57"

definition digit_val :: "char \<Rightarrow> nat" where
  "digit_val c = of_char c - 48"

definition digit_char :: "nat \<Rightarrow> char" where
  "digit_char d = char_of (48 + d)"


section \<open>Printing integers\<close>

fun digits10 :: "nat \<Rightarrow> nat" where
  "digits10 v =
     (if v < 10 then 1
      else if v < 100 then 2
      else if v < 1000 then 3
      else if v < 1000000000000 then
        (if v < 100000000 then
           (if v < 1000000 then
              (if v < 10000 then 4 else 5 + (if v \<ge> 100000 then 1 else 0))
            else 7 + (if v \<ge> 10000000 then 1 else 0))
         else if v < 10000000000 then 9 + (if v \<ge> 1000000000 then 1 else 0)
         else 11 + (if v \<ge> 100000000000 then 1 else 0))
      else 12 + digits10 (v div 1000000000000))"

declare digits10.simps [simp del]

definition digit_pairs :: string where
  "digit_pairs =
     ''0001020304050607080910111213141516171819'' @
     ''2021222324252627282930313233343536373839'' @
     ''4041424344454647484950515253545556575859'' @
     ''6061626364656667686970717273747576777879'' @
     ''8081828384858687888990919293949596979899''"

text \<open>A store into the destination buffer; None is a write outside it.\<close>

definition put :: "string \<Rightarrow> nat \<Rightarrow> char \<Rightarrow> string option" where
  "put dst i c = (if i < length dst then Some (dst[i := c]) else None)"

text \<open>
  The digit loop, two digits at a time from the right. \<^verbatim>\<open>next\<close> is unsigned, so moving it
  below zero would address outside the buffer: None.
\<close>

fun ll2string_loop :: "nat \<Rightarrow> nat \<Rightarrow> string \<Rightarrow> (nat \<times> nat \<times> string) option" where
  "ll2string_loop v nxt dst =
     (if v \<ge> 100 then
        if nxt < 2 then None
        else do {
          let i = (v mod 100) * 2;
          dst1 \<leftarrow> put dst nxt (digit_pairs ! (i + 1));
          dst2 \<leftarrow> put dst1 (nxt - 1) (digit_pairs ! i);
          ll2string_loop (v div 100) (nxt - 2) dst2
        }
      else Some (v, nxt, dst))"

declare ll2string_loop.simps [simp del]

definition ll2string :: "string \<Rightarrow> int \<Rightarrow> (string \<times> nat) option" where
  "ll2string dst svalue =
     (let negative = svalue < 0;
          value = (if svalue < 0
                   then if svalue \<noteq> LLONG_MIN then nat (- svalue) else nat LLONG_MAX + 1
                   else nat svalue);
          len = digits10 value + (if negative then 1 else 0) in
      if len \<ge> length dst then Some (dst, 0)
      else do {
        dst0 \<leftarrow> put dst len NUL;
        (v, nxt, dst1) \<leftarrow> ll2string_loop value (len - 1) dst0;
        dst2 \<leftarrow> (if v < 10 then put dst1 nxt (digit_char v)
                 else if nxt < 1 then None
                 else do {
                   d \<leftarrow> put dst1 nxt (digit_pairs ! (v * 2 + 1));
                   put d (nxt - 1) (digit_pairs ! (v * 2))
                 });
        dst3 \<leftarrow> (if negative then put dst2 0 (CHR ''-'') else Some dst2);
        Some (dst3, len)
      })"


section \<open>Parsing integers\<close>

fun string2ll_loop :: "nat \<Rightarrow> string \<Rightarrow> (nat \<times> string) option" where
  "string2ll_loop v [] = Some (v, [])"
| "string2ll_loop v (c # cs) =
     (if isdigit c then
        if v > ULLONG_MAX div 10 then None
        else if v * 10 > ULLONG_MAX - digit_val c then None
        else string2ll_loop (v * 10 + digit_val c) cs
      else Some (v, c # cs))"

definition string2ll :: "string \<Rightarrow> int option" where
  "string2ll s =
     (if s = [] then None
      else if s = ''0'' then Some 0
      else
        let negative = (hd s = CHR ''-'');
            p = (if negative then tl s else s) in
        if p = [] then None
        else if 49 \<le> (of_char (hd p) :: nat) \<and> (of_char (hd p) :: nat) \<le> 57 then
          (case string2ll_loop (digit_val (hd p)) (tl p) of
             None \<Rightarrow> None
           | Some (v, rest) \<Rightarrow>
               if rest \<noteq> [] then None
               else if negative then
                 if v > nat (- (LLONG_MIN + 1)) + 1 then None else Some (- int v)
               else if int v > LLONG_MAX then None else Some (int v))
        else None)"

definition string2l :: "string \<Rightarrow> int option" where
  "string2l s =
     (case string2ll s of
        None \<Rightarrow> None
      | Some ll \<Rightarrow> if ll < LLONG_MIN \<or> ll > LLONG_MAX then None else Some ll)"


section \<open>Reference: decimal notation\<close>

fun dec_nat :: "nat \<Rightarrow> string" where
  "dec_nat n = (if n < 10 then [digit_char n] else dec_nat (n div 10) @ [digit_char (n mod 10)])"

declare dec_nat.simps [simp del]

definition dec_int :: "int \<Rightarrow> string" where
  "dec_int v = (if v < 0 then CHR ''-'' # dec_nat (nat (- v)) else dec_nat (nat v))"

lemma dec_nat_small: "n < 10 \<Longrightarrow> dec_nat n = [digit_char n]"
  by (simp add: dec_nat.simps)

lemma dec_nat_large: "10 \<le> n \<Longrightarrow> dec_nat n = dec_nat (n div 10) @ [digit_char (n mod 10)]"
  by (subst dec_nat.simps) simp

lemma dec_nat_nonempty [simp]: "dec_nat n \<noteq> []"
  by (subst dec_nat.simps) simp

lemma length_dec_nat_range:
  "n < 10 ^ Suc d \<Longrightarrow> d = 0 \<or> 10 ^ d \<le> n \<Longrightarrow> length (dec_nat n) = Suc d"
proof (induction d arbitrary: n)
  case 0
  then show ?case by (simp add: dec_nat_small)
next
  case (Suc d)
  have "(10 :: nat) \<le> 10 ^ Suc d" by simp
  with Suc.prems have "10 \<le> n" by linarith
  moreover have "n div 10 < 10 ^ Suc d"
    using Suc.prems(1) by (simp add: less_mult_imp_div_less mult.commute)
  moreover have "10 ^ d \<le> n div 10"
    using Suc.prems(2) by (simp add: less_eq_div_iff_mult_less_eq mult.commute)
  ultimately show ?case
    using Suc.IH [of "n div 10"] by (simp add: dec_nat_large)
qed

lemma length_dec_nat_div:
  "10 ^ k \<le> n \<Longrightarrow> length (dec_nat n) = k + length (dec_nat (n div 10 ^ k))"
proof (induction k)
  case (Suc k)
  have "(10 :: nat) ^ k \<le> 10 ^ Suc k" by simp
  with Suc.prems have "10 ^ k \<le> n" by linarith
  moreover have "10 \<le> n div 10 ^ k"
    using Suc.prems by (simp add: less_eq_div_iff_mult_less_eq)
  ultimately show ?case
    using Suc.IH by (simp add: dec_nat_large div_mult2_eq power_Suc2 del: power_Suc)
qed simp

lemma digits10_length: "digits10 v = length (dec_nat v)"
proof (induction v rule: digits10.induct)
  case (1 v)
  note range = length_dec_nat_range
  show ?case
  proof (cases "v < 1000000000000")
    case False
    have "length (dec_nat v) = 12 + length (dec_nat (v div 10 ^ 12))"
      using False by (intro length_dec_nat_div) simp
    with False "1.IH" show ?thesis by (subst digits10.simps) simp
  next
    case True
    consider "v < 10" | "10 \<le> v" "v < 100" | "100 \<le> v" "v < 1000" | "1000 \<le> v" "v < 10000"
      | "10000 \<le> v" "v < 100000" | "100000 \<le> v" "v < 1000000" | "1000000 \<le> v" "v < 10000000"
      | "10000000 \<le> v" "v < 100000000" | "100000000 \<le> v" "v < 1000000000"
      | "1000000000 \<le> v" "v < 10000000000" | "10000000000 \<le> v" "v < 100000000000"
      | "100000000000 \<le> v" "v < 1000000000000"
      using True by linarith
    then show ?thesis
      by cases (subst digits10.simps,
          simp add: range [of v 0] range [of v 1] range [of v 2] range [of v 3] range [of v 4]
            range [of v 5] range [of v 6] range [of v 7] range [of v 8] range [of v 9]
            range [of v 10] range [of v 11])+
  qed
qed

lemma digit_pairs_concat:
  "digit_pairs = concat (map (\<lambda>k. [digit_char (k div 10), digit_char (k mod 10)]) [0..<100])"
  by code_simp

lemma digit_pairs_nth:
  assumes "k < 100"
  shows "digit_pairs ! (k * 2) = digit_char (k div 10) \<and> digit_pairs ! (k * 2 + 1) = digit_char (k mod 10)"
proof -
  let ?f = "\<lambda>k. [digit_char (k div 10), digit_char (k mod 10)]"
  have "take 2 (drop (k * 2) (concat (map ?f [0..<100]) @ [])) = ?f ([0..<100] ! k)"
    using assms by (intro chunk_at) simp_all
  then have "take 2 (drop (k * 2) digit_pairs) = ?f k"
    using assms by (simp add: digit_pairs_concat)
  moreover have "k * 2 + 1 < length digit_pairs" using assms by (simp add: digit_pairs_def)
  ultimately show ?thesis
    by (metis (no_types, lifting) Suc_eq_plus1 add_lessD1 Cons_nth_drop_Suc list.inject numeral_2_eq_2 take_Suc_Cons)
qed


section \<open>Printing is right, and stays inside the buffer\<close>

text \<open>The loop and the last one or two digits, as one step on the buffer.\<close>

definition ll2string_digits :: "nat \<Rightarrow> nat \<Rightarrow> string \<Rightarrow> string option" where
  "ll2string_digits v0 nxt0 dst = do {
     (v, nxt, dst1) \<leftarrow> ll2string_loop v0 nxt0 dst;
     if v < 10 then put dst1 nxt (digit_char v)
     else if nxt < 1 then None
     else do {
       d \<leftarrow> put dst1 nxt (digit_pairs ! (v * 2 + 1));
       put d (nxt - 1) (digit_pairs ! (v * 2))
     }
   }"

lemma two_digits:
  "10 \<le> v \<Longrightarrow> dec_nat v = (if v < 100 then [] else dec_nat (v div 100)) @
     [digit_char (v mod 100 div 10), digit_char (v mod 100 mod 10)]"
proof (cases "v < 100")
  case True
  then have "v div 10 < 10" "v mod 100 = v" by auto
  moreover assume "10 \<le> v"
  ultimately show ?thesis using True by (simp add: dec_nat_large dec_nat_small)
next
  case False
  then have "10 \<le> v div 10" by auto
  moreover have "v div 10 div 10 = v div 100" by (simp add: div_mult2_eq [symmetric])
  moreover have "v mod 100 = 10 * (v div 10 mod 10) + v mod 10"
    using mod_mult2_eq [of v 10 10] by simp
  then have "v div 10 mod 10 = v mod 100 div 10" "v mod 10 = v mod 100 mod 10"
    by simp_all
  moreover assume "10 \<le> v"
  ultimately show ?thesis using False by (simp add: dec_nat_large)
qed

lemma put_two:
  assumes "0 < n" "n < length dst"
  shows "(put dst n b \<bind> (\<lambda>d. put d (n - 1) a)) = Some (take (n - 1) dst @ [a, b] @ drop (n + 1) dst)"
proof -
  obtain m where n: "n = Suc m" using assms(1) by (cases n) auto
  have "dst[Suc m := b, m := a] = take m dst @ [a, b] @ drop (Suc (Suc m)) dst"
    using assms(2) n by (simp add: upd_conv_take_nth_drop take_Suc_conv_app_nth nth_append
        list_update_append)
  with assms n show ?thesis by (simp add: put_def)
qed

lemma ll2string_digits_ok:
  assumes "length (dec_nat v) \<le> nxt + 1" "nxt < length dst"
  shows "ll2string_digits v nxt dst =
           Some (take (nxt + 1 - length (dec_nat v)) dst @ dec_nat v @ drop (nxt + 1) dst)"
  using assms
proof (induction v nxt dst rule: ll2string_loop.induct)
  case (1 v nxt dst)
  show ?case
  proof (cases "v \<ge> 100")
    case False
    show ?thesis
    proof (cases "v < 10")
      case True
      with False "1.prems" show ?thesis
        by (simp add: ll2string_digits_def ll2string_loop.simps dec_nat_small put_def upd_conv_take_nth_drop)
    next
      case ten: False
      then have d: "dec_nat v = [digit_char (v div 10), digit_char (v mod 10)]"
        using False two_digits [of v] by simp
      have pr: "digit_pairs ! (v * 2) = digit_char (v div 10)" "digit_pairs ! (v * 2 + 1) = digit_char (v mod 10)"
        using False digit_pairs_nth [of v] by simp_all
      from "1.prems" d have "0 < nxt" by simp
      then show ?thesis
        using False ten "1.prems" pr put_two [of nxt dst "digit_char (v mod 10)" "digit_char (v div 10)"]
        by (simp add: ll2string_digits_def ll2string_loop.simps d)
    qed
  next
    case True
    let ?i = "v mod 100 * 2"
    have pr: "digit_pairs ! ?i = digit_char (v mod 100 div 10)"
      "digit_pairs ! (?i + 1) = digit_char (v mod 100 mod 10)"
      using digit_pairs_nth [of "v mod 100"] by simp_all
    have d: "dec_nat v = dec_nat (v div 100) @ [digit_char (v mod 100 div 10), digit_char (v mod 100 mod 10)]"
      using True two_digits [of v] by simp
    have "1 \<le> length (dec_nat (v div 100))" by (simp add: Suc_le_eq)
    with "1.prems" d have n: "2 \<le> nxt" by simp
    define dst1 where "dst1 = dst[nxt := digit_pairs ! (?i + 1)]"
    define dst2 where "dst2 = dst1[nxt - 1 := digit_pairs ! ?i]"
    have p1: "put dst nxt (digit_pairs ! (?i + 1)) = Some dst1"
      using "1.prems" by (simp add: put_def dst1_def)
    have p2: "put dst1 (nxt - 1) (digit_pairs ! ?i) = Some dst2"
      using "1.prems" n by (simp add: put_def dst1_def dst2_def)
    have eq: "dst2 = take (nxt - 1) dst @ [digit_char (v mod 100 div 10), digit_char (v mod 100 mod 10)] @ drop (nxt + 1) dst"
      using put_two [of nxt dst "digit_pairs ! (?i + 1)" "digit_pairs ! ?i"] p1 p2 n "1.prems" pr by simp
    have "ll2string_digits v nxt dst = ll2string_digits (v div 100) (nxt - 2) dst2"
      using True n p1 p2 unfolding ll2string_digits_def by (subst ll2string_loop.simps) simp
    also have "\<dots> = Some (take (nxt - 2 + 1 - length (dec_nat (v div 100))) dst2 @
        dec_nat (v div 100) @ drop (nxt - 2 + 1) dst2)"
      using True n p1 p2 "1.prems" d by (intro "1.IH") (auto simp: dst1_def dst2_def)
    finally have res: "ll2string_digits v nxt dst = Some (take (nxt - 1 - length (dec_nat (v div 100))) dst2 @
        dec_nat (v div 100) @ drop (nxt - 1) dst2)"
      using n by (simp add: Suc_diff_Suc numeral_2_eq_2)
    have "take m dst2 = take m dst" if "m \<le> nxt - 1" for m
      using that "1.prems" by (simp add: eq min_absorb1)
    moreover have "drop (nxt - 1) dst2 = [digit_char (v mod 100 div 10), digit_char (v mod 100 mod 10)] @ drop (nxt + 1) dst"
      using "1.prems" by (simp add: eq)
    ultimately show ?thesis
      unfolding res d by simp
  qed
qed

lemma of_digit_char [simp]: "d < 10 \<Longrightarrow> (of_char (digit_char d) :: nat) = 48 + d"
  by (simp add: digit_char_def)

lemma isdigit_digit_char [simp]: "d < 10 \<Longrightarrow> isdigit (digit_char d)"
  by (simp add: isdigit_def)

lemma digit_val_digit_char [simp]: "d < 10 \<Longrightarrow> digit_val (digit_char d) = d"
  by (simp add: digit_val_def)

lemma digit_char_digit_val [simp]: "isdigit c \<Longrightarrow> digit_char (digit_val c) = c"
  by (auto simp: digit_char_def digit_val_def isdigit_def)

lemma digit_val_less [simp]: "isdigit c \<Longrightarrow> digit_val c < 10"
  by (auto simp: digit_val_def isdigit_def)

lemma dec_nat_digits: "c \<in> set (dec_nat n) \<Longrightarrow> isdigit c"
proof (induction n rule: dec_nat.induct)
  case (1 n)
  then show ?case
    by (cases "n < 10") (auto simp: dec_nat_small dec_nat_large)
qed

lemma NUL_not_digit [simp]: "\<not> isdigit NUL"
  by (simp add: isdigit_def)

lemma NUL_notin_dec_int [simp]: "NUL \<notin> set (dec_int v)"
  by (auto simp: dec_int_def dest: dec_nat_digits)

lemma ll2string_via_digits:
  "ll2string dst svalue =
     (let negative = svalue < 0;
          value = nat \<bar>svalue\<bar>;
          len = digits10 value + (if negative then 1 else 0) in
      if len \<ge> length dst then Some (dst, 0)
      else do {
        dst0 \<leftarrow> put dst len NUL;
        dst2 \<leftarrow> ll2string_digits value (len - 1) dst0;
        dst3 \<leftarrow> (if negative then put dst2 0 (CHR ''-'') else Some dst2);
        Some (dst3, len)
      })"
proof -
  have "(if svalue < 0 then if svalue \<noteq> LLONG_MIN then nat (- svalue) else nat LLONG_MAX + 1
         else nat svalue) = nat \<bar>svalue\<bar>"
    by auto
  then show ?thesis
    unfolding ll2string_def ll2string_digits_def Let_def by (simp add: split_def)
qed

lemma c_str_append_NUL: "NUL \<notin> set s \<Longrightarrow> c_str (s @ NUL # t) = s"
  by (induction s) (auto simp: c_str_def)

theorem ll2string_ok:
  assumes len: "length (dec_int v) < length dst"
  shows "\<exists>dst'. ll2string dst v = Some (dst', length (dec_int v)) \<and>
           length dst' = length dst \<and> c_str dst' = dec_int v"
proof -
  define n neg where "n = nat \<bar>v\<bar>" and "neg = (if v < 0 then 1 else 0 :: nat)"
  define L where "L = length (dec_nat n) + neg"
  have L: "length (dec_int v) = L" "0 < L" "L < length dst"
    using len by (auto simp: L_def n_def neg_def dec_int_def)
  define dst0 where "dst0 = dst[L := NUL]"
  have d0: "drop L dst0 = NUL # drop (L + 1) dst" "length dst0 = length dst"
    using L by (simp_all add: dst0_def upd_conv_take_nth_drop)
  have dig: "ll2string_digits n (L - 1) dst0 = Some (take neg dst0 @ dec_nat n @ drop L dst0)"
    using L d0 by (subst ll2string_digits_ok) (auto simp: L_def)
  define dst3 where "dst3 = (if v < 0 then [CHR ''-''] else []) @ dec_nat n @ NUL # drop (L + 1) dst"
  have "dst0 \<noteq> []" using L d0 by auto
  then have sign: "(if v < 0 then put (take neg dst0 @ dec_nat n @ drop L dst0) 0 (CHR ''-'')
      else Some (take neg dst0 @ dec_nat n @ drop L dst0)) = Some dst3"
    using L d0 by (cases dst0) (auto simp: dst3_def neg_def put_def)
  have "ll2string dst v = Some (dst3, L)"
    using L dig sign
    by (auto simp: ll2string_via_digits digits10_length n_def [symmetric] L_def [symmetric]
        neg_def [symmetric] put_def dst0_def [symmetric] Let_def)
  moreover have "dst3 = dec_int v @ NUL # drop (L + 1) dst"
    by (simp add: dst3_def dec_int_def n_def)
  then have "c_str dst3 = dec_int v" "length dst3 = length dst"
    using L by (simp_all add: c_str_append_NUL)
  ultimately show ?thesis using L by auto
qed


section \<open>Parsing accepts exactly the decimal notations\<close>

definition num_of :: "nat \<Rightarrow> string \<Rightarrow> nat" where
  "num_of v cs = foldl (\<lambda>v c. v * 10 + digit_val c) v cs"

lemma num_of_simps [simp]:
  "num_of v [] = v"
  "num_of v (c # cs) = num_of (v * 10 + digit_val c) cs"
  "num_of v (cs @ [c]) = num_of v cs * 10 + digit_val c"
  by (simp_all add: num_of_def)

lemma num_of_ge: "v \<le> num_of v cs"
proof (induction cs arbitrary: v)
  case (Cons c cs)
  have "v \<le> v * 10 + digit_val c" by simp
  also have "\<dots> \<le> num_of (v * 10 + digit_val c) cs" by (rule Cons.IH)
  finally show ?case by simp
qed simp

lemma num_of_dec_nat: "num_of 0 (dec_nat n) = n"
  by (induction n rule: dec_nat.induct) (subst dec_nat.simps, simp)

lemma dec_nat_num_of:
  "isdigit c \<Longrightarrow> digit_val c \<noteq> 0 \<Longrightarrow> \<forall>x \<in> set cs. isdigit x \<Longrightarrow> dec_nat (num_of (digit_val c) cs) = c # cs"
proof (induction cs rule: rev_induct)
  case Nil
  then show ?case by (simp add: dec_nat_small)
next
  case (snoc x cs)
  let ?n = "num_of (digit_val c) cs"
  have "0 < ?n" using num_of_ge [of "digit_val c" cs] snoc.prems(2) by linarith
  then have "10 \<le> ?n * 10 + digit_val x" by simp
  then show ?case using snoc by (simp add: dec_nat_large)
qed

lemma string2ll_loop_digits:
  "string2ll_loop v cs =
     (let ds = takeWhile isdigit cs in
      if num_of v ds \<le> ULLONG_MAX then Some (num_of v ds, dropWhile isdigit cs) else None)"
  if "v \<le> ULLONG_MAX"
  using that
proof (induction v cs rule: string2ll_loop.induct)
  case (2 v c cs)
  show ?case
  proof (cases "isdigit c \<and> v \<le> ULLONG_MAX div 10 \<and> v * 10 \<le> ULLONG_MAX - digit_val c")
    case True
    moreover from True have "v * 10 + digit_val c \<le> ULLONG_MAX"
      using digit_val_less [of c] by linarith
    ultimately show ?thesis using "2.IH" by (simp add: Let_def)
  next
    case False
    have "num_of (v * 10 + digit_val c) (takeWhile isdigit cs) > ULLONG_MAX" if "isdigit c"
    proof -
      have "v * 10 + digit_val c > ULLONG_MAX"
        using False that digit_val_less [OF that] by linarith
      then show ?thesis using num_of_ge [of "v * 10 + digit_val c"] by (rule less_le_trans)
    qed
    with False "2.prems" show ?thesis by (auto simp: Let_def)
  qed
qed simp

lemma dec_nat_hd:
  assumes "0 < n"
  shows "isdigit (hd (dec_nat n)) \<and> digit_val (hd (dec_nat n)) \<noteq> 0"
  using assms
proof (induction n rule: dec_nat.induct)
  case (1 n)
  then show ?case
    by (cases "n < 10") (auto simp: dec_nat_small dec_nat_large)
qed


lemma leading_digit_iff: "49 \<le> (of_char c :: nat) \<and> (of_char c :: nat) \<le> 57 \<longleftrightarrow> isdigit c \<and> digit_val c \<noteq> 0"
  by (auto simp: isdigit_def digit_val_def)

lemma parse_positive:
  "isdigit c \<and> digit_val c \<noteq> 0 \<and> string2ll_loop (digit_val c) cs = Some (n, []) \<longleftrightarrow>
     0 < n \<and> n \<le> ULLONG_MAX \<and> c # cs = dec_nat n"
proof
  assume L: "isdigit c \<and> digit_val c \<noteq> 0 \<and> string2ll_loop (digit_val c) cs = Some (n, [])"
  then have "digit_val c < 10" by simp
  then have "digit_val c \<le> ULLONG_MAX" by linarith
  from L string2ll_loop_digits [OF this, of cs]
  have all: "dropWhile isdigit cs = []" and n: "n = num_of (digit_val c) (takeWhile isdigit cs)"
    and "n \<le> ULLONG_MAX"
    by (auto simp: Let_def split: if_splits)
  from all have ds: "\<forall>x \<in> set cs. isdigit x" by (simp add: dropWhile_eq_Nil_conv)
  then have "takeWhile isdigit cs = cs" by simp
  with n have n': "n = num_of (digit_val c) cs" by (simp only:)
  have "digit_val c \<le> n" unfolding n' by (rule num_of_ge)
  moreover have "dec_nat n = c # cs" unfolding n' using L ds by (intro dec_nat_num_of) auto
  ultimately show "0 < n \<and> n \<le> ULLONG_MAX \<and> c # cs = dec_nat n"
    using L \<open>n \<le> ULLONG_MAX\<close> by auto
next
  assume R: "0 < n \<and> n \<le> ULLONG_MAX \<and> c # cs = dec_nat n"
  then have c: "isdigit c \<and> digit_val c \<noteq> 0" using dec_nat_hd [of n] by (metis list.sel(1))
  have "\<forall>x \<in> set cs. isdigit x" using R dec_nat_digits [of _ n] by (metis list.set_intros(2))
  then have tw: "takeWhile isdigit cs = cs" "dropWhile isdigit cs = []" by auto
  have "num_of (digit_val c) cs = n" using num_of_dec_nat [of n] R by (metis add.left_neutral mult_0 num_of_simps(2))
  moreover have "digit_val c \<le> ULLONG_MAX" using digit_val_less [of c] c by linarith
  ultimately have "string2ll_loop (digit_val c) cs = Some (n, [])"
    using R unfolding string2ll_loop_digits [OF \<open>digit_val c \<le> ULLONG_MAX\<close>] tw Let_def by simp
  with c show "isdigit c \<and> digit_val c \<noteq> 0 \<and> string2ll_loop (digit_val c) cs = Some (n, [])"
    by simp
qed

lemma dec_nat_zero: "dec_nat 0 = ''0''"
  by code_simp

lemma dec_nat_eq_zero: "dec_nat n = ''0'' \<longleftrightarrow> n = 0"
proof
  assume "dec_nat n = ''0''"
  then have "num_of 0 (dec_nat n) = num_of 0 ''0''" by simp
  then show "n = 0" unfolding num_of_dec_nat by (simp add: digit_val_def)
qed (simp add: dec_nat_zero)

lemma hd_dec_nat_not_minus [simp]: "dec_nat n \<noteq> CHR ''-'' # s"
proof
  assume "dec_nat n = CHR ''-'' # s"
  then have "isdigit (CHR ''-'')" using dec_nat_digits [of "CHR ''-''" n] by simp
  then show False by (simp add: isdigit_def)
qed

lemmas hd_dec_nat_not_minus' [simp] = hd_dec_nat_not_minus [symmetric]

text \<open>What is read after the optional sign.\<close>

definition parse_mag :: "string \<Rightarrow> nat option" where
  "parse_mag p =
     (if p = [] then None
      else if 49 \<le> (of_char (hd p) :: nat) \<and> (of_char (hd p) :: nat) \<le> 57 then
        (case string2ll_loop (digit_val (hd p)) (tl p) of
           None \<Rightarrow> None
         | Some (v, rest) \<Rightarrow> if rest \<noteq> [] then None else Some v)
      else None)"

lemma parse_mag_iff: "parse_mag p = Some n \<longleftrightarrow> 0 < n \<and> n \<le> ULLONG_MAX \<and> p = dec_nat n"
proof (cases p)
  case Nil
  then show ?thesis using dec_nat_nonempty [of n] by (auto simp: parse_mag_def simp del: dec_nat_nonempty)
next
  case (Cons c cs)
  have "parse_mag p = Some n \<longleftrightarrow> isdigit c \<and> digit_val c \<noteq> 0 \<and> string2ll_loop (digit_val c) cs = Some (n, [])"
    unfolding parse_mag_def Cons list.sel leading_digit_iff
    by (auto split: option.splits)
  then show ?thesis unfolding parse_positive Cons .
qed

lemma string2ll_parse_mag:
  "string2ll s =
     (if s = ''0'' then Some 0
      else if s \<noteq> [] \<and> hd s = CHR ''-'' then
        (case parse_mag (tl s) of None \<Rightarrow> None
         | Some v \<Rightarrow> if v > 9223372036854775808 then None else Some (- int v))
      else
        (case parse_mag s of None \<Rightarrow> None
         | Some v \<Rightarrow> if int v > LLONG_MAX then None else Some (int v)))"
  by (auto simp: string2ll_def parse_mag_def Let_def split: option.splits)

theorem string2ll_iff:
  "string2ll s = Some v \<longleftrightarrow> LLONG_MIN \<le> v \<and> v \<le> LLONG_MAX \<and> s = dec_int v"
proof -
  consider "s = ''0''" | "s \<noteq> ''0''" "s \<noteq> [] \<and> hd s = CHR ''-''" | "s \<noteq> ''0''" "\<not> (s \<noteq> [] \<and> hd s = CHR ''-'')"
    by blast
  then show ?thesis
  proof cases
    case 1
    then show ?thesis
      using dec_nat_eq_zero [of "nat v"]
      by (auto simp: string2ll_parse_mag dec_int_def eq_commute [of "''0''"])
  next
    case 2
    then obtain q where q: "s = CHR ''-'' # q" by (cases s) auto
    have "string2ll s = Some v \<longleftrightarrow> (\<exists>n. parse_mag q = Some n \<and> n \<le> 9223372036854775808 \<and> v = - int n)"
      unfolding string2ll_parse_mag q by (auto split: option.splits)
    also have "\<dots> \<longleftrightarrow> (\<exists>n. 0 < n \<and> n \<le> 9223372036854775808 \<and> q = dec_nat n \<and> v = - int n)"
      unfolding parse_mag_iff by auto
    also have "\<dots> \<longleftrightarrow> LLONG_MIN \<le> v \<and> v < 0 \<and> q = dec_nat (nat (- v))"
      by (auto intro!: exI [of _ "nat (- v)"])
    finally show ?thesis unfolding q dec_int_def by auto
  next
    case 3
    have "string2ll s = Some v \<longleftrightarrow> (\<exists>n. parse_mag s = Some n \<and> int n \<le> LLONG_MAX \<and> v = int n)"
      unfolding string2ll_parse_mag using 3 by (auto split: option.splits)
    also have "\<dots> \<longleftrightarrow> (\<exists>n. 0 < n \<and> int n \<le> LLONG_MAX \<and> s = dec_nat n \<and> v = int n)"
      unfolding parse_mag_iff by auto
    also have "\<dots> \<longleftrightarrow> 0 < v \<and> v \<le> LLONG_MAX \<and> s = dec_nat (nat v)"
      by (auto intro!: exI [of _ "nat v"])
    finally show ?thesis
      using 3 unfolding dec_int_def by (cases "v = 0") (auto simp: dec_nat_zero)
  qed
qed

lemma string2l_eq: "string2l s = string2ll s"
proof (cases "string2ll s")
  case (Some v)
  then show ?thesis using string2ll_iff [of s v] by (simp add: string2l_def)
qed (simp add: string2l_def)

section \<open>Properties\<close>

text \<open>C38. The string parser accepts exactly the decimal notations of 64-bit integers: no leading
  zeros, no plus sign, no spaces, nothing out of range; and it returns the number they denote.\<close>

theorem string2ll_decimal:
  "string2ll s = Some v \<longleftrightarrow> (LLONG_MIN \<le> v \<and> v \<le> LLONG_MAX) \<and> s = dec_int v"
  unfolding string2ll_iff by simp

text \<open>The integer printer stays inside its buffer: with room for the digits, the sign and the
  terminator it writes the decimal notation of the number followed by a NUL, returns its length,
  and leaves the size of the buffer unchanged.\<close>

theorem ll2string_decimal:
  assumes "length (dec_int v) < length dst"
  shows "\<exists>dst'. ll2string dst v = Some (dst', length (dec_int v)) \<and>
           length dst' = length dst \<and> c_str dst' = dec_int v"
  using assms by (rule ll2string_ok)

theorem ll2string_decimal_witness:
  "\<exists>dst'. ll2string (replicate 21 NUL) (- 1207) = Some (dst', length (dec_int (- 1207))) \<and> c_str dst' = dec_int (- 1207)"
proof -
  have "length (dec_int (- 1207)) < length (replicate 21 NUL)"
    by (simp add: dec_int_def dec_nat.simps)
  from ll2string_decimal [OF this] show ?thesis by blast
qed

end
