(* ===== verification/Glob.thy ===== *)
theory Glob
  imports Prelude
begin

text \<open>
  The glob matcher of \<^verbatim>\<open>redis-2.8.17/src/util.c\<close>, which \<^verbatim>\<open>KEYS\<close> and kvolve's handling of
  it use, with every read of its two buffers checked; and its equivalence with a
  declarative meaning of globs made of literals, \<^verbatim>\<open>?\<close> and \<^verbatim>\<open>*\<close>.
\<close>

section \<open>Glob matching\<close>

text \<open>
  The matcher walks two NUL-terminated buffers with explicit lengths, and its tests read
  the terminators. \<open>P\<close> and \<open>S\<close> are the buffers with their terminators, \<open>pi\<close> and \<open>si\<close> the
  positions of the two pointers, \<open>pl\<close> and \<open>sl\<close> the remaining lengths (C ints). A read
  outside a buffer is None.
\<close>

definition ch :: "string \<Rightarrow> nat \<Rightarrow> char option" where
  "ch m i = (if i < length m then Some (m ! i) else None)"

definition schar :: "char \<Rightarrow> int" where
  "schar c = (if (of_char c :: int) < 128 then of_char c else of_char c - 256)"

definition tolower_int :: "int \<Rightarrow> int" where
  "tolower_int i = (if 65 \<le> i \<and> i \<le> 90 then i + 32 else i)"

text \<open>The character class between brackets, from the first character after \<^verbatim>\<open>[\<close> or \<^verbatim>\<open>[^\<close>.\<close>

function class_scan ::
  "string \<Rightarrow> string \<Rightarrow> bool \<Rightarrow> nat \<Rightarrow> int \<Rightarrow> nat \<Rightarrow> bool \<Rightarrow> (bool \<times> nat \<times> int) option" where
  "class_scan P S nocase pi pl si m =
     (case ch P pi of
        None \<Rightarrow> None
      | Some c \<Rightarrow>
          if c = CHR 0x5C then do {
            c1 \<leftarrow> ch P (pi + 1);
            s0 \<leftarrow> ch S si;
            class_scan P S nocase (pi + 2) (pl - 2) si (m \<or> c1 = s0)
          }
          else if c = CHR '']'' then Some (m, pi, pl)
          else if pl = 0 then Some (m, pi - 1, pl + 1)
          else do {
            c1 \<leftarrow> ch P (pi + 1);
            s0 \<leftarrow> ch S si;
            if c1 = CHR ''-'' \<and> pl \<ge> 3 then do {
              c2 \<leftarrow> ch P (pi + 2);
              let lo = min (schar c) (schar c2);
              let hi = max (schar c) (schar c2);
              let lo' = (if nocase then tolower_int lo else lo);
              let hi' = (if nocase then tolower_int hi else hi);
              let x = (if nocase then tolower_int (schar s0) else schar s0);
              class_scan P S nocase (pi + 3) (pl - 3) si (m \<or> (lo' \<le> x \<and> x \<le> hi'))
            }
            else class_scan P S nocase (pi + 1) (pl - 1) si
                   (m \<or> (if nocase then tolower c = tolower s0 else c = s0))
          })"
  by pat_completeness auto
termination
  by (relation "measure (\<lambda>(P, S, nc, pi, pl, si, m). length P - pi)") (auto simp: ch_def split: if_splits)

declare class_scan.simps [simp del]

lemma class_scan_progress: "class_scan P S nc pi pl si m = Some (m', pi', pl') \<Longrightarrow> pi \<le> pi' + 1"
proof (induction "length P - pi" arbitrary: pi pl m nc rule: less_induct)
  case less
  show ?case
  proof (cases "ch P pi")
    case None
    with less.prems show ?thesis by (simp add: class_scan.simps)
  next
    case (Some c)
    then have "pi < length P" by (simp add: ch_def split: if_splits)
    then have IH: "class_scan P S nc2 (pi + k) pl2 si m2 = Some (m', pi', pl') \<Longrightarrow> pi \<le> pi' + 1"
      if "0 < k" for k pl2 m2 nc2
      using less.hyps [of "pi + k" nc2 pl2 m2] that by linarith
    from less.prems Some show ?thesis
      unfolding class_scan.simps [of P S nc pi]
      by (auto split: if_splits simp: Option.bind_eq_Some_conv Let_def
          dest: IH [of 1, simplified] IH [of 2, simplified] IH [of 3, simplified])
  qed
qed

text \<open>Skipping stars: \<^verbatim>\<open>while (pattern[off] == '*') { pattern++; patternLen--; }\<close>.\<close>

function skip_stars :: "string \<Rightarrow> nat \<Rightarrow> nat \<Rightarrow> int \<Rightarrow> (nat \<times> int) option" where
  "skip_stars P off pi pl =
     (case ch P (pi + off) of
        None \<Rightarrow> None
      | Some c \<Rightarrow> if c = CHR ''*'' then skip_stars P off (pi + 1) (pl - 1) else Some (pi, pl))"
  by pat_completeness auto
termination
  by (relation "measure (\<lambda>(P, off, pi, pl). length P - pi)") (auto simp: ch_def split: if_splits)

declare skip_stars.simps [simp del]

lemma skip_stars_progress: "skip_stars P off pi pl = Some (pi', pl') \<Longrightarrow> pi \<le> pi'"
proof (induction P off pi pl rule: skip_stars.induct)
  case (1 P off pi pl)
  then show ?case
    by (cases "ch P (pi + off)") (auto simp: skip_stars.simps [of P off pi] split: if_splits)
qed

text \<open>The end of one turn of the main loop when the string is used up.\<close>

definition match_rest :: "string \<Rightarrow> nat \<Rightarrow> int \<Rightarrow> bool option" where
  "match_rest P pi pl = do { (_, pl') \<leftarrow> skip_stars P 0 pi pl; Some (pl' = 0) }"

function match_at :: "string \<Rightarrow> string \<Rightarrow> bool \<Rightarrow> nat \<Rightarrow> int \<Rightarrow> nat \<Rightarrow> int \<Rightarrow> bool option"
  and match_star :: "string \<Rightarrow> string \<Rightarrow> bool \<Rightarrow> nat \<Rightarrow> int \<Rightarrow> nat \<Rightarrow> nat \<Rightarrow> bool option" where
  "match_at P S nocase pi pl si sl =
     (if pl = 0 then Some (sl = 0)
      else case ch P pi of
        None \<Rightarrow> None
      | Some c \<Rightarrow>
          if c = CHR ''*'' then
            (case skip_stars P 1 pi pl of
               None \<Rightarrow> None
             | Some (pi1, pl1) \<Rightarrow>
                 if pl1 = 1 then Some True
                 else if sl < 0 then None
                 else match_star P S nocase (pi1 + 1) (pl1 - 1) si (nat sl))
          else if c = CHR ''?'' then
            (if sl = 0 then Some False
             else if sl - 1 = 0 then match_rest P (pi + 1) (pl - 1)
             else match_at P S nocase (pi + 1) (pl - 1) (si + 1) (sl - 1))
          else if c = CHR ''['' then
            (case ch P (pi + 1) of
               None \<Rightarrow> None
             | Some c1 \<Rightarrow>
                 let neg = (c1 = CHR ''^''); k = (if neg then 2 else 1) in
                 case class_scan P S nocase (pi + k) (pl - int k) si False of
                   None \<Rightarrow> None
                 | Some (m, pi1, pl1) \<Rightarrow>
                     if m = neg then Some False
                     else if sl - 1 = 0 then match_rest P (pi1 + 1) (pl1 - 1)
                     else match_at P S nocase (pi1 + 1) (pl1 - 1) (si + 1) (sl - 1))
          else
            (let k = (if c = CHR 0x5C \<and> pl \<ge> 2 then 1 else 0) in
             case ch P (pi + k) of
               None \<Rightarrow> None
             | Some c1 \<Rightarrow>
                 (case ch S si of
                    None \<Rightarrow> None
                  | Some s0 \<Rightarrow>
                      if (if nocase then tolower c1 \<noteq> tolower s0 else c1 \<noteq> s0) then Some False
                      else if sl - 1 = 0 then match_rest P (pi + k + 1) (pl - int k - 1)
                      else match_at P S nocase (pi + k + 1) (pl - int k - 1) (si + 1) (sl - 1))))"
| "match_star P S nocase pi pl si 0 = Some False"
| "match_star P S nocase pi pl si (Suc n) =
     (case match_at P S nocase pi pl si (int (Suc n)) of
        None \<Rightarrow> None
      | Some True \<Rightarrow> Some True
      | Some False \<Rightarrow> match_star P S nocase pi pl (si + 1) n)"
  by pat_completeness auto
termination
proof (relation "measures [\<lambda>x. case x of
     Inl (P, S, nc, pi, pl, si, sl) \<Rightarrow> 2 * (length P - pi)
   | Inr (P, S, nc, pi, pl, si, n) \<Rightarrow> 2 * (length P - pi) + 1,
     \<lambda>x. case x of Inl _ \<Rightarrow> 0 | Inr (P, S, nc, pi, pl, si, n) \<Rightarrow> n]", goal_cases)
qed (auto simp: ch_def Let_def split: if_splits dest!: class_scan_progress skip_stars_progress)

declare match_at.simps [simp del] match_star.simps [simp del]

definition stringmatchlen :: "string \<Rightarrow> string \<Rightarrow> bool \<Rightarrow> bool option" where
  "stringmatchlen pattern str nocase =
     match_at (pattern @ [NUL]) (str @ [NUL]) nocase 0 (int (length pattern)) 0 (int (length str))"


subsection \<open>Reference: what a glob means\<close>

datatype gtok = Lit char | AnyChar | Star

fun glob :: "gtok list \<Rightarrow> string \<Rightarrow> bool" where
  "glob [] s = (s = [])"
| "glob (Lit c # g) s = (s \<noteq> [] \<and> hd s = c \<and> glob g (tl s))"
| "glob (AnyChar # g) s = (s \<noteq> [] \<and> glob g (tl s))"
| "glob (Star # g) s = (\<exists>k \<le> length s. glob g (drop k s))"

fun gchar :: "gtok \<Rightarrow> char" where
  "gchar (Lit c) = c"
| "gchar AnyChar = CHR ''?''"
| "gchar Star = CHR ''*''"

text \<open>A literal stands for itself: not a metacharacter, and not the terminator.\<close>

fun gtok_ok :: "gtok \<Rightarrow> bool" where
  "gtok_ok (Lit c) = (c \<notin> {CHR ''*'', CHR ''?'', CHR ''['', CHR 0x5C, NUL})"
| "gtok_ok _ = True"

lemma gchar_star: "gtok_ok t \<Longrightarrow> gchar t = CHR ''*'' \<longleftrightarrow> t = Star"
  by (cases t) auto

lemma glob_empty: "glob g [] \<longleftrightarrow> (\<forall>t \<in> set g. t = Star)"
proof (induction g)
  case (Cons t g)
  then show ?case by (cases t) simp_all
qed simp

lemma glob_star_all: "glob g [] \<Longrightarrow> glob (Star # g) s"
  unfolding glob.simps(4) by (rule exI [of _ "length s"]) simp

lemma glob_stars:
  assumes "\<forall>t \<in> set g. t = Star" "g \<noteq> []"
  shows "glob g s"
proof -
  obtain g' where "g = Star # g'" using assms by (cases g) auto
  moreover have "glob g' []" using assms calculation by (simp only: glob_empty) simp
  ultimately show ?thesis by (simp only: glob_star_all)
qed

lemma glob_star_star: "glob (Star # Star # g) s \<longleftrightarrow> glob (Star # g) s"
proof
  assume "glob (Star # Star # g) s"
  then obtain k l where "k \<le> length s" "l \<le> length s - k" "glob g (drop (l + k) s)"
    by auto
  then show "glob (Star # g) s" by (auto intro!: exI [of _ "l + k"])
next
  assume "glob (Star # g) s"
  then have "glob (Star # g) (drop 0 s)" by simp
  then show "glob (Star # Star # g) s" unfolding glob.simps(4) [of "Star # g"] by blast
qed

lemma glob_star_replicate: "glob (Star # replicate n Star @ g) s \<longleftrightarrow> glob (Star # g) s"
proof (induction n)
  case (Suc n)
  have "glob (Star # replicate (Suc n) Star @ g) s \<longleftrightarrow> glob (Star # replicate n Star @ g) s"
    unfolding replicate_Suc append_Cons by (rule glob_star_star)
  with Suc show ?case by simp
qed simp

text \<open>The buffer of a token list, and skipping a run of stars in it.\<close>

definition gbuf :: "gtok list \<Rightarrow> string" where
  "gbuf G = map gchar G @ [NUL]"

lemma ch_gbuf: "ch (gbuf G) i = (if i < length G then Some (gchar (G ! i)) else if i = length G then Some NUL else None)"
  by (auto simp: ch_def gbuf_def nth_append)

lemma skip_stars_gbuf:
  assumes "\<forall>t \<in> set G. gtok_ok t" "drop (i + off) G = replicate n Star @ rest"
    and "rest = [] \<or> hd rest \<noteq> Star" "i + off \<le> length G"
  shows "skip_stars (gbuf G) off i pl = Some (i + n, pl - int n)"
  using assms(2,4)
proof (induction n arbitrary: i pl)
  case 0
  show ?case
  proof (cases rest)
    case Nil
    with 0 have "i + off = length G" by simp
    then show ?thesis by (subst skip_stars.simps) (simp add: ch_gbuf)
  next
    case (Cons t ts)
    with 0 have lt: "i + off < length G" by (cases "i + off < length G") auto
    with 0 Cons have t: "G ! (i + off) = t" by (metis Cons_nth_drop_Suc append_Nil list.inject replicate_0)
    with lt assms(1) have "gtok_ok t" by auto
    with t Cons assms(3) lt show ?thesis
      by (subst skip_stars.simps) (simp add: ch_gbuf gchar_star)
  qed
next
  case (Suc n)
  then have lt: "i + off < length G" by (cases "i + off < length G") auto
  have dr: "drop (i + off) G = G ! (i + off) # drop (Suc (i + off)) G"
    using lt by (simp add: Cons_nth_drop_Suc)
  with Suc.prems(1) have G: "G ! (i + off) = Star" "drop (i + 1 + off) G = replicate n Star @ rest"
    by simp_all
  then have "skip_stars (gbuf G) off (i + 1) (pl - 1) = Some (i + 1 + n, pl - 1 - int n)"
    using lt by (intro Suc.IH) simp_all
  then show ?case using lt G(1) by (subst skip_stars.simps) (simp add: ch_gbuf)
qed

lemma stars_split:
  obtains n rest where "g = replicate n Star @ rest" "rest = [] \<or> hd rest \<noteq> Star"
proof
  show "g = replicate (length (takeWhile (\<lambda>t. t = Star) g)) Star @ dropWhile (\<lambda>t. t = Star) g"
    by (metis (mono_tags, lifting) replicate_length_same set_takeWhileD takeWhile_dropWhile_id)
  show "dropWhile (\<lambda>t. t = Star) g = [] \<or> hd (dropWhile (\<lambda>t. t = Star) g) \<noteq> Star"
    using hd_dropWhile by blast
qed

lemma match_rest_gbuf:
  assumes "\<forall>t \<in> set G. gtok_ok t" "i \<le> length G"
  shows "match_rest (gbuf G) i (int (length G - i)) = Some (glob (drop i G) [])"
proof -
  obtain n rest where nr: "drop i G = replicate n Star @ rest" "rest = [] \<or> hd rest \<noteq> Star"
    by (rule stars_split)
  have "skip_stars (gbuf G) 0 i (int (length G - i)) = Some (i + n, int (length G - i) - int n)"
    using assms nr by (intro skip_stars_gbuf) auto
  moreover have "length G - i = n + length rest"
    using nr(1) by (metis length_append length_drop length_replicate)
  moreover have "glob (drop i G) [] \<longleftrightarrow> rest = []"
    using nr unfolding glob_empty by (cases rest) auto
  ultimately show ?thesis by (auto simp: match_rest_def)
qed

lemma match_star_exists:
  assumes "\<And>k. k < n \<Longrightarrow> match_at P S nc pi pl (si + k) (int (n - k)) = Some (f k)"
  shows "match_star P S nc pi pl si n = Some (\<exists>k < n. f k)"
  using assms
proof (induction n arbitrary: si f)
  case 0
  then show ?case by (simp add: match_star.simps)
next
  case (Suc n)
  have "match_star P S nc pi pl (Suc si) n = Some (\<exists>k < n. f (Suc k))"
    using Suc.prems [of "Suc _"] by (intro Suc.IH) simp
  moreover have "match_at P S nc pi pl si (int (Suc n)) = Some (f 0)"
    using Suc.prems [of 0] by simp
  ultimately show ?case
    by (auto simp: match_star.simps Ex_less_Suc2 split: bool.splits)
qed


lemma glob_star_nonstar:
  assumes "rest \<noteq> []" "hd rest \<noteq> Star"
  shows "glob (Star # replicate n Star @ rest) s \<longleftrightarrow> (\<exists>k < length s. glob rest (drop k s))"
proof -
  have "\<not> glob rest []" using assms by (cases rest) (auto simp: glob_empty)
  then have "\<not> glob rest (drop (length s) s)" by simp
  moreover have "glob (Star # replicate n Star @ rest) s \<longleftrightarrow> (\<exists>k \<le> length s. glob rest (drop k s))"
    using glob_star_replicate [of n rest s] by simp
  ultimately show ?thesis unfolding le_less by blast
qed

lemma match_at_lit:
  assumes "c \<notin> {CHR ''*'', CHR ''?'', CHR ''['', CHR 0x5C}" "ch P pi = Some c" "pl \<noteq> 0" "ch S si = Some x"
  shows "match_at P S False pi pl si sl =
     (if c \<noteq> x then Some False
      else if sl = 1 then match_rest P (pi + 1) (pl - 1)
      else match_at P S False (pi + 1) (pl - 1) (si + 1) (sl - 1))"
  using assms by (subst match_at.simps) simp

lemma match_at_any:
  assumes "ch P pi = Some (CHR ''?'')" "pl \<noteq> 0"
  shows "match_at P S False pi pl si sl =
     (if sl = 0 then Some False
      else if sl = 1 then match_rest P (pi + 1) (pl - 1)
      else match_at P S False (pi + 1) (pl - 1) (si + 1) (sl - 1))"
  using assms by (subst match_at.simps) simp

lemma match_at_star:
  assumes "ch P pi = Some (CHR ''*'')" "pl \<noteq> 0" "skip_stars P 1 pi pl = Some (pi1, pl1)" "0 \<le> sl"
  shows "match_at P S False pi pl si sl =
     (if pl1 = 1 then Some True else match_star P S False (pi1 + 1) (pl1 - 1) si (nat sl))"
  using assms by (subst match_at.simps) simp

text \<open>The state of a match: token \<open>i\<close> of \<open>G\<close> against position \<open>j\<close> of \<open>s\<close>.\<close>

definition match_pos :: "gtok list \<Rightarrow> string \<Rightarrow> nat \<Rightarrow> nat \<Rightarrow> bool option" where
  "match_pos G s i j =
     match_at (gbuf G) (s @ [NUL]) False i (int (length G) - int i) j (int (length s) - int j)"

lemma match_pos_advance:
  assumes ok: "\<forall>t \<in> set G. gtok_ok t" and "i < length G" "j < length s"
    and IH: "match_pos G s (i + 1) (j + 1) = Some (glob (drop (i + 1) G) (drop (j + 1) s))"
  shows "(if int (length s) - int j = 1 then match_rest (gbuf G) (i + 1) (int (length G) - int i - 1)
      else match_at (gbuf G) (s @ [NUL]) False (i + 1) (int (length G) - int i - 1) (j + 1)
             (int (length s) - int j - 1)) =
      Some (glob (drop (i + 1) G) (drop (j + 1) s))"
proof (cases "Suc j = length s")
  case True
  moreover have "int (length G) - int i - 1 = int (length G - (i + 1))" using assms(2) by simp
  ultimately show ?thesis
    using match_rest_gbuf [OF ok, of "i + 1"] assms(2) by (simp del: of_nat_diff)
next
  case False
  then have "int (length s) - int j \<noteq> 1" by simp
  with IH show ?thesis by (simp add: match_pos_def algebra_simps)
qed

lemma match_pos_step:
  assumes ok: "\<forall>t \<in> set G. gtok_ok t" and i: "i < length G" and j: "j \<le> length s"
    and tok: "G ! i \<noteq> Star"
    and IH: "j < length s \<Longrightarrow> match_pos G s (i + 1) (j + 1) = Some (glob (drop (i + 1) G) (drop (j + 1) s))"
  shows "match_pos G s i j = Some (glob (drop i G) (drop j s))"
proof -
  have dr: "drop i G = G ! i # drop (i + 1) G" using i by (simp add: Cons_nth_drop_Suc)
  have ds: "drop j s = s ! j # drop (j + 1) s" if "j < length s"
    using that by (simp add: Cons_nth_drop_Suc)
  have chi: "ch (gbuf G) i = Some (gchar (G ! i))" using i by (simp add: ch_gbuf)
  have chj: "ch (s @ [NUL]) j = Some (if j < length s then s ! j else NUL)"
    using j by (auto simp: ch_def nth_append)
  have pl: "int (length G) - int i \<noteq> 0" using i by simp
  note adv = match_pos_advance [OF ok i _ IH]
  show ?thesis
  proof (cases "G ! i")
    case (Lit c)
    have "gtok_ok (Lit c)" using nth_mem [OF i] ok unfolding Lit by (rule bspec [rotated])
    then have c: "c \<notin> {CHR ''*'', CHR ''?'', CHR ''['', CHR 0x5C}" "c \<noteq> NUL" by simp_all
    note step = match_at_lit [OF c(1) chi [unfolded Lit gchar.simps] pl chj]
    show ?thesis
    proof (cases "j < length s \<and> s ! j = c")
      case True
      then show ?thesis
        using adv unfolding match_pos_def step by (simp add: dr ds Lit)
    next
      case False
      then show ?thesis
        using c(2) j unfolding match_pos_def step by (cases "j < length s") (auto simp: dr ds Lit)
    qed
  next
    case AnyChar
    note step = match_at_any [OF chi [unfolded AnyChar gchar.simps] pl]
    show ?thesis
    proof (cases "j < length s")
      case True
      then show ?thesis
        using adv unfolding match_pos_def step by (simp add: dr ds AnyChar)
    next
      case False
      with j show ?thesis unfolding match_pos_def step by (simp add: dr AnyChar)
    qed
  qed (use tok in simp)
qed

lemma match_pos_star:
  assumes ok: "\<forall>t \<in> set G. gtok_ok t" and i: "i < length G" and j: "j \<le> length s"
    and tok: "G ! i = Star"
    and IH: "\<And>i' j'. i < i' \<Longrightarrow> i' \<le> length G \<Longrightarrow> j' \<le> length s \<Longrightarrow>
      match_pos G s i' j' = Some (glob (drop i' G) (drop j' s))"
  shows "match_pos G s i j = Some (glob (drop i G) (drop j s))"
proof -
  have dr: "drop i G = Star # drop (i + 1) G" using i tok by (metis Cons_nth_drop_Suc Suc_eq_plus1)
  obtain n rest where nr: "drop (i + 1) G = replicate n Star @ rest" "rest = [] \<or> hd rest \<noteq> Star"
    by (rule stars_split)
  have skip: "skip_stars (gbuf G) 1 i (int (length G) - int i) = Some (i + n, int (length G) - int i - int n)"
    using ok nr i by (intro skip_stars_gbuf) auto
  have "length (drop (i + 1) G) = n + length rest" unfolding nr(1) by simp
  then have len: "length G = i + 1 + n + length rest" using i by simp
  have "drop n (drop (i + 1) G) = rest" unfolding nr(1) by simp
  then have rest: "drop (i + n + 1) G = rest" by (simp add: add.commute)
  have chi: "ch (gbuf G) i = Some (CHR ''*'')" using i tok by (simp add: ch_gbuf)
  have "match_pos G s i j = (if rest = [] then Some True
      else match_star (gbuf G) (s @ [NUL]) False (i + n + 1) (int (length G) - int i - int n - 1) j (length s - j))"
    using len j i unfolding match_pos_def
    by (subst match_at_star [OF chi _ skip]) (auto simp: nat_diff_distrib)
  moreover have "match_star (gbuf G) (s @ [NUL]) False (i + n + 1) (int (length G) - int i - int n - 1) j
      (length s - j) = Some (\<exists>k < length s - j. glob rest (drop (j + k) s))"
  proof (rule match_star_exists)
    fix k assume k: "k < length s - j"
    have "match_pos G s (i + n + 1) (j + k) = Some (glob (drop (i + n + 1) G) (drop (j + k) s))"
      using k len by (intro IH) auto
    moreover have "int (length s - j - k) = int (length s) - int (j + k)" using k by simp
    ultimately show "match_at (gbuf G) (s @ [NUL]) False (i + n + 1) (int (length G) - int i - int n - 1) (j + k)
        (int (length s - j - k)) = Some (glob rest (drop (j + k) s))"
      unfolding match_pos_def rest by (simp add: algebra_simps)
  qed
  moreover have "glob (drop i G) (drop j s) \<longleftrightarrow>
      (if rest = [] then True else \<exists>k < length s - j. glob rest (drop (j + k) s))"
  proof (cases "rest = []")
    case True
    then have "glob (drop i G) (drop j s)"
      using nr(1) by (intro glob_stars) (auto simp: dr)
    with True show ?thesis by simp
  next
    case False
    then show ?thesis
      using glob_star_nonstar [of rest n "drop j s"] nr by (simp add: dr add.commute)
  qed
  ultimately show ?thesis by simp
qed

lemma match_pos_glob:
  assumes ok: "\<forall>t \<in> set G. gtok_ok t"
  shows "i \<le> length G \<Longrightarrow> j \<le> length s \<Longrightarrow> match_pos G s i j = Some (glob (drop i G) (drop j s))"
proof (induction "length G - i" arbitrary: i j rule: less_induct)
  case less
  show ?case
  proof (cases "i = length G")
    case True
    then show ?thesis using less.prems unfolding match_pos_def by (subst match_at.simps) auto
  next
    case False
    with less.prems have i: "i < length G" by simp
    have IH: "match_pos G s i' j' = Some (glob (drop i' G) (drop j' s))"
      if "i < i'" "i' \<le> length G" "j' \<le> length s" for i' j'
      using less.hyps [of i' j'] that i by simp
    show ?thesis
    proof (cases "G ! i = Star")
      case True
      show ?thesis by (rule match_pos_star [OF ok i less.prems(2) True IH])
    next
      case F: False
      show ?thesis
        by (rule match_pos_step [OF ok i less.prems(2) F IH]) (use i in simp_all)
    qed
  qed
qed

theorem stringmatchlen_tokens:
  assumes "\<forall>t \<in> set G. gtok_ok t"
  shows "stringmatchlen (map gchar G) s False = Some (glob G s)"
  using match_pos_glob [OF assms, of 0 0 s] by (simp add: stringmatchlen_def match_pos_def gbuf_def)



end
