(* ===== verification/State.thy ===== *)
theory State
  imports Prelude Intset Util "HOL-Library.AList"
begin

text \<open>
  The state the server code works on: redis objects on a heap with reference counts and
  kvolve's version field (\<^verbatim>\<open>struct redisObject\<close> of \<^verbatim>\<open>redis.h\<close>), the databases, the part of
  \<^verbatim>\<open>struct redisServer\<close> the modelled code reads or writes, clients, and the version
  registry of kvolve (\<^verbatim>\<open>kvolve_internal.h\<close>).

  Code that has undefined behaviour or aborts on some state (a null or dangling pointer, a
  failed \<^verbatim>\<open>redisAssert\<close>, a \<^verbatim>\<open>redisPanic\<close>) returns \<open>None\<close> there. Reading an object that has been
  freed is such a case: a freed address is absent from the heap.
\<close>

section \<open>Objects\<close>

datatype rtype = REDIS_STRING | REDIS_LIST | REDIS_SET | REDIS_ZSET | REDIS_HASH

datatype rencoding = REDIS_ENCODING_RAW | REDIS_ENCODING_INT | REDIS_ENCODING_HT
  | REDIS_ENCODING_LINKEDLIST | REDIS_ENCODING_ZIPLIST | REDIS_ENCODING_INTSET
  | REDIS_ENCODING_SKIPLIST

text \<open>An entry of a ziplist: a string, or an integer the ziplist keeps in binary.\<close>

datatype zlval = ZStr string | ZInt int

text \<open>
  What \<^verbatim>\<open>ptr\<close> points at: an sds, the integer itself, a ziplist, an intset, a linked list
  of objects, or a dictionary of objects listed in iteration order (the values of a set's
  dictionary are null). A null pointer is \<open>Null\<close>.
\<close>

datatype payload = Null | Sds string | Long int | Ziplist "zlval list" | Is intset
  | Linked "addr list" | DictSet "addr list" | DictHash "(addr \<times> addr) list"

record robj =
  otype :: rtype
  encoding :: rencoding
  refcount :: int
  vers :: int
  ptr :: payload


section \<open>Databases, clients and the server\<close>

text \<open>
  A dictionary whose keys are sds strings is an association list with distinct keys. The
  position of an entry stands for its place in the iteration order, which the model leaves
  to the order of insertion.
\<close>

type_synonym 'v sdict = "(string \<times> 'v) list"

record redisDb =
  dict :: "addr sdict"
  expires :: "int sdict"
  blocking_keys :: "string list"
  ready_keys :: "string list"
  watched_keys :: "int list sdict"

text \<open>Calls that leave the modelled part: notifications, expire propagation, closing a client.\<close>

datatype effect = Notify string string nat | PropagateDel nat string | KillClient int

datatype reply = ROk | RNullBulk | RZero | ROne | RWrongType | RNoKey | RSameObject | RSyntax
  | ROutOfRange | REmptyMultiBulk | RNullMultiBulk | RInt int | RBulk string | RMulti nat
  | RError string | RStatus string

record client =
  cid :: int
  cdb :: nat
  fd :: int
  argv :: "addr list"
  replies :: "reply list"


section \<open>The version registry of kvolve\<close>

text \<open>
  An update function is a pointer into a loaded update module. The registry keeps the
  pointers; what they do is a parameter of the code that calls them.
\<close>

type_synonym fptr = nat

record kvolve_upd_info =
  from_ns :: string
  to_ns :: string
  from_vers :: int
  to_vers :: int
  funs :: "fptr list"

text \<open>
  \<open>versions\<close> and \<open>info\<close> are the first \<^verbatim>\<open>num_versions\<close> entries of the arrays of the same name,
  which are allocated with \<^verbatim>\<open>KV_INIT_SZ\<close> entries.
\<close>

record version_hash =
  ns :: string
  prev_ns :: "string option"
  next_ns :: "string option"
  versions :: "int list"
  info :: "kvolve_upd_info option list"
  clients :: intset

record tmp_vers_store =
  tmp_vers :: int
  tmp_db :: nat

record server =
  heap :: "addr \<rightharpoonup> robj"
  brk :: addr
  db :: "redisDb list"
  dirty :: int
  stat_numcommands :: int
  stat_keyspace_hits :: int
  stat_keyspace_misses :: int
  stat_expiredkeys :: int
  mstime :: int
  loading :: bool
  masterhost :: bool
  maxmemory_lru :: bool
  set_max_intset_entries :: nat
  list_max_ziplist_entries :: nat
  list_max_ziplist_value :: nat
  hash_max_ziplist_entries :: nat
  hash_max_ziplist_value :: nat
  dirty_cas :: "int list"
  list_ready :: "(nat \<times> addr) list"
  effects :: "effect list"
  next_client_id :: int
  vers_list :: "version_hash sdict"
  tmp_store :: "tmp_vers_store sdict"
  upd_fun_running :: bool
  loading_id :: int

text \<open>
  The shared integers are allocated at start-up: \<^verbatim>\<open>shared.integers[j]\<close> is at address \<open>j\<close>.
\<close>

abbreviation (input) REDIS_SHARED_INTEGERS :: nat where
  "REDIS_SHARED_INTEGERS \<equiv> 10000"

definition shared_integers :: "addr \<rightharpoonup> robj" where
  "shared_integers j =
     (if j < REDIS_SHARED_INTEGERS
      then Some \<lparr>otype = REDIS_STRING, encoding = REDIS_ENCODING_INT, refcount = 1, vers = 0,
                 ptr = Long (int j)\<rparr>
      else None)"

definition empty_db :: redisDb where
  "empty_db = \<lparr>dict = [], expires = [], blocking_keys = [], ready_keys = [], watched_keys = []\<rparr>"

definition initServer :: server where
  "initServer = \<lparr>heap = shared_integers, brk = REDIS_SHARED_INTEGERS, db = replicate 16 empty_db,
     dirty = 0, stat_numcommands = 0, stat_keyspace_hits = 0, stat_keyspace_misses = 0,
     stat_expiredkeys = 0, mstime = 0, loading = False, masterhost = False, maxmemory_lru = False,
     set_max_intset_entries = 512, list_max_ziplist_entries = 512, list_max_ziplist_value = 64,
     hash_max_ziplist_entries = 512, hash_max_ziplist_value = 64,
     dirty_cas = [], list_ready = [], effects = [], next_client_id = 1,
     vers_list = [], tmp_store = [], upd_fun_running = False, loading_id = 0\<rparr>"


section \<open>Order of field updates\<close>

text \<open>Updates of different fields commute; they are kept in the order of the fields.\<close>

lemma robj_order [simp]:
  "(r :: robj)\<lparr>encoding := v_encoding, otype := v_otype\<rparr> = r\<lparr>otype := v_otype, encoding := v_encoding\<rparr>"
  "(r :: robj)\<lparr>refcount := v_refcount, otype := v_otype\<rparr> = r\<lparr>otype := v_otype, refcount := v_refcount\<rparr>"
  "(r :: robj)\<lparr>vers := v_vers, otype := v_otype\<rparr> = r\<lparr>otype := v_otype, vers := v_vers\<rparr>"
  "(r :: robj)\<lparr>ptr := v_ptr, otype := v_otype\<rparr> = r\<lparr>otype := v_otype, ptr := v_ptr\<rparr>"
  "(r :: robj)\<lparr>refcount := v_refcount, encoding := v_encoding\<rparr> = r\<lparr>encoding := v_encoding, refcount := v_refcount\<rparr>"
  "(r :: robj)\<lparr>vers := v_vers, encoding := v_encoding\<rparr> = r\<lparr>encoding := v_encoding, vers := v_vers\<rparr>"
  "(r :: robj)\<lparr>ptr := v_ptr, encoding := v_encoding\<rparr> = r\<lparr>encoding := v_encoding, ptr := v_ptr\<rparr>"
  "(r :: robj)\<lparr>vers := v_vers, refcount := v_refcount\<rparr> = r\<lparr>refcount := v_refcount, vers := v_vers\<rparr>"
  "(r :: robj)\<lparr>ptr := v_ptr, refcount := v_refcount\<rparr> = r\<lparr>refcount := v_refcount, ptr := v_ptr\<rparr>"
  "(r :: robj)\<lparr>ptr := v_ptr, vers := v_vers\<rparr> = r\<lparr>vers := v_vers, ptr := v_ptr\<rparr>"
  by simp_all

lemma redisDb_order [simp]:
  "(r :: redisDb)\<lparr>expires := v_expires, dict := v_dict\<rparr> = r\<lparr>dict := v_dict, expires := v_expires\<rparr>"
  "(r :: redisDb)\<lparr>blocking_keys := v_blocking_keys, dict := v_dict\<rparr> = r\<lparr>dict := v_dict, blocking_keys := v_blocking_keys\<rparr>"
  "(r :: redisDb)\<lparr>ready_keys := v_ready_keys, dict := v_dict\<rparr> = r\<lparr>dict := v_dict, ready_keys := v_ready_keys\<rparr>"
  "(r :: redisDb)\<lparr>watched_keys := v_watched_keys, dict := v_dict\<rparr> = r\<lparr>dict := v_dict, watched_keys := v_watched_keys\<rparr>"
  "(r :: redisDb)\<lparr>blocking_keys := v_blocking_keys, expires := v_expires\<rparr> = r\<lparr>expires := v_expires, blocking_keys := v_blocking_keys\<rparr>"
  "(r :: redisDb)\<lparr>ready_keys := v_ready_keys, expires := v_expires\<rparr> = r\<lparr>expires := v_expires, ready_keys := v_ready_keys\<rparr>"
  "(r :: redisDb)\<lparr>watched_keys := v_watched_keys, expires := v_expires\<rparr> = r\<lparr>expires := v_expires, watched_keys := v_watched_keys\<rparr>"
  "(r :: redisDb)\<lparr>ready_keys := v_ready_keys, blocking_keys := v_blocking_keys\<rparr> = r\<lparr>blocking_keys := v_blocking_keys, ready_keys := v_ready_keys\<rparr>"
  "(r :: redisDb)\<lparr>watched_keys := v_watched_keys, blocking_keys := v_blocking_keys\<rparr> = r\<lparr>blocking_keys := v_blocking_keys, watched_keys := v_watched_keys\<rparr>"
  "(r :: redisDb)\<lparr>watched_keys := v_watched_keys, ready_keys := v_ready_keys\<rparr> = r\<lparr>ready_keys := v_ready_keys, watched_keys := v_watched_keys\<rparr>"
  by simp_all

lemma client_order [simp]:
  "(r :: client)\<lparr>cdb := v_cdb, cid := v_cid\<rparr> = r\<lparr>cid := v_cid, cdb := v_cdb\<rparr>"
  "(r :: client)\<lparr>fd := v_fd, cid := v_cid\<rparr> = r\<lparr>cid := v_cid, fd := v_fd\<rparr>"
  "(r :: client)\<lparr>argv := v_argv, cid := v_cid\<rparr> = r\<lparr>cid := v_cid, argv := v_argv\<rparr>"
  "(r :: client)\<lparr>replies := v_replies, cid := v_cid\<rparr> = r\<lparr>cid := v_cid, replies := v_replies\<rparr>"
  "(r :: client)\<lparr>fd := v_fd, cdb := v_cdb\<rparr> = r\<lparr>cdb := v_cdb, fd := v_fd\<rparr>"
  "(r :: client)\<lparr>argv := v_argv, cdb := v_cdb\<rparr> = r\<lparr>cdb := v_cdb, argv := v_argv\<rparr>"
  "(r :: client)\<lparr>replies := v_replies, cdb := v_cdb\<rparr> = r\<lparr>cdb := v_cdb, replies := v_replies\<rparr>"
  "(r :: client)\<lparr>argv := v_argv, fd := v_fd\<rparr> = r\<lparr>fd := v_fd, argv := v_argv\<rparr>"
  "(r :: client)\<lparr>replies := v_replies, fd := v_fd\<rparr> = r\<lparr>fd := v_fd, replies := v_replies\<rparr>"
  "(r :: client)\<lparr>replies := v_replies, argv := v_argv\<rparr> = r\<lparr>argv := v_argv, replies := v_replies\<rparr>"
  by simp_all

lemma server_order [simp]:
  "(r :: server)\<lparr>brk := v_brk, heap := v_heap\<rparr> = r\<lparr>heap := v_heap, brk := v_brk\<rparr>"
  "(r :: server)\<lparr>db := v_db, heap := v_heap\<rparr> = r\<lparr>heap := v_heap, db := v_db\<rparr>"
  "(r :: server)\<lparr>dirty := v_dirty, heap := v_heap\<rparr> = r\<lparr>heap := v_heap, dirty := v_dirty\<rparr>"
  "(r :: server)\<lparr>stat_numcommands := v_stat_numcommands, heap := v_heap\<rparr> = r\<lparr>heap := v_heap, stat_numcommands := v_stat_numcommands\<rparr>"
  "(r :: server)\<lparr>stat_keyspace_hits := v_stat_keyspace_hits, heap := v_heap\<rparr> = r\<lparr>heap := v_heap, stat_keyspace_hits := v_stat_keyspace_hits\<rparr>"
  "(r :: server)\<lparr>stat_keyspace_misses := v_stat_keyspace_misses, heap := v_heap\<rparr> = r\<lparr>heap := v_heap, stat_keyspace_misses := v_stat_keyspace_misses\<rparr>"
  "(r :: server)\<lparr>stat_expiredkeys := v_stat_expiredkeys, heap := v_heap\<rparr> = r\<lparr>heap := v_heap, stat_expiredkeys := v_stat_expiredkeys\<rparr>"
  "(r :: server)\<lparr>dirty_cas := v_dirty_cas, heap := v_heap\<rparr> = r\<lparr>heap := v_heap, dirty_cas := v_dirty_cas\<rparr>"
  "(r :: server)\<lparr>list_ready := v_list_ready, heap := v_heap\<rparr> = r\<lparr>heap := v_heap, list_ready := v_list_ready\<rparr>"
  "(r :: server)\<lparr>effects := v_effects, heap := v_heap\<rparr> = r\<lparr>heap := v_heap, effects := v_effects\<rparr>"
  "(r :: server)\<lparr>next_client_id := v_next_client_id, heap := v_heap\<rparr> = r\<lparr>heap := v_heap, next_client_id := v_next_client_id\<rparr>"
  "(r :: server)\<lparr>vers_list := v_vers_list, heap := v_heap\<rparr> = r\<lparr>heap := v_heap, vers_list := v_vers_list\<rparr>"
  "(r :: server)\<lparr>tmp_store := v_tmp_store, heap := v_heap\<rparr> = r\<lparr>heap := v_heap, tmp_store := v_tmp_store\<rparr>"
  "(r :: server)\<lparr>upd_fun_running := v_upd_fun_running, heap := v_heap\<rparr> = r\<lparr>heap := v_heap, upd_fun_running := v_upd_fun_running\<rparr>"
  "(r :: server)\<lparr>loading_id := v_loading_id, heap := v_heap\<rparr> = r\<lparr>heap := v_heap, loading_id := v_loading_id\<rparr>"
  "(r :: server)\<lparr>db := v_db, brk := v_brk\<rparr> = r\<lparr>brk := v_brk, db := v_db\<rparr>"
  "(r :: server)\<lparr>dirty := v_dirty, brk := v_brk\<rparr> = r\<lparr>brk := v_brk, dirty := v_dirty\<rparr>"
  "(r :: server)\<lparr>stat_numcommands := v_stat_numcommands, brk := v_brk\<rparr> = r\<lparr>brk := v_brk, stat_numcommands := v_stat_numcommands\<rparr>"
  "(r :: server)\<lparr>stat_keyspace_hits := v_stat_keyspace_hits, brk := v_brk\<rparr> = r\<lparr>brk := v_brk, stat_keyspace_hits := v_stat_keyspace_hits\<rparr>"
  "(r :: server)\<lparr>stat_keyspace_misses := v_stat_keyspace_misses, brk := v_brk\<rparr> = r\<lparr>brk := v_brk, stat_keyspace_misses := v_stat_keyspace_misses\<rparr>"
  "(r :: server)\<lparr>stat_expiredkeys := v_stat_expiredkeys, brk := v_brk\<rparr> = r\<lparr>brk := v_brk, stat_expiredkeys := v_stat_expiredkeys\<rparr>"
  "(r :: server)\<lparr>dirty_cas := v_dirty_cas, brk := v_brk\<rparr> = r\<lparr>brk := v_brk, dirty_cas := v_dirty_cas\<rparr>"
  "(r :: server)\<lparr>list_ready := v_list_ready, brk := v_brk\<rparr> = r\<lparr>brk := v_brk, list_ready := v_list_ready\<rparr>"
  "(r :: server)\<lparr>effects := v_effects, brk := v_brk\<rparr> = r\<lparr>brk := v_brk, effects := v_effects\<rparr>"
  "(r :: server)\<lparr>next_client_id := v_next_client_id, brk := v_brk\<rparr> = r\<lparr>brk := v_brk, next_client_id := v_next_client_id\<rparr>"
  "(r :: server)\<lparr>vers_list := v_vers_list, brk := v_brk\<rparr> = r\<lparr>brk := v_brk, vers_list := v_vers_list\<rparr>"
  "(r :: server)\<lparr>tmp_store := v_tmp_store, brk := v_brk\<rparr> = r\<lparr>brk := v_brk, tmp_store := v_tmp_store\<rparr>"
  "(r :: server)\<lparr>upd_fun_running := v_upd_fun_running, brk := v_brk\<rparr> = r\<lparr>brk := v_brk, upd_fun_running := v_upd_fun_running\<rparr>"
  "(r :: server)\<lparr>loading_id := v_loading_id, brk := v_brk\<rparr> = r\<lparr>brk := v_brk, loading_id := v_loading_id\<rparr>"
  "(r :: server)\<lparr>dirty := v_dirty, db := v_db\<rparr> = r\<lparr>db := v_db, dirty := v_dirty\<rparr>"
  "(r :: server)\<lparr>stat_numcommands := v_stat_numcommands, db := v_db\<rparr> = r\<lparr>db := v_db, stat_numcommands := v_stat_numcommands\<rparr>"
  "(r :: server)\<lparr>stat_keyspace_hits := v_stat_keyspace_hits, db := v_db\<rparr> = r\<lparr>db := v_db, stat_keyspace_hits := v_stat_keyspace_hits\<rparr>"
  "(r :: server)\<lparr>stat_keyspace_misses := v_stat_keyspace_misses, db := v_db\<rparr> = r\<lparr>db := v_db, stat_keyspace_misses := v_stat_keyspace_misses\<rparr>"
  "(r :: server)\<lparr>stat_expiredkeys := v_stat_expiredkeys, db := v_db\<rparr> = r\<lparr>db := v_db, stat_expiredkeys := v_stat_expiredkeys\<rparr>"
  "(r :: server)\<lparr>dirty_cas := v_dirty_cas, db := v_db\<rparr> = r\<lparr>db := v_db, dirty_cas := v_dirty_cas\<rparr>"
  "(r :: server)\<lparr>list_ready := v_list_ready, db := v_db\<rparr> = r\<lparr>db := v_db, list_ready := v_list_ready\<rparr>"
  "(r :: server)\<lparr>effects := v_effects, db := v_db\<rparr> = r\<lparr>db := v_db, effects := v_effects\<rparr>"
  "(r :: server)\<lparr>next_client_id := v_next_client_id, db := v_db\<rparr> = r\<lparr>db := v_db, next_client_id := v_next_client_id\<rparr>"
  "(r :: server)\<lparr>vers_list := v_vers_list, db := v_db\<rparr> = r\<lparr>db := v_db, vers_list := v_vers_list\<rparr>"
  "(r :: server)\<lparr>tmp_store := v_tmp_store, db := v_db\<rparr> = r\<lparr>db := v_db, tmp_store := v_tmp_store\<rparr>"
  "(r :: server)\<lparr>upd_fun_running := v_upd_fun_running, db := v_db\<rparr> = r\<lparr>db := v_db, upd_fun_running := v_upd_fun_running\<rparr>"
  "(r :: server)\<lparr>loading_id := v_loading_id, db := v_db\<rparr> = r\<lparr>db := v_db, loading_id := v_loading_id\<rparr>"
  "(r :: server)\<lparr>stat_numcommands := v_stat_numcommands, dirty := v_dirty\<rparr> = r\<lparr>dirty := v_dirty, stat_numcommands := v_stat_numcommands\<rparr>"
  "(r :: server)\<lparr>stat_keyspace_hits := v_stat_keyspace_hits, dirty := v_dirty\<rparr> = r\<lparr>dirty := v_dirty, stat_keyspace_hits := v_stat_keyspace_hits\<rparr>"
  "(r :: server)\<lparr>stat_keyspace_misses := v_stat_keyspace_misses, dirty := v_dirty\<rparr> = r\<lparr>dirty := v_dirty, stat_keyspace_misses := v_stat_keyspace_misses\<rparr>"
  "(r :: server)\<lparr>stat_expiredkeys := v_stat_expiredkeys, dirty := v_dirty\<rparr> = r\<lparr>dirty := v_dirty, stat_expiredkeys := v_stat_expiredkeys\<rparr>"
  "(r :: server)\<lparr>dirty_cas := v_dirty_cas, dirty := v_dirty\<rparr> = r\<lparr>dirty := v_dirty, dirty_cas := v_dirty_cas\<rparr>"
  "(r :: server)\<lparr>list_ready := v_list_ready, dirty := v_dirty\<rparr> = r\<lparr>dirty := v_dirty, list_ready := v_list_ready\<rparr>"
  "(r :: server)\<lparr>effects := v_effects, dirty := v_dirty\<rparr> = r\<lparr>dirty := v_dirty, effects := v_effects\<rparr>"
  "(r :: server)\<lparr>next_client_id := v_next_client_id, dirty := v_dirty\<rparr> = r\<lparr>dirty := v_dirty, next_client_id := v_next_client_id\<rparr>"
  "(r :: server)\<lparr>vers_list := v_vers_list, dirty := v_dirty\<rparr> = r\<lparr>dirty := v_dirty, vers_list := v_vers_list\<rparr>"
  "(r :: server)\<lparr>tmp_store := v_tmp_store, dirty := v_dirty\<rparr> = r\<lparr>dirty := v_dirty, tmp_store := v_tmp_store\<rparr>"
  "(r :: server)\<lparr>upd_fun_running := v_upd_fun_running, dirty := v_dirty\<rparr> = r\<lparr>dirty := v_dirty, upd_fun_running := v_upd_fun_running\<rparr>"
  "(r :: server)\<lparr>loading_id := v_loading_id, dirty := v_dirty\<rparr> = r\<lparr>dirty := v_dirty, loading_id := v_loading_id\<rparr>"
  "(r :: server)\<lparr>stat_keyspace_hits := v_stat_keyspace_hits, stat_numcommands := v_stat_numcommands\<rparr> = r\<lparr>stat_numcommands := v_stat_numcommands, stat_keyspace_hits := v_stat_keyspace_hits\<rparr>"
  "(r :: server)\<lparr>stat_keyspace_misses := v_stat_keyspace_misses, stat_numcommands := v_stat_numcommands\<rparr> = r\<lparr>stat_numcommands := v_stat_numcommands, stat_keyspace_misses := v_stat_keyspace_misses\<rparr>"
  "(r :: server)\<lparr>stat_expiredkeys := v_stat_expiredkeys, stat_numcommands := v_stat_numcommands\<rparr> = r\<lparr>stat_numcommands := v_stat_numcommands, stat_expiredkeys := v_stat_expiredkeys\<rparr>"
  "(r :: server)\<lparr>dirty_cas := v_dirty_cas, stat_numcommands := v_stat_numcommands\<rparr> = r\<lparr>stat_numcommands := v_stat_numcommands, dirty_cas := v_dirty_cas\<rparr>"
  "(r :: server)\<lparr>list_ready := v_list_ready, stat_numcommands := v_stat_numcommands\<rparr> = r\<lparr>stat_numcommands := v_stat_numcommands, list_ready := v_list_ready\<rparr>"
  "(r :: server)\<lparr>effects := v_effects, stat_numcommands := v_stat_numcommands\<rparr> = r\<lparr>stat_numcommands := v_stat_numcommands, effects := v_effects\<rparr>"
  "(r :: server)\<lparr>next_client_id := v_next_client_id, stat_numcommands := v_stat_numcommands\<rparr> = r\<lparr>stat_numcommands := v_stat_numcommands, next_client_id := v_next_client_id\<rparr>"
  "(r :: server)\<lparr>vers_list := v_vers_list, stat_numcommands := v_stat_numcommands\<rparr> = r\<lparr>stat_numcommands := v_stat_numcommands, vers_list := v_vers_list\<rparr>"
  "(r :: server)\<lparr>tmp_store := v_tmp_store, stat_numcommands := v_stat_numcommands\<rparr> = r\<lparr>stat_numcommands := v_stat_numcommands, tmp_store := v_tmp_store\<rparr>"
  "(r :: server)\<lparr>upd_fun_running := v_upd_fun_running, stat_numcommands := v_stat_numcommands\<rparr> = r\<lparr>stat_numcommands := v_stat_numcommands, upd_fun_running := v_upd_fun_running\<rparr>"
  "(r :: server)\<lparr>loading_id := v_loading_id, stat_numcommands := v_stat_numcommands\<rparr> = r\<lparr>stat_numcommands := v_stat_numcommands, loading_id := v_loading_id\<rparr>"
  "(r :: server)\<lparr>stat_keyspace_misses := v_stat_keyspace_misses, stat_keyspace_hits := v_stat_keyspace_hits\<rparr> = r\<lparr>stat_keyspace_hits := v_stat_keyspace_hits, stat_keyspace_misses := v_stat_keyspace_misses\<rparr>"
  "(r :: server)\<lparr>stat_expiredkeys := v_stat_expiredkeys, stat_keyspace_hits := v_stat_keyspace_hits\<rparr> = r\<lparr>stat_keyspace_hits := v_stat_keyspace_hits, stat_expiredkeys := v_stat_expiredkeys\<rparr>"
  "(r :: server)\<lparr>dirty_cas := v_dirty_cas, stat_keyspace_hits := v_stat_keyspace_hits\<rparr> = r\<lparr>stat_keyspace_hits := v_stat_keyspace_hits, dirty_cas := v_dirty_cas\<rparr>"
  "(r :: server)\<lparr>list_ready := v_list_ready, stat_keyspace_hits := v_stat_keyspace_hits\<rparr> = r\<lparr>stat_keyspace_hits := v_stat_keyspace_hits, list_ready := v_list_ready\<rparr>"
  "(r :: server)\<lparr>effects := v_effects, stat_keyspace_hits := v_stat_keyspace_hits\<rparr> = r\<lparr>stat_keyspace_hits := v_stat_keyspace_hits, effects := v_effects\<rparr>"
  "(r :: server)\<lparr>next_client_id := v_next_client_id, stat_keyspace_hits := v_stat_keyspace_hits\<rparr> = r\<lparr>stat_keyspace_hits := v_stat_keyspace_hits, next_client_id := v_next_client_id\<rparr>"
  "(r :: server)\<lparr>vers_list := v_vers_list, stat_keyspace_hits := v_stat_keyspace_hits\<rparr> = r\<lparr>stat_keyspace_hits := v_stat_keyspace_hits, vers_list := v_vers_list\<rparr>"
  "(r :: server)\<lparr>tmp_store := v_tmp_store, stat_keyspace_hits := v_stat_keyspace_hits\<rparr> = r\<lparr>stat_keyspace_hits := v_stat_keyspace_hits, tmp_store := v_tmp_store\<rparr>"
  "(r :: server)\<lparr>upd_fun_running := v_upd_fun_running, stat_keyspace_hits := v_stat_keyspace_hits\<rparr> = r\<lparr>stat_keyspace_hits := v_stat_keyspace_hits, upd_fun_running := v_upd_fun_running\<rparr>"
  "(r :: server)\<lparr>loading_id := v_loading_id, stat_keyspace_hits := v_stat_keyspace_hits\<rparr> = r\<lparr>stat_keyspace_hits := v_stat_keyspace_hits, loading_id := v_loading_id\<rparr>"
  "(r :: server)\<lparr>stat_expiredkeys := v_stat_expiredkeys, stat_keyspace_misses := v_stat_keyspace_misses\<rparr> = r\<lparr>stat_keyspace_misses := v_stat_keyspace_misses, stat_expiredkeys := v_stat_expiredkeys\<rparr>"
  "(r :: server)\<lparr>dirty_cas := v_dirty_cas, stat_keyspace_misses := v_stat_keyspace_misses\<rparr> = r\<lparr>stat_keyspace_misses := v_stat_keyspace_misses, dirty_cas := v_dirty_cas\<rparr>"
  "(r :: server)\<lparr>list_ready := v_list_ready, stat_keyspace_misses := v_stat_keyspace_misses\<rparr> = r\<lparr>stat_keyspace_misses := v_stat_keyspace_misses, list_ready := v_list_ready\<rparr>"
  "(r :: server)\<lparr>effects := v_effects, stat_keyspace_misses := v_stat_keyspace_misses\<rparr> = r\<lparr>stat_keyspace_misses := v_stat_keyspace_misses, effects := v_effects\<rparr>"
  "(r :: server)\<lparr>next_client_id := v_next_client_id, stat_keyspace_misses := v_stat_keyspace_misses\<rparr> = r\<lparr>stat_keyspace_misses := v_stat_keyspace_misses, next_client_id := v_next_client_id\<rparr>"
  "(r :: server)\<lparr>vers_list := v_vers_list, stat_keyspace_misses := v_stat_keyspace_misses\<rparr> = r\<lparr>stat_keyspace_misses := v_stat_keyspace_misses, vers_list := v_vers_list\<rparr>"
  "(r :: server)\<lparr>tmp_store := v_tmp_store, stat_keyspace_misses := v_stat_keyspace_misses\<rparr> = r\<lparr>stat_keyspace_misses := v_stat_keyspace_misses, tmp_store := v_tmp_store\<rparr>"
  "(r :: server)\<lparr>upd_fun_running := v_upd_fun_running, stat_keyspace_misses := v_stat_keyspace_misses\<rparr> = r\<lparr>stat_keyspace_misses := v_stat_keyspace_misses, upd_fun_running := v_upd_fun_running\<rparr>"
  "(r :: server)\<lparr>loading_id := v_loading_id, stat_keyspace_misses := v_stat_keyspace_misses\<rparr> = r\<lparr>stat_keyspace_misses := v_stat_keyspace_misses, loading_id := v_loading_id\<rparr>"
  "(r :: server)\<lparr>dirty_cas := v_dirty_cas, stat_expiredkeys := v_stat_expiredkeys\<rparr> = r\<lparr>stat_expiredkeys := v_stat_expiredkeys, dirty_cas := v_dirty_cas\<rparr>"
  "(r :: server)\<lparr>list_ready := v_list_ready, stat_expiredkeys := v_stat_expiredkeys\<rparr> = r\<lparr>stat_expiredkeys := v_stat_expiredkeys, list_ready := v_list_ready\<rparr>"
  "(r :: server)\<lparr>effects := v_effects, stat_expiredkeys := v_stat_expiredkeys\<rparr> = r\<lparr>stat_expiredkeys := v_stat_expiredkeys, effects := v_effects\<rparr>"
  "(r :: server)\<lparr>next_client_id := v_next_client_id, stat_expiredkeys := v_stat_expiredkeys\<rparr> = r\<lparr>stat_expiredkeys := v_stat_expiredkeys, next_client_id := v_next_client_id\<rparr>"
  "(r :: server)\<lparr>vers_list := v_vers_list, stat_expiredkeys := v_stat_expiredkeys\<rparr> = r\<lparr>stat_expiredkeys := v_stat_expiredkeys, vers_list := v_vers_list\<rparr>"
  "(r :: server)\<lparr>tmp_store := v_tmp_store, stat_expiredkeys := v_stat_expiredkeys\<rparr> = r\<lparr>stat_expiredkeys := v_stat_expiredkeys, tmp_store := v_tmp_store\<rparr>"
  "(r :: server)\<lparr>upd_fun_running := v_upd_fun_running, stat_expiredkeys := v_stat_expiredkeys\<rparr> = r\<lparr>stat_expiredkeys := v_stat_expiredkeys, upd_fun_running := v_upd_fun_running\<rparr>"
  "(r :: server)\<lparr>loading_id := v_loading_id, stat_expiredkeys := v_stat_expiredkeys\<rparr> = r\<lparr>stat_expiredkeys := v_stat_expiredkeys, loading_id := v_loading_id\<rparr>"
  "(r :: server)\<lparr>list_ready := v_list_ready, dirty_cas := v_dirty_cas\<rparr> = r\<lparr>dirty_cas := v_dirty_cas, list_ready := v_list_ready\<rparr>"
  "(r :: server)\<lparr>effects := v_effects, dirty_cas := v_dirty_cas\<rparr> = r\<lparr>dirty_cas := v_dirty_cas, effects := v_effects\<rparr>"
  "(r :: server)\<lparr>next_client_id := v_next_client_id, dirty_cas := v_dirty_cas\<rparr> = r\<lparr>dirty_cas := v_dirty_cas, next_client_id := v_next_client_id\<rparr>"
  "(r :: server)\<lparr>vers_list := v_vers_list, dirty_cas := v_dirty_cas\<rparr> = r\<lparr>dirty_cas := v_dirty_cas, vers_list := v_vers_list\<rparr>"
  "(r :: server)\<lparr>tmp_store := v_tmp_store, dirty_cas := v_dirty_cas\<rparr> = r\<lparr>dirty_cas := v_dirty_cas, tmp_store := v_tmp_store\<rparr>"
  "(r :: server)\<lparr>upd_fun_running := v_upd_fun_running, dirty_cas := v_dirty_cas\<rparr> = r\<lparr>dirty_cas := v_dirty_cas, upd_fun_running := v_upd_fun_running\<rparr>"
  "(r :: server)\<lparr>loading_id := v_loading_id, dirty_cas := v_dirty_cas\<rparr> = r\<lparr>dirty_cas := v_dirty_cas, loading_id := v_loading_id\<rparr>"
  "(r :: server)\<lparr>effects := v_effects, list_ready := v_list_ready\<rparr> = r\<lparr>list_ready := v_list_ready, effects := v_effects\<rparr>"
  "(r :: server)\<lparr>next_client_id := v_next_client_id, list_ready := v_list_ready\<rparr> = r\<lparr>list_ready := v_list_ready, next_client_id := v_next_client_id\<rparr>"
  "(r :: server)\<lparr>vers_list := v_vers_list, list_ready := v_list_ready\<rparr> = r\<lparr>list_ready := v_list_ready, vers_list := v_vers_list\<rparr>"
  "(r :: server)\<lparr>tmp_store := v_tmp_store, list_ready := v_list_ready\<rparr> = r\<lparr>list_ready := v_list_ready, tmp_store := v_tmp_store\<rparr>"
  "(r :: server)\<lparr>upd_fun_running := v_upd_fun_running, list_ready := v_list_ready\<rparr> = r\<lparr>list_ready := v_list_ready, upd_fun_running := v_upd_fun_running\<rparr>"
  "(r :: server)\<lparr>loading_id := v_loading_id, list_ready := v_list_ready\<rparr> = r\<lparr>list_ready := v_list_ready, loading_id := v_loading_id\<rparr>"
  "(r :: server)\<lparr>next_client_id := v_next_client_id, effects := v_effects\<rparr> = r\<lparr>effects := v_effects, next_client_id := v_next_client_id\<rparr>"
  "(r :: server)\<lparr>vers_list := v_vers_list, effects := v_effects\<rparr> = r\<lparr>effects := v_effects, vers_list := v_vers_list\<rparr>"
  "(r :: server)\<lparr>tmp_store := v_tmp_store, effects := v_effects\<rparr> = r\<lparr>effects := v_effects, tmp_store := v_tmp_store\<rparr>"
  "(r :: server)\<lparr>upd_fun_running := v_upd_fun_running, effects := v_effects\<rparr> = r\<lparr>effects := v_effects, upd_fun_running := v_upd_fun_running\<rparr>"
  "(r :: server)\<lparr>loading_id := v_loading_id, effects := v_effects\<rparr> = r\<lparr>effects := v_effects, loading_id := v_loading_id\<rparr>"
  "(r :: server)\<lparr>vers_list := v_vers_list, next_client_id := v_next_client_id\<rparr> = r\<lparr>next_client_id := v_next_client_id, vers_list := v_vers_list\<rparr>"
  "(r :: server)\<lparr>tmp_store := v_tmp_store, next_client_id := v_next_client_id\<rparr> = r\<lparr>next_client_id := v_next_client_id, tmp_store := v_tmp_store\<rparr>"
  "(r :: server)\<lparr>upd_fun_running := v_upd_fun_running, next_client_id := v_next_client_id\<rparr> = r\<lparr>next_client_id := v_next_client_id, upd_fun_running := v_upd_fun_running\<rparr>"
  "(r :: server)\<lparr>loading_id := v_loading_id, next_client_id := v_next_client_id\<rparr> = r\<lparr>next_client_id := v_next_client_id, loading_id := v_loading_id\<rparr>"
  "(r :: server)\<lparr>tmp_store := v_tmp_store, vers_list := v_vers_list\<rparr> = r\<lparr>vers_list := v_vers_list, tmp_store := v_tmp_store\<rparr>"
  "(r :: server)\<lparr>upd_fun_running := v_upd_fun_running, vers_list := v_vers_list\<rparr> = r\<lparr>vers_list := v_vers_list, upd_fun_running := v_upd_fun_running\<rparr>"
  "(r :: server)\<lparr>loading_id := v_loading_id, vers_list := v_vers_list\<rparr> = r\<lparr>vers_list := v_vers_list, loading_id := v_loading_id\<rparr>"
  "(r :: server)\<lparr>upd_fun_running := v_upd_fun_running, tmp_store := v_tmp_store\<rparr> = r\<lparr>tmp_store := v_tmp_store, upd_fun_running := v_upd_fun_running\<rparr>"
  "(r :: server)\<lparr>loading_id := v_loading_id, tmp_store := v_tmp_store\<rparr> = r\<lparr>tmp_store := v_tmp_store, loading_id := v_loading_id\<rparr>"
  "(r :: server)\<lparr>loading_id := v_loading_id, upd_fun_running := v_upd_fun_running\<rparr> = r\<lparr>upd_fun_running := v_upd_fun_running, loading_id := v_loading_id\<rparr>"
  by simp_all


section \<open>Heap access\<close>

definition obj :: "server \<Rightarrow> addr \<Rightarrow> robj option" where
  "obj s a = heap s a"

definition new_obj :: "robj \<Rightarrow> server \<Rightarrow> addr \<times> server" where
  "new_obj ob s = (brk s, s\<lparr>heap := (heap s)(brk s \<mapsto> ob), brk := brk s + 1\<rparr>)"

definition upd_obj :: "addr \<Rightarrow> (robj \<Rightarrow> robj) \<Rightarrow> server \<Rightarrow> server option" where
  "upd_obj a f s =
     (case heap s a of None \<Rightarrow> None | Some ob \<Rightarrow> Some (s\<lparr>heap := (heap s)(a \<mapsto> f ob)\<rparr>))"

definition zfree :: "addr \<Rightarrow> server \<Rightarrow> server option" where
  "zfree a s = (case heap s a of None \<Rightarrow> None | Some _ \<Rightarrow> Some (s\<lparr>heap := (heap s)(a := None)\<rparr>))"

text \<open>The sds of an object, as \<^verbatim>\<open>(sds)o->ptr\<close> is used: anything else is not an sds.\<close>

definition sds_of :: "server \<Rightarrow> addr \<Rightarrow> string option" where
  "sds_of s a = (case heap s a of
      Some ob \<Rightarrow> (case ptr ob of Sds x \<Rightarrow> Some x | _ \<Rightarrow> None)
    | None \<Rightarrow> None)"

text \<open>No object lives at or above the allocation pointer, and the shared integers are in place.\<close>

definition shared_ok :: "server \<Rightarrow> bool" where
  "shared_ok s \<longleftrightarrow> (\<forall>j < REDIS_SHARED_INTEGERS. \<exists>ob. heap s j = Some ob \<and> otype ob = REDIS_STRING \<and>
     encoding ob = REDIS_ENCODING_INT \<and> ptr ob = Long (int j) \<and> 0 < refcount ob)"

definition heap_ok :: "server \<Rightarrow> bool" where
  "heap_ok s \<longleftrightarrow> (\<forall>a. brk s \<le> a \<longrightarrow> heap s a = None) \<and> REDIS_SHARED_INTEGERS \<le> brk s \<and> shared_ok s"

lemma heap_ok_fresh [simp]: "heap_ok s \<Longrightarrow> heap s (brk s) = None"
  by (simp add: heap_ok_def)

lemma heap_ok_init: "heap_ok initServer"
  by (simp add: heap_ok_def shared_ok_def initServer_def shared_integers_def)

lemma new_obj_simps [heap_simps]:
  "fst (new_obj ob s) = brk s"
  "heap (snd (new_obj ob s)) a = (if a = brk s then Some ob else heap s a)"
  "db (snd (new_obj ob s)) = db s"
  by (simp_all add: new_obj_def)

lemma upd_obj_Some [heap_simps]:
  "heap s a = Some ob \<Longrightarrow> upd_obj a f s = Some (s\<lparr>heap := (heap s)(a \<mapsto> f ob)\<rparr>)"
  by (simp add: upd_obj_def)

lemma sds_of_Some:
  "sds_of s a = Some x \<longleftrightarrow> (\<exists>ob. heap s a = Some ob \<and> ptr ob = Sds x)"
  by (auto simp: sds_of_def split: option.splits payload.splits)

lemma heap_ok_new:
  "heap_ok s \<Longrightarrow> heap_ok (s\<lparr>heap := (heap s)(brk s \<mapsto> ob), brk := brk s + 1\<rparr>)"
  by (auto simp: heap_ok_def shared_ok_def)

lemma heap_ok_upd:
  assumes "heap_ok s" "heap s a = Some ob" "REDIS_SHARED_INTEGERS \<le> a"
  shows "heap_ok (s\<lparr>heap := (heap s)(a \<mapsto> ob')\<rparr>)"
  using assms by (auto simp: heap_ok_def shared_ok_def)

end
