(* ===== verification/Object.thy ===== *)
theory Object
  imports State
begin

text \<open>
  Redis objects (\<^verbatim>\<open>redis-2.8.17/src/object.c\<close>): creation, reference counting and release,
  the integer encoding of strings, decoding and comparison. kvolve keeps the version of a
  value in the object itself, so what an encoding step does to an object decides whether a
  version survives.
\<close>

section \<open>Creation\<close>

definition createObject :: "rtype \<Rightarrow> payload \<Rightarrow> server \<Rightarrow> addr \<times> server" where
  "createObject ty p s =
     new_obj \<lparr>otype = ty, encoding = REDIS_ENCODING_RAW, refcount = 1, vers = 0, ptr = p\<rparr> s"

definition createStringObject :: "string \<Rightarrow> server \<Rightarrow> addr \<times> server" where
  "createStringObject x s = createObject REDIS_STRING (Sds x) s"

definition incrRefCount :: "addr \<Rightarrow> server \<Rightarrow> server option" where
  "incrRefCount a s = upd_obj a (\<lambda>ob. ob\<lparr>refcount := refcount ob + 1\<rparr>) s"

definition createStringObjectFromLongLong :: "int \<Rightarrow> server \<Rightarrow> (addr \<times> server) option" where
  "createStringObjectFromLongLong v s =
     (if 0 \<le> v \<and> v < int REDIS_SHARED_INTEGERS then do {
        s1 \<leftarrow> incrRefCount (nat v) s;
        Some (nat v, s1)
      }
      else if LLONG_MIN \<le> v \<and> v \<le> LLONG_MAX then
        (case createObject REDIS_STRING Null s of
           (a, s1) \<Rightarrow> do {
             s2 \<leftarrow> upd_obj a (\<lambda>ob. ob\<lparr>encoding := REDIS_ENCODING_INT, ptr := Long v\<rparr>) s1;
             Some (a, s2)
           })
      else Some (createObject REDIS_STRING (Sds (dec_int v)) s))"

definition dupStringObject :: "addr \<Rightarrow> server \<Rightarrow> (addr \<times> server) option" where
  "dupStringObject a s = do {
     ob \<leftarrow> obj s a;
     if encoding ob \<noteq> REDIS_ENCODING_RAW then None
     else do { x \<leftarrow> sds_of s a; Some (createStringObject x s) }
   }"

definition create_encoded :: "rtype \<Rightarrow> rencoding \<Rightarrow> payload \<Rightarrow> server \<Rightarrow> addr \<times> server" where
  "create_encoded ty enc p s =
     (case createObject ty p s of
        (a, s1) \<Rightarrow> (a, s1\<lparr>heap := (heap s1)(a := map_option (\<lambda>ob. ob\<lparr>encoding := enc\<rparr>) (heap s1 a))\<rparr>))"

definition createListObject :: "server \<Rightarrow> addr \<times> server" where
  "createListObject = create_encoded REDIS_LIST REDIS_ENCODING_LINKEDLIST (Linked [])"

definition createZiplistObject :: "server \<Rightarrow> addr \<times> server" where
  "createZiplistObject = create_encoded REDIS_LIST REDIS_ENCODING_ZIPLIST (Ziplist [])"

definition createSetObject :: "server \<Rightarrow> addr \<times> server" where
  "createSetObject = create_encoded REDIS_SET REDIS_ENCODING_HT (DictSet [])"

definition createIntsetObject :: "server \<Rightarrow> addr \<times> server" where
  "createIntsetObject = create_encoded REDIS_SET REDIS_ENCODING_INTSET (Is intsetNew)"

definition createHashObject :: "server \<Rightarrow> addr \<times> server" where
  "createHashObject = create_encoded REDIS_HASH REDIS_ENCODING_ZIPLIST (Ziplist [])"

definition createZsetZiplistObject :: "server \<Rightarrow> addr \<times> server" where
  "createZsetZiplistObject = create_encoded REDIS_ZSET REDIS_ENCODING_ZIPLIST (Ziplist [])"


section \<open>Release\<close>

text \<open>
  The elements of containers are string objects; releasing one never recurses further. A
  container inside a container would be a corrupted heap and is a fault.
\<close>

definition freeStringObject :: "robj \<Rightarrow> addr list option" where
  "freeStringObject ob = Some []"

definition decrRefCount_elem :: "addr \<Rightarrow> server \<Rightarrow> server option" where
  "decrRefCount_elem a s = do {
     ob \<leftarrow> obj s a;
     if refcount ob \<le> 0 then None
     else if refcount ob = 1 then (if otype ob = REDIS_STRING then zfree a s else None)
     else upd_obj a (\<lambda>ob. ob\<lparr>refcount := refcount ob - 1\<rparr>) s
   }"

primrec decr_all :: "addr list \<Rightarrow> server \<Rightarrow> server option" where
  "decr_all [] s = Some s"
| "decr_all (a # as) s = do { s1 \<leftarrow> decrRefCount_elem a s; decr_all as s1 }"

text \<open>The element references a container gives up when it is released, by its encoding.\<close>

definition freeListObject :: "robj \<Rightarrow> addr list option" where
  "freeListObject ob =
     (case (encoding ob, ptr ob) of
        (REDIS_ENCODING_LINKEDLIST, Linked as) \<Rightarrow> Some as
      | (REDIS_ENCODING_ZIPLIST, Ziplist _) \<Rightarrow> Some []
      | _ \<Rightarrow> None)"

definition freeSetObject :: "robj \<Rightarrow> addr list option" where
  "freeSetObject ob =
     (case (encoding ob, ptr ob) of
        (REDIS_ENCODING_HT, DictSet as) \<Rightarrow> Some as
      | (REDIS_ENCODING_INTSET, Is _) \<Rightarrow> Some []
      | _ \<Rightarrow> None)"

definition freeHashObject :: "robj \<Rightarrow> addr list option" where
  "freeHashObject ob =
     (case (encoding ob, ptr ob) of
        (REDIS_ENCODING_HT, DictHash kvs) \<Rightarrow> Some (concat (map (\<lambda>(k, v). [k, v]) kvs))
      | (REDIS_ENCODING_ZIPLIST, Ziplist _) \<Rightarrow> Some []
      | _ \<Rightarrow> None)"

definition freeZsetObject :: "robj \<Rightarrow> addr list option" where
  "freeZsetObject ob =
     (case (encoding ob, ptr ob) of
        (REDIS_ENCODING_ZIPLIST, Ziplist _) \<Rightarrow> Some []
      | _ \<Rightarrow> None)"

definition owned :: "robj \<Rightarrow> addr list option" where
  "owned ob =
     (case otype ob of
        REDIS_STRING \<Rightarrow> freeStringObject ob
      | REDIS_LIST \<Rightarrow> freeListObject ob
      | REDIS_SET \<Rightarrow> freeSetObject ob
      | REDIS_ZSET \<Rightarrow> freeZsetObject ob
      | REDIS_HASH \<Rightarrow> freeHashObject ob)"

definition decrRefCount :: "addr \<Rightarrow> server \<Rightarrow> server option" where
  "decrRefCount a s = do {
     ob \<leftarrow> obj s a;
     if refcount ob \<le> 0 then None
     else if refcount ob = 1 then do {
       es \<leftarrow> owned ob;
       s1 \<leftarrow> decr_all es s;
       zfree a s1
     }
     else upd_obj a (\<lambda>ob. ob\<lparr>refcount := refcount ob - 1\<rparr>) s
   }"

definition resetRefCount :: "addr \<Rightarrow> server \<Rightarrow> server option" where
  "resetRefCount a s = upd_obj a (\<lambda>ob. ob\<lparr>refcount := 0\<rparr>) s"


section \<open>Encoding and decoding of strings\<close>

definition isObjectRepresentableAsLongLong :: "server \<Rightarrow> addr \<Rightarrow> int option option" where
  "isObjectRepresentableAsLongLong s a = do {
     ob \<leftarrow> obj s a;
     if otype ob \<noteq> REDIS_STRING then None
     else if encoding ob = REDIS_ENCODING_INT then
       (case ptr ob of Long v \<Rightarrow> Some (Some v) | _ \<Rightarrow> None)
     else do { x \<leftarrow> sds_of s a; Some (string2ll x) }
   }"

definition tryObjectEncoding :: "addr \<Rightarrow> server \<Rightarrow> (addr \<times> server) option" where
  "tryObjectEncoding a s = do {
     ob \<leftarrow> obj s a;
     if encoding ob \<noteq> REDIS_ENCODING_RAW then Some (a, s)
     else if refcount ob > 1 then Some (a, s)
     else if otype ob \<noteq> REDIS_STRING then None
     else do {
       x \<leftarrow> sds_of s a;
       case (if length x > 21 then None else string2l x) of
         None \<Rightarrow> Some (a, s)
       | Some value \<Rightarrow>
           if \<not> maxmemory_lru s \<and> 0 \<le> value \<and> value < int REDIS_SHARED_INTEGERS then do {
             s1 \<leftarrow> decrRefCount a s;
             s2 \<leftarrow> incrRefCount (nat value) s1;
             Some (nat value, s2)
           }
           else do {
             s1 \<leftarrow> upd_obj a (\<lambda>ob. ob\<lparr>encoding := REDIS_ENCODING_INT, ptr := Long value\<rparr>) s;
             Some (a, s1)
           }
     }
   }"

text \<open>
  \<^verbatim>\<open>ll2string(buf, n, (long)o->ptr)\<close>: the characters it leaves in a buffer of \<open>n\<close> bytes, up
  to the terminator.
\<close>

definition ll_chars :: "nat \<Rightarrow> int \<Rightarrow> string option" where
  "ll_chars n v = do { (buf, len) \<leftarrow> ll2string (replicate n NUL) v; Some (take len buf) }"

definition getDecodedObject :: "addr \<Rightarrow> server \<Rightarrow> (addr \<times> server) option" where
  "getDecodedObject a s = do {
     ob \<leftarrow> obj s a;
     if encoding ob = REDIS_ENCODING_RAW then do { s1 \<leftarrow> incrRefCount a s; Some (a, s1) }
     else if otype ob = REDIS_STRING \<and> encoding ob = REDIS_ENCODING_INT then
       (case ptr ob of
          Long v \<Rightarrow> do { x \<leftarrow> ll_chars 32 v; Some (createStringObject x s) }
        | _ \<Rightarrow> None)
     else None
   }"

text \<open>The characters of a string object as the comparison functions read them.\<close>

definition obj_chars :: "nat \<Rightarrow> server \<Rightarrow> addr \<Rightarrow> string option" where
  "obj_chars n s a = do {
     ob \<leftarrow> obj s a;
     if encoding ob \<noteq> REDIS_ENCODING_RAW then
       (case ptr ob of Long v \<Rightarrow> ll_chars n v | _ \<Rightarrow> None)
     else sds_of s a
   }"

text \<open>\<^verbatim>\<open>memcmp\<close>: the difference of the first pair of bytes that differ.\<close>

fun memcmp :: "string \<Rightarrow> string \<Rightarrow> int" where
  "memcmp (a # as) (b # bs) = (if a = b then memcmp as bs else of_char a - of_char b)"
| "memcmp _ _ = 0"

definition string_cmp :: "string \<Rightarrow> string \<Rightarrow> int" where
  "string_cmp x y =
     (let minlen = min (length x) (length y);
          cmp = memcmp (take minlen x) (take minlen y) in
      if cmp = 0 then int (length x) - int (length y) else cmp)"

definition compareStringObjects :: "server \<Rightarrow> addr \<Rightarrow> addr \<Rightarrow> int option" where
  "compareStringObjects s a b = do {
     oa \<leftarrow> obj s a;
     ob \<leftarrow> obj s b;
     if otype oa \<noteq> REDIS_STRING \<or> otype ob \<noteq> REDIS_STRING then None
     else if a = b then Some 0
     else do {
       x \<leftarrow> obj_chars 128 s a;
       y \<leftarrow> obj_chars 128 s b;
       Some (string_cmp x y)
     }
   }"

definition equalStringObjects :: "server \<Rightarrow> addr \<Rightarrow> addr \<Rightarrow> bool option" where
  "equalStringObjects s a b = do {
     oa \<leftarrow> obj s a;
     ob \<leftarrow> obj s b;
     if encoding oa \<noteq> REDIS_ENCODING_RAW \<and> encoding ob \<noteq> REDIS_ENCODING_RAW
     then Some (ptr oa = ptr ob)
     else do { c \<leftarrow> compareStringObjects s a b; Some (c = 0) }
   }"

definition stringObjectLen :: "server \<Rightarrow> addr \<Rightarrow> nat option" where
  "stringObjectLen s a = do {
     ob \<leftarrow> obj s a;
     if otype ob \<noteq> REDIS_STRING then None
     else do { x \<leftarrow> obj_chars 32 s a; Some (length x) }
   }"


text \<open>\<^verbatim>\<open>strtoll(s, &eptr, 10)\<close>: the value, what \<^verbatim>\<open>eptr\<close> points at, and whether it set \<^verbatim>\<open>ERANGE\<close>.\<close>

definition isspace :: "char \<Rightarrow> bool" where
  "isspace c \<longleftrightarrow> c = CHR '' '' \<or> (9 \<le> (of_char c :: nat) \<and> (of_char c :: nat) \<le> 13)"

definition strtoll :: "string \<Rightarrow> int \<times> string \<times> bool" where
  "strtoll x =
     (let t = dropWhile isspace x;
          neg = (t \<noteq> [] \<and> hd t = CHR ''-'');
          u = (if t \<noteq> [] \<and> (hd t = CHR ''-'' \<or> hd t = CHR ''+'') then tl t else t);
          ds = takeWhile isdigit u;
          v = (if neg then - int (num_of 0 ds) else int (num_of 0 ds)) in
      if ds = [] then (0, x, False)
      else if v < LLONG_MIN then (LLONG_MIN, dropWhile isdigit u, True)
      else if v > LLONG_MAX then (LLONG_MAX, dropWhile isdigit u, True)
      else (v, dropWhile isdigit u, False))"

definition getLongLongFromObject :: "server \<Rightarrow> addr option \<Rightarrow> int option option" where
  "getLongLongFromObject s p =
     (case p of
        None \<Rightarrow> Some (Some 0)
      | Some a \<Rightarrow> do {
          ob \<leftarrow> obj s a;
          if otype ob \<noteq> REDIS_STRING then None
          else if encoding ob = REDIS_ENCODING_RAW then do {
            y \<leftarrow> sds_of s a;
            let x = c_str y;
            let (value, eptr, erange) = strtoll x;
            Some (if (x \<noteq> [] \<and> isspace (hd x)) \<or> eptr \<noteq> [] \<or> erange then None else Some value)
          }
          else if encoding ob = REDIS_ENCODING_INT then
            (case ptr ob of Long v \<Rightarrow> Some (Some v) | _ \<Rightarrow> None)
          else None
        })"


section \<open>Replies\<close>

text \<open>
  \<^verbatim>\<open>prepareClientToWrite\<close> refuses a client that is not connected, so the fake clients kvolve
  makes (descriptor -1) never receive anything.
\<close>

definition addReply :: "reply \<Rightarrow> client \<Rightarrow> client" where
  "addReply r c = (if fd c \<le> 0 then c else c\<lparr>replies := replies c @ [r]\<rparr>)"

definition checkType :: "client \<Rightarrow> addr \<Rightarrow> rtype \<Rightarrow> server \<Rightarrow> (client \<times> bool) option" where
  "checkType c a ty s = do {
     ob \<leftarrow> obj s a;
     Some (if otype ob \<noteq> ty then (addReply RWrongType c, True) else (c, False))
   }"

definition getLongLongFromObjectOrReply ::
  "client \<Rightarrow> addr option \<Rightarrow> string option \<Rightarrow> server \<Rightarrow> (client \<times> int option) option" where
  "getLongLongFromObjectOrReply c p msg s = do {
     r \<leftarrow> getLongLongFromObject s p;
     Some (case r of
       None \<Rightarrow>
         (addReply (RError (case msg of Some m \<Rightarrow> m | None \<Rightarrow> ''value is not an integer or out of range'')) c,
          None)
     | Some v \<Rightarrow> (c, Some v))
   }"

definition getLongFromObjectOrReply ::
  "client \<Rightarrow> addr option \<Rightarrow> string option \<Rightarrow> server \<Rightarrow> (client \<times> int option) option" where
  "getLongFromObjectOrReply c p msg s = do {
     (c1, r) \<leftarrow> getLongLongFromObjectOrReply c p msg s;
     Some (case r of
       None \<Rightarrow> (c1, None)
     | Some v \<Rightarrow>
         if v < LLONG_MIN \<or> v > LLONG_MAX
         then (addReply (RError (case msg of Some m \<Rightarrow> m | None \<Rightarrow> ''value is out of range'')) c1, None)
         else (c1, Some v))
   }"

lemma addReply_fields [simp]:
  "cid (addReply r c) = cid c" "cdb (addReply r c) = cdb c" "fd (addReply r c) = fd c"
  "argv (addReply r c) = argv c"
  by (simp_all add: addReply_def)

lemma addReply_fake [simp]: "fd c \<le> 0 \<Longrightarrow> addReply r c = c"
  by (simp add: addReply_def)


section \<open>The string an object stands for\<close>

definition long_range :: "int \<Rightarrow> bool" where
  "long_range v \<longleftrightarrow> LLONG_MIN \<le> v \<and> v \<le> LLONG_MAX"

text \<open>A well-formed string object, and the string it stands for whatever its encoding.\<close>

definition str_ok :: "robj \<Rightarrow> bool" where
  "str_ok ob \<longleftrightarrow> otype ob = REDIS_STRING \<and>
     (case ptr ob of
        Sds x \<Rightarrow> encoding ob = REDIS_ENCODING_RAW
      | Long v \<Rightarrow> encoding ob = REDIS_ENCODING_INT \<and> long_range v
      | _ \<Rightarrow> False)"

definition str_val :: "robj \<Rightarrow> string" where
  "str_val ob = (case ptr ob of Sds x \<Rightarrow> x | Long v \<Rightarrow> dec_int v | _ \<Rightarrow> [])"

lemma str_ok_cases:
  assumes "str_ok ob"
  obtains (raw) x where "otype ob = REDIS_STRING" "encoding ob = REDIS_ENCODING_RAW" "ptr ob = Sds x" "str_val ob = x"
  | (int) v where "otype ob = REDIS_STRING" "encoding ob = REDIS_ENCODING_INT" "ptr ob = Long v" "long_range v" "str_val ob = dec_int v"
  using assms by (cases "ptr ob") (auto simp: str_ok_def str_val_def)

lemma length_dec_nat_le: "n < 10 ^ Suc k \<Longrightarrow> length (dec_nat n) \<le> Suc k"
proof (induction k arbitrary: n)
  case (Suc k)
  show ?case
  proof (cases "n < 10")
    case False
    moreover have "n div 10 < 10 ^ Suc k"
      using Suc.prems by (simp add: less_mult_imp_div_less mult.commute)
    ultimately show ?thesis using Suc.IH by (simp add: dec_nat_large)
  qed (simp add: dec_nat_small)
qed (simp add: dec_nat_small)

lemma length_dec_int_le: "long_range v \<Longrightarrow> length (dec_int v) \<le> 20"
proof -
  assume v: "long_range v"
  have "nat v < 10 ^ Suc 18" "nat (- v) < 10 ^ Suc 18" using v unfolding long_range_def by simp_all linarith+
  from this [THEN length_dec_nat_le]
  show ?thesis by (simp add: dec_int_def)
qed

lemma ll_chars_ok:
  assumes "long_range v" "21 \<le> n"
  shows "ll_chars n v = Some (dec_int v)"
proof -
  have "length (dec_int v) < length (replicate n NUL)"
    using length_dec_int_le [OF assms(1)] assms(2) by simp
  from ll2string_ok [OF this] obtain dst' where
    *: "ll2string (replicate n NUL) v = Some (dst', length (dec_int v))" "c_str dst' = dec_int v"
    by blast
  have "take (length (c_str dst')) dst' = c_str dst'"
    unfolding c_str_def by (metis takeWhile_eq_take)
  with * show ?thesis by (simp add: ll_chars_def)
qed

lemma obj_chars_ok:
  assumes "heap s a = Some ob" "str_ok ob" "21 \<le> n"
  shows "obj_chars n s a = Some (str_val ob)"
  using assms(2) assms(1,3)
  by (cases rule: str_ok_cases) (auto simp: obj_chars_def obj_def sds_of_def ll_chars_ok)

lemma dec_int_inject: "long_range v \<Longrightarrow> long_range w \<Longrightarrow> dec_int v = dec_int w \<longleftrightarrow> v = w"
proof -
  assume v: "long_range v" and w: "long_range w"
  have *: "string2ll (dec_int u) = Some u" if "long_range u" for u
    using that unfolding string2ll_iff long_range_def by simp
  have "v = w" if "dec_int v = dec_int w"
    using * [OF v] * [OF w] unfolding that by (simp only: option.inject)
  then show ?thesis by blast
qed

lemma memcmp_zero: "length x = length y \<Longrightarrow> memcmp x y = 0 \<longleftrightarrow> x = y"
  by (induction x y rule: memcmp.induct) auto

lemma string_cmp_zero: "string_cmp x y = 0 \<longleftrightarrow> x = y"
proof (cases "length x = length y")
  case True
  then show ?thesis by (simp add: string_cmp_def Let_def memcmp_zero)
next
  case False
  then show ?thesis by (auto simp: string_cmp_def Let_def)
qed

text \<open>Two string objects are equal to the server when they stand for the same string.\<close>

lemma equalStringObjects_ok:
  assumes "heap s a = Some oa" "heap s b = Some ob" "str_ok oa" "str_ok ob"
  shows "equalStringObjects s a b = Some (str_val oa = str_val ob)"
proof (cases "encoding oa \<noteq> REDIS_ENCODING_RAW \<and> encoding ob \<noteq> REDIS_ENCODING_RAW")
  case True
  from assms(3) True show ?thesis
  proof (cases rule: str_ok_cases)
    case (int v)
    from assms(4) True int assms(1,2) show ?thesis
      by (cases rule: str_ok_cases) (auto simp: equalStringObjects_def obj_def dec_int_inject)
  qed simp
next
  case False
  have ty: "otype oa = REDIS_STRING" "otype ob = REDIS_STRING"
    using assms(3,4) by (simp_all add: str_ok_def)
  show ?thesis
  proof (cases "a = b")
    case True
    with assms False ty show ?thesis
      by (simp add: equalStringObjects_def compareStringObjects_def obj_def)
  next
    case neq: False
    have "compareStringObjects s a b = Some (string_cmp (str_val oa) (str_val ob))"
      using assms(1,2) ty neq by (simp add: compareStringObjects_def obj_def obj_chars_ok [OF assms(1,3)]
          obj_chars_ok [OF assms(2,4)])
    then show ?thesis
      using assms(1,2) False by (auto simp: equalStringObjects_def obj_def string_cmp_zero)
  qed
qed

lemma stringObjectLen_ok:
  assumes "heap s a = Some ob" "str_ok ob"
  shows "stringObjectLen s a = Some (length (str_val ob))"
proof -
  have "otype ob = REDIS_STRING" using assms(2) by (simp add: str_ok_def)
  with assms(1) show ?thesis
    by (simp add: stringObjectLen_def obj_def obj_chars_ok [OF assms])
qed

lemma getDecodedObject_ok:
  assumes "heap_ok s" "heap s a = Some ob" "str_ok ob"
  shows "\<exists>b s' ob'. getDecodedObject a s = Some (b, s') \<and> heap s' b = Some ob' \<and>
           str_ok ob' \<and> encoding ob' = REDIS_ENCODING_RAW \<and> str_val ob' = str_val ob"
  using assms(3)
proof (cases rule: str_ok_cases)
  case (raw x)
  then have "getDecodedObject a s = Some (a, s\<lparr>heap := (heap s)(a \<mapsto> ob\<lparr>refcount := refcount ob + 1\<rparr>)\<rparr>)"
    using assms(2) by (simp add: getDecodedObject_def obj_def incrRefCount_def upd_obj_def)
  with raw show ?thesis by (simp add: str_ok_def str_val_def)
next
  case (int v)
  then have "getDecodedObject a s = Some (createStringObject (dec_int v) s)"
    using assms(2) by (simp add: getDecodedObject_def obj_def ll_chars_ok)
  with int show ?thesis
    by (simp add: createStringObject_def createObject_def new_obj_def str_ok_def str_val_def)
qed


section \<open>What the integer encoding does to an object\<close>

lemma string2l_iff: "string2l x = Some v \<longleftrightarrow> long_range v \<and> x = dec_int v"
  unfolding string2l_eq string2ll_iff long_range_def by simp

lemma try_long:
  "(if length x > 21 then None else string2l x) = string2l x"
proof (cases "string2l x")
  case (Some v)
  then have "length x \<le> 20" unfolding string2l_iff using length_dec_int_le by blast
  then show ?thesis by simp
qed simp

text \<open>A string that is not a 64-bit integer stays as it is.\<close>

lemma tryObjectEncoding_plain:
  assumes "heap s a = Some ob" "str_ok ob" "string2l (str_val ob) = None"
  shows "tryObjectEncoding a s = Some (a, s)"
  using assms(2)
proof (cases rule: str_ok_cases)
  case (raw x)
  with assms(1,3) show ?thesis by (simp add: tryObjectEncoding_def obj_def sds_of_def try_long)
next
  case (int v)
  with assms(1) show ?thesis by (simp add: tryObjectEncoding_def obj_def)
qed

text \<open>A small integer is replaced by the shared object: the old one, with its version, is gone.\<close>

lemma tryObjectEncoding_shared:
  assumes "heap s a = Some ob" "otype ob = REDIS_STRING" "encoding ob = REDIS_ENCODING_RAW"
    and "ptr ob = Sds (dec_int v)" "refcount ob = 1" "\<not> maxmemory_lru s"
    and "0 \<le> v" "v < 10000" "a \<noteq> nat v" "heap s (nat v) = Some sh"
  shows "tryObjectEncoding a s = Some (nat v,
           s\<lparr>heap := (heap s)(a := None, nat v \<mapsto> sh\<lparr>refcount := refcount sh + 1\<rparr>)\<rparr>)"
proof -
  have "string2l (dec_int v) = Some v" using assms(7,8) by (simp add: string2l_iff long_range_def)
  moreover have "decrRefCount a s = Some (s\<lparr>heap := (heap s)(a := None)\<rparr>)"
    using assms(1,2,5) by (simp add: decrRefCount_def obj_def owned_def freeStringObject_def zfree_def)
  ultimately show ?thesis
    using assms by (simp add: tryObjectEncoding_def obj_def sds_of_def try_long incrRefCount_def upd_obj_def)
qed

text \<open>Any other integer is encoded in place: the object, and its version, stay.\<close>

lemma tryObjectEncoding_in_place:
  assumes "heap s a = Some ob" "otype ob = REDIS_STRING" "encoding ob = REDIS_ENCODING_RAW"
    and "ptr ob = Sds (dec_int v)" "refcount ob = 1" "long_range v"
    and "maxmemory_lru s \<or> v < 0 \<or> 10000 \<le> v"
  shows "tryObjectEncoding a s = Some (a,
           s\<lparr>heap := (heap s)(a \<mapsto> ob\<lparr>encoding := REDIS_ENCODING_INT, ptr := Long v\<rparr>)\<rparr>)"
proof -
  have "string2l (dec_int v) = Some v" using assms(6) by (simp add: string2l_iff)
  moreover have "\<not> (\<not> maxmemory_lru s \<and> 0 \<le> v \<and> v < 10000)" using assms(7) by auto
  ultimately show ?thesis
    using assms(1-5) by (auto simp: tryObjectEncoding_def obj_def sds_of_def try_long upd_obj_def)
qed

text \<open>Whatever it does, the encoded object stands for the same string.\<close>

lemma tryObjectEncoding_value:
  assumes "heap_ok s" "heap s a = Some ob" "str_ok ob" "1 \<le> refcount ob" "10000 \<le> a"
  shows "\<exists>b s' ob'. tryObjectEncoding a s = Some (b, s') \<and> heap s' b = Some ob' \<and> str_ok ob' \<and>
           str_val ob' = str_val ob \<and> (b = a \<longrightarrow> vers ob' = vers ob)"
proof (cases "encoding ob = REDIS_ENCODING_RAW \<and> refcount ob = 1 \<and> string2l (str_val ob) \<noteq> None")
  case True
  then obtain v where v: "long_range v" "str_val ob = dec_int v" by (auto simp: string2l_iff)
  have ob: "otype ob = REDIS_STRING" "ptr ob = Sds (dec_int v)"
    using assms(3) True v(2) by (auto elim!: str_ok_cases)
  show ?thesis
  proof (cases "\<not> maxmemory_lru s \<and> 0 \<le> v \<and> v < 10000")
    case small: True
    then obtain sh where sh: "heap s (nat v) = Some sh" "otype sh = REDIS_STRING"
      "encoding sh = REDIS_ENCODING_INT" "ptr sh = Long v"
      using assms(1) by (auto simp: heap_ok_def shared_ok_def dest!: spec [of _ "nat v"])
    have "a \<noteq> nat v" using assms(5) small by linarith
    with tryObjectEncoding_shared [OF assms(2) ob(1) _ ob(2) _ _ _ _ this sh(1)] small True sh v
    show ?thesis by (simp add: str_ok_def str_val_def)
  next
    case False
    then have "maxmemory_lru s \<or> v < 0 \<or> 10000 \<le> v" by auto
    from tryObjectEncoding_in_place [OF assms(2) ob(1) _ ob(2) _ v(1) this] True v ob
    show ?thesis by (simp add: str_ok_def str_val_def)
  qed
next
  case False
  then have "tryObjectEncoding a s = Some (a, s)"
    using tryObjectEncoding_plain [OF assms(2,3)] assms(2,4)
    by (auto simp: tryObjectEncoding_def obj_def)
  with assms show ?thesis by auto
qed

section \<open>Reading back a printed number\<close>

lemma isdigit_code: "isdigit c \<longleftrightarrow> 48 \<le> (of_char c :: nat) \<and> (of_char c :: nat) \<le> 57"
  by (simp add: isdigit_def)

lemma digit_plain: "isdigit c \<Longrightarrow> \<not> isspace c \<and> c \<noteq> CHR ''-'' \<and> c \<noteq> CHR ''+''"
  by (auto simp: isdigit_code isspace_def)

lemma takeWhile_dec_nat: "takeWhile isdigit (dec_nat n) = dec_nat n" "dropWhile isdigit (dec_nat n) = []"
  using dec_nat_digits by (auto simp: takeWhile_eq_all_conv dropWhile_eq_Nil_conv)

lemma strtoll_dec:
  assumes "long_range v"
  shows "strtoll (dec_int v) = (v, [], False)"
proof (cases "v < 0")
  case True
  have "strtoll (CHR ''-'' # dec_nat (nat (- v))) = (v, [], False)"
    using assms True by (simp add: strtoll_def takeWhile_dec_nat num_of_dec_nat long_range_def isspace_def)
  with True show ?thesis by (simp add: dec_int_def)
next
  case False
  obtain c r where c: "dec_nat (nat v) = c # r" by (cases "dec_nat (nat v)") simp_all
  then have "isdigit c" using dec_nat_digits [of c "nat v"] by simp
  note c' = digit_plain [OF this]
  have "dropWhile isspace (dec_nat (nat v)) = dec_nat (nat v)" "hd (dec_nat (nat v)) = c" using c c' by simp_all
  then have "strtoll (dec_nat (nat v)) = (v, [], False)"
    using assms False c' by (simp add: strtoll_def takeWhile_dec_nat num_of_dec_nat long_range_def)
  with False show ?thesis by (simp add: dec_int_def)
qed


section \<open>Properties\<close>

text \<open>Encoding a string object (\<^verbatim>\<open>tryObjectEncoding\<close>) never changes the string it stands for:
  the object returned is well formed and has the same value. When the object itself is returned
  its version field is kept; only the replacement by a shared integer loses it.\<close>

theorem encoding_keeps_value:
  assumes "heap_ok s" "heap s a = Some ob" "str_ok ob" "1 \<le> refcount ob" "10000 \<le> a"
  shows "\<exists>b s' ob'. tryObjectEncoding a s = Some (b, s') \<and> heap s' b = Some ob' \<and> str_ok ob' \<and>
           str_val ob' = str_val ob \<and> (b = a \<longrightarrow> vers ob' = vers ob)"
  using assms by (rule tryObjectEncoding_value)

definition one_string :: "string \<Rightarrow> int \<Rightarrow> robj" where
  "one_string x v = \<lparr>otype = REDIS_STRING, encoding = REDIS_ENCODING_RAW, refcount = 1, vers = v, ptr = Sds x\<rparr>"

theorem encoding_keeps_value_witness:
  "\<exists>b s' ob'. tryObjectEncoding 10000 (snd (new_obj (one_string ''hello'' 3) initServer)) = Some (b, s') \<and>
     heap s' b = Some ob' \<and> str_val ob' = ''hello'' \<and> (b = 10000 \<longrightarrow> vers ob' = 3)"
proof -
  let ?s = "snd (new_obj (one_string ''hello'' 3) initServer)"
  have ok: "heap_ok ?s" using heap_ok_new [OF heap_ok_init] by (simp add: new_obj_def)
  have b: "brk initServer = 10000" by (simp add: initServer_def)
  have h: "heap ?s 10000 = Some (one_string ''hello'' 3)" using b by (simp add: new_obj_def)
  have "str_ok (one_string ''hello'' 3)" "1 \<le> refcount (one_string ''hello'' 3)"
    "str_val (one_string ''hello'' 3) = ''hello''" "vers (one_string ''hello'' 3) = 3"
    by (simp_all add: one_string_def str_ok_def str_val_def)
  with encoding_keeps_value [OF ok h] show ?thesis by fastforce
qed

text \<open>A 64-bit integer printed into a 32-byte buffer and parsed again gives the same integer.\<close>

theorem print_parse_roundtrip:
  assumes "long_range v"
  shows "\<exists>buf len. ll2string (replicate 32 NUL) v = Some (buf, len) \<and> string2ll (take len buf) = Some v"
proof -
  have "ll_chars 32 v = Some (dec_int v)" using assms by (simp add: ll_chars_ok)
  moreover have "string2ll (dec_int v) = Some v" using assms unfolding string2ll_iff long_range_def by simp
  ultimately show ?thesis by (auto simp: ll_chars_def split: bind_splits)
qed

theorem print_parse_roundtrip_witness:
  "\<exists>buf len. ll2string (replicate 32 NUL) (- 9223372036854775808) = Some (buf, len) \<and>
     string2ll (take len buf) = Some (- 9223372036854775808)"
proof -
  have "long_range (- 9223372036854775808)" unfolding long_range_def by simp
  from print_parse_roundtrip [OF this] show ?thesis .
qed

text \<open>Two string objects compare equal exactly when they stand for the same string, whether
  either of them is stored as characters or as an integer.\<close>

theorem equal_objects_same_string:
  assumes "heap s a = Some oa" "heap s b = Some ob" "str_ok oa" "str_ok ob"
  shows "equalStringObjects s a b = Some (str_val oa = str_val ob)"
  using assms by (rule equalStringObjects_ok)

theorem equal_objects_same_string_witness:
  "equalStringObjects (snd (new_obj (one_string ''12'' 0) initServer)) 10000 12 = Some True"
proof -
  let ?s = "snd (new_obj (one_string ''12'' 0) initServer)"
  let ?sh = "\<lparr>otype = REDIS_STRING, encoding = REDIS_ENCODING_INT, refcount = 1, vers = 0, ptr = Long 12\<rparr>"
  have h: "heap ?s 10000 = Some (one_string ''12'' 0)" "heap ?s 12 = Some ?sh"
    by (simp_all add: new_obj_def initServer_def shared_integers_def)
  have "str_ok (one_string ''12'' 0)" "str_ok ?sh" "str_val (one_string ''12'' 0) = ''12''"
    by (simp_all add: one_string_def str_ok_def str_val_def long_range_def)
  moreover have "str_val ?sh = ''12''"
    by (simp add: str_val_def dec_int_def dec_nat.simps digit_char_def) code_simp
  ultimately show ?thesis using equal_objects_same_string [OF h] by simp
qed

end
