(* ===== verification/Db.thy ===== *)
theory Db
  imports Object
begin

text \<open>
  The keyspace (\<^verbatim>\<open>redis-2.8.17/src/db.c\<close>): lookup, insertion, replacement and deletion of
  keys with their reference counts and expire times, and the commands on keys of any type.
  A database is named by its index, a key by the object that holds it.
\<close>

section \<open>Dictionaries of a database\<close>

definition getdb :: "server \<Rightarrow> nat \<Rightarrow> redisDb option" where
  "getdb s d = (if d < length (db s) then Some (db s ! d) else None)"

definition upd_db :: "nat \<Rightarrow> (redisDb \<Rightarrow> redisDb) \<Rightarrow> server \<Rightarrow> server" where
  "upd_db d f s = s\<lparr>db := (db s)[d := f (db s ! d)]\<rparr>"

definition arg :: "client \<Rightarrow> nat \<Rightarrow> addr option" where
  "arg c i = (if i < length (argv c) then Some (argv c ! i) else None)"

definition dictFind :: "'v sdict \<Rightarrow> string \<Rightarrow> 'v option" where
  "dictFind d k = map_of d k"

definition dictDelete :: "'v sdict \<Rightarrow> string \<Rightarrow> 'v sdict" where
  "dictDelete d k = AList.delete k d"

text \<open>An overwritten or deleted value loses the reference the dictionary held.\<close>

definition dictReplace_val :: "nat \<Rightarrow> string \<Rightarrow> addr \<Rightarrow> server \<Rightarrow> server option" where
  "dictReplace_val d k val s = do {
     dbv \<leftarrow> getdb s d;
     case dictFind (dict dbv) k of
       None \<Rightarrow> Some (upd_db d (\<lambda>x. x\<lparr>dict := (k, val) # dict x\<rparr>) s)
     | Some old \<Rightarrow> decrRefCount old (upd_db d (\<lambda>x. x\<lparr>dict := AList.update k val (dict x)\<rparr>) s)
   }"


section \<open>The C-level API\<close>

definition notifyKeyspaceEvent :: "string \<Rightarrow> string \<Rightarrow> nat \<Rightarrow> server \<Rightarrow> server" where
  "notifyKeyspaceEvent ev k d s = s\<lparr>effects := effects s @ [Notify ev k d]\<rparr>"

definition touchWatchedKey :: "nat \<Rightarrow> addr \<Rightarrow> server \<Rightarrow> server option" where
  "touchWatchedKey d key s = do {
     dbv \<leftarrow> getdb s d;
     if watched_keys dbv = [] then Some s
     else do {
       k \<leftarrow> sds_of s key;
       case dictFind (watched_keys dbv) k of
         None \<Rightarrow> Some s
       | Some cs \<Rightarrow> Some (s\<lparr>dirty_cas := cs @ dirty_cas s\<rparr>)
     }
   }"

definition signalModifiedKey :: "nat \<Rightarrow> addr \<Rightarrow> server \<Rightarrow> server option" where
  "signalModifiedKey d key s = touchWatchedKey d key s"

definition signalListAsReady :: "nat \<Rightarrow> addr \<Rightarrow> server \<Rightarrow> server option" where
  "signalListAsReady d key s = do {
     dbv \<leftarrow> getdb s d;
     k \<leftarrow> sds_of s key;
     if k \<notin> set (blocking_keys dbv) then Some s
     else if k \<in> set (ready_keys dbv) then Some s
     else do {
       s1 \<leftarrow> incrRefCount key s;
       s2 \<leftarrow> incrRefCount key (s1\<lparr>list_ready := list_ready s1 @ [(d, key)]\<rparr>);
       Some (upd_db d (\<lambda>x. x\<lparr>ready_keys := k # ready_keys x\<rparr>) s2)
     }
   }"

definition lookupKey :: "nat \<Rightarrow> addr \<Rightarrow> server \<Rightarrow> addr option option" where
  "lookupKey d key s = do {
     dbv \<leftarrow> getdb s d;
     k \<leftarrow> sds_of s key;
     case dictFind (dict dbv) k of
       None \<Rightarrow> Some None
     | Some val \<Rightarrow> if heap s val = None then None else Some (Some val)
   }"

definition dbExists :: "nat \<Rightarrow> addr \<Rightarrow> server \<Rightarrow> bool option" where
  "dbExists d key s = do {
     dbv \<leftarrow> getdb s d;
     k \<leftarrow> sds_of s key;
     Some (dictFind (dict dbv) k \<noteq> None)
   }"

definition dbAdd :: "nat \<Rightarrow> addr \<Rightarrow> addr \<Rightarrow> server \<Rightarrow> server option" where
  "dbAdd d key val s = do {
     dbv \<leftarrow> getdb s d;
     k \<leftarrow> sds_of s key;
     if dictFind (dict dbv) k \<noteq> None then None
     else do {
       let s1 = upd_db d (\<lambda>x. x\<lparr>dict := (k, val) # dict x\<rparr>) s;
       ob \<leftarrow> obj s1 val;
       if otype ob = REDIS_LIST then signalListAsReady d key s1 else Some s1
     }
   }"

definition dbOverwrite :: "nat \<Rightarrow> addr \<Rightarrow> addr \<Rightarrow> server \<Rightarrow> server option" where
  "dbOverwrite d key val s = do {
     dbv \<leftarrow> getdb s d;
     k \<leftarrow> sds_of s key;
     if dictFind (dict dbv) k = None then None
     else dictReplace_val d k val s
   }"

definition dbDelete :: "nat \<Rightarrow> addr \<Rightarrow> server \<Rightarrow> (bool \<times> server) option" where
  "dbDelete d key s = do {
     dbv \<leftarrow> getdb s d;
     k \<leftarrow> sds_of s key;
     let s1 = (if expires dbv \<noteq> [] then upd_db d (\<lambda>x. x\<lparr>expires := dictDelete (expires x) k\<rparr>) s else s);
     case dictFind (dict dbv) k of
       None \<Rightarrow> Some (False, s1)
     | Some val \<Rightarrow> do {
         s2 \<leftarrow> decrRefCount val (upd_db d (\<lambda>x. x\<lparr>dict := dictDelete (dict x) k\<rparr>) s1);
         Some (True, s2)
       }
   }"

definition removeExpire :: "nat \<Rightarrow> addr \<Rightarrow> server \<Rightarrow> (bool \<times> server) option" where
  "removeExpire d key s = do {
     dbv \<leftarrow> getdb s d;
     k \<leftarrow> sds_of s key;
     if dictFind (dict dbv) k = None then None
     else Some (dictFind (expires dbv) k \<noteq> None,
                upd_db d (\<lambda>x. x\<lparr>expires := dictDelete (expires x) k\<rparr>) s)
   }"

definition setExpire :: "nat \<Rightarrow> addr \<Rightarrow> int \<Rightarrow> server \<Rightarrow> server option" where
  "setExpire d key when s = do {
     dbv \<leftarrow> getdb s d;
     k \<leftarrow> sds_of s key;
     if dictFind (dict dbv) k = None then None
     else Some (upd_db d (\<lambda>x. x\<lparr>expires := AList.update k when (expires x)\<rparr>) s)
   }"

definition getExpire :: "nat \<Rightarrow> addr \<Rightarrow> server \<Rightarrow> int option" where
  "getExpire d key s = do {
     dbv \<leftarrow> getdb s d;
     if expires dbv = [] then Some (- 1)
     else do {
       k \<leftarrow> sds_of s key;
       case dictFind (expires dbv) k of
         None \<Rightarrow> Some (- 1)
       | Some when \<Rightarrow> if dictFind (dict dbv) k = None then None else Some when
     }
   }"

definition propagateExpire :: "nat \<Rightarrow> addr \<Rightarrow> server \<Rightarrow> server option" where
  "propagateExpire d key s = do {
     k \<leftarrow> sds_of s key;
     Some (s\<lparr>effects := effects s @ [PropagateDel d k]\<rparr>)
   }"

definition expireIfNeeded :: "nat \<Rightarrow> addr \<Rightarrow> server \<Rightarrow> (bool \<times> server) option" where
  "expireIfNeeded d key s = do {
     when \<leftarrow> getExpire d key s;
     if when < 0 then Some (False, s)
     else if loading s then Some (False, s)
     else if masterhost s then Some (mstime s > when, s)
     else if mstime s \<le> when then Some (False, s)
     else do {
       k \<leftarrow> sds_of s key;
       s1 \<leftarrow> propagateExpire d key (s\<lparr>stat_expiredkeys := stat_expiredkeys s + 1\<rparr>);
       dbDelete d key (notifyKeyspaceEvent ''expired'' k d s1)
     }
   }"

definition lookupKeyRead :: "nat \<Rightarrow> addr \<Rightarrow> server \<Rightarrow> (addr option \<times> server) option" where
  "lookupKeyRead d key s = do {
     (_, s1) \<leftarrow> expireIfNeeded d key s;
     v \<leftarrow> lookupKey d key s1;
     Some (v, case v of
                None \<Rightarrow> s1\<lparr>stat_keyspace_misses := stat_keyspace_misses s1 + 1\<rparr>
              | Some _ \<Rightarrow> s1\<lparr>stat_keyspace_hits := stat_keyspace_hits s1 + 1\<rparr>)
   }"

definition lookupKeyWrite :: "nat \<Rightarrow> addr \<Rightarrow> server \<Rightarrow> (addr option \<times> server) option" where
  "lookupKeyWrite d key s = do {
     (_, s1) \<leftarrow> expireIfNeeded d key s;
     v \<leftarrow> lookupKey d key s1;
     Some (v, s1)
   }"

definition lookupKeyReadOrReply ::
  "client \<Rightarrow> addr \<Rightarrow> reply \<Rightarrow> server \<Rightarrow> (client \<times> addr option \<times> server) option" where
  "lookupKeyReadOrReply c key r s = do {
     (v, s1) \<leftarrow> lookupKeyRead (cdb c) key s;
     Some (if v = None then addReply r c else c, v, s1)
   }"

definition lookupKeyWriteOrReply ::
  "client \<Rightarrow> addr \<Rightarrow> reply \<Rightarrow> server \<Rightarrow> (client \<times> addr option \<times> server) option" where
  "lookupKeyWriteOrReply c key r s = do {
     (v, s1) \<leftarrow> lookupKeyWrite (cdb c) key s;
     Some (if v = None then addReply r c else c, v, s1)
   }"

definition setKey :: "nat \<Rightarrow> addr \<Rightarrow> addr \<Rightarrow> server \<Rightarrow> server option" where
  "setKey d key val s = do {
     (v, s1) \<leftarrow> lookupKeyWrite d key s;
     s2 \<leftarrow> (if v = None then dbAdd d key val s1 else dbOverwrite d key val s1);
     s3 \<leftarrow> incrRefCount val s2;
     (_, s4) \<leftarrow> removeExpire d key s3;
     signalModifiedKey d key s4
   }"

definition dbUnshareStringValue :: "nat \<Rightarrow> addr \<Rightarrow> addr \<Rightarrow> server \<Rightarrow> (addr \<times> server) option" where
  "dbUnshareStringValue d key a s = do {
     ob \<leftarrow> obj s a;
     if otype ob \<noteq> REDIS_STRING then None
     else if refcount ob \<noteq> 1 \<or> encoding ob \<noteq> REDIS_ENCODING_RAW then do {
       (dec, s1) \<leftarrow> getDecodedObject a s;
       x \<leftarrow> sds_of s1 dec;
       let (b, s2) = createStringObject x s1;
       s3 \<leftarrow> decrRefCount dec s2;
       s4 \<leftarrow> dbOverwrite d key b s3;
       Some (b, s4)
     }
     else Some (a, s)
   }"

definition selectDb :: "client \<Rightarrow> int \<Rightarrow> server \<Rightarrow> client option" where
  "selectDb c i s = (if i < 0 \<or> i \<ge> int (length (db s)) then None else Some (c\<lparr>cdb := nat i\<rparr>))"

text \<open>\<^verbatim>\<open>createClient(-1)\<close>: an unconnected client on database 0 with the next identifier.\<close>

definition createClient_fake :: "server \<Rightarrow> client \<times> server" where
  "createClient_fake s =
     (\<lparr>cid = next_client_id s, cdb = 0, fd = - 1, argv = [], replies = []\<rparr>,
      s\<lparr>next_client_id := next_client_id s + 1\<rparr>)"

end
