(* ===== verification/Db_Commands.thy ===== *)
theory Db_Commands
  imports Db Glob
begin

text \<open>
  The commands of \<^verbatim>\<open>redis-2.8.17/src/db.c\<close> that work on keys of any type. A command takes the
  client and the server to their states after it.
\<close>

type_synonym command = "client \<Rightarrow> server \<Rightarrow> (client \<times> server) option"

section \<open>Deletion and existence\<close>

primrec delCommand_loop :: "nat \<Rightarrow> addr list \<Rightarrow> int \<Rightarrow> server \<Rightarrow> (int \<times> server) option" where
  "delCommand_loop d [] deleted s = Some (deleted, s)"
| "delCommand_loop d (key # keys) deleted s = do {
     (_, s1) \<leftarrow> expireIfNeeded d key s;
     (found, s2) \<leftarrow> dbDelete d key s1;
     if found then do {
       s3 \<leftarrow> signalModifiedKey d key s2;
       k \<leftarrow> sds_of s3 key;
       let s4 = notifyKeyspaceEvent ''del'' k d s3;
       delCommand_loop d keys (deleted + 1) (s4\<lparr>dirty := dirty s4 + 1\<rparr>)
     }
     else delCommand_loop d keys deleted s2
   }"

definition delCommand :: command where
  "delCommand c s = do {
     (deleted, s1) \<leftarrow> delCommand_loop (cdb c) (tl (argv c)) 0 s;
     Some (addReply (RInt deleted) c, s1)
   }"

definition existsCommand :: command where
  "existsCommand c s = do {
     key \<leftarrow> arg c 1;
     (_, s1) \<leftarrow> expireIfNeeded (cdb c) key s;
     e \<leftarrow> dbExists (cdb c) key s1;
     Some (addReply (if e then ROne else RZero) c, s1)
   }"

definition selectCommand :: command where
  "selectCommand c s = do {
     a \<leftarrow> arg c 1;
     (c1, r) \<leftarrow> getLongFromObjectOrReply c (Some a) (Some ''invalid DB index'') s;
     case r of
       None \<Rightarrow> Some (c1, s)
     | Some i \<Rightarrow>
         (case selectDb c1 i s of
            None \<Rightarrow> Some (addReply (RError ''invalid DB index'') c1, s)
          | Some c2 \<Rightarrow> Some (addReply ROk c2, s))
   }"

definition dbsizeCommand :: command where
  "dbsizeCommand c s = do {
     dbv \<leftarrow> getdb s (cdb c);
     Some (addReply (RInt (int (length (dict dbv)))) c, s)
   }"

definition type_name :: "rtype \<Rightarrow> string" where
  "type_name ty =
     (case ty of REDIS_STRING \<Rightarrow> ''string'' | REDIS_LIST \<Rightarrow> ''list'' | REDIS_SET \<Rightarrow> ''set''
      | REDIS_ZSET \<Rightarrow> ''zset'' | REDIS_HASH \<Rightarrow> ''hash'')"

definition typeCommand :: command where
  "typeCommand c s = do {
     key \<leftarrow> arg c 1;
     (v, s1) \<leftarrow> lookupKeyRead (cdb c) key s;
     case v of
       None \<Rightarrow> Some (addReply (RStatus ''none'') c, s1)
     | Some a \<Rightarrow> do { ob \<leftarrow> obj s1 a; Some (addReply (RStatus (type_name (otype ob))) c, s1) }
   }"


section \<open>KEYS\<close>

primrec keysCommand_loop ::
  "nat \<Rightarrow> string \<Rightarrow> bool \<Rightarrow> string list \<Rightarrow> string list \<Rightarrow> server \<Rightarrow> (string list \<times> server) option" where
  "keysCommand_loop d pattern allkeys [] found s = Some (found, s)"
| "keysCommand_loop d pattern allkeys (k # ks) found s = do {
     m \<leftarrow> (if allkeys then Some True else stringmatchlen pattern k False);
     if m then do {
       let (keyobj, s1) = createStringObject k s;
       (gone, s2) \<leftarrow> expireIfNeeded d keyobj s1;
       s3 \<leftarrow> decrRefCount keyobj s2;
       keysCommand_loop d pattern allkeys ks (if gone then found else found @ [k]) s3
     }
     else keysCommand_loop d pattern allkeys ks found s
   }"

definition keysCommand :: command where
  "keysCommand c s = do {
     a \<leftarrow> arg c 1;
     pattern \<leftarrow> sds_of s a;
     dbv \<leftarrow> getdb s (cdb c);
     let allkeys = (c_str pattern = ''*'');
     (found, s1) \<leftarrow> keysCommand_loop (cdb c) pattern allkeys (map fst (dict dbv)) [] s;
     Some (fold (\<lambda>k. addReply (RBulk k)) found (addReply (RMulti (length found)) c), s1)
   }"


section \<open>RENAME and MOVE\<close>

definition renameGenericCommand :: "bool \<Rightarrow> command" where
  "renameGenericCommand nx c s = do {
     src \<leftarrow> arg c 1;
     dst \<leftarrow> arg c 2;
     k1 \<leftarrow> sds_of s src;
     k2 \<leftarrow> sds_of s dst;
     if k1 = k2 then Some (addReply RSameObject c, s)
     else do {
       (c1, v, s1) \<leftarrow> lookupKeyWriteOrReply c src RNoKey s;
       case v of
         None \<Rightarrow> Some (c1, s1)
       | Some a \<Rightarrow> do {
           s2 \<leftarrow> incrRefCount a s1;
           expire \<leftarrow> getExpire (cdb c) src s2;
           (w, s3) \<leftarrow> lookupKeyWrite (cdb c) dst s2;
           if w \<noteq> None \<and> nx then do {
             s4 \<leftarrow> decrRefCount a s3;
             Some (addReply RZero c1, s4)
           }
           else do {
             (_, s4) \<leftarrow> (if w \<noteq> None then dbDelete (cdb c) dst s3 else Some (False, s3));
             s5 \<leftarrow> dbAdd (cdb c) dst a s4;
             s6 \<leftarrow> (if expire \<noteq> - 1 then setExpire (cdb c) dst expire s5 else Some s5);
             (_, s7) \<leftarrow> dbDelete (cdb c) src s6;
             s8 \<leftarrow> signalModifiedKey (cdb c) src s7;
             s9 \<leftarrow> signalModifiedKey (cdb c) dst s8;
             let s10 = notifyKeyspaceEvent ''rename_to'' k2 (cdb c)
                         (notifyKeyspaceEvent ''rename_from'' k1 (cdb c) s9);
             Some (addReply (if nx then ROne else ROk) c1, s10\<lparr>dirty := dirty s10 + 1\<rparr>)
           }
         }
     }
   }"

definition renameCommand :: command where
  "renameCommand c s = renameGenericCommand False c s"

definition renamenxCommand :: command where
  "renamenxCommand c s = renameGenericCommand True c s"

definition moveCommand :: command where
  "moveCommand c s = do {
     key \<leftarrow> arg c 1;
     a2 \<leftarrow> arg c 2;
     r \<leftarrow> getLongLongFromObject s (Some a2);
     case (case r of
             None \<Rightarrow> None
           | Some dbid \<Rightarrow> if dbid < -2147483648 \<or> dbid > 2147483647 then None else selectDb c dbid s) of
       None \<Rightarrow> Some (addReply ROutOfRange c, s)
     | Some c' \<Rightarrow>
         if cdb c' = cdb c then Some (addReply RSameObject c, s)
         else do {
           (v, s1) \<leftarrow> lookupKeyWrite (cdb c) key s;
           case v of
             None \<Rightarrow> Some (addReply RZero c, s1)
           | Some a \<Rightarrow> do {
               (w, s2) \<leftarrow> lookupKeyWrite (cdb c') key s1;
               if w \<noteq> None then Some (addReply RZero c, s2)
               else do {
                 s3 \<leftarrow> dbAdd (cdb c') key a s2;
                 s4 \<leftarrow> incrRefCount a s3;
                 (_, s5) \<leftarrow> dbDelete (cdb c) key s4;
                 Some (addReply ROne c, s5\<lparr>dirty := dirty s5 + 1\<rparr>)
               }
             }
         }
   }"


section \<open>Expire commands\<close>

text \<open>
  \<^verbatim>\<open>long long\<close> arithmetic. Signed overflow is undefined in C; the model wraps around, as the
  compiled code does.
\<close>

definition wrap64 :: "int \<Rightarrow> int" where
  "wrap64 v = (v + 2 ^ 63) mod 2 ^ 64 - 2 ^ 63"

primrec incr_all :: "addr list \<Rightarrow> server \<Rightarrow> server option" where
  "incr_all [] s = Some s"
| "incr_all (a # as) s = do { s1 \<leftarrow> incrRefCount a s; incr_all as s1 }"

primrec decr_args :: "addr list \<Rightarrow> server \<Rightarrow> server option" where
  "decr_args [] s = Some s"
| "decr_args (a # as) s = do { s1 \<leftarrow> decrRefCount a s; decr_args as s1 }"

definition rewriteClientCommandVector :: "client \<Rightarrow> addr list \<Rightarrow> server \<Rightarrow> (client \<times> server) option" where
  "rewriteClientCommandVector c as s = do {
     s1 \<leftarrow> incr_all as s;
     s2 \<leftarrow> decr_args (argv c) s1;
     Some (c\<lparr>argv := as\<rparr>, s2)
   }"

definition expireGenericCommand :: "int \<Rightarrow> bool \<Rightarrow> command" where
  "expireGenericCommand basetime seconds c s = do {
     key \<leftarrow> arg c 1;
     param \<leftarrow> arg c 2;
     (c1, r) \<leftarrow> getLongLongFromObjectOrReply c (Some param) None s;
     case r of
       None \<Rightarrow> Some (c1, s)
     | Some w0 \<Rightarrow> do {
         let when = wrap64 ((if seconds then wrap64 (w0 * 1000) else w0) + basetime);
         (v, s1) \<leftarrow> lookupKeyRead (cdb c) key s;
         k \<leftarrow> sds_of s1 key;
         if v = None then Some (addReply RZero c1, s1)
         else if when \<le> mstime s1 \<and> \<not> loading s1 \<and> \<not> masterhost s1 then do {
           (found, s2) \<leftarrow> dbDelete (cdb c) key s1;
           if \<not> found then None
           else do {
             let (aux, s3) = createStringObject ''DEL'' (s2\<lparr>dirty := dirty s2 + 1\<rparr>);
             (c2, s4) \<leftarrow> rewriteClientCommandVector c1 [aux, key] s3;
             s5 \<leftarrow> decrRefCount aux s4;
             s6 \<leftarrow> signalModifiedKey (cdb c) key s5;
             Some (addReply ROne c2, notifyKeyspaceEvent ''del'' k (cdb c) s6)
           }
         }
         else do {
           s2 \<leftarrow> setExpire (cdb c) key when s1;
           s3 \<leftarrow> signalModifiedKey (cdb c) key s2;
           let s4 = notifyKeyspaceEvent ''expire'' k (cdb c) s3;
           Some (addReply ROne c1, s4\<lparr>dirty := dirty s4 + 1\<rparr>)
         }
       }
   }"

definition expireCommand :: command where
  "expireCommand c s = expireGenericCommand (mstime s) True c s"

definition expireatCommand :: command where
  "expireatCommand c s = expireGenericCommand 0 True c s"

definition pexpireCommand :: command where
  "pexpireCommand c s = expireGenericCommand (mstime s) False c s"

definition pexpireatCommand :: command where
  "pexpireatCommand c s = expireGenericCommand 0 False c s"

definition ttlGenericCommand :: "bool \<Rightarrow> command" where
  "ttlGenericCommand output_ms c s = do {
     key \<leftarrow> arg c 1;
     (v, s1) \<leftarrow> lookupKeyRead (cdb c) key s;
     if v = None then Some (addReply (RInt (- 2)) c, s1)
     else do {
       expire \<leftarrow> getExpire (cdb c) key s1;
       let ttl = (if expire \<noteq> - 1 then max 0 (expire - mstime s1) else - 1);
       Some (addReply (RInt (if ttl = - 1 then - 1 else if output_ms then ttl else (ttl + 500) div 1000)) c, s1)
     }
   }"

definition ttlCommand :: command where
  "ttlCommand c s = ttlGenericCommand False c s"

definition pttlCommand :: command where
  "pttlCommand c s = ttlGenericCommand True c s"

definition persistCommand :: command where
  "persistCommand c s = do {
     key \<leftarrow> arg c 1;
     k \<leftarrow> sds_of s key;
     dbv \<leftarrow> getdb s (cdb c);
     if dictFind (dict dbv) k = None then Some (addReply RZero c, s)
     else do {
       (removed, s1) \<leftarrow> removeExpire (cdb c) key s;
       Some (if removed then (addReply ROne c, s1\<lparr>dirty := dirty s1 + 1\<rparr>) else (addReply RZero c, s1))
     }
   }"

end
