(* ===== verification/T_String.thy ===== *)
theory T_String
  imports Db_Commands
begin

text \<open>
  The commands on strings (\<^verbatim>\<open>redis-2.8.17/src/t_string.c\<close>). An assignment
  \<^verbatim>\<open>c->argv[i] = o\<close> of the source updates the argument vector of the client, which the model
  returns with the server. \<^verbatim>\<open>incrbyfloatCommand\<close> is left out: it works on long doubles.
\<close>

section \<open>Setting a key\<close>

definition set_arg :: "nat \<Rightarrow> addr \<Rightarrow> client \<Rightarrow> client" where
  "set_arg i a c = c\<lparr>argv := (argv c)[i := a]\<rparr>"

definition checkStringLength :: "client \<Rightarrow> int \<Rightarrow> client \<times> bool" where
  "checkStringLength c n =
     (if n > 512 * 1024 * 1024
      then (addReply (RError ''string exceeds maximum allowed size (512MB)'') c, False)
      else (c, True))"

text \<open>
  \<open>expire\<close> is the expire argument with its unit: \<open>True\<close> for seconds, \<open>False\<close> for milliseconds.
  The flags are a pair, NX first.
\<close>

definition set_milliseconds ::
  "string \<Rightarrow> (addr \<times> bool) option \<Rightarrow> client \<Rightarrow> server \<Rightarrow> (client \<times> int option) option" where
  "set_milliseconds cmd expire c s =
     (case expire of
        None \<Rightarrow> Some (c, Some 0)
      | Some (e, seconds) \<Rightarrow> do {
          (c1, r) \<leftarrow> getLongLongFromObjectOrReply c (Some e) None s;
          Some (case r of
            None \<Rightarrow> (c1, None)
          | Some ms \<Rightarrow>
              if ms \<le> 0 then (addReply (RError (''invalid expire time in '' @ cmd)) c1, None)
              else (c1, Some (if seconds then wrap64 (ms * 1000) else ms)))
        })"

definition setGenericCommand ::
  "string \<Rightarrow> bool \<times> bool \<Rightarrow> addr \<Rightarrow> addr \<Rightarrow> (addr \<times> bool) option \<Rightarrow> reply \<Rightarrow> reply \<Rightarrow> command" where
  "setGenericCommand cmd flags key val expire ok_reply abort_reply c s = do {
     (c1, r) \<leftarrow> set_milliseconds cmd expire c s;
     case r of
       None \<Rightarrow> Some (c1, s)
     | Some milliseconds \<Rightarrow> do {
         (v, s1) \<leftarrow> (if fst flags then lookupKeyWrite (cdb c) key s else Some (None, s));
         (w, s2) \<leftarrow> (if v = None \<and> snd flags then lookupKeyWrite (cdb c) key s1 else Some (Some 0, s1));
         if v \<noteq> None \<or> w = None then Some (addReply abort_reply c1, s2)
         else do {
           k \<leftarrow> sds_of s2 key;
           s3 \<leftarrow> setKey (cdb c) key val s2;
           let s4 = s3\<lparr>dirty := dirty s3 + 1\<rparr>;
           s5 \<leftarrow> (if expire \<noteq> None then setExpire (cdb c) key (wrap64 (mstime s4 + milliseconds)) s4 else Some s4);
           let s6 = notifyKeyspaceEvent ''set'' k (cdb c) s5;
           let s7 = (if expire \<noteq> None then notifyKeyspaceEvent ''expire'' k (cdb c) s6 else s6);
           Some (addReply ok_reply c1, s7)
         }
       }
   }"

text \<open>An option of SET: two characters, the second an x, in either case, and then the terminator.\<close>

definition flag_is :: "char \<Rightarrow> char \<Rightarrow> string \<Rightarrow> bool" where
  "flag_is lo up a \<longleftrightarrow>
     (case c_str a of [x, y] \<Rightarrow> (x = lo \<or> x = up) \<and> (y = CHR ''x'' \<or> y = CHR ''X'') | _ \<Rightarrow> False)"

text \<open>
  The options from argument 3 on. The inner \<open>None\<close> is a syntax error.
\<close>

fun set_options ::
  "server \<Rightarrow> addr list \<Rightarrow> bool \<times> bool \<Rightarrow> (addr \<times> bool) option
    \<Rightarrow> ((bool \<times> bool) \<times> (addr \<times> bool) option) option option" where
  "set_options s [] flags expire = Some (Some (flags, expire))"
| "set_options s (p # ps) flags expire = do {
     a \<leftarrow> sds_of s p;
     if flag_is CHR ''n'' CHR ''N'' a then set_options s ps (True, snd flags) expire
     else if flag_is CHR ''x'' CHR ''X'' a then set_options s ps (fst flags, True) expire
     else (case ps of
             [] \<Rightarrow> Some None
           | q # qs \<Rightarrow>
               if flag_is CHR ''e'' CHR ''E'' a then set_options s qs flags (Some (q, True))
               else if flag_is CHR ''p'' CHR ''P'' a then set_options s qs flags (Some (q, False))
               else Some None)
   }"

definition setCommand :: command where
  "setCommand c s = do {
     r \<leftarrow> set_options s (drop 3 (argv c)) (False, False) None;
     case r of
       None \<Rightarrow> Some (addReply RSyntax c, s)
     | Some (flags, expire) \<Rightarrow> do {
         key \<leftarrow> arg c 1;
         a2 \<leftarrow> arg c 2;
         (val, s1) \<leftarrow> tryObjectEncoding a2 s;
         setGenericCommand ''set'' flags key val expire ROk RNullBulk (set_arg 2 val c) s1
       }
   }"

definition setnxCommand :: command where
  "setnxCommand c s = do {
     key \<leftarrow> arg c 1;
     a2 \<leftarrow> arg c 2;
     (val, s1) \<leftarrow> tryObjectEncoding a2 s;
     setGenericCommand ''setnx'' (True, False) key val None ROne RZero (set_arg 2 val c) s1
   }"

definition setexCommand :: command where
  "setexCommand c s = do {
     key \<leftarrow> arg c 1;
     e \<leftarrow> arg c 2;
     a3 \<leftarrow> arg c 3;
     (val, s1) \<leftarrow> tryObjectEncoding a3 s;
     setGenericCommand ''setex'' (False, False) key val (Some (e, True)) ROk RNullBulk (set_arg 3 val c) s1
   }"

definition psetexCommand :: command where
  "psetexCommand c s = do {
     key \<leftarrow> arg c 1;
     e \<leftarrow> arg c 2;
     a3 \<leftarrow> arg c 3;
     (val, s1) \<leftarrow> tryObjectEncoding a3 s;
     setGenericCommand ''psetex'' (False, False) key val (Some (e, False)) ROk RNullBulk (set_arg 3 val c) s1
   }"


section \<open>Reading a key\<close>

text \<open>\<^verbatim>\<open>addReplyBulk\<close>: the characters of a string object as a bulk reply.\<close>

definition addReplyBulk :: "client \<Rightarrow> addr \<Rightarrow> server \<Rightarrow> client option" where
  "addReplyBulk c a s = do { x \<leftarrow> obj_chars 32 s a; Some (addReply (RBulk x) c) }"

definition getGenericCommand :: "client \<Rightarrow> server \<Rightarrow> (bool \<times> client \<times> server) option" where
  "getGenericCommand c s = do {
     key \<leftarrow> arg c 1;
     (c1, v, s1) \<leftarrow> lookupKeyReadOrReply c key RNullBulk s;
     case v of
       None \<Rightarrow> Some (True, c1, s1)
     | Some a \<Rightarrow> do {
         ob \<leftarrow> obj s1 a;
         if otype ob \<noteq> REDIS_STRING then Some (False, addReply RWrongType c1, s1)
         else do { c2 \<leftarrow> addReplyBulk c1 a s1; Some (True, c2, s1) }
       }
   }"

definition getCommand :: command where
  "getCommand c s = do { (_, c1, s1) \<leftarrow> getGenericCommand c s; Some (c1, s1) }"

definition getsetCommand :: command where
  "getsetCommand c s = do {
     (ok, c1, s1) \<leftarrow> getGenericCommand c s;
     if \<not> ok then Some (c1, s1)
     else do {
       key \<leftarrow> arg c 1;
       a2 \<leftarrow> arg c 2;
       (val, s2) \<leftarrow> tryObjectEncoding a2 s1;
       s3 \<leftarrow> setKey (cdb c) key val s2;
       k \<leftarrow> sds_of s3 key;
       let s4 = notifyKeyspaceEvent ''set'' k (cdb c) s3;
       Some (set_arg 2 val c1, s4\<lparr>dirty := dirty s4 + 1\<rparr>)
     }
   }"

definition range_chars :: "string \<Rightarrow> int \<Rightarrow> int \<Rightarrow> string" where
  "range_chars str start0 end0 =
     (let n = int (length str);
          start1 = (if start0 < 0 then n + start0 else start0);
          end1 = (if end0 < 0 then n + end0 else end0);
          start = (if start1 < 0 then 0 else start1);
          end2 = (if end1 < 0 then 0 else end1);
          end' = (if end2 \<ge> n then n - 1 else end2) in
      if start > end' \<or> n = 0 then [] else take (nat (end' - start + 1)) (drop (nat start) str))"

definition getrangeCommand :: command where
  "getrangeCommand c s = do {
     key \<leftarrow> arg c 1;
     a2 \<leftarrow> arg c 2;
     a3 \<leftarrow> arg c 3;
     (c1, r1) \<leftarrow> getLongLongFromObjectOrReply c (Some a2) None s;
     case r1 of
       None \<Rightarrow> Some (c1, s)
     | Some start \<Rightarrow> do {
         (c2, r2) \<leftarrow> getLongLongFromObjectOrReply c1 (Some a3) None s;
         case r2 of
           None \<Rightarrow> Some (c2, s)
         | Some end0 \<Rightarrow> do {
             (c3, v, s1) \<leftarrow> lookupKeyReadOrReply c2 key (RBulk []) s;
             case v of
               None \<Rightarrow> Some (c3, s1)
             | Some a \<Rightarrow> do {
                 (c4, bad) \<leftarrow> checkType c3 a REDIS_STRING s1;
                 if bad then Some (c4, s1)
                 else do {
                   str \<leftarrow> obj_chars 32 s1 a;
                   Some (addReply (RBulk (range_chars str start end0)) c4, s1)
                 }
               }
           }
       }
   }"

primrec mgetCommand_loop :: "addr list \<Rightarrow> command" where
  "mgetCommand_loop [] c s = Some (c, s)"
| "mgetCommand_loop (key # keys) c s = do {
     (v, s1) \<leftarrow> lookupKeyRead (cdb c) key s;
     case v of
       None \<Rightarrow> mgetCommand_loop keys (addReply RNullBulk c) s1
     | Some a \<Rightarrow> do {
         ob \<leftarrow> obj s1 a;
         if otype ob \<noteq> REDIS_STRING then mgetCommand_loop keys (addReply RNullBulk c) s1
         else do { c1 \<leftarrow> addReplyBulk c a s1; mgetCommand_loop keys c1 s1 }
       }
   }"

definition mgetCommand :: command where
  "mgetCommand c s = mgetCommand_loop (tl (argv c)) (addReply (RMulti (length (argv c) - 1)) c) s"


section \<open>Setting many keys\<close>

primrec mset_busykeys :: "nat list \<Rightarrow> client \<Rightarrow> nat \<Rightarrow> server \<Rightarrow> (nat \<times> server) option" where
  "mset_busykeys [] c busykeys s = Some (busykeys, s)"
| "mset_busykeys (j # js) c busykeys s = do {
     key \<leftarrow> arg c j;
     (v, s1) \<leftarrow> lookupKeyWrite (cdb c) key s;
     mset_busykeys js c (if v \<noteq> None then busykeys + 1 else busykeys) s1
   }"

primrec mset_loop :: "nat list \<Rightarrow> command" where
  "mset_loop [] c s = Some (c, s)"
| "mset_loop (j # js) c s = do {
     key \<leftarrow> arg c j;
     a \<leftarrow> arg c (j + 1);
     (val, s1) \<leftarrow> tryObjectEncoding a s;
     let c1 = set_arg (j + 1) val c;
     s2 \<leftarrow> setKey (cdb c) key val s1;
     k \<leftarrow> sds_of s2 key;
     mset_loop js c1 (notifyKeyspaceEvent ''set'' k (cdb c) s2)
   }"

text \<open>The indices 1, 3, 5, ... below the number of arguments.\<close>

definition odd_args :: "client \<Rightarrow> nat list" where
  "odd_args c = filter odd [1..<length (argv c)]"

definition msetGenericCommand :: "bool \<Rightarrow> command" where
  "msetGenericCommand nx c s =
     (if length (argv c) mod 2 = 0 then Some (addReply (RError ''wrong number of arguments for MSET'') c, s)
      else do {
        (busykeys, s1) \<leftarrow> (if nx then mset_busykeys (odd_args c) c 0 s else Some (0, s));
        if busykeys \<noteq> 0 then Some (addReply RZero c, s1)
        else do {
          (c2, s2) \<leftarrow> mset_loop (odd_args c) c s1;
          Some (addReply (if nx then ROne else ROk) c2,
                s2\<lparr>dirty := dirty s2 + (int (length (argv c)) - 1) div 2\<rparr>)
        }
      })"

definition msetCommand :: command where
  "msetCommand c s = msetGenericCommand False c s"

definition msetnxCommand :: command where
  "msetnxCommand c s = msetGenericCommand True c s"


section \<open>Counters\<close>

definition incr_overflows :: "int \<Rightarrow> int \<Rightarrow> bool" where
  "incr_overflows oldvalue incr \<longleftrightarrow>
     (incr < 0 \<and> oldvalue < 0 \<and> incr < LLONG_MIN - oldvalue) \<or>
     (incr > 0 \<and> oldvalue > 0 \<and> incr > LLONG_MAX - oldvalue)"

definition incrDecrCommand :: "int \<Rightarrow> command" where
  "incrDecrCommand incr c s = do {
     key \<leftarrow> arg c 1;
     (v, s1) \<leftarrow> lookupKeyWrite (cdb c) key s;
     (c1, bad) \<leftarrow> (case v of None \<Rightarrow> Some (c, False) | Some a \<Rightarrow> checkType c a REDIS_STRING s1);
     if bad then Some (c1, s1)
     else do {
       (c2, r) \<leftarrow> getLongLongFromObjectOrReply c1 v None s1;
       case r of
         None \<Rightarrow> Some (c2, s1)
       | Some oldvalue \<Rightarrow>
           if incr_overflows oldvalue incr
           then Some (addReply (RError ''increment or decrement would overflow'') c2, s1)
           else do {
             let value = oldvalue + incr;
             (new, s2) \<leftarrow> createStringObjectFromLongLong value s1;
             s3 \<leftarrow> (if v \<noteq> None then dbOverwrite (cdb c) key new s2 else dbAdd (cdb c) key new s2);
             s4 \<leftarrow> signalModifiedKey (cdb c) key s3;
             k \<leftarrow> sds_of s4 key;
             let s5 = notifyKeyspaceEvent ''incrby'' k (cdb c) s4;
             Some (addReply (RInt value) c2, s5\<lparr>dirty := dirty s5 + 1\<rparr>)
           }
     }
   }"

definition incrCommand :: command where
  "incrCommand c s = incrDecrCommand 1 c s"

definition decrCommand :: command where
  "decrCommand c s = incrDecrCommand (- 1) c s"

definition incrbyCommand :: command where
  "incrbyCommand c s = do {
     a \<leftarrow> arg c 2;
     (c1, r) \<leftarrow> getLongLongFromObjectOrReply c (Some a) None s;
     case r of None \<Rightarrow> Some (c1, s) | Some incr \<Rightarrow> incrDecrCommand incr c1 s
   }"

definition decrbyCommand :: command where
  "decrbyCommand c s = do {
     a \<leftarrow> arg c 2;
     (c1, r) \<leftarrow> getLongLongFromObjectOrReply c (Some a) None s;
     case r of None \<Rightarrow> Some (c1, s) | Some incr \<Rightarrow> incrDecrCommand (wrap64 (- incr)) c1 s
   }"


section \<open>Changing part of a string\<close>

text \<open>\<^verbatim>\<open>sdsgrowzero\<close> to the end of the written range and then \<^verbatim>\<open>memcpy\<close>.\<close>

definition sds_write :: "string \<Rightarrow> nat \<Rightarrow> string \<Rightarrow> string" where
  "sds_write x offset value =
     (let y = x @ replicate (offset + length value - length x) NUL in
      take offset y @ value @ drop (offset + length value) y)"

definition setrange_target ::
  "client \<Rightarrow> addr \<Rightarrow> int \<Rightarrow> string \<Rightarrow> server \<Rightarrow> (client \<times> addr option \<times> server) option" where
  "setrange_target c key offset value s = do {
     (v, s1) \<leftarrow> lookupKeyWrite (cdb c) key s;
     case v of
       None \<Rightarrow>
         if value = [] then Some (addReply RZero c, None, s1)
         else do {
           let (c1, fits) = checkStringLength c (offset + int (length value));
           if \<not> fits then Some (c1, None, s1)
           else do {
             let (a, s2) = createObject REDIS_STRING (Sds []) s1;
             s3 \<leftarrow> dbAdd (cdb c) key a s2;
             Some (c1, Some a, s3)
           }
         }
     | Some a \<Rightarrow> do {
         (c1, bad) \<leftarrow> checkType c a REDIS_STRING s1;
         if bad then Some (c1, None, s1)
         else do {
           olen \<leftarrow> stringObjectLen s1 a;
           if value = [] then Some (addReply (RInt (int olen)) c1, None, s1)
           else do {
             let (c2, fits) = checkStringLength c1 (offset + int (length value));
             if \<not> fits then Some (c2, None, s1)
             else do {
               (b, s2) \<leftarrow> dbUnshareStringValue (cdb c) key a s1;
               Some (c2, Some b, s2)
             }
           }
         }
       }
   }"

definition setrangeCommand :: command where
  "setrangeCommand c s = do {
     key \<leftarrow> arg c 1;
     a2 \<leftarrow> arg c 2;
     a3 \<leftarrow> arg c 3;
     value \<leftarrow> sds_of s a3;
     (c1, r) \<leftarrow> getLongFromObjectOrReply c (Some a2) None s;
     case r of
       None \<Rightarrow> Some (c1, s)
     | Some offset \<Rightarrow>
         if offset < 0 then Some (addReply (RError ''offset is out of range'') c1, s)
         else do {
           (c2, t, s1) \<leftarrow> setrange_target c1 key offset value s;
           case t of
             None \<Rightarrow> Some (c2, s1)
           | Some a \<Rightarrow> do {
               x \<leftarrow> sds_of s1 a;
               let y = sds_write x (nat offset) value;
               s2 \<leftarrow> upd_obj a (\<lambda>ob. ob\<lparr>ptr := Sds y\<rparr>) s1;
               s3 \<leftarrow> signalModifiedKey (cdb c) key s2;
               k \<leftarrow> sds_of s3 key;
               let s4 = notifyKeyspaceEvent ''setrange'' k (cdb c) s3;
               Some (addReply (RInt (int (length y))) c2, s4\<lparr>dirty := dirty s4 + 1\<rparr>)
             }
         }
   }"

definition appendCommand :: command where
  "appendCommand c s = do {
     key \<leftarrow> arg c 1;
     a2 \<leftarrow> arg c 2;
     (v, s1) \<leftarrow> lookupKeyWrite (cdb c) key s;
     (c1, t, s2) \<leftarrow>
       (case v of
          None \<Rightarrow> do {
            (val, s2) \<leftarrow> tryObjectEncoding a2 s1;
            s3 \<leftarrow> dbAdd (cdb c) key val s2;
            s4 \<leftarrow> incrRefCount val s3;
            n \<leftarrow> stringObjectLen s4 val;
            Some (set_arg 2 val c, Some n, s4)
          }
        | Some a \<Rightarrow> do {
            (c1, bad) \<leftarrow> checkType c a REDIS_STRING s1;
            if bad then Some (c1, None, s1)
            else do {
              n \<leftarrow> stringObjectLen s1 a;
              y \<leftarrow> sds_of s1 a2;
              let (c2, fits) = checkStringLength c1 (int (n + length y));
              if \<not> fits then Some (c2, None, s1)
              else do {
                (b, s2) \<leftarrow> dbUnshareStringValue (cdb c) key a s1;
                x \<leftarrow> sds_of s2 b;
                s3 \<leftarrow> upd_obj b (\<lambda>ob. ob\<lparr>ptr := Sds (x @ y)\<rparr>) s2;
                Some (c2, Some (length (x @ y)), s3)
              }
            }
          });
     case t of
       None \<Rightarrow> Some (c1, s2)
     | Some totlen \<Rightarrow> do {
         s3 \<leftarrow> signalModifiedKey (cdb c) key s2;
         k \<leftarrow> sds_of s3 key;
         let s4 = notifyKeyspaceEvent ''append'' k (cdb c) s3;
         Some (addReply (RInt (int totlen)) c1, s4\<lparr>dirty := dirty s4 + 1\<rparr>)
       }
   }"

definition strlenCommand :: command where
  "strlenCommand c s = do {
     key \<leftarrow> arg c 1;
     (c1, v, s1) \<leftarrow> lookupKeyReadOrReply c key RZero s;
     case v of
       None \<Rightarrow> Some (c1, s1)
     | Some a \<Rightarrow> do {
         (c2, bad) \<leftarrow> checkType c1 a REDIS_STRING s1;
         if bad then Some (c2, s1)
         else do { n \<leftarrow> stringObjectLen s1 a; Some (addReply (RInt (int n)) c2, s1) }
       }
   }"

end
