(* ===== verification/T_Set.thy ===== *)
theory T_Set
  imports T_String
begin

text \<open>
  Sets (\<^verbatim>\<open>redis-2.8.17/src/t_set.c\<close>) in their two encodings, an intset or a dictionary of
  objects: the type-level operations, the iterator, conversion, and the commands other than
  SRANDMEMBER and SSCAN. A
  dictionary of objects compares its keys as \<^verbatim>\<open>dictEncObjKeyCompare\<close> of \<^verbatim>\<open>redis.c\<close> does; looking
  an object up visits the entries in order. A random choice is an argument.
\<close>

section \<open>Dictionaries of objects\<close>

definition dictEncObjKeyCompare :: "server \<Rightarrow> addr \<Rightarrow> addr \<Rightarrow> bool option" where
  "dictEncObjKeyCompare s a b = do {
     oa \<leftarrow> obj s a;
     ob \<leftarrow> obj s b;
     if encoding oa = REDIS_ENCODING_INT \<and> encoding ob = REDIS_ENCODING_INT then Some (ptr oa = ptr ob)
     else do {
       x \<leftarrow> obj_chars 32 s a;
       y \<leftarrow> obj_chars 32 s b;
       Some (x = y)
     }
   }"

primrec find_obj :: "server \<Rightarrow> addr list \<Rightarrow> addr \<Rightarrow> addr option option" where
  "find_obj s [] v = Some None"
| "find_obj s (e # es) v = do {
     q \<leftarrow> dictEncObjKeyCompare s v e;
     if q then Some (Some e) else find_obj s es v
   }"


section \<open>The set type\<close>

definition setTypeCreate :: "addr \<Rightarrow> server \<Rightarrow> (addr \<times> server) option" where
  "setTypeCreate value s = do {
     r \<leftarrow> isObjectRepresentableAsLongLong s value;
     Some (if r \<noteq> None then createIntsetObject s else createSetObject s)
   }"

definition setTypeSize :: "server \<Rightarrow> addr \<Rightarrow> nat option" where
  "setTypeSize s subject = do {
     ob \<leftarrow> obj s subject;
     case (encoding ob, ptr ob) of
       (REDIS_ENCODING_HT, DictSet as) \<Rightarrow> Some (length as)
     | (REDIS_ENCODING_INTSET, Is is) \<Rightarrow> Some (intsetLen is)
     | _ \<Rightarrow> None
   }"

text \<open>An element as the iterator hands it out: an object of the dictionary or an integer.\<close>

datatype setelem = EObj addr | EInt int

record setTypeIterator =
  si_subject :: addr
  si_encoding :: rencoding
  si_pos :: nat

definition setTypeInitIterator :: "server \<Rightarrow> addr \<Rightarrow> setTypeIterator option" where
  "setTypeInitIterator s subject = do {
     ob \<leftarrow> obj s subject;
     if encoding ob = REDIS_ENCODING_HT \<or> encoding ob = REDIS_ENCODING_INTSET
     then Some \<lparr>si_subject = subject, si_encoding = encoding ob, si_pos = 0\<rparr>
     else None
   }"

definition setTypeNext :: "server \<Rightarrow> setTypeIterator \<Rightarrow> (setelem option \<times> setTypeIterator) option" where
  "setTypeNext s si = do {
     ob \<leftarrow> obj s (si_subject si);
     case (si_encoding si, ptr ob) of
       (REDIS_ENCODING_HT, DictSet as) \<Rightarrow>
         Some (if si_pos si < length as
               then (Some (EObj (as ! si_pos si)), si\<lparr>si_pos := si_pos si + 1\<rparr>) else (None, si))
     | (REDIS_ENCODING_INTSET, Is is) \<Rightarrow> do {
         r \<leftarrow> intsetGet is (si_pos si);
         Some (map_option EInt r, si\<lparr>si_pos := si_pos si + 1\<rparr>)
       }
     | _ \<Rightarrow> None
   }"

definition setTypeNextObject ::
  "setTypeIterator \<Rightarrow> server \<Rightarrow> (addr option \<times> setTypeIterator \<times> server) option" where
  "setTypeNextObject si s = do {
     (e, si1) \<leftarrow> setTypeNext s si;
     case e of
       None \<Rightarrow> Some (None, si1, s)
     | Some (EInt v) \<Rightarrow> do { (a, s1) \<leftarrow> createStringObjectFromLongLong v s; Some (Some a, si1, s1) }
     | Some (EObj a) \<Rightarrow> do { s1 \<leftarrow> incrRefCount a s; Some (Some a, si1, s1) }
   }"

text \<open>
  A loop \<^verbatim>\<open>while (setTypeNext(si, ...) != -1)\<close> whose body leaves the set alone visits the
  elements this function collects. The bound on the number of rounds is one more than the
  size of the set, so the end is always seen.
\<close>

primrec set_iter :: "nat \<Rightarrow> server \<Rightarrow> setTypeIterator \<Rightarrow> setelem list option" where
  "set_iter 0 s si = None"
| "set_iter (Suc n) s si = do {
     (e, si1) \<leftarrow> setTypeNext s si;
     case e of None \<Rightarrow> Some [] | Some x \<Rightarrow> do { xs \<leftarrow> set_iter n s si1; Some (x # xs) }
   }"

definition set_elements :: "server \<Rightarrow> addr \<Rightarrow> setelem list option" where
  "set_elements s subject = do {
     si \<leftarrow> setTypeInitIterator s subject;
     n \<leftarrow> setTypeSize s subject;
     set_iter (Suc n) s si
   }"

primrec convert_loop :: "setelem list \<Rightarrow> addr list \<Rightarrow> server \<Rightarrow> (addr list \<times> server) option" where
  "convert_loop [] d s = Some (d, s)"
| "convert_loop (e # es) d s =
     (case e of
        EObj _ \<Rightarrow> None
      | EInt v \<Rightarrow> do {
          (a, s1) \<leftarrow> createStringObjectFromLongLong v s;
          r \<leftarrow> find_obj s1 d a;
          if r \<noteq> None then None else convert_loop es (a # d) s1
        })"

definition setTypeConvert :: "addr \<Rightarrow> server \<Rightarrow> server option" where
  "setTypeConvert setobj s = do {
     ob \<leftarrow> obj s setobj;
     if otype ob \<noteq> REDIS_SET \<or> encoding ob \<noteq> REDIS_ENCODING_INTSET then None
     else do {
       es \<leftarrow> set_elements s setobj;
       (d, s1) \<leftarrow> convert_loop es [] s;
       upd_obj setobj (\<lambda>ob. ob\<lparr>encoding := REDIS_ENCODING_HT, ptr := DictSet d\<rparr>) s1
     }
   }"

text \<open>\<^verbatim>\<open>dictAdd(subject->ptr, value, NULL)\<close>: whether the value was new, and then its insertion.\<close>

definition set_dictAdd :: "addr \<Rightarrow> addr \<Rightarrow> server \<Rightarrow> (bool \<times> server) option" where
  "set_dictAdd subject value s = do {
     ob \<leftarrow> obj s subject;
     case ptr ob of
       DictSet as \<Rightarrow> do {
         r \<leftarrow> find_obj s as value;
         if r \<noteq> None then Some (False, s)
         else do { s1 \<leftarrow> upd_obj subject (\<lambda>ob. ob\<lparr>ptr := DictSet (value # as)\<rparr>) s; Some (True, s1) }
       }
     | _ \<Rightarrow> None
   }"

definition setTypeAdd :: "addr \<Rightarrow> addr \<Rightarrow> server \<Rightarrow> (bool \<times> server) option" where
  "setTypeAdd subject value s = do {
     ob \<leftarrow> obj s subject;
     if encoding ob = REDIS_ENCODING_HT then do {
       (added, s1) \<leftarrow> set_dictAdd subject value s;
       if added then do { s2 \<leftarrow> incrRefCount value s1; Some (True, s2) } else Some (False, s1)
     }
     else if encoding ob = REDIS_ENCODING_INTSET then do {
       r \<leftarrow> isObjectRepresentableAsLongLong s value;
       case r of
         Some llval \<Rightarrow>
           (case ptr ob of
              Is is \<Rightarrow> do {
                (is1, success) \<leftarrow> intsetAdd is llval;
                s1 \<leftarrow> upd_obj subject (\<lambda>ob. ob\<lparr>ptr := Is is1\<rparr>) s;
                if success then do {
                  s2 \<leftarrow> (if intsetLen is1 > set_max_intset_entries s1 then setTypeConvert subject s1 else Some s1);
                  Some (True, s2)
                }
                else Some (False, s1)
              }
            | _ \<Rightarrow> None)
       | None \<Rightarrow> do {
           s1 \<leftarrow> setTypeConvert subject s;
           (added, s2) \<leftarrow> set_dictAdd subject value s1;
           if \<not> added then None
           else do { s3 \<leftarrow> incrRefCount value s2; Some (True, s3) }
         }
     }
     else None
   }"

definition setTypeRemove :: "addr \<Rightarrow> addr \<Rightarrow> server \<Rightarrow> (bool \<times> server) option" where
  "setTypeRemove setobj value s = do {
     ob \<leftarrow> obj s setobj;
     case (encoding ob, ptr ob) of
       (REDIS_ENCODING_HT, DictSet as) \<Rightarrow> do {
         r \<leftarrow> find_obj s as value;
         case r of
           None \<Rightarrow> Some (False, s)
         | Some e \<Rightarrow> do {
             s1 \<leftarrow> upd_obj setobj (\<lambda>ob. ob\<lparr>ptr := DictSet (remove1 e as)\<rparr>) s;
             s2 \<leftarrow> decrRefCount e s1;
             Some (True, s2)
           }
       }
     | (REDIS_ENCODING_INTSET, Is is) \<Rightarrow> do {
         r \<leftarrow> isObjectRepresentableAsLongLong s value;
         case r of
           None \<Rightarrow> Some (False, s)
         | Some llval \<Rightarrow> do {
             (is1, success) \<leftarrow> intsetRemove is llval;
             s1 \<leftarrow> upd_obj setobj (\<lambda>ob. ob\<lparr>ptr := Is is1\<rparr>) s;
             Some (success, s1)
           }
       }
     | _ \<Rightarrow> None
   }"

definition setTypeIsMember :: "server \<Rightarrow> addr \<Rightarrow> addr \<Rightarrow> bool option" where
  "setTypeIsMember s subject value = do {
     ob \<leftarrow> obj s subject;
     case (encoding ob, ptr ob) of
       (REDIS_ENCODING_HT, DictSet as) \<Rightarrow> do { r \<leftarrow> find_obj s as value; Some (r \<noteq> None) }
     | (REDIS_ENCODING_INTSET, Is is) \<Rightarrow> do {
         r \<leftarrow> isObjectRepresentableAsLongLong s value;
         case r of None \<Rightarrow> Some False | Some llval \<Rightarrow> intsetFind is llval
       }
     | _ \<Rightarrow> None
   }"

definition setTypeRandomElement :: "nat \<Rightarrow> server \<Rightarrow> addr \<Rightarrow> setelem option" where
  "setTypeRandomElement r s setobj = do {
     ob \<leftarrow> obj s setobj;
     case (encoding ob, ptr ob) of
       (REDIS_ENCODING_HT, DictSet as) \<Rightarrow> if as = [] then None else Some (EObj (as ! (r mod length as)))
     | (REDIS_ENCODING_INTSET, Is is) \<Rightarrow> do { v \<leftarrow> intsetRandom is r; Some (EInt v) }
     | _ \<Rightarrow> None
   }"


section \<open>Commands\<close>

primrec saddCommand_loop :: "nat list \<Rightarrow> addr \<Rightarrow> int \<Rightarrow> client \<Rightarrow> server \<Rightarrow> (int \<times> client \<times> server) option" where
  "saddCommand_loop [] subject added c s = Some (added, c, s)"
| "saddCommand_loop (j # js) subject added c s = do {
     a \<leftarrow> arg c j;
     (a1, s1) \<leftarrow> tryObjectEncoding a s;
     (new, s2) \<leftarrow> setTypeAdd subject a1 s1;
     saddCommand_loop js subject (if new then added + 1 else added) (set_arg j a1 c) s2
   }"

definition saddCommand :: command where
  "saddCommand c s = do {
     key \<leftarrow> arg c 1;
     (v, s1) \<leftarrow> lookupKeyWrite (cdb c) key s;
     (t, s2) \<leftarrow>
       (case v of
          None \<Rightarrow> do {
            a2 \<leftarrow> arg c 2;
            (subject, s2) \<leftarrow> setTypeCreate a2 s1;
            s3 \<leftarrow> dbAdd (cdb c) key subject s2;
            Some (Some subject, s3)
          }
        | Some a \<Rightarrow> do {
            ob \<leftarrow> obj s1 a;
            Some (if otype ob \<noteq> REDIS_SET then None else Some a, s1)
          });
     case t of
       None \<Rightarrow> Some (addReply RWrongType c, s2)
     | Some subject \<Rightarrow> do {
         (added, c1, s3) \<leftarrow> saddCommand_loop [2..<length (argv c)] subject 0 c s2;
         s5 \<leftarrow> (if added \<noteq> 0 then do {
                  s4 \<leftarrow> signalModifiedKey (cdb c) key s3;
                  k \<leftarrow> sds_of s4 key;
                  Some (notifyKeyspaceEvent ''sadd'' k (cdb c) s4)
                } else Some s3);
         Some (addReply (RInt added) c1, s5\<lparr>dirty := dirty s5 + added\<rparr>)
       }
   }"

primrec sremCommand_loop ::
  "addr list \<Rightarrow> nat \<Rightarrow> addr \<Rightarrow> addr \<Rightarrow> int \<Rightarrow> server \<Rightarrow> (int \<times> bool \<times> server) option" where
  "sremCommand_loop [] d key subject deleted s = Some (deleted, False, s)"
| "sremCommand_loop (a # as) d key subject deleted s = do {
     (removed, s1) \<leftarrow> setTypeRemove subject a s;
     if removed then do {
       n \<leftarrow> setTypeSize s1 subject;
       if n = 0 then do { (_, s2) \<leftarrow> dbDelete d key s1; Some (deleted + 1, True, s2) }
       else sremCommand_loop as d key subject (deleted + 1) s1
     }
     else sremCommand_loop as d key subject deleted s1
   }"

definition sremCommand :: command where
  "sremCommand c s = do {
     key \<leftarrow> arg c 1;
     (c1, v, s1) \<leftarrow> lookupKeyWriteOrReply c key RZero s;
     case v of
       None \<Rightarrow> Some (c1, s1)
     | Some subject \<Rightarrow> do {
         (c2, bad) \<leftarrow> checkType c1 subject REDIS_SET s1;
         if bad then Some (c2, s1)
         else do {
           (deleted, keyremoved, s2) \<leftarrow> sremCommand_loop (drop 2 (argv c)) (cdb c) key subject 0 s1;
           s4 \<leftarrow> (if deleted \<noteq> 0 then do {
                    s3 \<leftarrow> signalModifiedKey (cdb c) key s2;
                    k \<leftarrow> sds_of s3 key;
                    let s4 = notifyKeyspaceEvent ''srem'' k (cdb c) s3;
                    let s5 = (if keyremoved then notifyKeyspaceEvent ''del'' k (cdb c) s4 else s4);
                    Some (s5\<lparr>dirty := dirty s5 + deleted\<rparr>)
                  } else Some s2);
           Some (addReply (RInt deleted) c2, s4)
         }
       }
   }"

definition smoveCommand :: command where
  "smoveCommand c s = do {
     src \<leftarrow> arg c 1;
     dst \<leftarrow> arg c 2;
     a3 \<leftarrow> arg c 3;
     (v, s1) \<leftarrow> lookupKeyWrite (cdb c) src s;
     (w, s2) \<leftarrow> lookupKeyWrite (cdb c) dst s1;
     (ele, s3) \<leftarrow> tryObjectEncoding a3 s2;
     let c1 = set_arg 3 ele c;
     case v of
       None \<Rightarrow> Some (addReply RZero c1, s3)
     | Some srcset \<Rightarrow> do {
         (c2, bad) \<leftarrow> checkType c1 srcset REDIS_SET s3;
         (c3, bad') \<leftarrow> (if bad then Some (c2, True)
                       else case w of None \<Rightarrow> Some (c2, False) | Some dstset \<Rightarrow> checkType c2 dstset REDIS_SET s3);
         if bad' then Some (c3, s3)
         else if w = Some srcset then Some (addReply ROne c3, s3)
         else do {
           (removed, s4) \<leftarrow> setTypeRemove srcset ele s3;
           if \<not> removed then Some (addReply RZero c3, s4)
           else do {
             k1 \<leftarrow> sds_of s4 src;
             k2 \<leftarrow> sds_of s4 dst;
             let s5 = notifyKeyspaceEvent ''srem'' k1 (cdb c) s4;
             n \<leftarrow> setTypeSize s5 srcset;
             s7 \<leftarrow> (if n = 0 then do {
                      (_, s6) \<leftarrow> dbDelete (cdb c) src s5;
                      Some (notifyKeyspaceEvent ''del'' k1 (cdb c) s6)
                    } else Some s5);
             s8 \<leftarrow> signalModifiedKey (cdb c) src s7;
             s9 \<leftarrow> signalModifiedKey (cdb c) dst s8;
             let s10 = s9\<lparr>dirty := dirty s9 + 1\<rparr>;
             (dstset, s11) \<leftarrow>
               (case w of
                  Some a \<Rightarrow> Some (a, s10)
                | None \<Rightarrow> do {
                    (a, s11) \<leftarrow> setTypeCreate ele s10;
                    s12 \<leftarrow> dbAdd (cdb c) dst a s11;
                    Some (a, s12)
                  });
             (added, s12) \<leftarrow> setTypeAdd dstset ele s11;
             Some (addReply ROne c3,
                   if added then notifyKeyspaceEvent ''sadd'' k2 (cdb c) (s12\<lparr>dirty := dirty s12 + 1\<rparr>) else s12)
           }
         }
       }
   }"

definition sismemberCommand :: command where
  "sismemberCommand c s = do {
     key \<leftarrow> arg c 1;
     a2 \<leftarrow> arg c 2;
     (c1, v, s1) \<leftarrow> lookupKeyReadOrReply c key RZero s;
     case v of
       None \<Rightarrow> Some (c1, s1)
     | Some subject \<Rightarrow> do {
         (c2, bad) \<leftarrow> checkType c1 subject REDIS_SET s1;
         if bad then Some (c2, s1)
         else do {
           (a, s2) \<leftarrow> tryObjectEncoding a2 s1;
           m \<leftarrow> setTypeIsMember s2 subject a;
           Some (addReply (if m then ROne else RZero) (set_arg 2 a c2), s2)
         }
       }
   }"

definition scardCommand :: command where
  "scardCommand c s = do {
     key \<leftarrow> arg c 1;
     (c1, v, s1) \<leftarrow> lookupKeyReadOrReply c key RZero s;
     case v of
       None \<Rightarrow> Some (c1, s1)
     | Some subject \<Rightarrow> do {
         (c2, bad) \<leftarrow> checkType c1 subject REDIS_SET s1;
         if bad then Some (c2, s1)
         else do { n \<leftarrow> setTypeSize s1 subject; Some (addReply (RInt (int n)) c2, s1) }
       }
   }"

definition spopCommand :: "nat \<Rightarrow> command" where
  "spopCommand r c s = do {
     key \<leftarrow> arg c 1;
     (c1, v, s1) \<leftarrow> lookupKeyWriteOrReply c key RNullBulk s;
     case v of
       None \<Rightarrow> Some (c1, s1)
     | Some subject \<Rightarrow> do {
         (c2, bad) \<leftarrow> checkType c1 subject REDIS_SET s1;
         if bad then Some (c2, s1)
         else do {
           e \<leftarrow> setTypeRandomElement r s1 subject;
           (ele, s3) \<leftarrow>
             (case e of
                EInt llele \<Rightarrow> do {
                  (ele, s2) \<leftarrow> createStringObjectFromLongLong llele s1;
                  ob \<leftarrow> obj s2 subject;
                  case ptr ob of
                    Is is \<Rightarrow> do {
                      (is1, _) \<leftarrow> intsetRemove is llele;
                      s3 \<leftarrow> upd_obj subject (\<lambda>ob. ob\<lparr>ptr := Is is1\<rparr>) s2;
                      Some (ele, s3)
                    }
                  | _ \<Rightarrow> None
                }
              | EObj ele \<Rightarrow> do {
                  s2 \<leftarrow> incrRefCount ele s1;
                  (_, s3) \<leftarrow> setTypeRemove subject ele s2;
                  Some (ele, s3)
                });
           k \<leftarrow> sds_of s3 key;
           let s4 = notifyKeyspaceEvent ''spop'' k (cdb c) s3;
           let (aux, s5) = createStringObject ''SREM'' s4;
           (c3, s6) \<leftarrow> rewriteClientCommandVector c2 [aux, key, ele] s5;
           s7 \<leftarrow> decrRefCount ele s6;
           s8 \<leftarrow> decrRefCount aux s7;
           c4 \<leftarrow> addReplyBulk c3 ele s8;
           n \<leftarrow> setTypeSize s8 subject;
           s10 \<leftarrow> (if n = 0 then do {
                     (_, s9) \<leftarrow> dbDelete (cdb c) key s8;
                     Some (notifyKeyspaceEvent ''del'' k (cdb c) s9)
                   } else Some s8);
           s11 \<leftarrow> signalModifiedKey (cdb c) key s10;
           Some (c4, s11\<lparr>dirty := dirty s11 + 1\<rparr>)
         }
       }
   }"


section \<open>Set algebra\<close>

text \<open>
  \<^verbatim>\<open>qsort\<close> by cardinality. The order of sets of equal size is unspecified in C; the model keeps
  their relative order.
\<close>

primrec sized_sets :: "server \<Rightarrow> addr option list \<Rightarrow> (nat \<times> addr option) list option" where
  "sized_sets s [] = Some []"
| "sized_sets s (x # xs) = do {
     n \<leftarrow> (case x of None \<Rightarrow> Some 0 | Some a \<Rightarrow> setTypeSize s a);
     ys \<leftarrow> sized_sets s xs;
     Some ((n, x) # ys)
   }"

definition qsort_cardinality :: "server \<Rightarrow> addr option list \<Rightarrow> addr option list option" where
  "qsort_cardinality s xs = do { ys \<leftarrow> sized_sets s xs; Some (map snd (sort_key fst ys)) }"

definition qsort_rev_cardinality :: "server \<Rightarrow> addr option list \<Rightarrow> addr option list option" where
  "qsort_rev_cardinality s xs = do {
     ys \<leftarrow> sized_sets s xs;
     Some (map snd (sort_key (\<lambda>p. - int (fst p)) ys))
   }"

text \<open>
  Gathering the operands. \<open>Inl\<close> is a reply that ends the command: a value of another type, or
  (for the intersection) a missing key.
\<close>

primrec fetch_sets ::
  "bool \<Rightarrow> bool \<Rightarrow> addr list \<Rightarrow> client \<Rightarrow> server \<Rightarrow> (client \<times> (bool + addr option list) \<times> server) option" where
  "fetch_sets stop_missing store [] c s = Some (c, Inr [], s)"
| "fetch_sets stop_missing store (key # keys) c s = do {
     (v, s1) \<leftarrow> (if store then lookupKeyWrite (cdb c) key s else lookupKeyRead (cdb c) key s);
     case v of
       None \<Rightarrow>
         if stop_missing then Some (c, Inl True, s1)
         else do {
           (c1, r, s2) \<leftarrow> fetch_sets stop_missing store keys c s1;
           Some (c1, map_sum id (\<lambda>xs. None # xs) r, s2)
         }
     | Some a \<Rightarrow> do {
         (c1, bad) \<leftarrow> checkType c a REDIS_SET s1;
         if bad then Some (c1, Inl False, s1)
         else do {
           (c2, r, s2) \<leftarrow> fetch_sets stop_missing store keys c1 s1;
           Some (c2, map_sum id (\<lambda>xs. Some a # xs) r, s2)
         }
       }
   }"

text \<open>The inner loop of SINTER: is the element of the first set in all the others?\<close>

definition inter_member :: "setelem \<Rightarrow> addr \<Rightarrow> server \<Rightarrow> (bool \<times> server) option" where
  "inter_member e a s = do {
     ob \<leftarrow> obj s a;
     case e of
       EInt v \<Rightarrow>
         (case (encoding ob, ptr ob) of
            (REDIS_ENCODING_INTSET, Is is) \<Rightarrow> do { m \<leftarrow> intsetFind is v; Some (m, s) }
          | (REDIS_ENCODING_HT, _) \<Rightarrow> do {
              (ele, s1) \<leftarrow> createStringObjectFromLongLong v s;
              m \<leftarrow> setTypeIsMember s1 a ele;
              s2 \<leftarrow> decrRefCount ele s1;
              Some (m, s2)
            }
          | (REDIS_ENCODING_INTSET, _) \<Rightarrow> None
          | _ \<Rightarrow> Some (True, s))
     | EObj ele \<Rightarrow> do {
         oe \<leftarrow> obj s ele;
         fast_miss \<leftarrow>
           (case (encoding oe, ptr oe, encoding ob, ptr ob) of
              (REDIS_ENCODING_INT, Long v, REDIS_ENCODING_INTSET, Is is) \<Rightarrow>
                do { m \<leftarrow> intsetFind is v; Some (\<not> m) }
            | _ \<Rightarrow> Some False);
         if fast_miss then Some (False, s)
         else do { m \<leftarrow> setTypeIsMember s a ele; Some (m, s) }
       }
   }"

primrec inter_in_all :: "setelem \<Rightarrow> addr \<Rightarrow> addr list \<Rightarrow> server \<Rightarrow> (bool \<times> server) option" where
  "inter_in_all e first [] s = Some (True, s)"
| "inter_in_all e first (a # as) s =
     (if a = first then inter_in_all e first as s
      else do {
        (m, s1) \<leftarrow> inter_member e a s;
        if m then inter_in_all e first as s1 else Some (False, s1)
      })"

definition elem_chars :: "server \<Rightarrow> setelem \<Rightarrow> string option" where
  "elem_chars s e = (case e of EInt v \<Rightarrow> ll_chars 32 v | EObj a \<Rightarrow> obj_chars 32 s a)"

primrec inter_loop ::
  "setelem list \<Rightarrow> addr \<Rightarrow> addr list \<Rightarrow> addr option \<Rightarrow> string list \<Rightarrow> server \<Rightarrow> (string list \<times> server) option" where
  "inter_loop [] first rest dstset found s = Some (found, s)"
| "inter_loop (e # es) first rest dstset found s = do {
     (all, s1) \<leftarrow> inter_in_all e first rest s;
     if \<not> all then inter_loop es first rest dstset found s1
     else (case dstset of
             None \<Rightarrow> do { x \<leftarrow> elem_chars s1 e; inter_loop es first rest dstset (found @ [x]) s1 }
           | Some d \<Rightarrow>
               (case e of
                  EInt v \<Rightarrow> do {
                    (ele, s2) \<leftarrow> createStringObjectFromLongLong v s1;
                    (_, s3) \<leftarrow> setTypeAdd d ele s2;
                    s4 \<leftarrow> decrRefCount ele s3;
                    inter_loop es first rest dstset found s4
                  }
                | EObj ele \<Rightarrow> do {
                    (_, s2) \<leftarrow> setTypeAdd d ele s1;
                    inter_loop es first rest dstset found s2
                  }))
   }"

text \<open>Storing the result of an operation under the destination key.\<close>

definition store_result :: "string \<Rightarrow> addr \<Rightarrow> addr \<Rightarrow> command" where
  "store_result ev dstkey dstset c s = do {
     k \<leftarrow> sds_of s dstkey;
     (deleted, s1) \<leftarrow> dbDelete (cdb c) dstkey s;
     n \<leftarrow> setTypeSize s1 dstset;
     (c2, s3) \<leftarrow>
       (if n > 0 then do {
          s2 \<leftarrow> dbAdd (cdb c) dstkey dstset s1;
          Some (addReply (RInt (int n)) c, notifyKeyspaceEvent ev k (cdb c) s2)
        }
        else do {
          s2 \<leftarrow> decrRefCount dstset s1;
          Some (addReply RZero c, if deleted then notifyKeyspaceEvent ''del'' k (cdb c) s2 else s2)
        });
     s4 \<leftarrow> signalModifiedKey (cdb c) dstkey s3;
     Some (c2, s4\<lparr>dirty := dirty s4 + 1\<rparr>)
   }"

definition sinterGenericCommand :: "addr list \<Rightarrow> addr option \<Rightarrow> command" where
  "sinterGenericCommand setkeys dstkey c s = do {
     (c1, r, s1) \<leftarrow> fetch_sets True (dstkey \<noteq> None) setkeys c s;
     case r of
       Inl missing \<Rightarrow>
         if \<not> missing then Some (c1, s1)
         else (case dstkey of
                 None \<Rightarrow> Some (addReply REmptyMultiBulk c1, s1)
               | Some dst \<Rightarrow> do {
                   (deleted, s2) \<leftarrow> dbDelete (cdb c) dst s1;
                   s3 \<leftarrow> (if deleted then do {
                            s3 \<leftarrow> signalModifiedKey (cdb c) dst s2;
                            Some (s3\<lparr>dirty := dirty s3 + 1\<rparr>)
                          } else Some s2);
                   Some (addReply RZero c1, s3)
                 })
     | Inr xs \<Rightarrow> do {
         ys \<leftarrow> qsort_cardinality s1 xs;
         case map the ys of
           [] \<Rightarrow> None
         | first # rest \<Rightarrow> do {
             let (dstset, s2) = (case dstkey of
                None \<Rightarrow> (None, s1)
              | Some _ \<Rightarrow> (case createIntsetObject s1 of (a, s2) \<Rightarrow> (Some a, s2)));
             es \<leftarrow> set_elements s2 first;
             (found, s3) \<leftarrow> inter_loop es first rest dstset [] s2;
             case (dstkey, dstset) of
               (Some dst, Some d) \<Rightarrow> store_result ''sinterstore'' dst d c1 s3
             | _ \<Rightarrow> Some (fold (\<lambda>x. addReply (RBulk x)) found (addReply (RMulti (length found)) c1), s3)
           }
       }
   }"

definition sinterCommand :: command where
  "sinterCommand c s = sinterGenericCommand (drop 1 (argv c)) None c s"

definition sinterstoreCommand :: command where
  "sinterstoreCommand c s = do { dst \<leftarrow> arg c 1; sinterGenericCommand (drop 2 (argv c)) (Some dst) c s }"

text \<open>
  Adding every element of one set to another, or removing it; the elements come from
  \<^verbatim>\<open>setTypeNextObject\<close>, which takes a reference the loop gives back. The counter is the change
  of the size.
\<close>

definition next_object :: "setelem \<Rightarrow> server \<Rightarrow> (addr \<times> server) option" where
  "next_object e s =
     (case e of
        EInt v \<Rightarrow> createStringObjectFromLongLong v s
      | EObj a \<Rightarrow> do { s1 \<leftarrow> incrRefCount a s; Some (a, s1) })"

primrec add_elements :: "setelem list \<Rightarrow> addr \<Rightarrow> int \<Rightarrow> server \<Rightarrow> (int \<times> server) option" where
  "add_elements [] dstset cardinality s = Some (cardinality, s)"
| "add_elements (e # es) dstset cardinality s = do {
     (ele, s1) \<leftarrow> next_object e s;
     (added, s2) \<leftarrow> setTypeAdd dstset ele s1;
     s3 \<leftarrow> decrRefCount ele s2;
     add_elements es dstset (if added then cardinality + 1 else cardinality) s3
   }"

primrec remove_elements :: "setelem list \<Rightarrow> addr \<Rightarrow> int \<Rightarrow> server \<Rightarrow> (int \<times> server) option" where
  "remove_elements [] dstset cardinality s = Some (cardinality, s)"
| "remove_elements (e # es) dstset cardinality s = do {
     (ele, s1) \<leftarrow> next_object e s;
     (removed, s2) \<leftarrow> setTypeRemove dstset ele s1;
     s3 \<leftarrow> decrRefCount ele s2;
     remove_elements es dstset (if removed then cardinality - 1 else cardinality) s3
   }"

primrec union_loop :: "addr option list \<Rightarrow> addr \<Rightarrow> int \<Rightarrow> server \<Rightarrow> (int \<times> server) option" where
  "union_loop [] dstset cardinality s = Some (cardinality, s)"
| "union_loop (x # xs) dstset cardinality s =
     (case x of
        None \<Rightarrow> union_loop xs dstset cardinality s
      | Some a \<Rightarrow> do {
          es \<leftarrow> set_elements s a;
          (cardinality1, s1) \<leftarrow> add_elements es dstset cardinality s;
          union_loop xs dstset cardinality1 s1
        })"

primrec diff_in_none :: "addr \<Rightarrow> addr \<Rightarrow> addr option list \<Rightarrow> server \<Rightarrow> bool option" where
  "diff_in_none ele first [] s = Some True"
| "diff_in_none ele first (x # xs) s =
     (case x of
        None \<Rightarrow> diff_in_none ele first xs s
      | Some a \<Rightarrow>
          if a = first then Some False
          else do {
            m \<leftarrow> setTypeIsMember s a ele;
            if m then Some False else diff_in_none ele first xs s
          })"

primrec diff_loop_1 ::
  "setelem list \<Rightarrow> addr \<Rightarrow> addr option list \<Rightarrow> addr \<Rightarrow> int \<Rightarrow> server \<Rightarrow> (int \<times> server) option" where
  "diff_loop_1 [] first rest dstset cardinality s = Some (cardinality, s)"
| "diff_loop_1 (e # es) first rest dstset cardinality s = do {
     (ele, s1) \<leftarrow> next_object e s;
     out \<leftarrow> diff_in_none ele first rest s1;
     (cardinality1, s2) \<leftarrow> (if out then do {
        (_, s2) \<leftarrow> setTypeAdd dstset ele s1;
        Some (cardinality + 1, s2)
      } else Some (cardinality, s1));
     s3 \<leftarrow> decrRefCount ele s2;
     diff_loop_1 es first rest dstset cardinality1 s3
   }"

primrec diff_loop_2 :: "addr option list \<Rightarrow> addr \<Rightarrow> int \<Rightarrow> server \<Rightarrow> (int \<times> server) option" where
  "diff_loop_2 [] dstset cardinality s = Some (cardinality, s)"
| "diff_loop_2 (x # xs) dstset cardinality s =
     (case x of
        None \<Rightarrow> diff_loop_2 xs dstset cardinality s
      | Some a \<Rightarrow> do {
          es \<leftarrow> set_elements s a;
          (cardinality1, s1) \<leftarrow> remove_elements es dstset cardinality s;
          if cardinality1 = 0 then Some (cardinality1, s1) else diff_loop_2 xs dstset cardinality1 s1
        })"

text \<open>The work either algorithm for SDIFF would do, and the choice.\<close>

definition diff_algo :: "nat \<Rightarrow> (nat \<times> addr option) list \<Rightarrow> nat" where
  "diff_algo size0 ys =
     (let present = filter (\<lambda>p. snd p \<noteq> None) ys;
          one = (size0 * length present) div 2;
          two = sum_list (map fst present) in
      if one \<le> two then 1 else 2)"

datatype setop = REDIS_OP_UNION | REDIS_OP_DIFF

definition combine_sets :: "setop \<Rightarrow> addr option list \<Rightarrow> addr \<Rightarrow> server \<Rightarrow> (int \<times> server) option" where
  "combine_sets op sets dstset s =
     (case op of
        REDIS_OP_UNION \<Rightarrow> union_loop sets dstset 0 s
      | REDIS_OP_DIFF \<Rightarrow>
          (case sets of
             Some first # rest \<Rightarrow> do {
               ys \<leftarrow> sized_sets s sets;
               n0 \<leftarrow> setTypeSize s first;
               if diff_algo n0 ys = 1 then do {
                 rest1 \<leftarrow> qsort_rev_cardinality s rest;
                 es \<leftarrow> set_elements s first;
                 diff_loop_1 es first rest1 dstset 0 s
               }
               else do {
                 es \<leftarrow> set_elements s first;
                 (cardinality, s1) \<leftarrow> add_elements es dstset 0 s;
                 if cardinality = 0 then Some (cardinality, s1) else diff_loop_2 rest dstset cardinality s1
               }
             }
           | _ \<Rightarrow> Some (0, s)))"

primrec reply_elements :: "setelem list \<Rightarrow> client \<Rightarrow> server \<Rightarrow> (client \<times> server) option" where
  "reply_elements [] c s = Some (c, s)"
| "reply_elements (e # es) c s = do {
     (ele, s1) \<leftarrow> next_object e s;
     c1 \<leftarrow> addReplyBulk c ele s1;
     s2 \<leftarrow> decrRefCount ele s1;
     reply_elements es c1 s2
   }"

definition sunionDiffGenericCommand :: "addr list \<Rightarrow> addr option \<Rightarrow> setop \<Rightarrow> command" where
  "sunionDiffGenericCommand setkeys dstkey op c s = do {
     (c1, r, s1) \<leftarrow> fetch_sets False (dstkey \<noteq> None) setkeys c s;
     case r of
       Inl _ \<Rightarrow> Some (c1, s1)
     | Inr sets \<Rightarrow> do {
         let (dstset, s2) = createIntsetObject s1;
         (cardinality, s3) \<leftarrow> combine_sets op sets dstset s2;
         case dstkey of
           None \<Rightarrow> do {
             es \<leftarrow> set_elements s3 dstset;
             (c2, s4) \<leftarrow> reply_elements es (addReply (RMulti (nat cardinality)) c1) s3;
             s5 \<leftarrow> decrRefCount dstset s4;
             Some (c2, s5)
           }
         | Some dst \<Rightarrow>
             store_result (if op = REDIS_OP_UNION then ''sunionstore'' else ''sdiffstore'') dst dstset c1 s3
       }
   }"

definition sunionCommand :: command where
  "sunionCommand c s = sunionDiffGenericCommand (drop 1 (argv c)) None REDIS_OP_UNION c s"

definition sunionstoreCommand :: command where
  "sunionstoreCommand c s = do {
     dst \<leftarrow> arg c 1;
     sunionDiffGenericCommand (drop 2 (argv c)) (Some dst) REDIS_OP_UNION c s
   }"

definition sdiffCommand :: command where
  "sdiffCommand c s = sunionDiffGenericCommand (drop 1 (argv c)) None REDIS_OP_DIFF c s"

definition sdiffstoreCommand :: command where
  "sdiffstoreCommand c s = do {
     dst \<leftarrow> arg c 1;
     sunionDiffGenericCommand (drop 2 (argv c)) (Some dst) REDIS_OP_DIFF c s
   }"

end
