(* ===== verification/Ziplist.thy ===== *)
theory Ziplist
  imports Object
begin

text \<open>
  Ziplists as their clients see them: a list of entries, each a string or an integer
  (\<^verbatim>\<open>redis-2.8.17/src/ziplist.c\<close>). A string that reads as a 64-bit integer is stored as one, which
  is what \<^verbatim>\<open>zipTryEncoding\<close> decides; comparison and search follow the stored form. The byte
  layout of the entries is not part of this theory.
\<close>

definition zipTryEncoding :: "string \<Rightarrow> int option" where
  "zipTryEncoding x = (if length x \<ge> 32 \<or> length x = 0 then None else string2ll x)"

definition zl_entry :: "string \<Rightarrow> zlval" where
  "zl_entry x = (case zipTryEncoding x of Some v \<Rightarrow> ZInt v | None \<Rightarrow> ZStr x)"

definition ziplistCompare :: "zlval \<Rightarrow> string \<Rightarrow> bool" where
  "ziplistCompare e x =
     (case e of ZStr y \<Rightarrow> y = x | ZInt v \<Rightarrow> zipTryEncoding x = Some v)"

text \<open>Search with \<open>skip\<close> entries between comparisons; \<open>cnt\<close> is the number still to be skipped.\<close>

primrec ziplistFind :: "nat \<Rightarrow> nat \<Rightarrow> zlval list \<Rightarrow> string \<Rightarrow> nat option" where
  "ziplistFind skip cnt [] x = None"
| "ziplistFind skip cnt (e # es) x =
     (if cnt = 0 then (if ziplistCompare e x then Some 0 else map_option Suc (ziplistFind skip skip es x))
      else map_option Suc (ziplistFind skip (cnt - 1) es x))"

definition zl_insert :: "nat \<Rightarrow> string \<Rightarrow> zlval list \<Rightarrow> zlval list" where
  "zl_insert i x zl = take i zl @ [zl_entry x] @ drop i zl"

definition zl_delete :: "nat \<Rightarrow> zlval list \<Rightarrow> zlval list" where
  "zl_delete i zl = take i zl @ drop (Suc i) zl"

text \<open>The object made from an entry that was read back.\<close>

definition zl_object :: "zlval \<Rightarrow> server \<Rightarrow> (addr \<times> server) option" where
  "zl_object e s =
     (case e of
        ZStr x \<Rightarrow> Some (createStringObject x s)
      | ZInt v \<Rightarrow> createStringObjectFromLongLong v s)"

definition zl_chars :: "zlval \<Rightarrow> string option" where
  "zl_chars e = (case e of ZStr x \<Rightarrow> Some x | ZInt v \<Rightarrow> ll_chars 64 v)"


section \<open>Entries stand for the strings they were made from\<close>

definition zl_val :: "zlval \<Rightarrow> string" where
  "zl_val e = (case e of ZStr x \<Rightarrow> x | ZInt v \<Rightarrow> dec_int v)"

text \<open>What \<^const>\<open>zl_entry\<close> can produce: an integer never stays a string.\<close>

definition zl_ok :: "zlval \<Rightarrow> bool" where
  "zl_ok e = (case e of ZStr x \<Rightarrow> zipTryEncoding x = None | ZInt v \<Rightarrow> long_range v)"

lemma zipTryEncoding_iff: "zipTryEncoding x = Some v \<longleftrightarrow> long_range v \<and> x = dec_int v"
proof -
  have "string2ll x = Some v \<longleftrightarrow> long_range v \<and> x = dec_int v"
    unfolding string2ll_iff long_range_def by simp
  moreover have "length x < 32 \<and> 0 < length x" if "long_range v" "x = dec_int v"
    using length_dec_int_le [OF that(1)] that(2) by (simp add: dec_int_def)
  ultimately show ?thesis unfolding zipTryEncoding_def by auto
qed

lemma zl_val_entry [simp]: "zl_val (zl_entry x) = x"
proof (cases "zipTryEncoding x")
  case (Some v)
  then show ?thesis using zipTryEncoding_iff [of x v] by (simp add: zl_entry_def zl_val_def)
qed (simp add: zl_entry_def zl_val_def)

lemma zl_ok_entry [simp]: "zl_ok (zl_entry x)"
proof (cases "zipTryEncoding x")
  case (Some v)
  then show ?thesis using zipTryEncoding_iff [of x v] by (simp add: zl_entry_def zl_ok_def)
qed (simp add: zl_entry_def zl_ok_def)

lemma ziplistCompare_ok: "zl_ok e \<Longrightarrow> ziplistCompare e x \<longleftrightarrow> zl_val e = x"
  by (cases e) (auto simp: zl_ok_def ziplistCompare_def zl_val_def zipTryEncoding_iff)

lemma zl_entry_val: "zl_ok e \<Longrightarrow> zl_entry (zl_val e) = e"
proof (cases e)
  case (ZInt v)
  assume "zl_ok e"
  then have "zipTryEncoding (dec_int v) = Some v" using ZInt by (simp add: zipTryEncoding_iff zl_ok_def)
  then show ?thesis using ZInt by (simp add: zl_entry_def zl_val_def)
qed (simp add: zl_entry_def zl_val_def zl_ok_def)

lemma zl_chars_ok: "zl_ok e \<Longrightarrow> zl_chars e = Some (zl_val e)"
  by (cases e) (simp_all add: zl_chars_def zl_val_def zl_ok_def ll_chars_ok)

end
