(* ===== verification/T_Hash.thy ===== *)
theory T_Hash
  imports T_Set Ziplist
begin

text \<open>
  Hashes (\<^verbatim>\<open>redis-2.8.17/src/t_hash.c\<close>) in their two encodings, a ziplist that alternates
  fields and values or a dictionary of objects: the type-level operations, the iterator,
  conversion, and the commands. \<^verbatim>\<open>hincrbyfloatCommand\<close> and \<^verbatim>\<open>hscanCommand\<close> are left out.
\<close>

section \<open>The hash type\<close>

primrec find_entry :: "server \<Rightarrow> (addr \<times> addr) list \<Rightarrow> addr \<Rightarrow> (addr \<times> addr) option option" where
  "find_entry s [] field = Some None"
| "find_entry s (e # es) field = do {
     q \<leftarrow> dictEncObjKeyCompare s field (fst e);
     if q then Some (Some e) else find_entry s es field
   }"

definition hashTypeLength :: "server \<Rightarrow> addr \<Rightarrow> nat option" where
  "hashTypeLength s o' = do {
     ob \<leftarrow> obj s o';
     case (encoding ob, ptr ob) of
       (REDIS_ENCODING_ZIPLIST, Ziplist zl) \<Rightarrow> Some (length zl div 2)
     | (REDIS_ENCODING_HT, DictHash kvs) \<Rightarrow> Some (length kvs)
     | _ \<Rightarrow> None
   }"

text \<open>The cursor of the iterator: a pair of ziplist entries, or an entry of the dictionary.\<close>

datatype hashcur = HZip zlval zlval | HObj addr addr

record hashTypeIterator =
  hi_subject :: addr
  hi_encoding :: rencoding
  hi_pos :: nat

definition hashTypeInitIterator :: "server \<Rightarrow> addr \<Rightarrow> hashTypeIterator option" where
  "hashTypeInitIterator s subject = do {
     ob \<leftarrow> obj s subject;
     if encoding ob = REDIS_ENCODING_ZIPLIST \<or> encoding ob = REDIS_ENCODING_HT
     then Some \<lparr>hi_subject = subject, hi_encoding = encoding ob, hi_pos = 0\<rparr>
     else None
   }"

definition hashTypeNext :: "server \<Rightarrow> hashTypeIterator \<Rightarrow> (hashcur option \<times> hashTypeIterator) option" where
  "hashTypeNext s hi = do {
     ob \<leftarrow> obj s (hi_subject hi);
     case (hi_encoding hi, ptr ob) of
       (REDIS_ENCODING_ZIPLIST, Ziplist zl) \<Rightarrow>
         if 2 * hi_pos hi \<ge> length zl then Some (None, hi)
         else if 2 * hi_pos hi + 1 \<ge> length zl then None
         else Some (Some (HZip (zl ! (2 * hi_pos hi)) (zl ! (2 * hi_pos hi + 1))), hi\<lparr>hi_pos := hi_pos hi + 1\<rparr>)
     | (REDIS_ENCODING_HT, DictHash kvs) \<Rightarrow>
         if hi_pos hi < length kvs
         then Some (Some (HObj (fst (kvs ! hi_pos hi)) (snd (kvs ! hi_pos hi))), hi\<lparr>hi_pos := hi_pos hi + 1\<rparr>)
         else Some (None, hi)
     | _ \<Rightarrow> None
   }"

text \<open>\<open>is_key\<close> is \<^verbatim>\<open>what & REDIS_HASH_KEY\<close>.\<close>

definition hashTypeCurrentFromZiplist :: "bool \<Rightarrow> hashcur \<Rightarrow> zlval option" where
  "hashTypeCurrentFromZiplist is_key cur =
     (case cur of HZip f v \<Rightarrow> Some (if is_key then f else v) | HObj _ _ \<Rightarrow> None)"

definition hashTypeCurrentFromHashTable :: "bool \<Rightarrow> hashcur \<Rightarrow> addr option" where
  "hashTypeCurrentFromHashTable is_key cur =
     (case cur of HObj f v \<Rightarrow> Some (if is_key then f else v) | HZip _ _ \<Rightarrow> None)"

definition hashTypeCurrentObject :: "bool \<Rightarrow> hashcur \<Rightarrow> server \<Rightarrow> (addr \<times> server) option" where
  "hashTypeCurrentObject is_key cur s =
     (case cur of
        HZip _ _ \<Rightarrow> do { e \<leftarrow> hashTypeCurrentFromZiplist is_key cur; zl_object e s }
      | HObj _ _ \<Rightarrow> do {
          a \<leftarrow> hashTypeCurrentFromHashTable is_key cur;
          s1 \<leftarrow> incrRefCount a s;
          Some (a, s1)
        })"

text \<open>The entries a loop \<^verbatim>\<open>while (hashTypeNext(hi) != REDIS_ERR)\<close> visits; see the iterator of sets.\<close>

primrec hash_iter :: "nat \<Rightarrow> server \<Rightarrow> hashTypeIterator \<Rightarrow> hashcur list option" where
  "hash_iter 0 s hi = None"
| "hash_iter (Suc n) s hi = do {
     (e, hi1) \<leftarrow> hashTypeNext s hi;
     case e of None \<Rightarrow> Some [] | Some x \<Rightarrow> do { xs \<leftarrow> hash_iter n s hi1; Some (x # xs) }
   }"

definition hash_elements :: "server \<Rightarrow> addr \<Rightarrow> hashcur list option" where
  "hash_elements s subject = do {
     hi \<leftarrow> hashTypeInitIterator s subject;
     n \<leftarrow> hashTypeLength s subject;
     hash_iter (Suc n) s hi
   }"

primrec hash_convert_loop ::
  "hashcur list \<Rightarrow> (addr \<times> addr) list \<Rightarrow> server \<Rightarrow> ((addr \<times> addr) list \<times> server) option" where
  "hash_convert_loop [] d s = Some (d, s)"
| "hash_convert_loop (cur # curs) d s = do {
     (f0, s1) \<leftarrow> hashTypeCurrentObject True cur s;
     (f, s2) \<leftarrow> tryObjectEncoding f0 s1;
     (v0, s3) \<leftarrow> hashTypeCurrentObject False cur s2;
     (v, s4) \<leftarrow> tryObjectEncoding v0 s3;
     r \<leftarrow> find_entry s4 d f;
     if r \<noteq> None then None else hash_convert_loop curs ((f, v) # d) s4
   }"

definition hashTypeConvertZiplist :: "addr \<Rightarrow> rencoding \<Rightarrow> server \<Rightarrow> server option" where
  "hashTypeConvertZiplist o' enc s = do {
     ob \<leftarrow> obj s o';
     if encoding ob \<noteq> REDIS_ENCODING_ZIPLIST then None
     else if enc = REDIS_ENCODING_ZIPLIST then Some s
     else if enc = REDIS_ENCODING_HT then do {
       curs \<leftarrow> hash_elements s o';
       (d, s1) \<leftarrow> hash_convert_loop curs [] s;
       upd_obj o' (\<lambda>ob. ob\<lparr>encoding := REDIS_ENCODING_HT, ptr := DictHash d\<rparr>) s1
     }
     else None
   }"

definition hashTypeConvert :: "addr \<Rightarrow> rencoding \<Rightarrow> server \<Rightarrow> server option" where
  "hashTypeConvert o' enc s = do {
     ob \<leftarrow> obj s o';
     if encoding ob = REDIS_ENCODING_ZIPLIST then hashTypeConvertZiplist o' enc s else None
   }"

primrec long_argument :: "addr list \<Rightarrow> server \<Rightarrow> bool option" where
  "long_argument [] s = Some False"
| "long_argument (a # as) s = do {
     ob \<leftarrow> obj s a;
     if encoding ob = REDIS_ENCODING_RAW then do {
       x \<leftarrow> sds_of s a;
       if length x > hash_max_ziplist_value s then Some True else long_argument as s
     }
     else long_argument as s
   }"

definition hashTypeTryConversion :: "addr \<Rightarrow> addr list \<Rightarrow> server \<Rightarrow> server option" where
  "hashTypeTryConversion o' args s = do {
     ob \<leftarrow> obj s o';
     if encoding ob \<noteq> REDIS_ENCODING_ZIPLIST then Some s
     else do {
       long \<leftarrow> long_argument args s;
       if long then hashTypeConvert o' REDIS_ENCODING_HT s else Some s
     }
   }"

definition hash_try_encode :: "addr \<Rightarrow> nat \<Rightarrow> client \<Rightarrow> server \<Rightarrow> (client \<times> server) option" where
  "hash_try_encode subject i c s = do {
     ob \<leftarrow> obj s subject;
     if encoding ob = REDIS_ENCODING_HT then do {
       a \<leftarrow> arg c i;
       (b, s1) \<leftarrow> tryObjectEncoding a s;
       Some (set_arg i b c, s1)
     }
     else Some (c, s)
   }"

definition hashTypeTryObjectEncoding :: "addr \<Rightarrow> nat list \<Rightarrow> client \<Rightarrow> server \<Rightarrow> (client \<times> server) option" where
  "hashTypeTryObjectEncoding subject is c s =
     fold (\<lambda>i r. do { (c1, s1) \<leftarrow> r; hash_try_encode subject i c1 s1 }) is (Some (c, s))"

text \<open>The position of a field in the ziplist, and the entry after it.\<close>

definition hashTypeGetFromZiplist :: "addr \<Rightarrow> addr \<Rightarrow> server \<Rightarrow> (zlval option \<times> server) option" where
  "hashTypeGetFromZiplist o' field s = do {
     ob \<leftarrow> obj s o';
     case (encoding ob, ptr ob) of
       (REDIS_ENCODING_ZIPLIST, Ziplist zl) \<Rightarrow> do {
         (f, s1) \<leftarrow> getDecodedObject field s;
         x \<leftarrow> sds_of s1 f;
         v \<leftarrow> (case ziplistFind 1 0 zl x of
                None \<Rightarrow> Some None
              | Some i \<Rightarrow> if i + 1 < length zl then Some (Some (zl ! (i + 1))) else None);
         s2 \<leftarrow> decrRefCount f s1;
         Some (v, s2)
       }
     | _ \<Rightarrow> None
   }"

definition hashTypeGetFromHashTable :: "server \<Rightarrow> addr \<Rightarrow> addr \<Rightarrow> addr option option" where
  "hashTypeGetFromHashTable s o' field = do {
     ob \<leftarrow> obj s o';
     case (encoding ob, ptr ob) of
       (REDIS_ENCODING_HT, DictHash kvs) \<Rightarrow> do { r \<leftarrow> find_entry s kvs field; Some (map_option snd r) }
     | _ \<Rightarrow> None
   }"

definition hashTypeGetObject :: "addr \<Rightarrow> addr \<Rightarrow> server \<Rightarrow> (addr option \<times> server) option" where
  "hashTypeGetObject o' field s = do {
     ob \<leftarrow> obj s o';
     if encoding ob = REDIS_ENCODING_ZIPLIST then do {
       (r, s1) \<leftarrow> hashTypeGetFromZiplist o' field s;
       case r of
         None \<Rightarrow> Some (None, s1)
       | Some e \<Rightarrow> do { (a, s2) \<leftarrow> zl_object e s1; Some (Some a, s2) }
     }
     else if encoding ob = REDIS_ENCODING_HT then do {
       r \<leftarrow> hashTypeGetFromHashTable s o' field;
       case r of
         None \<Rightarrow> Some (None, s)
       | Some a \<Rightarrow> do { s1 \<leftarrow> incrRefCount a s; Some (Some a, s1) }
     }
     else None
   }"

definition hashTypeExists :: "addr \<Rightarrow> addr \<Rightarrow> server \<Rightarrow> (bool \<times> server) option" where
  "hashTypeExists o' field s = do {
     ob \<leftarrow> obj s o';
     if encoding ob = REDIS_ENCODING_ZIPLIST then do {
       (r, s1) \<leftarrow> hashTypeGetFromZiplist o' field s;
       Some (r \<noteq> None, s1)
     }
     else if encoding ob = REDIS_ENCODING_HT then do {
       r \<leftarrow> hashTypeGetFromHashTable s o' field;
       Some (r \<noteq> None, s)
     }
     else None
   }"

text \<open>The ziplist after setting a field, and whether the field was there.\<close>

definition hash_zl_set :: "string \<Rightarrow> string \<Rightarrow> zlval list \<Rightarrow> (bool \<times> zlval list) option" where
  "hash_zl_set x y zl =
     (case ziplistFind 1 0 zl x of
        None \<Rightarrow> Some (False, zl @ [zl_entry x] @ [zl_entry y])
      | Some i \<Rightarrow>
          if i + 1 < length zl then Some (True, zl_insert (i + 1) y (zl_delete (i + 1) zl)) else None)"

text \<open>\<^verbatim>\<open>dictReplace\<close> on the dictionary of a hash: the new value is in place before the old one is released.\<close>

definition hash_dictReplace :: "addr \<Rightarrow> addr \<Rightarrow> addr \<Rightarrow> server \<Rightarrow> (bool \<times> server) option" where
  "hash_dictReplace o' field value s = do {
     ob \<leftarrow> obj s o';
     case ptr ob of
       DictHash kvs \<Rightarrow> do {
         r \<leftarrow> find_entry s kvs field;
         case r of
           None \<Rightarrow> do {
             s1 \<leftarrow> upd_obj o' (\<lambda>ob. ob\<lparr>ptr := DictHash ((field, value) # kvs)\<rparr>) s;
             Some (True, s1)
           }
         | Some (f, old) \<Rightarrow> do {
             s1 \<leftarrow> upd_obj o' (\<lambda>ob. ob\<lparr>ptr := DictHash (AList.update f value kvs)\<rparr>) s;
             s2 \<leftarrow> decrRefCount old s1;
             Some (False, s2)
           }
       }
     | _ \<Rightarrow> None
   }"

definition hashTypeSet :: "addr \<Rightarrow> addr \<Rightarrow> addr \<Rightarrow> server \<Rightarrow> (bool \<times> server) option" where
  "hashTypeSet o' field value s = do {
     ob \<leftarrow> obj s o';
     if encoding ob = REDIS_ENCODING_ZIPLIST then
       (case ptr ob of
          Ziplist zl \<Rightarrow> do {
            (f, s1) \<leftarrow> getDecodedObject field s;
            (v, s2) \<leftarrow> getDecodedObject value s1;
            x \<leftarrow> sds_of s2 f;
            y \<leftarrow> sds_of s2 v;
            (update, zl1) \<leftarrow> hash_zl_set x y zl;
            s3 \<leftarrow> upd_obj o' (\<lambda>ob. ob\<lparr>ptr := Ziplist zl1\<rparr>) s2;
            s4 \<leftarrow> decrRefCount f s3;
            s5 \<leftarrow> decrRefCount v s4;
            n \<leftarrow> hashTypeLength s5 o';
            s6 \<leftarrow> (if n > hash_max_ziplist_entries s5 then hashTypeConvert o' REDIS_ENCODING_HT s5 else Some s5);
            Some (update, s6)
          }
        | _ \<Rightarrow> None)
     else if encoding ob = REDIS_ENCODING_HT then do {
       (inserted, s1) \<leftarrow> hash_dictReplace o' field value s;
       s2 \<leftarrow> (if inserted then incrRefCount field s1 else Some s1);
       s3 \<leftarrow> incrRefCount value s2;
       Some (\<not> inserted, s3)
     }
     else None
   }"

definition hashTypeDelete :: "addr \<Rightarrow> addr \<Rightarrow> server \<Rightarrow> (bool \<times> server) option" where
  "hashTypeDelete o' field s = do {
     ob \<leftarrow> obj s o';
     case (encoding ob, ptr ob) of
       (REDIS_ENCODING_ZIPLIST, Ziplist zl) \<Rightarrow> do {
         (f, s1) \<leftarrow> getDecodedObject field s;
         x \<leftarrow> sds_of s1 f;
         (deleted, s2) \<leftarrow>
           (case ziplistFind 1 0 zl x of
              None \<Rightarrow> Some (False, s1)
            | Some i \<Rightarrow> do {
                s2 \<leftarrow> upd_obj o' (\<lambda>ob. ob\<lparr>ptr := Ziplist (zl_delete i (zl_delete i zl))\<rparr>) s1;
                Some (True, s2)
              });
         s3 \<leftarrow> decrRefCount f s2;
         Some (deleted, s3)
       }
     | (REDIS_ENCODING_HT, DictHash kvs) \<Rightarrow> do {
         r \<leftarrow> find_entry s kvs field;
         case r of
           None \<Rightarrow> Some (False, s)
         | Some (f, v) \<Rightarrow> do {
             s1 \<leftarrow> upd_obj o' (\<lambda>ob. ob\<lparr>ptr := DictHash (remove1 (f, v) kvs)\<rparr>) s;
             s2 \<leftarrow> decrRefCount f s1;
             s3 \<leftarrow> decrRefCount v s2;
             Some (True, s3)
           }
       }
     | _ \<Rightarrow> None
   }"

definition hashTypeLookupWriteOrCreate ::
  "client \<Rightarrow> addr \<Rightarrow> server \<Rightarrow> (client \<times> addr option \<times> server) option" where
  "hashTypeLookupWriteOrCreate c key s = do {
     (v, s1) \<leftarrow> lookupKeyWrite (cdb c) key s;
     case v of
       None \<Rightarrow> do {
         let (a, s2) = createHashObject s1;
         s3 \<leftarrow> dbAdd (cdb c) key a s2;
         Some (c, Some a, s3)
       }
     | Some a \<Rightarrow> do {
         ob \<leftarrow> obj s1 a;
         Some (if otype ob \<noteq> REDIS_HASH then (addReply RWrongType c, None, s1) else (c, Some a, s1))
       }
   }"


section \<open>Commands\<close>

text \<open>The end of a command that changed the hash: watchers, notification and the dirty counter.\<close>

definition hash_changed :: "string \<Rightarrow> addr \<Rightarrow> client \<Rightarrow> server \<Rightarrow> server option" where
  "hash_changed ev key c s = do {
     s1 \<leftarrow> signalModifiedKey (cdb c) key s;
     k \<leftarrow> sds_of s1 key;
     let s2 = notifyKeyspaceEvent ev k (cdb c) s1;
     Some (s2\<lparr>dirty := dirty s2 + 1\<rparr>)
   }"

definition hsetCommand :: command where
  "hsetCommand c s = do {
     key \<leftarrow> arg c 1;
     (c1, t, s1) \<leftarrow> hashTypeLookupWriteOrCreate c key s;
     case t of
       None \<Rightarrow> Some (c1, s1)
     | Some o' \<Rightarrow> do {
         s2 \<leftarrow> hashTypeTryConversion o' (take 2 (drop 2 (argv c1))) s1;
         (c2, s3) \<leftarrow> hashTypeTryObjectEncoding o' [2, 3] c1 s2;
         field \<leftarrow> arg c2 2;
         value \<leftarrow> arg c2 3;
         (update, s4) \<leftarrow> hashTypeSet o' field value s3;
         s5 \<leftarrow> hash_changed ''hset'' key c s4;
         Some (addReply (if update then RZero else ROne) c2, s5)
       }
   }"

definition hsetnxCommand :: command where
  "hsetnxCommand c s = do {
     key \<leftarrow> arg c 1;
     (c1, t, s1) \<leftarrow> hashTypeLookupWriteOrCreate c key s;
     case t of
       None \<Rightarrow> Some (c1, s1)
     | Some o' \<Rightarrow> do {
         s2 \<leftarrow> hashTypeTryConversion o' (take 2 (drop 2 (argv c1))) s1;
         field0 \<leftarrow> arg c1 2;
         (exists, s3) \<leftarrow> hashTypeExists o' field0 s2;
         if exists then Some (addReply RZero c1, s3)
         else do {
           (c2, s4) \<leftarrow> hashTypeTryObjectEncoding o' [2, 3] c1 s3;
           field \<leftarrow> arg c2 2;
           value \<leftarrow> arg c2 3;
           (_, s5) \<leftarrow> hashTypeSet o' field value s4;
           s6 \<leftarrow> hash_changed ''hset'' key c s5;
           Some (addReply ROne c2, s6)
         }
       }
   }"

primrec hmset_loop :: "nat list \<Rightarrow> addr \<Rightarrow> command" where
  "hmset_loop [] o' c s = Some (c, s)"
| "hmset_loop (i # is) o' c s = do {
     (c1, s1) \<leftarrow> hashTypeTryObjectEncoding o' [i, i + 1] c s;
     field \<leftarrow> arg c1 i;
     value \<leftarrow> arg c1 (i + 1);
     (_, s2) \<leftarrow> hashTypeSet o' field value s1;
     hmset_loop is o' c1 s2
   }"

definition hmsetCommand :: command where
  "hmsetCommand c s =
     (if length (argv c) mod 2 = 1 then Some (addReply (RError ''wrong number of arguments for HMSET'') c, s)
      else do {
        key \<leftarrow> arg c 1;
        (c1, t, s1) \<leftarrow> hashTypeLookupWriteOrCreate c key s;
        case t of
          None \<Rightarrow> Some (c1, s1)
        | Some o' \<Rightarrow> do {
            s2 \<leftarrow> hashTypeTryConversion o' (drop 2 (argv c1)) s1;
            (c2, s3) \<leftarrow> hmset_loop (filter even [2..<length (argv c)]) o' c1 s2;
            s4 \<leftarrow> hash_changed ''hset'' key c s3;
            Some (addReply ROk c2, s4)
          }
      })"

definition hincrbyCommand :: command where
  "hincrbyCommand c s = do {
     key \<leftarrow> arg c 1;
     field0 \<leftarrow> arg c 2;
     a3 \<leftarrow> arg c 3;
     (c1, r) \<leftarrow> getLongLongFromObjectOrReply c (Some a3) None s;
     case r of
       None \<Rightarrow> Some (c1, s)
     | Some incr \<Rightarrow> do {
         (c2, t, s1) \<leftarrow> hashTypeLookupWriteOrCreate c1 key s;
         case t of
           None \<Rightarrow> Some (c2, s1)
         | Some o' \<Rightarrow> do {
             (current, s2) \<leftarrow> hashTypeGetObject o' field0 s1;
             (c3, v, s3) \<leftarrow>
               (case current of
                  None \<Rightarrow> Some (c2, Some 0, s2)
                | Some a \<Rightarrow> do {
                    (c3, v) \<leftarrow> getLongLongFromObjectOrReply c2 (Some a) (Some ''hash value is not an integer'') s2;
                    s3 \<leftarrow> decrRefCount a s2;
                    Some (c3, v, s3)
                  });
             case v of
               None \<Rightarrow> Some (c3, s3)
             | Some oldvalue \<Rightarrow>
                 if incr_overflows oldvalue incr
                 then Some (addReply (RError ''increment or decrement would overflow'') c3, s3)
                 else do {
                   (new, s4) \<leftarrow> createStringObjectFromLongLong (oldvalue + incr) s3;
                   (c4, s5) \<leftarrow> hashTypeTryObjectEncoding o' [2] c3 s4;
                   field \<leftarrow> arg c4 2;
                   (_, s6) \<leftarrow> hashTypeSet o' field new s5;
                   s7 \<leftarrow> decrRefCount new s6;
                   s8 \<leftarrow> hash_changed ''hincrby'' key c s7;
                   Some (addReply (RInt (oldvalue + incr)) c4, s8)
                 }
           }
       }
   }"

definition addHashFieldToReply :: "addr option \<Rightarrow> addr \<Rightarrow> command" where
  "addHashFieldToReply t field c s =
     (case t of
        None \<Rightarrow> Some (addReply RNullBulk c, s)
      | Some o' \<Rightarrow> do {
          ob \<leftarrow> obj s o';
          if encoding ob = REDIS_ENCODING_ZIPLIST then do {
            (r, s1) \<leftarrow> hashTypeGetFromZiplist o' field s;
            case r of
              None \<Rightarrow> Some (addReply RNullBulk c, s1)
            | Some e \<Rightarrow> do { x \<leftarrow> zl_chars e; Some (addReply (RBulk x) c, s1) }
          }
          else if encoding ob = REDIS_ENCODING_HT then do {
            r \<leftarrow> hashTypeGetFromHashTable s o' field;
            case r of
              None \<Rightarrow> Some (addReply RNullBulk c, s)
            | Some a \<Rightarrow> do { c1 \<leftarrow> addReplyBulk c a s; Some (c1, s) }
          }
          else None
        })"

definition hgetCommand :: command where
  "hgetCommand c s = do {
     key \<leftarrow> arg c 1;
     field \<leftarrow> arg c 2;
     (c1, v, s1) \<leftarrow> lookupKeyReadOrReply c key RNullBulk s;
     case v of
       None \<Rightarrow> Some (c1, s1)
     | Some a \<Rightarrow> do {
         (c2, bad) \<leftarrow> checkType c1 a REDIS_HASH s1;
         if bad then Some (c2, s1) else addHashFieldToReply (Some a) field c2 s1
       }
   }"

primrec hmget_loop :: "addr option \<Rightarrow> addr list \<Rightarrow> command" where
  "hmget_loop t [] c s = Some (c, s)"
| "hmget_loop t (f # fs) c s = do { (c1, s1) \<leftarrow> addHashFieldToReply t f c s; hmget_loop t fs c1 s1 }"

definition hmgetCommand :: command where
  "hmgetCommand c s = do {
     key \<leftarrow> arg c 1;
     (v, s1) \<leftarrow> lookupKeyRead (cdb c) key s;
     wrong \<leftarrow> (case v of None \<Rightarrow> Some False | Some a \<Rightarrow> do { ob \<leftarrow> obj s1 a; Some (otype ob \<noteq> REDIS_HASH) });
     if wrong then Some (addReply RWrongType c, s1)
     else hmget_loop v (drop 2 (argv c)) (addReply (RMulti (length (argv c) - 2)) c) s1
   }"

primrec hdel_loop ::
  "addr list \<Rightarrow> nat \<Rightarrow> addr \<Rightarrow> addr \<Rightarrow> int \<Rightarrow> server \<Rightarrow> (int \<times> bool \<times> server) option" where
  "hdel_loop [] d key o' deleted s = Some (deleted, False, s)"
| "hdel_loop (a # as) d key o' deleted s = do {
     (removed, s1) \<leftarrow> hashTypeDelete o' a s;
     if removed then do {
       n \<leftarrow> hashTypeLength s1 o';
       if n = 0 then do { (_, s2) \<leftarrow> dbDelete d key s1; Some (deleted + 1, True, s2) }
       else hdel_loop as d key o' (deleted + 1) s1
     }
     else hdel_loop as d key o' deleted s1
   }"

definition hdelCommand :: command where
  "hdelCommand c s = do {
     key \<leftarrow> arg c 1;
     (c1, v, s1) \<leftarrow> lookupKeyWriteOrReply c key RZero s;
     case v of
       None \<Rightarrow> Some (c1, s1)
     | Some o' \<Rightarrow> do {
         (c2, bad) \<leftarrow> checkType c1 o' REDIS_HASH s1;
         if bad then Some (c2, s1)
         else do {
           (deleted, keyremoved, s2) \<leftarrow> hdel_loop (drop 2 (argv c)) (cdb c) key o' 0 s1;
           s4 \<leftarrow> (if deleted \<noteq> 0 then do {
                    s3 \<leftarrow> signalModifiedKey (cdb c) key s2;
                    k \<leftarrow> sds_of s3 key;
                    let s4 = notifyKeyspaceEvent ''hdel'' k (cdb c) s3;
                    let s5 = (if keyremoved then notifyKeyspaceEvent ''del'' k (cdb c) s4 else s4);
                    Some (s5\<lparr>dirty := dirty s5 + deleted\<rparr>)
                  } else Some s2);
           Some (addReply (RInt deleted) c2, s4)
         }
       }
   }"

definition hlenCommand :: command where
  "hlenCommand c s = do {
     key \<leftarrow> arg c 1;
     (c1, v, s1) \<leftarrow> lookupKeyReadOrReply c key RZero s;
     case v of
       None \<Rightarrow> Some (c1, s1)
     | Some a \<Rightarrow> do {
         (c2, bad) \<leftarrow> checkType c1 a REDIS_HASH s1;
         if bad then Some (c2, s1)
         else do { n \<leftarrow> hashTypeLength s1 a; Some (addReply (RInt (int n)) c2, s1) }
       }
   }"

definition addHashIteratorCursorToReply :: "bool \<Rightarrow> hashcur \<Rightarrow> client \<Rightarrow> server \<Rightarrow> client option" where
  "addHashIteratorCursorToReply is_key cur c s =
     (case cur of
        HZip _ _ \<Rightarrow> do { e \<leftarrow> hashTypeCurrentFromZiplist is_key cur; x \<leftarrow> zl_chars e; Some (addReply (RBulk x) c) }
      | HObj _ _ \<Rightarrow> do { a \<leftarrow> hashTypeCurrentFromHashTable is_key cur; addReplyBulk c a s })"

primrec hgetall_loop :: "bool \<Rightarrow> bool \<Rightarrow> hashcur list \<Rightarrow> client \<Rightarrow> server \<Rightarrow> client option" where
  "hgetall_loop keys vals [] c s = Some c"
| "hgetall_loop keys vals (cur # curs) c s = do {
     c1 \<leftarrow> (if keys then addHashIteratorCursorToReply True cur c s else Some c);
     c2 \<leftarrow> (if vals then addHashIteratorCursorToReply False cur c1 s else Some c1);
     hgetall_loop keys vals curs c2 s
   }"

definition genericHgetallCommand :: "bool \<Rightarrow> bool \<Rightarrow> command" where
  "genericHgetallCommand keys vals c s = do {
     key \<leftarrow> arg c 1;
     (c1, v, s1) \<leftarrow> lookupKeyReadOrReply c key REmptyMultiBulk s;
     case v of
       None \<Rightarrow> Some (c1, s1)
     | Some o' \<Rightarrow> do {
         (c2, bad) \<leftarrow> checkType c1 o' REDIS_HASH s1;
         if bad then Some (c2, s1)
         else do {
           n \<leftarrow> hashTypeLength s1 o';
           let multiplier = (if keys then 1 else 0) + (if vals then 1 else 0);
           curs \<leftarrow> hash_elements s1 o';
           c3 \<leftarrow> hgetall_loop keys vals curs (addReply (RMulti (n * multiplier)) c2) s1;
           if length curs * multiplier \<noteq> n * multiplier then None else Some (c3, s1)
         }
       }
   }"

definition hkeysCommand :: command where
  "hkeysCommand c s = genericHgetallCommand True False c s"

definition hvalsCommand :: command where
  "hvalsCommand c s = genericHgetallCommand False True c s"

definition hgetallCommand :: command where
  "hgetallCommand c s = genericHgetallCommand True True c s"

definition hexistsCommand :: command where
  "hexistsCommand c s = do {
     key \<leftarrow> arg c 1;
     field \<leftarrow> arg c 2;
     (c1, v, s1) \<leftarrow> lookupKeyReadOrReply c key RZero s;
     case v of
       None \<Rightarrow> Some (c1, s1)
     | Some a \<Rightarrow> do {
         (c2, bad) \<leftarrow> checkType c1 a REDIS_HASH s1;
         if bad then Some (c2, s1)
         else do { (e, s2) \<leftarrow> hashTypeExists a field s1; Some (addReply (if e then ROne else RZero) c2, s2) }
       }
   }"

end
