(* ===== verification/T_List.thy ===== *)
theory T_List
  imports T_Set Ziplist
begin

text \<open>
  Lists (\<^verbatim>\<open>redis-2.8.17/src/t_list.c\<close>) in their two encodings, a ziplist or a linked list of
  objects: the type-level operations, the iterator, conversion, and the commands that do not
  block. A position in a list is an index; the null pointer is \<open>None\<close>, and the index that
  equals the length stands for the end marker of a ziplist.
\<close>

section \<open>The list type\<close>

definition listTypeLength :: "server \<Rightarrow> addr \<Rightarrow> nat option" where
  "listTypeLength s subject = do {
     ob \<leftarrow> obj s subject;
     case (encoding ob, ptr ob) of
       (REDIS_ENCODING_ZIPLIST, Ziplist zl) \<Rightarrow> Some (length zl)
     | (REDIS_ENCODING_LINKEDLIST, Linked as) \<Rightarrow> Some (length as)
     | _ \<Rightarrow> None
   }"

text \<open>\<^verbatim>\<open>ziplistIndex\<close> and \<^verbatim>\<open>listIndex\<close>: negative indices count from the tail.\<close>

definition list_index :: "nat \<Rightarrow> int \<Rightarrow> nat option" where
  "list_index n i =
     (if 0 \<le> i then (if i < int n then Some (nat i) else None)
      else if 0 \<le> int n + i then Some (nat (int n + i)) else None)"

text \<open>\<open>li_tail\<close> is the direction \<^verbatim>\<open>REDIS_TAIL\<close>.\<close>

record listTypeIterator =
  li_subject :: addr
  li_encoding :: rencoding
  li_tail :: bool
  li_pos :: "nat option"

definition listTypeInitIterator :: "server \<Rightarrow> addr \<Rightarrow> int \<Rightarrow> bool \<Rightarrow> listTypeIterator option" where
  "listTypeInitIterator s subject index tail = do {
     ob \<leftarrow> obj s subject;
     n \<leftarrow> listTypeLength s subject;
     Some \<lparr>li_subject = subject, li_encoding = encoding ob, li_tail = tail, li_pos = list_index n index\<rparr>
   }"

definition listTypeNext :: "server \<Rightarrow> listTypeIterator \<Rightarrow> (nat option \<times> listTypeIterator) option" where
  "listTypeNext s li = do {
     ob \<leftarrow> obj s (li_subject li);
     if encoding ob \<noteq> li_encoding li then None
     else do {
       n \<leftarrow> listTypeLength s (li_subject li);
       case li_pos li of
         None \<Rightarrow> Some (None, li)
       | Some p \<Rightarrow>
           Some (Some p,
             li\<lparr>li_pos := (if li_tail li then (if p + 1 < n then Some (p + 1) else None)
                          else if 0 < p then Some (p - 1) else None)\<rparr>)
     }
   }"

definition listTypeGet :: "addr \<Rightarrow> nat \<Rightarrow> server \<Rightarrow> (addr \<times> server) option" where
  "listTypeGet subject p s = do {
     ob \<leftarrow> obj s subject;
     case (encoding ob, ptr ob) of
       (REDIS_ENCODING_ZIPLIST, Ziplist zl) \<Rightarrow> if p < length zl then zl_object (zl ! p) s else None
     | (REDIS_ENCODING_LINKEDLIST, Linked as) \<Rightarrow>
         if p < length as then do { s1 \<leftarrow> incrRefCount (as ! p) s; Some (as ! p, s1) } else None
     | _ \<Rightarrow> None
   }"

text \<open>Comparison with the entry at a position; the end marker of a ziplist equals nothing.\<close>

definition listTypeEqual :: "server \<Rightarrow> addr \<Rightarrow> nat \<Rightarrow> addr \<Rightarrow> bool option" where
  "listTypeEqual s subject p o' = do {
     ob \<leftarrow> obj s subject;
     case (encoding ob, ptr ob) of
       (REDIS_ENCODING_ZIPLIST, Ziplist zl) \<Rightarrow> do {
         oo \<leftarrow> obj s o';
         if encoding oo \<noteq> REDIS_ENCODING_RAW then None
         else do { x \<leftarrow> sds_of s o'; Some (p < length zl \<and> ziplistCompare (zl ! p) x) }
       }
     | (REDIS_ENCODING_LINKEDLIST, Linked as) \<Rightarrow>
         if p < length as then equalStringObjects s o' (as ! p) else None
     | _ \<Rightarrow> None
   }"

definition listTypeInsert :: "addr \<Rightarrow> nat \<Rightarrow> addr \<Rightarrow> bool \<Rightarrow> server \<Rightarrow> server option" where
  "listTypeInsert subject p value tail s = do {
     ob \<leftarrow> obj s subject;
     let q = (if tail then p + 1 else p);
     case (encoding ob, ptr ob) of
       (REDIS_ENCODING_ZIPLIST, Ziplist zl) \<Rightarrow> do {
         (v, s1) \<leftarrow> getDecodedObject value s;
         x \<leftarrow> sds_of s1 v;
         s2 \<leftarrow> upd_obj subject (\<lambda>ob. ob\<lparr>ptr := Ziplist (zl_insert q x zl)\<rparr>) s1;
         decrRefCount v s2
       }
     | (REDIS_ENCODING_LINKEDLIST, Linked as) \<Rightarrow> do {
         s1 \<leftarrow> upd_obj subject (\<lambda>ob. ob\<lparr>ptr := Linked (take q as @ [value] @ drop q as)\<rparr>) s;
         incrRefCount value s1
       }
     | _ \<Rightarrow> None
   }"

text \<open>
  Deleting the entry at a position moves the iterator: forwards it stays at the same position,
  which in a ziplist may now be the end marker.
\<close>

definition listTypeDelete :: "listTypeIterator \<Rightarrow> nat \<Rightarrow> server \<Rightarrow> (listTypeIterator \<times> server) option" where
  "listTypeDelete li p s = do {
     ob \<leftarrow> obj s (li_subject li);
     case (li_encoding li, ptr ob) of
       (REDIS_ENCODING_ZIPLIST, Ziplist zl) \<Rightarrow> do {
         s1 \<leftarrow> upd_obj (li_subject li) (\<lambda>ob. ob\<lparr>ptr := Ziplist (zl_delete p zl)\<rparr>) s;
         Some (li\<lparr>li_pos := (if li_tail li then Some p else if 0 < p then Some (p - 1) else None)\<rparr>, s1)
       }
     | (REDIS_ENCODING_LINKEDLIST, Linked as) \<Rightarrow>
         if p < length as then do {
           s1 \<leftarrow> upd_obj (li_subject li) (\<lambda>ob. ob\<lparr>ptr := Linked (take p as @ drop (p + 1) as)\<rparr>) s;
           s2 \<leftarrow> decrRefCount (as ! p) s1;
           Some (li\<lparr>li_pos := (if li_tail li then (if p + 1 < length as then Some p else None)
                              else if 0 < p then Some (p - 1) else None)\<rparr>, s2)
         }
         else None
     | _ \<Rightarrow> None
   }"

primrec list_convert_loop :: "zlval list \<Rightarrow> addr list \<Rightarrow> server \<Rightarrow> (addr list \<times> server) option" where
  "list_convert_loop [] l s = Some (l, s)"
| "list_convert_loop (e # es) l s = do { (a, s1) \<leftarrow> zl_object e s; list_convert_loop es (l @ [a]) s1 }"

text \<open>\<^verbatim>\<open>listTypeConvert\<close> to a linked list; it is only called on ziplists.\<close>

definition listTypeConvert :: "addr \<Rightarrow> server \<Rightarrow> server option" where
  "listTypeConvert subject s = do {
     ob \<leftarrow> obj s subject;
     if otype ob \<noteq> REDIS_LIST then None
     else (case (encoding ob, ptr ob) of
             (REDIS_ENCODING_ZIPLIST, Ziplist zl) \<Rightarrow> do {
               (l, s1) \<leftarrow> list_convert_loop zl [] s;
               upd_obj subject (\<lambda>ob. ob\<lparr>encoding := REDIS_ENCODING_LINKEDLIST, ptr := Linked l\<rparr>) s1
             }
           | _ \<Rightarrow> None)
   }"

definition listTypeTryConversion :: "addr \<Rightarrow> addr \<Rightarrow> server \<Rightarrow> server option" where
  "listTypeTryConversion subject value s = do {
     ob \<leftarrow> obj s subject;
     if encoding ob \<noteq> REDIS_ENCODING_ZIPLIST then Some s
     else do {
       ov \<leftarrow> obj s value;
       if encoding ov = REDIS_ENCODING_RAW then do {
         x \<leftarrow> sds_of s value;
         if length x > list_max_ziplist_value s then listTypeConvert subject s else Some s
       }
       else Some s
     }
   }"

text \<open>\<open>head\<close> is \<^verbatim>\<open>where == REDIS_HEAD\<close>.\<close>

definition listTypePush :: "addr \<Rightarrow> addr \<Rightarrow> bool \<Rightarrow> server \<Rightarrow> server option" where
  "listTypePush subject value head s = do {
     s1 \<leftarrow> listTypeTryConversion subject value s;
     ob \<leftarrow> obj s1 subject;
     s2 \<leftarrow> (case (encoding ob, ptr ob) of
              (REDIS_ENCODING_ZIPLIST, Ziplist zl) \<Rightarrow>
                if length zl \<ge> list_max_ziplist_entries s1 then listTypeConvert subject s1 else Some s1
            | _ \<Rightarrow> Some s1);
     ob2 \<leftarrow> obj s2 subject;
     case (encoding ob2, ptr ob2) of
       (REDIS_ENCODING_ZIPLIST, Ziplist zl) \<Rightarrow> do {
         (v, s3) \<leftarrow> getDecodedObject value s2;
         x \<leftarrow> sds_of s3 v;
         s4 \<leftarrow> upd_obj subject
                (\<lambda>ob. ob\<lparr>ptr := Ziplist (zl_insert (if head then 0 else length zl) x zl)\<rparr>) s3;
         decrRefCount v s4
       }
     | (REDIS_ENCODING_LINKEDLIST, Linked as) \<Rightarrow> do {
         s3 \<leftarrow> upd_obj subject (\<lambda>ob. ob\<lparr>ptr := Linked (if head then value # as else as @ [value])\<rparr>) s2;
         incrRefCount value s3
       }
     | _ \<Rightarrow> None
   }"

definition listTypePop :: "addr \<Rightarrow> bool \<Rightarrow> server \<Rightarrow> (addr option \<times> server) option" where
  "listTypePop subject head s = do {
     ob \<leftarrow> obj s subject;
     case (encoding ob, ptr ob) of
       (REDIS_ENCODING_ZIPLIST, Ziplist zl) \<Rightarrow>
         if zl = [] then Some (None, s)
         else do {
           let p = (if head then 0 else length zl - 1);
           (a, s1) \<leftarrow> zl_object (zl ! p) s;
           s2 \<leftarrow> upd_obj subject (\<lambda>ob. ob\<lparr>ptr := Ziplist (zl_delete p zl)\<rparr>) s1;
           Some (Some a, s2)
         }
     | (REDIS_ENCODING_LINKEDLIST, Linked as) \<Rightarrow>
         if as = [] then Some (None, s)
         else do {
           let a = (if head then hd as else last as);
           s1 \<leftarrow> incrRefCount a s;
           s2 \<leftarrow> upd_obj subject (\<lambda>ob. ob\<lparr>ptr := Linked (if head then tl as else butlast as)\<rparr>) s1;
           s3 \<leftarrow> decrRefCount a s2;
           Some (Some a, s3)
         }
     | _ \<Rightarrow> None
   }"


section \<open>Commands\<close>

definition list_event :: "string \<Rightarrow> addr \<Rightarrow> nat \<Rightarrow> server \<Rightarrow> server option" where
  "list_event ev key d s = do { k \<leftarrow> sds_of s key; Some (notifyKeyspaceEvent ev k d s) }"

primrec push_loop ::
  "nat list \<Rightarrow> bool \<Rightarrow> addr option \<Rightarrow> client \<Rightarrow> server \<Rightarrow> (addr option \<times> client \<times> server) option" where
  "push_loop [] head lobj c s = Some (lobj, c, s)"
| "push_loop (j # js) head lobj c s = do {
     a \<leftarrow> arg c j;
     (v, s1) \<leftarrow> tryObjectEncoding a s;
     let c1 = set_arg j v c;
     (l, s2) \<leftarrow>
       (case lobj of
          Some l \<Rightarrow> Some (l, s1)
        | None \<Rightarrow> do {
            key \<leftarrow> arg c1 1;
            let (l, s2) = createZiplistObject s1;
            s3 \<leftarrow> dbAdd (cdb c) key l s2;
            Some (l, s3)
          });
     s3 \<leftarrow> listTypePush l v head s2;
     push_loop js head (Some l) c1 s3
   }"

definition pushGenericCommand :: "bool \<Rightarrow> command" where
  "pushGenericCommand head c s = do {
     key \<leftarrow> arg c 1;
     (v, s1) \<leftarrow> lookupKeyWrite (cdb c) key s;
     wrong \<leftarrow> (case v of None \<Rightarrow> Some False | Some a \<Rightarrow> do { ob \<leftarrow> obj s1 a; Some (otype ob \<noteq> REDIS_LIST) });
     if wrong then Some (addReply RWrongType c, s1)
     else do {
       (lobj, c1, s2) \<leftarrow> push_loop [2..<length (argv c)] head v c s1;
       n \<leftarrow> (case lobj of None \<Rightarrow> Some 0 | Some l \<Rightarrow> listTypeLength s2 l);
       let pushed = length (argv c) - 2;
       s4 \<leftarrow> (if pushed > 0 then do {
                s3 \<leftarrow> signalModifiedKey (cdb c) key s2;
                list_event (if head then ''lpush'' else ''rpush'') key (cdb c) s3
              } else Some s2);
       Some (addReply (RInt (int n)) c1, s4\<lparr>dirty := dirty s4 + int pushed\<rparr>)
     }
   }"

definition lpushCommand :: command where
  "lpushCommand c s = pushGenericCommand True c s"

definition rpushCommand :: command where
  "rpushCommand c s = pushGenericCommand False c s"

text \<open>
  The search for the pivot of LINSERT: at most one round per position and one for the end,
  which the bound allows for.
\<close>

primrec seek_pivot :: "nat \<Rightarrow> server \<Rightarrow> listTypeIterator \<Rightarrow> addr \<Rightarrow> nat option option" where
  "seek_pivot 0 s li refval = None"
| "seek_pivot (Suc n) s li refval = do {
     (e, li1) \<leftarrow> listTypeNext s li;
     case e of
       None \<Rightarrow> Some None
     | Some p \<Rightarrow> do {
         q \<leftarrow> listTypeEqual s (li_subject li) p refval;
         if q then Some (Some p) else seek_pivot n s li1 refval
       }
   }"

definition linsert_at :: "addr \<Rightarrow> addr \<Rightarrow> addr \<Rightarrow> bool \<Rightarrow> server \<Rightarrow> (bool \<times> server) option" where
  "linsert_at subject refval val head s = do {
     s1 \<leftarrow> listTypeTryConversion subject val s;
     li \<leftarrow> listTypeInitIterator s1 subject 0 True;
     n \<leftarrow> listTypeLength s1 subject;
     r \<leftarrow> seek_pivot (Suc n) s1 li refval;
     case r of
       None \<Rightarrow> Some (False, s1)
     | Some p \<Rightarrow> do {
         s2 \<leftarrow> listTypeInsert subject p val (\<not> head) s1;
         ob \<leftarrow> obj s2 subject;
         s3 \<leftarrow> (case (encoding ob, ptr ob) of
                  (REDIS_ENCODING_ZIPLIST, Ziplist zl) \<Rightarrow>
                    if length zl > list_max_ziplist_entries s2 then listTypeConvert subject s2 else Some s2
                | _ \<Rightarrow> Some s2);
         Some (True, s3)
       }
   }"

definition pushxGenericCommand :: "addr option \<Rightarrow> addr \<Rightarrow> bool \<Rightarrow> command" where
  "pushxGenericCommand refval val head c s = do {
     key \<leftarrow> arg c 1;
     (c1, v, s1) \<leftarrow> lookupKeyReadOrReply c key RZero s;
     case v of
       None \<Rightarrow> Some (c1, s1)
     | Some subject \<Rightarrow> do {
         (c2, bad) \<leftarrow> checkType c1 subject REDIS_LIST s1;
         if bad then Some (c2, s1)
         else do {
           (inserted, s4) \<leftarrow>
             (case refval of
                Some r \<Rightarrow> do {
                  (inserted, s2) \<leftarrow> linsert_at subject r val head s1;
                  if inserted then do {
                    s3 \<leftarrow> signalModifiedKey (cdb c) key s2;
                    s4 \<leftarrow> list_event ''linsert'' key (cdb c) s3;
                    Some (True, s4\<lparr>dirty := dirty s4 + 1\<rparr>)
                  }
                  else Some (False, s2)
                }
              | None \<Rightarrow> do {
                  s2 \<leftarrow> listTypePush subject val head s1;
                  s3 \<leftarrow> signalModifiedKey (cdb c) key s2;
                  s4 \<leftarrow> list_event (if head then ''lpush'' else ''rpush'') key (cdb c) s3;
                  Some (True, s4\<lparr>dirty := dirty s4 + 1\<rparr>)
                });
           if inserted then do { n \<leftarrow> listTypeLength s4 subject; Some (addReply (RInt (int n)) c2, s4) }
           else Some (addReply (RInt (- 1)) c2, s4)
         }
       }
   }"

definition lpushxCommand :: command where
  "lpushxCommand c s = do {
     a \<leftarrow> arg c 2;
     (v, s1) \<leftarrow> tryObjectEncoding a s;
     pushxGenericCommand None v True (set_arg 2 v c) s1
   }"

definition rpushxCommand :: command where
  "rpushxCommand c s = do {
     a \<leftarrow> arg c 2;
     (v, s1) \<leftarrow> tryObjectEncoding a s;
     pushxGenericCommand None v False (set_arg 2 v c) s1
   }"

definition linsertCommand :: command where
  "linsertCommand c s = do {
     a2 \<leftarrow> arg c 2;
     a3 \<leftarrow> arg c 3;
     a4 \<leftarrow> arg c 4;
     (v, s1) \<leftarrow> tryObjectEncoding a4 s;
     wh \<leftarrow> sds_of s1 a2;
     if strcaseeq wh ''after'' then pushxGenericCommand (Some a3) v False (set_arg 4 v c) s1
     else if strcaseeq wh ''before'' then pushxGenericCommand (Some a3) v True (set_arg 4 v c) s1
     else Some (addReply RSyntax (set_arg 4 v c), s1)
   }"

definition llenCommand :: command where
  "llenCommand c s = do {
     key \<leftarrow> arg c 1;
     (c1, v, s1) \<leftarrow> lookupKeyReadOrReply c key RZero s;
     case v of
       None \<Rightarrow> Some (c1, s1)
     | Some a \<Rightarrow> do {
         (c2, bad) \<leftarrow> checkType c1 a REDIS_LIST s1;
         if bad then Some (c2, s1)
         else do { n \<leftarrow> listTypeLength s1 a; Some (addReply (RInt (int n)) c2, s1) }
       }
   }"

definition list_at :: "server \<Rightarrow> addr \<Rightarrow> int \<Rightarrow> nat option option" where
  "list_at s a index = do { n \<leftarrow> listTypeLength s a; Some (list_index n index) }"

definition lindexCommand :: command where
  "lindexCommand c s = do {
     key \<leftarrow> arg c 1;
     a2 \<leftarrow> arg c 2;
     (c1, v, s1) \<leftarrow> lookupKeyReadOrReply c key RNullBulk s;
     case v of
       None \<Rightarrow> Some (c1, s1)
     | Some a \<Rightarrow> do {
         (c2, bad) \<leftarrow> checkType c1 a REDIS_LIST s1;
         if bad then Some (c2, s1)
         else do {
           (c3, r) \<leftarrow> getLongFromObjectOrReply c2 (Some a2) None s1;
           case r of
             None \<Rightarrow> Some (c3, s1)
           | Some index \<Rightarrow> do {
               ob \<leftarrow> obj s1 a;
               q \<leftarrow> list_at s1 a index;
               case q of
                 None \<Rightarrow> Some (addReply RNullBulk c3, s1)
               | Some p \<Rightarrow>
                   (case (encoding ob, ptr ob) of
                      (REDIS_ENCODING_ZIPLIST, Ziplist zl) \<Rightarrow> do {
                        (b, s2) \<leftarrow> zl_object (zl ! p) s1;
                        c4 \<leftarrow> addReplyBulk c3 b s2;
                        s3 \<leftarrow> decrRefCount b s2;
                        Some (c4, s3)
                      }
                    | (REDIS_ENCODING_LINKEDLIST, Linked as) \<Rightarrow> do {
                        c4 \<leftarrow> addReplyBulk c3 (as ! p) s1;
                        Some (c4, s1)
                      }
                    | _ \<Rightarrow> None)
             }
         }
       }
   }"

text \<open>Replacing the entry at a position, as LSET does: a linked list gives up the old object first.\<close>

definition lset_at :: "addr \<Rightarrow> nat \<Rightarrow> addr \<Rightarrow> server \<Rightarrow> server option" where
  "lset_at a p value s = do {
     ob \<leftarrow> obj s a;
     case (encoding ob, ptr ob) of
       (REDIS_ENCODING_ZIPLIST, Ziplist zl) \<Rightarrow> do {
         (v, s1) \<leftarrow> getDecodedObject value s;
         x \<leftarrow> sds_of s1 v;
         s2 \<leftarrow> upd_obj a (\<lambda>ob. ob\<lparr>ptr := Ziplist (zl_insert p x (zl_delete p zl))\<rparr>) s1;
         decrRefCount v s2
       }
     | (REDIS_ENCODING_LINKEDLIST, Linked as) \<Rightarrow> do {
         s1 \<leftarrow> decrRefCount (as ! p) s;
         s2 \<leftarrow> upd_obj a (\<lambda>ob. ob\<lparr>ptr := Linked (as[p := value])\<rparr>) s1;
         incrRefCount value s2
       }
     | _ \<Rightarrow> None
   }"

definition lsetCommand :: command where
  "lsetCommand c s = do {
     key \<leftarrow> arg c 1;
     a2 \<leftarrow> arg c 2;
     a3 \<leftarrow> arg c 3;
     (c1, v, s1) \<leftarrow> lookupKeyWriteOrReply c key RNoKey s;
     case v of
       None \<Rightarrow> Some (c1, s1)
     | Some a \<Rightarrow> do {
         (c2, bad) \<leftarrow> checkType c1 a REDIS_LIST s1;
         if bad then Some (c2, s1)
         else do {
           (value, s2) \<leftarrow> tryObjectEncoding a3 s1;
           (c3, r) \<leftarrow> getLongFromObjectOrReply (set_arg 3 value c2) (Some a2) None s2;
           case r of
             None \<Rightarrow> Some (c3, s2)
           | Some index \<Rightarrow> do {
               s3 \<leftarrow> listTypeTryConversion a value s2;
               q \<leftarrow> list_at s3 a index;
               case q of
                 None \<Rightarrow> Some (addReply ROutOfRange c3, s3)
               | Some p \<Rightarrow> do {
                   s4 \<leftarrow> lset_at a p value s3;
                   s5 \<leftarrow> signalModifiedKey (cdb c) key s4;
                   s6 \<leftarrow> list_event ''lset'' key (cdb c) s5;
                   Some (addReply ROk c3, s6\<lparr>dirty := dirty s6 + 1\<rparr>)
                 }
             }
         }
       }
   }"

definition popGenericCommand :: "bool \<Rightarrow> command" where
  "popGenericCommand head c s = do {
     key \<leftarrow> arg c 1;
     (c1, v, s1) \<leftarrow> lookupKeyWriteOrReply c key RNullBulk s;
     case v of
       None \<Rightarrow> Some (c1, s1)
     | Some a \<Rightarrow> do {
         (c2, bad) \<leftarrow> checkType c1 a REDIS_LIST s1;
         if bad then Some (c2, s1)
         else do {
           (r, s2) \<leftarrow> listTypePop a head s1;
           case r of
             None \<Rightarrow> Some (addReply RNullBulk c2, s2)
           | Some value \<Rightarrow> do {
               c3 \<leftarrow> addReplyBulk c2 value s2;
               s3 \<leftarrow> decrRefCount value s2;
               s4 \<leftarrow> list_event (if head then ''lpop'' else ''rpop'') key (cdb c) s3;
               n \<leftarrow> listTypeLength s4 a;
               s6 \<leftarrow> (if n = 0 then do {
                        s5 \<leftarrow> list_event ''del'' key (cdb c) s4;
                        (_, s6) \<leftarrow> dbDelete (cdb c) key s5;
                        Some s6
                      } else Some s4);
               s7 \<leftarrow> signalModifiedKey (cdb c) key s6;
               Some (c3, s7\<lparr>dirty := dirty s7 + 1\<rparr>)
             }
         }
       }
   }"

definition lpopCommand :: command where
  "lpopCommand c s = popGenericCommand True c s"

definition rpopCommand :: command where
  "rpopCommand c s = popGenericCommand False c s"

text \<open>The range of LRANGE and LTRIM: \<open>None\<close> when it is empty, otherwise its first and last index.\<close>

definition list_range :: "nat \<Rightarrow> int \<Rightarrow> int \<Rightarrow> (nat \<times> nat) option" where
  "list_range llen start0 end0 =
     (let n = int llen;
          start1 = (if start0 < 0 then n + start0 else start0);
          end1 = (if end0 < 0 then n + end0 else end0);
          start = (if start1 < 0 then 0 else start1) in
      if start > end1 \<or> start \<ge> n then None
      else Some (nat start, nat (if end1 \<ge> n then n - 1 else end1)))"

definition two_longs :: "client \<Rightarrow> addr \<Rightarrow> addr \<Rightarrow> server \<Rightarrow> (client \<times> (int \<times> int) option) option" where
  "two_longs c a b s = do {
     (c1, r1) \<leftarrow> getLongFromObjectOrReply c (Some a) None s;
     case r1 of
       None \<Rightarrow> Some (c1, None)
     | Some x \<Rightarrow> do {
         (c2, r2) \<leftarrow> getLongFromObjectOrReply c1 (Some b) None s;
         Some (c2, map_option (\<lambda>y. (x, y)) r2)
       }
   }"

primrec reply_zl :: "zlval list \<Rightarrow> client \<Rightarrow> client option" where
  "reply_zl [] c = Some c"
| "reply_zl (e # es) c = do { x \<leftarrow> zl_chars e; reply_zl es (addReply (RBulk x) c) }"

primrec reply_objs :: "addr list \<Rightarrow> server \<Rightarrow> client \<Rightarrow> client option" where
  "reply_objs [] s c = Some c"
| "reply_objs (a # as) s c = do { c1 \<leftarrow> addReplyBulk c a s; reply_objs as s c1 }"

definition lrangeCommand :: command where
  "lrangeCommand c s = do {
     key \<leftarrow> arg c 1;
     a2 \<leftarrow> arg c 2;
     a3 \<leftarrow> arg c 3;
     (c1, r) \<leftarrow> two_longs c a2 a3 s;
     case r of
       None \<Rightarrow> Some (c1, s)
     | Some (start, end0) \<Rightarrow> do {
         (c2, v, s1) \<leftarrow> lookupKeyReadOrReply c1 key REmptyMultiBulk s;
         case v of
           None \<Rightarrow> Some (c2, s1)
         | Some a \<Rightarrow> do {
             (c3, bad) \<leftarrow> checkType c2 a REDIS_LIST s1;
             if bad then Some (c3, s1)
             else do {
               llen \<leftarrow> listTypeLength s1 a;
               ob \<leftarrow> obj s1 a;
               case list_range llen start end0 of
                 None \<Rightarrow> Some (addReply REmptyMultiBulk c3, s1)
               | Some (i, j) \<Rightarrow> do {
                   let rangelen = j - i + 1;
                   let c4 = addReply (RMulti rangelen) c3;
                   c5 \<leftarrow> (case (encoding ob, ptr ob) of
                            (REDIS_ENCODING_ZIPLIST, Ziplist zl) \<Rightarrow> reply_zl (take rangelen (drop i zl)) c4
                          | (REDIS_ENCODING_LINKEDLIST, Linked as) \<Rightarrow> reply_objs (take rangelen (drop i as)) s1 c4
                          | _ \<Rightarrow> None);
                   Some (c5, s1)
                 }
             }
           }
       }
   }"

primrec drop_first :: "nat \<Rightarrow> addr \<Rightarrow> server \<Rightarrow> server option" where
  "drop_first 0 a s = Some s"
| "drop_first (Suc n) a s = do {
     ob \<leftarrow> obj s a;
     case ptr ob of
       Linked (x # xs) \<Rightarrow> do {
         s1 \<leftarrow> upd_obj a (\<lambda>ob. ob\<lparr>ptr := Linked xs\<rparr>) s;
         s2 \<leftarrow> decrRefCount x s1;
         drop_first n a s2
       }
     | _ \<Rightarrow> None
   }"

primrec drop_last :: "nat \<Rightarrow> addr \<Rightarrow> server \<Rightarrow> server option" where
  "drop_last 0 a s = Some s"
| "drop_last (Suc n) a s = do {
     ob \<leftarrow> obj s a;
     case ptr ob of
       Linked (x # xs) \<Rightarrow> do {
         s1 \<leftarrow> upd_obj a (\<lambda>ob. ob\<lparr>ptr := Linked (butlast (x # xs))\<rparr>) s;
         s2 \<leftarrow> decrRefCount (last (x # xs)) s1;
         drop_last n a s2
       }
     | _ \<Rightarrow> None
   }"

definition ltrim_at :: "addr \<Rightarrow> nat \<Rightarrow> nat \<Rightarrow> server \<Rightarrow> server option" where
  "ltrim_at a ltrim rtrim s = do {
     ob \<leftarrow> obj s a;
     case (encoding ob, ptr ob) of
       (REDIS_ENCODING_ZIPLIST, Ziplist zl) \<Rightarrow> do {
         let zl1 = drop ltrim zl;
         upd_obj a (\<lambda>ob. ob\<lparr>ptr := Ziplist (take (length zl1 - rtrim) zl1)\<rparr>) s
       }
     | (REDIS_ENCODING_LINKEDLIST, Linked as) \<Rightarrow> do { s1 \<leftarrow> drop_first ltrim a s; drop_last rtrim a s1 }
     | _ \<Rightarrow> None
   }"

definition ltrimCommand :: command where
  "ltrimCommand c s = do {
     key \<leftarrow> arg c 1;
     a2 \<leftarrow> arg c 2;
     a3 \<leftarrow> arg c 3;
     (c1, r) \<leftarrow> two_longs c a2 a3 s;
     case r of
       None \<Rightarrow> Some (c1, s)
     | Some (start, end0) \<Rightarrow> do {
         (c2, v, s1) \<leftarrow> lookupKeyWriteOrReply c1 key ROk s;
         case v of
           None \<Rightarrow> Some (c2, s1)
         | Some a \<Rightarrow> do {
             (c3, bad) \<leftarrow> checkType c2 a REDIS_LIST s1;
             if bad then Some (c3, s1)
             else do {
               llen \<leftarrow> listTypeLength s1 a;
               let (ltrim, rtrim) = (case list_range llen start end0 of
                                       None \<Rightarrow> (llen, 0) | Some (i, j) \<Rightarrow> (i, llen - j - 1));
               s2 \<leftarrow> ltrim_at a ltrim rtrim s1;
               s3 \<leftarrow> list_event ''ltrim'' key (cdb c) s2;
               n \<leftarrow> listTypeLength s3 a;
               s5 \<leftarrow> (if n = 0 then do {
                        (_, s4) \<leftarrow> dbDelete (cdb c) key s3;
                        list_event ''del'' key (cdb c) s4
                      } else Some s3);
               s6 \<leftarrow> signalModifiedKey (cdb c) key s5;
               Some (addReply ROk c3, s6\<lparr>dirty := dirty s6 + 1\<rparr>)
             }
           }
       }
   }"

text \<open>
  The loop of LREM. \<open>toremove\<close> is 0 for all occurrences. A round deletes an entry or moves past
  it, and one more may see the end marker of a ziplist, so two more rounds than entries are
  enough.
\<close>

primrec lrem_loop :: "nat \<Rightarrow> listTypeIterator \<Rightarrow> addr \<Rightarrow> int \<Rightarrow> int \<Rightarrow> server \<Rightarrow> (int \<times> server) option" where
  "lrem_loop 0 li o' toremove removed s = None"
| "lrem_loop (Suc n) li o' toremove removed s = do {
     (e, li1) \<leftarrow> listTypeNext s li;
     case e of
       None \<Rightarrow> Some (removed, s)
     | Some p \<Rightarrow> do {
         q \<leftarrow> listTypeEqual s (li_subject li) p o';
         if q then do {
           (li2, s1) \<leftarrow> listTypeDelete li1 p s;
           let s2 = s1\<lparr>dirty := dirty s1 + 1\<rparr>;
           if toremove \<noteq> 0 \<and> removed + 1 = toremove then Some (removed + 1, s2)
           else lrem_loop n li2 o' toremove (removed + 1) s2
         }
         else lrem_loop n li1 o' toremove removed s
       }
   }"

definition lrem_at :: "addr \<Rightarrow> addr \<Rightarrow> int \<Rightarrow> server \<Rightarrow> (int \<times> server) option" where
  "lrem_at subject o' count s = do {
     ob \<leftarrow> obj s subject;
     (raw, s1) \<leftarrow> (if encoding ob = REDIS_ENCODING_ZIPLIST then getDecodedObject o' s else Some (o', s));
     let toremove = (if count < 0 then wrap64 (- count) else count);
     li \<leftarrow> listTypeInitIterator s1 subject (if count < 0 then - 1 else 0) (\<not> count < 0);
     n \<leftarrow> listTypeLength s1 subject;
     (removed, s2) \<leftarrow> lrem_loop (n + 2) li raw toremove 0 s1;
     ob2 \<leftarrow> obj s2 subject;
     s3 \<leftarrow> (if encoding ob2 = REDIS_ENCODING_ZIPLIST then decrRefCount raw s2 else Some s2);
     Some (removed, s3)
   }"

definition lremCommand :: command where
  "lremCommand c s = do {
     key \<leftarrow> arg c 1;
     a2 \<leftarrow> arg c 2;
     a3 \<leftarrow> arg c 3;
     (o', s1) \<leftarrow> tryObjectEncoding a3 s;
     (c1, r) \<leftarrow> getLongFromObjectOrReply (set_arg 3 o' c) (Some a2) None s1;
     case r of
       None \<Rightarrow> Some (c1, s1)
     | Some count \<Rightarrow> do {
         (c2, v, s2) \<leftarrow> lookupKeyWriteOrReply c1 key RZero s1;
         case v of
           None \<Rightarrow> Some (c2, s2)
         | Some subject \<Rightarrow> do {
             (c3, bad) \<leftarrow> checkType c2 subject REDIS_LIST s2;
             if bad then Some (c3, s2)
             else do {
               (removed, s3) \<leftarrow> lrem_at subject o' count s2;
               n \<leftarrow> listTypeLength s3 subject;
               s4 \<leftarrow> (if n = 0 then do { (_, s4) \<leftarrow> dbDelete (cdb c) key s3; Some s4 } else Some s3);
               s5 \<leftarrow> (if removed \<noteq> 0 then signalModifiedKey (cdb c) key s4 else Some s4);
               Some (addReply (RInt removed) c3, s5)
             }
           }
       }
   }"

definition rpoplpushHandlePush :: "addr \<Rightarrow> addr option \<Rightarrow> addr \<Rightarrow> command" where
  "rpoplpushHandlePush dstkey dstobj value c s = do {
     (l, s1) \<leftarrow>
       (case dstobj of
          Some l \<Rightarrow> Some (l, s)
        | None \<Rightarrow> do {
            let (l, s1) = createZiplistObject s;
            s2 \<leftarrow> dbAdd (cdb c) dstkey l s1;
            Some (l, s2)
          });
     s2 \<leftarrow> signalModifiedKey (cdb c) dstkey s1;
     s3 \<leftarrow> listTypePush l value True s2;
     s4 \<leftarrow> list_event ''lpush'' dstkey (cdb c) s3;
     c1 \<leftarrow> addReplyBulk c value s4;
     Some (c1, s4)
   }"

definition rpoplpushCommand :: command where
  "rpoplpushCommand c s = do {
     src \<leftarrow> arg c 1;
     dst \<leftarrow> arg c 2;
     (c1, v, s1) \<leftarrow> lookupKeyWriteOrReply c src RNullBulk s;
     case v of
       None \<Rightarrow> Some (c1, s1)
     | Some sobj \<Rightarrow> do {
         (c2, bad) \<leftarrow> checkType c1 sobj REDIS_LIST s1;
         if bad then Some (c2, s1)
         else do {
           n \<leftarrow> listTypeLength s1 sobj;
           if n = 0 then Some (addReply RNullBulk c2, s1)
           else do {
             (dobj, s2) \<leftarrow> lookupKeyWrite (cdb c) dst s1;
             (c3, bad') \<leftarrow> (case dobj of None \<Rightarrow> Some (c2, False) | Some d \<Rightarrow> checkType c2 d REDIS_LIST s2);
             if bad' then Some (c3, s2)
             else do {
               (r, s3) \<leftarrow> listTypePop sobj False s2;
               value \<leftarrow> r;
               s4 \<leftarrow> incrRefCount src s3;
               (c4, s5) \<leftarrow> rpoplpushHandlePush dst dobj value c3 s4;
               s6 \<leftarrow> decrRefCount value s5;
               s7 \<leftarrow> list_event ''rpop'' src (cdb c) s6;
               m \<leftarrow> listTypeLength s7 sobj;
               s9 \<leftarrow> (if m = 0 then do {
                        (_, s8) \<leftarrow> dbDelete (cdb c) src s7;
                        list_event ''del'' src (cdb c) s8
                      } else Some s7);
               s10 \<leftarrow> signalModifiedKey (cdb c) src s9;
               s11 \<leftarrow> decrRefCount src s10;
               Some (c4, s11\<lparr>dirty := dirty s11 + 1\<rparr>)
             }
           }
         }
       }
   }"

end
