(* ===== verification/Ownership.thy ===== *)
theory Ownership
  imports Db "HOL-Library.Multiset"
begin

text \<open>
  Memory safety of the reference-counted heap. \<open>srv_ok R s\<close> says that the reference count of
  every object covers the references the databases and the containers hold, one reference
  for each shared integer, and the references \<open>R\<close> that the running code holds besides.
  Each operation of the object and database layers comes with a rule that says how it moves
  references in and out of \<open>R\<close>; a function whose calls follow the rules neither faults nor
  leaves a dangling reference.
\<close>

section \<open>References held by the state\<close>

definition elems :: "robj \<Rightarrow> addr list" where
  "elems ob = (case owned ob of Some es \<Rightarrow> es | None \<Rightarrow> [])"

definition elems_at :: "(addr \<rightharpoonup> robj) \<Rightarrow> addr \<Rightarrow> addr multiset" where
  "elems_at h a = (case h a of None \<Rightarrow> {#} | Some ob \<Rightarrow> mset (elems ob))"

definition elem_refs :: "(addr \<rightharpoonup> robj) \<Rightarrow> addr \<Rightarrow> addr multiset" where
  "elem_refs h n = (\<Sum>a<n. elems_at h a)"

definition dict_refs :: "redisDb \<Rightarrow> addr multiset" where
  "dict_refs x = mset (map snd (dict x))"

definition db_refs :: "redisDb list \<Rightarrow> addr multiset" where
  "db_refs xs = (\<Sum>x\<leftarrow>xs. dict_refs x)"

definition state_refs :: "server \<Rightarrow> addr multiset" where
  "state_refs s = db_refs (db s) + elem_refs (heap s) (brk s) + mset (map snd (list_ready s))"

definition rc :: "(addr \<rightharpoonup> robj) \<Rightarrow> addr \<Rightarrow> nat" where
  "rc h a = (case h a of None \<Rightarrow> 0 | Some ob \<Rightarrow> nat (refcount ob))"

definition shared_ref :: "addr \<Rightarrow> nat" where
  "shared_ref a = (if a < REDIS_SHARED_INTEGERS then 1 else 0)"

definition obj_ok :: "robj \<Rightarrow> bool" where
  "obj_ok ob \<longleftrightarrow> owned ob \<noteq> None \<and> 0 \<le> refcount ob \<and> (otype ob = REDIS_STRING \<longrightarrow> str_ok ob) \<and>
     (\<forall>i. ptr ob = Is i \<longrightarrow> intset_inv i)"

definition db_ok :: "redisDb \<Rightarrow> bool" where
  "db_ok x \<longleftrightarrow> distinct (map fst (dict x)) \<and> distinct (map fst (expires x)) \<and>
     fst ` set (expires x) \<subseteq> fst ` set (dict x)"

definition shared_at :: "(addr \<rightharpoonup> robj) \<Rightarrow> addr \<Rightarrow> bool" where
  "shared_at h a \<longleftrightarrow> (\<exists>ob. h a = Some ob \<and> otype ob = REDIS_STRING \<and>
     encoding ob = REDIS_ENCODING_INT \<and> ptr ob = Long (int a))"

definition srv_ok :: "addr multiset \<Rightarrow> server \<Rightarrow> bool" where
  "srv_ok R s \<longleftrightarrow>
     (\<forall>a. brk s \<le> a \<longrightarrow> heap s a = None) \<and> REDIS_SHARED_INTEGERS \<le> brk s \<and>
     (\<forall>a < REDIS_SHARED_INTEGERS. shared_at (heap s) a) \<and>
     (\<forall>a ob. heap s a = Some ob \<longrightarrow> obj_ok ob) \<and>
     (\<forall>a e oe. e \<in># elems_at (heap s) a \<longrightarrow> heap s e = Some oe \<longrightarrow> otype oe = REDIS_STRING) \<and>
     (\<forall>x \<in> set (db s). db_ok x) \<and>
     (\<forall>a. count (R + state_refs s) a + shared_ref a \<le> rc (heap s) a)"

lemma srv_okD:
  assumes "srv_ok R s"
  shows "brk s \<le> a \<Longrightarrow> heap s a = None"
    and "REDIS_SHARED_INTEGERS \<le> brk s"
    and "a < REDIS_SHARED_INTEGERS \<Longrightarrow> shared_at (heap s) a"
    and "heap s a = Some ob \<Longrightarrow> obj_ok ob"
    and "e \<in># elems_at (heap s) a \<Longrightarrow> heap s e = Some oe \<Longrightarrow> otype oe = REDIS_STRING"
    and "x \<in> set (db s) \<Longrightarrow> db_ok x"
    and "count R a + count (state_refs s) a + shared_ref a \<le> rc (heap s) a"
  using assms by (auto simp: srv_ok_def)

lemma srv_okI:
  assumes "\<And>a. brk s \<le> a \<Longrightarrow> heap s a = None" "REDIS_SHARED_INTEGERS \<le> brk s"
    and "\<And>a. a < REDIS_SHARED_INTEGERS \<Longrightarrow> shared_at (heap s) a"
    and "\<And>a ob. heap s a = Some ob \<Longrightarrow> obj_ok ob"
    and "\<And>a e oe. e \<in># elems_at (heap s) a \<Longrightarrow> heap s e = Some oe \<Longrightarrow> otype oe = REDIS_STRING"
    and "\<And>x. x \<in> set (db s) \<Longrightarrow> db_ok x"
    and "\<And>a. count R a + count (state_refs s) a + shared_ref a \<le> rc (heap s) a"
  shows "srv_ok R s"
  using assms by (simp add: srv_ok_def)

lemma srv_ok_live:
  assumes "srv_ok R s" "0 < count (R + state_refs s) a + shared_ref a"
  obtains ob where "heap s a = Some ob" "obj_ok ob" "int (count (R + state_refs s) a + shared_ref a) \<le> refcount ob"
proof -
  have *: "count (R + state_refs s) a + shared_ref a \<le> rc (heap s) a"
    using assms(1) by (simp add: srv_ok_def)
  with assms(2) obtain ob where ob: "heap s a = Some ob"
    by (cases "heap s a") (simp_all add: rc_def del: count_greater_zero_iff)
  with * assms(2) have "int (count (R + state_refs s) a + shared_ref a) \<le> refcount ob"
    by (simp add: rc_def del: count_greater_zero_iff) linarith
  then show thesis using that ob srv_okD(4) [OF assms(1) ob] by blast
qed

lemma elem_refs_cong: "(\<And>a. a < n \<Longrightarrow> elems_at h a = elems_at h' a) \<Longrightarrow> elem_refs h n = elem_refs h' n"
  unfolding elem_refs_def by (rule sum.cong) auto

lemma elem_refs_remove: "a < n \<Longrightarrow> elem_refs h n = elems_at h a + elem_refs (h(a := None)) n"
proof -
  assume a: "a < n"
  have "elem_refs h n = elems_at h a + (\<Sum>b\<in>{..<n} - {a}. elems_at h b)"
    unfolding elem_refs_def using a by (intro sum.remove) auto
  also have "(\<Sum>b\<in>{..<n} - {a}. elems_at h b) = (\<Sum>b\<in>{..<n} - {a}. elems_at (h(a := None)) b)"
    by (rule sum.cong) (auto simp: elems_at_def)
  also have "\<dots> = elem_refs (h(a := None)) n"
    unfolding elem_refs_def using a by (intro sum.mono_neutral_left) (auto simp: elems_at_def)
  finally show ?thesis .
qed

lemma elem_refs_set: "a < n \<Longrightarrow> elem_refs (h(a \<mapsto> ob)) n = mset (elems ob) + elem_refs (h(a := None)) n"
  by (subst elem_refs_remove [of a]) (simp_all add: elems_at_def)

lemma elem_refs_same:
  assumes "heap s a = Some ob" "elems ob' = elems ob"
  shows "elem_refs ((heap s)(a \<mapsto> ob')) n = elem_refs (heap s) n"
  by (rule elem_refs_cong) (use assms in \<open>auto simp: elems_at_def\<close>)

lemma elem_refs_grow: "elem_refs h (Suc n) = elem_refs h n + elems_at h n"
  by (simp add: elem_refs_def add.commute)

lemma elems_at_in_state: "e \<in># elems_at (heap s) a \<Longrightarrow> srv_ok R s \<Longrightarrow> e \<in># state_refs s"
proof -
  assume e: "e \<in># elems_at (heap s) a" and ok: "srv_ok R s"
  have "a < brk s"
  proof (rule ccontr)
    assume "\<not> a < brk s"
    with srv_okD(1) [OF ok] have "heap s a = None" by simp
    with e show False by (simp add: elems_at_def)
  qed
  then have "elem_refs (heap s) (brk s) = elems_at (heap s) a + elem_refs ((heap s)(a := None)) (brk s)"
    by (rule elem_refs_remove)
  with e show ?thesis by (simp add: state_refs_def)
qed

lemma db_refs_upd:
  "d < length xs \<Longrightarrow> db_refs (xs[d := x]) + dict_refs (xs ! d) = db_refs xs + dict_refs x"
proof (induction xs arbitrary: d)
  case (Cons y xs)
  then show ?case by (cases d) (simp_all add: db_refs_def ac_simps)
qed simp

lemma dict_refs_delete:
  "distinct (map fst (dict x)) \<Longrightarrow> map_of (dict x) k = Some a \<Longrightarrow>
     dict_refs x = add_mset a (mset (map snd (AList.delete k (dict x))))"
proof -
  have "distinct (map fst xs) \<Longrightarrow> map_of xs k = Some a \<Longrightarrow>
     mset (map snd xs) = add_mset a (mset (map snd (AList.delete k xs)))" for xs :: "addr sdict"
    by (induction xs) (auto simp: AList.delete_idem split: if_splits dest: map_of_SomeD)
  then show "distinct (map fst (dict x)) \<Longrightarrow> map_of (dict x) k = Some a \<Longrightarrow>
     dict_refs x = add_mset a (mset (map snd (AList.delete k (dict x))))"
    by (simp add: dict_refs_def)
qed


section \<open>Rules for single objects\<close>

lemma owned_cong: "otype ob' = otype ob \<Longrightarrow> encoding ob' = encoding ob \<Longrightarrow> ptr ob' = ptr ob \<Longrightarrow> owned ob' = owned ob"
  by (cases "otype ob") (simp_all add: owned_def freeStringObject_def freeListObject_def freeSetObject_def
      freeZsetObject_def freeHashObject_def)

lemma elems_string [simp]: "otype ob = REDIS_STRING \<Longrightarrow> elems ob = []"
  by (simp add: elems_def owned_def freeStringObject_def)

lemma owned_fields [simp]:
  "owned (ob\<lparr>refcount := r\<rparr>) = owned ob" "owned (ob\<lparr>vers := v\<rparr>) = owned ob"
  by (rule owned_cong; simp)+

lemma elems_fields [simp]:
  "elems (ob\<lparr>refcount := r\<rparr>) = elems ob" "elems (ob\<lparr>vers := v\<rparr>) = elems ob"
  by (simp_all add: elems_def)

lemma str_ok_fields [simp]:
  "str_ok (ob\<lparr>refcount := r\<rparr>) = str_ok ob" "str_ok (ob\<lparr>vers := v\<rparr>) = str_ok ob"
  by (cases "ptr ob"; simp add: str_ok_def)+

lemma obj_ok_fields [simp]:
  "obj_ok (ob\<lparr>vers := v\<rparr>) = obj_ok ob"
  "0 \<le> r \<Longrightarrow> obj_ok ob \<Longrightarrow> obj_ok (ob\<lparr>refcount := r\<rparr>)"
  by (auto simp: obj_ok_def)

lemma rc_upd: "rc (h(a := x)) b = (if b = a then (case x of None \<Rightarrow> 0 | Some ob \<Rightarrow> nat (refcount ob)) else rc h b)"
  by (simp add: rc_def)

lemma elems_at_upd: "elems_at (h(a := x)) b = (if b = a then (case x of None \<Rightarrow> {#} | Some ob \<Rightarrow> mset (elems ob)) else elems_at h b)"
  by (simp add: elems_at_def)

lemma srv_ok_mono: "srv_ok R s \<Longrightarrow> R' \<subseteq># R \<Longrightarrow> srv_ok R' s"
proof -
  assume ok: "srv_ok R s" and sub: "R' \<subseteq># R"
  have "count R' a + count (state_refs s) a + shared_ref a \<le> rc (heap s) a" for a
    using srv_okD(7) [OF ok, of a] mset_subset_eq_count [OF sub, of a] by linarith
  then show ?thesis by (intro srv_okI) (use srv_okD [OF ok] in auto)
qed

text \<open>An object is changed in place: its elements stay, its count follows the held references.\<close>

lemma srv_ok_upd:
  assumes ok: "srv_ok R s" and a: "heap s a = Some ob"
    and ob': "obj_ok ob'" "elems ob' = elems ob" "otype ob' = otype ob"
    and sh: "a < REDIS_SHARED_INTEGERS \<Longrightarrow> encoding ob' = encoding ob \<and> ptr ob' = ptr ob"
    and cnt: "\<And>b. b \<noteq> a \<Longrightarrow> count R' b \<le> count R b"
      "count R' a + nat (refcount ob) \<le> count R a + nat (refcount ob')"
  shows "srv_ok R' (s\<lparr>heap := (heap s)(a \<mapsto> ob')\<rparr>)"
proof -
  have refs: "state_refs (s\<lparr>heap := (heap s)(a \<mapsto> ob')\<rparr>) = state_refs s"
    by (simp add: state_refs_def elem_refs_same [OF a ob'(2)])
  have rc_a: "rc (heap s) a = nat (refcount ob)" using a by (simp add: rc_def)
  have a_lt: "a < brk s" using srv_okD(1) [OF ok, of a] a by (cases "a < brk s") auto
  show ?thesis
  proof (rule srv_okI, simp_all add: refs)
    fix b show "count R' b + count (state_refs s) b + shared_ref b \<le> rc ((heap s)(a \<mapsto> ob')) b"
      using srv_okD(7) [OF ok, of b] cnt(1) [of b] cnt(2) rc_a
      by (cases "b = a") (simp_all add: rc_upd)
  next
    fix b e oe assume "e \<in># elems_at ((heap s)(a \<mapsto> ob')) b" and oe: "(if e = a then Some ob' else heap s e) = Some oe"
    then have e: "e \<in># elems_at (heap s) b"
      using a ob'(2) by (simp add: elems_at_def split: if_splits)
    show "otype oe = REDIS_STRING"
      using srv_okD(5) [OF ok e] a ob'(3) oe by (cases "e = a") auto
  next
    fix b :: addr assume b: "b < REDIS_SHARED_INTEGERS"
    show "shared_at ((heap s)(a \<mapsto> ob')) b"
      using srv_okD(3) [OF ok b] sh b a ob'(3) by (cases "b = a") (auto simp: shared_at_def)
  qed (use srv_okD(1,2,4,6) [OF ok] ob'(1) a_lt in \<open>auto split: if_splits\<close>)
qed

lemma incrRefCount_rule:
  assumes "srv_ok R s" "heap s a = Some ob"
  shows "incrRefCount a s = Some (s\<lparr>heap := (heap s)(a \<mapsto> ob\<lparr>refcount := refcount ob + 1\<rparr>)\<rparr>)"
    and "srv_ok (add_mset a R) (s\<lparr>heap := (heap s)(a \<mapsto> ob\<lparr>refcount := refcount ob + 1\<rparr>)\<rparr>)"
proof -
  show "incrRefCount a s = Some (s\<lparr>heap := (heap s)(a \<mapsto> ob\<lparr>refcount := refcount ob + 1\<rparr>)\<rparr>)"
    using assms(2) by (simp add: incrRefCount_def upd_obj_def)
  have ob: "obj_ok ob" using srv_okD(4) [OF assms] .
  then have "0 \<le> refcount ob" by (simp add: obj_ok_def)
  with ob show "srv_ok (add_mset a R) (s\<lparr>heap := (heap s)(a \<mapsto> ob\<lparr>refcount := refcount ob + 1\<rparr>)\<rparr>)"
    by (intro srv_ok_upd [OF assms]) (simp_all add: nat_add_distrib)
qed

lemma fresh_unreferenced:
  assumes "srv_ok R s" "heap s a = None"
  shows "count R a = 0" "count (state_refs s) a = 0" "shared_ref a = 0"
  using srv_okD(7) [OF assms(1), of a] assms(2) by (simp_all add: rc_def)

lemma new_obj_rule:
  assumes ok: "srv_ok R s" and ob: "obj_ok ob" "elems ob = []" "refcount ob = 1"
  shows "srv_ok (add_mset (brk s) R) (s\<lparr>heap := (heap s)(brk s \<mapsto> ob), brk := brk s + 1\<rparr>)"
proof -
  let ?h = "(heap s)(brk s \<mapsto> ob)"
  have none: "heap s (brk s) = None" using srv_okD(1) [OF ok] by simp
  note fresh = fresh_unreferenced [OF ok none]
  have same: "elems_at ?h a = elems_at (heap s) a" for a
    using none ob(2) by (simp add: elems_at_def)
  have "elem_refs ?h (Suc (brk s)) = elem_refs (heap s) (brk s)"
    using none by (simp add: elem_refs_grow elems_at_def ob(2) elem_refs_cong [OF same])
  then have refs: "state_refs (s\<lparr>heap := ?h, brk := brk s + 1\<rparr>) = state_refs s"
    by (simp add: state_refs_def)
  show ?thesis
  proof (rule srv_okI, unfold refs)
    fix b show "count (add_mset (brk s) R) b + count (state_refs s) b + shared_ref b
        \<le> rc (heap (s\<lparr>heap := ?h, brk := brk s + 1\<rparr>)) b"
      using srv_okD(7) [OF ok, of b] fresh ob(3) by (cases "b = brk s") (simp_all add: rc_upd)
  next
    fix b e oe assume "e \<in># elems_at (heap (s\<lparr>heap := ?h, brk := brk s + 1\<rparr>)) b"
      and oe: "heap (s\<lparr>heap := ?h, brk := brk s + 1\<rparr>) e = Some oe"
    then have e: "e \<in># elems_at (heap s) b" by (simp add: same)
    then have "e \<noteq> brk s" using elems_at_in_state [OF e ok] fresh(2) by (auto simp: count_eq_zero_iff)
    with srv_okD(5) [OF ok e] oe show "otype oe = REDIS_STRING" by simp
  next
    fix b :: addr assume b: "b < REDIS_SHARED_INTEGERS"
    show "shared_at (heap (s\<lparr>heap := ?h, brk := brk s + 1\<rparr>)) b"
      using srv_okD(3) [OF ok b] srv_okD(2) [OF ok] b by (simp add: shared_at_def)
  qed (use srv_okD(1,2,4,6) [OF ok] ob(1) in \<open>auto split: if_splits\<close>)
qed


section \<open>Giving up a reference\<close>

text \<open>\<open>heap_le h' h\<close>: what is left in \<open>h'\<close> is as in \<open>h\<close>, up to reference counts.\<close>

definition same_val :: "robj \<Rightarrow> robj \<Rightarrow> bool" where
  "same_val ob ob' \<longleftrightarrow>
     otype ob = otype ob' \<and> encoding ob = encoding ob' \<and> vers ob = vers ob' \<and> ptr ob = ptr ob'"

lemma same_val_refl [simp, intro]: "same_val ob ob"
  by (simp add: same_val_def)

lemma same_val_sym: "same_val ob ob' \<Longrightarrow> same_val ob' ob"
  by (simp add: same_val_def)

lemma same_val_trans: "same_val ob ob' \<Longrightarrow> same_val ob' ob'' \<Longrightarrow> same_val ob ob''"
  by (simp add: same_val_def)

lemma same_val_refcount [simp]:
  "same_val (ob\<lparr>refcount := r\<rparr>) ob' = same_val ob ob'" "same_val ob (ob'\<lparr>refcount := r\<rparr>) = same_val ob ob'"
  by (simp_all add: same_val_def)

definition heap_le :: "(addr \<rightharpoonup> robj) \<Rightarrow> (addr \<rightharpoonup> robj) \<Rightarrow> bool" where
  "heap_le h' h \<longleftrightarrow> (\<forall>a ob'. h' a = Some ob' \<longrightarrow> (\<exists>ob. h a = Some ob \<and> same_val ob ob'))"

lemma heap_le_refl [simp, intro]: "heap_le h h"
  by (auto simp: heap_le_def)

lemma heap_le_trans: "heap_le h'' h' \<Longrightarrow> heap_le h' h \<Longrightarrow> heap_le h'' h"
  unfolding heap_le_def by (meson same_val_trans)

lemma heap_le_upd: "h a = Some ob \<Longrightarrow> same_val ob ob' \<Longrightarrow> heap_le (h(a \<mapsto> ob')) h"
  by (auto simp: heap_le_def)

lemma heap_le_del: "heap_le (h(a := None)) h"
  by (auto simp: heap_le_def)

lemma heap_leD:
  assumes "heap_le h' h" "h' a = Some ob'"
  obtains ob where "h a = Some ob" "same_val ob ob'"
  using assms by (auto simp: heap_le_def)

lemma heap_le_None: "heap_le h' h \<Longrightarrow> h a = None \<Longrightarrow> h' a = None"
  by (cases "h' a") (auto elim: heap_leD)

text \<open>Removing the last reference: the elements' references become the code's own.\<close>

lemma free_obj_rule:
  assumes ok: "srv_ok (add_mset a R) s" and a: "heap s a = Some ob" "refcount ob = 1"
  shows "srv_ok (mset (elems ob) + R) (s\<lparr>heap := (heap s)(a := None)\<rparr>)"
proof -
  let ?s = "s\<lparr>heap := (heap s)(a := None)\<rparr>"
  have lt: "a < brk s" using srv_okD(1) [OF ok, of a] a by (cases "a < brk s") auto
  have refs: "state_refs s = mset (elems ob) + state_refs ?s"
    using elem_refs_remove [OF lt, of "heap s"] a(1) by (simp add: state_refs_def elems_at_def)
  have last: "count R a = 0" "count (state_refs s) a = 0" "shared_ref a = 0"
    using srv_okD(7) [OF ok, of a] a by (simp_all add: rc_def)
  then have "REDIS_SHARED_INTEGERS \<le> a" by (simp add: shared_ref_def split: if_splits)
  then show ?thesis
  proof (intro srv_okI)
    fix b show "count (mset (elems ob) + R) b + count (state_refs ?s) b + shared_ref b \<le> rc (heap ?s) b"
      using srv_okD(7) [OF ok, of b] last unfolding refs by (cases "b = a") (auto simp: rc_upd)
  next
    fix b e oe assume "e \<in># elems_at (heap ?s) b" "heap ?s e = Some oe"
    then show "otype oe = REDIS_STRING"
      using srv_okD(5) [OF ok, of e b] by (auto simp: elems_at_upd split: if_splits)
  qed (use srv_okD(1-4,6) [OF ok] in \<open>auto simp: shared_at_def split: if_splits\<close>)
qed

lemma decr_shared_rule:
  assumes ok: "srv_ok (add_mset a R) s" and a: "heap s a = Some ob" "1 < refcount ob"
  shows "srv_ok R (s\<lparr>heap := (heap s)(a \<mapsto> ob\<lparr>refcount := refcount ob - 1\<rparr>)\<rparr>)"
proof -
  have "obj_ok ob" using srv_okD(4) [OF ok a(1)] .
  then show ?thesis using a(2) by (intro srv_ok_upd [OF ok a(1)]) simp_all
qed

lemma held_live:
  assumes "srv_ok (add_mset a R) s"
  obtains ob where "heap s a = Some ob" "obj_ok ob" "1 \<le> refcount ob"
  by (rule srv_ok_live [OF assms, of a]) (auto simp: that)

lemma decrRefCount_elem_rule:
  assumes ok: "srv_ok (add_mset e R) s" and ty: "\<And>oe. heap s e = Some oe \<Longrightarrow> otype oe = REDIS_STRING"
  shows "\<exists>h'. decrRefCount_elem e s = Some (s\<lparr>heap := h'\<rparr>) \<and> srv_ok R (s\<lparr>heap := h'\<rparr>) \<and> heap_le h' (heap s)"
proof -
  from held_live [OF ok] obtain oe where e: "heap s e = Some oe" "1 \<le> refcount oe" by metis
  show ?thesis
  proof (cases "refcount oe = 1")
    case True
    with free_obj_rule [OF ok e(1)] ty [OF e(1)] e show ?thesis
      by (auto simp: decrRefCount_elem_def obj_def zfree_def heap_le_del)
  next
    case False
    with e(2) have "1 < refcount oe" by simp
    with decr_shared_rule [OF ok e(1)] e show ?thesis
      by (auto simp: decrRefCount_elem_def obj_def upd_obj_def heap_le_upd)
  qed
qed

lemma decr_all_rule:
  assumes "srv_ok (mset es + R) s" "\<And>e oe. e \<in> set es \<Longrightarrow> heap s e = Some oe \<Longrightarrow> otype oe = REDIS_STRING"
  shows "\<exists>h'. decr_all es s = Some (s\<lparr>heap := h'\<rparr>) \<and> srv_ok R (s\<lparr>heap := h'\<rparr>) \<and> heap_le h' (heap s)"
  using assms
proof (induction es arbitrary: s)
  case Nil
  then show ?case by (intro exI [of _ "heap s"]) simp
next
  case (Cons e es)
  from decrRefCount_elem_rule [of e "mset es + R" s] Cons.prems obtain h1 where
    h1: "decrRefCount_elem e s = Some (s\<lparr>heap := h1\<rparr>)" "srv_ok (mset es + R) (s\<lparr>heap := h1\<rparr>)" "heap_le h1 (heap s)"
    by auto
  have "otype oe = REDIS_STRING" if "e' \<in> set es" "h1 e' = Some oe" for e' oe
    using heap_leD [OF h1(3) that(2)] Cons.prems(2) [of e'] that(1) by (metis list.set_intros(2) same_val_def)
  with Cons.IH [OF h1(2)] obtain h2 where
    "decr_all es (s\<lparr>heap := h1\<rparr>) = Some (s\<lparr>heap := h2\<rparr>)" "srv_ok R (s\<lparr>heap := h2\<rparr>)" "heap_le h2 h1"
    by auto
  with h1 show ?case by (auto intro: heap_le_trans)
qed

text \<open>The elements are released while the container is still in place; it is not one of them.\<close>

lemma heap_update_inject [simp]: "s\<lparr>heap := h\<rparr> = s\<lparr>heap := h'\<rparr> \<longleftrightarrow> h = h'"
proof
  assume "s\<lparr>heap := h\<rparr> = s\<lparr>heap := h'\<rparr>"
  then have "heap (s\<lparr>heap := h\<rparr>) = heap (s\<lparr>heap := h'\<rparr>)" by simp
  then show "h = h'" by simp
qed simp

lemma decr_elem_frame:
  assumes "a \<noteq> e" "decrRefCount_elem e (s\<lparr>heap := h(a := None)\<rparr>) = Some (s\<lparr>heap := h'\<rparr>)"
  shows "decrRefCount_elem e (s\<lparr>heap := h\<rparr>) = Some (s\<lparr>heap := h'(a := h a)\<rparr>) \<and> h' a = None"
proof -
  from assms obtain oe where e: "h e = Some oe" "0 < refcount oe"
    by (auto simp: decrRefCount_elem_def obj_def split: if_splits bind_splits)
  show ?thesis
  proof (cases "refcount oe = 1")
    case True
    with assms e have "h' = h(a := None, e := None)" "otype oe = REDIS_STRING"
      by (auto simp: decrRefCount_elem_def obj_def zfree_def split: if_splits)
    with True e assms(1) show ?thesis
      by (auto simp: decrRefCount_elem_def obj_def zfree_def)
  next
    case False
    with assms e have "h' = h(a := None, e \<mapsto> oe\<lparr>refcount := refcount oe - 1\<rparr>)"
      by (auto simp: decrRefCount_elem_def obj_def upd_obj_def)
    with False e assms(1) show ?thesis
      by (auto simp: decrRefCount_elem_def obj_def upd_obj_def)
  qed
qed


lemma decr_elem_only_heap: "decrRefCount_elem e s = Some t \<Longrightarrow> t = s\<lparr>heap := heap t\<rparr>"
  by (auto simp: decrRefCount_elem_def obj_def zfree_def upd_obj_def split: option.splits if_splits bind_splits)

lemma decr_all_frame:
  assumes "a \<notin> set es" "decr_all es (s\<lparr>heap := h(a := None)\<rparr>) = Some (s\<lparr>heap := h'\<rparr>)"
  shows "decr_all es (s\<lparr>heap := h\<rparr>) = Some (s\<lparr>heap := h'(a := h a)\<rparr>)"
  using assms
proof (induction es arbitrary: h)
  case Nil
  then have "h' = h(a := None)" by auto
  then show ?case by (simp add: fun_eq_iff)
next
  case (Cons e es)
  from Cons.prems(2) obtain t where t: "decrRefCount_elem e (s\<lparr>heap := h(a := None)\<rparr>) = Some t"
    "decr_all es t = Some (s\<lparr>heap := h'\<rparr>)"
    by (auto simp only: decr_all.simps Option.bind_eq_Some_conv)
  then obtain h1 where h1: "t = s\<lparr>heap := h1\<rparr>" using decr_elem_only_heap [OF t(1)] by (metis server.surjective server.update_convs(1))
  have f: "decrRefCount_elem e (s\<lparr>heap := h\<rparr>) = Some (s\<lparr>heap := h1(a := h a)\<rparr>)" "h1 a = None"
    using decr_elem_frame [of a e h s h1] t(1) h1 Cons.prems(1) by auto
  then have "(h1(a := h a))(a := None) = h1" by (auto simp: fun_eq_iff)
  with t(2) h1 have "decr_all es (s\<lparr>heap := (h1(a := h a))(a := None)\<rparr>) = Some (s\<lparr>heap := h'\<rparr>)"
    by (simp only:)
  moreover have "a \<notin> set es" using Cons.prems(1) by simp
  ultimately have "decr_all es (s\<lparr>heap := h1(a := h a)\<rparr>) = Some (s\<lparr>heap := h'(a := h a)\<rparr>)"
    using Cons.IH [of "h1(a := h a)"] by (simp only: fun_upd_same simp_thms)
  with f(1) show ?case by (simp only: decr_all.simps Option.bind.bind_lunit)
qed

theorem decrRefCount_rule:
  assumes ok: "srv_ok (add_mset a R) s"
  shows "\<exists>h'. decrRefCount a s = Some (s\<lparr>heap := h'\<rparr>) \<and> srv_ok R (s\<lparr>heap := h'\<rparr>) \<and> heap_le h' (heap s)"
proof -
  from held_live [OF ok] obtain ob where a: "heap s a = Some ob" "obj_ok ob" "1 \<le> refcount ob" by metis
  show ?thesis
  proof (cases "refcount ob = 1")
    case False
    with a(3) have "1 < refcount ob" by simp
    with decr_shared_rule [OF ok a(1)] a(1) show ?thesis
      by (auto simp: decrRefCount_def obj_def upd_obj_def heap_le_upd)
  next
    case True
    let ?s = "s\<lparr>heap := (heap s)(a := None)\<rparr>"
    have own: "owned ob = Some (elems ob)" using a(2) by (auto simp: obj_ok_def elems_def)
    have notin: "a \<notin> set (elems ob)"
    proof
      assume in_a: "a \<in> set (elems ob)"
      then have "a \<in># elems_at (heap s) a" using a(1) by (simp add: elems_at_def)
      from srv_okD(5) [OF ok this a(1)] in_a show False by simp
    qed
    have str: "otype oe = REDIS_STRING" if "e \<in> set (elems ob)" "heap ?s e = Some oe" for e oe
    proof -
      have "e \<in># elems_at (heap s) a" using that(1) a(1) by (simp add: elems_at_def)
      from srv_okD(5) [OF ok this] that(2) show ?thesis by (auto split: if_splits)
    qed
    obtain h' where h': "decr_all (elems ob) ?s = Some (?s\<lparr>heap := h'\<rparr>)" "srv_ok R (?s\<lparr>heap := h'\<rparr>)"
      "heap_le h' (heap ?s)"
      using decr_all_rule [OF free_obj_rule [OF ok a(1) True]] str by blast
    have "decr_all (elems ob) (s\<lparr>heap := heap s\<rparr>) = Some (s\<lparr>heap := h'(a := heap s a)\<rparr>)"
      using decr_all_frame [OF notin, where s = s and h = "heap s" and h' = h'] h'(1) by simp
    moreover have "h' a = None" using heap_le_None [OF h'(3)] by simp
    then have "h'(a := None) = h'" by (auto simp: fun_eq_iff)
    ultimately have "decrRefCount a s = Some (s\<lparr>heap := h'\<rparr>)"
      using a(1) True own by (simp add: decrRefCount_def obj_def zfree_def)
    moreover have "heap_le h' (heap s)"
      using heap_le_trans [OF h'(3)] heap_le_del [of "heap s" a] by simp
    ultimately show ?thesis using h'(2) by auto
  qed
qed

section \<open>The initial state\<close>

lemma db_refs_empty: "db_refs (replicate n empty_db) = {#}"
  by (induction n) (auto simp: db_refs_def dict_refs_def empty_db_def)

lemma srv_ok_init: "srv_ok {#} initServer"
proof (rule srv_okI)
  have "elems_at (heap initServer) a = {#}" for a
    by (simp add: elems_at_def initServer_def shared_integers_def)
  then have "elem_refs (heap initServer) n = {#}" for n by (simp add: elem_refs_def)
  moreover have "db_refs (db initServer) = {#}"
    by (simp add: initServer_def db_refs_empty)
  ultimately have refs: "state_refs initServer = {#}"
    by (simp add: state_refs_def) (simp add: initServer_def)
  fix a show "count {#} a + count (state_refs initServer) a + shared_ref a \<le> rc (heap initServer) a"
    unfolding refs by (simp add: shared_ref_def rc_def initServer_def shared_integers_def)
qed (auto simp: initServer_def shared_integers_def shared_at_def obj_ok_def owned_def freeStringObject_def
    str_ok_def long_range_def elems_at_def db_ok_def empty_db_def split: if_splits)

definition with_obj :: "robj \<Rightarrow> server \<Rightarrow> server" where
  "with_obj ob s = snd (new_obj ob s)"

lemma one_string_ok [simp]: "obj_ok (one_string x v)" "elems (one_string x v) = []" "refcount (one_string x v) = 1"
  by (simp_all add: one_string_def obj_ok_def owned_def freeStringObject_def str_ok_def elems_def)

lemma with_obj_ok: "srv_ok R s \<Longrightarrow> srv_ok (add_mset (brk s) R) (with_obj (one_string x v) s)"
  using new_obj_rule [of R s "one_string x v"] by (simp add: with_obj_def new_obj_def)

lemma with_obj_fields [simp]:
  "brk (with_obj ob s) = brk s + 1" "heap (with_obj ob s) = (heap s)(brk s \<mapsto> ob)" "db (with_obj ob s) = db s"
  by (simp_all add: with_obj_def new_obj_def)

lemma initServer_fields [simp]:
  "brk initServer = 10000" "heap initServer = shared_integers" "db initServer = replicate 16 empty_db"
  by (simp_all add: initServer_def)


section \<open>Temporary objects\<close>

text \<open>An object nothing refers to may be released by \<^verbatim>\<open>zfree\<close>, whatever its count says.\<close>

lemma zfree_rule:
  assumes ok: "srv_ok R s" and a: "heap s a = Some ob" "elems ob = []"
    and free: "count R a = 0" "count (state_refs s) a = 0" "shared_ref a = 0"
  shows "zfree a s = Some (s\<lparr>heap := (heap s)(a := None)\<rparr>)" "srv_ok R (s\<lparr>heap := (heap s)(a := None)\<rparr>)"
proof -
  let ?s = "s\<lparr>heap := (heap s)(a := None)\<rparr>"
  show "zfree a s = Some ?s" using a by (simp add: zfree_def)
  have same: "elems_at (heap ?s) b = elems_at (heap s) b" for b
    using a by (simp add: elems_at_def)
  have refs: "state_refs ?s = state_refs s"
    unfolding state_refs_def using elem_refs_cong [of _ "heap ?s" "heap s"] same by simp
  have "\<not> a < REDIS_SHARED_INTEGERS" using free(3) by (simp add: shared_ref_def split: if_splits)
  then show "srv_ok R ?s"
    using srv_okD [OF ok] same free
    by (intro srv_okI) (auto simp: refs rc_upd shared_at_def split: if_splits)
qed

lemma srv_ok_brk: "srv_ok R s \<Longrightarrow> srv_ok R (s\<lparr>brk := brk s + n\<rparr>)"
proof -
  assume ok: "srv_ok R s"
  have "elem_refs (heap s) (brk s + n) = elem_refs (heap s) (brk s)"
  proof (induction n)
    case (Suc n)
    have "elems_at (heap s) (brk s + n) = {#}" using srv_okD(1) [OF ok] by (simp add: elems_at_def)
    with Suc show ?case using elem_refs_grow [of "heap s" "brk s + n"] by simp
  qed simp
  then have "state_refs (s\<lparr>brk := brk s + n\<rparr>) = state_refs s" by (simp add: state_refs_def)
  with ok show ?thesis by (auto simp: srv_ok_def)
qed

lemma in_state_refs:
  "e \<in># state_refs s \<longleftrightarrow> (\<exists>x \<in> set (db s). e \<in> snd ` set (dict x)) \<or> (\<exists>a < brk s. e \<in># elems_at (heap s) a) \<or>
     e \<in> snd ` set (list_ready s)"
proof -
  have "e \<in># db_refs xs \<longleftrightarrow> (\<exists>x \<in> set xs. e \<in> snd ` set (dict x))" for xs
    by (induction xs) (auto simp: db_refs_def dict_refs_def)
  moreover have "e \<in># elem_refs h n \<longleftrightarrow> (\<exists>a < n. e \<in># elems_at h a)" for h n
    by (induction n) (auto simp: elem_refs_def less_Suc_eq)
  ultimately show ?thesis by (auto simp: state_refs_def)
qed

lemma elems_at_le: "heap_le h' h \<Longrightarrow> e \<in># elems_at h' a \<Longrightarrow> e \<in># elems_at h a"
proof -
  assume le: "heap_le h' h" and e: "e \<in># elems_at h' a"
  then obtain ob' where ob': "h' a = Some ob'" "e \<in> set (elems ob')" by (auto simp: elems_at_def split: option.splits)
  from heap_leD [OF le ob'(1)] obtain ob where "h a = Some ob" "same_val ob ob'" by blast
  moreover from this have "elems ob' = elems ob" by (simp add: elems_def same_val_def owned_cong [of ob' ob])
  ultimately show ?thesis using ob'(2) by (simp add: elems_at_def)
qed

text \<open>A temporary object is made and released without being stored: only the allocation pointer moves.\<close>

lemma tmp_string:
  assumes "srv_ok R s"
  shows "zfree (brk s) (snd (createStringObject x s)) = Some (s\<lparr>brk := brk s + 1\<rparr>)"
  using srv_okD(1) [OF assms, of "brk s"]
  by (simp add: createStringObject_def createObject_def new_obj_def zfree_def fun_upd_idem)

section \<open>Properties\<close>

text \<open>C37. Giving up a reference is memory safe. If the counts of a server cover all references,
  including the one given up, then \<^verbatim>\<open>decrRefCount\<close> does not fault (neither a negative count nor
  a dangling element), the counts still cover the remaining references, so nothing still
  referenced has been freed, and every object that is left has the type, encoding, version and
  payload it had, even when a whole container with its elements is released.\<close>

theorem decrRefCount_safe:
  assumes "srv_ok (add_mset a R) s"
  shows "\<exists>h'. decrRefCount a s = Some (s\<lparr>heap := h'\<rparr>) \<and> srv_ok R (s\<lparr>heap := h'\<rparr>) \<and> heap_le h' (heap s)"
  using assms by (rule decrRefCount_rule)

theorem decrRefCount_safe_witness:
  "\<exists>h'. decrRefCount 10000 (with_obj (one_string ''v'' 1) initServer) =
      Some ((with_obj (one_string ''v'' 1) initServer)\<lparr>heap := h'\<rparr>) \<and>
     srv_ok {#} ((with_obj (one_string ''v'' 1) initServer)\<lparr>heap := h'\<rparr>)"
  using decrRefCount_safe [of 10000 "{#}"] with_obj_ok [OF srv_ok_init] by fastforce

end
