(* ===== verification/Db_Rules.thy ===== *)
theory Db_Rules
  imports Ownership Db_Commands
begin

text \<open>
  What the operations of the keyspace do on a well-formed server: each is shown not to
  fault, to keep \<open>srv_ok\<close>, and to have its effect on the dictionary of its database and on
  nothing else.
\<close>

section \<open>Changing a database entry\<close>

lemma srv_ok_db:
  assumes ok: "srv_ok R s" and d: "d < length (db s)" and x: "db_ok x"
    and refs: "R' + dict_refs x \<subseteq># R + dict_refs (db s ! d)"
  shows "srv_ok R' (s\<lparr>db := (db s)[d := x]\<rparr>)"
proof -
  let ?s = "s\<lparr>db := (db s)[d := x]\<rparr>"
  have "db_refs (db ?s) + dict_refs (db s ! d) = db_refs (db s) + dict_refs x"
    using db_refs_upd [OF d] by simp
  then have "state_refs ?s + dict_refs (db s ! d) = state_refs s + dict_refs x"
    unfolding state_refs_def by (simp add: ac_simps)
  then have sum: "count (state_refs ?s) a + count (dict_refs (db s ! d)) a = count (state_refs s) a + count (dict_refs x) a" for a
    by (metis plus_multiset.rep_eq)
  have le: "count R' a + count (dict_refs x) a \<le> count R a + count (dict_refs (db s ! d)) a" for a
    using mset_subset_eq_count [OF refs, of a] by simp
  have "count R' a + count (state_refs ?s) a + shared_ref a \<le> rc (heap ?s) a" for a
    using srv_okD(7) [OF ok, of a] sum [of a] le [of a] by simp
  moreover have "db_ok y" if "y \<in> set (db ?s)" for y
    using that x srv_okD(6) [OF ok] set_update_subset_insert [of "db s" d x] by auto
  ultimately show ?thesis
    using srv_okD(1-5) [OF ok] by (intro srv_okI) auto
qed

lemma srv_ok_same_refs:
  assumes "srv_ok R s" "heap s' = heap s" "brk s' = brk s" "db s' = db s" "list_ready s' = list_ready s"
  shows "srv_ok R s'"
  using assms by (simp add: srv_ok_def state_refs_def)

lemma db_ok_nth: "srv_ok R s \<Longrightarrow> d < length (db s) \<Longrightarrow> db_ok (db s ! d)"
  by (rule srv_okD(6)) auto


text \<open>A database as seen through its two dictionaries.\<close>

definition keys_of :: "server \<Rightarrow> nat \<Rightarrow> string \<rightharpoonup> addr" where
  "keys_of s d = map_of (dict (db s ! d))"

definition ttl_of :: "server \<Rightarrow> nat \<Rightarrow> string \<rightharpoonup> int" where
  "ttl_of s d = map_of (expires (db s ! d))"

definition del_entry :: "string \<Rightarrow> redisDb \<Rightarrow> redisDb" where
  "del_entry k x = x\<lparr>dict := AList.delete k (dict x), expires := AList.delete k (expires x)\<rparr>"

lemma keys_delete: "fst ` set (AList.delete k xs) = fst ` set xs - {k}"
  by (auto simp: AList.delete_eq image_iff)

lemma db_ok_del: "db_ok x \<Longrightarrow> db_ok (del_entry k x)"
  by (auto simp: db_ok_def del_entry_def AList.distinct_delete keys_delete)

lemma db_ok_add: "db_ok x \<Longrightarrow> map_of (dict x) k = None \<Longrightarrow> db_ok (x\<lparr>dict := (k, a) # dict x\<rparr>)"
  by (auto simp: db_ok_def map_of_eq_None_iff)

lemma db_ok_update: "db_ok x \<Longrightarrow> db_ok (x\<lparr>dict := AList.update k a (dict x)\<rparr>)"
  by (auto simp: db_ok_def AList.distinct_update AList.dom_update)

lemma db_ok_expire:
  "db_ok x \<Longrightarrow> map_of (dict x) k \<noteq> None \<Longrightarrow> db_ok (x\<lparr>expires := AList.update k w (expires x)\<rparr>)"
  by (auto simp: db_ok_def AList.distinct_update AList.dom_update map_of_eq_None_iff)

lemma db_ok_unexpire: "db_ok x \<Longrightarrow> db_ok (x\<lparr>expires := AList.delete k (expires x)\<rparr>)"
  by (auto simp: db_ok_def AList.distinct_delete keys_delete)

lemma db_ok_expires: "db_ok x \<Longrightarrow> map_of (dict x) k = None \<Longrightarrow> map_of (expires x) k = None"
  by (auto simp: db_ok_def map_of_eq_None_iff)

lemma dict_refs_add [simp]: "dict_refs (x\<lparr>dict := (k, a) # dict x\<rparr>) = add_mset a (dict_refs x)"
  by (simp add: dict_refs_def)

lemma dict_refs_expires [simp]: "dict_refs (x\<lparr>expires := e\<rparr>) = dict_refs x"
  by (simp add: dict_refs_def)

lemma dict_refs_del:
  "db_ok x \<Longrightarrow> map_of (dict x) k = Some a \<Longrightarrow> dict_refs x = add_mset a (dict_refs (del_entry k x))"
  using dict_refs_delete [of x k a] by (simp add: db_ok_def del_entry_def dict_refs_def)

lemma dict_refs_update:
  assumes "db_ok x" "map_of (dict x) k = Some a"
  shows "add_mset a (dict_refs (x\<lparr>dict := AList.update k b (dict x)\<rparr>)) = add_mset b (dict_refs x)"
proof -
  have "distinct (map fst xs) \<Longrightarrow> map_of xs k = Some a \<Longrightarrow>
     add_mset a (mset (map snd (AList.update k b xs))) = add_mset b (mset (map snd xs))" for xs :: "addr sdict"
    by (induction xs) (auto split: if_splits simp: add_mset_commute)
  with assms show ?thesis by (simp add: db_ok_def dict_refs_def)
qed

section \<open>Deletion\<close>

lemma dbDelete_absent:
  assumes "srv_ok R s" "d < length (db s)" "sds_of s key = Some k" "keys_of s d k = None"
  shows "dbDelete d key s = Some (False, s)"
proof -
  have ok: "db_ok (db s ! d)" using db_ok_nth [OF assms(1,2)] .
  then have "map_of (expires (db s ! d)) k = None"
    using db_ok_expires assms(4) by (simp add: keys_of_def)
  then have "AList.delete k (expires (db s ! d)) = expires (db s ! d)"
    by (simp add: AList.delete_idem map_of_eq_None_iff)
  with assms show ?thesis
    by (simp add: dbDelete_def getdb_def keys_of_def dictFind_def dictDelete_def upd_db_def Let_def)
qed

lemma del_entry_steps:
  assumes "d < length (db s)"
  shows "upd_db d (\<lambda>x. x\<lparr>dict := dictDelete (dict x) k\<rparr>)
      (if expires (db s ! d) \<noteq> [] then upd_db d (\<lambda>x. x\<lparr>expires := dictDelete (expires x) k\<rparr>) s else s)
     = s\<lparr>db := (db s)[d := del_entry k (db s ! d)]\<rparr>"
proof (cases "expires (db s ! d) = []")
  case True
  then have "del_entry k (db s ! d) = (db s ! d)\<lparr>dict := AList.delete k (dict (db s ! d))\<rparr>"
    by (cases "db s ! d") (simp add: del_entry_def)
  with True assms show ?thesis by (simp add: upd_db_def dictDelete_def)
next
  case False
  with assms show ?thesis by (simp add: upd_db_def dictDelete_def del_entry_def)
qed

lemma dbDelete_present:
  assumes ok: "srv_ok R s" and d: "d < length (db s)" and k: "sds_of s key = Some k" "keys_of s d k = Some a"
  obtains h' where
    "dbDelete d key s = Some (True, s\<lparr>heap := h', db := (db s)[d := del_entry k (db s ! d)]\<rparr>)"
    "srv_ok R (s\<lparr>heap := h', db := (db s)[d := del_entry k (db s ! d)]\<rparr>)" "heap_le h' (heap s)"
proof -
  let ?s = "s\<lparr>db := (db s)[d := del_entry k (db s ! d)]\<rparr>"
  have x: "db_ok (db s ! d)" using db_ok_nth [OF ok d] .
  have "srv_ok (add_mset a R) ?s"
    using dict_refs_del [OF x] k(2) by (intro srv_ok_db [OF ok d db_ok_del [OF x]]) (simp add: keys_of_def)
  from decrRefCount_rule [OF this] obtain h' where
    h': "decrRefCount a ?s = Some (?s\<lparr>heap := h'\<rparr>)" "srv_ok R (?s\<lparr>heap := h'\<rparr>)" "heap_le h' (heap ?s)"
    by blast
  have "dbDelete d key s = Some (True, ?s\<lparr>heap := h'\<rparr>)"
    using d k h'(1) del_entry_steps [OF d, of k]
    by (simp add: dbDelete_def getdb_def keys_of_def dictFind_def Let_def del: if_not_P if_P split del: if_split)
  with h' show thesis by (intro that [of h']) (simp_all)
qed


section \<open>Expiry\<close>

text \<open>The key has a time to live that has run out, on a server that acts on it.\<close>

definition expired :: "server \<Rightarrow> nat \<Rightarrow> string \<Rightarrow> bool" where
  "expired s d k \<longleftrightarrow> (\<exists>w. ttl_of s d k = Some w \<and> 0 \<le> w \<and> w < mstime s) \<and> \<not> loading s \<and> \<not> masterhost s"

lemma getExpire_ok:
  assumes "srv_ok R s" "d < length (db s)" "sds_of s key = Some k"
  shows "getExpire d key s = Some (case ttl_of s d k of None \<Rightarrow> - 1 | Some w \<Rightarrow> w)"
proof -
  note x = db_ok_expires [OF db_ok_nth [OF assms(1,2)], of k]
  show ?thesis
  proof (cases "map_of (expires (db s ! d)) k")
    case None
    with assms(2,3) show ?thesis by (simp add: getExpire_def getdb_def ttl_of_def dictFind_def)
  next
    case (Some w)
    with x obtain a where "map_of (dict (db s ! d)) k = Some a" by (cases "map_of (dict (db s ! d)) k") auto
    with Some assms(2,3) show ?thesis by (auto simp: getExpire_def getdb_def ttl_of_def dictFind_def)
  qed
qed

lemma expireIfNeeded_live:
  assumes "srv_ok R s" "d < length (db s)" "sds_of s key = Some k" "\<not> expired s d k"
  shows "\<exists>b. expireIfNeeded d key s = Some (b, s)"
  using assms(4) getExpire_ok [OF assms(1-3)]
  by (cases "ttl_of s d k") (auto simp: expireIfNeeded_def expired_def)

definition expire_entry :: "nat \<Rightarrow> string \<Rightarrow> server \<Rightarrow> server" where
  "expire_entry d k s =
     s\<lparr>db := (db s)[d := del_entry k (db s ! d)], stat_expiredkeys := stat_expiredkeys s + 1,
       effects := effects s @ [PropagateDel d k, Notify ''expired'' k d]\<rparr>"

lemma expireIfNeeded_expired:
  assumes ok: "srv_ok R s" and d: "d < length (db s)" and k: "sds_of s key = Some k" "expired s d k"
  obtains h' where "expireIfNeeded d key s = Some (True, (expire_entry d k s)\<lparr>heap := h'\<rparr>)"
    "srv_ok R ((expire_entry d k s)\<lparr>heap := h'\<rparr>)" "heap_le h' (heap s)"
proof -
  from k(2) obtain w where w: "ttl_of s d k = Some w" "0 \<le> w" "w < mstime s" "\<not> loading s" "\<not> masterhost s"
    by (auto simp: expired_def)
  then obtain a where a: "keys_of s d k = Some a"
    using db_ok_expires [OF db_ok_nth [OF ok d], of k] by (cases "keys_of s d k") (auto simp: keys_of_def ttl_of_def)
  let ?s = "s\<lparr>stat_expiredkeys := stat_expiredkeys s + 1,
              effects := effects s @ [PropagateDel d k, Notify ''expired'' k d]\<rparr>"
  have ok': "srv_ok R ?s" by (rule srv_ok_same_refs [OF ok]) simp_all
  obtain h' where
    "dbDelete d key ?s = Some (True, ?s\<lparr>heap := h', db := (db s)[d := del_entry k (db s ! d)]\<rparr>)"
    "srv_ok R (?s\<lparr>heap := h', db := (db s)[d := del_entry k (db s ! d)]\<rparr>)" "heap_le h' (heap s)"
    using dbDelete_present [OF ok', of d key k a] d k(1) a by (auto simp: sds_of_def keys_of_def)
  with w k(1) getExpire_ok [OF ok d k(1)] show thesis
    by (intro that [of h'])
      (simp_all add: expireIfNeeded_def propagateExpire_def notifyKeyspaceEvent_def expire_entry_def sds_of_def)
qed


section \<open>Lookup\<close>

lemma dict_value_live:
  assumes ok: "srv_ok R s" and d: "d < length (db s)" and a: "keys_of s d k = Some a"
  obtains ob where "heap s a = Some ob" "obj_ok ob" "1 \<le> refcount ob"
proof -
  have "a \<in># dict_refs (db s ! d)"
    using a by (force simp: keys_of_def dict_refs_def dest: map_of_SomeD)
  moreover have "db_refs (db s) = dict_refs (db s ! d) + db_refs ((db s)[d := empty_db])"
    using db_refs_upd [OF d, of empty_db] by (simp add: dict_refs_def empty_db_def ac_simps)
  ultimately have "a \<in># state_refs s" by (simp add: state_refs_def)
  then have pos: "0 < count (R + state_refs s) a + shared_ref a" by simp
  then obtain ob where ob: "heap s a = Some ob" "obj_ok ob"
    "int (count (R + state_refs s) a + shared_ref a) \<le> refcount ob"
    by (rule srv_ok_live [OF ok])
  from pos ob(3) have "1 \<le> refcount ob" by linarith
  with ob that show thesis by blast
qed

lemma lookupKey_ok:
  assumes "srv_ok R s" "d < length (db s)" "sds_of s key = Some k"
  shows "lookupKey d key s = Some (keys_of s d k)"
proof (cases "keys_of s d k")
  case None
  with assms(2,3) show ?thesis by (simp add: lookupKey_def getdb_def keys_of_def dictFind_def)
next
  case (Some a)
  from dict_value_live [OF assms(1,2) Some] obtain ob where "heap s a = Some ob" by metis
  with Some assms(2,3) show ?thesis by (simp add: lookupKey_def getdb_def keys_of_def dictFind_def)
qed

lemma lookupKeyWrite_live:
  assumes "srv_ok R s" "d < length (db s)" "sds_of s key = Some k" "\<not> expired s d k"
  shows "lookupKeyWrite d key s = Some (keys_of s d k, s)"
proof -
  obtain b where "expireIfNeeded d key s = Some (b, s)" using expireIfNeeded_live [OF assms] by blast
  then show ?thesis by (simp add: lookupKeyWrite_def lookupKey_ok [OF assms(1-3)])
qed

definition count_lookup :: "addr option \<Rightarrow> server \<Rightarrow> server" where
  "count_lookup v s =
     (case v of
        None \<Rightarrow> s\<lparr>stat_keyspace_misses := stat_keyspace_misses s + 1\<rparr>
      | Some _ \<Rightarrow> s\<lparr>stat_keyspace_hits := stat_keyspace_hits s + 1\<rparr>)"

lemma lookupKeyRead_live:
  assumes "srv_ok R s" "d < length (db s)" "sds_of s key = Some k" "\<not> expired s d k"
  shows "lookupKeyRead d key s = Some (keys_of s d k, count_lookup (keys_of s d k) s)"
proof -
  obtain b where "expireIfNeeded d key s = Some (b, s)" using expireIfNeeded_live [OF assms] by blast
  then show ?thesis by (simp add: lookupKeyRead_def lookupKey_ok [OF assms(1-3)] count_lookup_def)
qed


section \<open>Insertion and replacement\<close>

definition watchers :: "server \<Rightarrow> nat \<Rightarrow> string \<Rightarrow> int list" where
  "watchers s d k = (case map_of (watched_keys (db s ! d)) k of None \<Rightarrow> [] | Some cs \<Rightarrow> cs)"

lemma signalModifiedKey_ok:
  assumes "d < length (db s)" "sds_of s key = Some k"
  shows "signalModifiedKey d key s = Some (s\<lparr>dirty_cas := watchers s d k @ dirty_cas s\<rparr>)"
  using assms
  by (auto simp: signalModifiedKey_def touchWatchedKey_def getdb_def dictFind_def watchers_def split: option.splits)

lemma held_sds:
  assumes "heap_le h' (heap s)" "srv_ok R s'" "heap s' = h'" "key \<in># R" "sds_of s key = Some k"
  shows "sds_of s' key = Some k"
proof -
  from assms(4) obtain R' where "R = add_mset key R'" by (meson mset_add)
  with assms(2) obtain ob where "heap s' key = Some ob" by (metis held_live)
  with assms(1,3,5) show ?thesis
    by (auto simp: sds_of_Some same_val_def elim!: heap_leD)
qed

text \<open>Storing the value wakes no client blocked on the key.\<close>

definition quiet :: "server \<Rightarrow> nat \<Rightarrow> string \<Rightarrow> robj \<Rightarrow> bool" where
  "quiet s d k ob \<longleftrightarrow> (otype ob = REDIS_LIST \<longrightarrow> k \<notin> set (blocking_keys (db s ! d)))"

text \<open>The value replaces what the key held, whether the key was there or not.\<close>

lemma store_rule:
  assumes ok: "srv_ok (add_mset val R) s" and d: "d < length (db s)" and k: "sds_of s key = Some k"
    and v: "heap s val = Some ov" "quiet s d k ov"
  obtains h' x where
    "(if keys_of s d k = None then dbAdd d key val s else dbOverwrite d key val s) =
       Some (s\<lparr>heap := h', db := (db s)[d := x]\<rparr>)"
    "srv_ok R (s\<lparr>heap := h', db := (db s)[d := x]\<rparr>)" "heap_le h' (heap s)"
    "map_of (dict x) = (keys_of s d)(k \<mapsto> val)" "expires x = expires (db s ! d)"
    "watched_keys x = watched_keys (db s ! d)"
proof (cases "keys_of s d k")
  case None
  let ?x = "(db s ! d)\<lparr>dict := (k, val) # dict (db s ! d)\<rparr>"
  have x: "db_ok (db s ! d)" using db_ok_nth [OF ok d] .
  have "srv_ok R (s\<lparr>db := (db s)[d := ?x]\<rparr>)"
    using None by (intro srv_ok_db [OF ok d db_ok_add [OF x]]) (simp_all add: keys_of_def)
  moreover have "dbAdd d key val s = Some (s\<lparr>db := (db s)[d := ?x]\<rparr>)"
    using None d k v
    by (auto simp: dbAdd_def getdb_def keys_of_def dictFind_def upd_db_def obj_def quiet_def signalListAsReady_def
        sds_of_def Let_def)
  ultimately show thesis
    using None by (intro that [where h' = "heap s" and x = ?x]) (auto simp: keys_of_def)
next
  case (Some old)
  let ?x = "(db s ! d)\<lparr>dict := AList.update k val (dict (db s ! d))\<rparr>"
  have x: "db_ok (db s ! d)" using db_ok_nth [OF ok d] .
  have "add_mset old (dict_refs ?x) = add_mset val (dict_refs (db s ! d))"
    using dict_refs_update [OF x] Some by (simp add: keys_of_def)
  then have "srv_ok (add_mset old R) (s\<lparr>db := (db s)[d := ?x]\<rparr>)"
    by (intro srv_ok_db [OF ok d db_ok_update [OF x]]) simp
  from decrRefCount_rule [OF this] obtain h' where
    h': "decrRefCount old (s\<lparr>db := (db s)[d := ?x]\<rparr>) = Some (s\<lparr>heap := h', db := (db s)[d := ?x]\<rparr>)"
    "srv_ok R (s\<lparr>heap := h', db := (db s)[d := ?x]\<rparr>)" "heap_le h' (heap s)"
    by auto
  moreover have "dbOverwrite d key val s = Some (s\<lparr>heap := h', db := (db s)[d := ?x]\<rparr>)"
    using Some d k h'(1)
    by (simp add: dbOverwrite_def dictReplace_val_def getdb_def keys_of_def dictFind_def upd_db_def)
  ultimately show thesis
    using Some by (intro that [where h' = h' and x = ?x]) (auto simp: keys_of_def AList.update_conv')
qed


lemma removeExpire_rule:
  assumes ok: "srv_ok R s" and d: "d < length (db s)" and k: "sds_of s key = Some k" "keys_of s d k = Some a"
  shows "removeExpire d key s = Some (ttl_of s d k \<noteq> None,
      s\<lparr>db := (db s)[d := (db s ! d)\<lparr>expires := AList.delete k (expires (db s ! d))\<rparr>]\<rparr>)"
    and "srv_ok R (s\<lparr>db := (db s)[d := (db s ! d)\<lparr>expires := AList.delete k (expires (db s ! d))\<rparr>]\<rparr>)"
proof -
  show "removeExpire d key s = Some (ttl_of s d k \<noteq> None,
      s\<lparr>db := (db s)[d := (db s ! d)\<lparr>expires := AList.delete k (expires (db s ! d))\<rparr>]\<rparr>)"
    using d k by (simp add: removeExpire_def getdb_def keys_of_def ttl_of_def dictFind_def dictDelete_def upd_db_def)
  show "srv_ok R (s\<lparr>db := (db s)[d := (db s ! d)\<lparr>expires := AList.delete k (expires (db s ! d))\<rparr>]\<rparr>)"
    by (rule srv_ok_db [OF ok d db_ok_unexpire [OF db_ok_nth [OF ok d]]]) simp
qed

text \<open>The state of a database after \<^verbatim>\<open>setKey\<close>: the new binding, no expire time, the rest unchanged.\<close>

definition set_entry :: "string \<Rightarrow> addr \<Rightarrow> redisDb \<Rightarrow> redisDb \<Rightarrow> bool" where
  "set_entry k a x x' \<longleftrightarrow> map_of (dict x') = (map_of (dict x))(k \<mapsto> a) \<and>
     expires x' = AList.delete k (expires x) \<and> watched_keys x' = watched_keys x"

lemma setKey_rule:
  assumes ok: "srv_ok (add_mset val R) s" and d: "d < length (db s)" and k: "sds_of s key = Some k"
    and key: "key \<in># R" and live: "\<not> expired s d k" and v: "heap s val = Some ov" "quiet s d k ov"
  obtains h' x where
    "setKey d key val s =
       Some (s\<lparr>heap := h', db := (db s)[d := x], dirty_cas := watchers s d k @ dirty_cas s\<rparr>)"
    "srv_ok (add_mset val R) (s\<lparr>heap := h', db := (db s)[d := x], dirty_cas := watchers s d k @ dirty_cas s\<rparr>)"
    "heap_le h' (heap s)" "set_entry k val (db s ! d) x"
proof -
  obtain h1 x where
    st: "(if keys_of s d k = None then dbAdd d key val s else dbOverwrite d key val s) =
       Some (s\<lparr>heap := h1, db := (db s)[d := x]\<rparr>)"
    and ok1: "srv_ok R (s\<lparr>heap := h1, db := (db s)[d := x]\<rparr>)" (is "srv_ok R ?s1") and le1: "heap_le h1 (heap s)"
    and x: "map_of (dict x) = (keys_of s d)(k \<mapsto> val)" "expires x = expires (db s ! d)"
    "watched_keys x = watched_keys (db s ! d)"
    by (rule store_rule [OF ok d k v])
  have "keys_of ?s1 d k = Some val" using d x by (simp add: keys_of_def)
  with d obtain ov1 where v1: "heap ?s1 val = Some ov1"
    using dict_value_live [OF ok1, of d k val] by auto
  let ?h2 = "h1(val \<mapsto> ov1\<lparr>refcount := refcount ov1 + 1\<rparr>)"
  let ?s2 = "s\<lparr>heap := ?h2, db := (db s)[d := x]\<rparr>"
  have s2: "incrRefCount val ?s1 = Some ?s2" "srv_ok (add_mset val R) ?s2"
    using incrRefCount_rule [OF ok1 v1] by simp_all
  have le2: "heap_le ?h2 (heap s)"
    using heap_le_trans [OF heap_le_upd le1, of val ov1 "ov1\<lparr>refcount := refcount ov1 + 1\<rparr>"] v1 by simp
  have k2: "sds_of ?s2 key = Some k"
    using held_sds [OF le2 s2(2) _ _ k] key by simp
  let ?x = "x\<lparr>expires := AList.delete k (expires x)\<rparr>"
  let ?s3 = "s\<lparr>heap := ?h2, db := (db s)[d := ?x]\<rparr>"
  have s3: "removeExpire d key ?s2 = Some (ttl_of ?s2 d k \<noteq> None, ?s3)" "srv_ok (add_mset val R) ?s3"
    using removeExpire_rule [OF s2(2) _ k2, of d val] d x by (simp_all add: keys_of_def)
  let ?s4 = "s\<lparr>heap := ?h2, db := (db s)[d := ?x], dirty_cas := watchers s d k @ dirty_cas s\<rparr>"
  have "sds_of ?s3 key = Some k" using k2 by (simp add: sds_of_def)
  then have "signalModifiedKey d key ?s3 = Some ?s4"
    using signalModifiedKey_ok [of d ?s3] d x by (simp add: watchers_def)
  moreover have "srv_ok (add_mset val R) ?s4" by (rule srv_ok_same_refs [OF s3(2)]) simp_all
  moreover have "set_entry k val (db s ! d) ?x" using x by (simp add: set_entry_def keys_of_def)
  moreover have "setKey d key val s = signalModifiedKey d key ?s3"
    using st s2(1) s3(1)
    by (simp add: setKey_def lookupKeyWrite_live [OF ok d k live] split del: if_split)
  ultimately show thesis using le2 by (intro that [where h' = ?h2 and x = ?x]) simp_all
qed



section \<open>RENAME\<close>

lemma setExpire_rule:
  assumes ok: "srv_ok R s" and d: "d < length (db s)" and k: "sds_of s key = Some k" "keys_of s d k = Some a"
  shows "setExpire d key w s =
      Some (s\<lparr>db := (db s)[d := (db s ! d)\<lparr>expires := AList.update k w (expires (db s ! d))\<rparr>]\<rparr>)"
    and "srv_ok R (s\<lparr>db := (db s)[d := (db s ! d)\<lparr>expires := AList.update k w (expires (db s ! d))\<rparr>]\<rparr>)"
proof -
  show "setExpire d key w s =
      Some (s\<lparr>db := (db s)[d := (db s ! d)\<lparr>expires := AList.update k w (expires (db s ! d))\<rparr>]\<rparr>)"
    using d k by (simp add: setExpire_def getdb_def keys_of_def dictFind_def upd_db_def)
  show "srv_ok R (s\<lparr>db := (db s)[d := (db s ! d)\<lparr>expires := AList.update k w (expires (db s ! d))\<rparr>]\<rparr>)"
    using k(2) by (intro srv_ok_db [OF ok d db_ok_expire [OF db_ok_nth [OF ok d]]]) (simp_all add: keys_of_def)
qed

text \<open>The database after a rename onto a free name: the value and its expire time have moved.\<close>

definition rename_entry :: "string \<Rightarrow> string \<Rightarrow> redisDb \<Rightarrow> redisDb \<Rightarrow> bool" where
  "rename_entry k1 k2 x x' \<longleftrightarrow>
     map_of (dict x') = (map_of (dict x))(k1 := None, k2 := map_of (dict x) k1) \<and>
     map_of (expires x') = (map_of (expires x))(k1 := None,
        k2 := (if map_of (expires x) k1 = Some (- 1) then None else map_of (expires x) k1)) \<and>
     watched_keys x' = watched_keys x"

text \<open>The server after it.\<close>

definition rename_result :: "nat \<Rightarrow> string \<Rightarrow> string \<Rightarrow> (addr \<rightharpoonup> robj) \<Rightarrow> redisDb \<Rightarrow> server \<Rightarrow> server" where
  "rename_result d k1 k2 h x s =
     s\<lparr>heap := h, db := (db s)[d := x], dirty := dirty s + 1,
       dirty_cas := watchers s d k2 @ watchers s d k1 @ dirty_cas s,
       effects := effects s @ [Notify ''rename_from'' k1 d, Notify ''rename_to'' k2 d]\<rparr>"

text \<open>First half: the value is stored, with its expire time, under the new name.\<close>

lemma rename_store:
  assumes ok: "srv_ok R s" and d: "d < length (db s)"
    and k1: "sds_of s src = Some k1" "keys_of s d k1 = Some a" "heap s a = Some oa" "quiet s d k2 oa"
    and k2: "sds_of s dst = Some k2" "keys_of s d k2 = None" "dst \<in># R"
  obtains h x s2 s5 s6 where
    "incrRefCount a s = Some s2" "getExpire d src s2 = Some (case ttl_of s d k1 of None \<Rightarrow> - 1 | Some w \<Rightarrow> w)"
    "lookupKeyWrite d dst s2 = Some (None, s2)" "dbAdd d dst a s2 = Some s5"
    "(if (case ttl_of s d k1 of None \<Rightarrow> - 1 | Some w \<Rightarrow> w) \<noteq> - 1
      then setExpire d dst (case ttl_of s d k1 of None \<Rightarrow> - 1 | Some w \<Rightarrow> w) s5 else Some s5) = Some s6"
    "s6 = s\<lparr>heap := h, db := (db s)[d := x]\<rparr>" "srv_ok R s6" "heap_le h (heap s)"
    "map_of (dict x) = (keys_of s d)(k2 \<mapsto> a)" "watched_keys x = watched_keys (db s ! d)"
    "map_of (expires x) = (ttl_of s d)(k2 := (if ttl_of s d k1 = Some (- 1) then None else ttl_of s d k1))"
proof -
  let ?w = "case ttl_of s d k1 of None \<Rightarrow> - 1 | Some w \<Rightarrow> w"
  let ?s2 = "s\<lparr>heap := (heap s)(a \<mapsto> oa\<lparr>refcount := refcount oa + 1\<rparr>)\<rparr>"
  have s2: "incrRefCount a s = Some ?s2" "srv_ok (add_mset a R) ?s2"
    using incrRefCount_rule [OF ok k1(3)] by simp_all
  have le2: "heap_le (heap ?s2) (heap s)" using k1(3) by (simp add: heap_le_upd)
  have sds2: "sds_of ?s2 src = Some k1" "sds_of ?s2 dst = Some k2"
    using k1(1,3) k2(1) by (auto simp: sds_of_def)
  have d2: "d < length (db ?s2)" using d by simp
  have no_ttl: "ttl_of s d k2 = None"
    using db_ok_expires [OF db_ok_nth [OF ok d]] k2(2) by (simp add: keys_of_def ttl_of_def)
  have dst: "lookupKeyWrite d dst ?s2 = Some (None, ?s2)"
    using lookupKeyWrite_live [OF s2(2) d2 sds2(2)] k2(2) no_ttl
    by (simp add: expired_def keys_of_def ttl_of_def)
  have none2: "keys_of ?s2 d k2 = None" and heap2: "heap ?s2 a = Some (oa\<lparr>refcount := refcount oa + 1\<rparr>)"
    using k2(2) by (simp_all add: keys_of_def)
  have quiet2: "quiet ?s2 d k2 (oa\<lparr>refcount := refcount oa + 1\<rparr>)" using k1(4) by (simp add: quiet_def)
  obtain h x where st0: "(if keys_of ?s2 d k2 = None then dbAdd d dst a ?s2 else dbOverwrite d dst a ?s2) =
      Some (?s2\<lparr>heap := h, db := (db ?s2)[d := x]\<rparr>)"
    and ok5': "srv_ok R (?s2\<lparr>heap := h, db := (db ?s2)[d := x]\<rparr>)"
    and le5: "heap_le h (heap ?s2)" and x': "map_of (dict x) = (keys_of ?s2 d)(k2 \<mapsto> a)"
    "expires x = expires (db ?s2 ! d)" "watched_keys x = watched_keys (db ?s2 ! d)"
    by (rule store_rule [OF s2(2) d2 sds2(2) heap2 quiet2])
  have st: "dbAdd d dst a ?s2 = Some (s\<lparr>heap := h, db := (db s)[d := x]\<rparr>)" (is "_ = Some ?s5")
    using st0 none2 by simp
  have ok5: "srv_ok R ?s5" using ok5' by simp
  have x: "map_of (dict x) = (keys_of s d)(k2 \<mapsto> a)"
    "expires x = expires (db s ! d)" "watched_keys x = watched_keys (db s ! d)"
    using x' by (simp_all add: keys_of_def)
  have le: "heap_le h (heap s)" by (rule heap_le_trans [OF le5 le2])
  have sds5: "sds_of ?s5 dst = Some k2" by (rule held_sds [OF le ok5 _ k2(3,1)]) simp
  have k5: "keys_of ?s5 d k2 = Some a" using d x by (simp add: keys_of_def)
  have exp: "getExpire d src ?s2 = Some ?w"
    using getExpire_ok [OF s2(2) d2 sds2(1)] by (simp add: ttl_of_def)
  show thesis
  proof (cases "?w = - 1")
    case True
    then have "(if ttl_of s d k1 = Some (- 1) then None else ttl_of s d k1) = None"
      by (cases "ttl_of s d k1") auto
    with True s2 exp dst st ok5 le x no_ttl show thesis
      by (intro that [of ?s2 ?s5 ?s5 x h]) (auto simp: ttl_of_def)
  next
    case False
    let ?x = "x\<lparr>expires := AList.update k2 ?w (expires x)\<rparr>"
    have "setExpire d dst ?w ?s5 = Some (s\<lparr>heap := h, db := (db s)[d := ?x]\<rparr>)"
      "srv_ok R (s\<lparr>heap := h, db := (db s)[d := ?x]\<rparr>)"
      using setExpire_rule [OF ok5 _ sds5 k5, of ?w] d by simp_all
    moreover have "(if ttl_of s d k1 = Some (- 1) then None else ttl_of s d k1) = Some ?w"
      using False by (cases "ttl_of s d k1") auto
    ultimately show thesis
      using False s2 exp dst st le x
      by (intro that [of ?s2 ?s5 "s\<lparr>heap := h, db := (db s)[d := ?x]\<rparr>" ?x h]) (auto simp: ttl_of_def AList.update_conv')
  qed
qed


lemma rename_rule:
  assumes ok: "srv_ok R s" and d: "cdb c < length (db s)" and args: "arg c 1 = Some src" "arg c 2 = Some dst"
    and k1: "sds_of s src = Some k1" "keys_of s (cdb c) k1 = Some a" "heap s a = Some oa" "quiet s (cdb c) k2 oa"
    and k2: "sds_of s dst = Some k2" "keys_of s (cdb c) k2 = None"
    and held: "src \<in># R" "dst \<in># R" and live: "\<not> expired s (cdb c) k1"
  obtains h x where
    "renameGenericCommand nx c s =
       Some (addReply (if nx then ROne else ROk) c, rename_result (cdb c) k1 k2 h x s)"
    "srv_ok R (rename_result (cdb c) k1 k2 h x s)" "heap_le h (heap s)" "rename_entry k1 k2 (db s ! cdb c) x"
proof -
  define d' where "d' = cdb c"
  have neq: "k1 \<noteq> k2" using k1(2) k2(2) by auto
  obtain h x s2 s5 s6 where st: "incrRefCount a s = Some s2"
    "getExpire d' src s2 = Some (case ttl_of s d' k1 of None \<Rightarrow> - 1 | Some w \<Rightarrow> w)"
    "lookupKeyWrite d' dst s2 = Some (None, s2)" "dbAdd d' dst a s2 = Some s5"
    "(if (case ttl_of s d' k1 of None \<Rightarrow> - 1 | Some w \<Rightarrow> w) \<noteq> - 1
      then setExpire d' dst (case ttl_of s d' k1 of None \<Rightarrow> - 1 | Some w \<Rightarrow> w) s5 else Some s5) = Some s6"
    and s6: "s6 = s\<lparr>heap := h, db := (db s)[d' := x]\<rparr>" "srv_ok R s6" "heap_le h (heap s)"
    and x: "map_of (dict x) = (keys_of s d')(k2 \<mapsto> a)" "watched_keys x = watched_keys (db s ! d')"
      "map_of (expires x) = (ttl_of s d')(k2 := (if ttl_of s d' k1 = Some (- 1) then None else ttl_of s d' k1))"
    using d k1 k2 held(2) unfolding d'_def [symmetric] by (rule rename_store [OF ok])
  have d6: "d' < length (db s6)" "db s6 ! d' = x" using d s6(1) by (simp_all add: d'_def)
  have sds6: "sds_of s6 src = Some k1" "sds_of s6 dst = Some k2"
    using held_sds [OF s6(3,2) _ _ k1(1)] held_sds [OF s6(3,2) _ _ k2(1)] held s6(1) by simp_all
  have "keys_of s6 d' k1 = Some a" using x(1) neq k1(2) d6 by (simp add: keys_of_def d'_def)
  then obtain h7 where
    s7: "dbDelete d' src s6 = Some (True, s6\<lparr>heap := h7, db := (db s6)[d' := del_entry k1 (db s6 ! d')]\<rparr>)"
    and ok7: "srv_ok R (s6\<lparr>heap := h7, db := (db s6)[d' := del_entry k1 (db s6 ! d')]\<rparr>)"
    and le7: "heap_le h7 (heap s6)"
    by (rule dbDelete_present [OF s6(2) d6(1) sds6(1)])
  let ?x = "del_entry k1 x"
  let ?s7 = "s\<lparr>heap := h7, db := (db s)[d' := ?x]\<rparr>"
  have s7': "dbDelete d' src s6 = Some (True, ?s7)" and ok7': "srv_ok R ?s7"
    using s7 ok7 d6 s6(1) by simp_all
  have le: "heap_le h7 (heap s)" using heap_le_trans [OF le7] s6(1,3) by simp
  have sds7: "sds_of ?s7 src = Some k1" "sds_of ?s7 dst = Some k2"
    using held_sds [OF le ok7' _ _ k1(1)] held_sds [OF le ok7' _ _ k2(1)] held by simp_all
  have w: "watchers ?s7 d' k = watchers s d' k" for k
    using d x(2) by (simp add: watchers_def del_entry_def d'_def)
  have sig: "signalModifiedKey d' src ?s7 = Some (?s7\<lparr>dirty_cas := watchers s d' k1 @ dirty_cas s\<rparr>)"
    using signalModifiedKey_ok [OF _ sds7(1), of d'] d w by (simp add: d'_def)
  have sig2: "signalModifiedKey d' dst (?s7\<lparr>dirty_cas := watchers s d' k1 @ dirty_cas s\<rparr>) =
      Some (?s7\<lparr>dirty_cas := watchers s d' k2 @ watchers s d' k1 @ dirty_cas s\<rparr>)"
    using signalModifiedKey_ok [of d' "?s7\<lparr>dirty_cas := watchers s d' k1 @ dirty_cas s\<rparr>" dst k2] d w [of k2] sds7(2)
    by (simp add: d'_def watchers_def sds_of_def)
  have lk: "lookupKeyWriteOrReply c src RNoKey s = Some (c, Some a, s)"
    using lookupKeyWrite_live [OF ok d k1(1) live] k1(2) by (simp add: lookupKeyWriteOrReply_def)
  have "renameGenericCommand nx c s =
       Some (addReply (if nx then ROne else ROk) c, rename_result d' k1 k2 h7 ?x s)"
    using neq args k1(1) k2(1) lk st s7' sig sig2
    unfolding renameGenericCommand_def d'_def [symmetric]
    by (simp add: rename_result_def notifyKeyspaceEvent_def Let_def split del: if_split)
  moreover have "srv_ok R (rename_result d' k1 k2 h7 ?x s)"
    by (rule srv_ok_same_refs [OF ok7']) (simp_all add: rename_result_def)
  moreover have "rename_entry k1 k2 (db s ! d') ?x"
    using x neq k1(2) by (auto simp: rename_entry_def del_entry_def AList.delete_conv' keys_of_def ttl_of_def d'_def)
  ultimately show thesis using le by (intro that [of h7 ?x]) (simp_all add: d'_def)
qed


section \<open>Small states\<close>

text \<open>
  A server with one string in database 0, and objects a command can be made of. They are built
  with the operations above, so their counts are right by construction.
\<close>

definition with_entry :: "string \<Rightarrow> addr \<Rightarrow> server \<Rightarrow> server" where
  "with_entry k a s = s\<lparr>db := (db s)[0 := (db s ! 0)\<lparr>dict := (k, a) # dict (db s ! 0)\<rparr>]\<rparr>"

lemma with_entry_fields [simp]:
  "brk (with_entry k a s) = brk s" "heap (with_entry k a s) = heap s" "length (db (with_entry k a s)) = length (db s)"
  by (simp_all add: with_entry_def)

lemma with_entry_ok:
  assumes "srv_ok (add_mset a R) s" "0 < length (db s)" "keys_of s 0 k = None"
  shows "srv_ok R (with_entry k a s)"
  unfolding with_entry_def
  using assms db_ok_nth [OF assms(1,2)] by (intro srv_ok_db [OF assms(1,2)]) (auto simp: keys_of_def intro: db_ok_add)

definition one_key :: "string \<Rightarrow> string \<Rightarrow> int \<Rightarrow> server" where
  "one_key k x n = with_obj (one_string k 0) (with_entry k 10000 (with_obj (one_string x n) initServer))"

lemma one_key_fields [simp]:
  "heap (one_key k x n) = shared_integers(10000 \<mapsto> one_string x n, 10001 \<mapsto> one_string k 0)"
  "brk (one_key k x n) = 10002"
  "db (one_key k x n) = (replicate 16 empty_db)[0 := empty_db\<lparr>dict := [(k, 10000)]\<rparr>]"
  by (simp_all add: one_key_def with_entry_def empty_db_def)

lemma one_key_ok: "srv_ok {#10001#} (one_key k x n)"
proof -
  have "srv_ok {#10000#} (with_obj (one_string x n) initServer)"
    using with_obj_ok [OF srv_ok_init] by simp
  then have "srv_ok {#} (with_entry k 10000 (with_obj (one_string x n) initServer))"
    by (intro with_entry_ok) (simp_all add: keys_of_def empty_db_def)
  from with_obj_ok [OF this] show ?thesis by (simp add: one_key_def)
qed

lemma one_key_at [simp]:
  "keys_of (one_key k x n) 0 = [k \<mapsto> 10000]" "ttl_of (one_key k x n) 0 = Map.empty"
  "sds_of (one_key k x n) 10001 = Some k"
  by (simp_all add: keys_of_def ttl_of_def sds_of_def one_string_def empty_db_def)

definition on_db0 :: "addr list \<Rightarrow> client" where
  "on_db0 as = \<lparr>cid = 1, cdb = 0, fd = 5, argv = as, replies = []\<rparr>"

lemma on_db0_fields [simp]: "cdb (on_db0 as) = 0" "fd (on_db0 as) = 5" "argv (on_db0 as) = as"
  by (simp_all add: on_db0_def)


section \<open>Properties\<close>

text \<open>C13. Storing a value under a key: \<^verbatim>\<open>setKey\<close> succeeds, binds exactly that key to the value in
  that database, clears its expire time, marks the clients watching it, gives up the old value
  without freeing anything still referenced, and leaves every other key and every object that
  is still there as it was. The caller keeps its reference to the value.\<close>

theorem setKey_stores:
  assumes "srv_ok (add_mset val R) s" "d < length (db s)" "sds_of s key = Some k" "key \<in># R"
    and "\<not> expired s d k" "heap s val = Some ov" "otype ov = REDIS_STRING"
  shows "\<exists>h x. setKey d key val s =
      Some (s\<lparr>heap := h, db := (db s)[d := x], dirty_cas := watchers s d k @ dirty_cas s\<rparr>) \<and>
    srv_ok (add_mset val R) (s\<lparr>heap := h, db := (db s)[d := x], dirty_cas := watchers s d k @ dirty_cas s\<rparr>) \<and>
    heap_le h (heap s) \<and>
    map_of (dict x) = (map_of (dict (db s ! d)))(k \<mapsto> val) \<and> expires x = AList.delete k (expires (db s ! d))"
proof -
  have "quiet s d k ov" using assms(7) by (simp add: quiet_def)
  from setKey_rule [OF assms(1-6) this] show ?thesis unfolding set_entry_def by metis
qed

theorem setKey_stores_witness:
  "\<exists>s'. setKey 0 10001 10002 (with_obj (one_string ''new'' 1) (one_key ''k'' ''old'' 0)) = Some s' \<and>
     keys_of s' 0 ''k'' = Some 10002"
proof -
  let ?s = "with_obj (one_string ''new'' 1) (one_key ''k'' ''old'' 0)"
  have 1: "srv_ok {#10002, 10001#} ?s" using with_obj_ok [OF one_key_ok, of "''k''" "''old''" 0] by simp
  have 2: "0 < length (db ?s)" "sds_of ?s 10001 = Some ''k''" "10001 \<in># {#10001#}"
    by (simp_all add: sds_of_def one_string_def)
  have 3: "\<not> expired ?s 0 ''k''" by (simp add: expired_def ttl_of_def empty_db_def)
  have 4: "heap ?s 10002 = Some (one_string ''new'' 1)" "otype (one_string ''new'' 1) = REDIS_STRING"
    by (simp_all add: one_string_def)
  from setKey_stores [OF 1 2 3 4] obtain h x where
    s': "setKey 0 10001 10002 ?s = Some (?s\<lparr>heap := h, db := (db ?s)[0 := x],
           dirty_cas := watchers ?s 0 ''k'' @ dirty_cas ?s\<rparr>)"
    "map_of (dict x) = (map_of (dict (db ?s ! 0)))(''k'' \<mapsto> 10002)" by metis
  from s'(2) show ?thesis unfolding s'(1) by (simp add: keys_of_def)
qed



end
