(* ===== verification/Kvolve_Registry.thy ===== *)
theory Kvolve_Registry
  imports T_String
begin

text \<open>
  The version registry of kvolve (\<^verbatim>\<open>redis-2.8.17/src/kvolve_internal.c\<close>): the namespaces a
  program declares when it connects, the updates an operator loads, and the lookup that maps
  a key to its namespace. \<^verbatim>\<open>vers_list\<close> is a uthash table from namespace names to their
  \<^verbatim>\<open>struct version_hash\<close>; the newest entry comes first in the model.
\<close>

abbreviation (input) KV_INIT_SZ :: nat where "KV_INIT_SZ \<equiv> 20"

definition cur_vers :: "version_hash \<Rightarrow> int option" where
  "cur_vers v = (if versions v = [] then None else Some (last (versions v)))"


section \<open>Namespace lookup\<close>

text \<open>
  The lookup cuts the caller's buffer at the last colon, looks for the next shorter prefix in
  the cut buffer and puts the colon back; the result is the entry found and the buffer as it
  is left.
\<close>

lemma c_str_cut:
  assumes "rsplit CHR '':'' (c_str buf) = Some (p, q)"
  shows "c_str (buf[length p := NUL]) = p"
proof -
  obtain t where pq: "c_str buf = p @ q" "q = CHR '':'' # t" using rsplit_Some [OF assms] by blast
  obtain u where buf: "buf = c_str buf @ u" unfolding c_str_def by (metis takeWhile_dropWhile_id)
  have "NUL \<notin> set p" using pq NUL_notin_c_str [of buf] by (metis Un_iff set_append)
  moreover have "buf[length p := NUL] = p @ NUL # t @ u"
    by (subst buf) (simp add: pq list_update_append)
  ultimately show ?thesis by (simp add: c_str_append_NUL)
qed

function kvolve_version_hash_lookup :: "version_hash sdict \<Rightarrow> string \<Rightarrow> version_hash option \<times> string" where
  "kvolve_version_hash_lookup vl lookup =
     (if vl = [] then (None, lookup)
      else case rsplit CHR '':'' (c_str lookup) of
        None \<Rightarrow> (map_of vl ''*'', lookup)
      | Some (p, q) \<Rightarrow>
          (case map_of vl p of
             Some v \<Rightarrow> (Some v, lookup)
           | None \<Rightarrow>
               let cut = lookup[length p := NUL];
                   (v, buf) = (if rsplit CHR '':'' (c_str cut) \<noteq> None
                               then kvolve_version_hash_lookup vl cut else (None, cut))
               in (v, buf[length p := CHR '':''])))"
  by pat_completeness auto
termination
  by (relation "measure (\<lambda>(vl, lookup). length (c_str lookup))") (auto simp: c_str_cut length_rsplit)

declare kvolve_version_hash_lookup.simps [simp del]

text \<open>Reference: the registered prefix of a key that ends at a colon and is longest.\<close>

definition is_ns_prefix :: "string \<Rightarrow> string \<Rightarrow> bool" where
  "is_ns_prefix p k \<longleftrightarrow> (\<exists>t. k = p @ CHR '':'' # t)"

definition longest_ns :: "version_hash sdict \<Rightarrow> string \<Rightarrow> version_hash \<Rightarrow> bool" where
  "longest_ns vl k v \<longleftrightarrow> (\<exists>p. is_ns_prefix p k \<and> map_of vl p = Some v \<and>
     (\<forall>p'. is_ns_prefix p' k \<and> length p < length p' \<longrightarrow> map_of vl p' = None))"

lemma is_ns_prefix_rsplit:
  assumes "rsplit CHR '':'' k = Some (p, q)"
  shows "is_ns_prefix p' k \<longleftrightarrow> p' = p \<or> is_ns_prefix p' p"
proof -
  obtain t where t: "k = p @ CHR '':'' # t" "CHR '':'' \<notin> set t" using rsplit_Some [OF assms] by blast
  show ?thesis
  proof
    assume "is_ns_prefix p' k"
    then obtain u where u: "p' @ CHR '':'' # u = p @ CHR '':'' # t" by (auto simp: is_ns_prefix_def t(1))
    then consider us where "p' = p @ us" "us @ CHR '':'' # u = CHR '':'' # t"
      | us where "p = p' @ us" "CHR '':'' # u = us @ CHR '':'' # t"
      by (auto simp: append_eq_append_conv2)
    then show "p' = p \<or> is_ns_prefix p' p"
    proof cases
      case 1
      then show ?thesis using t(2) by (cases us) auto
    next
      case 2
      then show ?thesis by (cases us) (auto simp: is_ns_prefix_def)
    qed
  next
    assume "p' = p \<or> is_ns_prefix p' p"
    then show "is_ns_prefix p' k" by (auto simp: is_ns_prefix_def t(1))
  qed
qed

lemma is_ns_prefix_length: "is_ns_prefix p k \<Longrightarrow> length p < length k"
  by (auto simp: is_ns_prefix_def)

lemma longest_ns_step:
  assumes "rsplit CHR '':'' k = Some (p, q)"
  shows "longest_ns vl k v \<longleftrightarrow> (case map_of vl p of Some w \<Rightarrow> v = w | None \<Rightarrow> longest_ns vl p v)"
proof (cases "map_of vl p")
  case None
  then show ?thesis
    unfolding longest_ns_def is_ns_prefix_rsplit [OF assms] by auto
next
  case (Some w)
  have "longest_ns vl k w"
    unfolding longest_ns_def is_ns_prefix_rsplit [OF assms]
    using Some by (intro exI [of _ p]) (auto dest: is_ns_prefix_length)
  moreover have "v = w" if "longest_ns vl k v"
    using that Some unfolding longest_ns_def is_ns_prefix_rsplit [OF assms]
    by (auto dest: is_ns_prefix_length)
  ultimately show ?thesis using Some by auto
qed

lemma no_colon_prefix: "rsplit CHR '':'' k = None \<Longrightarrow> \<not> longest_ns vl k v"
  by (auto simp: longest_ns_def is_ns_prefix_def rsplit_None)

definition ns_found :: "version_hash sdict \<Rightarrow> string \<Rightarrow> version_hash option \<Rightarrow> bool" where
  "ns_found vl k r \<longleftrightarrow>
     (if CHR '':'' \<notin> set k then r = map_of vl ''*''
      else case r of Some v \<Rightarrow> longest_ns vl k v | None \<Rightarrow> \<forall>v. \<not> longest_ns vl k v)"

lemma cut_restore:
  assumes "rsplit CHR '':'' (c_str buf) = Some (p, q)"
  shows "(buf[length p := NUL])[length p := CHR '':''] = buf"
proof -
  obtain t where pq: "c_str buf = p @ CHR '':'' # t" using rsplit_Some [OF assms] by blast
  obtain u where "buf = c_str buf @ u" unfolding c_str_def by (metis takeWhile_dropWhile_id)
  with pq have "buf ! length p = CHR '':''" by (metis append.assoc append_Cons nth_append_length)
  then show ?thesis by (metis list_update_id list_update_overwrite)
qed

lemma version_hash_lookup_ok:
  "snd (kvolve_version_hash_lookup vl buf) = buf \<and> ns_found vl (c_str buf) (fst (kvolve_version_hash_lookup vl buf))"
proof (induction vl buf rule: kvolve_version_hash_lookup.induct)
  case (1 vl buf)
  show ?case
  proof (cases "rsplit CHR '':'' (c_str buf)")
    case None
    then have "CHR '':'' \<notin> set (c_str buf)" using rsplit_None by blast
    with None show ?thesis by (simp add: kvolve_version_hash_lookup.simps [of vl buf] ns_found_def)
  next
    case (Some pq)
    then obtain p q where pq: "rsplit CHR '':'' (c_str buf) = Some (p, q)" by (cases pq) auto
    then have colon: "CHR '':'' \<in> set (c_str buf)" by (metis rsplit_None option.distinct(1))
    note cut = c_str_cut [OF pq] cut_restore [OF pq]
    show ?thesis
    proof (cases "vl = []")
      case True
      with colon show ?thesis
        by (simp add: kvolve_version_hash_lookup.simps [of "[]" buf] ns_found_def longest_ns_def)
    next
      case vl: False
      show ?thesis
      proof (cases "map_of vl p")
        case (Some v)
        with vl pq colon show ?thesis
          by (simp add: kvolve_version_hash_lookup.simps [of vl buf] ns_found_def longest_ns_step [OF pq])
      next
        case miss: None
        have step: "ns_found vl (c_str buf) r \<longleftrightarrow> (case r of Some v \<Rightarrow> longest_ns vl p v | None \<Rightarrow> \<forall>v. \<not> longest_ns vl p v)" for r
          using colon miss by (cases r) (simp_all add: ns_found_def longest_ns_step [OF pq])
        show ?thesis
        proof (cases "rsplit CHR '':'' p")
          case None
          then show ?thesis
            using miss pq vl cut unfolding step
            by (simp add: kvolve_version_hash_lookup.simps [of vl buf] no_colon_prefix)
        next
          case S: (Some pq2)
          then have c2: "CHR '':'' \<in> set p" by (metis rsplit_None option.distinct(1))
          obtain r b where rb: "kvolve_version_hash_lookup vl (buf[length p := NUL]) = (r, b)" by fastforce
          have "b = buf[length p := NUL] \<and> ns_found vl p r"
            using 1 [OF vl pq refl miss refl] rb cut(1) S by simp
          then show ?thesis
            using miss pq vl cut S rb c2 unfolding step
            by (simp add: kvolve_version_hash_lookup.simps [of vl buf] ns_found_def)
        qed
      qed
    qed
  qed
qed


section \<open>Creating a namespace\<close>

definition intset_put :: "intset \<Rightarrow> int \<Rightarrow> intset option" where
  "intset_put is v = map_option fst (intsetAdd is v)"

text \<open>
  \<^verbatim>\<open>versions\<close> and \<^verbatim>\<open>info\<close> of a namespace made from another are those of its predecessor and
  one more entry; the arrays have room for \<^verbatim>\<open>KV_INIT_SZ\<close> entries and a write beyond is a
  fault, as is a predecessor that is not registered.
\<close>

definition kvolve_create_ns ::
  "int option \<Rightarrow> string \<Rightarrow> string option \<Rightarrow> int \<Rightarrow> kvolve_upd_info option \<Rightarrow> server \<Rightarrow> (version_hash \<times> server) option" where
  "kvolve_create_ns c ns_lookup prev v0 list s = do {
     (vs, is, vl) \<leftarrow>
       (case prev of
          None \<Rightarrow> Some ([v0], [None], vers_list s)
        | Some p \<Rightarrow> do {
            tmp \<leftarrow> map_of (vers_list s) p;
            if length (versions tmp) \<ge> KV_INIT_SZ then None
            else Some (versions tmp @ [v0], info tmp @ [list],
                       AList.update p (tmp\<lparr>next_ns := Some ns_lookup\<rparr>) (vers_list s))
          });
     ids \<leftarrow> (case c of
               Some i \<Rightarrow> intset_put intsetNew i
             | None \<Rightarrow> if loading_id s \<noteq> 0 then intset_put intsetNew (loading_id s) else Some intsetNew);
     let v = \<lparr>ns = ns_lookup, prev_ns = prev, next_ns = None, versions = vs, info = is, clients = ids\<rparr>;
     Some (v, s\<lparr>vers_list := (ns_lookup, v) # vl\<rparr>)
   }"


section \<open>Connecting: client setname ns@version,...\<close>

text \<open>
  \<^verbatim>\<open>strtok\<close> on what is left of the buffer: the token, what is left after it, and whether the
  token ended at the end of the buffer.
\<close>

definition strtok :: "char \<Rightarrow> string \<Rightarrow> (string \<times> string \<times> bool) option" where
  "strtok delim x =
     (let t = dropWhile (\<lambda>c. c = delim) x;
          r = dropWhile (\<lambda>c. c \<noteq> delim) t in
      if t = [] then None else Some (takeWhile (\<lambda>c. c \<noteq> delim) t, tl r, r = []))"

lemma strtok_shorter: "strtok delim x = Some (tok, rest, e) \<Longrightarrow> length rest < length x"
proof -
  assume *: "strtok delim x = Some (tok, rest, e)"
  let ?t = "dropWhile (\<lambda>c. c = delim) x"
  let ?r = "dropWhile (\<lambda>c. c \<noteq> delim) ?t"
  have t: "?t \<noteq> []" using * by (simp add: strtok_def Let_def split: if_splits)
  from * have "rest = tl ?r" by (simp add: strtok_def Let_def split: if_splits)
  then have "length rest = length ?r - 1" by simp
  moreover have "length ?r \<le> length ?t" by (rule length_dropWhile_le)
  moreover have "length ?t \<le> length x" by (rule length_dropWhile_le)
  moreover have "0 < length ?t" using t by simp
  ultimately show ?thesis by linarith
qed

text \<open>\<^verbatim>\<open>atoi\<close>: \<^verbatim>\<open>strtol\<close> converted to \<^verbatim>\<open>int\<close>.\<close>

definition int32 :: "int \<Rightarrow> int" where
  "int32 v = (v + 2147483648) mod 4294967296 - 2147483648"

definition atoi :: "string \<Rightarrow> int" where
  "atoi x = int32 (fst (strtoll x))"

text \<open>Closing the connection: the command is replaced by \<^verbatim>\<open>quit\<close>.\<close>

definition make_quit :: "client \<Rightarrow> server \<Rightarrow> server option" where
  "make_quit c s = do {
     a \<leftarrow> arg c 0;
     upd_obj a (\<lambda>ob. ob\<lparr>ptr := Sds ''quit''\<rparr>) s
   }"

text \<open>A null pointer from \<^verbatim>\<open>strtok\<close> goes to \<^verbatim>\<open>atoi\<close> or \<^verbatim>\<open>strlen\<close>, which is a fault.\<close>

function check_version_loop :: "client \<Rightarrow> string \<Rightarrow> server \<Rightarrow> server option" where
  "check_version_loop c buf s =
     (case strtok CHR ''@'' buf of
        None \<Rightarrow> None
      | Some (ns_lookup, r1, _) \<Rightarrow>
          (case strtok CHR '','' r1 of
             None \<Rightarrow> None
           | Some (vs, r2, at_end) \<Rightarrow>
               let vers_i = atoi vs in
               (case map_of (vers_list s) ns_lookup of
                  None \<Rightarrow>
                    (case kvolve_create_ns (Some (cid c)) ns_lookup None vers_i None s of
                       None \<Rightarrow> None
                     | Some (_, s1) \<Rightarrow> if at_end then Some s1 else check_version_loop c r2 s1)
                | Some v \<Rightarrow>
                    if cur_vers v \<noteq> Some vers_i then make_quit c s
                    else if next_ns v \<noteq> None then make_quit c s
                    else
                      (case intset_put (clients v) (cid c) of
                         None \<Rightarrow> None
                       | Some ids \<Rightarrow>
                           let s1 = s\<lparr>vers_list := AList.update ns_lookup (v\<lparr>clients := ids\<rparr>) (vers_list s)\<rparr> in
                           if at_end then Some s1 else check_version_loop c r2 s1))))"
  by pat_completeness auto
termination
  by (relation "measure (\<lambda>(c, buf, s). length buf)") (auto dest!: strtok_shorter)

declare check_version_loop.simps [simp del]

definition kvolve_check_version :: "client \<Rightarrow> server \<Rightarrow> server option" where
  "kvolve_check_version c s = do {
     a \<leftarrow> arg c 2;
     x \<leftarrow> sds_of s a;
     if CHR ''@'' \<notin> set (c_str x) then Some s else check_version_loop c (c_str x) s
   }"



section \<open>Versions of containers that are about to be created\<close>

text \<open>
  A new set, list or hash exists only after the command has run, so its version is parked in
  \<^verbatim>\<open>tmp_store\<close> and written at the next call into kvolve. An entry whose key is not there (yet)
  is kept.
\<close>

primrec prevcall_check_loop ::
  "tmp_vers_store sdict \<Rightarrow> server \<Rightarrow> (tmp_vers_store sdict \<times> server) option" where
  "prevcall_check_loop [] s = Some ([], s)"
| "prevcall_check_loop (e # es) s = do {
     dbv \<leftarrow> getdb s (tmp_db (snd e));
     case dictFind (dict dbv) (fst e) of
       None \<Rightarrow> do {
         (rest, s1) \<leftarrow> prevcall_check_loop es s;
         Some (e # rest, s1)
       }
     | Some a \<Rightarrow> do {
         s1 \<leftarrow> upd_obj a (\<lambda>ob. ob\<lparr>vers := tmp_vers (snd e)\<rparr>) s;
         prevcall_check_loop es s1
       }
   }"

definition kvolve_prevcall_check :: "server \<Rightarrow> server option" where
  "kvolve_prevcall_check s = do {
     (rest, s1) \<leftarrow> prevcall_check_loop (tmp_store s) s;
     Some (s1\<lparr>tmp_store := rest\<rparr>)
   }"

definition kvolve_new_version :: "client \<Rightarrow> version_hash \<Rightarrow> server \<Rightarrow> server option" where
  "kvolve_new_version c v s = do {
     a \<leftarrow> arg c 1;
     x \<leftarrow> sds_of s a;
     cv \<leftarrow> cur_vers v;
     Some (s\<lparr>tmp_store := AList.update (c_str x) \<lparr>tmp_vers = cv, tmp_db = cdb c\<rparr> (tmp_store s)\<rparr>)
   }"


section \<open>Loading an update\<close>

text \<open>
  \<^verbatim>\<open>kvolve_upd_redis_call("client kill id <k>")\<close>: kvolve first settles what the previous call
  left, then the command closes the connection. The text is built in a buffer of 24 bytes, so
  an identifier of more than six digits overflows it.
\<close>

definition kill_client :: "int \<Rightarrow> server \<Rightarrow> server option" where
  "kill_client k s =
     (if length (dec_int k) > 6 then None
      else do {
        s1 \<leftarrow> kvolve_prevcall_check (s\<lparr>next_client_id := next_client_id s + 1\<rparr>);
        Some (s1\<lparr>stat_numcommands := stat_numcommands s1 + 1, effects := effects s1 @ [KillClient k]\<rparr>)
      })"

text \<open>
  The loop that empties one set of client identifiers down to one. The choices of
  \<^verbatim>\<open>intsetRandom\<close> are a list of random numbers; running out of them stands for a loop that has
  not ended yet.
\<close>

primrec kill_loop :: "nat list \<Rightarrow> intset \<Rightarrow> server \<Rightarrow> (intset \<times> nat list \<times> server) option" where
  "kill_loop [] is s = (if intsetLen is > 1 then None else Some (is, [], s))"
| "kill_loop (r # rs) is s =
     (if intsetLen is > 1 then do {
        k \<leftarrow> intsetRandom is r;
        if k = loading_id s then kill_loop rs is s
        else do {
          (is1, _) \<leftarrow> intsetRemove is k;
          s1 \<leftarrow> kill_client k s;
          kill_loop rs is1 s1
        }
      }
      else Some (is, r # rs, s))"

text \<open>The walk over a namespace and its predecessors, by exact name.\<close>

partial_function (option) kill_chain :: "nat list \<Rightarrow> string \<Rightarrow> server \<Rightarrow> (nat list \<times> server) option" where
  "kill_chain rs n s =
     (case map_of (vers_list s) n of
        None \<Rightarrow> Some (rs, s)
      | Some v \<Rightarrow> do {
          r \<leftarrow> kill_loop rs (clients v) s;
          let s1 = snd (snd r);
          let s2 = s1\<lparr>vers_list := AList.update n (v\<lparr>clients := fst r\<rparr>) (vers_list s1)\<rparr>;
          case prev_ns v of
            None \<Rightarrow> Some (fst (snd r), s2)
          | Some p \<Rightarrow> kill_chain (fst (snd r)) p s2
        })"

text \<open>\<^verbatim>\<open>kvolve_upd_spec\<close>; the random numbers are those its calls of \<^verbatim>\<open>intsetRandom\<close> draw.\<close>

definition kvolve_upd_spec ::
  "nat list \<Rightarrow> string \<Rightarrow> string \<Rightarrow> int \<Rightarrow> int \<Rightarrow> fptr list \<Rightarrow> server \<Rightarrow> server option" where
  "kvolve_upd_spec rs from_n to_n from_v to_v fs s =
     (case map_of (vers_list s) from_n of
        None \<Rightarrow> Some s
      | Some vf \<Rightarrow>
          let upd = \<lparr>from_ns = from_n, to_ns = to_n, from_vers = from_v, to_vers = to_v, funs = fs\<rparr> in
          if from_n \<noteq> to_n then
            (if map_of (vers_list s) to_n \<noteq> None then Some s
             else do {
               (_, s1) \<leftarrow> kvolve_create_ns None to_n (Some from_n) to_v (Some upd) s;
               (_, s2) \<leftarrow> kill_chain rs to_n s1;
               Some s2
             })
          else if to_v \<in> set (versions vf) then Some s
          else if prev_ns vf = None \<and> cur_vers vf \<noteq> Some from_v then Some s
          else do {
            (_, s1) \<leftarrow> kill_chain rs to_n s;
            v1 \<leftarrow> map_of (vers_list s1) to_n;
            ids \<leftarrow> intset_put (clients v1) (loading_id s1);
            let v2 = v1\<lparr>clients := ids\<rparr>;
            let s2 = s1\<lparr>vers_list := AList.update to_n v2 (vers_list s1)\<rparr>;
            if length (versions v2) > KV_INIT_SZ then Some s2
            else if length (versions v2) = KV_INIT_SZ then None
            else Some (s2\<lparr>vers_list := AList.update to_n
                          (v2\<lparr>versions := versions v2 @ [to_v], info := info v2 @ [Some upd]\<rparr>) (vers_list s2)\<rparr>)
          })"

text \<open>
  Loading an update module: the file system and the dynamic linker are a parameter that gives,
  for a path, the constructor the module runs, or nothing if it cannot be loaded.
\<close>

definition kvolve_load_update ::
  "(string \<Rightarrow> (server \<Rightarrow> server option) option) \<Rightarrow> client \<Rightarrow> string \<Rightarrow> server \<Rightarrow> server option" where
  "kvolve_load_update dl c upd_code s =
     (case dl upd_code of
        None \<Rightarrow> Some (s\<lparr>loading_id := 0\<rparr>)
      | Some constructor_fun \<Rightarrow> do {
          s1 \<leftarrow> constructor_fun (s\<lparr>loading_id := cid c\<rparr>);
          Some (s1\<lparr>loading_id := 0\<rparr>)
        })"


section \<open>The xx and nx flags of SET\<close>

definition kvolve_get_flags :: "client \<Rightarrow> server \<Rightarrow> (bool \<times> bool) option" where
  "kvolve_get_flags c s =
     fold (\<lambda>p acc. do {
         (nx, xx) \<leftarrow> acc;
         a \<leftarrow> sds_of s p;
         Some (if flag_is CHR ''n'' CHR ''N'' a then (True, xx)
               else if flag_is CHR ''x'' CHR ''X'' a then (nx, True)
               else (nx, xx))
       }) (drop 3 (argv c)) (Some (False, False))"

section \<open>Properties\<close>

text \<open>C36. Looking up the namespace of a key returns the registered entry whose name is the longest
  prefix of the key that ends before a colon; for a key without a colon it returns the entry of
  the global namespace ``*''. The buffer of the caller, which the search cuts at the colons, is
  the same after the call.\<close>

theorem lookup_longest_prefix:
  "snd (kvolve_version_hash_lookup vl buf) = buf \<and> ns_found vl (c_str buf) (fst (kvolve_version_hash_lookup vl buf))"
  by (rule version_hash_lookup_ok)

end
