(* ===== verification/Kvolve_Update.thy ===== *)
theory Kvolve_Update
  imports Kvolve_Registry T_Hash T_List
begin

text \<open>
  The lazy updates of kvolve (\<^verbatim>\<open>redis-2.8.17/src/kvolve_internal.c\<close>): finding a value under the
  names its key had in earlier namespaces, renaming it, and bringing a string or the elements
  of a set, hash or list to the current version by running the update functions.

  The update functions come from a module an operator loads and are a parameter \<open>U\<close>. A call
  receives the key and the value as the code passes them and may replace either by a buffer it
  allocated; it may also change the server, through \<^verbatim>\<open>kvolve_upd_redis_call\<close>. A namespace is
  passed as its registry entry at the time of the command. Sorted sets are not modelled.
\<close>

section \<open>Update functions\<close>

text \<open>
  What an update function receives: the key, the value as \<^verbatim>\<open>o->ptr\<close> is (for a hash the field,
  with its value in \<open>ua_fval\<close>), and \<^verbatim>\<open>val_len\<close>. What it leaves: a new buffer for each pointer it
  set, and \<^verbatim>\<open>val_len\<close>.
\<close>

record upd_args =
  ua_key :: string
  ua_val :: payload
  ua_fval :: payload
  ua_len :: nat

record upd_result =
  ur_key :: "string option"
  ur_val :: "string option"
  ur_fval :: "string option"
  ur_len :: nat

type_synonym upd_env = "fptr \<Rightarrow> upd_args \<Rightarrow> server \<Rightarrow> (upd_result \<times> server) option"

text \<open>A buffer read up to its terminator, and its first \<open>n\<close> bytes; reading beyond it is a fault.\<close>

definition buf_str :: "string \<Rightarrow> string option" where
  "buf_str b = (if NUL \<in> set b then Some (c_str b) else None)"

definition buf_bytes :: "string \<Rightarrow> nat \<Rightarrow> string option" where
  "buf_bytes b n = (if n \<le> length b then Some (take n b) else None)"


section \<open>Names in earlier namespaces\<close>

definition kvolve_construct_prev_name :: "string \<Rightarrow> string \<Rightarrow> string option" where
  "kvolve_construct_prev_name orig_key old_ns =
     map_option (\<lambda>(_, name). c_str old_ns @ name) (rsplit CHR '':'' (c_str orig_key))"

definition ns_entry :: "string \<Rightarrow> server \<Rightarrow> version_hash option" where
  "ns_entry p s = fst (kvolve_version_hash_lookup (vers_list s) p)"

text \<open>
  The search loop of \<^verbatim>\<open>kvolve_get_db_val\<close>. The registry may send it round in circles, so it is a
  partial function.
\<close>

partial_function (option) get_db_val_loop ::
  "client \<Rightarrow> version_hash option \<Rightarrow> server \<Rightarrow> (addr option \<times> server) option" where
  "get_db_val_loop c tmp s =
     (case tmp of
        None \<Rightarrow> Some (None, s)
      | Some v \<Rightarrow>
          (case prev_ns v of
             None \<Rightarrow> Some (None, s)
           | Some p \<Rightarrow> do {
               key \<leftarrow> arg c 1;
               k \<leftarrow> sds_of s key;
               old \<leftarrow> kvolve_construct_prev_name k p;
               let r = createStringObject old s;
               val \<leftarrow> lookupKey (cdb c) (fst r) (snd r);
               s2 \<leftarrow> zfree (fst r) (snd r);
               if val \<noteq> None then Some (val, s2)
               else get_db_val_loop c (ns_entry p s2) s2
             }))"

definition kvolve_get_db_val :: "client \<Rightarrow> version_hash \<Rightarrow> server \<Rightarrow> (addr option \<times> server) option" where
  "kvolve_get_db_val c v s = do {
     key \<leftarrow> arg c 1;
     val \<leftarrow> lookupKey (cdb c) key s;
     if val \<noteq> None then Some (val, s) else get_db_val_loop c (Some v) s
   }"

text \<open>
  \<^verbatim>\<open>kvolve_checkdel_old\<close> deletes the first earlier name that is present. The loop hands out the
  key object it stopped at.
\<close>

partial_function (option) checkdel_loop ::
  "client \<Rightarrow> version_hash option \<Rightarrow> server \<Rightarrow> (addr option \<times> server) option" where
  "checkdel_loop c tmp s =
     (case tmp of
        None \<Rightarrow> Some (None, s)
      | Some v \<Rightarrow>
          (case prev_ns v of
             None \<Rightarrow> Some (None, s)
           | Some p \<Rightarrow> do {
               key \<leftarrow> arg c 1;
               k \<leftarrow> sds_of s key;
               old \<leftarrow> kvolve_construct_prev_name k p;
               let r = createStringObject old s;
               val \<leftarrow> lookupKey (cdb c) (fst r) (snd r);
               if val \<noteq> None then Some (Some (fst r), snd r)
               else do {
                 s2 \<leftarrow> zfree (fst r) (snd r);
                 checkdel_loop c (ns_entry p s2) s2
               }
             }))"

definition kvolve_checkdel_old :: "client \<Rightarrow> version_hash \<Rightarrow> server \<Rightarrow> server option" where
  "kvolve_checkdel_old c v s =
     (if prev_ns v = None then None
      else do {
        (k, s1) \<leftarrow> checkdel_loop c (Some v) s;
        case k of
          None \<Rightarrow> Some s1
        | Some key \<Rightarrow> do {
            (_, s2) \<leftarrow> dbDelete (cdb c) key s1;
            zfree key s2
          }
      })"

text \<open>
  Renaming from the previous namespace by running RENAME on a fake client, which is on
  database 0 whatever database the command is for. \<^verbatim>\<open>argv[0]\<close> of the fake client is never read.
\<close>

definition kvolve_namespace_update :: "client \<Rightarrow> version_hash \<Rightarrow> server \<Rightarrow> server option" where
  "kvolve_namespace_update c v s = do {
     key \<leftarrow> arg c 1;
     present \<leftarrow> lookupKey (cdb c) key s;
     if present \<noteq> None then Some s
     else do {
       let (c_fake, s1) = createClient_fake s;
       k \<leftarrow> sds_of s1 key;
       p \<leftarrow> prev_ns v;
       old \<leftarrow> kvolve_construct_prev_name k p;
       let (a, s2) = createStringObject old s1;
       (_, s3) \<leftarrow> renameCommand (c_fake\<lparr>argv := [0, a, key]\<rparr>) s2;
       zfree a s3
     }
   }"

primrec check_rename_loop :: "addr list \<Rightarrow> client \<Rightarrow> version_hash \<Rightarrow> server \<Rightarrow> server option" where
  "check_rename_loop [] c_fake v s = Some s"
| "check_rename_loop (key # keys) c_fake v s = do {
     let c1 = c_fake\<lparr>argv := [0, key]\<rparr>;
     (t, s1) \<leftarrow> kvolve_get_db_val c1 v s;
     s2 \<leftarrow> (case t of
              None \<Rightarrow> Some s1
            | Some a \<Rightarrow> do {
                ob \<leftarrow> obj s1 a;
                cv \<leftarrow> cur_vers v;
                if otype ob = REDIS_STRING \<and> encoding ob = REDIS_ENCODING_INT
                then kvolve_namespace_update c1 v s1
                else if vers ob \<noteq> cv then kvolve_namespace_update c1 v s1
                else Some s1
              });
     check_rename_loop keys c_fake v s2
   }"

definition kvolve_check_rename :: "client \<Rightarrow> version_hash \<Rightarrow> nat \<Rightarrow> server \<Rightarrow> server option" where
  "kvolve_check_rename c v nargs s =
     (if prev_ns v = None then Some s
      else if length (argv c) < nargs then None
      else do {
        let (c_fake, s1) = createClient_fake s;
        check_rename_loop (drop 1 (take nargs (argv c))) (c_fake\<lparr>cdb := cdb c\<rparr>) v s1
      })"


section \<open>Replacing an element of a container\<close>

definition fake_client :: "client \<Rightarrow> server \<Rightarrow> client \<times> server" where
  "fake_client c s = (case createClient_fake s of (c_fake, s1) \<Rightarrow> (c_fake\<lparr>cdb := cdb c\<rparr>, s1))"

definition kvolve_update_set_elem :: "client \<Rightarrow> string \<Rightarrow> addr \<Rightarrow> server \<Rightarrow> (addr \<times> server) option" where
  "kvolve_update_set_elem c new_val o' s = do {
     let (c_fake, s1) = fake_client c s;
     key \<leftarrow> arg c 1;
     let (new, s2) = createStringObject new_val s1;
     (c1, s3) \<leftarrow> saddCommand (c_fake\<lparr>argv := [0, key, new]\<rparr>) s2;
     (_, s4) \<leftarrow> sremCommand (c_fake\<lparr>argv := [0, key, o']\<rparr>) s3;
     Some (new, s4)
   }"

definition kvolve_update_hash_elem ::
  "client \<Rightarrow> string \<Rightarrow> string \<Rightarrow> addr \<Rightarrow> server \<Rightarrow> (addr \<times> server) option" where
  "kvolve_update_hash_elem c new_skval new_fval o' s = do {
     let (c_fake, s1) = fake_client c s;
     key \<leftarrow> arg c 1;
     let (new_sk, s2) = createStringObject new_skval s1;
     let (new_f, s3) = createStringObject new_fval s2;
     (_, s4) \<leftarrow> hsetCommand (c_fake\<lparr>argv := [0, key, new_sk, new_f]\<rparr>) s3;
     x \<leftarrow> sds_of s4 o';
     y \<leftarrow> sds_of s4 new_sk;
     s5 \<leftarrow> (if c_str x \<noteq> c_str y then do {
              (_, s5) \<leftarrow> hdelCommand (c_fake\<lparr>argv := [0, key, o']\<rparr>) s4;
              Some s5
            } else Some s4);
     Some (new_sk, s5)
   }"

definition kvolve_update_list_elem :: "client \<Rightarrow> string \<Rightarrow> addr \<Rightarrow> server \<Rightarrow> (addr \<times> server) option" where
  "kvolve_update_list_elem c new_val o' s = do {
     let (c_fake, s1) = fake_client c s;
     key \<leftarrow> arg c 1;
     let (new, s2) = createStringObject new_val s1;
     let (before, s3) = createStringObject ''BEFORE'' s2;
     (_, s4) \<leftarrow> linsertCommand (c_fake\<lparr>argv := [0, key, before, o', new]\<rparr>) s3;
     s5 \<leftarrow> zfree before s4;
     (one, s6) \<leftarrow> createStringObjectFromLongLong 1 s5;
     (_, s7) \<leftarrow> lremCommand (c_fake\<lparr>argv := [0, key, one, o']\<rparr>) s6;
     Some (new, s7)
   }"


section \<open>The update of a value\<close>

definition set_vers :: "addr \<Rightarrow> int \<Rightarrow> server \<Rightarrow> server option" where
  "set_vers a n s = upd_obj a (\<lambda>ob. ob\<lparr>vers := n\<rparr>) s"

text \<open>A key the update function replaced is stored in the argument and then renamed to.\<close>

definition apply_key :: "client \<Rightarrow> version_hash \<Rightarrow> upd_result \<Rightarrow> server \<Rightarrow> server option" where
  "apply_key c v r s =
     (case ur_key r of
        None \<Rightarrow> Some s
      | Some buf \<Rightarrow> do {
          key \<leftarrow> arg c 1;
          k \<leftarrow> buf_str buf;
          s1 \<leftarrow> upd_obj key (\<lambda>ob. ob\<lparr>ptr := Sds k\<rparr>) s;
          kvolve_namespace_update c v s1
        })"

text \<open>
  A pointer of a hash element after the call: the new buffer, or the old characters, both read
  up to the terminator. An integer in place of a pointer is a fault.
\<close>

definition hash_text :: "string option \<Rightarrow> payload \<Rightarrow> string option" where
  "hash_text new old = (case new of Some b \<Rightarrow> buf_str b | None \<Rightarrow> (case old of Sds x \<Rightarrow> Some (c_str x) | _ \<Rightarrow> None))"

definition apply_val ::
  "client \<Rightarrow> rtype \<Rightarrow> payload \<Rightarrow> payload \<Rightarrow> upd_result \<Rightarrow> addr \<Rightarrow> server \<Rightarrow> (addr \<times> server) option" where
  "apply_val c ty oldv oldf r a s =
     (case ty of
        REDIS_STRING \<Rightarrow>
          (case ur_val r of
             None \<Rightarrow> Some (a, s)
           | Some buf \<Rightarrow> do {
               _ \<leftarrow> sds_of s a;
               x \<leftarrow> buf_bytes buf (ur_len r);
               s1 \<leftarrow> upd_obj a (\<lambda>ob. ob\<lparr>ptr := Sds x\<rparr>) s;
               s2 \<leftarrow> signalModifiedKey (cdb c) a s1;
               Some (a, s2\<lparr>dirty := dirty s2 + 1\<rparr>)
             })
      | REDIS_SET \<Rightarrow>
          (case ur_val r of
             None \<Rightarrow> Some (a, s)
           | Some buf \<Rightarrow> do { x \<leftarrow> buf_str buf; kvolve_update_set_elem c x a s })
      | REDIS_LIST \<Rightarrow>
          (case ur_val r of
             None \<Rightarrow> Some (a, s)
           | Some buf \<Rightarrow> do { x \<leftarrow> buf_str buf; kvolve_update_list_elem c x a s })
      | REDIS_HASH \<Rightarrow>
          if ur_val r = None \<and> ur_fval r = None then Some (a, s)
          else do {
            x \<leftarrow> hash_text (ur_val r) oldv;
            y \<leftarrow> hash_text (ur_fval r) oldf;
            kvolve_update_hash_elem c x y a s
          }
      | REDIS_ZSET \<Rightarrow> None)"

text \<open>The functions of one version step, in order; the object may change from one to the next.\<close>

primrec run_funs ::
  "upd_env \<Rightarrow> client \<Rightarrow> version_hash \<Rightarrow> bool \<Rightarrow> rtype \<Rightarrow> addr option \<Rightarrow> fptr list \<Rightarrow> addr \<Rightarrow> server
    \<Rightarrow> (addr \<times> server) option" where
  "run_funs U c v check_key ty fval [] a s = Some (a, s)"
| "run_funs U c v check_key ty fval (f # fs) a s = do {
     key \<leftarrow> arg c 1;
     k \<leftarrow> sds_of s key;
     ob \<leftarrow> obj s a;
     oldf \<leftarrow> (case fval of None \<Rightarrow> Some Null | Some b \<Rightarrow> do { of' \<leftarrow> obj s b; Some (ptr of') });
     len \<leftarrow> (if encoding ob = REDIS_ENCODING_RAW then map_option length (sds_of s a) else Some 0);
     (r, s1) \<leftarrow> U f \<lparr>ua_key = k, ua_val = ptr ob, ua_fval = oldf, ua_len = len\<rparr> s;
     s2 \<leftarrow> (if check_key then apply_key c v r s1 else Some s1);
     (a1, s3) \<leftarrow> apply_val c ty (ptr ob) oldf r a s2;
     run_funs U c v check_key ty fval fs a1 s3
   }"

text \<open>\<^verbatim>\<open>v->info[j]\<close>: outside the array it is a fault, and an entry may be null.\<close>

definition info_at :: "version_hash \<Rightarrow> nat \<Rightarrow> kvolve_upd_info option option" where
  "info_at v j = (if j < length (info v) then Some (info v ! j) else None)"

text \<open>The version steps still to be done, by their indices in the arrays of the namespace.\<close>

primrec run_versions ::
  "upd_env \<Rightarrow> client \<Rightarrow> version_hash \<Rightarrow> bool \<Rightarrow> rtype \<Rightarrow> addr option \<Rightarrow> nat list \<Rightarrow> addr \<Rightarrow> server
    \<Rightarrow> server option" where
  "run_versions U c v check_key ty fval [] a s = Some s"
| "run_versions U c v check_key ty fval (j # js) a s = do {
     step \<leftarrow> info_at v j;
     (a1, s1) \<leftarrow> (case step of
                    None \<Rightarrow> Some (a, s)
                  | Some ui \<Rightarrow> run_funs U c v check_key ty fval (funs ui) a s);
     s2 \<leftarrow> set_vers a1 (versions v ! j) s1;
     run_versions U c v check_key ty fval js a1 s2
   }"

text \<open>
  The index of the first step: one after the first version equal to the object's, or 0 when
  the namespace does not list that version.
\<close>

definition first_step :: "version_hash \<Rightarrow> int \<Rightarrow> nat" where
  "first_step v n =
     (let ws = takeWhile (\<lambda>w. w \<noteq> n) (versions v) in
      if length ws < length (versions v) then length ws + 1 else 0)"

definition is_shared_int :: "robj \<Rightarrow> bool" where
  "is_shared_int ob \<longleftrightarrow> encoding ob = REDIS_ENCODING_INT \<and> otype ob = REDIS_STRING \<and>
     (case ptr ob of Long n \<Rightarrow> n < int REDIS_SHARED_INTEGERS | _ \<Rightarrow> False)"

definition ns_changed :: "version_hash \<Rightarrow> nat \<Rightarrow> bool option" where
  "ns_changed v j = do {
     step \<leftarrow> info_at v j;
     Some (case step of None \<Rightarrow> False | Some ui \<Rightarrow> c_str (from_ns ui) \<noteq> c_str (ns v))
   }"

definition kvolve_check_update_kv_pair ::
  "upd_env \<Rightarrow> client \<Rightarrow> version_hash \<Rightarrow> bool \<Rightarrow> addr option \<Rightarrow> rtype \<Rightarrow> addr option \<Rightarrow> server
    \<Rightarrow> server option" where
  "kvolve_check_update_kv_pair U c v check_key o' ty fval s =
     (if upd_fun_running s then Some s
      else do {
        (t, s1) \<leftarrow> (case o' of Some a \<Rightarrow> Some (Some a, s) | None \<Rightarrow> kvolve_get_db_val c v s);
        case t of
          None \<Rightarrow> Some s1
        | Some a \<Rightarrow> do {
            ob \<leftarrow> obj s1 a;
            if is_shared_int ob then kvolve_check_rename c v 2 s1
            else do {
              cv \<leftarrow> cur_vers v;
              if vers ob = cv then Some s1
              else do {
                let s2 = s1\<lparr>upd_fun_running := True\<rparr>;
                let j = first_step v (vers ob);
                moved \<leftarrow> (if check_key then ns_changed v j else Some False);
                s3 \<leftarrow> (if moved then kvolve_namespace_update c v s2 else Some s2);
                s4 \<leftarrow> run_versions U c v check_key ty fval [j..<length (versions v)] a s3;
                Some (s4\<lparr>upd_fun_running := False\<rparr>)
              }
            }
          }
      })"


section \<open>The update of a container\<close>

primrec gather_set :: "setelem list \<Rightarrow> server \<Rightarrow> (addr list \<times> server) option" where
  "gather_set [] s = Some ([], s)"
| "gather_set (e # es) s = do {
     (a, s1) \<leftarrow> next_object e s;
     (as, s2) \<leftarrow> gather_set es s1;
     Some (a # as, s2)
   }"

primrec update_set_loop ::
  "upd_env \<Rightarrow> client \<Rightarrow> version_hash \<Rightarrow> addr \<Rightarrow> bool \<Rightarrow> addr list \<Rightarrow> server \<Rightarrow> server option" where
  "update_set_loop U c v o' first [] s = Some s"
| "update_set_loop U c v o' first (e # es) s = do {
     ob \<leftarrow> obj s o';
     s1 \<leftarrow> set_vers e (vers ob) s;
     s2 \<leftarrow> kvolve_check_update_kv_pair U c v first (Some e) REDIS_SET None s1;
     update_set_loop U c v o' False es s2
   }"

text \<open>The result is the return value: \<open>True\<close> for 1, the key does not exist under any name.\<close>

definition kvolve_update_all_set :: "upd_env \<Rightarrow> client \<Rightarrow> version_hash \<Rightarrow> server \<Rightarrow> (bool \<times> server) option" where
  "kvolve_update_all_set U c v s = do {
     (t, s1) \<leftarrow> kvolve_get_db_val c v s;
     case t of
       None \<Rightarrow> Some (True, s1)
     | Some a \<Rightarrow> do {
         ob \<leftarrow> obj s1 a;
         cv \<leftarrow> cur_vers v;
         if vers ob = cv then Some (False, s1)
         else do {
           es \<leftarrow> set_elements s1 a;
           (as, s2) \<leftarrow> gather_set es s1;
           s3 \<leftarrow> update_set_loop U c v a True as s2;
           s4 \<leftarrow> set_vers a cv s3;
           Some (False, s4)
         }
       }
   }"

primrec gather_hash :: "hashcur list \<Rightarrow> server \<Rightarrow> ((addr \<times> addr) list \<times> server) option" where
  "gather_hash [] s = Some ([], s)"
| "gather_hash (cur # curs) s = do {
     (f, s1) \<leftarrow> hashTypeCurrentObject True cur s;
     (x, s2) \<leftarrow> hashTypeCurrentObject False cur s1;
     (fs, s3) \<leftarrow> gather_hash curs s2;
     Some ((f, x) # fs, s3)
   }"

primrec update_hash_loop ::
  "upd_env \<Rightarrow> client \<Rightarrow> version_hash \<Rightarrow> addr \<Rightarrow> bool \<Rightarrow> (addr \<times> addr) list \<Rightarrow> server \<Rightarrow> server option" where
  "update_hash_loop U c v o' first [] s = Some s"
| "update_hash_loop U c v o' first (e # es) s = do {
     ob \<leftarrow> obj s o';
     s1 \<leftarrow> set_vers (fst e) (vers ob) s;
     s2 \<leftarrow> kvolve_check_update_kv_pair U c v first (Some (fst e)) REDIS_HASH (Some (snd e)) s1;
     s3 \<leftarrow> zfree (fst e) s2;
     s4 \<leftarrow> zfree (snd e) s3;
     update_hash_loop U c v o' False es s4
   }"

definition kvolve_update_all_hash :: "upd_env \<Rightarrow> client \<Rightarrow> version_hash \<Rightarrow> server \<Rightarrow> (bool \<times> server) option" where
  "kvolve_update_all_hash U c v s = do {
     (t, s1) \<leftarrow> kvolve_get_db_val c v s;
     case t of
       None \<Rightarrow> Some (True, s1)
     | Some a \<Rightarrow> do {
         ob \<leftarrow> obj s1 a;
         cv \<leftarrow> cur_vers v;
         if vers ob = cv then Some (False, s1)
         else do {
           curs \<leftarrow> hash_elements s1 a;
           (ps, s2) \<leftarrow> gather_hash curs s1;
           s3 \<leftarrow> update_hash_loop U c v a True ps s2;
           s4 \<leftarrow> set_vers a cv s3;
           Some (False, s4)
         }
       }
   }"

text \<open>The objects \<^verbatim>\<open>listTypeGet\<close> hands out for the positions of a list, from head to tail.\<close>

primrec gather_list :: "addr \<Rightarrow> nat list \<Rightarrow> server \<Rightarrow> (addr list \<times> server) option" where
  "gather_list o' [] s = Some ([], s)"
| "gather_list o' (p # ps) s = do {
     (a, s1) \<leftarrow> listTypeGet o' p s;
     (as, s2) \<leftarrow> gather_list o' ps s1;
     Some (a # as, s2)
   }"

primrec update_list_loop ::
  "upd_env \<Rightarrow> client \<Rightarrow> version_hash \<Rightarrow> addr \<Rightarrow> bool \<Rightarrow> addr list \<Rightarrow> server \<Rightarrow> server option" where
  "update_list_loop U c v o' first [] s = Some s"
| "update_list_loop U c v o' first (e # es) s = do {
     ob \<leftarrow> obj s o';
     s1 \<leftarrow> set_vers e (vers ob) s;
     s2 \<leftarrow> kvolve_check_update_kv_pair U c v first (Some e) REDIS_LIST None s1;
     s3 \<leftarrow> zfree e s2;
     update_list_loop U c v o' False es s3
   }"

definition kvolve_update_all_list :: "upd_env \<Rightarrow> client \<Rightarrow> version_hash \<Rightarrow> server \<Rightarrow> (bool \<times> server) option" where
  "kvolve_update_all_list U c v s = do {
     (t, s1) \<leftarrow> kvolve_get_db_val c v s;
     case t of
       None \<Rightarrow> Some (True, s1)
     | Some a \<Rightarrow> do {
         ob \<leftarrow> obj s1 a;
         cv \<leftarrow> cur_vers v;
         if vers ob = cv then Some (False, s1)
         else do {
           n \<leftarrow> listTypeLength s1 a;
           (as, s2) \<leftarrow> gather_list a [0..<n] s1;
           s3 \<leftarrow> update_list_loop U c v a True as s2;
           s4 \<leftarrow> set_vers a cv s3;
           Some (False, s4)
         }
       }
   }"

end
