(* ===== verification/Kvolve_Commands.thy ===== *)
theory Kvolve_Commands
  imports Kvolve_Update
begin

text \<open>
  The entry point of kvolve (\<^verbatim>\<open>redis-2.8.17/src/kvolve.c\<close>): before redis runs a command,
  \<^verbatim>\<open>kvolve_process_command\<close> brings the keys it touches up to date. One definition per handler
  of the command table.

  The surroundings a command runs in are a record: the update functions, the loader of update
  modules, the handlers of the sorted-set commands (sorted sets are not modelled), and what a
  dictionary lookup returns when it is given an object where it expects a string.
\<close>

record kv_env =
  upd_env :: upd_env
  dl_open :: "string \<Rightarrow> (server \<Rightarrow> server option) option"
  zset_call :: "string \<Rightarrow> client \<Rightarrow> version_hash \<Rightarrow> server \<Rightarrow> server option"
  stray_find :: "addr \<Rightarrow> server \<Rightarrow> bool"

type_synonym kvolve_call = "kv_env \<Rightarrow> client \<Rightarrow> version_hash \<Rightarrow> server \<Rightarrow> server option"


section \<open>Strings\<close>

definition kvolve_setnx :: kvolve_call where
  "kvolve_setnx E c v s = do {
     key \<leftarrow> arg c 1;
     here \<leftarrow> lookupKey (cdb c) key s;
     if here \<noteq> None then Some s
     else do {
       (present, s1) \<leftarrow> kvolve_get_db_val c v s;
       if present = None then Some s1 else kvolve_namespace_update c v s1
     }
   }"

definition kvolve_setxx :: kvolve_call where
  "kvolve_setxx E c v s = do {
     s1 \<leftarrow> kvolve_setnx E c v s;
     a \<leftarrow> arg c 2;
     cv \<leftarrow> cur_vers v;
     set_vers a cv s1
   }"

definition kvolve_set :: kvolve_call where
  "kvolve_set E c v s = do {
     (nx, xx) \<leftarrow> kvolve_get_flags c s;
     if xx then kvolve_setxx E c v s
     else if nx then kvolve_setnx E c v s
     else do {
       a \<leftarrow> arg c 2;
       cv \<leftarrow> cur_vers v;
       s1 \<leftarrow> set_vers a cv s;
       if prev_ns v = None then Some s1
       else do {
         dbv \<leftarrow> getdb s1 (cdb c);
         key \<leftarrow> arg c 1;
         k \<leftarrow> sds_of s1 key;
         if dictFind (dict dbv) k = None then kvolve_checkdel_old c v s1 else Some s1
       }
     }
   }"

primrec mset_each :: "nat list \<Rightarrow> kv_env \<Rightarrow> client \<Rightarrow> client \<Rightarrow> version_hash \<Rightarrow> server \<Rightarrow> server option" where
  "mset_each [] E c c_fake v s = Some s"
| "mset_each (i # is) E c c_fake v s = do {
     key \<leftarrow> arg c i;
     val \<leftarrow> arg c (i + 1);
     s1 \<leftarrow> kvolve_set E (c_fake\<lparr>argv := [0, key, val]\<rparr>) v s;
     mset_each is E c c_fake v s1
   }"

definition kvolve_mset :: kvolve_call where
  "kvolve_mset E c v s =
     (if length (argv c) mod 2 \<noteq> 1 then None
      else case fake_client c s of (c_fake, s1) \<Rightarrow> mset_each (odd_args c) E c c_fake v s1)"

definition kvolve_get :: kvolve_call where
  "kvolve_get E c v s = kvolve_check_update_kv_pair (upd_env E) c v True None REDIS_STRING None s"

primrec mget_each :: "addr list \<Rightarrow> kv_env \<Rightarrow> client \<Rightarrow> version_hash \<Rightarrow> server \<Rightarrow> server option" where
  "mget_each [] E c_fake v s = Some s"
| "mget_each (key # keys) E c_fake v s = do {
     s1 \<leftarrow> kvolve_get E (c_fake\<lparr>argv := [0, key]\<rparr>) v s;
     mget_each keys E c_fake v s1
   }"

definition kvolve_mget :: kvolve_call where
  "kvolve_mget E c v s = (case fake_client c s of (c_fake, s1) \<Rightarrow> mget_each (drop 1 (argv c)) E c_fake v s1)"

definition kvolve_getset :: kvolve_call where "kvolve_getset E c v s = kvolve_get E c v s"

definition kvolve_getrange :: kvolve_call where "kvolve_getrange E c v s = kvolve_get E c v s"

definition kvolve_del :: kvolve_call where
  "kvolve_del E c v s = kvolve_check_rename c v (length (argv c)) s"

definition kvolve_incr :: kvolve_call where
  "kvolve_incr E c v s =
     (if prev_ns v = None then Some s
      else do {
        key \<leftarrow> arg c 1;
        if stray_find E key s then Some s
        else do {
          (present, s1) \<leftarrow> kvolve_get_db_val c v s;
          if present = None then Some s1 else kvolve_namespace_update c v s1
        }
      })"

definition kvolve_incrby :: kvolve_call where "kvolve_incrby E c v s = kvolve_incr E c v s"


section \<open>Containers\<close>

definition container_read ::
  "(upd_env \<Rightarrow> client \<Rightarrow> version_hash \<Rightarrow> server \<Rightarrow> (bool \<times> server) option) \<Rightarrow> kvolve_call" where
  "container_read update E c v s = do { (_, s1) \<leftarrow> update (upd_env E) c v s; Some s1 }"

definition container_write ::
  "(upd_env \<Rightarrow> client \<Rightarrow> version_hash \<Rightarrow> server \<Rightarrow> (bool \<times> server) option) \<Rightarrow> kvolve_call" where
  "container_write update E c v s = do {
     (fresh, s1) \<leftarrow> update (upd_env E) c v s;
     if fresh then kvolve_new_version c v s1 else Some s1
   }"

definition kvolve_sismember :: kvolve_call where "kvolve_sismember = container_read kvolve_update_all_set"
definition kvolve_srem :: kvolve_call where "kvolve_srem = container_read kvolve_update_all_set"
definition kvolve_scard :: kvolve_call where "kvolve_scard = container_read kvolve_update_all_set"
definition kvolve_spop :: kvolve_call where "kvolve_spop = container_read kvolve_update_all_set"
definition kvolve_smembers :: kvolve_call where "kvolve_smembers = container_read kvolve_update_all_set"
definition kvolve_sadd :: kvolve_call where "kvolve_sadd = container_write kvolve_update_all_set"

definition kvolve_lrange :: kvolve_call where "kvolve_lrange = container_read kvolve_update_all_list"
definition kvolve_lpop :: kvolve_call where "kvolve_lpop = container_read kvolve_update_all_list"
definition kvolve_rpop :: kvolve_call where "kvolve_rpop = container_read kvolve_update_all_list"
definition kvolve_llen :: kvolve_call where "kvolve_llen = container_read kvolve_update_all_list"
definition kvolve_lset :: kvolve_call where "kvolve_lset = container_read kvolve_update_all_list"
definition kvolve_lpush :: kvolve_call where "kvolve_lpush = container_write kvolve_update_all_list"
definition kvolve_rpush :: kvolve_call where "kvolve_rpush = kvolve_lpush"

definition kvolve_hget :: kvolve_call where "kvolve_hget = container_read kvolve_update_all_hash"
definition kvolve_hmget :: kvolve_call where "kvolve_hmget = container_read kvolve_update_all_hash"
definition kvolve_hdel :: kvolve_call where "kvolve_hdel = container_read kvolve_update_all_hash"
definition kvolve_hgetall :: kvolve_call where "kvolve_hgetall = container_read kvolve_update_all_hash"
definition kvolve_hmset :: kvolve_call where "kvolve_hmset = container_write kvolve_update_all_hash"
definition kvolve_hset :: kvolve_call where "kvolve_hset = kvolve_hmset"

definition zset_handler :: "string \<Rightarrow> kvolve_call" where
  "zset_handler name E = zset_call E name"


section \<open>KEYS\<close>

text \<open>
  KEYS renames the keys whose new name matches, so that the listing shows the new names. The
  loop goes through the names the database had at its start and passes over those that a
  rename has removed since.
\<close>

definition keys_rename :: "client \<Rightarrow> addr \<Rightarrow> string \<Rightarrow> server \<Rightarrow> server option" where
  "keys_rename c a new s = do {
     s1 \<leftarrow> upd_obj a (\<lambda>ob. ob\<lparr>ptr := Sds new\<rparr>) s;
     case ns_entry new s1 of
       Some w \<Rightarrow> kvolve_namespace_update c w s1
     | None \<Rightarrow> do {
         present \<leftarrow> lookupKey (cdb c) a s1;
         if present \<noteq> None then Some s1 else None
       }
   }"

primrec keys_loop :: "client \<Rightarrow> addr \<Rightarrow> string \<Rightarrow> string list \<Rightarrow> server \<Rightarrow> server option" where
  "keys_loop c a pattern [] s = Some s"
| "keys_loop c a pattern (k # ks) s = do {
     dbv \<leftarrow> getdb s (cdb c);
     s1 \<leftarrow> (case (if dictFind (dict dbv) k = None then None else ns_entry k s) of
              None \<Rightarrow> Some s
            | Some v \<Rightarrow>
                (case next_ns v of
                   None \<Rightarrow> Some s
                 | Some n \<Rightarrow> do {
                     new \<leftarrow> kvolve_construct_prev_name k n;
                     m \<leftarrow> stringmatchlen pattern new False;
                     if m then keys_rename c a new s else Some s
                   }));
     keys_loop c a pattern ks s1
   }"

definition kvolve_keys :: "client \<Rightarrow> server \<Rightarrow> server option" where
  "kvolve_keys c s = do {
     a \<leftarrow> arg c 1;
     pattern \<leftarrow> sds_of s a;
     if c_str pattern = ''kvolve'' then upd_obj a (\<lambda>ob. ob\<lparr>ptr := Sds ''*''\<rparr>) s
     else do {
       dbv \<leftarrow> getdb s (cdb c);
       s1 \<leftarrow> keys_loop c a pattern (map fst (dict dbv)) s;
       upd_obj a (\<lambda>ob. ob\<lparr>ptr := Sds pattern\<rparr>) s1
     }
   }"

definition keys_handler :: kvolve_call where "keys_handler E c v s = kvolve_keys c s"


section \<open>The command table and the dispatcher\<close>

definition kvolveCommandTable :: "(string \<times> kvolve_call \<times> nat) list" where
  "kvolveCommandTable =
    [(''set'', kvolve_set, 3), (''mset'', kvolve_mset, 3), (''get'', kvolve_get, 2),
     (''mget'', kvolve_mget, 2), (''getset'', kvolve_getset, 3), (''getrange'', kvolve_getrange, 4),
     (''incr'', kvolve_incr, 2), (''incrby'', kvolve_incrby, 3), (''del'', kvolve_del, 2),
     (''hdel'', kvolve_hdel, 3), (''hget'', kvolve_hget, 3), (''hgetall'', kvolve_hgetall, 2),
     (''hset'', kvolve_hset, 4), (''hmset'', kvolve_hmset, 4), (''hmget'', kvolve_hmget, 3),
     (''lrange'', kvolve_lrange, 4), (''lpush'', kvolve_lpush, 3), (''lpop'', kvolve_lpop, 2),
     (''llen'', kvolve_llen, 2), (''lset'', kvolve_lset, 2), (''rpush'', kvolve_rpush, 3),
     (''rpop'', kvolve_rpop, 2), (''setnx'', kvolve_setnx, 3), (''sadd'', kvolve_sadd, 3),
     (''scard'', kvolve_scard, 3), (''spop'', kvolve_spop, 2), (''smembers'', kvolve_smembers, 2),
     (''sismember'', kvolve_sismember, 3), (''srem'', kvolve_srem, 3),
     (''zadd'', zset_handler ''zadd'', 4), (''zcard'', zset_handler ''zcard'', 2),
     (''zscore'', zset_handler ''zscore'', 3), (''zrem'', zset_handler ''zrem'', 3),
     (''zrange'', zset_handler ''zrange'', 4), (''zrevrange'', zset_handler ''zrevrange'', 4),
     (''keys'', keys_handler, 2)]"

text \<open>Every name is entered in lower and in upper case.\<close>

definition kvolve_populateCommandTable :: "(string \<times> kvolve_call \<times> nat) list" where
  "kvolve_populateCommandTable =
     concat (map (\<lambda>(n, f, m). [(n, f, m), (map toupper n, f, m)]) kvolveCommandTable)"

definition kvolve_lookup_kv_command :: "client \<Rightarrow> server \<Rightarrow> kvolve_call option option" where
  "kvolve_lookup_kv_command c s = do {
     a \<leftarrow> arg c 0;
     x \<leftarrow> sds_of s a;
     Some (case map_of kvolve_populateCommandTable (c_str x) of
             None \<Rightarrow> None
           | Some (f, min_args) \<Rightarrow> if length (argv c) < min_args then None else Some f)
   }"

definition is_setname :: "client \<Rightarrow> server \<Rightarrow> bool option" where
  "is_setname c s =
     (if length (argv c) \<noteq> 3 then Some False
      else do {
        a \<leftarrow> arg c 0;
        x \<leftarrow> sds_of s a;
        if \<not> strcaseeq x ''client'' then Some False
        else do {
          b \<leftarrow> arg c 1;
          y \<leftarrow> sds_of s b;
          Some (strcaseeq y ''setname'')
        }
      })"

definition is_keys :: "client \<Rightarrow> server \<Rightarrow> bool option" where
  "is_keys c s =
     (if length (argv c) \<noteq> 2 then Some False
      else do { a \<leftarrow> arg c 0; x \<leftarrow> sds_of s a; Some (strcaseeq x ''keys'') })"

text \<open>The three counters that a command must not see kvolve change.\<close>

definition restore_stats :: "server \<Rightarrow> server \<Rightarrow> server" where
  "restore_stats s s' =
     s'\<lparr>stat_numcommands := stat_numcommands s, stat_keyspace_hits := stat_keyspace_hits s,
        stat_keyspace_misses := stat_keyspace_misses s\<rparr>"

definition kvolve_process_command :: "kv_env \<Rightarrow> client \<Rightarrow> server \<Rightarrow> server option" where
  "kvolve_process_command E c s = do {
     s1 \<leftarrow> kvolve_prevcall_check s;
     setname \<leftarrow> is_setname c s1;
     if setname then do {
       a \<leftarrow> arg c 2;
       x \<leftarrow> sds_of s1 a;
       s2 \<leftarrow> (if strncaseeq 6 x ''update'' then kvolve_load_update (dl_open E) c (drop 6 (c_str x)) s1
              else kvolve_check_version c s1);
       Some (restore_stats s s2)
     }
     else do {
       keys \<leftarrow> is_keys c s1;
       if keys then do { s2 \<leftarrow> kvolve_keys c s1; Some (restore_stats s s2) }
       else if length (argv c) > 1 then do {
         a \<leftarrow> arg c 1;
         x \<leftarrow> sds_of s1 a;
         case ns_entry x s1 of
           None \<Rightarrow> Some s1
         | Some v \<Rightarrow> do {
             f \<leftarrow> kvolve_lookup_kv_command c s1;
             case f of
               None \<Rightarrow> Some s1
             | Some fun \<Rightarrow> do { s2 \<leftarrow> fun E c v s1; Some (restore_stats s s2) }
           }
       }
       else Some (restore_stats s s1)
     }
   }"

end
