(* ===== verification/Kvolve_Rules.thy ===== *)
theory Kvolve_Rules
  imports Kvolve_Commands Db_Rules
begin

text \<open>
  Correctness of the lazy updates: what a GET does to a string that is behind the current
  version of its namespace, when the update functions follow their documented contract.
\<close>

section \<open>Update functions that change the value only\<close>

text \<open>
  The contract of \<^verbatim>\<open>kvolve_upd.h\<close> for a function that leaves keys alone: it changes a value by
  setting the value pointer to a buffer and the length to the number of its bytes that count,
  and does nothing else. \<open>g\<close> says what the functions do to the value.
\<close>

definition value_update :: "upd_env \<Rightarrow> (fptr \<Rightarrow> string \<Rightarrow> string) \<Rightarrow> bool" where
  "value_update U g \<longleftrightarrow> (\<forall>f k x s. \<exists>r.
     U f \<lparr>ua_key = k, ua_val = Sds x, ua_fval = Null, ua_len = length x\<rparr> s = Some (r, s) \<and>
     ur_key r = None \<and>
     (case ur_val r of None \<Rightarrow> g f x = x | Some b \<Rightarrow> buf_bytes b (ur_len r) = Some (g f x)))"

text \<open>What the functions of the given version steps make of a value, in order.\<close>

definition step_funs :: "version_hash \<Rightarrow> nat \<Rightarrow> fptr list" where
  "step_funs v j = (case info v ! j of None \<Rightarrow> [] | Some ui \<Rightarrow> funs ui)"

definition upd_steps :: "(fptr \<Rightarrow> string \<Rightarrow> string) \<Rightarrow> version_hash \<Rightarrow> nat list \<Rightarrow> string \<Rightarrow> string" where
  "upd_steps g v js x = fold (\<lambda>j. fold g (step_funs v j)) js x"

lemma upd_steps_simps [simp]:
  "upd_steps g v [] x = x"
  "upd_steps g v (j # js) x = upd_steps g v js (fold g (step_funs v j) x)"
  "upd_steps g v (is @ js) x = upd_steps g v js (upd_steps g v is x)"
  by (simp_all add: upd_steps_def)

text \<open>A string object in the raw encoding, and the state after its update.\<close>

definition raw_string :: "robj \<Rightarrow> string \<Rightarrow> bool" where
  "raw_string ob x \<longleftrightarrow> otype ob = REDIS_STRING \<and> encoding ob = REDIS_ENCODING_RAW \<and> ptr ob = Sds x"

definition value_changed :: "addr \<Rightarrow> robj \<Rightarrow> server \<Rightarrow> server \<Rightarrow> bool" where
  "value_changed a ob s s' \<longleftrightarrow> (\<exists>n D. s' = s\<lparr>heap := (heap s)(a \<mapsto> ob), dirty := n, dirty_cas := D\<rparr>)"

lemma value_changed_heap: "value_changed a ob s s' \<Longrightarrow> heap s' = (heap s)(a \<mapsto> ob)"
  by (auto simp: value_changed_def)

lemma value_changed_trans:
  "value_changed a ob s s1 \<Longrightarrow> value_changed a ob' s1 s2 \<Longrightarrow> value_changed a ob' s s2"
  by (force simp: value_changed_def)

lemma value_changed_refl: "heap s a = Some ob \<Longrightarrow> value_changed a ob s s"
  unfolding value_changed_def by (rule exI [of _ "dirty s"], rule exI [of _ "dirty_cas s"]) (simp add: fun_upd_idem)

lemma value_changed_fields:
  assumes "value_changed a ob s s'"
  shows "db s' = db s" "sds_of s' key = (if key = a then (case ptr ob of Sds x \<Rightarrow> Some x | _ \<Rightarrow> None) else sds_of s key)"
  using assms by (auto simp: value_changed_def sds_of_def split: payload.splits)

lemma value_changed_flag:
  assumes "value_changed a ob (s\<lparr>upd_fun_running := True\<rparr>) s3" "\<not> upd_fun_running s"
  shows "value_changed a ob s (s3\<lparr>upd_fun_running := False\<rparr>)"
proof -
  from assms(1) obtain n D where
    "s3 = s\<lparr>heap := (heap s)(a \<mapsto> ob), dirty := n, dirty_cas := D, upd_fun_running := True\<rparr>"
    by (auto simp: value_changed_def)
  then have "s3\<lparr>upd_fun_running := False\<rparr> = s\<lparr>heap := (heap s)(a \<mapsto> ob), dirty := n, dirty_cas := D\<rparr>"
    using assms(2) by (cases s) simp
  then show ?thesis unfolding value_changed_def by blast
qed

lemma apply_val_string:
  assumes "heap s a = Some ob" "raw_string ob x" "cdb c < length (db s)"
    and "case ur_val r of None \<Rightarrow> y = x | Some b \<Rightarrow> buf_bytes b (ur_len r) = Some y"
  shows "\<exists>s'. apply_val c REDIS_STRING p q r a s = Some (a, s') \<and> value_changed a (ob\<lparr>ptr := Sds y\<rparr>) s s'"
proof (cases "ur_val r")
  case None
  have "ob\<lparr>ptr := Sds x\<rparr> = ob" using assms(2) by (simp add: raw_string_def)
  then show ?thesis
    using None assms value_changed_refl [OF assms(1)] by (simp add: apply_val_def)
next
  case (Some b)
  let ?s1 = "s\<lparr>heap := (heap s)(a \<mapsto> ob\<lparr>ptr := Sds y\<rparr>)\<rparr>"
  have "sds_of ?s1 a = Some y" by (simp add: sds_of_def)
  moreover have "cdb c < length (db ?s1)" using assms(3) by simp
  ultimately have "signalModifiedKey (cdb c) a ?s1 = Some (?s1\<lparr>dirty_cas := watchers ?s1 (cdb c) y @ dirty_cas ?s1\<rparr>)"
    by (intro signalModifiedKey_ok)
  then show ?thesis
    using Some assms by (auto simp: apply_val_def sds_of_def raw_string_def upd_obj_def value_changed_def)
qed

lemma run_funs_string:
  assumes U: "value_update U g" and key: "arg c 1 = Some key" "key \<noteq> a"
  shows "heap s a = Some ob \<Longrightarrow> raw_string ob x \<Longrightarrow> sds_of s key = Some k \<Longrightarrow> cdb c < length (db s) \<Longrightarrow>
    \<exists>s'. run_funs U c v ck REDIS_STRING None fs a s = Some (a, s') \<and>
         value_changed a (ob\<lparr>ptr := Sds (fold g fs x)\<rparr>) s s'"
proof (induction fs arbitrary: s ob x)
  case Nil
  then have "ob\<lparr>ptr := Sds x\<rparr> = ob" by (simp add: raw_string_def)
  then show ?case using value_changed_refl [OF Nil(1)] by simp
next
  case (Cons f fs)
  let ?args = "\<lparr>ua_key = k, ua_val = Sds x, ua_fval = Null, ua_len = length x\<rparr>"
  from U obtain r where r: "U f ?args s = Some (r, s)" "ur_key r = None"
    "case ur_val r of None \<Rightarrow> g f x = x | Some b \<Rightarrow> buf_bytes b (ur_len r) = Some (g f x)"
    unfolding value_update_def by blast
  from apply_val_string [OF Cons.prems(1,2,4) r(3)]
  obtain s1 where s1: "apply_val c REDIS_STRING (Sds x) Null r a s = Some (a, s1)"
    "value_changed a (ob\<lparr>ptr := Sds (g f x)\<rparr>) s s1" by blast
  have "raw_string (ob\<lparr>ptr := Sds (g f x)\<rparr>) (g f x)" using Cons.prems(2) by (simp add: raw_string_def)
  moreover have "heap s1 a = Some (ob\<lparr>ptr := Sds (g f x)\<rparr>)" "sds_of s1 key = Some k" "cdb c < length (db s1)"
    using s1(2) Cons.prems key(2) by (simp_all add: value_changed_heap value_changed_fields)
  ultimately obtain s2 where s2: "run_funs U c v ck REDIS_STRING None fs a s1 = Some (a, s2)"
    "value_changed a (ob\<lparr>ptr := Sds (fold g fs (g f x))\<rparr>) s1 s2"
    using Cons.IH [of s1 "ob\<lparr>ptr := Sds (g f x)\<rparr>" "g f x"] by auto
  have "ptr ob = Sds x" "encoding ob = REDIS_ENCODING_RAW" "sds_of s a = Some x"
    using Cons.prems(1,2) by (auto simp: raw_string_def sds_of_def)
  then have "run_funs U c v ck REDIS_STRING None (f # fs) a s = Some (a, s2)"
    using Cons.prems key r(1,2) s1(1) s2(1) by (cases ck) (simp_all add: obj_def apply_key_def)
  with value_changed_trans [OF s1(2) s2(2)] show ?case by simp
qed

lemma set_vers_changed:
  "heap s a = Some ob \<Longrightarrow> \<exists>s'. set_vers a n s = Some s' \<and> value_changed a (ob\<lparr>vers := n\<rparr>) s s'"
  unfolding value_changed_def
  by (rule exI, rule conjI, simp add: set_vers_def upd_obj_def, rule exI [of _ "dirty s"], rule exI [of _ "dirty_cas s"]) simp

text \<open>The arrays of a namespace go together.\<close>

definition vh_ok :: "version_hash \<Rightarrow> bool" where
  "vh_ok v \<longleftrightarrow> versions v \<noteq> [] \<and> length (info v) = length (versions v) \<and> distinct (versions v)"

definition version_after :: "version_hash \<Rightarrow> int \<Rightarrow> nat list \<Rightarrow> int" where
  "version_after v n js = (if js = [] then n else versions v ! last js)"

lemma run_versions_string:
  assumes U: "value_update U g" and key: "arg c 1 = Some key" "key \<noteq> a" and v: "vh_ok v"
  shows "heap s a = Some ob \<Longrightarrow> raw_string ob x \<Longrightarrow> sds_of s key = Some k \<Longrightarrow> cdb c < length (db s) \<Longrightarrow>
    \<forall>j \<in> set js. j < length (versions v) \<Longrightarrow>
    \<exists>s'. run_versions U c v ck REDIS_STRING None js a s = Some s' \<and>
      value_changed a (ob\<lparr>vers := version_after v (vers ob) js, ptr := Sds (upd_steps g v js x)\<rparr>) s s'"
proof (induction js arbitrary: s ob x)
  case Nil
  then have "ob\<lparr>vers := vers ob, ptr := Sds x\<rparr> = ob" by (simp add: raw_string_def)
  then show ?case using value_changed_refl [OF Nil(1)] by (simp add: version_after_def)
next
  case (Cons j js)
  let ?y = "fold g (step_funs v j) x"
  have j: "info_at v j = Some (info v ! j)" using Cons.prems(5) v by (simp add: info_at_def vh_ok_def)
  from run_funs_string [OF U key Cons.prems(1-4), of v ck "step_funs v j"] obtain s1 where
    s1: "run_funs U c v ck REDIS_STRING None (step_funs v j) a s = Some (a, s1)"
    "value_changed a (ob\<lparr>ptr := Sds ?y\<rparr>) s s1" by blast
  then have run: "(case info v ! j of None \<Rightarrow> Some (a, s) | Some ui \<Rightarrow> run_funs U c v ck REDIS_STRING None (funs ui) a s)
      = Some (a, s1)"
    by (cases "info v ! j") (auto simp: step_funs_def)
  from set_vers_changed [of s1 a "ob\<lparr>ptr := Sds ?y\<rparr>" "versions v ! j"] s1(2) obtain s2 where
    s2: "set_vers a (versions v ! j) s1 = Some s2"
    "value_changed a (ob\<lparr>vers := versions v ! j, ptr := Sds ?y\<rparr>) s1 s2"
    by (auto simp: value_changed_heap)
  have raw: "raw_string (ob\<lparr>vers := versions v ! j, ptr := Sds ?y\<rparr>) ?y"
    using Cons.prems(2) by (simp add: raw_string_def)
  have "heap s2 a = Some (ob\<lparr>vers := versions v ! j, ptr := Sds ?y\<rparr>)" "sds_of s2 key = Some k" "cdb c < length (db s2)"
    using s1(2) s2(2) Cons.prems(3,4) key(2) by (simp_all add: value_changed_heap value_changed_fields)
  from Cons.IH [OF this(1) raw this(2,3)] Cons.prems(5) obtain s3 where
    s3: "run_versions U c v ck REDIS_STRING None js a s2 = Some s3"
    "value_changed a (ob\<lparr>vers := version_after v (versions v ! j) js, ptr := Sds (upd_steps g v js ?y)\<rparr>) s2 s3"
    by auto
  have "version_after v (versions v ! j) js = version_after v (vers ob) (j # js)"
    by (simp add: version_after_def)
  with value_changed_trans [OF value_changed_trans [OF s1(2) s2(2)] s3(2)]
  have "value_changed a (ob\<lparr>vers := version_after v (vers ob) (j # js),
      ptr := Sds (upd_steps g v (j # js) x)\<rparr>) s s3" by simp
  moreover have "run_versions U c v ck REDIS_STRING None (j # js) a s = Some s3"
    using s3(1) j run s2(1) by simp
  ultimately show ?case by blast
qed


section \<open>The update of a string on GET\<close>

lemma first_step_at:
  assumes "distinct (versions v)" "i < length (versions v)"
  shows "first_step v (versions v ! i) = Suc i"
proof -
  have "takeWhile (\<lambda>w. w \<noteq> versions v ! i) (versions v) = take i (versions v)"
    using assms by (intro takeWhile_eq_take_P_nth) (auto simp: nth_eq_iff_index_eq)
  then show ?thesis using assms(2) by (simp add: first_step_def)
qed

lemma first_step_le: "first_step v n \<le> length (versions v)"
  by (simp add: first_step_def Let_def)

lemma first_step_full:
  assumes "distinct (versions v)" "first_step v n = length (versions v)" "versions v \<noteq> []"
  shows "n = last (versions v)"
proof -
  let ?ws = "takeWhile (\<lambda>w. w \<noteq> n) (versions v)"
  have lt: "length ?ws < length (versions v)" "Suc (length ?ws) = length (versions v)"
    using assms(2,3) by (auto simp: first_step_def Let_def split: if_splits)
  then have "versions v ! length ?ws = n" by (metis (mono_tags, lifting) nth_length_takeWhile)
  moreover have "length ?ws = length (versions v) - 1" using lt by simp
  ultimately show ?thesis using assms(3) by (simp add: last_conv_nth)
qed

lemma first_step_lt:
  assumes "vh_ok v" "cur_vers v \<noteq> Some n"
  shows "first_step v n < length (versions v)"
proof (rule ccontr)
  assume "\<not> ?thesis"
  with first_step_le [of v n] have "first_step v n = length (versions v)" by simp
  with first_step_full [of v n] assms show False by (simp add: vh_ok_def cur_vers_def)
qed

text \<open>The object after the steps that are missing: its value, and the current version.\<close>

definition missing_steps :: "version_hash \<Rightarrow> int \<Rightarrow> nat list" where
  "missing_steps v n = (if cur_vers v = Some n then [] else [first_step v n..<length (versions v)])"

definition updated :: "(fptr \<Rightarrow> string \<Rightarrow> string) \<Rightarrow> version_hash \<Rightarrow> string \<Rightarrow> robj \<Rightarrow> robj" where
  "updated g v x ob = ob\<lparr>vers := last (versions v), ptr := Sds (upd_steps g v (missing_steps v (vers ob)) x)\<rparr>"

lemma missing_steps_at:
  assumes "vh_ok v" "i < length (versions v)"
  shows "missing_steps v (versions v ! i) = [Suc i..<length (versions v)]"
proof (cases "cur_vers v = Some (versions v ! i)")
  case True
  then have "versions v ! (length (versions v) - 1) = versions v ! i"
    using assms(1) by (simp add: cur_vers_def last_conv_nth split: if_splits)
  then have "length (versions v) - 1 = i"
    using assms by (simp add: vh_ok_def nth_eq_iff_index_eq)
  with True show ?thesis by (simp add: missing_steps_def)
next
  case False
  then show ?thesis using assms by (simp add: missing_steps_def first_step_at vh_ok_def)
qed

lemma version_after_missing:
  assumes "vh_ok v" "cur_vers v \<noteq> Some n"
  shows "version_after v n [first_step v n..<length (versions v)] = last (versions v)"
proof -
  have ne: "versions v \<noteq> []" using assms(1) by (simp add: vh_ok_def)
  have lt: "first_step v n < length (versions v)" by (rule first_step_lt [OF assms])
  then have "last [first_step v n..<length (versions v)] = length (versions v) - 1" by simp
  with ne lt show ?thesis by (simp add: version_after_def last_conv_nth)
qed

text \<open>What a command can rely on about the key it is given and the string stored under it.\<close>

definition string_at :: "addr multiset \<Rightarrow> client \<Rightarrow> string \<Rightarrow> addr \<Rightarrow> robj \<Rightarrow> string \<Rightarrow> server \<Rightarrow> bool" where
  "string_at R c k a ob x s \<longleftrightarrow>
     srv_ok R s \<and> cdb c < length (db s) \<and> keys_of s (cdb c) k = Some a \<and> heap s a = Some ob \<and> raw_string ob x \<and>
     (\<exists>key. arg c 1 = Some key \<and> sds_of s key = Some k \<and> key \<noteq> a)"

lemma string_atD:
  assumes "string_at R c k a ob x s"
  shows "srv_ok R s" "cdb c < length (db s)" "keys_of s (cdb c) k = Some a" "heap s a = Some ob" "raw_string ob x"
    and "\<exists>key. arg c 1 = Some key \<and> sds_of s key = Some k \<and> key \<noteq> a"
  using assms by (auto simp: string_at_def)

lemma get_db_val_here:
  assumes "srv_ok R s" "cdb c < length (db s)" "keys_of s (cdb c) k = Some a" "arg c 1 = Some key" "sds_of s key = Some k"
  shows "kvolve_get_db_val c v s = Some (Some a, s)"
  using assms lookupKey_ok [OF assms(1,2,5)] by (simp add: kvolve_get_db_val_def)

lemma namespace_update_here:
  assumes "srv_ok R s" "cdb c < length (db s)" "keys_of s (cdb c) k = Some a" "arg c 1 = Some key" "sds_of s key = Some k"
  shows "kvolve_namespace_update c v s = Some s"
  using assms lookupKey_ok [OF assms(1,2,5)] by (simp add: kvolve_namespace_update_def)

lemma ns_changed_total:
  "vh_ok v \<Longrightarrow> cur_vers v \<noteq> Some n \<Longrightarrow> \<exists>b. ns_changed v (first_step v n) = Some b"
  using first_step_lt [of v n] by (simp add: vh_ok_def ns_changed_def info_at_def)

lemma get_string_rule:
  assumes U: "value_update (upd_env E) g" and v: "vh_ok v" and at: "string_at R c k a ob x s"
    and run: "\<not> upd_fun_running s"
  shows "\<exists>s'. kvolve_get E c v s = Some s' \<and> value_changed a (updated g v x ob) s s'"
proof -
  note at = string_atD [OF at]
  from at(6) obtain key where key: "arg c 1 = Some key" "sds_of s key = Some k" "key \<noteq> a" by blast
  have got: "kvolve_get_db_val c v s = Some (Some a, s)" by (rule get_db_val_here [OF at(1-3) key(1,2)])
  have ns: "\<not> is_shared_int ob" using at(5) by (simp add: is_shared_int_def raw_string_def)
  have cv: "cur_vers v = Some (last (versions v))" using v by (simp add: cur_vers_def vh_ok_def)
  show ?thesis
  proof (cases "vers ob = last (versions v)")
    case True
    then have "kvolve_get E c v s = Some s"
      using got at(4) ns cv run by (simp add: kvolve_get_def kvolve_check_update_kv_pair_def obj_def)
    moreover have "updated g v x ob = ob"
      using True cv at(5) by (simp add: updated_def missing_steps_def raw_string_def)
    ultimately show ?thesis using value_changed_refl [OF at(4)] by auto
  next
    case False
    let ?j = "first_step v (vers ob)"
    let ?s2 = "s\<lparr>upd_fun_running := True\<rparr>"
    have old: "cur_vers v \<noteq> Some (vers ob)" using False cv by simp
    from ns_changed_total [OF v old] obtain b where b: "ns_changed v ?j = Some b" by blast
    have s2: "srv_ok R ?s2" "cdb c < length (db ?s2)" "keys_of ?s2 (cdb c) k = Some a" "sds_of ?s2 key = Some k"
      "heap ?s2 a = Some ob"
      using at key by (simp_all add: keys_of_def sds_of_def srv_ok_same_refs [OF at(1)])
    have nsu: "(if b then kvolve_namespace_update c v ?s2 else Some ?s2) = Some ?s2"
      using namespace_update_here [OF s2(1-3) key(1) s2(4)] by simp
    from run_versions_string [OF U key(1,3) v s2(5) at(5) s2(4,2), of "[?j..<length (versions v)]" True]
    obtain s3 where s3: "run_versions (upd_env E) c v True REDIS_STRING None [?j..<length (versions v)] a ?s2 = Some s3"
      "value_changed a (ob\<lparr>vers := version_after v (vers ob) [?j..<length (versions v)],
         ptr := Sds (upd_steps g v [?j..<length (versions v)] x)\<rparr>) ?s2 s3" by auto
    have "kvolve_get E c v s = Some (s3\<lparr>upd_fun_running := False\<rparr>)"
      using got at(4) ns cv run False b nsu s3(1)
      by (simp add: kvolve_get_def kvolve_check_update_kv_pair_def obj_def Let_def)
    moreover have "ob\<lparr>vers := version_after v (vers ob) [?j..<length (versions v)],
         ptr := Sds (upd_steps g v [?j..<length (versions v)] x)\<rparr> = updated g v x ob"
      using version_after_missing [OF v old] old by (simp add: updated_def missing_steps_def)
    ultimately show ?thesis using value_changed_flag [OF s3(2) run] by auto
  qed
qed

lemma value_changed_ok:
  assumes ok: "srv_ok R s" and a: "heap s a = Some ob" "raw_string ob x"
    and ch: "value_changed a (ob\<lparr>vers := n, ptr := Sds y\<rparr>) s s'"
  shows "srv_ok R s'"
proof -
  let ?ob = "ob\<lparr>vers := n, ptr := Sds y\<rparr>"
  have str: "otype ob = REDIS_STRING" "otype ?ob = REDIS_STRING" using a(2) by (simp_all add: raw_string_def)
  have "obj_ok ?ob" using srv_okD(4) [OF ok a(1)] a(2)
    by (simp add: obj_ok_def raw_string_def str_ok_def owned_def freeStringObject_def)
  moreover have "\<not> a < REDIS_SHARED_INTEGERS"
    using srv_okD(3) [OF ok, of a] a by (auto simp: shared_at_def raw_string_def)
  ultimately have "srv_ok R (s\<lparr>heap := (heap s)(a \<mapsto> ?ob)\<rparr>)"
    using str by (intro srv_ok_upd [OF ok a(1)]) simp_all
  then show ?thesis using ch unfolding value_changed_def by (auto intro: srv_ok_same_refs)
qed

lemma updated_raw: "raw_string ob x \<Longrightarrow> raw_string (updated g v x ob) (upd_steps g v (missing_steps v (vers ob)) x)"
  by (simp add: raw_string_def updated_def)

lemma string_at_updated:
  assumes "string_at R c k a ob x s" "value_changed a (updated g v x ob) s s'"
  shows "string_at R c k a (updated g v x ob) (upd_steps g v (missing_steps v (vers ob)) x) s'"
proof -
  note at = string_atD [OF assms(1)]
  have "srv_ok R s'" by (rule value_changed_ok [OF at(1,4,5) assms(2) [unfolded updated_def]])
  then show ?thesis
    using at assms(2) updated_raw [OF at(5)]
    by (auto simp: string_at_def value_changed_heap value_changed_fields keys_of_def)
qed


section \<open>The dispatcher\<close>

lemma char_is_code: "c = char_of n \<longleftrightarrow> of_char c = (n :: nat) mod 256"
  using char_of_eq_iff [of n c] by (auto simp: take_bit_eq_mod)

lemma table_get: "map_of kvolve_populateCommandTable ''get'' = Some (kvolve_get, 2)"
  by (simp add: kvolve_populateCommandTable_def kvolveCommandTable_def toupper_def char_is_code)

lemma process_get:
  assumes "argv c = [cmd, key]" "sds_of s cmd = Some ''get''" "sds_of s key = Some k"
    and "tmp_store s = []" "ns_entry k s = Some v"
  shows "kvolve_process_command E c s = map_option (restore_stats s) (kvolve_get E c v s)"
proof -
  have "kvolve_prevcall_check s = Some s" using assms(4) by (simp add: kvolve_prevcall_check_def)
  moreover have "is_setname c s = Some False" using assms(1) by (simp add: is_setname_def)
  moreover have "is_keys c s = Some False"
    using assms(1,2) by (simp add: is_keys_def arg_def strcaseeq_def tolower_def)
  moreover have "kvolve_lookup_kv_command c s = Some (Some kvolve_get)"
    using assms(1,2) by (simp add: kvolve_lookup_kv_command_def arg_def table_get)
  ultimately show ?thesis
    using assms by (simp add: kvolve_process_command_def arg_def split: option.split bind_splits)
qed

lemma value_changed_stats:
  "value_changed a ob s s' \<Longrightarrow> restore_stats s s' = s'"
  by (auto simp: value_changed_def restore_stats_def)

lemma value_changed_expired:
  "value_changed a ob s s' \<Longrightarrow> expired s' d k = expired s d k"
  by (auto simp: value_changed_def expired_def ttl_of_def)

lemma getCommand_string:
  assumes at: "string_at R c k a ob x s" and live: "\<not> expired s (cdb c) k"
  shows "getCommand c s = Some (addReply (RBulk x) c, s\<lparr>stat_keyspace_hits := stat_keyspace_hits s + 1\<rparr>)"
proof -
  note at = string_atD [OF at]
  from at(6) obtain key where key: "arg c 1 = Some key" "sds_of s key = Some k" "key \<noteq> a" by blast
  have "obj_chars 32 (s\<lparr>stat_keyspace_hits := stat_keyspace_hits s + 1\<rparr>) a = Some x"
    using at(4,5) by (simp add: obj_chars_def obj_def raw_string_def sds_of_def)
  then show ?thesis
    using lookupKeyRead_live [OF at(1,2) key(2) live] at(3-5) key(1)
    by (simp add: getCommand_def getGenericCommand_def lookupKeyReadOrReply_def count_lookup_def obj_def
        raw_string_def addReplyBulk_def)
qed


section \<open>A small example\<close>

text \<open>
  One namespace, \<open>order\<close>, with versions 0 and 1 and an update function between them that
  appends a suffix; a string at version 0 under \<open>order:1\<close>.
\<close>

definition suffix_upd :: upd_env where
  "suffix_upd f args s =
     Some (\<lparr>ur_key = None,
            ur_val = (case ua_val args of Sds x \<Rightarrow> Some (x @ ''UPDATED'' @ [NUL]) | _ \<Rightarrow> None),
            ur_fval = None, ur_len = ua_len args + 7\<rparr>, s)"

lemma suffix_upd_ok: "value_update suffix_upd (\<lambda>f x. x @ ''UPDATED'')"
  by (auto simp: value_update_def suffix_upd_def buf_bytes_def)

definition order_v1 :: version_hash where
  "order_v1 = \<lparr>ns = ''order'', prev_ns = None, next_ns = None, versions = [0, 1],
     info = [None, Some \<lparr>from_ns = ''order'', to_ns = ''order'', from_vers = 0, to_vers = 1, funs = [7]\<rparr>],
     clients = intsetNew\<rparr>"

definition order_v0 :: version_hash where
  "order_v0 = order_v1\<lparr>versions := [0], info := [None]\<rparr>"

lemma order_ok [simp]: "vh_ok order_v1" "vh_ok order_v0"
  by (simp_all add: vh_ok_def order_v1_def order_v0_def)

definition order_env :: kv_env where
  "order_env = \<lparr>kv_env.upd_env = suffix_upd, dl_open = Map.empty, zset_call = (\<lambda>_ _ _. Some), stray_find = (\<lambda>_ _. False)\<rparr>"

definition order_get :: server where
  "order_get = (with_obj (one_string ''get'' 0) (one_key ''order:1'' ''w'' 0))\<lparr>vers_list := [(''order'', order_v1)]\<rparr>"

lemma order_get_fields [simp]:
  "heap order_get = shared_integers(10000 \<mapsto> one_string ''w'' 0, 10001 \<mapsto> one_string ''order:1'' 0, 10002 \<mapsto> one_string ''get'' 0)"
  "db order_get = (replicate 16 empty_db)[0 := empty_db\<lparr>dict := [(''order:1'', 10000)]\<rparr>]"
  "vers_list order_get = [(''order'', order_v1)]"
  "\<not> upd_fun_running order_get" "tmp_store order_get = []" "\<not> expired order_get 0 k"
  by (simp_all add: order_get_def) (simp_all add: one_key_def with_obj_def with_entry_def new_obj_def initServer_def
      expired_def ttl_of_def empty_db_def)

lemma order_get_at:
  "string_at {#10002, 10001#} (on_db0 [10002, 10001]) ''order:1'' 10000 (one_string ''w'' 0) ''w'' order_get"
proof -
  have "srv_ok {#10002, 10001#} order_get"
  proof -
    have "srv_ok {#10002, 10001#} (with_obj (one_string ''get'' 0) (one_key ''order:1'' ''w'' 0))"
      using with_obj_ok [OF one_key_ok] by fastforce
    then show ?thesis by (rule srv_ok_same_refs) (simp_all add: order_get_def with_obj_def new_obj_def)
  qed
  then show ?thesis
    by (auto simp: string_at_def keys_of_def empty_db_def raw_string_def one_string_def arg_def sds_of_def)
qed

lemma order_get_ns: "ns_entry ''order:1'' order_get = Some order_v1"
  by (simp add: ns_entry_def kvolve_version_hash_lookup.simps c_str_def)

lemma order_steps:
  "missing_steps order_v1 0 = [1]" "upd_steps (\<lambda>f x. x @ ''UPDATED'') order_v1 [1] ''w'' = ''wUPDATED''"
  by (simp_all add: missing_steps_def first_step_def order_v1_def cur_vers_def step_funs_def)


section \<open>Properties\<close>



text \<open>C3. An update is applied once: after a GET has brought a value to the current version, a
  further GET runs no update function and changes nothing.\<close>

theorem get_idempotent:
  assumes "value_update (upd_env E) g" "vh_ok v" "string_at R c k a ob x s" "\<not> upd_fun_running s"
  shows "\<exists>s'. kvolve_get E c v s = Some s' \<and> kvolve_get E' c v s' = Some s'"
proof -
  from get_string_rule [OF assms] obtain s1 where
    s1: "kvolve_get E c v s = Some s1" "value_changed a (updated g v x ob) s s1" by blast
  note at = string_atD [OF string_at_updated [OF assms(3) s1(2)]]
  from at(6) obtain key where key: "arg c 1 = Some key" "sds_of s1 key = Some k" by blast
  have "kvolve_get_db_val c v s1 = Some (Some a, s1)" by (rule get_db_val_here [OF at(1-3) key])
  moreover have "cur_vers v = Some (vers (updated g v x ob))"
    using assms(2) by (simp add: cur_vers_def vh_ok_def updated_def)
  moreover have "\<not> is_shared_int (updated g v x ob)" using at(5) by (simp add: is_shared_int_def raw_string_def)
  moreover have "\<not> upd_fun_running s1" using s1(2) assms(4) by (auto simp: value_changed_def)
  ultimately have "kvolve_get E' c v s1 = Some s1"
    using at(4) by (simp add: kvolve_get_def kvolve_check_update_kv_pair_def obj_def)
  with s1(1) show ?thesis by blast
qed

theorem get_idempotent_witness:
  "\<exists>s'. kvolve_get order_env (on_db0 [10002, 10001]) order_v1 order_get = Some s' \<and>
     kvolve_get order_env (on_db0 [10002, 10001]) order_v1 s' = Some s'"
proof -
  have U: "value_update (kv_env.upd_env order_env) (\<lambda>f x. x @ ''UPDATED'')" by (simp add: order_env_def suffix_upd_ok)
  show ?thesis by (rule get_idempotent [OF U order_ok(1) order_get_at]) simp
qed

text \<open>C2. Updating lazily is updating eagerly: a value that is read after each of two updates was
  loaded ends in the same state as one that is read only after both, for a namespace \<open>w\<close> whose
  first versions and updates are those of \<open>v\<close>.\<close>

theorem lazy_is_eager:
  assumes "value_update (upd_env E) g" "vh_ok v" "vh_ok w" "string_at R c k a ob x s" "\<not> upd_fun_running s"
    and "versions v = take n (versions w)" "info v = take n (info w)" "vers ob \<in> set (versions v)"
  shows "\<exists>s1 s2 s3. kvolve_get E c v s = Some s1 \<and> kvolve_get E c w s1 = Some s2 \<and> kvolve_get E c w s = Some s3 \<and>
    heap s2 = heap s3 \<and> db s2 = db s3"
proof -
  from assms(8) obtain i where i: "i < length (versions v)" "vers ob = versions v ! i" by (metis in_set_conv_nth)
  define m where "m = length (versions v)"
  have m: "m \<le> length (versions w)" "i < m" using i(1) assms(6) by (simp_all add: m_def)
  have wi: "vers ob = versions w ! i" using i assms(6) by simp
  have last_v: "last (versions v) = versions w ! (m - 1)"
  proof -
    have "versions v \<noteq> []" using i(1) by auto
    then have "last (versions v) = versions v ! (m - 1)" by (simp add: last_conv_nth m_def)
    also have "\<dots> = versions w ! (m - 1)" 
      unfolding assms(6) by (intro nth_take) (use m in \<open>auto simp: m_def assms(6)\<close>)
    finally show ?thesis .
  qed
  have same: "upd_steps g v js y = upd_steps g w js y" if "\<forall>j \<in> set js. j < m" for js y
  proof -
    have "step_funs v j = step_funs w j" if "j < m" for j
      using that assms(2,6,7) by (simp add: step_funs_def m_def vh_ok_def)
    with that show ?thesis unfolding upd_steps_def by (intro fold_cong) auto
  qed
  from get_string_rule [OF assms(1,2,4,5)] obtain s1 where
    s1: "kvolve_get E c v s = Some s1" "value_changed a (updated g v x ob) s s1" by blast
  note at1 = string_at_updated [OF assms(4) s1(2)]
  have "\<not> upd_fun_running s1" using s1(2) assms(5) by (auto simp: value_changed_def)
  from get_string_rule [OF assms(1,3) at1 this] obtain s2 where
    s2: "kvolve_get E c w s1 = Some s2"
    "value_changed a (updated g w (upd_steps g v (missing_steps v (vers ob)) x) (updated g v x ob)) s1 s2" by blast
  from get_string_rule [OF assms(1,3,4,5)] obtain s3 where
    s3: "kvolve_get E c w s = Some s3" "value_changed a (updated g w x ob) s s3" by blast
  have mv: "missing_steps v (vers ob) = [Suc i..<m]" using missing_steps_at [OF assms(2) i(1)] i(2) by (simp add: m_def)
  have mw: "missing_steps w (vers ob) = [Suc i..<length (versions w)]"
    using missing_steps_at [OF assms(3), of i] m wi by simp
  have "missing_steps w (last (versions v)) = [m..<length (versions w)]"
    using missing_steps_at [OF assms(3), of "m - 1"] m last_v by simp
  moreover have "[Suc i..<length (versions w)] = [Suc i..<m] @ [m..<length (versions w)]"
    using upt_add_eq_append [of "Suc i" m "length (versions w) - m"] m by simp
  ultimately have "updated g w (upd_steps g v (missing_steps v (vers ob)) x) (updated g v x ob) = updated g w x ob"
    using mv mw same [of "[Suc i..<m]" x] by (simp add: updated_def)
  then have "heap s2 = heap s3" "db s2 = db s3"
    using s1(2) s2(2) s3(2) by (simp_all add: value_changed_heap value_changed_fields)
  with s1(1) s2(1) s3(1) show ?thesis by blast
qed

theorem lazy_is_eager_witness:
  "\<exists>s1 s2 s3. kvolve_get order_env (on_db0 [10002, 10001]) order_v0 order_get = Some s1 \<and>
     kvolve_get order_env (on_db0 [10002, 10001]) order_v1 s1 = Some s2 \<and>
     kvolve_get order_env (on_db0 [10002, 10001]) order_v1 order_get = Some s3 \<and> heap s2 = heap s3 \<and> db s2 = db s3"
proof -
  have U: "value_update (kv_env.upd_env order_env) (\<lambda>f x. x @ ''UPDATED'')" by (simp add: order_env_def suffix_upd_ok)
  have "versions order_v0 = take 1 (versions order_v1)" "info order_v0 = take 1 (info order_v1)"
    "vers (one_string ''w'' 0) \<in> set (versions order_v0)"
    by (simp_all add: order_v0_def order_v1_def one_string_def)
  then show ?thesis by (intro lazy_is_eager [OF U order_ok(2,1) order_get_at]) simp_all
qed

end
