(* ===== verification/Kvolve_Namespace.thy ===== *)
theory Kvolve_Namespace
  imports Kvolve_Rules
begin

text \<open>
  Namespace changes: a value that is still stored under its name in the previous namespace is
  found, renamed and then updated by the first command that asks for it under the new name.
\<close>

section \<open>Names\<close>

lemma rsplit_snd: "rsplit CHR '':'' k = Some (p, q) \<Longrightarrow> k = p @ q"
  by (drule rsplit_Some) auto

lemma construct_prev_name_Some:
  "kvolve_construct_prev_name k p = Some k' \<longleftrightarrow>
     (\<exists>m t. c_str k = m @ CHR '':'' # t \<and> CHR '':'' \<notin> set t \<and> k' = c_str p @ CHR '':'' # t)"
proof
  assume "kvolve_construct_prev_name k p = Some k'"
  then obtain m q where q: "rsplit CHR '':'' (c_str k) = Some (m, q)" "k' = c_str p @ q"
    by (auto simp: kvolve_construct_prev_name_def)
  from rsplit_Some [OF q(1)] q(2) show "\<exists>m t. c_str k = m @ CHR '':'' # t \<and> CHR '':'' \<notin> set t \<and> k' = c_str p @ CHR '':'' # t"
    by auto
next
  assume "\<exists>m t. c_str k = m @ CHR '':'' # t \<and> CHR '':'' \<notin> set t \<and> k' = c_str p @ CHR '':'' # t"
  then obtain m t where t: "c_str k = m @ CHR '':'' # t" "CHR '':'' \<notin> set t" "k' = c_str p @ CHR '':'' # t" by blast
  then have "rsplit CHR '':'' (c_str k) \<noteq> None" by (metis in_set_conv_decomp rsplit_None)
  then obtain m' q where q: "rsplit CHR '':'' (c_str k) = Some (m', q)" by auto
  from rsplit_Some [OF q] obtain t' where t': "q = CHR '':'' # t'" "c_str k = m' @ CHR '':'' # t'" "CHR '':'' \<notin> set t'"
    by auto
  have "m' @ CHR '':'' # t' = m @ CHR '':'' # t" using t t' by simp
  then have "t' = t" using t(2) t'(3)
    by (auto simp: append_eq_append_conv2 append_eq_Cons_conv Cons_eq_append_conv)
  with q t t' show "kvolve_construct_prev_name k p = Some k'" by (simp add: kvolve_construct_prev_name_def)
qed


section \<open>Finding a value under its previous name\<close>

text \<open>
  The situation a namespace change leaves behind: the key the client asks for is not there, and
  the name it had in the previous namespace is bound to a value.
\<close>

definition moved_at ::
  "addr multiset \<Rightarrow> client \<Rightarrow> version_hash \<Rightarrow> addr \<Rightarrow> string \<Rightarrow> string \<Rightarrow> addr \<Rightarrow> robj \<Rightarrow> server \<Rightarrow> bool" where
  "moved_at R c v key k1 k2 a ob s \<longleftrightarrow>
     srv_ok R s \<and> cdb c < length (db s) \<and> arg c 1 = Some key \<and> key \<in># R \<and> sds_of s key = Some k2 \<and>
     keys_of s (cdb c) k2 = None \<and> keys_of s (cdb c) k1 = Some a \<and> heap s a = Some ob \<and>
     (\<exists>p. prev_ns v = Some p \<and> kvolve_construct_prev_name k2 p = Some k1)"

lemma moved_atD:
  assumes "moved_at R c v key k1 k2 a ob s"
  shows "srv_ok R s" "cdb c < length (db s)" "arg c 1 = Some key" "key \<in># R" "sds_of s key = Some k2"
    "keys_of s (cdb c) k2 = None" "keys_of s (cdb c) k1 = Some a" "heap s a = Some ob"
    "\<exists>p. prev_ns v = Some p \<and> kvolve_construct_prev_name k2 p = Some k1"
  using assms by (auto simp: moved_at_def)

lemma create_string_ok:
  assumes "srv_ok R s"
  shows "createStringObject x s = (brk s, with_obj (one_string x 0) s)"
    and "srv_ok (add_mset (brk s) R) (with_obj (one_string x 0) s)"
    and "sds_of (with_obj (one_string x 0) s) (brk s) = Some x"
    and "b \<noteq> brk s \<Longrightarrow> sds_of (with_obj (one_string x 0) s) b = sds_of s b"
  using with_obj_ok [OF assms]
  by (simp_all add: createStringObject_def createObject_def with_obj_def one_string_def new_obj_def sds_of_def)

lemma get_db_val_moved:
  assumes "moved_at R c v key k1 k2 a ob s"
  shows "kvolve_get_db_val c v s = Some (Some a, s\<lparr>brk := brk s + 1\<rparr>)"
proof -
  note m = moved_atD [OF assms]
  from m(9) obtain p where p: "prev_ns v = Some p" "kvolve_construct_prev_name k2 p = Some k1" by blast
  note new = create_string_ok [OF m(1), where x = k1]
  have "lookupKey (cdb c) (brk s) (with_obj (one_string k1 0) s) = Some (Some a)"
    using lookupKey_ok [OF new(2) _ new(3)] m(2,7) by (simp add: keys_of_def)
  moreover have "zfree (brk s) (with_obj (one_string k1 0) s) = Some (s\<lparr>brk := brk s + 1\<rparr>)"
    using tmp_string [OF m(1), of k1] new(1) by simp
  ultimately have "get_db_val_loop c (Some v) s = Some (Some a, s\<lparr>brk := brk s + 1\<rparr>)"
    using p m(3,5) new(1) by (simp add: get_db_val_loop.simps)
  then show ?thesis
    using lookupKey_ok [OF m(1,2,5)] m(3,6) by (simp add: kvolve_get_db_val_def)
qed

lemma moved_at_brk:
  "moved_at R c v key k1 k2 a ob s \<Longrightarrow> moved_at R c v key k1 k2 a ob (s\<lparr>brk := brk s + n, upd_fun_running := b\<rparr>)"
  by (auto simp: moved_at_def keys_of_def sds_of_def intro: srv_ok_same_refs [OF srv_ok_brk])


section \<open>Renaming it\<close>

text \<open>An object that is not referenced before a rename is not referenced after it.\<close>

lemma unreferenced_rename:
  assumes ok: "srv_ok R s" and ok': "srv_ok R' s'" and b: "b \<notin># state_refs s" "b \<noteq> a"
    and s': "brk s' = brk s" "db s' = (db s)[d := x]" "list_ready s' = list_ready s" "heap_le (heap s') (heap s)"
    and d: "d < length (db s)" and x: "map_of (dict x) = (map_of (dict (db s ! d)))(k1 := None, k2 := Some a)"
  shows "b \<notin># state_refs s'"
proof
  assume "b \<in># state_refs s'"
  then consider y where "y \<in> set (db s')" "b \<in> snd ` set (dict y)"
    | e where "e < brk s" "b \<in># elems_at (heap s') e" | "b \<in> snd ` set (list_ready s)"
    using s'(1,3) by (auto simp: in_state_refs)
  then show False
  proof cases
    case 1
    show False
    proof (cases "y \<in> set (db s)")
      case True
      with 1 b(1) show False by (auto simp: in_state_refs)
    next
      case False
      with 1(1) s'(2) have "y = x" using set_update_subset_insert by fastforce
      moreover obtain k where k: "(k, b) \<in> set (dict y)" using 1(2) by auto
      moreover have "distinct (map fst (dict y))" using srv_okD(6) [OF ok' 1(1)] by (simp add: db_ok_def)
      ultimately have "map_of (dict x) k = Some b" by simp
      with x b(2) have "map_of (dict (db s ! d)) k = Some b" by (auto split: if_splits)
      then have "b \<in> snd ` set (dict (db s ! d))" by (force dest: map_of_SomeD)
      with d b(1) show False by (auto simp: in_state_refs)
    qed
  next
    case 2
    with elems_at_le [OF s'(4)] b(1) show False by (auto simp: in_state_refs)
  next
    case 3
    with b(1) show False by (simp add: in_state_refs)
  qed
qed

lemma held_not_stored: "srv_ok (add_mset a R) s \<Longrightarrow> heap s a = Some ob \<Longrightarrow> refcount ob = 1 \<Longrightarrow>
  count R a = 0 \<and> a \<notin># state_refs s \<and> shared_ref a = 0"
  using srv_okD(7) [of "add_mset a R" s a] by (auto simp: rc_def not_in_iff)

lemma namespace_update_rule:
  assumes m: "moved_at R c v key k1 k2 a ob s" and db0: "cdb c = 0"
    and q: "quiet s 0 k2 ob" and live: "\<not> expired s 0 k1" and a: "key \<noteq> a"
  obtains s' x where "kvolve_namespace_update c v s = Some s'" "srv_ok R s'" "heap_le (heap s') (heap s)"
    "db s' = (db s)[0 := x]" "rename_entry k1 k2 (db s ! 0) x" "upd_fun_running s' = upd_fun_running s"
    "stat_numcommands s' = stat_numcommands s" "stat_keyspace_hits s' = stat_keyspace_hits s"
    "stat_keyspace_misses s' = stat_keyspace_misses s"
    "tmp_store s' = tmp_store s" "mstime s' = mstime s" "loading s' = loading s" "masterhost s' = masterhost s"
    "vers_list s' = vers_list s"
proof -
  note m = moved_atD [OF m]
  from m(9) obtain p where p: "prev_ns v = Some p" "kvolve_construct_prev_name k2 p = Some k1" by blast
  let ?s1 = "s\<lparr>next_client_id := next_client_id s + 1\<rparr>"
  let ?cf = "\<lparr>cid = next_client_id s, cdb = 0, fd = - 1, argv = [0, brk s, key], replies = []\<rparr> :: client"
  have ok1: "srv_ok R ?s1" by (rule srv_ok_same_refs [OF m(1)]) simp_all
  let ?s2 = "with_obj (one_string k1 0) ?s1"
  note new = create_string_ok [OF ok1, where x = k1]
  have ok2: "srv_ok (add_mset (brk s) R) ?s2" using new(2) by simp
  have live_key: "heap s key \<noteq> None" using m(5) by (auto simp: sds_of_def split: option.splits)
  then have ne: "key \<noteq> brk s" "a \<noteq> brk s" using srv_okD(1) [OF m(1), of "brk s"] m(8) by auto
  have sds2: "sds_of ?s2 (brk s) = Some k1" "sds_of ?s2 key = Some k2"
    using new(3) new(4) ne m(5) by (simp_all add: sds_of_def)
  have keys2: "keys_of ?s2 0 = keys_of s 0" "ttl_of ?s2 0 = ttl_of s 0" by (simp_all add: keys_of_def ttl_of_def)
  have q2: "quiet ?s2 0 k2 ob" using q by (simp add: quiet_def)
  have live2: "\<not> expired ?s2 0 k1" using live by (auto simp: expired_def ttl_of_def with_obj_def new_obj_def)
  have h2: "heap ?s2 a = Some ob" using m(8) ne by simp
  obtain h x where ren: "renameGenericCommand False ?cf ?s2 = Some (addReply ROk ?cf, rename_result 0 k1 k2 h x ?s2)"
    "srv_ok (add_mset (brk s) R) (rename_result 0 k1 k2 h x ?s2)" "heap_le h (heap ?s2)"
    "rename_entry k1 k2 (db ?s2 ! 0) x"
    using rename_rule [OF ok2, of ?cf "brk s" key k1 a ob k2 False thesis] sds2 keys2 q2 live2 h2 m(2,4,6,7) db0
    by (simp add: arg_def)
  let ?s3 = "rename_result 0 k1 k2 h x ?s2"
  have fresh: "count R (brk s) = 0" "brk s \<notin># state_refs ?s2" "shared_ref (brk s) = 0"
    using held_not_stored [OF ok2, of "one_string k1 0"] by (simp_all add: one_string_def)
  have x: "map_of (dict x) = (map_of (dict (db ?s2 ! 0)))(k1 := None, k2 := Some a)"
    using ren(4) m(7) db0 by (simp add: rename_entry_def keys_of_def)
  have "brk s \<notin># state_refs ?s3"
    by (rule unreferenced_rename [OF ok2 ren(2) fresh(2), of a 0 x k1 k2])
      (use ne m(2) db0 ren(3) x in \<open>simp_all add: rename_result_def\<close>)
  moreover have ok3: "srv_ok R ?s3" by (rule srv_ok_mono [OF ren(2)]) simp
  moreover obtain ob3 where ob3: "heap ?s3 (brk s) = Some ob3" by (rule held_live [OF ren(2)])
  moreover have "elems ob3 = []"
  proof -
    from ob3 have "h (brk s) = Some ob3" by (simp add: rename_result_def)
    from heap_leD [OF ren(3) this] have "same_val (one_string k1 0) ob3" by auto
    then show ?thesis by (simp add: same_val_def one_string_def)
  qed
  ultimately have z: "zfree (brk s) ?s3 = Some (?s3\<lparr>heap := (heap ?s3)(brk s := None)\<rparr>)"
    "srv_ok R (?s3\<lparr>heap := (heap ?s3)(brk s := None)\<rparr>)"
    using zfree_rule [OF ok3 ob3] fresh by (simp_all add: not_in_iff)
  have le: "heap_le (h(brk s := None)) (heap s)"
    unfolding heap_le_def
  proof (intro allI impI)
    fix b ob' assume b: "(h(brk s := None)) b = Some ob'"
    then have "b \<noteq> brk s" "h b = Some ob'" by (simp_all split: if_splits)
    with heap_leD [OF ren(3) this(2)] show "\<exists>ob. heap s b = Some ob \<and> same_val ob ob'" by auto
  qed
  have "kvolve_namespace_update c v s = Some (?s3\<lparr>heap := (heap ?s3)(brk s := None)\<rparr>)"
    using lookupKey_ok [OF m(1,2,5)] m(3,5,6) p new(1) ren(1) z(1)
    by (simp add: kvolve_namespace_update_def createClient_fake_def renameCommand_def sds_of_def)
  then show thesis
    by (rule that [OF _ z(2), of x])
      (use le ren(4) in \<open>simp_all add: rename_result_def with_obj_def new_obj_def\<close>)
qed


section \<open>GET under the new name\<close>

lemma get_moved_rule:
  assumes U: "value_update (upd_env E) g" and v: "vh_ok v" and m: "moved_at R c v key k1 k2 a ob s"
    and c: "cdb c = 0" "key \<noteq> a" and raw: "raw_string ob x" and live: "\<not> expired s 0 k1"
    and run: "\<not> upd_fun_running s" and old: "cur_vers v \<noteq> Some (vers ob)"
    and ns: "ns_changed v (first_step v (vers ob)) = Some True"
  obtains s' ob' y where "kvolve_get E c v s = Some s'" "srv_ok R s'" "db s' = (db s)[0 := y]"
    "rename_entry k1 k2 (db s ! 0) y" "heap s' a = Some ob'" "raw_string ob' (upd_steps g v (missing_steps v (vers ob)) x)"
    "vers ob' = last (versions v)"
proof -
  let ?s2 = "s\<lparr>brk := brk s + 1, upd_fun_running := True\<rparr>"
  let ?js = "[first_step v (vers ob)..<length (versions v)]"
  have m2: "moved_at R c v key k1 k2 a ob ?s2" by (rule moved_at_brk [OF m])
  have str: "otype ob = REDIS_STRING" using raw by (simp add: raw_string_def)
  have "quiet ?s2 0 k2 ob" using str by (simp add: quiet_def)
  moreover have "\<not> expired ?s2 0 k1" using live by (simp add: expired_def ttl_of_def)
  ultimately obtain s3 y where s3: "kvolve_namespace_update c v ?s2 = Some s3" "srv_ok R s3"
    "heap_le (heap s3) (heap s)" "db s3 = (db s)[0 := y]" "rename_entry k1 k2 (db s ! 0) y" "upd_fun_running s3"
    using namespace_update_rule [OF m2 c(1) _ _ c(2), of thesis] by simp
  note m0 = moved_atD [OF m]
  have d: "0 < length (db s3)" "cdb c < length (db s3)" using m0(2) c s3(4) by simp_all
  have k2: "keys_of s3 0 k2 = Some a"
    using s3(4,5) d m0(2,7) c by (simp add: keys_of_def rename_entry_def)
  from dict_value_live [OF s3(2) d(1) k2] obtain ob3 where ob3: "heap s3 a = Some ob3" by blast
  from heap_leD [OF s3(3) this] m0(8) have "same_val ob ob3" by auto
  then have raw3: "raw_string ob3 x" "vers ob3 = vers ob" using raw by (auto simp: raw_string_def same_val_def)
  have key3: "sds_of s3 key = Some k2" by (rule held_sds [OF s3(3,2) refl m0(4,5)])
  have lt: "\<forall>j \<in> set ?js. j < length (versions v)" by simp
  from run_versions_string [OF U m0(3) c(2) v ob3 raw3(1) key3 d(2) lt] obtain s4 where
    s4: "run_versions (upd_env E) c v True REDIS_STRING None ?js a s3 = Some s4"
    "value_changed a (ob3\<lparr>vers := version_after v (vers ob3) ?js, ptr := Sds (upd_steps g v ?js x)\<rparr>) s3 s4" by blast
  let ?s' = "s4\<lparr>upd_fun_running := False\<rparr>"
  have "kvolve_get E c v s = Some ?s'"
    using get_db_val_moved [OF m] run m0(8) raw old v ns s3(1) s4(1)
    by (simp add: kvolve_get_def kvolve_check_update_kv_pair_def obj_def is_shared_int_def raw_string_def
        cur_vers_def vh_ok_def Let_def split: if_splits)
  moreover have "srv_ok R ?s'"
    by (rule srv_ok_same_refs [OF value_changed_ok [OF s3(2) ob3 raw3(1) s4(2)]]) simp_all
  moreover have "db ?s' = (db s)[0 := y]" using value_changed_fields(1) [OF s4(2)] s3(4) by simp
  moreover have "heap ?s' a = Some (ob3\<lparr>vers := last (versions v), ptr := Sds (upd_steps g v ?js x)\<rparr>)"
    using value_changed_heap [OF s4(2)] version_after_missing [OF v old] raw3(2) by simp
  moreover have "?js = missing_steps v (vers ob)" using old by (simp add: missing_steps_def)
  ultimately show thesis
    using s3(5) raw3(1) by (intro that [of ?s' y "ob3\<lparr>vers := last (versions v), ptr := Sds (upd_steps g v ?js x)\<rparr>"])
      (simp_all add: raw_string_def)
qed


section \<open>Where the search and the rename stop\<close>

text \<open>The previous namespace of a namespace is looked up as if it were a key: a name without a
  colon finds the default namespace or nothing.\<close>

lemma ns_entry_no_colon: "CHR '':'' \<notin> set (c_str p) \<Longrightarrow> ns_entry p s = map_of (vers_list s) ''*''"
  using rsplit_None [of "CHR '':''" "c_str p"]
  by (cases "vers_list s = []") (simp_all add: ns_entry_def kvolve_version_hash_lookup.simps)

lemma rename_missing:
  assumes ok: "srv_ok R s" and d: "cdb c < length (db s)" and k: "arg c 1 = Some src" "arg c 2 = Some dst"
    "sds_of s src = Some k1" "sds_of s dst = Some k2" "keys_of s (cdb c) k1 = None" "k1 \<noteq> k2"
  shows "renameCommand c s = Some (addReply RNoKey c, s)"
proof -
  have "ttl_of s (cdb c) k1 = None"
    using db_ok_nth [OF ok d] k(5) by (auto simp: db_ok_def keys_of_def ttl_of_def map_of_eq_None_iff)
  then have "\<not> expired s (cdb c) k1" by (simp add: expired_def)
  from lookupKeyWrite_live [OF ok d k(3) this] k show ?thesis
    by (simp add: renameCommand_def renameGenericCommand_def lookupKeyWriteOrReply_def)
qed


section \<open>Properties\<close>


text \<open>
  The example: \<open>shop\<close> became \<open>store\<close> with version 5; a value is still under \<open>shop:1\<close>.
\<close>

definition store_v5 :: version_hash where
  "store_v5 = \<lparr>ns = ''store'', prev_ns = Some ''shop'', next_ns = None, versions = [4, 5],
     info = [None, Some \<lparr>from_ns = ''shop'', to_ns = ''store'', from_vers = 4, to_vers = 5, funs = [7]\<rparr>],
     clients = intsetNew\<rparr>"

definition shop_state :: server where
  "shop_state = with_obj (one_string ''store:1'' 0) (one_key ''shop:1'' ''w'' 4)"

lemma shop_state_fields [simp]: "\<not> upd_fun_running shop_state" "\<not> expired shop_state 0 k"
  by (simp_all add: shop_state_def one_key_def with_obj_def with_entry_def new_obj_def initServer_def
      expired_def ttl_of_def empty_db_def)

lemma shop_moved:
  "moved_at {#10002, 10001#} (on_db0 [0, 10002]) store_v5 10002 ''shop:1'' ''store:1'' 10000 (one_string ''w'' 4) shop_state"
proof -
  have "srv_ok {#10002, 10001#} shop_state"
    using with_obj_ok [OF one_key_ok] by (fastforce simp: shop_state_def)
  moreover have "kvolve_construct_prev_name ''store:1'' ''shop'' = Some ''shop:1''"
    by (simp add: kvolve_construct_prev_name_def c_str_def)
  ultimately show ?thesis
    by (simp add: moved_at_def shop_state_def keys_of_def empty_db_def arg_def sds_of_def store_v5_def)
      (simp add: one_string_def)
qed



definition on_db1 :: "addr list \<Rightarrow> client" where
  "on_db1 as = (on_db0 as)\<lparr>cdb := 1\<rparr>"

text \<open>The same store with the old key on database 1, and one with two changes of namespace.\<close>

definition shop_db1 :: server where
  "shop_db1 = (let s = with_obj (one_string ''store:1'' 0) (with_obj (one_string ''w'' 4) initServer)
     in s\<lparr>db := (db s)[1 := empty_db\<lparr>dict := [(''shop:1'', 10000)]\<rparr>]\<rparr>)"


text \<open>C12. The search for a value under its earlier names goes back one namespace only: when the
  previous namespace has a name without a colon and there is no default namespace, a key that is
  in neither of the last two namespaces is reported missing, whatever is stored under the names
  of older ones.\<close>

theorem search_goes_back_once:
  assumes "srv_ok R s" "cdb c < length (db s)" "arg c 1 = Some key" "sds_of s key = Some k2"
    and "prev_ns v = Some p" "CHR '':'' \<notin> set (c_str p)" "map_of (vers_list s) ''*'' = None"
    and "kvolve_construct_prev_name k2 p = Some k1" "keys_of s (cdb c) k2 = None" "keys_of s (cdb c) k1 = None"
  shows "kvolve_get_db_val c v s = Some (None, s\<lparr>brk := brk s + 1\<rparr>)"
proof -
  note new = create_string_ok [OF assms(1), where x = k1]
  have "lookupKey (cdb c) (brk s) (with_obj (one_string k1 0) s) = Some None"
    using lookupKey_ok [OF new(2) _ new(3)] assms(2,10) by (simp add: keys_of_def)
  moreover have "zfree (brk s) (with_obj (one_string k1 0) s) = Some (s\<lparr>brk := brk s + 1\<rparr>)"
    using tmp_string [OF assms(1), of k1] new(1) by simp
  moreover have "ns_entry p (s\<lparr>brk := brk s + 1\<rparr>) = None" using assms(6,7) by (simp add: ns_entry_no_colon)
  ultimately have "get_db_val_loop c (Some v) s = Some (None, s\<lparr>brk := brk s + 1\<rparr>)"
    using assms(3-5,8) new(1) by (simp add: get_db_val_loop.simps [of c "Some v"] get_db_val_loop.simps [of c None])
  then show ?thesis
    using lookupKey_ok [OF assms(1,2,4)] assms(3,9) by (simp add: kvolve_get_db_val_def)
qed

theorem search_goes_back_once_witness:
  "\<exists>s'. keys_of shop_state 0 ''shop:1'' = Some 10000 \<and>
     kvolve_get_db_val (on_db0 [0, 10002]) (store_v5\<lparr>prev_ns := Some ''bazaar''\<rparr>)
       (shop_state\<lparr>vers_list := [(''bazaar'', store_v5\<lparr>ns := ''bazaar''\<rparr>)]\<rparr>) = Some (None, s')"
proof -
  let ?s = "shop_state\<lparr>vers_list := [(''bazaar'', store_v5\<lparr>ns := ''bazaar''\<rparr>)]\<rparr>"
  have ok: "srv_ok {#10002, 10001#} ?s" by (rule srv_ok_same_refs [OF moved_atD(1) [OF shop_moved]]) simp_all
  have "cdb (on_db0 [0, 10002]) < length (db ?s)" "arg (on_db0 [0, 10002]) 1 = Some 10002" "sds_of ?s 10002 = Some ''store:1''"
    using moved_atD(2,3,5) [OF shop_moved] by (simp_all add: sds_of_def)
  note 1 = this
  have 2: "CHR '':'' \<notin> set (c_str ''bazaar'')" "kvolve_construct_prev_name ''store:1'' ''bazaar'' = Some ''bazaar:1''"
    by (simp_all add: kvolve_construct_prev_name_def c_str_def)
  have 3: "keys_of ?s 0 = [''shop:1'' \<mapsto> 10000]" by (simp add: shop_state_def keys_of_def empty_db_def)
  show ?thesis
    using search_goes_back_once [OF ok 1, of "store_v5\<lparr>prev_ns := Some ''bazaar''\<rparr>" "''bazaar''" "''bazaar:1''"] 2 3
    by (simp add: keys_of_def)
qed

end
