(* ===== verification/Kvolve_Set.thy ===== *)
theory Kvolve_Set
  imports Kvolve_Namespace
begin

text \<open>
  SET and SETNX under kvolve: which version the stored value carries.
\<close>

section \<open>Storing a string\<close>

text \<open>The arguments of a command that stores a plain (non-integer) string under a key.\<close>

definition store_args :: "addr multiset \<Rightarrow> client \<Rightarrow> addr \<Rightarrow> addr \<Rightarrow> string \<Rightarrow> string \<Rightarrow> robj \<Rightarrow> server \<Rightarrow> bool" where
  "store_args R c key val k x ob s \<longleftrightarrow>
     srv_ok (add_mset val R) s \<and> cdb c < length (db s) \<and> (\<exists>cmd. argv c = [cmd, key, val]) \<and> key \<in># R \<and> key \<noteq> val \<and>
     sds_of s key = Some k \<and> heap s val = Some ob \<and> raw_string ob x \<and> string2l x = None \<and> \<not> expired s (cdb c) k"

lemma store_argsD:
  assumes "store_args R c key val k x ob s"
  shows "srv_ok (add_mset val R) s" "cdb c < length (db s)" "arg c 1 = Some key" "arg c 2 = Some val"
    "drop 3 (argv c) = []" "key \<in># R" "key \<noteq> val" "sds_of s key = Some k" "heap s val = Some ob" "raw_string ob x"
    "string2l x = None" "\<not> expired s (cdb c) k" "set_arg 2 val c = c"
  using assms by (auto simp: store_args_def arg_def set_arg_def)

lemma setKey_string:
  assumes st: "store_args R c key val k x ob s"
  obtains s' where "setKey (cdb c) key val s = Some s'" "srv_ok (add_mset val R) s'" "heap_le (heap s') (heap s)"
    "keys_of s' (cdb c) = (keys_of s (cdb c))(k \<mapsto> val)" "heap s' val \<noteq> None" "sds_of s' key = Some k"
    "length (db s') = length (db s)" "ttl_of s' (cdb c) k = None" "\<not> upd_fun_running s \<longrightarrow> \<not> upd_fun_running s'"
proof -
  note st = store_argsD [OF st]
  have "quiet s (cdb c) k ob" using st(10) by (simp add: quiet_def raw_string_def)
  from setKey_rule [OF st(1,2,8,6,12,9) this] obtain h x' s' where
    s': "s' = s\<lparr>heap := h, db := (db s)[cdb c := x'], dirty_cas := watchers s (cdb c) k @ dirty_cas s\<rparr>" and
    *: "setKey (cdb c) key val s = Some s'" "srv_ok (add_mset val R) s'" "heap_le h (heap s)"
    "set_entry k val (db s ! cdb c) x'" by metis
  have le: "heap_le (heap s') (heap s)" using *(3) s' by simp
  moreover obtain ob' where "heap s' val = Some ob'" by (rule held_live [OF *(2)])
  moreover have "sds_of s' key = Some k"
    by (rule held_sds [OF le *(2) refl _ st(8)]) (use st(6) in simp)
  ultimately show thesis
    using * s' st(2) by (intro that [OF *(1,2)]) (simp_all add: keys_of_def ttl_of_def set_entry_def AList.delete_conv')
qed

lemma same_val_raw: "same_val ob ob' \<Longrightarrow> raw_string ob x \<Longrightarrow> raw_string ob' x \<and> vers ob' = vers ob"
  by (simp add: same_val_def raw_string_def)

text \<open>The end of SET and SETNX, once the key is known to be free or replaceable.\<close>

definition stored :: "addr multiset \<Rightarrow> client \<Rightarrow> string \<Rightarrow> addr \<Rightarrow> robj \<Rightarrow> string \<Rightarrow> server \<Rightarrow> bool" where
  "stored R c k val ob x s' \<longleftrightarrow> (\<exists>ob'. string_at (add_mset val R) c k val ob' x s' \<and> vers ob' = vers ob) \<and>
     \<not> expired s' (cdb c) k"

lemma setGeneric_string:
  assumes st: "store_args R c key val k x ob s" and free: "fst flags \<longrightarrow> keys_of s (cdb c) k = None" "\<not> snd flags"
  obtains s' where "setGenericCommand cmd flags key val None ok ab c s = Some (addReply ok c, s')"
    "stored R c k val ob x s'" "\<not> upd_fun_running s \<longrightarrow> \<not> upd_fun_running s'"
    "keys_of s' (cdb c) = (keys_of s (cdb c))(k \<mapsto> val)"
proof -
  obtain s1 where s1: "setKey (cdb c) key val s = Some s1" "srv_ok (add_mset val R) s1" "heap_le (heap s1) (heap s)"
    "keys_of s1 (cdb c) = (keys_of s (cdb c))(k \<mapsto> val)" "heap s1 val \<noteq> None" "sds_of s1 key = Some k"
    "length (db s1) = length (db s)" "ttl_of s1 (cdb c) k = None" "\<not> upd_fun_running s \<longrightarrow> \<not> upd_fun_running s1"
    by (rule setKey_string [OF st])
  note st = store_argsD [OF st]
  from s1(5) obtain ob' where ob': "heap s1 val = Some ob'" by blast
  from heap_leD [OF s1(3) this] st(9) have "same_val ob ob'" by auto
  note ob'' = same_val_raw [OF this st(10)]
  let ?s' = "s1\<lparr>dirty := dirty s1 + 1, effects := effects s1 @ [Notify ''set'' k (cdb c)]\<rparr>"
  have lk: "lookupKeyWrite (cdb c) key s = Some (keys_of s (cdb c) k, s)"
    using lookupKeyWrite_live [OF st(1,2,8,12)] .
  have "setGenericCommand cmd flags key val None ok ab c s = Some (addReply ok c, ?s')"
    using lk free s1(1) st(8)
    by (cases "fst flags") (simp_all add: setGenericCommand_def set_milliseconds_def notifyKeyspaceEvent_def)
  moreover have "srv_ok (add_mset val R) ?s'" by (rule srv_ok_same_refs [OF s1(2)]) simp_all
  then have "string_at (add_mset val R) c k val ob' x ?s'"
    using s1 st ob' ob'' by (auto simp: string_at_def keys_of_def sds_of_def)
  then have "stored R c k val ob x ?s'"
    using ob'' s1(8) by (auto simp: stored_def expired_def ttl_of_def)
  ultimately show thesis using s1(4,9) by (intro that [of ?s']) (simp_all add: keys_of_def)
qed

lemma encode_plain: "heap s val = Some ob \<Longrightarrow> raw_string ob x \<Longrightarrow> string2l x = None \<Longrightarrow> tryObjectEncoding val s = Some (val, s)"
  by (rule tryObjectEncoding_plain) (auto simp: raw_string_def str_ok_def str_val_def)

lemma store_args_vers:
  assumes st: "store_args R c key val k x ob s"
  shows "set_vers val n s = Some (s\<lparr>heap := (heap s)(val \<mapsto> ob\<lparr>vers := n\<rparr>)\<rparr>)"
    "store_args R c key val k x (ob\<lparr>vers := n\<rparr>) (s\<lparr>heap := (heap s)(val \<mapsto> ob\<lparr>vers := n\<rparr>)\<rparr>)"
proof -
  note d = store_argsD [OF st]
  show "set_vers val n s = Some (s\<lparr>heap := (heap s)(val \<mapsto> ob\<lparr>vers := n\<rparr>)\<rparr>)"
    using d(9) by (simp add: set_vers_def upd_obj_def)
  have "obj_ok ob" by (rule srv_okD(4) [OF d(1,9)])
  then have "srv_ok (add_mset val R) (s\<lparr>heap := (heap s)(val \<mapsto> ob\<lparr>vers := n\<rparr>)\<rparr>)"
    by (intro srv_ok_upd [OF d(1,9)]) simp_all
  then show "store_args R c key val k x (ob\<lparr>vers := n\<rparr>) (s\<lparr>heap := (heap s)(val \<mapsto> ob\<lparr>vers := n\<rparr>)\<rparr>)"
    using st by (auto simp: store_args_def raw_string_def sds_of_def expired_def ttl_of_def)
qed


section \<open>An example\<close>

text \<open>An empty store; the arguments \<open>order:1\<close> and a value of a client's command.\<close>

definition order_args :: server where
  "order_args = with_obj (one_string ''w'' 0) (with_obj (one_string ''order:1'' 0) initServer)"

lemma order_args_fields [simp]: "\<not> upd_fun_running order_args" "keys_of order_args 0 = Map.empty"
  by (simp_all add: order_args_def with_obj_def new_obj_def initServer_def keys_of_def empty_db_def)

lemma order_args_ok:
  "store_args {#10000#} (on_db0 [0, 10000, 10001]) 10000 10001 ''order:1'' ''w'' (one_string ''w'' 0) order_args"
proof -
  have "srv_ok {#10001, 10000#} order_args"
    using with_obj_ok [OF with_obj_ok [OF srv_ok_init]] by (simp add: order_args_def)
  moreover have "string2l ''w'' = None" by code_simp
  moreover have "\<not> expired order_args 0 k" for k
    by (simp add: order_args_def with_obj_def new_obj_def initServer_def expired_def ttl_of_def empty_db_def)
  ultimately show ?thesis
    by (simp add: store_args_def raw_string_def) (simp add: order_args_def sds_of_def one_string_def)
qed


section \<open>Properties\<close>



text \<open>C10. SETNX of a key that does not exist stores the value with the version of the argument
  object, which is the 0 of a fresh object and not the current version: kvolve leaves the
  argument alone. The next GET therefore runs the update functions on a value that was written
  in the current format.\<close>

theorem setnx_keeps_object_version:
  assumes "store_args R c key val k x ob s" "vh_ok v" "prev_ns v = None" "keys_of s (cdb c) k = None"
    and "\<not> upd_fun_running s" "value_update (upd_env E) g"
  shows "\<exists>s1 s2 s3 ob'. kvolve_setnx E c v s = Some s1 \<and> setnxCommand c s1 = Some (addReply ROne c, s2) \<and>
    keys_of s2 (cdb c) k = Some val \<and> kvolve_get E c v s2 = Some s3 \<and>
    heap s3 val = Some ob' \<and> ptr ob' = Sds (upd_steps g v (missing_steps v (vers ob)) x)"
proof -
  note d = store_argsD [OF assms(1)]
  have "kvolve_get_db_val c v s = Some (None, s)"
    using lookupKey_ok [OF d(1,2,8)] d(3) assms(3,4) by (simp add: kvolve_get_db_val_def get_db_val_loop.simps)
  then have kn: "kvolve_setnx E c v s = Some s"
    using lookupKey_ok [OF d(1,2,8)] d(3) assms(4) by (simp add: kvolve_setnx_def)
  obtain s2 where s2: "setGenericCommand ''setnx'' (True, False) key val None ROne RZero c s = Some (addReply ROne c, s2)"
    "stored R c k val ob x s2" "\<not> upd_fun_running s \<longrightarrow> \<not> upd_fun_running s2"
    "keys_of s2 (cdb c) = (keys_of s (cdb c))(k \<mapsto> val)"
    by (rule setGeneric_string [OF assms(1), where flags = "(True, False)" and cmd = "''setnx''" and ok = ROne and ab = RZero])
      (use assms(4) in simp_all)
  have sc: "setnxCommand c s = Some (addReply ROne c, s2)"
    using d(3,4,13) encode_plain [OF d(9,10,11)] s2(1) by (simp add: setnxCommand_def)
  from s2(2) obtain ob' where ob': "string_at (add_mset val R) c k val ob' x s2" "vers ob' = vers ob"
    by (auto simp: stored_def)
  from get_string_rule [OF assms(6,2) ob'(1)] s2(3) assms(5) obtain s3 where
    s3: "kvolve_get E c v s2 = Some s3" "value_changed val (updated g v x ob') s2 s3" by blast
  then have "heap s3 val = Some (updated g v x ob')" by (simp add: value_changed_heap)
  moreover have "ptr (updated g v x ob') = Sds (upd_steps g v (missing_steps v (vers ob)) x)"
    by (simp add: updated_def ob'(2))
  ultimately show ?thesis using kn sc s2(4) s3(1) by fastforce
qed

theorem setnx_keeps_object_version_witness:
  "\<exists>s1 s2 s3 ob'. kvolve_setnx order_env (on_db0 [0, 10000, 10001]) order_v1 order_args = Some s1 \<and>
     setnxCommand (on_db0 [0, 10000, 10001]) s1 = Some (addReply ROne (on_db0 [0, 10000, 10001]), s2) \<and>
     keys_of s2 0 ''order:1'' = Some 10001 \<and>
     kvolve_get order_env (on_db0 [0, 10000, 10001]) order_v1 s2 = Some s3 \<and>
     heap s3 10001 = Some ob' \<and> ptr ob' = Sds ''wUPDATED''"
proof -
  have U: "value_update (kv_env.upd_env order_env) (\<lambda>f x. x @ ''UPDATED'')" by (simp add: order_env_def suffix_upd_ok)
  have 1: "prev_ns order_v1 = None" "keys_of order_args (cdb (on_db0 [0, 10000, 10001])) ''order:1'' = None"
    by (simp_all add: order_v1_def)
  have 2: "vers (one_string ''w'' 0) = 0" by (simp add: one_string_def)
  from setnx_keeps_object_version [OF order_args_ok order_ok(1) 1 _ U] show ?thesis
    using order_steps by (simp add: 2)
qed

end
