(* ===== verification/Registry_Rules.thy ===== *)
theory Registry_Rules
  imports Kvolve_Rules
begin

text \<open>
  The namespace registry: its invariant, what a connecting client does to it, and what loading
  an update does to it.
\<close>

section \<open>Invariant\<close>

text \<open>The identifiers of the clients that may appear in the registry.\<close>

definition ids_ok :: "int set \<Rightarrow> bool" where
  "ids_ok C \<longleftrightarrow> finite C \<and> card C < 2 ^ 28 \<and> (\<forall>i \<in> C. int64 i)"

definition client_set :: "version_hash \<Rightarrow> int set" where
  "client_set v = set (intset_elems (clients v))"

definition entry_ok :: "int set \<Rightarrow> string \<Rightarrow> version_hash \<Rightarrow> bool" where
  "entry_ok C n v \<longleftrightarrow> vh_ok v \<and> ns v = n \<and> length (versions v) \<le> KV_INIT_SZ \<and>
     intset_inv (clients v) \<and> client_set v \<subseteq> C"

text \<open>
  Entries have distinct names, and a predecessor was registered before its successor, so the
  chain of predecessors of every namespace ends.
\<close>

fun reg_ok :: "int set \<Rightarrow> version_hash sdict \<Rightarrow> bool" where
  "reg_ok C [] \<longleftrightarrow> True"
| "reg_ok C ((n, v) # vl) \<longleftrightarrow> reg_ok C vl \<and> n \<notin> fst ` set vl \<and> entry_ok C n v \<and>
     (\<forall>p. prev_ns v = Some p \<longrightarrow> p \<in> fst ` set vl)"

lemma reg_ok_entry: "reg_ok C vl \<Longrightarrow> map_of vl n = Some v \<Longrightarrow> entry_ok C n v"
  by (induction C vl rule: reg_ok.induct) (auto split: if_splits)

lemma reg_ok_update:
  assumes "reg_ok C vl" "map_of vl n = Some v" "entry_ok C n v'" "prev_ns v' = prev_ns v"
  shows "reg_ok C (AList.update n v' vl)"
  using assms
proof (induction C vl rule: reg_ok.induct)
  case (2 C m w vl)
  then show ?case
    by (cases "n = m") (auto simp: update_conv' dest: map_of_SomeD simp flip: dom_map_of_conv_image_fst)
qed simp

lemma update_split:
  "n \<notin> fst ` set us \<Longrightarrow> AList.update n w (us @ (n, v) # ws) = us @ (n, w) # ws"
  by (induction us) auto

lemma put_ok:
  assumes "ids_ok C" "intset_inv is" "set (intset_elems is) \<subseteq> C" "i \<in> C"
  obtains is' where "intset_put is i = Some is'" "intset_inv is'" "set (intset_elems is') = insert i (set (intset_elems is))"
proof -
  have i: "int64 i" using assms by (simp add: ids_ok_def)
  have "intsetLen is = card (set (intset_elems is))" by (rule intset.size_ok [OF assms(2)])
  moreover have "card (set (intset_elems is)) \<le> card C"
    using assms(1,3) by (intro card_mono) (simp_all add: ids_ok_def)
  moreover have "card C < 2 ^ 28" using assms(1) unfolding ids_ok_def by blast
  ultimately have "is_length is + 1 \<le> 2 ^ 28" unfolding intsetLen_def by linarith
  moreover have "is_encoding is \<in> {2, 4, 8}" by (rule intset_repD(1) [OF assms(2) [unfolded intset_inv_def]])
  then have "max (is_encoding is) (intsetValueEncoding i) \<le> 8" using valueEncoding_cases [of i] by auto
  ultimately have "(is_length is + 1) * max (is_encoding is) (intsetValueEncoding i) \<le> 2 ^ 28 * 8"
    by (rule mult_le_mono)
  moreover have "2 ^ 28 * 8 < (2 :: nat) ^ 32" by simp
  ultimately have "intset_room is i" unfolding intset_room_def by (rule order.strict_trans1)
  from intset.add_ok [OF assms(2) i this] show thesis by (auto simp: intset_put_def intro: that)
qed

lemma put_clients_ok:
  assumes "ids_ok C" "entry_ok C n v" "i \<in> C"
  obtains is' where "intset_put (clients v) i = Some is'" "entry_ok C n (v\<lparr>clients := is'\<rparr>)"
    "client_set (v\<lparr>clients := is'\<rparr>) = insert i (client_set v)"
proof -
  have v: "intset_inv (clients v)" "set (intset_elems (clients v)) \<subseteq> C"
    using assms(2) by (simp_all add: entry_ok_def client_set_def)
  obtain is' where "intset_put (clients v) i = Some is'" "intset_inv is'"
    "set (intset_elems is') = insert i (set (intset_elems (clients v)))"
    by (rule put_ok [OF assms(1) v assms(3)])
  with assms(2,3) show thesis by (intro that) (auto simp: entry_ok_def client_set_def vh_ok_def)
qed

section \<open>Connecting\<close>

text \<open>The announcement \<^verbatim>\<open>ns@version,ns@version,...\<close> of a client.\<close>

fun announce :: "(string \<times> int) list \<Rightarrow> string" where
  "announce [] = []"
| "announce [(n, w)] = n @ CHR ''@'' # dec_int w"
| "announce ((n, w) # p # ps) = n @ CHR ''@'' # dec_int w @ CHR '','' # announce (p # ps)"

definition ann_ok :: "string \<times> int \<Rightarrow> bool" where
  "ann_ok p \<longleftrightarrow> fst p \<noteq> [] \<and> CHR ''@'' \<notin> set (fst p) \<and> NUL \<notin> set (fst p) \<and>
     - 2147483648 \<le> snd p \<and> snd p \<le> 2147483647"

text \<open>
  What the registry records of a namespace, and the admission of a client to a list of
  namespaces: an unknown namespace is founded, a known one must be at the announced version and
  must not have a successor. The first refusal ends it.
\<close>

type_synonym reg_view = "string \<rightharpoonup> int list \<times> int set \<times> bool"

definition view :: "version_hash \<Rightarrow> int list \<times> int set \<times> bool" where
  "view v = (versions v, client_set v, next_ns v \<noteq> None)"

definition reg_view :: "version_hash sdict \<Rightarrow> reg_view" where
  "reg_view vl n = map_option view (map_of vl n)"

fun admit :: "int \<Rightarrow> (string \<times> int) list \<Rightarrow> reg_view \<Rightarrow> reg_view \<times> bool" where
  "admit i [] g = (g, True)"
| "admit i ((n, w) # ps) g =
     (case g n of
        None \<Rightarrow> admit i ps (g(n \<mapsto> ([w], {i}, False)))
      | Some (vs, cs, old) \<Rightarrow>
          if last vs = w \<and> \<not> old then admit i ps (g(n \<mapsto> (vs, insert i cs, old))) else (g, False))"

lemma until_delim: "d \<notin> set t \<Longrightarrow> dropWhile (\<lambda>c. c \<noteq> d) (t @ r) = dropWhile (\<lambda>c. c \<noteq> d) r"
  "d \<notin> set t \<Longrightarrow> takeWhile (\<lambda>c. c \<noteq> d) (t @ r) = t @ takeWhile (\<lambda>c. c \<noteq> d) r"
  by (induction t) auto

lemma until_end: "d \<notin> set t \<Longrightarrow> dropWhile (\<lambda>c. c \<noteq> d) t = []"
  by (induction t) auto

lemma strtok_token: "t \<noteq> [] \<Longrightarrow> d \<notin> set t \<Longrightarrow> strtok d (t @ d # r) = Some (t, r, False)"
  using until_delim [of d t "d # r"] by (cases t) (auto simp: strtok_def Let_def)

lemma strtok_last: "t \<noteq> [] \<Longrightarrow> d \<notin> set t \<Longrightarrow> strtok d t = Some (t, [], True)"
  by (cases t) (auto simp: strtok_def Let_def until_end)

lemma dec_int_token: "dec_int w \<noteq> []" "CHR '','' \<notin> set (dec_int w)"
  by (auto simp: dec_int_def dest!: dec_nat_digits) (simp_all add: isdigit_def)

lemma atoi_dec: "ann_ok (n, w) \<Longrightarrow> atoi (dec_int w) = w"
  by (simp add: atoi_def strtoll_dec long_range_def ann_ok_def int32_def)

lemma c_str_announce: "\<forall>p \<in> set ps. ann_ok p \<Longrightarrow> NUL \<notin> set (announce ps)"
  by (induction ps rule: announce.induct) (auto simp: ann_ok_def)

lemma found_ns:
  assumes "ids_ok C" "reg_ok C (vers_list s)" "map_of (vers_list s) n = None" "i \<in> C"
  obtains v where "kvolve_create_ns (Some i) n None w None s = Some (v, s\<lparr>vers_list := (n, v) # vers_list s\<rparr>)"
    "reg_ok C ((n, v) # vers_list s)" "view v = ([w], {i}, False)"
proof -
  obtain is' where is': "intset_put intsetNew i = Some is'" "intset_inv is'" "set (intset_elems is') = {i}"
    using put_ok [OF assms(1) intset.invar_empty _ assms(4)] intset.elems_empty by auto
  let ?v = "\<lparr>ns = n, prev_ns = None, next_ns = None, versions = [w], info = [None], clients = is'\<rparr>"
  show thesis
    by (rule that [of ?v]) (use assms is' in \<open>simp_all add: kvolve_create_ns_def entry_ok_def vh_ok_def client_set_def
      view_def map_of_eq_None_iff Let_def\<close>)
qed

lemma known_ns:
  assumes "ids_ok C" "reg_ok C (vers_list s)" "map_of (vers_list s) n = Some v" "i \<in> C"
  obtains ids where "intset_put (clients v) i = Some ids" "reg_ok C (AList.update n (v\<lparr>clients := ids\<rparr>) (vers_list s))"
    "view (v\<lparr>clients := ids\<rparr>) = (versions v, insert i (client_set v), next_ns v \<noteq> None)"
proof -
  note e = reg_ok_entry [OF assms(2,3)]
  obtain ids where ids: "intset_put (clients v) i = Some ids" "entry_ok C n (v\<lparr>clients := ids\<rparr>)"
    "client_set (v\<lparr>clients := ids\<rparr>) = insert i (client_set v)"
    by (rule put_clients_ok [OF assms(1) e assms(4)])
  with reg_ok_update [OF assms(2,3) ids(2)] show thesis by (intro that) (simp_all add: view_def)
qed

text \<open>One announcement, and the result of a list of them.\<close>

definition admitted :: "int set \<Rightarrow> addr \<Rightarrow> robj \<Rightarrow> reg_view \<times> bool \<Rightarrow> server \<Rightarrow> server \<Rightarrow> bool" where
  "admitted C a ob r s s' \<longleftrightarrow> reg_ok C (vers_list s') \<and> reg_view (vers_list s') = fst r \<and> db s' = db s \<and>
     heap s' = (if snd r then heap s else (heap s)(a \<mapsto> ob\<lparr>ptr := Sds ''quit''\<rparr>))"

lemma admitted_registry [simp]: "admitted C a ob r (s\<lparr>vers_list := vl\<rparr>) s' = admitted C a ob r s s'"
  by (simp add: admitted_def)

lemma check_version_step:
  assumes "strtok CHR ''@'' buf = Some (n, r1, e1)" "strtok CHR '','' r1 = Some (dec_int w, r2, e)" "ann_ok (n, w)"
    and C: "ids_ok C" "cid c \<in> C" "reg_ok C (vers_list s)" and a: "arg c 0 = Some a" "heap s a = Some ob"
    and rest: "\<And>vl. reg_ok C vl \<Longrightarrow> \<exists>s'. (if e then Some (s\<lparr>vers_list := vl\<rparr>) else check_version_loop c r2 (s\<lparr>vers_list := vl\<rparr>)) = Some s' \<and>
        admitted C a ob (admit (cid c) ps (reg_view vl)) (s\<lparr>vers_list := vl\<rparr>) s'"
  shows "\<exists>s'. check_version_loop c buf s = Some s' \<and> admitted C a ob (admit (cid c) ((n, w) # ps) (reg_view (vers_list s))) s s'"
proof (cases "map_of (vers_list s) n")
  case None
  obtain v where v: "kvolve_create_ns (Some (cid c)) n None w None s = Some (v, s\<lparr>vers_list := (n, v) # vers_list s\<rparr>)"
    "reg_ok C ((n, v) # vers_list s)" "view v = ([w], {cid c}, False)"
    by (rule found_ns [OF C(1,3) None C(2)])
  have "reg_view ((n, v) # vers_list s) = (reg_view (vers_list s))(n \<mapsto> ([w], {cid c}, False))"
    using v(3) by (auto simp: reg_view_def)
  then have "admit (cid c) ((n, w) # ps) (reg_view (vers_list s)) = admit (cid c) ps (reg_view ((n, v) # vers_list s))"
    using None by (simp add: reg_view_def)
  moreover have "check_version_loop c buf s = (if e then Some (s\<lparr>vers_list := (n, v) # vers_list s\<rparr>)
      else check_version_loop c r2 (s\<lparr>vers_list := (n, v) # vers_list s\<rparr>))"
    using None v(1) assms(1-3) by (subst check_version_loop.simps) (simp add: atoi_dec)
  ultimately show ?thesis using rest [OF v(2)] by (metis admitted_registry)
next
  case (Some v)
  have vv: "cur_vers v = Some (last (versions v))"
    using reg_ok_entry [OF C(3) Some] by (simp add: entry_ok_def vh_ok_def cur_vers_def)
  have g: "reg_view (vers_list s) n = Some (versions v, client_set v, next_ns v \<noteq> None)"
    using Some by (simp add: reg_view_def view_def)
  show ?thesis
  proof (cases "last (versions v) = w \<and> next_ns v = None")
    case True
    obtain ids where ids: "intset_put (clients v) (cid c) = Some ids"
      "reg_ok C (AList.update n (v\<lparr>clients := ids\<rparr>) (vers_list s))"
      "view (v\<lparr>clients := ids\<rparr>) = (versions v, insert (cid c) (client_set v), next_ns v \<noteq> None)"
      by (rule known_ns [OF C(1,3) Some C(2)])
    have "reg_view (AList.update n (v\<lparr>clients := ids\<rparr>) (vers_list s)) =
        (reg_view (vers_list s))(n \<mapsto> (versions v, insert (cid c) (client_set v), next_ns v \<noteq> None))"
      using ids(3) by (auto simp: reg_view_def update_conv')
    then have "admit (cid c) ((n, w) # ps) (reg_view (vers_list s)) =
        admit (cid c) ps (reg_view (AList.update n (v\<lparr>clients := ids\<rparr>) (vers_list s)))"
      using g True by simp
    moreover have "check_version_loop c buf s =
        (if e then Some (s\<lparr>vers_list := AList.update n (v\<lparr>clients := ids\<rparr>) (vers_list s)\<rparr>)
         else check_version_loop c r2 (s\<lparr>vers_list := AList.update n (v\<lparr>clients := ids\<rparr>) (vers_list s)\<rparr>))"
      using Some True ids(1) assms(1-3) vv by (subst check_version_loop.simps) (simp add: atoi_dec)
    ultimately show ?thesis using rest [OF ids(2)] by (metis admitted_registry)
  next
    case False
    have "make_quit c s = Some (s\<lparr>heap := (heap s)(a \<mapsto> ob\<lparr>ptr := Sds ''quit''\<rparr>)\<rparr>)"
      using a by (simp add: make_quit_def upd_obj_def)
    with False Some vv g assms(1-3) C(3) show ?thesis
      by (subst check_version_loop.simps) (auto simp: atoi_dec admitted_def)
  qed
qed

lemma check_version_loop_ok:
  assumes "ps \<noteq> []" "\<forall>p \<in> set ps. ann_ok p" "ids_ok C" "cid c \<in> C" "reg_ok C (vers_list s)"
    and "arg c 0 = Some a" "heap s a = Some ob"
  shows "\<exists>s'. check_version_loop c (announce ps) s = Some s' \<and> admitted C a ob (admit (cid c) ps (reg_view (vers_list s))) s s'"
  using assms
proof (induction ps arbitrary: s rule: announce.induct)
  case (2 n w)
  then have "n \<noteq> []" "CHR ''@'' \<notin> set n" "ann_ok (n, w)" by (simp_all add: ann_ok_def)
  note tok = strtok_token [OF this(1,2)] strtok_last [OF dec_int_token(1,2)] this(3)
  show ?case unfolding announce.simps
    by (rule check_version_step [OF tok(1,2,3) "2.prems"(3-7)]) (simp add: admitted_def)
next
  case (3 n w p ps)
  then have "n \<noteq> []" "CHR ''@'' \<notin> set n" "ann_ok (n, w)" by (simp_all add: ann_ok_def)
  note tok = strtok_token [OF this(1,2)] strtok_token [OF dec_int_token(1,2)] this(3)
  have "\<exists>s'. check_version_loop c (announce (p # ps)) (s\<lparr>vers_list := vl\<rparr>) = Some s' \<and>
      admitted C a ob (admit (cid c) (p # ps) (reg_view vl)) (s\<lparr>vers_list := vl\<rparr>) s'" if "reg_ok C vl" for vl
    using "3.IH" [of "s\<lparr>vers_list := vl\<rparr>"] "3.prems" that by simp
  then show ?case unfolding announce.simps
    by (intro check_version_step [OF tok(1,2,3) "3.prems"(3-7)]) simp
qed simp

section \<open>Disconnecting the clients of an outdated namespace\<close>

text \<open>
  The only part of the state that disconnecting clients changes: the counters and the list of
  effects.
\<close>

definition killed :: "int list \<Rightarrow> server \<Rightarrow> server \<Rightarrow> bool" where
  "killed ks s s' \<longleftrightarrow> s' = s\<lparr>next_client_id := next_client_id s', stat_numcommands := stat_numcommands s',
     effects := effects s @ map KillClient ks\<rparr>"

lemma killed_fields:
  assumes "killed ks s s'"
  shows "heap s' = heap s" "db s' = db s" "vers_list s' = vers_list s" "tmp_store s' = tmp_store s" "loading_id s' = loading_id s"
    "effects s' = effects s @ map KillClient ks"
  by (subst assms [unfolded killed_def], simp)+

lemma killed_trans: "killed ks s s1 \<Longrightarrow> killed ks' s1 s2 \<Longrightarrow> killed (ks @ ks') s s2"
  by (cases s; cases s1; cases s2) (simp add: killed_def)

lemma killed_refl: "killed [] s s"
  by (simp add: killed_def)

text \<open>The identifiers that fit the buffer of the kill command.\<close>

definition small_ids :: "int set \<Rightarrow> bool" where
  "small_ids C \<longleftrightarrow> (\<forall>i \<in> C. length (dec_int i) \<le> 6)"

lemma kill_client_ok:
  assumes "tmp_store s = []"
  shows "kill_client k s = Some s' \<Longrightarrow> killed [k] s s'"
    and "length (dec_int k) \<le> 6 \<Longrightarrow> \<exists>s'. kill_client k s = Some s'"
  using assms
  by (cases s; auto simp: kill_client_def kvolve_prevcall_check_def killed_def split: if_splits)+

lemma kill_loop_short [simp]: "intsetLen is \<le> 1 \<Longrightarrow> kill_loop rs is s = Some (is, rs, s)"
  by (cases rs) simp_all

definition drained :: "int \<Rightarrow> int list \<Rightarrow> intset \<Rightarrow> intset \<Rightarrow> bool" where
  "drained me ks is is' \<longleftrightarrow> intset_inv is' \<and> set (intset_elems is') = set (intset_elems is) - set ks \<and>
     set ks \<subseteq> set (intset_elems is) \<and> me \<notin> set ks"

lemma drained_step:
  "drained me [k] is is1 \<Longrightarrow> drained me ks is1 is' \<Longrightarrow> drained me (k # ks) is is'"
  by (auto simp: drained_def)

lemma kill_one:
  assumes "intset_inv is" "\<forall>i \<in> set (intset_elems is). int64 i" "k \<in> set (intset_elems is)" "k \<noteq> me"
  obtains is1 where "intsetRemove is k = Some (is1, True)" "drained me [k] is is1"
  using intset.remove_ok [OF assms(1), of k] assms that by (auto simp: drained_def)

lemma kill_loop_ok:
  assumes "kill_loop rs is s = Some (is', rs', s')" "intset_inv is" "\<forall>i \<in> set (intset_elems is). int64 i" "tmp_store s = []"
  shows "\<exists>ks. drained (loading_id s) ks is is' \<and> intsetLen is' \<le> 1 \<and> killed ks s s'"
  using assms
proof (induction rs arbitrary: "is" s)
  case Nil
  then show ?case by (intro exI [of _ "[]"]) (auto simp: drained_def killed_refl split: if_splits)
next
  case (Cons r rs)
  show ?case
  proof (cases "intsetLen is > 1")
    case False
    with Cons.prems show ?thesis by (intro exI [of _ "[]"]) (auto simp: drained_def killed_refl)
  next
    case True
    then obtain k where k: "intsetRandom is r = Some k" "k \<in> set (intset_elems is)"
      using random_rep [OF Cons.prems(2), of r] by (auto simp: intsetLen_def)
    show ?thesis
    proof (cases "k = loading_id s")
      case eq: True
      with Cons k True show ?thesis by simp
    next
      case ne: False
      obtain is1 where is1: "intsetRemove is k = Some (is1, True)" "drained (loading_id s) [k] is is1"
        by (rule kill_one [OF Cons.prems(2,3) k(2) ne])
      with Cons.prems(1) k True ne obtain s1 where s1: "kill_client k s = Some s1" "kill_loop rs is1 s1 = Some (is', rs', s')"
        by (auto split: bind_splits)
      note kl = kill_client_ok(1) [OF Cons.prems(4) s1(1)]
      have "intset_inv is1" "\<forall>i \<in> set (intset_elems is1). int64 i" "tmp_store s1 = []" "loading_id s1 = loading_id s"
        using is1(2) Cons.prems(3,4) killed_fields(4,5) [OF kl] by (auto simp: drained_def)
      with Cons.IH [OF s1(2)] obtain ks where "drained (loading_id s) ks is1 is'" "intsetLen is' \<le> 1" "killed ks s1 s'" by auto
      with drained_step [OF is1(2)] killed_trans [OF kl] show ?thesis by (intro exI [of _ "k # ks"]) auto
    qed
  qed
qed

text \<open>Some sequence of random numbers ends the loop.\<close>

lemma draw_other:
  assumes "intset_inv is" "intsetLen is > 1"
  shows "\<exists>r k. intsetRandom is r = Some k \<and> k \<in> set (intset_elems is) \<and> k \<noteq> me"
proof -
  obtain xs where xs: "intset_rep is xs" "intset_elems is = xs" by (rule intset_invE [OF assms(1)])
  have len: "is_length is = length xs" "1 < length xs" using xs assms(2) by (simp_all add: intset_repD intsetLen_def)
  have "distinct xs" using intset_elems_sorted [OF assms(1)] xs(2) by (auto simp: strict_sorted_iff)
  then have "xs ! 0 \<noteq> xs ! Suc 0" using len(2) nth_eq_iff_index_eq [of xs 0 "Suc 0"] by (cases xs) auto
  then obtain j where "j < length xs" "xs ! j \<noteq> me" using len(2) by (cases "xs ! 0 = me") (force, force)
  moreover from this have "intsetRandom is j = Some (xs ! j)"
    using get_rep [OF xs(1)] len by (auto simp: intsetRandom_def)
  ultimately show ?thesis using xs(2) by fastforce
qed

lemma kill_loop_ends:
  assumes "intset_inv is" "\<forall>i \<in> set (intset_elems is). int64 i" "small_ids (set (intset_elems is))" "tmp_store s = []"
  shows "\<exists>rs is' s'. \<forall>ext. kill_loop (rs @ ext) is s = Some (is', ext, s')"
  using assms
proof (induction "intsetLen is" arbitrary: "is" s rule: less_induct)
  case less
  show ?case
  proof (cases "intsetLen is > 1")
    case False
    then show ?thesis by (intro exI [of _ "[]"] exI [of _ "is"] exI [of _ s]) simp
  next
    case True
    obtain r k where k: "intsetRandom is r = Some k" "k \<in> set (intset_elems is)" "k \<noteq> loading_id s"
      using draw_other [OF less.prems(1) True] by blast
    obtain is1 where is1: "intsetRemove is k = Some (is1, True)" "drained (loading_id s) [k] is is1"
      by (rule kill_one [OF less.prems(1,2) k(2,3)])
    obtain s1 where s1: "kill_client k s = Some s1"
      using kill_client_ok(2) [OF less.prems(4), of k] less.prems(3) k(2) by (auto simp: small_ids_def)
    have inv: "intset_inv is1" "set (intset_elems is1) = set (intset_elems is) - {k}" using is1(2) by (simp_all add: drained_def)
    have "card (set (intset_elems is) - {k}) < card (set (intset_elems is))" using k(2) by (intro card_Diff1_less) simp_all
    then have "intsetLen is1 < intsetLen is" using inv intset.size_ok less.prems(1) by simp
    moreover have "tmp_store s1 = []" using killed_fields(4) [OF kill_client_ok(1) [OF less.prems(4) s1]] less.prems(4) by simp
    moreover have "small_ids (set (intset_elems is1))" using less.prems(3) inv(2) by (simp add: small_ids_def)
    ultimately obtain rs is' s' where "\<forall>ext. kill_loop (rs @ ext) is1 s1 = Some (is', ext, s')"
      using less.hyps [of is1 s1] inv less.prems(2) by auto
    then show ?thesis using True k is1(1) s1 by (intro exI [of _ "r # rs"] exI [of _ is'] exI [of _ s']) simp
  qed
qed


section \<open>Along the chain of predecessors\<close>

inductive on_chain :: "version_hash sdict \<Rightarrow> string \<Rightarrow> string \<Rightarrow> bool" for vl where
  here: "on_chain vl n n"
| there: "map_of vl n = Some v \<Longrightarrow> prev_ns v = Some p \<Longrightarrow> on_chain vl p m \<Longrightarrow> on_chain vl n m"

inductive_cases on_chainE: "on_chain vl n m"

text \<open>Entries lose clients and change in nothing else; the caller stays.\<close>

definition narrower :: "int \<Rightarrow> version_hash \<Rightarrow> version_hash \<Rightarrow> bool" where
  "narrower me v v' \<longleftrightarrow> v' = v\<lparr>clients := clients v'\<rparr> \<and> client_set v' \<subseteq> client_set v \<and>
     (me \<in> client_set v \<longrightarrow> me \<in> client_set v')"

definition narrowed :: "int \<Rightarrow> version_hash sdict \<Rightarrow> version_hash sdict \<Rightarrow> bool" where
  "narrowed me vl vl' \<longleftrightarrow> (\<forall>n. rel_option (narrower me) (map_of vl n) (map_of vl' n))"

lemma narrower_refl: "narrower me v v" by (simp add: narrower_def)

lemma narrower_trans: "narrower me u v \<Longrightarrow> narrower me v w \<Longrightarrow> narrower me u w"
  by (cases u; cases v; cases w) (auto simp: narrower_def)

lemma narrowed_trans: "narrowed me u v \<Longrightarrow> narrowed me v w \<Longrightarrow> narrowed me u w"
proof -
  assume *: "narrowed me u v" "narrowed me v w"
  have "rel_option (narrower me) (map_of u n) (map_of w n)" for n
    using * [unfolded narrowed_def, rule_format, of n]
    by (cases "map_of u n"; cases "map_of v n"; cases "map_of w n") (auto intro: narrower_trans)
  then show ?thesis by (simp add: narrowed_def)
qed

lemma narrowedD:
  assumes "narrowed me vl vl'"
  shows "map_of vl n = Some v \<Longrightarrow> \<exists>v'. map_of vl' n = Some v' \<and> narrower me v v'"
    and "map_of vl' n = Some v' \<Longrightarrow> \<exists>v. map_of vl n = Some v \<and> narrower me v v'"
  using assms [unfolded narrowed_def, rule_format, of n] by (auto simp: option_rel_Some1 option_rel_Some2)

lemma narrower_fields:
  assumes "narrower me v v'"
  shows "versions v' = versions v" "info v' = info v" "prev_ns v' = prev_ns v" "next_ns v' = next_ns v" "ns v' = ns v"
  by (subst assms [unfolded narrower_def, THEN conjunct1], simp)+

lemma narrowed_update:
  "map_of vl n = Some v \<Longrightarrow> narrower me v v' \<Longrightarrow> narrowed me vl (AList.update n v' vl)"
  by (simp add: narrowed_def update_conv' option.rel_refl narrower_refl)

lemma on_chain_narrowed: "on_chain vl n m \<Longrightarrow> narrowed me vl vl' \<Longrightarrow> on_chain vl' n m"
proof (induction rule: on_chain.induct)
  case (there n v p m)
  from narrowedD(1) [OF there.prems there.hyps(1)] obtain v' where "map_of vl' n = Some v'" "narrower me v v'" by blast
  with there.hyps(2) there.IH [OF there.prems] show ?case by (auto simp: narrower_fields(3) intro: on_chain.there)
qed (rule on_chain.here)

definition chain_done :: "int set \<Rightarrow> string \<Rightarrow> server \<Rightarrow> server \<Rightarrow> bool" where
  "chain_done C n s s' \<longleftrightarrow> reg_ok C (vers_list s') \<and> narrowed (loading_id s) (vers_list s) (vers_list s') \<and>
     heap s' = heap s \<and> db s' = db s \<and> tmp_store s' = tmp_store s \<and> loading_id s' = loading_id s \<and>
     (\<forall>m v. on_chain (vers_list s) n m \<longrightarrow> map_of (vers_list s') m = Some v \<longrightarrow> card (client_set v) \<le> 1) \<and>
     (\<exists>ks. effects s' = effects s @ map KillClient ks \<and> loading_id s \<notin> set ks)"

lemma chain_doneD:
  assumes "chain_done C n s s'"
  shows "reg_ok C (vers_list s')" "narrowed (loading_id s) (vers_list s) (vers_list s')"
    "heap s' = heap s" "db s' = db s" "tmp_store s' = tmp_store s" "loading_id s' = loading_id s"
    "on_chain (vers_list s) n m \<Longrightarrow> map_of (vers_list s') m = Some v \<Longrightarrow> card (client_set v) \<le> 1"
    "\<exists>ks. effects s' = effects s @ map KillClient ks \<and> loading_id s \<notin> set ks"
  using assms unfolding chain_done_def by blast+

text \<open>The first namespace of the chain.\<close>

lemma kill_first:
  assumes r: "kill_loop rs (clients v) s = Some (ids, rs', s1)" and C: "ids_ok C" and reg: "reg_ok C (vers_list s)"
    and v: "map_of (vers_list s) n = Some v" and tmp: "tmp_store s = []"
  obtains ks where "killed ks s s1" "loading_id s \<notin> set ks" "narrower (loading_id s) v (v\<lparr>clients := ids\<rparr>)"
    "reg_ok C (AList.update n (v\<lparr>clients := ids\<rparr>) (vers_list s))" "card (client_set (v\<lparr>clients := ids\<rparr>)) \<le> 1"
proof -
  have e: "entry_ok C n v" by (rule reg_ok_entry [OF reg v])
  then have "intset_inv (clients v)" "\<forall>i \<in> set (intset_elems (clients v)). int64 i"
    using C by (auto simp: entry_ok_def ids_ok_def client_set_def)
  from kill_loop_ok [OF r this tmp] obtain ks where
    ks: "drained (loading_id s) ks (clients v) ids" "intsetLen ids \<le> 1" "killed ks s s1" by blast
  have "entry_ok C n (v\<lparr>clients := ids\<rparr>)" using e ks(1) by (auto simp: entry_ok_def drained_def client_set_def vh_ok_def)
  from reg_ok_update [OF reg v this] have "reg_ok C (AList.update n (v\<lparr>clients := ids\<rparr>) (vers_list s))" by simp
  moreover have "card (client_set (v\<lparr>clients := ids\<rparr>)) \<le> 1"
    using ks(1,2) intset.size_ok [of ids] by (simp add: client_set_def drained_def)
  ultimately show thesis
    using ks by (intro that [of ks]) (auto simp: narrower_def drained_def client_set_def)
qed

lemma chain_done_step:
  assumes k: "killed ks s s1" "loading_id s \<notin> set ks" and v: "map_of (vers_list s) n = Some v"
    and nar: "narrower (loading_id s) v v'" "card (client_set v') \<le> 1" and reg: "reg_ok C (AList.update n v' (vers_list s))"
    and cont: "prev_ns v = Some p \<Longrightarrow> chain_done C p (s1\<lparr>vers_list := AList.update n v' (vers_list s1)\<rparr>) s'"
      "prev_ns v = None \<Longrightarrow> s' = s1\<lparr>vers_list := AList.update n v' (vers_list s1)\<rparr>"
    and p: "prev_ns v = Some p \<or> prev_ns v = None"
  shows "chain_done C n s s'"
proof -
  note f = killed_fields [OF k(1)]
  note up = narrowed_update [OF v nar(1)]
  have fin: "finite (client_set v')" by (simp add: client_set_def)
  show ?thesis
  proof (cases "prev_ns v")
    case None
    have "m = n" if "on_chain (vers_list s) n m" for m
      using that v None by (auto elim: on_chainE)
    with None cont(2) f up reg nar(2) k(2) show ?thesis
      by (auto simp: chain_done_def update_conv')
  next
    case (Some p')
    with p have "prev_ns v = Some p" by simp
    note d = chain_doneD [OF cont(1) [OF this]]
    have nd: "narrowed (loading_id s) (AList.update n v' (vers_list s)) (vers_list s')" using d(2) f by simp
    have "card (client_set w) \<le> 1" if "on_chain (vers_list s) n m" "map_of (vers_list s') m = Some w" for m w
      using that(1)
    proof (cases rule: on_chain.cases)
      case here
      then have "map_of (AList.update n v' (vers_list s)) m = Some v'" by (simp add: update_conv')
      with narrowedD(2) [OF nd that(2)] have "client_set w \<subseteq> client_set v'" by (auto simp: narrower_def)
      with card_mono [OF fin this] nar(2) show ?thesis by simp
    next
      case (there v2 p2)
      then have "on_chain (vers_list s) p m" using v \<open>prev_ns v = Some p\<close> by simp
      then have "on_chain (AList.update n v' (vers_list s)) p m" by (rule on_chain_narrowed [OF _ up])
      then show ?thesis using d(7) [of m w] that(2) f by simp
    qed
    moreover have "narrowed (loading_id s) (vers_list s) (vers_list s')" by (rule narrowed_trans [OF up nd])
    moreover have "\<exists>ks. effects s' = effects s @ map KillClient ks \<and> loading_id s \<notin> set ks"
    proof -
      obtain ks' where "effects s' = effects s @ map KillClient (ks @ ks')" "loading_id s \<notin> set (ks @ ks')"
        using d(8) f k(2) by auto
      then show ?thesis by blast
    qed
    ultimately show ?thesis
      unfolding chain_done_def using d(1-6) f by simp
  qed
qed


lemma reg_ok_distinct: "reg_ok C vl \<Longrightarrow> distinct (map fst vl)"
  by (induction C vl rule: reg_ok.induct) auto

lemma reg_split:
  assumes "reg_ok C vl" "map_of vl n = Some v"
  obtains us ws where "vl = us @ (n, v) # ws" "n \<notin> fst ` set us" "\<And>p. prev_ns v = Some p \<Longrightarrow> p \<in> fst ` set ws"
  using assms
proof (induction C vl arbitrary: thesis rule: reg_ok.induct)
  case (2 C m w vl)
  show ?case
  proof (cases "m = n")
    case True
    with 2 show ?thesis by (intro "2.prems"(1) [of "[]" vl]) auto
  next
    case False
    with 2 obtain us ws where "vl = us @ (n, v) # ws" "n \<notin> fst ` set us" "\<And>p. prev_ns v = Some p \<Longrightarrow> p \<in> fst ` set ws"
      by (metis map_of_Cons_code(2) reg_ok.simps(2))
    with False show ?thesis by (intro "2.prems"(1) [of "(m, w) # us" ws]) auto
  qed
qed simp

text \<open>How far down the registry a name is; predecessors are further down.\<close>

definition depth :: "version_hash sdict \<Rightarrow> string \<Rightarrow> nat" where
  "depth vl n = length (dropWhile (\<lambda>e. fst e \<noteq> n) vl)"

lemma depth_prev:
  assumes "reg_ok C vl" "map_of vl n = Some v" "prev_ns v = Some p"
  shows "depth (AList.update n (v\<lparr>clients := ids\<rparr>) vl) p < depth (AList.update n (v\<lparr>clients := ids\<rparr>) vl) n"
    and "depth (AList.update n (v\<lparr>clients := ids\<rparr>) vl) n = depth vl n" and "p \<in> fst ` set vl"
proof -
  obtain us ws where vl: "vl = us @ (n, v) # ws" "n \<notin> fst ` set us" "p \<in> fst ` set ws"
    using reg_split [OF assms(1,2)] assms(3) by metis
  have "p \<notin> fst ` set us \<and> p \<noteq> n"
    using reg_ok_distinct [OF assms(1)] vl(3) unfolding vl(1) by auto
  then have "dropWhile (\<lambda>e. fst e \<noteq> p) (us @ (n, w) # ws) = dropWhile (\<lambda>e. fst e \<noteq> p) ws" for w
    by (induction us) auto
  moreover have "dropWhile (\<lambda>e. fst e \<noteq> n) (us @ (n, w) # ws) = (n, w) # ws" for w
    using vl(2) by (induction us) auto
  moreover have "length (dropWhile (\<lambda>e. fst e \<noteq> p) ws) \<le> length ws" by (rule length_dropWhile_le)
  ultimately show "depth (AList.update n (v\<lparr>clients := ids\<rparr>) vl) p < depth (AList.update n (v\<lparr>clients := ids\<rparr>) vl) n"
    "depth (AList.update n (v\<lparr>clients := ids\<rparr>) vl) n = depth vl n" "p \<in> fst ` set vl"
    using vl(3) unfolding vl(1) update_split [OF vl(2)] by (simp_all add: depth_def image_Un)
qed

lemma kill_chain_ok:
  assumes "ids_ok C" "reg_ok C (vers_list s)" "map_of (vers_list s) n = Some v" "tmp_store s = []"
    and "kill_chain rs n s = Some (rs', s')"
  shows "chain_done C n s s'"
  using assms(2-)
proof (induction "depth (vers_list s) n" arbitrary: s n v rs rule: less_induct)
  case less
  note v = less.prems(2)
  from less.prems(4) v obtain ids rs1 s1 where r: "kill_loop rs (clients v) s = Some (ids, rs1, s1)"
    by (subst (asm) kill_chain.simps) (auto split: bind_splits)
  obtain ks where ks: "killed ks s s1" "loading_id s \<notin> set ks" "narrower (loading_id s) v (v\<lparr>clients := ids\<rparr>)"
    "reg_ok C (AList.update n (v\<lparr>clients := ids\<rparr>) (vers_list s))" "card (client_set (v\<lparr>clients := ids\<rparr>)) \<le> 1"
    by (rule kill_first [OF r assms(1) less.prems(1) v less.prems(3)])
  let ?s2 = "s1\<lparr>vers_list := AList.update n (v\<lparr>clients := ids\<rparr>) (vers_list s1)\<rparr>"
  have f: "vers_list s1 = vers_list s" "tmp_store s1 = []" using killed_fields(3,4) [OF ks(1)] less.prems(3) by simp_all
  show ?case
  proof (cases "prev_ns v")
    case None
    with less.prems(4) v r have "s' = ?s2" by (subst (asm) kill_chain.simps) (simp add: Let_def)
    with None show ?thesis by (intro chain_done_step [OF ks(1,2) v ks(3,5,4)]) auto
  next
    case (Some p)
    with less.prems(4) v r have k: "kill_chain rs1 p ?s2 = Some (rs', s')"
      by (subst (asm) kill_chain.simps) (simp add: Let_def)
    note dp = depth_prev [OF less.prems(1) v Some]
    then obtain w where "map_of (vers_list ?s2) p = Some w"
      using f(1) by (cases "p = n") (auto simp: update_conv' dom_map_of_conv_image_fst [symmetric])
    with less.hyps [of ?s2 p w rs1] dp(1,2) [of ids] ks(4) f k have "chain_done C p ?s2 s'" by simp
    with Some show ?thesis by (intro chain_done_step [OF ks(1,2) v ks(3,5,4)]) auto
  qed
qed

lemma kill_chain_ends:
  assumes "ids_ok C" "small_ids C" "reg_ok C (vers_list s)" "map_of (vers_list s) n = Some v" "tmp_store s = []"
  shows "\<exists>rs s'. \<forall>ext. kill_chain (rs @ ext) n s = Some (ext, s')"
  using assms(3-)
proof (induction "depth (vers_list s) n" arbitrary: s n v rule: less_induct)
  case less
  note v = less.prems(2)
  have "intset_inv (clients v)" "\<forall>i \<in> set (intset_elems (clients v)). int64 i" "small_ids (set (intset_elems (clients v)))"
    using reg_ok_entry [OF less.prems(1) v] assms(1,2) by (auto simp: entry_ok_def ids_ok_def client_set_def small_ids_def)
  from kill_loop_ends [OF this less.prems(3)] obtain rs0 ids s1 where
    r: "\<And>ext. kill_loop (rs0 @ ext) (clients v) s = Some (ids, ext, s1)" by blast
  obtain ks where ks: "killed ks s s1" "loading_id s \<notin> set ks" "narrower (loading_id s) v (v\<lparr>clients := ids\<rparr>)"
    "reg_ok C (AList.update n (v\<lparr>clients := ids\<rparr>) (vers_list s))" "card (client_set (v\<lparr>clients := ids\<rparr>)) \<le> 1"
    by (rule kill_first [OF r [of "[]"] assms(1) less.prems(1) v less.prems(3)])
  let ?s2 = "s1\<lparr>vers_list := AList.update n (v\<lparr>clients := ids\<rparr>) (vers_list s1)\<rparr>"
  have f: "vers_list s1 = vers_list s" "tmp_store s1 = []" using killed_fields(3,4) [OF ks(1)] less.prems(3) by simp_all
  show ?case
  proof (cases "prev_ns v")
    case None
    have "kill_chain (rs0 @ ext) n s = Some (ext, ?s2)" for ext
      using r None v by (subst kill_chain.simps) (simp add: Let_def)
    then show ?thesis by blast
  next
    case (Some p)
    have step: "kill_chain (rs0 @ ext) n s = kill_chain ext p ?s2" for ext
      using r Some v by (subst kill_chain.simps) (simp add: Let_def)
    note dp = depth_prev [OF less.prems(1) v Some]
    then obtain w where "map_of (vers_list ?s2) p = Some w"
      using f(1) by (cases "p = n") (auto simp: update_conv' dom_map_of_conv_image_fst [symmetric])
    with less.hyps [of ?s2 p w] dp(1,2) [of ids] ks(4) f obtain rs s' where
      "\<forall>ext. kill_chain (rs @ ext) p ?s2 = Some (ext, s')" by auto
    then show ?thesis using step by (intro exI [of _ "rs0 @ rs"] exI [of _ s']) simp
  qed
qed


section \<open>Loading an update\<close>

text \<open>What loading an update may assume, and what it does to a registered namespace.\<close>

definition load_ok :: "int set \<Rightarrow> server \<Rightarrow> bool" where
  "load_ok C s \<longleftrightarrow> ids_ok C \<and> small_ids C \<and> loading_id s \<in> C \<and> reg_ok C (vers_list s) \<and> tmp_store s = []"

definition extended :: "int set \<Rightarrow> string \<Rightarrow> version_hash \<Rightarrow> int \<Rightarrow> kvolve_upd_info \<Rightarrow> server \<Rightarrow> server \<Rightarrow> bool" where
  "extended C n v to_v upd s s' \<longleftrightarrow> reg_ok C (vers_list s') \<and> heap s' = heap s \<and> db s' = db s \<and>
     (\<exists>v'. map_of (vers_list s') n = Some v' \<and> versions v' = versions v @ [to_v] \<and> info v' = info v @ [Some upd] \<and>
           loading_id s \<in> client_set v') \<and>
     (\<forall>m w. m \<noteq> n \<longrightarrow> map_of (vers_list s) m = Some w \<longrightarrow>
        (\<exists>w'. map_of (vers_list s') m = Some w' \<and> versions w' = versions w \<and> info w' = info w)) \<and>
     (\<forall>m w'. on_chain (vers_list s) n m \<longrightarrow> map_of (vers_list s') m = Some w' \<longrightarrow>
        card (client_set w' - {loading_id s}) \<le> 1)"

lemma upd_spec_same:
  assumes L: "load_ok C s" and v: "map_of (vers_list s) n = Some v" "to_v \<notin> set (versions v)"
    "prev_ns v = None \<longrightarrow> last (versions v) = from_v" "length (versions v) < 20"
    and r: "kill_chain rs n s = Some (rs', s1)"
  shows "\<exists>s'. kvolve_upd_spec rs n n from_v to_v fs s = Some s' \<and>
    extended C n v to_v \<lparr>from_ns = n, to_ns = n, from_vers = from_v, to_vers = to_v, funs = fs\<rparr> s s'"
proof -
  note L = L [unfolded load_ok_def]
  from kill_chain_ok [OF _ _ v(1) _ r] L have "chain_done C n s s1" by blast
  note cd = chain_doneD [OF this]
  from narrowedD(1) [OF cd(2) v(1)] obtain v1 where v1: "map_of (vers_list s1) n = Some v1" "narrower (loading_id s) v v1" by blast
  note nf = narrower_fields [OF v1(2)]
  obtain ids where ids: "intset_put (clients v1) (loading_id s) = Some ids" "entry_ok C n (v1\<lparr>clients := ids\<rparr>)"
    "client_set (v1\<lparr>clients := ids\<rparr>) = insert (loading_id s) (client_set v1)"
    using put_clients_ok [OF _ reg_ok_entry [OF cd(1) v1(1)], of "loading_id s"] L by blast
  let ?upd = "\<lparr>from_ns = n, to_ns = n, from_vers = from_v, to_vers = to_v, funs = fs\<rparr>"
  let ?v2 = "v1\<lparr>clients := ids, versions := versions v1 @ [to_v], info := info v1 @ [Some ?upd]\<rparr>"
  have c2: "client_set ?v2 = insert (loading_id s) (client_set v1)" using ids(3) by (simp add: client_set_def)
  have "entry_ok C n ?v2" using ids(2) v(2,4) nf(1) by (auto simp: entry_ok_def vh_ok_def client_set_def)
  from reg_ok_update [OF cd(1) v1(1) this]
  have reg: "reg_ok C (AList.update n ?v2 (vers_list s1))" by simp
  let ?s' = "s1\<lparr>vers_list := AList.update n ?v2 (AList.update n (v1\<lparr>clients := ids\<rparr>) (vers_list s1))\<rparr>"
  have "cur_vers v = Some (last (versions v))"
    using reg_ok_entry [OF _ v(1), of C] L by (simp add: cur_vers_def entry_ok_def vh_ok_def)
  then have "kvolve_upd_spec rs n n from_v to_v fs s = Some ?s'"
    using v r v1(1) ids(1) nf(1) cd(6) by (cases "prev_ns v") (simp_all add: kvolve_upd_spec_def Let_def)
  moreover have "card (client_set w' - {loading_id s}) \<le> 1"
    if "on_chain (vers_list s) n m" "map_of (vers_list ?s') m = Some w'" for m w'
  proof (cases "m = n")
    case True
    with that have "client_set w' - {loading_id s} \<subseteq> client_set v1" using c2 by (auto simp: update_conv')
    moreover have "card (client_set v1) \<le> 1" by (rule cd(7) [OF on_chain.here v1(1)])
    moreover have "finite (client_set v1)" by (simp add: client_set_def)
    ultimately show ?thesis using card_mono le_trans by blast
  next
    case False
    with that cd(7) [of m w'] have "card (client_set w') \<le> 1" by (simp add: update_conv')
    then show ?thesis using card_Diff1_le [of "client_set w'" "loading_id s"] by linarith
  qed
  moreover have "\<exists>w'. map_of (vers_list ?s') m = Some w' \<and> versions w' = versions w \<and> info w' = info w"
    if "m \<noteq> n" "map_of (vers_list s) m = Some w" for m w
  proof -
    from narrowedD(1) [OF cd(2) that(2)] obtain w' where w': "map_of (vers_list s1) m = Some w'" "narrower (loading_id s) w w'" by blast
    with that(1) narrower_fields(1,2) [OF w'(2)] show ?thesis by (simp add: update_conv')
  qed
  moreover have "map_of (vers_list ?s') n = Some ?v2" "reg_ok C (vers_list ?s')" "heap ?s' = heap s" "db ?s' = db s"
    using reg cd(3,4) by (simp_all add: update_conv')
  moreover have "versions ?v2 = versions v @ [to_v]" "info ?v2 = info v @ [Some ?upd]" "loading_id s \<in> client_set ?v2"
    using nf(1,2) c2 by simp_all
  ultimately show ?thesis unfolding extended_def by blast
qed


text \<open>A successor namespace starts from the versions of its predecessor.\<close>

definition succeeded ::
  "int set \<Rightarrow> string \<Rightarrow> string \<Rightarrow> version_hash \<Rightarrow> int \<Rightarrow> kvolve_upd_info \<Rightarrow> server \<Rightarrow> server \<Rightarrow> bool" where
  "succeeded C from_n to_n v to_v upd s s' \<longleftrightarrow> reg_ok C (vers_list s') \<and> heap s' = heap s \<and> db s' = db s \<and>
     (\<exists>v'. map_of (vers_list s') to_n = Some v' \<and> prev_ns v' = Some from_n \<and> next_ns v' = None \<and>
           versions v' = versions v @ [to_v] \<and> info v' = info v @ [Some upd] \<and> client_set v' = {loading_id s}) \<and>
     (\<exists>w. map_of (vers_list s') from_n = Some w \<and> next_ns w = Some to_n \<and> versions w = versions v \<and>
          card (client_set w) \<le> 1)"

lemma create_succ:
  assumes C: "ids_ok C" "loading_id s \<in> C" "loading_id s \<noteq> 0" and reg: "reg_ok C (vers_list s)"
    and v: "map_of (vers_list s) p = Some v" "to_v \<notin> set (versions v)" "length (versions v) < 20"
    and n: "map_of (vers_list s) n = None"
  obtains w where "kvolve_create_ns None n (Some p) to_v (Some upd) s =
      Some (w, s\<lparr>vers_list := (n, w) # AList.update p (v\<lparr>next_ns := Some n\<rparr>) (vers_list s)\<rparr>)"
    "reg_ok C ((n, w) # AList.update p (v\<lparr>next_ns := Some n\<rparr>) (vers_list s))"
    "prev_ns w = Some p" "next_ns w = None" "versions w = versions v @ [to_v]" "info w = info v @ [Some upd]"
    "client_set w = {loading_id s}"
proof -
  obtain ids where ids: "intset_put intsetNew (loading_id s) = Some ids" "intset_inv ids" "set (intset_elems ids) = {loading_id s}"
    using put_ok [OF C(1) intset.invar_empty _ C(2)] intset.elems_empty by auto
  have e: "entry_ok C p v" by (rule reg_ok_entry [OF reg v(1)])
  then have "entry_ok C p (v\<lparr>next_ns := Some n\<rparr>)" by (simp add: entry_ok_def vh_ok_def client_set_def)
  note up = reg_ok_update [OF reg v(1) this, simplified]
  let ?w = "\<lparr>ns = n, prev_ns = Some p, next_ns = None, versions = versions v @ [to_v], info = info v @ [Some upd], clients = ids\<rparr>"
  have dom: "fst ` set (AList.update p u (vers_list s)) = fst ` set (vers_list s)" for u
    using v(1) by (simp flip: dom_map_of_conv_image_fst add: update_conv' insert_absorb domI)
  have ew: "entry_ok C n ?w" using e v ids C(2) by (auto simp: entry_ok_def vh_ok_def client_set_def)
  have "n \<notin> fst ` set (vers_list s)" "p \<in> fst ` set (vers_list s)"
    using n v(1) by (auto simp flip: dom_map_of_conv_image_fst)
  with up ew dom have "reg_ok C ((n, ?w) # AList.update p (v\<lparr>next_ns := Some n\<rparr>) (vers_list s))" by simp
  then show thesis
    by (intro that [of ?w]) (use v C(3) ids in \<open>simp_all add: kvolve_create_ns_def Let_def client_set_def\<close>)
qed

lemma upd_spec_new:
  assumes L: "load_ok C s" "loading_id s \<noteq> 0" and v: "map_of (vers_list s) p = Some v" "to_v \<notin> set (versions v)" "length (versions v) < 20"
    and n: "map_of (vers_list s) n = None" "n \<noteq> p"
  shows "\<exists>rs s'. kvolve_upd_spec rs p n from_v to_v fs s = Some s'"
    and "kvolve_upd_spec rs p n from_v to_v fs s = Some s' \<Longrightarrow>
      succeeded C p n v to_v \<lparr>from_ns = p, to_ns = n, from_vers = from_v, to_vers = to_v, funs = fs\<rparr> s s'"
proof -
  note L' = L(1) [unfolded load_ok_def]
  let ?upd = "\<lparr>from_ns = p, to_ns = n, from_vers = from_v, to_vers = to_v, funs = fs\<rparr>"
  obtain w where w: "kvolve_create_ns None n (Some p) to_v (Some ?upd) s =
      Some (w, s\<lparr>vers_list := (n, w) # AList.update p (v\<lparr>next_ns := Some n\<rparr>) (vers_list s)\<rparr>)"
    "reg_ok C ((n, w) # AList.update p (v\<lparr>next_ns := Some n\<rparr>) (vers_list s))"
    "prev_ns w = Some p" "next_ns w = None" "versions w = versions v @ [to_v]" "info w = info v @ [Some ?upd]"
    "client_set w = {loading_id s}"
    using create_succ [OF _ _ L(2) _ v n(1), of C ?upd] L' by blast
  define s1 where "s1 = s\<lparr>vers_list := (n, w) # AList.update p (v\<lparr>next_ns := Some n\<rparr>) (vers_list s)\<rparr>"
  have s1: "reg_ok C (vers_list s1)" "map_of (vers_list s1) n = Some w" "tmp_store s1 = []" "loading_id s1 = loading_id s"
    "map_of (vers_list s1) p = Some (v\<lparr>next_ns := Some n\<rparr>)" "heap s1 = heap s" "db s1 = db s"
    using w(2) L' n by (simp_all add: s1_def update_conv')
  have spec: "kvolve_upd_spec rs p n from_v to_v fs s = map_option snd (kill_chain rs n s1)" for rs
    using v(1) n w(1) by (cases "kill_chain rs n s1") (simp_all add: kvolve_upd_spec_def s1_def Let_def split_beta)
  have "\<exists>rs s'. kill_chain rs n s1 = Some ([], s')"
    using kill_chain_ends [of C s1 n w] s1(1-3) L' by blast
  then show "\<exists>rs s'. kvolve_upd_spec rs p n from_v to_v fs s = Some s'" by (auto simp: spec)
  assume "kvolve_upd_spec rs p n from_v to_v fs s = Some s'"
  with spec obtain rs' where "kill_chain rs n s1 = Some (rs', s')" by auto
  from kill_chain_ok [OF _ s1(1,2,3) this] L' have "chain_done C n s1 s'" by blast
  note cd = chain_doneD [OF this]
  from narrowedD(1) [OF cd(2) s1(2)] obtain w' where w': "map_of (vers_list s') n = Some w'" "narrower (loading_id s) w w'"
    using s1(4) by auto
  from narrowedD(1) [OF cd(2) s1(5)] obtain u where
    u: "map_of (vers_list s') p = Some u" "narrower (loading_id s) (v\<lparr>next_ns := Some n\<rparr>) u" using s1(4) by auto
  have "on_chain (vers_list s1) n p" by (rule on_chain.there [OF s1(2) w(3) on_chain.here])
  from cd(7) [OF this u(1)] have "card (client_set u) \<le> 1" .
  moreover have "client_set w' = {loading_id s}" using w'(2) w(7) by (auto simp: narrower_def)
  ultimately show "succeeded C p n v to_v ?upd s s'"
    using cd(1,3,4) s1(6,7) w' u w narrower_fields [OF w'(2)] narrower_fields [OF u(2)] by (simp add: succeeded_def)
qed


lemma upd_spec_same_all:
  assumes L: "load_ok C s" and v: "map_of (vers_list s) n = Some v" "to_v \<notin> set (versions v)"
    "prev_ns v = None \<longrightarrow> last (versions v) = from_v" "length (versions v) < 20"
  shows "\<exists>rs s'. kvolve_upd_spec rs n n from_v to_v fs s = Some s'"
    and "kvolve_upd_spec rs n n from_v to_v fs s = Some s' \<Longrightarrow>
      extended C n v to_v \<lparr>from_ns = n, to_ns = n, from_vers = from_v, to_vers = to_v, funs = fs\<rparr> s s'"
proof -
  have "\<exists>rs s1. kill_chain rs n s = Some ([], s1)"
    using kill_chain_ends [of C s n v] v(1) L unfolding load_ok_def by blast
  then show "\<exists>rs s'. kvolve_upd_spec rs n n from_v to_v fs s = Some s'"
    using upd_spec_same [OF assms] by blast
  assume *: "kvolve_upd_spec rs n n from_v to_v fs s = Some s'"
  have "cur_vers v = Some (last (versions v))"
    using reg_ok_entry [OF _ v(1), of C] L by (simp add: cur_vers_def entry_ok_def vh_ok_def load_ok_def)
  with * v have "kill_chain rs n s \<noteq> None"
    by (cases "prev_ns v"; cases "kill_chain rs n s") (simp_all add: kvolve_upd_spec_def Let_def)
  then obtain rs' s1 where "kill_chain rs n s = Some (rs', s1)" by auto
  from upd_spec_same [OF assms this, of fs] *
  show "extended C n v to_v \<lparr>from_ns = n, to_ns = n, from_vers = from_v, to_vers = to_v, funs = fs\<rparr> s s'" by auto
qed


section \<open>An example\<close>

text \<open>The namespace \<open>order\<close> at version 0; client 1 announces a version and loads the update.\<close>

definition order_reg :: "string \<Rightarrow> server" where
  "order_reg x = (with_obj (one_string x 0) (with_obj (one_string ''client'' 0) initServer))
     \<lparr>vers_list := [(''order'', order_v0)], loading_id := 1\<rparr>"

lemma order_reg_fields [simp]:
  "vers_list (order_reg x) = [(''order'', order_v0)]" "loading_id (order_reg x) = 1" "tmp_store (order_reg x) = []"
  "heap (order_reg x) = shared_integers(10000 \<mapsto> one_string ''client'' 0, 10001 \<mapsto> one_string x 0)"
  "vers_list initServer = []"
  by (simp_all add: order_reg_def) (simp_all add: with_obj_def new_obj_def initServer_def)

lemma order_v0_fields [simp]: "versions order_v0 = [0]" "prev_ns order_v0 = None" "next_ns order_v0 = None" "ns order_v0 = ''order''"
  "clients order_v0 = intsetNew" "info order_v0 = [None]"
  by (simp_all add: order_v0_def order_v1_def)

lemma order_reg_ok: "load_ok {1} (order_reg x)"
proof -
  have "ids_ok {1}" by (simp add: ids_ok_def fits_bytes_def)
  moreover have "small_ids {1}" by (simp add: small_ids_def dec_int_def dec_nat_small)
  moreover have "entry_ok {1} ''order'' order_v0"
    using intset.invar_empty intset.elems_empty by (simp add: entry_ok_def client_set_def)
  ultimately show ?thesis by (simp add: load_ok_def)
qed


section \<open>Properties\<close>

text \<open>C6. A connecting client announces its namespaces and versions. kvolve admits it to them in
  order: a namespace that is not registered is founded at that version, a registered one takes
  the client only at its current version and only if no successor replaced it, and the first
  mismatch turns the command into \<^verbatim>\<open>quit\<close>. The data is not touched, and the registry keeps its
  invariant.\<close>

theorem check_version_admits:
  assumes "ids_ok C" "cid c \<in> C" "reg_ok C (vers_list s)" "argv c = [a0, a1, a2]" "heap s a0 = Some ob"
    and "sds_of s a2 = Some (announce ps)" "ps \<noteq> []" "\<forall>p \<in> set ps. ann_ok p"
  shows "\<exists>s'. kvolve_check_version c s = Some s' \<and> reg_ok C (vers_list s') \<and> db s' = db s \<and>
    reg_view (vers_list s') = fst (admit (cid c) ps (reg_view (vers_list s))) \<and>
    heap s' = (if snd (admit (cid c) ps (reg_view (vers_list s))) then heap s
               else (heap s)(a0 \<mapsto> ob\<lparr>ptr := Sds ''quit''\<rparr>))"
proof -
  have "c_str (announce ps) = announce ps" using c_str_announce [OF assms(8)] by simp
  moreover have "CHR ''@'' \<in> set (announce ps)" using assms(7) by (cases ps rule: announce.cases) auto
  moreover have "arg c 0 = Some a0" "arg c 2 = Some a2" using assms(4) by (simp_all add: arg_def)
  ultimately show ?thesis
    using check_version_loop_ok [OF assms(7,8,1-3) _ assms(5)] assms(6)
    by (auto simp: kvolve_check_version_def admitted_def)
qed

theorem check_version_admits_witness:
  "\<exists>s'. kvolve_check_version (on_db0 [10000, 0, 10001])
       (with_obj (one_string (announce [(''order'', 2), (''user'', 7), (''order'', 3)]) 0) (with_obj (one_string ''client'' 0) initServer)) = Some s' \<and>
     reg_view (vers_list s') = [''order'' \<mapsto> ([2], {1}, False), ''user'' \<mapsto> ([7], {1}, False)] \<and>
     sds_of s' 10000 = Some ''quit''"
proof -
  let ?ps = "[(''order'', 2), (''user'', 7), (''order'', 3)] :: (string \<times> int) list"
  let ?s = "with_obj (one_string (announce ?ps) 0) (with_obj (one_string ''client'' 0) initServer)"
  have "ids_ok {1}" by (simp add: ids_ok_def fits_bytes_def)
  moreover have vl: "vers_list ?s = []" by (simp add: with_obj_def new_obj_def initServer_def)
  moreover have "cid (on_db0 [10000, 0, 10001]) = 1" by (simp add: on_db0_def)
  moreover have "heap ?s 10000 = Some (one_string ''client'' 0)" "sds_of ?s 10001 = Some (announce ?ps)"
    by (simp_all add: sds_of_def) (simp_all add: one_string_def)
  moreover have "\<forall>p \<in> set ?ps. ann_ok p" by (simp add: ann_ok_def)
  moreover have "reg_view [] = Map.empty" by (simp add: reg_view_def fun_eq_iff)
  ultimately show ?thesis
    using check_version_admits [of "{1}" "on_db0 [10000, 0, 10001]" ?s 10000 0 10001 "one_string ''client'' 0" ?ps]
    by (simp add: sds_of_def) (auto simp: one_string_def)
qed

text \<open>C7. Loading an update of a namespace: some run of the disconnection loop ends, and every run
  that ends appends the new version with its update functions to that namespace and to no other,
  keeps the data and the registry invariant, and leaves at most one client beside the caller in
  the namespace and in each of its predecessors.\<close>

theorem upd_spec_appends:
  assumes "load_ok C s" "map_of (vers_list s) n = Some v" "to_v \<notin> set (versions v)"
    "prev_ns v = None \<longrightarrow> last (versions v) = from_v" "length (versions v) < 20"
  shows "(\<exists>rs s'. kvolve_upd_spec rs n n from_v to_v fs s = Some s') \<and>
    (\<forall>rs s'. kvolve_upd_spec rs n n from_v to_v fs s = Some s' \<longrightarrow>
       extended C n v to_v \<lparr>from_ns = n, to_ns = n, from_vers = from_v, to_vers = to_v, funs = fs\<rparr> s s')"
  using upd_spec_same_all [OF assms] by blast

theorem upd_spec_appends_witness:
  "\<exists>rs s' v'. kvolve_upd_spec rs ''order'' ''order'' 0 1 [7] (order_reg ''x'') = Some s' \<and>
     map_of (vers_list s') ''order'' = Some v' \<and> versions v' = [0, 1] \<and> client_set v' = {1}"
proof -
  have "map_of (vers_list (order_reg ''x'')) ''order'' = Some order_v0" "1 \<notin> set (versions order_v0)"
    "prev_ns order_v0 = None \<longrightarrow> last (versions order_v0) = 0" "length (versions order_v0) < 20" by simp_all
  from upd_spec_appends [OF order_reg_ok this, of "[7]"] obtain rs s' v' where
    r: "kvolve_upd_spec rs ''order'' ''order'' 0 1 [7] (order_reg ''x'') = Some s'" "reg_ok {1} (vers_list s')"
    "map_of (vers_list s') ''order'' = Some v'" "versions v' = [0, 1]" "1 \<in> client_set v'"
    unfolding extended_def by fastforce
  moreover have "client_set v' \<subseteq> {1}" using reg_ok_entry [OF r(2,3)] by (simp add: entry_ok_def)
  ultimately show ?thesis by (metis empty_iff insert_iff subset_singletonD)
qed

text \<open>C8. Loading an update that moves a namespace to a new name registers the new one with the
  versions of the old one and the new version, linked to it as its predecessor; the old one is
  marked as replaced, with at most one client left. Some run of the disconnection loop ends.\<close>

theorem upd_spec_moves_namespace:
  assumes "load_ok C s" "loading_id s \<noteq> 0" "map_of (vers_list s) p = Some v" "to_v \<notin> set (versions v)" "length (versions v) < 20"
    and "map_of (vers_list s) n = None" "n \<noteq> p"
  shows "(\<exists>rs s'. kvolve_upd_spec rs p n from_v to_v fs s = Some s') \<and>
    (\<forall>rs s'. kvolve_upd_spec rs p n from_v to_v fs s = Some s' \<longrightarrow>
       succeeded C p n v to_v \<lparr>from_ns = p, to_ns = n, from_vers = from_v, to_vers = to_v, funs = fs\<rparr> s s')"
  using upd_spec_new [OF assms] by blast

theorem upd_spec_moves_namespace_witness:
  "\<exists>rs s' v'. kvolve_upd_spec rs ''order'' ''purchase'' 0 1 [7] (order_reg ''x'') = Some s' \<and>
     map_of (vers_list s') ''purchase'' = Some v' \<and> versions v' = [0, 1] \<and> prev_ns v' = Some ''order''"
proof -
  have "loading_id (order_reg ''x'') \<noteq> 0" "map_of (vers_list (order_reg ''x'')) ''order'' = Some order_v0" "1 \<notin> set (versions order_v0)"
    "length (versions order_v0) < 20" "map_of (vers_list (order_reg ''x'')) ''purchase'' = None" "''purchase'' \<noteq> ''order''" by simp_all
  from upd_spec_moves_namespace [OF order_reg_ok this, of 0 "[7]"] show ?thesis
    unfolding succeeded_def by fastforce
qed

text \<open>C9. After an update was loaded, a client that announces any other version of the namespace,
  the one it had before included, is disconnected, and the registry is not changed by it.\<close>

theorem update_refuses_old_clients:
  assumes "load_ok C s" "map_of (vers_list s) n = Some v" "to_v \<notin> set (versions v)"
    "prev_ns v = None \<longrightarrow> last (versions v) = from_v" "length (versions v) < 20"
    and "kvolve_upd_spec rs n n from_v to_v fs s = Some s'"
    and "cid c \<in> C" "argv c = [a0, a1, a2]" "heap s a0 = Some ob" "sds_of s a2 = Some (announce [(n, w)])"
    and "ann_ok (n, w)" "w \<noteq> to_v"
  shows "\<exists>s''. kvolve_check_version c s' = Some s'' \<and> sds_of s'' a0 = Some ''quit'' \<and>
    reg_view (vers_list s'') = reg_view (vers_list s')"
proof -
  have e: "extended C n v to_v \<lparr>from_ns = n, to_ns = n, from_vers = from_v, to_vers = to_v, funs = fs\<rparr> s s'"
    by (rule upd_spec_same_all(2) [OF assms(1-6)])
  then obtain v' where v': "map_of (vers_list s') n = Some v'" "versions v' = versions v @ [to_v]" by (auto simp: extended_def)
  have s': "reg_ok C (vers_list s')" "heap s' = heap s" using e by (auto simp: extended_def)
  have no: "admit (cid c) [(n, w)] (reg_view (vers_list s')) = (reg_view (vers_list s'), False)"
    using v' assms(12) by (simp add: reg_view_def view_def)
  have "ids_ok C" using assms(1) by (simp add: load_ok_def)
  from check_version_loop_ok [of "[(n, w)]" C c s' a0 ob, OF _ _ this assms(7) s'(1)] no assms(8,9,11) s'(2) obtain s'' where
    s'': "check_version_loop c (announce [(n, w)]) s' = Some s''" "admitted C a0 ob (reg_view (vers_list s'), False) s' s''"
    by (auto simp: arg_def simp del: announce.simps admit.simps)
  have "NUL \<notin> set (announce [(n, w)])" using c_str_announce [of "[(n, w)]"] assms(11) by simp
  moreover have "sds_of s' a2 = Some (announce [(n, w)])" using assms(10) s'(2) by (simp add: sds_of_def)
  ultimately have "kvolve_check_version c s' = Some s''"
    using assms(8) s''(1) by (simp add: kvolve_check_version_def arg_def)
  with s''(2) show ?thesis by (auto simp: admitted_def sds_of_def)
qed

theorem update_refuses_old_clients_witness:
  "\<exists>rs s' s''. kvolve_upd_spec rs ''order'' ''order'' 0 1 [7] (order_reg ''order@0'') = Some s' \<and>
     kvolve_check_version (on_db0 [10000, 0, 10001]) s' = Some s'' \<and> sds_of s'' 10000 = Some ''quit''"
proof -
  let ?s = "order_reg ''order@0''"
  have v: "map_of (vers_list ?s) ''order'' = Some order_v0" "1 \<notin> set (versions order_v0)"
    "prev_ns order_v0 = None \<longrightarrow> last (versions order_v0) = 0" "length (versions order_v0) < 20" by simp_all
  obtain rs s' where u: "kvolve_upd_spec rs ''order'' ''order'' 0 1 [7] ?s = Some s'"
    using upd_spec_same_all(1) [OF order_reg_ok v] by blast
  have 1: "cid (on_db0 [10000, 0, 10001]) \<in> {1}" "argv (on_db0 [10000, 0, 10001]) = [10000, 0, 10001]"
    "heap ?s 10000 = Some (one_string ''client'' 0)" by (simp_all add: on_db0_def)
  have 2: "sds_of ?s 10001 = Some (announce [(''order'', 0)])"
    by (simp add: sds_of_def dec_int_def dec_nat_zero) (simp add: one_string_def)
  have 3: "ann_ok (''order'', 0)" by (simp add: ann_ok_def)
  from update_refuses_old_clients [OF order_reg_ok v u 1 2 3] u show ?thesis by auto
qed

end
