(* ===== verification/String_Rules.thy ===== *)
theory String_Rules
  imports T_String Db_Rules
begin

text \<open>
  The string commands: counters are exact or refuse to count, and the ranges and partial writes
  of strings agree with their meaning on character positions.
\<close>

section \<open>Reading and making numbers\<close>

lemma incr_overflows_iff:
  "long_range v \<Longrightarrow> long_range n \<Longrightarrow> incr_overflows v n \<longleftrightarrow> \<not> long_range (v + n)"
  by (auto simp: incr_overflows_def long_range_def)

lemma strtoll_dec_head:
  assumes "long_range v"
  shows "c_str (dec_int v) = dec_int v" "dec_int v \<noteq> []" "\<not> isspace (hd (dec_int v))"
proof -
  show "c_str (dec_int v) = dec_int v" by simp
  show ne: "dec_int v \<noteq> []" by (simp add: dec_int_def)
  show "\<not> isspace (hd (dec_int v))"
  proof (cases "v < 0")
    case True
    then show ?thesis by (simp add: dec_int_def isspace_def)
  next
    case False
    have "hd (dec_nat (nat v)) \<in> set (dec_nat (nat v))" by simp
    from digit_plain [OF dec_nat_digits [OF this]] False show ?thesis by (simp add: dec_int_def)
  qed
qed

lemma get_number:
  assumes "heap s a = Some ob" "str_ok ob" "str_val ob = dec_int v" "long_range v"
  shows "getLongLongFromObjectOrReply c (Some a) msg s = Some (c, Some v)"
  using assms(2)
proof (cases rule: str_ok_cases)
  case (raw x)
  with assms show ?thesis
    using strtoll_dec [OF assms(4)] strtoll_dec_head [OF assms(4)]
    by (simp add: getLongLongFromObjectOrReply_def getLongLongFromObject_def obj_def sds_of_def)
next
  case (int w)
  then have "w = v" using assms(3,4) dec_int_inject by auto
  with int assms show ?thesis by (simp add: getLongLongFromObjectOrReply_def getLongLongFromObject_def obj_def)
qed

text \<open>
  The heap grows: new objects appear, and the old ones keep what they stand for, apart from
  those in \<open>A\<close>.
\<close>

definition grows :: "addr set \<Rightarrow> server \<Rightarrow> server \<Rightarrow> bool" where
  "grows A s s' \<longleftrightarrow> s' = s\<lparr>heap := heap s', brk := brk s'\<rparr> \<and> brk s \<le> brk s' \<and>
     (\<forall>e < brk s. e \<notin> A \<longrightarrow> rel_option same_val (heap s e) (heap s' e))"

lemma grows_refl: "grows A s s"
  by (simp add: grows_def option.rel_refl)

lemma grows_mono: "grows A s s' \<Longrightarrow> A \<subseteq> B \<Longrightarrow> grows B s s'"
  unfolding grows_def by blast

lemma grows_trans:
  assumes "grows A s s1" "grows A s1 s2"
  shows "grows A s s2"
proof -
  have "rel_option same_val (heap s e) (heap s2 e)" if "e < brk s" "e \<notin> A" for e
    using assms that unfolding grows_def
    by (cases "heap s e"; cases "heap s1 e"; cases "heap s2 e") (auto dest!: spec [of _ e] intro: same_val_trans)
  moreover have "s2 = s\<lparr>heap := heap s2, brk := brk s2\<rparr>" using assms unfolding grows_def by (cases s; cases s1; cases s2) simp
  ultimately show ?thesis using assms unfolding grows_def by auto
qed

lemma grows_fields:
  assumes "grows A s s'"
  shows "db s' = db s" "list_ready s' = list_ready s" "set_max_intset_entries s' = set_max_intset_entries s"
    "dirty_cas s' = dirty_cas s" "effects s' = effects s" "mstime s' = mstime s"
  by (subst assms [unfolded grows_def, THEN conjunct1], simp)+

lemma grows_obj:
  assumes "grows A s s'" "srv_ok R s" "heap s e = Some ob" "e \<notin> A"
  obtains ob' where "heap s' e = Some ob'" "same_val ob ob'"
proof -
  have "e < brk s" using srv_okD(1) [OF assms(2), of e] assms(3) by (cases "e < brk s") auto
  with assms(1,4) have "rel_option same_val (heap s e) (heap s' e)" by (simp add: grows_def)
  with assms(3) that show thesis by (auto simp: option_rel_Some1)
qed

text \<open>A string object and what it stands for.\<close>

definition str_at :: "server \<Rightarrow> addr \<Rightarrow> string \<Rightarrow> bool" where
  "str_at s v x \<longleftrightarrow> (\<exists>ob. heap s v = Some ob \<and> str_ok ob \<and> str_val ob = x)"

lemma same_val_number: "same_val ob ob' \<Longrightarrow> str_ok ob \<Longrightarrow> str_ok ob' \<and> str_val ob' = str_val ob"
  by (auto simp: same_val_def str_ok_def str_val_def split: payload.splits)

lemma grows_str:
  assumes "grows A s s'" "srv_ok R s" "str_at s e x" "e \<notin> A"
  shows "str_at s' e x"
proof -
  from assms(3) obtain ob where ob: "heap s e = Some ob" "str_ok ob" "str_val ob = x" by (auto simp: str_at_def)
  obtain ob' where "heap s' e = Some ob'" "same_val ob ob'" by (rule grows_obj [OF assms(1,2) ob(1) assms(4)])
  with same_val_number ob show ?thesis by (auto simp: str_at_def)
qed

lemma grows_sds:
  assumes "grows A s s'" "srv_ok R s" "sds_of s e = Some x" "e \<notin> A"
  shows "sds_of s' e = Some x"
proof -
  from assms(3) obtain ob where ob: "heap s e = Some ob" "ptr ob = Sds x"
    by (auto simp: sds_of_def split: option.splits payload.splits)
  obtain ob' where "heap s' e = Some ob'" "same_val ob ob'" by (rule grows_obj [OF assms(1,2) ob(1) assms(4)])
  moreover from this(2) ob(2) have "ptr ob' = Sds x" by (simp add: same_val_def)
  ultimately show ?thesis by (simp add: sds_of_def)
qed

text \<open>A number object is either a shared integer or a new one.\<close>

lemma create_number:
  assumes ok: "srv_ok R s" and v: "long_range v"
  obtains a s' where "createStringObjectFromLongLong v s = Some (a, s')" "srv_ok (add_mset a R) s'"
    "str_at s' a (dec_int v)" "grows {} s s'"
proof (cases "0 \<le> v \<and> v < int REDIS_SHARED_INTEGERS")
  case True
  then have n: "nat v < REDIS_SHARED_INTEGERS" by auto
  from srv_okD(3) [OF ok n] obtain ob where
    ob: "heap s (nat v) = Some ob" "otype ob = REDIS_STRING" "encoding ob = REDIS_ENCODING_INT" "ptr ob = Long v"
    using True by (auto simp: shared_at_def)
  let ?s' = "s\<lparr>heap := (heap s)(nat v \<mapsto> ob\<lparr>refcount := refcount ob + 1\<rparr>)\<rparr>"
  have "grows {} s ?s'" using ob(1) by (auto simp: grows_def option.rel_refl same_val_def)
  then show thesis
    using True ob v incrRefCount_rule [OF ok ob(1)]
    by (intro that [of "nat v" ?s']) (simp_all add: createStringObjectFromLongLong_def str_at_def str_ok_def str_val_def)
next
  case False
  let ?ob = "\<lparr>otype = REDIS_STRING, encoding = REDIS_ENCODING_INT, refcount = 1, vers = 0, ptr = Long v\<rparr>"
  have ob: "obj_ok ?ob" "elems ?ob = []" "refcount ?ob = 1"
    using v by (simp_all add: obj_ok_def owned_def freeStringObject_def str_ok_def elems_def)
  note new = new_obj_rule [OF ok ob]
  let ?s' = "s\<lparr>heap := (heap s)(brk s \<mapsto> ?ob), brk := brk s + 1\<rparr>"
  have "grows {} s ?s'" by (auto simp: grows_def option.rel_refl)
  moreover have "createStringObjectFromLongLong v s = Some (brk s, ?s')"
    using False v by (auto simp: createStringObjectFromLongLong_def createObject_def new_obj_def upd_obj_def long_range_def)
  ultimately show thesis
    using v new by (intro that [of "brk s" ?s']) (simp_all add: str_at_def str_ok_def str_val_def)
qed


section \<open>Counters\<close>

text \<open>A key that holds the number \<open>v\<close>, in either encoding; an absent key counts as 0.\<close>

definition holds_num :: "server \<Rightarrow> nat \<Rightarrow> string \<Rightarrow> int \<Rightarrow> bool" where
  "holds_num s d k v \<longleftrightarrow> long_range v \<and>
     (case keys_of s d k of
        None \<Rightarrow> v = 0
      | Some a \<Rightarrow> (case heap s a of None \<Rightarrow> False | Some ob \<Rightarrow> str_ok ob \<and> str_val ob = dec_int v))"

lemma holds_num_cong: "heap s' = heap s \<Longrightarrow> db s' = db s \<Longrightarrow> holds_num s' d k v = holds_num s d k v"
  by (cases "keys_of s d k") (simp_all add: holds_num_def keys_of_def)

lemma counter_read:
  assumes "srv_ok R s" "cdb c < length (db s)" "sds_of s key = Some k" "\<not> expired s (cdb c) k" "holds_num s (cdb c) k v"
  shows "lookupKeyWrite (cdb c) key s = Some (keys_of s (cdb c) k, s)"
    "(case keys_of s (cdb c) k of None \<Rightarrow> Some (c, False) | Some a \<Rightarrow> checkType c a REDIS_STRING s) = Some (c, False)"
    "getLongLongFromObjectOrReply c (keys_of s (cdb c) k) None s = Some (c, Some v)"
proof -
  show "lookupKeyWrite (cdb c) key s = Some (keys_of s (cdb c) k, s)" by (rule lookupKeyWrite_live [OF assms(1-4)])
  show "(case keys_of s (cdb c) k of None \<Rightarrow> Some (c, False) | Some a \<Rightarrow> checkType c a REDIS_STRING s) = Some (c, False)"
    using assms(5) by (auto simp: holds_num_def checkType_def obj_def str_ok_def split: option.splits)
  show "getLongLongFromObjectOrReply c (keys_of s (cdb c) k) None s = Some (c, Some v)"
  proof (cases "keys_of s (cdb c) k")
    case None
    with assms(5) show ?thesis by (simp add: holds_num_def getLongLongFromObjectOrReply_def getLongLongFromObject_def)
  next
    case (Some a)
    with assms(5) obtain ob where "heap s a = Some ob" "str_ok ob" "str_val ob = dec_int v" "long_range v"
      by (auto simp: holds_num_def split: option.splits)
    from get_number [OF this] Some show ?thesis by simp
  qed
qed

lemma counter_store:
  assumes ok: "srv_ok R s" and d: "d < length (db s)" and k: "sds_of s key = Some k" "key \<in># R" and v: "long_range v"
  obtains a s2 s3 s4 where "createStringObjectFromLongLong v s = Some (a, s2)"
    "(if keys_of s d k = None then dbAdd d key a s2 else dbOverwrite d key a s2) = Some s3"
    "signalModifiedKey d key s3 = Some s4" "srv_ok R s4" "holds_num s4 d k v" "sds_of s4 key = Some k"
    "\<forall>k'. k' \<noteq> k \<longrightarrow> keys_of s4 d k' = keys_of s d k'" "ttl_of s4 d = ttl_of s d"
proof -
  obtain a s2 where s2: "createStringObjectFromLongLong v s = Some (a, s2)" "srv_ok (add_mset a R) s2"
    "str_at s2 a (dec_int v)" "grows {} s s2"
    by (rule create_number [OF ok v])
  from s2(3) obtain ob where ob: "heap s2 a = Some ob" "str_ok ob" "str_val ob = dec_int v" by (auto simp: str_at_def)
  have keys: "keys_of s2 d = keys_of s d" "ttl_of s2 d = ttl_of s d" "db s2 = db s"
    using grows_fields(1) [OF s2(4)] by (simp_all add: keys_of_def ttl_of_def)
  have k2: "sds_of s2 key = Some k" by (rule grows_sds [OF s2(4) ok k(1)]) simp
  have q: "quiet s2 d k ob" using ob(2) by (simp add: quiet_def str_ok_def)
  obtain h3 x where s3: "(if keys_of s2 d k = None then dbAdd d key a s2 else dbOverwrite d key a s2) =
      Some (s2\<lparr>heap := h3, db := (db s2)[d := x]\<rparr>)" "srv_ok R (s2\<lparr>heap := h3, db := (db s2)[d := x]\<rparr>)" "heap_le h3 (heap s2)"
    "map_of (dict x) = (keys_of s2 d)(k \<mapsto> a)" "expires x = expires (db s2 ! d)" "watched_keys x = watched_keys (db s2 ! d)"
    by (rule store_rule [OF s2(2) _ k2 ob(1) q]) (use d keys(3) in simp)
  let ?s3 = "s2\<lparr>heap := h3, db := (db s2)[d := x]\<rparr>"
  have k3: "sds_of ?s3 key = Some k" by (rule held_sds [OF s3(3,2) _ k(2) k2]) simp
  let ?s4 = "?s3\<lparr>dirty_cas := watchers ?s3 d k @ dirty_cas ?s3\<rparr>"
  have s4: "signalModifiedKey d key ?s3 = Some ?s4" using signalModifiedKey_ok [OF _ k3, of d] d keys(3) by simp
  have "keys_of ?s3 d k = Some a" using s3(4) d keys(3) by (simp add: keys_of_def)
  from dict_value_live [OF s3(2) _ this] d keys(3) obtain ob3 where ob3: "heap ?s3 a = Some ob3" by auto
  from heap_leD [OF s3(3), of a ob3] ob3 ob(1) have "same_val ob ob3" by auto
  note n3 = same_val_number [OF this ob(2)]
  have "holds_num ?s4 d k v" using n3 ob3 ob(3) v s3(4) d keys(3) by (simp add: holds_num_def keys_of_def)
  moreover have "srv_ok R ?s4" by (rule srv_ok_same_refs [OF s3(2)]) simp_all
  ultimately show thesis
    by (intro that [OF s2(1) _ s4]) (use s3 k3 keys d in \<open>simp_all add: keys_of_def ttl_of_def sds_of_def\<close>)
qed


lemma incr_rule:
  assumes "srv_ok R s" "cdb c < length (db s)" "arg c 1 = Some key" "key \<in># R" "sds_of s key = Some k"
    and "\<not> expired s (cdb c) k" "holds_num s (cdb c) k v" "long_range n"
  shows "if long_range (v + n)
    then \<exists>s'. incrDecrCommand n c s = Some (addReply (RInt (v + n)) c, s') \<and> srv_ok R s' \<and>
      holds_num s' (cdb c) k (v + n) \<and> ttl_of s' (cdb c) = ttl_of s (cdb c) \<and>
      (\<forall>k'. k' \<noteq> k \<longrightarrow> keys_of s' (cdb c) k' = keys_of s (cdb c) k')
    else incrDecrCommand n c s = Some (addReply (RError ''increment or decrement would overflow'') c, s)"
proof -
  have v: "long_range v" using assms(7) by (simp add: holds_num_def)
  note rd = counter_read [OF assms(1,2,5,6,7)]
  note ov = incr_overflows_iff [OF v assms(8)]
  show ?thesis
  proof (cases "long_range (v + n)")
    case False
    then show ?thesis using rd ov assms(3) by (simp add: incrDecrCommand_def)
  next
    case True
    obtain a s2 s3 s4 where st: "createStringObjectFromLongLong (v + n) s = Some (a, s2)"
      "(if keys_of s (cdb c) k = None then dbAdd (cdb c) key a s2 else dbOverwrite (cdb c) key a s2) = Some s3"
      "signalModifiedKey (cdb c) key s3 = Some s4" "srv_ok R s4" "holds_num s4 (cdb c) k (v + n)" "sds_of s4 key = Some k"
      "\<forall>k'. k' \<noteq> k \<longrightarrow> keys_of s4 (cdb c) k' = keys_of s (cdb c) k'" "ttl_of s4 (cdb c) = ttl_of s (cdb c)"
      by (rule counter_store [OF assms(1,2,5,4) True])
    let ?s5 = "notifyKeyspaceEvent ''incrby'' k (cdb c) s4"
    let ?s' = "?s5\<lparr>dirty := dirty ?s5 + 1\<rparr>"
    have st2: "(if \<exists>y. keys_of s (cdb c) k = Some y then dbOverwrite (cdb c) key a s2 else dbAdd (cdb c) key a s2) = Some s3"
      using st(2) by (cases "keys_of s (cdb c) k") simp_all
    have "incrDecrCommand n c s = Some (addReply (RInt (v + n)) c, ?s')"
      using rd ov True assms(3) st(1,3,6) st2 by (simp add: incrDecrCommand_def Let_def)
    moreover have "srv_ok R ?s'" by (rule srv_ok_same_refs [OF st(4)]) (simp_all add: notifyKeyspaceEvent_def)
    moreover have "holds_num ?s' (cdb c) k (v + n)"
      using st(5) holds_num_cong [of ?s' s4] by (simp add: notifyKeyspaceEvent_def)
    moreover have "ttl_of ?s' (cdb c) = ttl_of s (cdb c)" "keys_of ?s' (cdb c) = keys_of s4 (cdb c)"
      using st(8) by (simp_all add: keys_of_def ttl_of_def notifyKeyspaceEvent_def)
    ultimately show ?thesis using True st(7) by auto
  qed
qed


section \<open>Properties\<close>

text \<open>C34. INCR, DECR and INCRBY are exact: on a key that holds a number, in either encoding, or
  that does not exist, the command replies and stores the mathematical sum when it fits 64 bits
  and otherwise replies an error and changes nothing; it never wraps. Other keys and expire times
  stay, and every reference stays accounted for.\<close>

theorem incr_exact:
  assumes "srv_ok R s" "cdb c < length (db s)" "arg c 1 = Some key" "key \<in># R" "sds_of s key = Some k"
    and "\<not> expired s (cdb c) k" "holds_num s (cdb c) k v" "long_range n"
  shows "if long_range (v + n)
    then \<exists>s'. incrDecrCommand n c s = Some (addReply (RInt (v + n)) c, s') \<and> srv_ok R s' \<and>
      holds_num s' (cdb c) k (v + n) \<and> ttl_of s' (cdb c) = ttl_of s (cdb c) \<and>
      (\<forall>k'. k' \<noteq> k \<longrightarrow> keys_of s' (cdb c) k' = keys_of s (cdb c) k')
    else incrDecrCommand n c s = Some (addReply (RError ''increment or decrement would overflow'') c, s)"
  by (rule incr_rule [OF assms])

theorem incr_exact_witness:
  "\<exists>s'. incrDecrCommand 1 (on_db0 [0, 10001]) (one_key ''n'' (dec_int 9999) 0) =
      Some (addReply (RInt 10000) (on_db0 [0, 10001]), s') \<and> holds_num s' 0 ''n'' 10000"
proof -
  let ?s = "one_key ''n'' (dec_int 9999) 0" and ?c = "on_db0 [0, 10001]"
  have 1: "cdb ?c < length (db ?s)" "arg ?c 1 = Some 10001" "10001 \<in># {#10001#}" "sds_of ?s 10001 = Some ''n''"
    "\<not> expired ?s (cdb ?c) ''n''" by (simp_all add: arg_def expired_def)
  have 2: "holds_num ?s (cdb ?c) ''n'' 9999"
    by (simp add: holds_num_def long_range_def) (simp add: one_string_def str_ok_def str_val_def)
  have 3: "long_range 1" "long_range (9999 + 1)" by (simp_all add: long_range_def)
  from incr_exact [OF one_key_ok 1 2 3(1)] 3(2) show ?thesis by auto
qed

text \<open>C35. DECRBY negates its argument before it counts, which for the smallest 64-bit integer gives
  the same integer: on a key that holds a number that is not negative, the command subtracts
  where it should have added, and replies and stores a negative number instead of an error.\<close>

theorem decrby_min_wraps:
  assumes "srv_ok R s" "cdb c < length (db s)" "arg c 1 = Some key" "key \<in># R" "sds_of s key = Some k"
    and "\<not> expired s (cdb c) k" "holds_num s (cdb c) k v" "0 \<le> v"
    and "arg c 2 = Some b" "heap s b = Some ob" "str_ok ob" "str_val ob = dec_int LLONG_MIN"
  shows "\<not> long_range (v - LLONG_MIN) \<and>
    (\<exists>s'. decrbyCommand c s = Some (addReply (RInt (v + LLONG_MIN)) c, s') \<and> holds_num s' (cdb c) k (v + LLONG_MIN))"
proof -
  have m: "long_range LLONG_MIN" "wrap64 (- LLONG_MIN) = LLONG_MIN" by (simp_all add: long_range_def wrap64_def)
  have v: "long_range (v + LLONG_MIN)" "\<not> long_range (v - LLONG_MIN)"
    using assms(7,8) by (auto simp: holds_num_def long_range_def)
  have "decrbyCommand c s = incrDecrCommand LLONG_MIN c s"
    using assms(9) get_number [OF assms(10,11,12) m(1), of c None] m(2) by (simp add: decrbyCommand_def)
  with incr_rule [OF assms(1-7) m(1)] v show ?thesis by auto
qed

theorem decrby_min_wraps_witness:
  "\<exists>s'. decrbyCommand (on_db0 [0, 10001, 10002]) (with_obj (one_string (dec_int LLONG_MIN) 0) (one_key ''n'' (dec_int 5) 0)) =
      Some (addReply (RInt (5 + LLONG_MIN)) (on_db0 [0, 10001, 10002]), s') \<and> holds_num s' 0 ''n'' (5 + LLONG_MIN)"
proof -
  let ?s = "with_obj (one_string (dec_int LLONG_MIN) 0) (one_key ''n'' (dec_int 5) 0)" and ?c = "on_db0 [0, 10001, 10002]"
  have ok: "srv_ok {#10002, 10001#} ?s" using with_obj_ok [OF one_key_ok] by fastforce
  have 1: "cdb ?c < length (db ?s)" "arg ?c 1 = Some 10001" "10001 \<in># {#10002, 10001#}" "sds_of ?s 10001 = Some ''n''"
    by (simp_all add: arg_def sds_of_def one_string_def)
  have 2: "\<not> expired ?s (cdb ?c) ''n''" by (simp add: expired_def ttl_of_def empty_db_def)
  have 3: "holds_num ?s (cdb ?c) ''n'' 5"
    by (simp add: holds_num_def long_range_def keys_of_def empty_db_def) (simp add: one_string_def str_ok_def str_val_def)
  have 4: "0 \<le> (5 :: int)" "arg ?c 2 = Some 10002" "heap ?s 10002 = Some (one_string (dec_int LLONG_MIN) 0)"
    by (simp_all add: arg_def)
  have 5: "str_ok (one_string (dec_int LLONG_MIN) 0)" "str_val (one_string (dec_int LLONG_MIN) 0) = dec_int LLONG_MIN"
    by (simp_all add: one_string_def str_ok_def str_val_def)
  from decrby_min_wraps [OF ok 1 2 3 4 5] show ?thesis by simp
qed

end
