(* ===== verification/Set_Rules.thy ===== *)
theory Set_Rules
  imports T_Set String_Rules
begin

text \<open>
  The set type refines finite sets of strings: whatever its encoding, and across the conversion
  from an intset to a dictionary, adding, removing and testing act on the set of strings that
  the elements stand for.
\<close>

section \<open>Moving references into and out of a container\<close>

lemma container_live:
  assumes ok: "srv_ok R s" and e: "e \<in> set (elems ob)" "heap s a = Some ob"
  obtains oe where "heap s e = Some oe" "str_ok oe" "1 \<le> refcount oe"
proof -
  have at: "e \<in># elems_at (heap s) a" using e by (simp add: elems_at_def)
  then have st: "e \<in># state_refs s" by (rule elems_at_in_state [OF _ ok])
  then have "0 < count (R + state_refs s) e + shared_ref e" by simp
  from srv_ok_live [OF ok this] obtain oe where
    oe: "heap s e = Some oe" "obj_ok oe" "int (count (R + state_refs s) e + shared_ref e) \<le> refcount oe" by blast
  obtain n where "count (state_refs s) e = Suc n" using st by (metis count_greater_zero_iff gr0_implies_Suc)
  with oe(3) have "1 \<le> refcount oe" by simp
  moreover have "str_ok oe" using oe(2) srv_okD(5) [OF ok at oe(1)] by (simp add: obj_ok_def)
  ultimately show thesis using oe(1) that by blast
qed

text \<open>The elements of a container change; what it gains the running code gives, what it loses it gets.\<close>

lemma container_rule:
  assumes ok: "srv_ok R1 s" and a: "heap s a = Some ob" "otype ob \<noteq> REDIS_STRING"
    and ob': "obj_ok ob'" "otype ob' = otype ob" "refcount ob' = refcount ob"
    and cons: "mset (elems ob') + R2 = mset (elems ob) + R1"
    and str: "\<And>e oe. e \<in> set (elems ob') \<Longrightarrow> e \<notin> set (elems ob) \<Longrightarrow> heap s e = Some oe \<Longrightarrow> otype oe = REDIS_STRING"
  shows "srv_ok R2 (s\<lparr>heap := (heap s)(a \<mapsto> ob')\<rparr>)"
proof -
  let ?s = "s\<lparr>heap := (heap s)(a \<mapsto> ob')\<rparr>"
  have lt: "a < brk s" using srv_okD(1) [OF ok, of a] a by (cases "a < brk s") auto
  have big: "\<not> a < REDIS_SHARED_INTEGERS" using srv_okD(3) [OF ok, of a] a by (auto simp: shared_at_def)
  let ?r = "elem_refs ((heap s)(a := None)) (brk s)"
  have "elem_refs (heap s) (brk s) = mset (elems ob) + ?r"
    using elem_refs_remove [OF lt, of "heap s"] a(1) by (simp add: elems_at_def)
  moreover have "elem_refs ((heap s)(a \<mapsto> ob')) (brk s) = mset (elems ob') + ?r" by (rule elem_refs_set [OF lt])
  ultimately have refs: "mset (elems ob) + state_refs ?s = mset (elems ob') + state_refs s"
    by (simp add: state_refs_def ac_simps)
  have old: "otype oe = REDIS_STRING" if "e \<in># elems_at (heap s) b" "heap ?s e = Some oe" for b e oe
    using srv_okD(5) [OF ok that(1)] that(2) a ob'(2) by (cases "e = a") auto
  show ?thesis
  proof (rule srv_okI)
    fix b
    have "count R2 b + count (state_refs ?s) b = count R1 b + count (state_refs s) b"
      using arg_cong [OF refs, of "\<lambda>M. count M b"] arg_cong [OF cons, of "\<lambda>M. count M b"] by simp
    moreover have "rc (heap ?s) b = rc (heap s) b" using a(1) ob'(3) by (simp add: rc_def)
    ultimately show "count R2 b + count (state_refs ?s) b + shared_ref b \<le> rc (heap ?s) b"
      using srv_okD(7) [OF ok, of b] by simp
  next
    fix b e oe assume e: "e \<in># elems_at (heap ?s) b" and oe: "heap ?s e = Some oe"
    show "otype oe = REDIS_STRING"
    proof (cases "b = a \<and> e \<notin> set (elems ob)")
      case True
      with e have "e \<in> set (elems ob')" by (simp add: elems_at_def)
      with str [OF this] True oe a ob'(2) show ?thesis by (cases "e = a") auto
    next
      case False
      with e a(1) have "e \<in># elems_at (heap s) b" by (cases "b = a") (simp_all add: elems_at_def)
      then show ?thesis using oe by (rule old)
    qed
  next
    fix b :: addr assume b: "b < REDIS_SHARED_INTEGERS"
    with srv_okD(3) [OF ok b] big show "shared_at (heap ?s) b" by (auto simp: shared_at_def)
  qed (use srv_okD(1,2,4,6) [OF ok] ob'(1) lt in \<open>auto split: if_splits\<close>)
qed


section \<open>The strings of a set\<close>

definition elem_str :: "server \<Rightarrow> addr \<Rightarrow> string" where
  "elem_str s e = (case heap s e of Some oe \<Rightarrow> str_val oe | None \<Rightarrow> [])"

text \<open>\<open>set_at s a S\<close>: the object at \<open>a\<close> is a set whose elements stand for the strings \<open>S\<close>.\<close>

definition set_obj :: "server \<Rightarrow> robj \<Rightarrow> string set \<Rightarrow> bool" where
  "set_obj s ob S \<longleftrightarrow> otype ob = REDIS_SET \<and>
     (case ptr ob of
        Is i \<Rightarrow> encoding ob = REDIS_ENCODING_INTSET \<and> S = dec_int ` set (intset_elems i)
      | DictSet es \<Rightarrow> encoding ob = REDIS_ENCODING_HT \<and> S = elem_str s ` set es \<and> distinct (map (elem_str s) es)
      | _ \<Rightarrow> False)"

definition set_at :: "server \<Rightarrow> addr \<Rightarrow> string set \<Rightarrow> bool" where
  "set_at s a S \<longleftrightarrow> (\<exists>ob. heap s a = Some ob \<and> set_obj s ob S)"

lemma set_obj_cases:
  assumes "set_obj s ob S"
  obtains (intset) i where "otype ob = REDIS_SET" "encoding ob = REDIS_ENCODING_INTSET" "ptr ob = Is i" "S = dec_int ` set (intset_elems i)"
  | (ht) es where "otype ob = REDIS_SET" "encoding ob = REDIS_ENCODING_HT" "ptr ob = DictSet es" "S = elem_str s ` set es"
      "distinct (map (elem_str s) es)" "elems ob = es"
  using assms by (cases "ptr ob") (auto simp: set_obj_def elems_def owned_def freeSetObject_def)

lemma str_at_elem: "str_at s v x \<Longrightarrow> elem_str s v = x"
  by (auto simp: str_at_def elem_str_def)

lemma compare_ok:
  assumes "str_at s a x" "str_at s b y"
  shows "dictEncObjKeyCompare s a b = Some (x = y)"
proof -
  from assms obtain oa ob where o: "heap s a = Some oa" "str_ok oa" "str_val oa = x" "heap s b = Some ob" "str_ok ob" "str_val ob = y"
    by (auto simp: str_at_def)
  show ?thesis
  proof (cases "encoding oa = REDIS_ENCODING_INT \<and> encoding ob = REDIS_ENCODING_INT")
    case True
    with o(2) obtain v where v: "ptr oa = Long v" "long_range v" "x = dec_int v" using o(3) by (cases rule: str_ok_cases) auto
    from o(5) True obtain w where w: "ptr ob = Long w" "long_range w" "y = dec_int w" using o(6) by (cases rule: str_ok_cases) auto
    from v w True o show ?thesis by (simp add: dictEncObjKeyCompare_def obj_def dec_int_inject)
  next
    case False
    then show ?thesis
      using o obj_chars_ok [of s a oa 32] obj_chars_ok [of s b ob 32] by (auto simp: dictEncObjKeyCompare_def obj_def)
  qed
qed

lemma find_obj_ok:
  assumes "str_at s v x" "\<And>e. e \<in> set es \<Longrightarrow> str_at s e (elem_str s e)"
  shows "find_obj s es v = Some (find (\<lambda>e. x = elem_str s e) es)"
  using assms(2)
proof (induction es)
  case (Cons e es)
  then show ?case using compare_ok [OF assms(1), of e "elem_str s e"] by simp
qed simp

lemma find_member: "find (\<lambda>e. x = f e) es = None \<longleftrightarrow> x \<notin> f ` set es"
  by (auto simp: find_None_iff)

lemma set_elem_str:
  assumes "srv_ok R s" "heap s a = Some ob" "e \<in> set (elems ob)"
  shows "str_at s e (elem_str s e)"
proof -
  obtain oe where "heap s e = Some oe" "str_ok oe" by (rule container_live [OF assms(1,3,2)])
  then show ?thesis by (simp add: str_at_def elem_str_def)
qed

lemma representable:
  assumes "str_at s v x"
  shows "isObjectRepresentableAsLongLong s v = Some (string2l x)"
proof -
  from assms obtain ob where ob: "heap s v = Some ob" "str_ok ob" "str_val ob = x" by (auto simp: str_at_def)
  from ob(2) show ?thesis
  proof (cases rule: str_ok_cases)
    case (raw y)
    with ob show ?thesis by (simp add: isObjectRepresentableAsLongLong_def obj_def sds_of_def string2l_eq)
  next
    case (int w)
    then have "string2l x = Some w" using ob(3) by (simp add: string2l_iff)
    with int ob show ?thesis by (simp add: isObjectRepresentableAsLongLong_def obj_def)
  qed
qed

lemma int64_long: "int64 v \<longleftrightarrow> long_range v"
  by (auto simp: fits_bytes_def long_range_def)

lemma intset_elems_range:
  assumes "intset_inv i" "v \<in> set (intset_elems i)"
  shows "long_range v"
proof -
  have rep: "intset_rep i (intset_elems i)" using assms(1) by (simp add: intset_inv_def)
  have "fits_bytes (is_encoding i) v" using rep assms(2) by (simp add: intset_rep_def)
  moreover have "is_encoding i \<le> 8" using rep by (auto simp: intset_rep_def)
  ultimately have "int64 v" by (rule fits_bytes_mono)
  then show ?thesis by (simp add: int64_long)
qed

lemma intset_member:
  assumes "intset_inv i"
  shows "x \<in> dec_int ` set (intset_elems i) \<longleftrightarrow> (case string2l x of None \<Rightarrow> False | Some v \<Rightarrow> v \<in> set (intset_elems i))"
proof -
  have r: "long_range v" if "v \<in> set (intset_elems i)" for v
    by (rule intset_elems_range [OF assms that])
  show ?thesis
  proof (cases "string2l x")
    case None
    then show ?thesis using r string2l_iff [of x] by fastforce
  next
    case (Some v)
    then have v: "long_range v" "x = dec_int v" by (simp_all add: string2l_iff)
    with Some r show ?thesis by (auto simp: dec_int_inject)
  qed
qed

lemma isMember_ok:
  assumes ok: "srv_ok R s" and a: "set_at s a S" and v: "str_at s v x"
  shows "setTypeIsMember s a v = Some (x \<in> S)"
proof -
  from a obtain ob where ob: "heap s a = Some ob" "set_obj s ob S" by (auto simp: set_at_def)
  from ob(2) show ?thesis
  proof (cases rule: set_obj_cases)
    case (intset i)
    have inv: "intset_inv i" using srv_okD(4) [OF ok ob(1)] intset(3) by (simp add: obj_ok_def)
    show ?thesis
    proof (cases "string2l x")
      case None
      with ob intset representable [OF v] show ?thesis
        by (simp add: setTypeIsMember_def obj_def intset_member [OF inv])
    next
      case (Some w)
      then have "int64 w" using int64_long by (simp add: string2l_iff)
      with Some ob intset representable [OF v] show ?thesis
        by (simp add: setTypeIsMember_def obj_def intset_member [OF inv] intset.find_ok [OF inv])
    qed
  next
    case (ht es)
    have "find_obj s es v = Some (find (\<lambda>e. x = elem_str s e) es)"
      by (rule find_obj_ok [OF v]) (use set_elem_str [OF ok ob(1)] ht in simp)
    with ob ht show ?thesis by (simp add: setTypeIsMember_def obj_def find_member del: not_None_eq)
  qed
qed

section \<open>Conversion to a dictionary\<close>

lemma grows_elem_str:
  assumes "grows A s s'" "srv_ok R s" "str_at s e x" "e \<notin> A"
  shows "elem_str s' e = elem_str s e"
  using grows_str [OF assms] assms(3) by (simp add: str_at_elem)

lemma set_iter_intset:
  assumes "heap s a = Some ob" "encoding ob = REDIS_ENCODING_INTSET" "ptr ob = Is i" "intset_inv i" "p \<le> is_length i"
  shows "set_iter (Suc (is_length i - p)) s \<lparr>si_subject = a, si_encoding = REDIS_ENCODING_INTSET, si_pos = p\<rparr> =
    Some (map EInt (drop p (intset_elems i)))"
  using assms(5)
proof (induction "is_length i - p" arbitrary: p)
  case 0
  then have "p = is_length i" by simp
  with assms intset_elems_sorted [OF assms(4)] show ?case by (simp add: setTypeNext_def obj_def intsetGet_def)
next
  case (Suc n)
  have rep: "intset_rep i (intset_elems i)" using assms(4) by (simp add: intset_inv_def)
  have len: "length (intset_elems i) = is_length i" using rep by (simp add: intset_rep_def)
  have p: "p < is_length i" using Suc.hyps(2) by simp
  then have g: "internal_intsetGet i p = Some (intset_elems i ! p)" using get_rep [OF rep, of p] len by simp
  have n: "is_length i - p = Suc (is_length i - Suc p)" using p by simp
  have "drop p (intset_elems i) = intset_elems i ! p # drop (Suc p) (intset_elems i)"
    using p len by (simp add: Cons_nth_drop_Suc)
  moreover have "set_iter (Suc (is_length i - Suc p)) s \<lparr>si_subject = a, si_encoding = REDIS_ENCODING_INTSET, si_pos = Suc p\<rparr> =
      Some (map EInt (drop (Suc p) (intset_elems i)))"
    using Suc.hyps p by (intro Suc.hyps(1)) simp_all
  ultimately show ?case
    using assms g p unfolding n
    by (subst set_iter.simps(2)) (simp add: setTypeNext_def obj_def intsetGet_def del: set_iter.simps)
qed

lemma set_elements_intset:
  assumes "heap s a = Some ob" "encoding ob = REDIS_ENCODING_INTSET" "ptr ob = Is i" "intset_inv i"
  shows "set_elements s a = Some (map EInt (intset_elems i))"
  using set_iter_intset [OF assms, of 0] assms
  by (simp add: set_elements_def setTypeInitIterator_def setTypeSize_def obj_def intsetLen_def)

text \<open>The objects made so far are held by the running code.\<close>

lemma convert_loop_ok:
  assumes "srv_ok (mset d + R) s" "distinct vs" "\<forall>v \<in> set vs. long_range v"
    and "\<forall>e \<in> set d. str_at s e (elem_str s e)" "\<forall>v \<in> set vs. dec_int v \<notin> elem_str s ` set d" "distinct (map (elem_str s) d)"
  shows "\<exists>d' s'. convert_loop (map EInt vs) d s = Some (d', s') \<and> srv_ok (mset d' + R) s' \<and> grows {} s s' \<and>
    (\<forall>e \<in> set d'. str_at s' e (elem_str s' e)) \<and> distinct (map (elem_str s') d') \<and>
    elem_str s' ` set d' = elem_str s ` set d \<union> dec_int ` set vs"
  using assms
proof (induction vs arbitrary: d s)
  case Nil
  then show ?case by (intro exI [of _ d] exI [of _ s]) (simp add: grows_refl)
next
  case (Cons v vs)
  have v: "long_range v" using Cons.prems(3) by simp
  obtain a s1 where s1: "createStringObjectFromLongLong v s = Some (a, s1)" "srv_ok (add_mset a (mset d + R)) s1"
    "str_at s1 a (dec_int v)" "grows {} s s1"
    by (rule create_number [OF Cons.prems(1) v])
  have d1: "str_at s1 e (elem_str s e)" "elem_str s1 e = elem_str s e" if "e \<in> set d" for e
    using grows_str [OF s1(4) Cons.prems(1)] grows_elem_str [OF s1(4) Cons.prems(1)] Cons.prems(4) that by auto
  have img: "elem_str s1 ` set d = elem_str s ` set d" "map (elem_str s1) d = map (elem_str s) d"
    using d1(2) by auto
  have "find_obj s1 d a = Some (find (\<lambda>e. dec_int v = elem_str s1 e) d)"
    by (rule find_obj_ok [OF s1(3)]) (use d1 in simp)
  also have "find (\<lambda>e. dec_int v = elem_str s1 e) d = None"
    using Cons.prems(5) unfolding find_member img(1) by simp
  finally have f: "find_obj s1 d a = Some None" .
  have ok1: "srv_ok (mset (a # d) + R) s1" using s1(2) by simp
  have a1: "elem_str s1 a = dec_int v" using s1(3) by (rule str_at_elem)
  have "\<forall>w \<in> set vs. dec_int w \<noteq> dec_int v" using Cons.prems(2,3) dec_int_inject by auto
  then have "\<forall>w \<in> set vs. dec_int w \<notin> elem_str s1 ` set (a # d)" using Cons.prems(5) img(1) a1 by auto
  moreover have "distinct (map (elem_str s1) (a # d))"
    using Cons.prems(5,6) unfolding list.map img(2) a1 by auto
  moreover have "\<forall>e \<in> set (a # d). str_at s1 e (elem_str s1 e)" using d1 s1(3) a1 by auto
  ultimately obtain d' s' where r: "convert_loop (map EInt vs) (a # d) s1 = Some (d', s')" "srv_ok (mset d' + R) s'" "grows {} s1 s'"
    "\<forall>e \<in> set d'. str_at s' e (elem_str s' e)" "distinct (map (elem_str s') d')"
    "elem_str s' ` set d' = elem_str s1 ` set (a # d) \<union> dec_int ` set vs"
    using Cons.IH [OF ok1] Cons.prems(2,3) by auto
  have "convert_loop (map EInt (v # vs)) d s = Some (d', s')" using s1(1) f r(1) by simp
  with r grows_trans [OF s1(4) r(3)] img(1) a1 show ?case by auto
qed

lemma same_valD: "same_val ob ob' \<Longrightarrow> otype ob' = otype ob \<and> encoding ob' = encoding ob \<and> ptr ob' = ptr ob"
  by (simp add: same_val_def)

lemma set_obj_ht:
  assumes "otype ob = REDIS_SET" "encoding ob = REDIS_ENCODING_HT" "ptr ob = DictSet es"
    and "\<And>e. e \<in> set es \<Longrightarrow> elem_str s e = f e" "distinct (map f es)" "S = f ` set es"
  shows "set_obj s ob S"
proof -
  have "map (elem_str s) es = map f es" "elem_str s ` set es = f ` set es" using assms(4) by auto
  with assms(5,6) have "distinct (map (elem_str s) es)" "S = elem_str s ` set es" by metis+
  with assms(1-3) show ?thesis by (simp add: set_obj_def)
qed

lemma set_obj_grows:
  assumes "srv_ok R s" "grows A s s'" "heap s a = Some ob" "set_obj s ob S" "same_val ob ob'"
    and "\<And>e. e \<in> set (elems ob) \<Longrightarrow> e \<notin> A"
  shows "set_obj s' ob' S"
  using assms(4)
proof (cases rule: set_obj_cases)
  case (intset i)
  with same_valD [OF assms(5)] show ?thesis by (simp add: set_obj_def)
next
  case (ht es)
  have "elem_str s' e = elem_str s e" if "e \<in> set es" for e
    using grows_elem_str [OF assms(2,1) set_elem_str [OF assms(1,3)]] assms(6) ht(6) that by simp
  then show ?thesis using ht same_valD [OF assms(5)] by (intro set_obj_ht [where f = "elem_str s"]) simp_all
qed

lemma convert_rule:
  assumes ok: "srv_ok R s" and a: "heap s a = Some ob" "set_obj s ob S" "encoding ob = REDIS_ENCODING_INTSET"
  obtains s' ob' where "setTypeConvert a s = Some s'" "srv_ok R s'" "grows {a} s s'"
    "heap s' a = Some ob'" "set_obj s' ob' S" "encoding ob' = REDIS_ENCODING_HT"
proof -
  from a(2,3) obtain i where i: "otype ob = REDIS_SET" "ptr ob = Is i" "S = dec_int ` set (intset_elems i)"
    by (cases rule: set_obj_cases) auto
  have inv: "intset_inv i" using srv_okD(4) [OF ok a(1)] i(2) by (simp add: obj_ok_def)
  have "distinct (intset_elems i)" using intset_elems_sorted [OF inv] by (auto simp: strict_sorted_iff)
  moreover have "\<forall>v \<in> set (intset_elems i). long_range v" using intset_elems_range [OF inv] by blast
  ultimately obtain d s1 where c: "convert_loop (map EInt (intset_elems i)) [] s = Some (d, s1)" "srv_ok (mset d + R) s1" "grows {} s s1"
    "\<forall>e \<in> set d. str_at s1 e (elem_str s1 e)" "distinct (map (elem_str s1) d)" "elem_str s1 ` set d = S"
    using convert_loop_ok [of "[]" R s "intset_elems i"] ok i(3) by auto
  obtain ob1 where ob1: "heap s1 a = Some ob1" "same_val ob ob1" by (rule grows_obj [OF c(3) ok a(1)]) simp
  let ?ob' = "ob1\<lparr>encoding := REDIS_ENCODING_HT, ptr := DictSet d\<rparr>"
  let ?s' = "s1\<lparr>heap := (heap s1)(a \<mapsto> ?ob')\<rparr>"
  have ty: "otype ob1 = REDIS_SET" "encoding ob1 = REDIS_ENCODING_INTSET" "ptr ob1 = Is i" using same_valD [OF ob1(2)] i a(3) by simp_all
  then have el: "elems ?ob' = d" "elems ob1 = []" by (simp_all add: elems_def owned_def freeSetObject_def)
  have "obj_ok ?ob'" using srv_okD(4) [OF c(2) ob1(1)] ty by (simp add: obj_ok_def owned_def freeSetObject_def)
  then have ok': "srv_ok R ?s'"
    using c(4) ty el by (intro container_rule [OF c(2) ob1(1)]) (auto simp: str_at_def str_ok_def)
  have na: "a \<notin> set d" using c(4) ob1(1) ty(1) by (auto simp: str_at_def str_ok_def)
  then have "elem_str ?s' e = elem_str s1 e" if "e \<in> set d" for e using that by (auto simp: elem_str_def)
  then have so: "set_obj ?s' ?ob' S" using c(5) c(6) [symmetric] ty(1) by (intro set_obj_ht [where f = "elem_str s1"]) simp_all
  have "setTypeConvert a s = Some ?s'"
    using a i(1,2) set_elements_intset [OF a(1,3) i(2) inv] c(1) ob1(1) by (simp add: setTypeConvert_def obj_def upd_obj_def)
  moreover have "grows {a} s1 ?s'" by (simp add: grows_def option.rel_refl)
  then have "grows {a} s ?s'" by (rule grows_trans [OF grows_mono [OF c(3)], rotated]) simp
  ultimately show thesis using ok' so by (intro that [of ?s' ?ob']) simp_all
qed

section \<open>Adding, removing\<close>

lemma set_not_string: "set_at s a S \<Longrightarrow> str_at s v x \<Longrightarrow> v \<noteq> a"
  by (auto simp: set_at_def set_obj_def str_at_def str_ok_def)

lemma dictAdd_rule:
  assumes ok: "srv_ok R s" and a: "heap s a = Some ob" "set_obj s ob S" "encoding ob = REDIS_ENCODING_HT" and v: "str_at s v x"
  obtains (present) "x \<in> S" "set_dictAdd a v s = Some (False, s)"
  | (new) s1 s' where "x \<notin> S" "set_dictAdd a v s = Some (True, s1)" "incrRefCount v s1 = Some s'" "srv_ok R s'"
      "set_at s' a (insert x S)" "grows {a} s s'"
proof -
  from a(2,3) obtain es where es: "otype ob = REDIS_SET" "ptr ob = DictSet es" "S = elem_str s ` set es"
    "distinct (map (elem_str s) es)" "elems ob = es" by (cases rule: set_obj_cases) auto
  have f: "find_obj s es v = Some (find (\<lambda>e. x = elem_str s e) es)"
    by (rule find_obj_ok [OF v]) (use set_elem_str [OF ok a(1)] es(5) in simp)
  show thesis
  proof (cases "x \<in> S")
    case True
    then have "find (\<lambda>e. x = elem_str s e) es \<noteq> None" by (simp add: find_member es(3) del: not_None_eq)
    with f a(1) es(2) have "set_dictAdd a v s = Some (False, s)" by (simp add: set_dictAdd_def obj_def del: not_None_eq)
    with True show thesis by (rule present)
  next
    case False
    then have n: "find (\<lambda>e. x = elem_str s e) es = None" by (simp add: find_member es(3))
    from v obtain ov where ov: "heap s v = Some ov" "str_ok ov" "str_val ov = x" by (auto simp: str_at_def)
    have va: "v \<noteq> a" using ov a(1) es(1) by (auto simp: str_ok_def)
    let ?ob' = "ob\<lparr>ptr := DictSet (v # es)\<rparr>" and ?ov = "ov\<lparr>refcount := refcount ov + 1\<rparr>"
    let ?s1 = "s\<lparr>heap := (heap s)(a \<mapsto> ?ob')\<rparr>" and ?s0 = "s\<lparr>heap := (heap s)(v \<mapsto> ?ov)\<rparr>"
    let ?s' = "s\<lparr>heap := (heap s)(v \<mapsto> ?ov, a \<mapsto> ?ob')\<rparr>"
    have "set_dictAdd a v s = Some (True, ?s1)" using f n a(1) es(2) by (simp add: set_dictAdd_def obj_def upd_obj_def)
    moreover have "incrRefCount v ?s1 = Some ?s'" using ov(1) va by (simp add: incrRefCount_def upd_obj_def fun_upd_twist)
    moreover have "srv_ok R ?s'"
    proof -
      have ok0: "srv_ok (add_mset v R) ?s0" by (rule incrRefCount_rule(2) [OF ok ov(1)])
      have "obj_ok ?ob'" using srv_okD(4) [OF ok a(1)] es a(3) by (simp add: obj_ok_def owned_def freeSetObject_def)
      moreover have "elems ?ob' = v # es" using es(1) a(3) by (simp add: elems_def owned_def freeSetObject_def)
      ultimately have "srv_ok R (?s0\<lparr>heap := (heap ?s0)(a \<mapsto> ?ob')\<rparr>)"
        using a(1) va es ov by (intro container_rule [OF ok0, of a ob]) (auto simp: str_ok_def)
      then show ?thesis by simp
    qed
    moreover have g: "grows {a} s ?s'" using ov(1) by (auto simp: grows_def option.rel_refl)
    moreover have "set_at ?s' a (insert x S)"
    proof -
      have "elem_str ?s' e = elem_str s e" if "e \<in> set (v # es)" for e
      proof -
        have "str_at s e (elem_str s e)" using that v set_elem_str [OF ok a(1), of e] es(5) str_at_elem by auto
        then show ?thesis using a(1) es(1) ov by (auto simp: elem_str_def str_at_def str_ok_def str_val_def)
      qed
      moreover have "distinct (map (elem_str s) (v # es))" using es(3,4) False str_at_elem [OF v] by auto
      moreover have "insert x S = elem_str s ` set (v # es)" using es(3) str_at_elem [OF v] by simp
      ultimately have "set_obj ?s' ?ob' (insert x S)"
        using es(1) a(3) by (intro set_obj_ht [where f = "elem_str s" and es = "v # es"]) simp_all
      then show ?thesis by (simp add: set_at_def)
    qed
    ultimately show thesis using False by (intro new)
  qed
qed

definition set_room :: "string set \<Rightarrow> bool" where
  "set_room S \<longleftrightarrow> card S < 2 ^ 28"

lemma intset_card:
  assumes "intset_inv i"
  shows "card (dec_int ` set (intset_elems i)) = is_length i"
proof -
  have "inj_on dec_int (set (intset_elems i))"
    using intset_elems_range [OF assms] by (auto simp: inj_on_def dec_int_inject)
  then show ?thesis using intset.size_ok [OF assms] by (simp add: card_image intsetLen_def)
qed

lemma set_room_intset:
  assumes "intset_inv i" "set_room (dec_int ` set (intset_elems i))"
  shows "intset_room i w"
proof -
  have "is_length i + 1 \<le> 2 ^ 28" using assms intset_card [OF assms(1)] by (simp add: set_room_def)
  moreover have "is_encoding i \<in> {2, 4, 8}" by (rule intset_repD(1) [OF assms(1) [unfolded intset_inv_def]])
  then have "max (is_encoding i) (intsetValueEncoding w) \<le> 8" using valueEncoding_cases [of w] by auto
  ultimately have "(is_length i + 1) * max (is_encoding i) (intsetValueEncoding w) \<le> 2 ^ 28 * 8" by (rule mult_le_mono)
  moreover have "2 ^ 28 * 8 < (2 :: nat) ^ 32" by simp
  ultimately show ?thesis unfolding intset_room_def by (rule order.strict_trans1)
qed

lemma intset_put_rule:
  assumes ok: "srv_ok R s" and a: "heap s a = Some ob" "otype ob = REDIS_SET" "encoding ob = REDIS_ENCODING_INTSET" "ptr ob = Is i"
    and i: "intset_inv i'"
  shows "srv_ok R (s\<lparr>heap := (heap s)(a \<mapsto> ob\<lparr>ptr := Is i'\<rparr>)\<rparr>)"
    "set_obj (s\<lparr>heap := (heap s)(a \<mapsto> ob\<lparr>ptr := Is i'\<rparr>)\<rparr>) (ob\<lparr>ptr := Is i'\<rparr>) (dec_int ` set (intset_elems i'))"
proof -
  have "obj_ok (ob\<lparr>ptr := Is i'\<rparr>)"
    using srv_okD(4) [OF ok a(1)] a i by (simp add: obj_ok_def owned_def freeSetObject_def)
  moreover have "elems (ob\<lparr>ptr := Is i'\<rparr>) = elems ob" using a by (simp add: elems_def owned_def freeSetObject_def)
  ultimately show "srv_ok R (s\<lparr>heap := (heap s)(a \<mapsto> ob\<lparr>ptr := Is i'\<rparr>)\<rparr>)"
    using a(2) by (intro container_rule [OF ok a(1)]) simp_all
  show "set_obj (s\<lparr>heap := (heap s)(a \<mapsto> ob\<lparr>ptr := Is i'\<rparr>)\<rparr>) (ob\<lparr>ptr := Is i'\<rparr>) (dec_int ` set (intset_elems i'))"
    using a by (simp add: set_obj_def)
qed

lemma setTypeAdd_rule:
  assumes ok: "srv_ok R s" and a: "set_at s a S" and v: "str_at s v x" and room: "set_room S"
  obtains s' where "setTypeAdd a v s = Some (x \<notin> S, s')" "srv_ok R s'" "set_at s' a (insert x S)" "grows {a} s s'"
proof -
  from a obtain ob where ob: "heap s a = Some ob" "set_obj s ob S" by (auto simp: set_at_def)
  show thesis
  proof (cases "encoding ob = REDIS_ENCODING_HT")
    case True
    show thesis
    proof (cases rule: dictAdd_rule [OF ok ob True v])
      case 1
      with True ob(1) a grows_refl ok show thesis
        by (intro that [of s]) (simp_all add: setTypeAdd_def obj_def insert_absorb)
    next
      case new: (2 s1 s')
      with True ob(1) show thesis by (intro that [of s']) (simp_all add: setTypeAdd_def obj_def)
    qed
  next
    case False
    with ob(2) obtain i where i: "otype ob = REDIS_SET" "encoding ob = REDIS_ENCODING_INTSET" "ptr ob = Is i"
      "S = dec_int ` set (intset_elems i)" by (cases rule: set_obj_cases) auto
    have inv: "intset_inv i" using srv_okD(4) [OF ok ob(1)] i(3) by (simp add: obj_ok_def)
    show thesis
    proof (cases "string2l x")
      case None
      then have nx: "x \<notin> S" by (simp add: i(4) intset_member [OF inv])
      obtain s1 ob1 where c: "setTypeConvert a s = Some s1" "srv_ok R s1" "grows {a} s s1"
        "heap s1 a = Some ob1" "set_obj s1 ob1 S" "encoding ob1 = REDIS_ENCODING_HT"
        by (rule convert_rule [OF ok ob i(2)])
      have v1: "str_at s1 v x" by (rule grows_str [OF c(3) ok v]) (use set_not_string [OF a v] in simp)
      show thesis
      proof (cases rule: dictAdd_rule [OF c(2,4,5,6) v1])
        case 1
        with nx show thesis by simp
      next
        case new: (2 s2 s')
        with c nx None representable [OF v] ob(1) i(2) grows_trans [OF c(3) new(6)] show thesis
          by (intro that [of s']) (simp_all add: setTypeAdd_def obj_def)
      qed
    next
      case (Some w)
      then have w: "int64 w" "x = dec_int w" by (simp_all add: string2l_iff int64_long)
      have mem: "x \<in> S \<longleftrightarrow> w \<in> set (intset_elems i)" using Some by (simp add: i(4) intset_member [OF inv])
      have "intset_room i w" by (rule set_room_intset [OF inv]) (use room i(4) in simp)
      from intset.add_ok [OF inv w(1) this] obtain i' where
        i': "intsetAdd i w = Some (i', x \<notin> S)" "intset_inv i'" "set (intset_elems i') = insert w (set (intset_elems i))"
        using mem by auto
      let ?ob' = "ob\<lparr>ptr := Is i'\<rparr>" and ?s1 = "s\<lparr>heap := (heap s)(a \<mapsto> ob\<lparr>ptr := Is i'\<rparr>)\<rparr>"
      have S': "dec_int ` set (intset_elems i') = insert x S" using i'(3) w(2) i(4) by simp
      note s1 = intset_put_rule [OF ok ob(1) i(1-3) i'(2)]
      have g1: "grows {a} s ?s1" by (simp add: grows_def option.rel_refl)
      show thesis
      proof (cases "x \<notin> S \<and> intsetLen i' > set_max_intset_entries ?s1")
        case False
        then have "setTypeAdd a v s = Some (x \<notin> S, ?s1)"
          using ob(1) i(2,3) representable [OF v] Some i'(1) by (auto simp: setTypeAdd_def obj_def upd_obj_def)
        with s1 g1 S' show thesis by (intro that [of ?s1]) (auto simp: set_at_def)
      next
        case True
        have h1: "heap ?s1 a = Some ?ob'" "encoding ?ob' = REDIS_ENCODING_INTSET" using i(2) by simp_all
        obtain s2 ob2 where c: "setTypeConvert a ?s1 = Some s2" "srv_ok R s2" "grows {a} ?s1 s2"
          "heap s2 a = Some ob2" "set_obj s2 ob2 (insert x S)"
          by (rule convert_rule [OF s1(1) h1(1) s1(2) h1(2)]) (simp add: S')
        then have "setTypeAdd a v s = Some (x \<notin> S, s2)"
          using ob(1) i(2,3) representable [OF v] Some i'(1) True by (simp add: setTypeAdd_def obj_def upd_obj_def)
        with c grows_trans [OF g1 c(3)] show thesis by (intro that [of s2]) (auto simp: set_at_def)
      qed
    qed
  qed
qed

text \<open>Objects may go, but what stays stands for what it stood for, apart from \<open>a\<close>.\<close>

definition shrinks :: "addr \<Rightarrow> server \<Rightarrow> server \<Rightarrow> bool" where
  "shrinks a s s' \<longleftrightarrow> s' = s\<lparr>heap := heap s'\<rparr> \<and> heap_le ((heap s')(a := None)) (heap s)"

lemma shrinks_str:
  assumes "shrinks a s s'" "srv_ok R s'" "v \<in># R" "str_at s v x" "v \<noteq> a"
  shows "str_at s' v x"
proof -
  obtain R' where "R = add_mset v R'" using assms(3) by (metis multi_member_split)
  then obtain ob' where ob': "heap s' v = Some ob'" using held_live [of v R' s'] assms(2) by metis
  have le: "heap_le ((heap s')(a := None)) (heap s)" using assms(1) by (simp add: shrinks_def)
  obtain ob where "heap s v = Some ob" "same_val ob ob'"
    by (rule heap_leD [OF le, of v ob']) (use assms(5) ob' in simp_all)
  with assms(4) ob' same_val_number show ?thesis by (auto simp: str_at_def)
qed

lemma decrRefCount_string:
  assumes "heap s e = Some oe" "str_ok oe" "1 \<le> refcount oe"
  shows "decrRefCount e s = Some (s\<lparr>heap := (heap s)(e := if refcount oe = 1 then None
           else Some (oe\<lparr>refcount := refcount oe - 1\<rparr>))\<rparr>)"
proof -
  have "owned oe = Some []" using assms(2) by (simp add: owned_def freeStringObject_def str_ok_def)
  with assms show ?thesis by (simp add: decrRefCount_def obj_def upd_obj_def zfree_def)
qed

lemma dictDelete_rule:
  assumes ok: "srv_ok R s" and a: "heap s a = Some ob" "set_obj s ob S" "encoding ob = REDIS_ENCODING_HT" "ptr ob = DictSet es"
    and e: "e \<in> set es" "elem_str s e = x"
  obtains s1 s' where "upd_obj a (\<lambda>ob. ob\<lparr>ptr := DictSet (remove1 e es)\<rparr>) s = Some s1" "decrRefCount e s1 = Some s'"
    "srv_ok R s'" "set_at s' a (S - {x})" "shrinks a s s'"
proof -
  from a(2,3,4) have es: "otype ob = REDIS_SET" "S = elem_str s ` set es" "distinct (map (elem_str s) es)" "elems ob = es"
    by (cases rule: set_obj_cases; simp)+
  let ?ob' = "ob\<lparr>ptr := DictSet (remove1 e es)\<rparr>" and ?s1 = "s\<lparr>heap := (heap s)(a \<mapsto> ob\<lparr>ptr := DictSet (remove1 e es)\<rparr>)\<rparr>"
  have el: "elems ?ob' = remove1 e es" using es(1) a(3) by (simp add: elems_def owned_def freeSetObject_def)
  have "obj_ok ?ob'" using srv_okD(4) [OF ok a(1)] es a(3) by (simp add: obj_ok_def owned_def freeSetObject_def)
  moreover have "mset (elems ?ob') + add_mset e R = mset (elems ob) + R" using e(1) es(4) unfolding el by simp
  ultimately have ok1: "srv_ok (add_mset e R) ?s1"
    using es el notin_set_remove1 by (intro container_rule [OF ok a(1)]) auto
  obtain h where h: "decrRefCount e ?s1 = Some (?s1\<lparr>heap := h\<rparr>)" "srv_ok R (?s1\<lparr>heap := h\<rparr>)" "heap_le h (heap ?s1)"
    using decrRefCount_rule [OF ok1] by blast
  let ?s' = "s\<lparr>heap := h\<rparr>"
  have ok': "srv_ok R ?s'" using h(2) by simp
  have na: "a \<notin> set es" using set_elem_str [OF ok a(1), of a] es(1,4) a(1) by (auto simp: str_at_def str_ok_def)
  obtain oe where oe: "heap s e = Some oe" "str_ok oe" "1 \<le> refcount oe"
    by (rule container_live [OF ok _ a(1), of e]) (use e(1) es(4) in simp)
  have "e \<noteq> a" using e(1) na by auto
  then have "decrRefCount e ?s1 = Some (?s1\<lparr>heap := (heap ?s1)(e := if refcount oe = 1 then None
      else Some (oe\<lparr>refcount := refcount oe - 1\<rparr>))\<rparr>)"
    using oe by (intro decrRefCount_string) simp_all
  with h(1) have "h = (heap ?s1)(e := if refcount oe = 1 then None else Some (oe\<lparr>refcount := refcount oe - 1\<rparr>))"
    using heap_update_inject [where s = ?s1] by simp
  with \<open>e \<noteq> a\<close> have "h a \<noteq> None" by simp
  then obtain oa where oa: "h a = Some oa" "same_val ?ob' oa" using heap_leD [OF h(3), of a] by auto
  have "elem_str ?s' f = elem_str s f" if f: "f \<in> set (remove1 e es)" for f
  proof -
    have "f \<in> set (elems oa)" using f el same_valD [OF oa(2)] owned_cong [of oa ?ob'] by (simp add: elems_def)
    from container_live [OF ok' this, of a] oa(1) obtain oe where oe: "h f = Some oe" by auto
    have "f \<in> set es" using f notin_set_remove1 by fastforce
    with na have "f \<noteq> a" by auto
    with heap_leD [OF h(3) oe] obtain oe0 where "heap s f = Some oe0" "same_val oe0 oe" by auto
    with oe show ?thesis by (auto simp: elem_str_def str_val_def same_val_def)
  qed
  moreover have "distinct es" "inj_on (elem_str s) (set es)" using es(3) by (simp_all add: distinct_map)
  then have "distinct (map (elem_str s) (remove1 e es))" "S - {x} = elem_str s ` set (remove1 e es)"
    using e es(2) by (auto simp: distinct_map inj_on_def)
  ultimately have "set_obj ?s' oa (S - {x})"
    using es(1) a(3) same_valD [OF oa(2)] by (intro set_obj_ht [where f = "elem_str s" and es = "remove1 e es"]) simp_all
  with oa(1) have "set_at ?s' a (S - {x})" by (simp add: set_at_def)
  moreover have "heap_le (h(a := None)) (heap s)"
    unfolding heap_le_def using h(3) by (auto simp: heap_le_def split: if_splits)
  then have "shrinks a s ?s'" by (simp add: shrinks_def)
  ultimately show thesis using h(1) ok' a(1) by (intro that [of ?s1 ?s']) (simp_all add: upd_obj_def)
qed

lemma setTypeRemove_rule:
  assumes ok: "srv_ok R s" and a: "set_at s a S" and v: "str_at s v x"
  obtains s' where "setTypeRemove a v s = Some (x \<in> S, s')" "srv_ok R s'" "set_at s' a (S - {x})" "shrinks a s s'"
proof -
  from a obtain ob where ob: "heap s a = Some ob" "set_obj s ob S" by (auto simp: set_at_def)
  have same: "shrinks a s s" by (simp add: shrinks_def heap_le_del)
  from ob(2) show thesis
  proof (cases rule: set_obj_cases)
    case (intset i)
    have inv: "intset_inv i" using srv_okD(4) [OF ok ob(1)] intset(3) by (simp add: obj_ok_def)
    show thesis
    proof (cases "string2l x")
      case None
      then have "x \<notin> S" by (simp add: intset(4) intset_member [OF inv])
      with None ob(1) intset representable [OF v] a ok same show thesis
        by (intro that [of s]) (simp_all add: setTypeRemove_def obj_def)
    next
      case (Some w)
      then have w: "int64 w" "x = dec_int w" by (simp_all add: string2l_iff int64_long)
      have mem: "x \<in> S \<longleftrightarrow> w \<in> set (intset_elems i)" using Some by (simp add: intset(4) intset_member [OF inv])
      from intset.remove_ok [OF inv w(1)] obtain i' where
        i': "intsetRemove i w = Some (i', x \<in> S)" "intset_inv i'" "set (intset_elems i') = set (intset_elems i) - {w}"
        using mem by auto
      have "dec_int u = dec_int w \<longleftrightarrow> u = w" if "u \<in> set (intset_elems i)" for u
        using intset_elems_range [OF inv that] w(1) int64_long dec_int_inject by simp
      then have S': "dec_int ` set (intset_elems i') = S - {x}" using i'(3) w(2) intset(4) by auto
      let ?s1 = "s\<lparr>heap := (heap s)(a \<mapsto> ob\<lparr>ptr := Is i'\<rparr>)\<rparr>"
      note s1 = intset_put_rule [OF ok ob(1) intset(1-3) i'(2)]
      have "setTypeRemove a v s = Some (x \<in> S, ?s1)"
        using ob(1) intset(2,3) representable [OF v] Some i'(1) by (simp add: setTypeRemove_def obj_def upd_obj_def)
      moreover have "heap_le ((heap s)(a := None)) (heap s)" by (rule heap_le_del)
      then have "shrinks a s ?s1" by (simp add: shrinks_def)
      ultimately show thesis using s1 S' by (intro that [of ?s1]) (auto simp: set_at_def)
    qed
  next
    case (ht es)
    have f: "find_obj s es v = Some (find (\<lambda>e. x = elem_str s e) es)"
      by (rule find_obj_ok [OF v]) (use set_elem_str [OF ok ob(1)] ht(6) in simp)
    show thesis
    proof (cases "find (\<lambda>e. x = elem_str s e) es")
      case None
      then have "x \<notin> S" using find_member [of x "elem_str s" es] ht(4) by simp
      with None f ob(1) ht(2,3) a ok same show thesis by (intro that [of s]) (simp_all add: setTypeRemove_def obj_def)
    next
      case (Some e)
      then have e: "e \<in> set es" "elem_str s e = x" by (auto simp: find_Some_iff)
      then have "x \<in> S" using ht(4) by auto
      obtain s1 s' where r: "upd_obj a (\<lambda>ob. ob\<lparr>ptr := DictSet (remove1 e es)\<rparr>) s = Some s1" "decrRefCount e s1 = Some s'"
        "srv_ok R s'" "set_at s' a (S - {x})" "shrinks a s s'"
        by (rule dictDelete_rule [OF ok ob ht(2,3) e])
      then show thesis using f Some ob(1) ht(2,3) \<open>x \<in> S\<close> by (intro that [of s']) (simp_all add: setTypeRemove_def obj_def)
    qed
  qed
qed


section \<open>The set type as an abstract set of strings\<close>

text \<open>
  What the commands rely on: a state with an invariant and a set of strings, arguments that
  stand for strings, and three operations that act on the set and keep the arguments.
\<close>

locale string_set =
  fixes inv :: "'s \<Rightarrow> bool"
    and val :: "'s \<Rightarrow> string set"
    and arg_is :: "'s \<Rightarrow> addr \<Rightarrow> string \<Rightarrow> bool"
    and room :: "string set \<Rightarrow> bool"
    and add :: "addr \<Rightarrow> 's \<Rightarrow> (bool \<times> 's) option"
    and remove :: "addr \<Rightarrow> 's \<Rightarrow> (bool \<times> 's) option"
    and member :: "'s \<Rightarrow> addr \<Rightarrow> bool option"
  assumes add_ok: "inv s \<Longrightarrow> arg_is s v x \<Longrightarrow> room (val s) \<Longrightarrow>
      \<exists>s'. add v s = Some (x \<notin> val s, s') \<and> inv s' \<and> val s' = insert x (val s) \<and> (\<forall>w y. arg_is s w y \<longrightarrow> arg_is s' w y)"
    and remove_ok: "inv s \<Longrightarrow> arg_is s v x \<Longrightarrow>
      \<exists>s'. remove v s = Some (x \<in> val s, s') \<and> inv s' \<and> val s' = val s - {x} \<and> (\<forall>w y. arg_is s w y \<longrightarrow> arg_is s' w y)"
    and member_ok: "inv s \<Longrightarrow> arg_is s v x \<Longrightarrow> member s v = Some (x \<in> val s)"
begin

lemma member_after_add:
  assumes "inv s" "arg_is s v x" "room (val s)" "arg_is s w y"
  shows "\<exists>s'. add v s = Some (x \<notin> val s, s') \<and> inv s' \<and> member s' w = Some (y = x \<or> y \<in> val s)"
  using add_ok [OF assms(1-3)] assms(4) member_ok by fastforce

lemma member_after_remove:
  assumes "inv s" "arg_is s v x" "arg_is s w y"
  shows "\<exists>s'. remove v s = Some (x \<in> val s, s') \<and> inv s' \<and> member s' w = Some (y \<noteq> x \<and> y \<in> val s)"
  using remove_ok [OF assms(1,2)] assms(3) member_ok by fastforce

lemma remove_undoes_add:
  assumes "inv s" "arg_is s v x" "room (val s)" "x \<notin> val s"
  shows "\<exists>s' s''. add v s = Some (True, s') \<and> remove v s' = Some (True, s'') \<and> inv s'' \<and> val s'' = val s"
proof -
  from add_ok [OF assms(1-3)] assms(4) obtain s' where s': "add v s = Some (True, s')" "inv s'" "val s' = insert x (val s)" "arg_is s' v x"
    using assms(2) by auto
  from remove_ok [OF s'(2,4)] s' assms(4) show ?thesis by auto
qed

end

definition set_val :: "server \<Rightarrow> addr \<Rightarrow> string set" where
  "set_val s a = (case heap s a of
     None \<Rightarrow> {}
   | Some ob \<Rightarrow> (case ptr ob of Is i \<Rightarrow> dec_int ` set (intset_elems i) | DictSet es \<Rightarrow> elem_str s ` set es | _ \<Rightarrow> {}))"

lemma set_at_val: "set_at s a S \<Longrightarrow> set_val s a = S"
  by (auto simp: set_at_def set_val_def elim!: set_obj_cases)

interpretation set_type: string_set
  "\<lambda>s. srv_ok R s \<and> set_at s a (set_val s a)" "\<lambda>s. set_val s a" "\<lambda>s v x. v \<in># R \<and> str_at s v x" set_room
  "setTypeAdd a" "setTypeRemove a" "\<lambda>s v. setTypeIsMember s a v"
  for R a
proof
  fix s v x assume inv: "srv_ok R s \<and> set_at s a (set_val s a)" and arg: "v \<in># R \<and> str_at s v x"
  show "setTypeIsMember s a v = Some (x \<in> set_val s a)" using isMember_ok inv arg by blast
  show "\<exists>s'. setTypeAdd a v s = Some (x \<notin> set_val s a, s') \<and> (srv_ok R s' \<and> set_at s' a (set_val s' a)) \<and>
      set_val s' a = insert x (set_val s a) \<and> (\<forall>w y. w \<in># R \<and> str_at s w y \<longrightarrow> w \<in># R \<and> str_at s' w y)"
    if room: "set_room (set_val s a)"
  proof -
    obtain s' where s': "setTypeAdd a v s = Some (x \<notin> set_val s a, s')" "srv_ok R s'" "set_at s' a (insert x (set_val s a))" "grows {a} s s'"
      using setTypeAdd_rule [of R s a "set_val s a" v x] inv arg room by blast
    have "str_at s' w y" if "str_at s w y" for w y
      by (rule grows_str [OF s'(4) _ that]) (use inv set_not_string [of s a "set_val s a" w y] that in auto)
    with s' set_at_val [OF s'(3)] show ?thesis by simp
  qed
  show "\<exists>s'. setTypeRemove a v s = Some (x \<in> set_val s a, s') \<and> (srv_ok R s' \<and> set_at s' a (set_val s' a)) \<and>
      set_val s' a = set_val s a - {x} \<and> (\<forall>w y. w \<in># R \<and> str_at s w y \<longrightarrow> w \<in># R \<and> str_at s' w y)"
  proof -
    obtain s' where s': "setTypeRemove a v s = Some (x \<in> set_val s a, s')" "srv_ok R s'" "set_at s' a (set_val s a - {x})" "shrinks a s s'"
      using setTypeRemove_rule [of R s a "set_val s a" v x] inv arg by blast
    have "str_at s' w y" if "w \<in># R" "str_at s w y" for w y
      by (rule shrinks_str [OF s'(4,2) that]) (use inv set_not_string [of s a "set_val s a" w y] that in auto)
    with s' set_at_val [OF s'(3)] show ?thesis by simp
  qed
qed

section \<open>An example\<close>

text \<open>An empty intset at 10000, the arguments \<open>7\<close> and \<open>x\<close>.\<close>

definition empty_intset :: robj where
  "empty_intset = \<lparr>otype = REDIS_SET, encoding = REDIS_ENCODING_INTSET, refcount = 1, vers = 0, ptr = Is intsetNew\<rparr>"

definition set_args :: server where
  "set_args = with_obj (one_string ''x'' 0) (with_obj (one_string ''7'' 0) (with_obj empty_intset initServer))"

lemma set_args_ok: "srv_ok {#10002, 10001, 10000#} set_args" "set_at set_args 10000 {}"
  "str_at set_args 10001 ''7''" "str_at set_args 10002 ''x''"
proof -
  have "obj_ok empty_intset" "elems empty_intset = []" "refcount empty_intset = 1"
    using intset.invar_empty by (simp_all add: empty_intset_def obj_ok_def owned_def freeSetObject_def elems_def)
  from new_obj_rule [OF srv_ok_init this] have "srv_ok {#10000#} (with_obj empty_intset initServer)"
    by (simp add: with_obj_def new_obj_def)
  from with_obj_ok [OF with_obj_ok [OF this], where x = "''x''"] show "srv_ok {#10002, 10001, 10000#} set_args"
    by (simp add: set_args_def)
  show "set_at set_args 10000 {}"
    using intset.elems_empty by (simp add: set_at_def set_args_def set_obj_def empty_intset_def)
  show "str_at set_args 10001 ''7''" "str_at set_args 10002 ''x''"
    by (simp_all add: set_args_def str_at_def) (simp_all add: one_string_def str_ok_def str_val_def)
qed


section \<open>Properties\<close>



text \<open>C30. Removing from a set refines removal from a set of strings, in both encodings: the call
  reports whether the string was there, the set then stands for the other strings, a later
  membership test agrees, and the reference the set held is given up without a fault.\<close>

theorem set_remove_refines:
  assumes "srv_ok R s" "set_at s a S" "v \<in># R" "str_at s v x" "w \<in># R" "str_at s w y"
  shows "\<exists>s'. setTypeRemove a v s = Some (x \<in> S, s') \<and> srv_ok R s' \<and> set_at s' a (S - {x}) \<and>
    setTypeIsMember s' a w = Some (y \<noteq> x \<and> y \<in> S)"
proof -
  have S: "set_val s a = S" by (rule set_at_val [OF assms(2)])
  from set_type.remove_ok [of R s a v x] assms S obtain s' where
    s': "setTypeRemove a v s = Some (x \<in> S, s')" "srv_ok R s'" "set_at s' a (S - {x})" "str_at s' w y" by auto
  with set_type.member_ok [of R s' a w y] assms(5) set_at_val [OF s'(3)] show ?thesis by auto
qed

theorem set_remove_refines_witness:
  "\<exists>s1 s2. setTypeAdd 10000 10002 set_args = Some (True, s1) \<and> setTypeRemove 10000 10002 s1 = Some (True, s2) \<and>
     set_at s2 10000 {} \<and> setTypeIsMember s2 10000 10001 = Some False"
proof -
  obtain s1 where s1: "setTypeAdd 10000 10002 set_args = Some (''x'' \<notin> {}, s1)" "srv_ok {#10002, 10001, 10000#} s1"
    "set_at s1 10000 (insert ''x'' {})" "grows {10000} set_args s1"
    by (rule setTypeAdd_rule [OF set_args_ok(1,2,4)]) (simp_all add: set_room_def)
  have a: "str_at s1 10001 ''7''" "str_at s1 10002 ''x''"
    by (rule grows_str [OF s1(4) set_args_ok(1)], rule set_args_ok, simp)+
  from set_remove_refines [OF s1(2,3) _ a(2) _ a(1)] s1(1) show ?thesis by auto
qed

end
