(* ===== verification/List_Rules.thy ===== *)
theory List_Rules
  imports T_List Set_Rules
begin

text \<open>
  The list type refines sequences of strings: whatever its encoding, and across the conversion
  from a ziplist to a linked list, pushing and popping act on the sequence of strings that the
  entries stand for.
\<close>

section \<open>The strings of a list\<close>

definition list_obj :: "server \<Rightarrow> robj \<Rightarrow> string list \<Rightarrow> bool" where
  "list_obj s ob xs \<longleftrightarrow> otype ob = REDIS_LIST \<and>
     (case ptr ob of
        Ziplist zl \<Rightarrow> encoding ob = REDIS_ENCODING_ZIPLIST \<and> xs = map zl_val zl \<and> list_all zl_ok zl
      | Linked as \<Rightarrow> encoding ob = REDIS_ENCODING_LINKEDLIST \<and> xs = map (elem_str s) as
      | _ \<Rightarrow> False)"

definition list_at :: "server \<Rightarrow> addr \<Rightarrow> string list \<Rightarrow> bool" where
  "list_at s a xs \<longleftrightarrow> (\<exists>ob. heap s a = Some ob \<and> list_obj s ob xs)"

lemma list_obj_cases:
  assumes "list_obj s ob xs"
  obtains (ziplist) zl where "otype ob = REDIS_LIST" "encoding ob = REDIS_ENCODING_ZIPLIST" "ptr ob = Ziplist zl"
      "xs = map zl_val zl" "list_all zl_ok zl" "elems ob = []"
  | (linked) as where "otype ob = REDIS_LIST" "encoding ob = REDIS_ENCODING_LINKEDLIST" "ptr ob = Linked as"
      "xs = map (elem_str s) as" "elems ob = as"
  using assms by (cases "ptr ob") (auto simp: list_obj_def elems_def owned_def freeListObject_def)

lemma list_obj_linked:
  assumes "otype ob = REDIS_LIST" "encoding ob = REDIS_ENCODING_LINKEDLIST" "ptr ob = Linked as"
    and "\<And>e. e \<in> set as \<Longrightarrow> elem_str s e = f e" "xs = map f as"
  shows "list_obj s ob xs"
proof -
  have "map (elem_str s) as = map f as" using assms(4) by simp
  with assms(5) have "xs = map (elem_str s) as" by metis
  with assms(1-3) show ?thesis by (simp add: list_obj_def)
qed

lemma list_not_string: "list_at s a xs \<Longrightarrow> str_at s v x \<Longrightarrow> v \<noteq> a"
  by (auto simp: list_at_def list_obj_def str_at_def str_ok_def)

lemma list_elem_strings:
  assumes "srv_ok R s" "heap s a = Some ob" "list_obj s ob xs" "e \<in> set (elems ob)"
  shows "str_at s e (elem_str s e)" "e \<noteq> a"
  using set_elem_str [OF assms(1,2,4)] assms(2,3) by (auto simp: list_obj_def str_at_def str_ok_def)


section \<open>Objects made from entries\<close>

lemma zl_object_rule:
  assumes ok: "srv_ok R s" and e: "zl_ok e"
  obtains b s' where "zl_object e s = Some (b, s')" "srv_ok (add_mset b R) s'" "str_at s' b (zl_val e)" "grows {} s s'"
proof (cases e)
  case (ZStr x)
  let ?s' = "with_obj (one_string x 0) s"
  have "createStringObject x s = (brk s, ?s')"
    by (simp add: createStringObject_def createObject_def with_obj_def one_string_def new_obj_def)
  moreover have "grows {} s ?s'" by (auto simp: grows_def with_obj_def new_obj_def option.rel_refl)
  ultimately show thesis
    using with_obj_ok [OF ok] ZStr
    by (intro that [of "brk s" ?s']) (simp_all add: zl_object_def zl_val_def str_at_def, simp add: one_string_def str_ok_def str_val_def)
next
  case (ZInt v)
  then have "long_range v" using e by (simp add: zl_ok_def)
  then obtain b s' where "createStringObjectFromLongLong v s = Some (b, s')" "srv_ok (add_mset b R) s'"
    "str_at s' b (dec_int v)" "grows {} s s'" by (rule create_number [OF ok])
  with ZInt show thesis by (intro that [of b s']) (simp_all add: zl_object_def zl_val_def)
qed

lemma list_convert_loop_ok:
  assumes "srv_ok (mset l + R) s" "list_all zl_ok zl" "\<forall>e \<in> set l. str_at s e (elem_str s e)"
  shows "\<exists>l' s'. list_convert_loop zl l s = Some (l', s') \<and> srv_ok (mset l' + R) s' \<and> grows {} s s' \<and>
    (\<forall>e \<in> set l'. str_at s' e (elem_str s' e)) \<and> map (elem_str s') l' = map (elem_str s) l @ map zl_val zl"
  using assms
proof (induction zl arbitrary: l s)
  case Nil
  then show ?case by (simp add: grows_refl)
next
  case (Cons e zl)
  obtain b s1 where s1: "zl_object e s = Some (b, s1)" "srv_ok (add_mset b (mset l + R)) s1" "str_at s1 b (zl_val e)" "grows {} s s1"
    using zl_object_rule [OF Cons.prems(1), of e] Cons.prems(2) by auto
  have l1: "str_at s1 f (elem_str s f)" "elem_str s1 f = elem_str s f" if "f \<in> set l" for f
    using grows_str [OF s1(4) Cons.prems(1)] grows_elem_str [OF s1(4) Cons.prems(1)] Cons.prems(3) that by auto
  then have m: "map (elem_str s1) l = map (elem_str s) l" by simp
  have "srv_ok (mset (l @ [b]) + R) s1" using s1(2) by simp
  moreover have "\<forall>f \<in> set (l @ [b]). str_at s1 f (elem_str s1 f)" using l1 s1(3) str_at_elem [OF s1(3)] by auto
  ultimately obtain l' s' where r: "list_convert_loop zl (l @ [b]) s1 = Some (l', s')" "srv_ok (mset l' + R) s'" "grows {} s1 s'"
    "\<forall>f \<in> set l'. str_at s' f (elem_str s' f)" "map (elem_str s') l' = map (elem_str s1) (l @ [b]) @ map zl_val zl"
    using Cons.IH [of "l @ [b]" s1] Cons.prems(2) by auto
  have "map (elem_str s') l' = map (elem_str s) l @ map zl_val (e # zl)"
    unfolding r(5) using m str_at_elem [OF s1(3)] by simp
  moreover have "list_convert_loop (e # zl) l s = Some (l', s')" using s1(1) r(1) by simp
  ultimately show ?case using r grows_trans [OF s1(4) r(3)] by blast
qed

lemma list_convert_rule:
  assumes ok: "srv_ok R s" and a: "heap s a = Some ob" "list_obj s ob xs" "encoding ob = REDIS_ENCODING_ZIPLIST"
  obtains s' ob' where "listTypeConvert a s = Some s'" "srv_ok R s'" "grows {a} s s'"
    "heap s' a = Some ob'" "list_obj s' ob' xs" "encoding ob' = REDIS_ENCODING_LINKEDLIST"
proof -
  from a(2,3) obtain zl where zl: "otype ob = REDIS_LIST" "ptr ob = Ziplist zl" "xs = map zl_val zl" "list_all zl_ok zl"
    by (cases rule: list_obj_cases) auto
  obtain l s1 where c: "list_convert_loop zl [] s = Some (l, s1)" "srv_ok (mset l + R) s1" "grows {} s s1"
    "\<forall>e \<in> set l. str_at s1 e (elem_str s1 e)" "map (elem_str s1) l = xs"
    using list_convert_loop_ok [of "[]" R s zl] ok zl(3,4) by auto
  obtain ob1 where ob1: "heap s1 a = Some ob1" "same_val ob ob1" by (rule grows_obj [OF c(3) ok a(1)]) simp
  let ?ob' = "ob1\<lparr>encoding := REDIS_ENCODING_LINKEDLIST, ptr := Linked l\<rparr>"
  let ?s' = "s1\<lparr>heap := (heap s1)(a \<mapsto> ?ob')\<rparr>"
  have ty: "otype ob1 = REDIS_LIST" "encoding ob1 = REDIS_ENCODING_ZIPLIST" "ptr ob1 = Ziplist zl"
    using same_valD [OF ob1(2)] zl a(3) by simp_all
  then have el: "elems ?ob' = l" "elems ob1 = []" by (simp_all add: elems_def owned_def freeListObject_def)
  have "obj_ok ?ob'" using srv_okD(4) [OF c(2) ob1(1)] ty by (simp add: obj_ok_def owned_def freeListObject_def)
  then have ok': "srv_ok R ?s'"
    using c(4) ty el by (intro container_rule [OF c(2) ob1(1)]) (auto simp: str_at_def str_ok_def)
  have "a \<notin> set l" using c(4) ob1(1) ty(1) by (auto simp: str_at_def str_ok_def)
  then have "elem_str ?s' e = elem_str s1 e" if "e \<in> set l" for e using that by (auto simp: elem_str_def)
  then have lo: "list_obj ?s' ?ob' xs" using c(5) [symmetric] ty(1) by (intro list_obj_linked [where f = "elem_str s1"]) simp_all
  have "listTypeConvert a s = Some ?s'"
    using a(1,3) zl c(1) ob1(1) by (simp add: listTypeConvert_def obj_def upd_obj_def)
  moreover have "grows {a} s1 ?s'" by (simp add: grows_def option.rel_refl)
  then have "grows {a} s ?s'" by (rule grows_trans [OF grows_mono [OF c(3)], rotated]) simp
  ultimately show thesis using ok' lo by (intro that [of ?s' ?ob']) simp_all
qed

section \<open>Borrowing an object\<close>

text \<open>Giving back a reference to an object that is still held, or that is newer than \<open>s\<close>.\<close>

lemma release_rule:
  assumes ok: "srv_ok (add_mset w R) s2" and w: "str_at s2 w x" "w \<in># R \<or> brk s \<le> w" and g: "grows A s s2"
  obtains s3 where "decrRefCount w s2 = Some s3" "srv_ok R s3" "grows A s s3" "\<forall>e. e \<noteq> w \<longrightarrow> heap s3 e = heap s2 e"
proof -
  from w(1) obtain ow where ow: "heap s2 w = Some ow" "str_ok ow" by (auto simp: str_at_def)
  have "1 \<le> refcount ow" using held_live [OF ok] ow(1) by force
  note d = decrRefCount_string [OF ow this]
  let ?s3 = "s2\<lparr>heap := (heap s2)(w := if refcount ow = 1 then None else Some (ow\<lparr>refcount := refcount ow - 1\<rparr>))\<rparr>"
  from decrRefCount_rule [OF ok] d have ok3: "srv_ok R ?s3" by auto
  have "rel_option same_val (heap s e) (heap ?s3 e)" if e: "e < brk s" "e \<notin> A" for e
  proof (cases "e = w")
    case True
    with w(2) e(1) have "w \<in># R" by auto
    then obtain R' where "R = add_mset w R'" by (metis multi_member_split)
    then have "heap ?s3 w \<noteq> None" using held_live [of w R' ?s3] ok3 by (metis option.distinct(1))
    then have "heap ?s3 w = Some (ow\<lparr>refcount := refcount ow - 1\<rparr>)" by (auto split: if_splits)
    moreover have "rel_option same_val (heap s w) (Some ow)" using g e ow(1) True by (auto simp: grows_def)
    ultimately show ?thesis using True by (auto simp: option_rel_Some2)
  next
    case False
    with g e show ?thesis by (simp add: grows_def)
  qed
  moreover have "?s3 = s\<lparr>heap := heap ?s3, brk := brk ?s3\<rparr>" "brk s \<le> brk ?s3"
    using g unfolding grows_def by (cases s; cases s2; simp)+
  ultimately have "grows A s ?s3" unfolding grows_def by blast
  with d ok3 show thesis by (intro that [of ?s3]) simp_all
qed

lemma decode_rule:
  assumes ok: "srv_ok R s" and v: "str_at s v x" "v \<in># R"
  obtains w s1 where "getDecodedObject v s = Some (w, s1)" "srv_ok (add_mset w R) s1" "sds_of s1 w = Some x" "str_at s1 w x"
    "grows {} s s1" "w \<in># R \<or> brk s \<le> w"
proof -
  from v(1) obtain ov where ov: "heap s v = Some ov" "str_ok ov" "str_val ov = x" by (auto simp: str_at_def)
  from ov(2) show thesis
  proof (cases rule: str_ok_cases)
    case (raw y)
    let ?s1 = "s\<lparr>heap := (heap s)(v \<mapsto> ov\<lparr>refcount := refcount ov + 1\<rparr>)\<rparr>"
    have "grows {} s ?s1" using ov(1) by (auto simp: grows_def option.rel_refl same_val_def)
    with raw ov v(2) incrRefCount_rule [OF ok ov(1)] show thesis
      by (intro that [of v ?s1]) (simp_all add: getDecodedObject_def obj_def sds_of_def str_at_def str_ok_def str_val_def)
  next
    case (int u)
    let ?s1 = "with_obj (one_string x 0) s"
    have "createStringObject x s = (brk s, ?s1)"
      by (simp add: createStringObject_def createObject_def with_obj_def one_string_def new_obj_def)
    moreover have "grows {} s ?s1" by (auto simp: grows_def with_obj_def new_obj_def option.rel_refl)
    ultimately show thesis
      using int ov with_obj_ok [OF ok, of x 0] ll_chars_ok [OF int(4), of 32]
      by (intro that [of "brk s" ?s1])
        (simp_all add: getDecodedObject_def obj_def sds_of_def str_at_def, simp_all add: one_string_def str_ok_def str_val_def)
  qed
qed


section \<open>Push\<close>

lemma push_ziplist:
  assumes ok: "srv_ok R s" and a: "heap s a = Some ob" "list_obj s ob xs" "encoding ob = REDIS_ENCODING_ZIPLIST" "ptr ob = Ziplist zl"
    and v: "str_at s v x" "v \<in># R"
  shows "\<exists>s'. do {
         (w, s3) \<leftarrow> getDecodedObject v s;
         x \<leftarrow> sds_of s3 w;
         s4 \<leftarrow> upd_obj a (\<lambda>ob. ob\<lparr>ptr := Ziplist (zl_insert i x zl)\<rparr>) s3;
         decrRefCount w s4
       } = Some s' \<and> srv_ok R s' \<and> list_at s' a (take i xs @ [x] @ drop i xs) \<and> grows {a} s s'"
proof -
  from a(2,3,4) have zl: "otype ob = REDIS_LIST" "xs = map zl_val zl" "list_all zl_ok zl" "elems ob = []"
    by (cases rule: list_obj_cases; simp)+
  obtain w s1 where w: "getDecodedObject v s = Some (w, s1)" "srv_ok (add_mset w R) s1" "sds_of s1 w = Some x" "str_at s1 w x"
    "grows {} s s1" "w \<in># R \<or> brk s \<le> w" by (rule decode_rule [OF ok v])
  obtain ob1 where ob1: "heap s1 a = Some ob1" "same_val ob ob1" by (rule grows_obj [OF w(5) ok a(1)]) simp
  note sv = same_valD [OF ob1(2)]
  let ?zl = "zl_insert i x zl"
  let ?ob' = "ob1\<lparr>ptr := Ziplist ?zl\<rparr>" and ?s2 = "s1\<lparr>heap := (heap s1)(a \<mapsto> ob1\<lparr>ptr := Ziplist (zl_insert i x zl)\<rparr>)\<rparr>"
  have el: "elems ?ob' = []" "elems ob1 = []" using sv zl(1) a(3,4) by (simp_all add: elems_def owned_def freeListObject_def)
  have "obj_ok ?ob'" using srv_okD(4) [OF w(2) ob1(1)] sv zl(1) a(3) by (simp add: obj_ok_def owned_def freeListObject_def)
  then have ok2: "srv_ok (add_mset w R) ?s2"
    using sv zl(1) el by (intro container_rule [OF w(2) ob1(1)]) simp_all
  have wa: "w \<noteq> a" using w(4) ob1(1) sv zl(1) by (auto simp: str_at_def str_ok_def)
  have w2: "str_at ?s2 w x" using w(4) wa by (simp add: str_at_def)
  have "grows {a} s1 ?s2" by (simp add: grows_def option.rel_refl)
  then have g2: "grows {a} s ?s2" by (rule grows_trans [OF grows_mono [OF w(5)], rotated]) simp
  obtain s3 where s3: "decrRefCount w ?s2 = Some s3" "srv_ok R s3" "grows {a} s s3" "\<forall>e. e \<noteq> w \<longrightarrow> heap s3 e = heap ?s2 e"
    by (rule release_rule [OF ok2 w2 w(6) g2])
  have "heap s3 a = Some ?ob'" using s3(4) wa by simp
  moreover have "list_all zl_ok ?zl" "map zl_val ?zl = take i xs @ [x] @ drop i xs"
    using zl(2,3) by (auto simp: zl_insert_def list_all_iff take_map drop_map dest: in_set_takeD in_set_dropD)
  ultimately have "list_at s3 a (take i xs @ [x] @ drop i xs)" using sv zl(1) a(3) by (simp add: list_at_def list_obj_def)
  then show ?thesis using w(1,3) ob1(1) s3 by (intro exI [of _ s3]) (simp add: upd_obj_def)
qed

lemma push_linked:
  assumes ok: "srv_ok R s" and a: "heap s a = Some ob" "list_obj s ob xs" "encoding ob = REDIS_ENCODING_LINKEDLIST" "ptr ob = Linked as"
    and v: "str_at s v x"
  shows "\<exists>s'. do {
         s3 \<leftarrow> upd_obj a (\<lambda>ob. ob\<lparr>ptr := Linked (if head then v # as else as @ [v])\<rparr>) s;
         incrRefCount v s3
       } = Some s' \<and> srv_ok R s' \<and> list_at s' a (if head then x # xs else xs @ [x]) \<and> grows {a} s s'"
proof -
  from a(2,3,4) have li: "otype ob = REDIS_LIST" "xs = map (elem_str s) as" "elems ob = as"
    by (cases rule: list_obj_cases; simp)+
  from v obtain ov where ov: "heap s v = Some ov" "str_ok ov" "str_val ov = x" by (auto simp: str_at_def)
  have va: "v \<noteq> a" using ov a(1) li(1) by (auto simp: str_ok_def)
  let ?as = "if head then v # as else as @ [v]"
  let ?ob' = "ob\<lparr>ptr := Linked ?as\<rparr>" and ?ov = "ov\<lparr>refcount := refcount ov + 1\<rparr>"
  let ?s0 = "s\<lparr>heap := (heap s)(v \<mapsto> ?ov)\<rparr>" and ?s' = "s\<lparr>heap := (heap s)(v \<mapsto> ?ov, a \<mapsto> ?ob')\<rparr>"
  have ok0: "srv_ok (add_mset v R) ?s0" by (rule incrRefCount_rule(2) [OF ok ov(1)])
  have el: "elems ?ob' = ?as" using li(1) a(3) by (simp add: elems_def owned_def freeListObject_def)
  have "obj_ok ?ob'" using srv_okD(4) [OF ok a(1)] li a(3) by (simp add: obj_ok_def owned_def freeListObject_def)
  then have "srv_ok R (?s0\<lparr>heap := (heap ?s0)(a \<mapsto> ?ob')\<rparr>)"
    using a(1) va li ov el by (intro container_rule [OF ok0, of a ob]) (auto simp: str_ok_def split: if_splits)
  then have "srv_ok R ?s'" by simp
  moreover have "grows {a} s ?s'" using ov(1) by (auto simp: grows_def option.rel_refl same_val_def)
  moreover have "elem_str ?s' e = elem_str s e" if "e \<in> set ?as" for e
  proof -
    have "str_at s e (elem_str s e)" using that v set_elem_str [OF ok a(1), of e] li(3) str_at_elem by (auto split: if_splits)
    then show ?thesis using a(1) li(1) ov by (auto simp: elem_str_def str_at_def str_ok_def str_val_def)
  qed
  then have "list_obj ?s' ?ob' (if head then x # xs else xs @ [x])"
    using li(1,2) a(3) str_at_elem [OF v] by (intro list_obj_linked [where f = "elem_str s" and as = ?as]) simp_all
  then have "list_at ?s' a (if head then x # xs else xs @ [x])" by (simp add: list_at_def)
  ultimately show ?thesis
    using a(1) ov(1) va by (intro exI [of _ ?s']) (simp add: upd_obj_def incrRefCount_def fun_upd_twist)
qed

text \<open>The conversions before a push keep the list.\<close>

lemma try_conversion_rule:
  assumes ok: "srv_ok R s" and a: "list_at s a xs" and v: "str_at s v x"
  obtains s1 where "listTypeTryConversion a v s = Some s1" "srv_ok R s1" "list_at s1 a xs" "grows {a} s s1"
proof -
  from a obtain ob where ob: "heap s a = Some ob" "list_obj s ob xs" by (auto simp: list_at_def)
  from v obtain ov where ov: "heap s v = Some ov" "str_ok ov" by (auto simp: str_at_def)
  show thesis
  proof (cases "listTypeTryConversion a v s = Some s")
    case True
    then show thesis using ok a grows_refl by (intro that)
  next
    case False
    with ob(1) ov(1) have enc: "encoding ob = REDIS_ENCODING_ZIPLIST" and raw: "encoding ov = REDIS_ENCODING_RAW"
      by (auto simp: listTypeTryConversion_def obj_def split: if_splits)
    from ov(2) raw obtain y where y: "sds_of s v = Some y" using ov(1) by (cases rule: str_ok_cases) (auto simp: sds_of_def)
    with False ob(1) ov(1) enc raw have c: "listTypeTryConversion a v s = listTypeConvert a s"
      by (auto simp: listTypeTryConversion_def obj_def split: if_splits)
    obtain s1 ob1 where "listTypeConvert a s = Some s1" "srv_ok R s1" "grows {a} s s1" "heap s1 a = Some ob1" "list_obj s1 ob1 xs"
      by (rule list_convert_rule [OF ok ob enc])
    with c show thesis by (intro that [of s1]) (auto simp: list_at_def)
  qed
qed

lemma full_conversion_rule:
  assumes ok: "srv_ok R s" and a: "list_at s a xs"
  obtains s1 ob where "(do {
      ob \<leftarrow> obj s a;
      case (encoding ob, ptr ob) of
        (REDIS_ENCODING_ZIPLIST, Ziplist zl) \<Rightarrow>
          if length zl \<ge> list_max_ziplist_entries s then listTypeConvert a s else Some s
      | _ \<Rightarrow> Some s
    }) = Some s1" "srv_ok R s1" "heap s1 a = Some ob" "list_obj s1 ob xs" "grows {a} s s1"
proof -
  from a obtain ob where ob: "heap s a = Some ob" "list_obj s ob xs" by (auto simp: list_at_def)
  from ob(2) show thesis
  proof (cases rule: list_obj_cases)
    case (linked as)
    with ob ok grows_refl show thesis by (intro that [of s ob]) (simp_all add: obj_def)
  next
    case (ziplist zl)
    show thesis
    proof (cases "length zl \<ge> list_max_ziplist_entries s")
      case False
      with ziplist ob ok grows_refl show thesis by (intro that [of s ob]) (simp_all add: obj_def)
    next
      case True
      obtain s1 ob1 where "listTypeConvert a s = Some s1" "srv_ok R s1" "grows {a} s s1" "heap s1 a = Some ob1" "list_obj s1 ob1 xs"
        by (rule list_convert_rule [OF ok ob ziplist(2)])
      with True ziplist ob(1) show thesis by (intro that [of s1 ob1]) (simp_all add: obj_def)
    qed
  qed
qed

lemma listTypePush_rule:
  assumes ok: "srv_ok R s" and a: "list_at s a xs" and v: "str_at s v x" "v \<in># R"
  obtains s' where "listTypePush a v head s = Some s'" "srv_ok R s'" "list_at s' a (if head then x # xs else xs @ [x])" "grows {a} s s'"
proof -
  obtain s1 where s1: "listTypeTryConversion a v s = Some s1" "srv_ok R s1" "list_at s1 a xs" "grows {a} s s1"
    by (rule try_conversion_rule [OF ok a v(1)])
  obtain s2 ob where c: "(do {
      ob \<leftarrow> obj s1 a;
      case (encoding ob, ptr ob) of
        (REDIS_ENCODING_ZIPLIST, Ziplist zl) \<Rightarrow>
          if length zl \<ge> list_max_ziplist_entries s1 then listTypeConvert a s1 else Some s1
      | _ \<Rightarrow> Some s1
    }) = Some s2" and s2: "srv_ok R s2" "heap s2 a = Some ob" "list_obj s2 ob xs" "grows {a} s1 s2"
    by (rule full_conversion_rule [OF s1(2,3)])
  note g2 = grows_trans [OF s1(4) s2(4)]
  have v2: "str_at s2 v x" by (rule grows_str [OF g2 ok v(1)]) (use list_not_string [OF a v(1)] in simp)
  from c obtain ob1 where ob1: "obj s1 a = Some ob1" by (auto split: bind_splits)
  from s2(3) show thesis
  proof (cases rule: list_obj_cases)
    case (ziplist zl)
    obtain s' where s': "do {
         (w, s3) \<leftarrow> getDecodedObject v s2;
         x \<leftarrow> sds_of s3 w;
         s4 \<leftarrow> upd_obj a (\<lambda>ob. ob\<lparr>ptr := Ziplist (zl_insert (if head then 0 else length zl) x zl)\<rparr>) s3;
         decrRefCount w s4
       } = Some s'" "srv_ok R s'" "grows {a} s2 s'"
      "list_at s' a (take (if head then 0 else length zl) xs @ [x] @ drop (if head then 0 else length zl) xs)"
      using push_ziplist [OF s2(1,2,3) ziplist(2,3) v2 v(2)] by blast
    have "length zl = length xs" using ziplist(4) by simp
    with s'(4) have "list_at s' a (if head then x # xs else xs @ [x])" by (cases head) simp_all
    moreover have "listTypePush a v head s = Some s'"
      using s1(1) c ob1 s2(2) ziplist(2,3) s'(1) by (simp add: listTypePush_def obj_def)
    ultimately show thesis using s' grows_trans [OF g2 s'(3)] by (intro that [of s'])
  next
    case (linked as)
    obtain s' where s': "do {
         s3 \<leftarrow> upd_obj a (\<lambda>ob. ob\<lparr>ptr := Linked (if head then v # as else as @ [v])\<rparr>) s2;
         incrRefCount v s3
       } = Some s'" "srv_ok R s'" "list_at s' a (if head then x # xs else xs @ [x])" "grows {a} s2 s'"
      using push_linked [OF s2(1,2,3) linked(2,3) v2] by blast
    have "listTypePush a v head s = Some s'"
      using s1(1) c ob1 s2(2) linked(2,3) s'(1) by (simp add: listTypePush_def obj_def)
    then show thesis using s' grows_trans [OF g2 s'(4)] by (intro that [of s'])
  qed
qed

section \<open>Pop\<close>

definition end_of :: "bool \<Rightarrow> 'a list \<Rightarrow> 'a" where
  "end_of head xs = (if head then hd xs else last xs)"

definition without_end :: "bool \<Rightarrow> 'a list \<Rightarrow> 'a list" where
  "without_end head xs = (if head then tl xs else butlast xs)"

lemma end_of_map: "xs \<noteq> [] \<Longrightarrow> end_of head (map f xs) = f (end_of head xs)"
  by (simp add: end_of_def hd_map last_map)

lemma without_end_map: "without_end head (map f xs) = map f (without_end head xs)"
  by (simp add: without_end_def map_tl map_butlast)

lemma end_of_in: "xs \<noteq> [] \<Longrightarrow> end_of head xs \<in> set xs"
  by (simp add: end_of_def)

lemma set_without_end: "e \<in> set (without_end head xs) \<Longrightarrow> e \<in> set xs"
  by (auto simp: without_end_def dest: in_set_butlastD list.set_sel(2) split: if_splits) (metis list.sel(2) list.set_sel(2))

lemma mset_without_end: "xs \<noteq> [] \<Longrightarrow> mset xs = add_mset (end_of head xs) (mset (without_end head xs))"
proof (cases head)
  case True
  assume "xs \<noteq> []"
  with True show ?thesis by (cases xs) (simp_all add: end_of_def without_end_def)
next
  case False
  assume "xs \<noteq> []"
  then have "mset xs = mset (butlast xs @ [last xs])" by simp
  with False show ?thesis by (simp add: end_of_def without_end_def)
qed

lemma zl_delete_end: "zl \<noteq> [] \<Longrightarrow> zl_delete (if head then 0 else length zl - 1) zl = without_end head zl"
  "zl \<noteq> [] \<Longrightarrow> zl ! (if head then 0 else length zl - 1) = end_of head zl"
  by (simp_all add: zl_delete_def without_end_def end_of_def butlast_conv_take drop_Suc hd_conv_nth last_conv_nth)

lemma pop_ziplist:
  assumes ok: "srv_ok R s" and a: "heap s a = Some ob" "list_obj s ob xs" "encoding ob = REDIS_ENCODING_ZIPLIST" "xs \<noteq> []"
  obtains b s' where "listTypePop a head s = Some (Some b, s')" "srv_ok (add_mset b R) s'" "str_at s' b (end_of head xs)"
    "list_at s' a (without_end head xs)" "grows {a} s s'"
proof -
  from a(2,3) obtain zl where zl: "otype ob = REDIS_LIST" "ptr ob = Ziplist zl" "xs = map zl_val zl" "list_all zl_ok zl"
    by (cases rule: list_obj_cases) auto
  have ne: "zl \<noteq> []" using a(4) zl(3) by simp
  have "zl_ok (end_of head zl)" using zl(4) end_of_in [OF ne] by (auto simp: list_all_iff)
  then obtain b s1 where b: "zl_object (end_of head zl) s = Some (b, s1)" "srv_ok (add_mset b R) s1"
    "str_at s1 b (zl_val (end_of head zl))" "grows {} s s1"
    by (rule zl_object_rule [OF ok])
  obtain ob1 where ob1: "heap s1 a = Some ob1" "same_val ob ob1" by (rule grows_obj [OF b(4) ok a(1)]) simp
  note sv = same_valD [OF ob1(2)]
  let ?ob' = "ob1\<lparr>ptr := Ziplist (without_end head zl)\<rparr>"
  let ?s' = "s1\<lparr>heap := (heap s1)(a \<mapsto> ?ob')\<rparr>"
  have el: "elems ?ob' = []" "elems ob1 = []" using sv zl(1,2) a(3) by (simp_all add: elems_def owned_def freeListObject_def)
  have "obj_ok ?ob'" using srv_okD(4) [OF b(2) ob1(1)] sv zl(1) a(3) by (simp add: obj_ok_def owned_def freeListObject_def)
  then have "srv_ok (add_mset b R) ?s'" using sv zl(1) el by (intro container_rule [OF b(2) ob1(1)]) simp_all
  moreover have "b \<noteq> a" using b(3) ob1(1) sv zl(1) by (auto simp: str_at_def str_ok_def)
  then have "str_at ?s' b (end_of head xs)" using b(3) zl(3) end_of_map [OF ne, of head zl_val] by (simp add: str_at_def)
  moreover have "list_all zl_ok (without_end head zl)" using zl(4) by (auto simp: list_all_iff dest: set_without_end)
  then have "list_at ?s' a (without_end head xs)"
    using sv zl(1,3) a(3) by (simp add: list_at_def list_obj_def without_end_map)
  moreover have "grows {a} s1 ?s'" by (simp add: grows_def option.rel_refl)
  then have "grows {a} s ?s'" by (rule grows_trans [OF grows_mono [OF b(4)], rotated]) simp
  moreover have "listTypePop a head s = Some (Some b, ?s')"
    using a(1,3) zl(2) ne b(1) ob1(1) zl_delete_end [OF ne] by (simp add: listTypePop_def obj_def upd_obj_def Let_def)
  ultimately show thesis by (intro that [of b ?s'])
qed

lemma pop_linked:
  assumes ok: "srv_ok R s" and a: "heap s a = Some ob" "list_obj s ob xs" "encoding ob = REDIS_ENCODING_LINKEDLIST" "xs \<noteq> []"
  obtains b s' where "listTypePop a head s = Some (Some b, s')" "srv_ok (add_mset b R) s'" "str_at s' b (end_of head xs)"
    "list_at s' a (without_end head xs)" "grows {a} s s'"
proof -
  from a(2,3) obtain as where li: "otype ob = REDIS_LIST" "ptr ob = Linked as" "xs = map (elem_str s) as" "elems ob = as"
    by (cases rule: list_obj_cases) auto
  have ne: "as \<noteq> []" using a(4) li(3) by simp
  define b where "b = end_of head as"
  have bin: "b \<in> set (elems ob)" unfolding b_def li(4) by (rule end_of_in [OF ne])
  note b = list_elem_strings [OF ok a(1,2) bin]
  from b(1) obtain oe where oe: "heap s b = Some oe" by (auto simp: str_at_def)
  let ?s1 = "s\<lparr>heap := (heap s)(b \<mapsto> oe\<lparr>refcount := refcount oe + 1\<rparr>)\<rparr>"
  have s1: "incrRefCount b s = Some ?s1" "srv_ok (add_mset b R) ?s1" using incrRefCount_rule [OF ok oe] by simp_all
  let ?ob' = "ob\<lparr>ptr := Linked (without_end head as)\<rparr>"
  let ?s2 = "?s1\<lparr>heap := (heap ?s1)(a \<mapsto> ?ob')\<rparr>"
  have el: "elems ?ob' = without_end head as" using li(1) a(3) by (simp add: elems_def owned_def freeListObject_def)
  have "obj_ok ?ob'" using srv_okD(4) [OF ok a(1)] li(1) a(3) by (simp add: obj_ok_def owned_def freeListObject_def)
  moreover have "mset (elems ?ob') + add_mset b (add_mset b R) = mset (elems ob) + add_mset b R"
    using mset_without_end [OF ne, of head] unfolding el li(4) by (simp add: b_def)
  ultimately have ok2: "srv_ok (add_mset b (add_mset b R)) ?s2"
    using a(1) b(2) li(1,4) el by (intro container_rule [OF s1(2), of a ob]) (auto dest: set_without_end)
  have b2: "str_at ?s2 b (elem_str s b)"
    using b oe by (auto simp: str_at_def str_val_def)
  have "grows {a} s ?s2" using oe by (auto simp: grows_def option.rel_refl same_val_def)
  then obtain s3 where s3: "decrRefCount b ?s2 = Some s3" "srv_ok (add_mset b R) s3" "grows {a} s s3" "\<forall>e. e \<noteq> b \<longrightarrow> heap s3 e = heap ?s2 e"
    using release_rule [OF ok2 b2, of s "{a}"] by (metis union_single_eq_member)
  have "heap s3 a = Some ?ob'" using s3(4) b(2) by simp
  moreover have "elem_str s3 e = elem_str s e" if "e \<in> set (without_end head as)" for e
    using list_elem_strings [OF ok a(1,2), of e] grows_elem_str [OF s3(3) ok] set_without_end [OF that] li(4) by auto
  then have "list_obj s3 ?ob' (without_end head xs)"
    using li(1,3) a(3) by (intro list_obj_linked [where f = "elem_str s" and as = "without_end head as"]) (simp_all add: without_end_map)
  ultimately have "list_at s3 a (without_end head xs)" by (simp add: list_at_def)
  moreover have "str_at s3 b (end_of head xs)"
    using grows_str [OF s3(3) ok b(1)] b(2) li(3) end_of_map [OF ne, of head "elem_str s"] by (simp add: b_def)
  moreover have "listTypePop a head s = Some (Some b, s3)"
    using a(1,3) li(2) ne s1(1) s3(1) oe b(2)
    by (simp add: listTypePop_def obj_def upd_obj_def Let_def b_def end_of_def without_end_def split del: if_split)
  ultimately show thesis using s3(2,3) by (intro that [of b s3])
qed

lemma listTypePop_rule:
  assumes "srv_ok R s" "list_at s a xs" "xs \<noteq> []"
  obtains b s' where "listTypePop a head s = Some (Some b, s')" "srv_ok (add_mset b R) s'" "str_at s' b (end_of head xs)"
    "list_at s' a (without_end head xs)" "grows {a} s s'"
proof -
  from assms(2) obtain ob where ob: "heap s a = Some ob" "list_obj s ob xs" by (auto simp: list_at_def)
  from ob(2) have "encoding ob = REDIS_ENCODING_ZIPLIST \<or> encoding ob = REDIS_ENCODING_LINKEDLIST"
    by (cases rule: list_obj_cases) auto
  then show thesis using pop_ziplist [OF assms(1) ob _ assms(3)] pop_linked [OF assms(1) ob _ assms(3)] that by blast
qed

lemma listTypePop_empty:
  assumes "list_at s a []"
  shows "listTypePop a head s = Some (None, s)"
proof -
  from assms obtain ob where ob: "heap s a = Some ob" "list_obj s ob []" by (auto simp: list_at_def)
  from ob(2) ob(1) show ?thesis by (cases rule: list_obj_cases) (simp_all add: listTypePop_def obj_def)
qed


section \<open>The list type as an abstract sequence of strings\<close>

text \<open>
  What the commands rely on; the invariant carries the references the running code holds, and
  a pop hands one more to it.
\<close>

locale string_deque =
  fixes inv :: "addr multiset \<Rightarrow> 's \<Rightarrow> bool"
    and val :: "'s \<Rightarrow> string list"
    and arg_is :: "'s \<Rightarrow> addr \<Rightarrow> string \<Rightarrow> bool"
    and push :: "addr \<Rightarrow> bool \<Rightarrow> 's \<Rightarrow> 's option"
    and pop :: "bool \<Rightarrow> 's \<Rightarrow> (addr option \<times> 's) option"
  assumes push_ok: "inv R s \<Longrightarrow> v \<in># R \<Longrightarrow> arg_is s v x \<Longrightarrow>
      \<exists>s'. push v head s = Some s' \<and> inv R s' \<and> val s' = (if head then x # val s else val s @ [x]) \<and>
           (\<forall>w y. arg_is s w y \<longrightarrow> arg_is s' w y)"
    and pop_ok: "inv R s \<Longrightarrow> val s \<noteq> [] \<Longrightarrow>
      \<exists>b s'. pop head s = Some (Some b, s') \<and> inv (add_mset b R) s' \<and> arg_is s' b (end_of head (val s)) \<and>
             val s' = without_end head (val s) \<and> (\<forall>w y. arg_is s w y \<longrightarrow> arg_is s' w y)"
    and pop_empty: "inv R s \<Longrightarrow> val s = [] \<Longrightarrow> pop head s = Some (None, s)"
begin

text \<open>A stack: what was pushed last at an end is popped first from it.\<close>

lemma pop_undoes_push:
  assumes "inv R s" "v \<in># R" "arg_is s v x"
  shows "\<exists>s1 b s2. push v head s = Some s1 \<and> pop head s1 = Some (Some b, s2) \<and> inv (add_mset b R) s2 \<and>
    arg_is s2 b x \<and> val s2 = val s"
proof -
  from push_ok [OF assms, of head] obtain s1 where
    s1: "push v head s = Some s1" "inv R s1" "val s1 = (if head then x # val s else val s @ [x])" by blast
  then have ne: "val s1 \<noteq> []" "end_of head (val s1) = x" "without_end head (val s1) = val s"
    by (auto simp: end_of_def without_end_def)
  from pop_ok [OF s1(2) ne(1), of head] s1 ne show ?thesis by auto
qed

text \<open>A queue: pushed at the tail and popped at the head, the first comes out first.\<close>

lemma queue_order:
  assumes "inv R s" "v \<in># R" "arg_is s v x" "w \<in># R" "arg_is s w y" "val s = []"
  shows "\<exists>s1 s2 b s3 d s4. push v False s = Some s1 \<and> push w False s1 = Some s2 \<and>
    pop True s2 = Some (Some b, s3) \<and> arg_is s3 b x \<and> pop True s3 = Some (Some d, s4) \<and> arg_is s4 d y \<and> val s4 = []"
proof -
  from push_ok [OF assms(1-3), of False] assms(5,6) obtain s1 where
    s1: "push v False s = Some s1" "inv R s1" "val s1 = [x]" "arg_is s1 w y" by auto
  from push_ok [OF s1(2) assms(4) s1(4), of False] s1(3) obtain s2 where
    s2: "push w False s1 = Some s2" "inv R s2" "val s2 = [x, y]" by auto
  from pop_ok [OF s2(2), of True] s2(3) obtain b s3 where
    s3: "pop True s2 = Some (Some b, s3)" "inv (add_mset b R) s3" "arg_is s3 b x" "val s3 = [y]"
    by (auto simp: end_of_def without_end_def)
  from pop_ok [OF s3(2), of True] s3(4) obtain d s4 where
    "pop True s3 = Some (Some d, s4)" "arg_is s4 d y" "val s4 = []" by (auto simp: end_of_def without_end_def)
  with s1 s2 s3 show ?thesis by blast
qed

end

definition list_val :: "server \<Rightarrow> addr \<Rightarrow> string list" where
  "list_val s a = (case heap s a of
     None \<Rightarrow> []
   | Some ob \<Rightarrow> (case ptr ob of Ziplist zl \<Rightarrow> map zl_val zl | Linked as \<Rightarrow> map (elem_str s) as | _ \<Rightarrow> []))"

lemma list_at_val: "list_at s a xs \<Longrightarrow> list_val s a = xs"
  by (auto simp: list_at_def list_val_def elim!: list_obj_cases)

interpretation list_type: string_deque
  "\<lambda>R s. srv_ok R s \<and> list_at s a (list_val s a)" "\<lambda>s. list_val s a" str_at "listTypePush a" "listTypePop a"
  for a
proof
  fix R s assume inv: "srv_ok R s \<and> list_at s a (list_val s a)"
  have keep: "\<forall>w y. str_at s w y \<longrightarrow> str_at s' w y" if "grows {a} s s'" for s'
    using grows_str [OF that] inv list_not_string [of s a "list_val s a"] by blast
  show "\<exists>s'. listTypePush a v head s = Some s' \<and> (srv_ok R s' \<and> list_at s' a (list_val s' a)) \<and>
      list_val s' a = (if head then x # list_val s a else list_val s a @ [x]) \<and> (\<forall>w y. str_at s w y \<longrightarrow> str_at s' w y)"
    if v: "v \<in># R" "str_at s v x" for v x head
  proof -
    obtain s' where s': "listTypePush a v head s = Some s'" "srv_ok R s'"
      "list_at s' a (if head then x # list_val s a else list_val s a @ [x])" "grows {a} s s'"
      using listTypePush_rule [of R s a "list_val s a" v x head] inv v by blast
    with list_at_val [OF s'(3)] keep [OF s'(4)] show ?thesis by auto
  qed
  show "\<exists>b s'. listTypePop a head s = Some (Some b, s') \<and> (srv_ok (add_mset b R) s' \<and> list_at s' a (list_val s' a)) \<and>
      str_at s' b (end_of head (list_val s a)) \<and> list_val s' a = without_end head (list_val s a) \<and>
      (\<forall>w y. str_at s w y \<longrightarrow> str_at s' w y)"
    if ne: "list_val s a \<noteq> []" for head
  proof -
    obtain b s' where s': "listTypePop a head s = Some (Some b, s')" "srv_ok (add_mset b R) s'" "str_at s' b (end_of head (list_val s a))"
      "list_at s' a (without_end head (list_val s a))" "grows {a} s s'"
      using listTypePop_rule [of R s a "list_val s a" head] inv ne by blast
    with list_at_val [OF s'(4)] keep [OF s'(5)] show ?thesis by auto
  qed
  show "listTypePop a head s = Some (None, s)" if "list_val s a = []" for head
    using listTypePop_empty inv that by metis
qed


section \<open>An example\<close>

text \<open>An empty ziplist at 10000, the arguments \<open>7\<close> and \<open>x\<close>.\<close>

definition empty_ziplist :: robj where
  "empty_ziplist = \<lparr>otype = REDIS_LIST, encoding = REDIS_ENCODING_ZIPLIST, refcount = 1, vers = 0, ptr = Ziplist []\<rparr>"

definition list_args :: server where
  "list_args = with_obj (one_string ''x'' 0) (with_obj (one_string ''7'' 0) (with_obj empty_ziplist initServer))"

lemma list_args_ok: "srv_ok {#10002, 10001, 10000#} list_args" "list_at list_args 10000 []"
  "str_at list_args 10001 ''7''" "str_at list_args 10002 ''x''"
proof -
  have "obj_ok empty_ziplist" "elems empty_ziplist = []" "refcount empty_ziplist = 1"
    by (simp_all add: empty_ziplist_def obj_ok_def owned_def freeListObject_def elems_def)
  from new_obj_rule [OF srv_ok_init this] have "srv_ok {#10000#} (with_obj empty_ziplist initServer)"
    by (simp add: with_obj_def new_obj_def)
  from with_obj_ok [OF with_obj_ok [OF this], where x = "''x''"] show "srv_ok {#10002, 10001, 10000#} list_args"
    by (simp add: list_args_def)
  show "list_at list_args 10000 []" by (simp add: list_at_def list_args_def list_obj_def empty_ziplist_def)
  show "str_at list_args 10001 ''7''" "str_at list_args 10002 ''x''"
    by (simp_all add: list_args_def str_at_def) (simp_all add: one_string_def str_ok_def str_val_def)
qed


section \<open>Properties\<close>

text \<open>C31. A list is a stack at either end: whatever its encoding, and when the push converts a
  ziplist into a linked list, popping from the end a value was pushed to hands out an object
  that stands for that value, restores the sequence of strings, and the references stay
  accounted for, with one more held by the caller.\<close>

theorem list_pop_undoes_push:
  assumes "srv_ok R s" "list_at s a xs" "v \<in># R" "str_at s v x"
  shows "\<exists>s1 b s2. listTypePush a v head s = Some s1 \<and> listTypePop a head s1 = Some (Some b, s2) \<and>
    srv_ok (add_mset b R) s2 \<and> str_at s2 b x \<and> list_at s2 a xs"
  using list_type.pop_undoes_push [of R s a v x head] assms list_at_val [OF assms(2)] by auto

theorem list_pop_undoes_push_witness:
  "\<exists>s1 b s2. listTypePush 10000 10001 True list_args = Some s1 \<and> listTypePop 10000 True s1 = Some (Some b, s2) \<and>
     str_at s2 b ''7'' \<and> list_at s2 10000 []"
  using list_pop_undoes_push [OF list_args_ok(1,2) _ list_args_ok(3), of True] by auto

text \<open>A list is a queue: two values pushed at the tail of an empty list come out at the head
  in the order in which they went in.\<close>

theorem list_queue_order:
  assumes "srv_ok R s" "list_at s a []" "v \<in># R" "str_at s v x" "w \<in># R" "str_at s w y"
  shows "\<exists>s1 s2 b s3 d s4. listTypePush a v False s = Some s1 \<and> listTypePush a w False s1 = Some s2 \<and>
    listTypePop a True s2 = Some (Some b, s3) \<and> str_at s3 b x \<and>
    listTypePop a True s3 = Some (Some d, s4) \<and> str_at s4 d y \<and> list_val s4 a = []"
  using list_type.queue_order [of R s a v x w y] assms list_at_val [OF assms(2)] by auto

theorem list_queue_order_witness:
  "\<exists>s1 s2 b s3 d s4. listTypePush 10000 10001 False list_args = Some s1 \<and> listTypePush 10000 10002 False s1 = Some s2 \<and>
     listTypePop 10000 True s2 = Some (Some b, s3) \<and> str_at s3 b ''7'' \<and>
     listTypePop 10000 True s3 = Some (Some d, s4) \<and> str_at s4 d ''x''"
proof -
  have "10001 \<in># {#10002, 10001, 10000#}" "10002 \<in># {#10002, 10001, 10000#}" by simp_all
  with list_queue_order [OF list_args_ok(1,2) _ list_args_ok(3) _ list_args_ok(4)] show ?thesis by blast
qed

end
