(* ===== verification/Hash_Rules.thy ===== *)
theory Hash_Rules
  imports T_Hash List_Rules
begin

text \<open>
  Hashes as maps from strings to strings: setting a field in the ziplist encoding is an update
  of the map, and looking a field up, in either encoding, returns what the map has.
\<close>

section \<open>Ziplists of fields and values\<close>

fun zl_pairs :: "zlval list \<Rightarrow> (string \<times> string) list" where
  "zl_pairs (f # v # zl) = (zl_val f, zl_val v) # zl_pairs zl"
| "zl_pairs _ = []"

definition hash_zl_ok :: "zlval list \<Rightarrow> bool" where
  "hash_zl_ok zl \<longleftrightarrow> even (length zl) \<and> list_all zl_ok zl \<and> distinct (map fst (zl_pairs zl))"

lemma hash_zl_ok_step [simp]:
  "hash_zl_ok (f # v # zl) \<longleftrightarrow> zl_ok f \<and> zl_ok v \<and> hash_zl_ok zl \<and> zl_val f \<notin> fst ` set (zl_pairs zl)"
  by (auto simp: hash_zl_ok_def)

lemma hash_zl_ok_Nil [simp]: "hash_zl_ok []"
  by (simp add: hash_zl_ok_def)

lemma hash_zl_induct [consumes 1, case_names Nil Pair]:
  assumes "hash_zl_ok zl" "P []" "\<And>f v zl. zl_ok f \<Longrightarrow> zl_ok v \<Longrightarrow> hash_zl_ok zl \<Longrightarrow> zl_val f \<notin> fst ` set (zl_pairs zl) \<Longrightarrow> P zl \<Longrightarrow> P (f # v # zl)"
  shows "P zl"
  using assms(1)
proof (induction zl rule: zl_pairs.induct)
  case (1 f v zl)
  then show ?case by (intro assms(3)) auto
qed (use assms(2) in \<open>auto simp: hash_zl_ok_def\<close>)

lemma ziplistFind_step:
  "ziplistFind (Suc 0) 0 (f # v # zl) x =
     (if ziplistCompare f x then Some 0 else map_option (\<lambda>i. Suc (Suc i)) (ziplistFind (Suc 0) 0 zl x))"
  by (simp add: option.map_comp comp_def)

lemma hash_zl_set_step:
  "hash_zl_set x y (f # v # zl) =
     (if ziplistCompare f x then Some (True, f # zl_entry y # zl)
      else map_option (\<lambda>(u, zl'). (u, f # v # zl')) (hash_zl_set x y zl))"
proof (cases "ziplistFind (Suc 0) 0 zl x")
  case None
  then show ?thesis by (simp add: hash_zl_set_def ziplistFind_step zl_insert_def zl_delete_def del: ziplistFind.simps)
next
  case (Some i)
  then show ?thesis by (simp add: hash_zl_set_def ziplistFind_step zl_insert_def zl_delete_def del: ziplistFind.simps)
qed

lemma hash_zl_set_ok:
  assumes "hash_zl_ok zl"
  shows "\<exists>zl'. hash_zl_set x y zl = Some (x \<in> fst ` set (zl_pairs zl), zl') \<and> hash_zl_ok zl' \<and>
    map_of (zl_pairs zl') = (map_of (zl_pairs zl))(x \<mapsto> y) \<and> fst ` set (zl_pairs zl') = insert x (fst ` set (zl_pairs zl))"
  using assms
proof (induction rule: hash_zl_induct)
  case Nil
  then show ?case by (simp add: hash_zl_set_def fun_eq_iff)
next
  case (Pair f v zl)
  show ?case
  proof (cases "zl_val f = x")
    case True
    with Pair show ?thesis by (auto simp: hash_zl_set_step ziplistCompare_ok)
  next
    case False
    with Pair show ?thesis by (auto simp: hash_zl_set_step ziplistCompare_ok fun_eq_iff)
  qed
qed

lemma ziplistFind_value:
  assumes "hash_zl_ok zl"
  shows "(case ziplistFind 1 0 zl x of
            None \<Rightarrow> map_of (zl_pairs zl) x = None
          | Some i \<Rightarrow> i + 1 < length zl \<and> map_of (zl_pairs zl) x = Some (zl_val (zl ! (i + 1))))"
  using assms
proof (induction rule: hash_zl_induct)
  case (Pair f v zl)
  then show ?case
    by (cases "ziplistFind (Suc 0) 0 zl x") (auto simp: ziplistFind_step ziplistCompare_ok simp del: ziplistFind.simps)
qed simp


section \<open>Looking a field up\<close>

definition hash_obj :: "server \<Rightarrow> robj \<Rightarrow> (string \<rightharpoonup> string) \<Rightarrow> bool" where
  "hash_obj s ob m \<longleftrightarrow> otype ob = REDIS_HASH \<and>
     (case ptr ob of
        Ziplist zl \<Rightarrow> encoding ob = REDIS_ENCODING_ZIPLIST \<and> hash_zl_ok zl \<and> m = map_of (zl_pairs zl)
      | DictHash kvs \<Rightarrow> encoding ob = REDIS_ENCODING_HT \<and>
          m = map_of (map (\<lambda>(k, v). (elem_str s k, elem_str s v)) kvs)
      | _ \<Rightarrow> False)"

definition hash_at :: "server \<Rightarrow> addr \<Rightarrow> (string \<rightharpoonup> string) \<Rightarrow> bool" where
  "hash_at s a m \<longleftrightarrow> (\<exists>ob. heap s a = Some ob \<and> hash_obj s ob m)"

lemma find_entry_ok:
  assumes "str_at s v x" "\<And>k e. (k, e) \<in> set kvs \<Longrightarrow> str_at s k (elem_str s k)"
  shows "find_entry s kvs v = Some (find (\<lambda>e. x = elem_str s (fst e)) kvs)"
  using assms(2)
proof (induction kvs)
  case (Cons e kvs)
  have "str_at s (fst e) (elem_str s (fst e))" using Cons.prems [of "fst e" "snd e"] by simp
  from compare_ok [OF assms(1) this] show ?case using Cons.IH Cons.prems by (auto simp: eq_commute)
qed simp

lemma find_map_of:
  "map_of (map (\<lambda>(k, v). (f k, f v)) kvs) x = map_option (\<lambda>e. f (snd e)) (find (\<lambda>e. x = f (fst e)) kvs)"
  by (induction kvs) auto

lemma get_ziplist:
  assumes ok: "srv_ok R s" and a: "heap s a = Some ob" "hash_obj s ob m" "encoding ob = REDIS_ENCODING_ZIPLIST"
    and v: "str_at s v x" "v \<in># R"
  obtains r s' where "hashTypeGetFromZiplist a v s = Some (r, s')" "srv_ok R s'" "map_option zl_val r = m x"
    "\<forall>e. r = Some e \<longrightarrow> zl_ok e" "grows {} s s'"
proof -
  from a(2,3) obtain zl where zl: "otype ob = REDIS_HASH" "ptr ob = Ziplist zl" "hash_zl_ok zl" "m = map_of (zl_pairs zl)"
    by (cases "ptr ob") (auto simp: hash_obj_def)
  obtain w s1 where w: "getDecodedObject v s = Some (w, s1)" "srv_ok (add_mset w R) s1" "sds_of s1 w = Some x" "str_at s1 w x"
    "grows {} s s1" "w \<in># R \<or> brk s \<le> w" by (rule decode_rule [OF ok v])
  obtain s2 where s2: "decrRefCount w s1 = Some s2" "srv_ok R s2" "grows {} s s2"
    by (rule release_rule [OF w(2,4,6,5)])
  define r where "r = (case ziplistFind 1 0 zl x of None \<Rightarrow> None | Some i \<Rightarrow> Some (zl ! (i + 1)))"
  have fv: "case ziplistFind 1 0 zl x of
      None \<Rightarrow> m x = None
    | Some i \<Rightarrow> i + 1 < length zl \<and> m x = Some (zl_val (zl ! (i + 1)))" using ziplistFind_value [OF zl(3)] unfolding zl(4) .
  have "hashTypeGetFromZiplist a v s = Some (r, s2)"
    using a(1,3) zl(2) w(1,3) s2(1) fv
    by (simp add: hashTypeGetFromZiplist_def obj_def r_def split: option.splits)
  moreover have "map_option zl_val r = m x" using fv by (simp add: r_def split: option.splits)
  moreover have "\<forall>e. r = Some e \<longrightarrow> zl_ok e"
    using fv zl(3) by (auto simp: r_def hash_zl_ok_def list_all_iff split: option.splits)
  ultimately show thesis using s2 by (intro that [of r s2])
qed

lemma hashTypeGet_rule:
  assumes ok: "srv_ok R s" and a: "hash_at s a m" and v: "str_at s v x" "v \<in># R"
  shows "\<exists>r s'. hashTypeGetObject a v s = Some (r, s') \<and> grows {} s s' \<and>
    (case r of None \<Rightarrow> m x = None \<and> srv_ok R s'
     | Some b \<Rightarrow> (\<exists>y. m x = Some y \<and> str_at s' b y) \<and> srv_ok (add_mset b R) s')"
proof -
  from a obtain ob where ob: "heap s a = Some ob" "hash_obj s ob m" by (auto simp: hash_at_def)
  show ?thesis
  proof (cases "encoding ob = REDIS_ENCODING_ZIPLIST")
    case True
    obtain r s1 where r: "hashTypeGetFromZiplist a v s = Some (r, s1)" "srv_ok R s1" "map_option zl_val r = m x"
      "\<forall>e. r = Some e \<longrightarrow> zl_ok e" "grows {} s s1"
      by (rule get_ziplist [OF ok ob True v])
    show ?thesis
    proof (cases r)
      case None
      with r True ob(1) show ?thesis by (simp add: hashTypeGetObject_def obj_def)
    next
      case (Some e)
      with r(4) have "zl_ok e" by simp
      then obtain b s2 where b: "zl_object e s1 = Some (b, s2)" "srv_ok (add_mset b R) s2" "str_at s2 b (zl_val e)" "grows {} s1 s2"
        by (rule zl_object_rule [OF r(2)])
      have "hashTypeGetObject a v s = Some (Some b, s2)" using True ob(1) r(1) Some b(1) by (simp add: hashTypeGetObject_def obj_def)
      moreover have "m x = Some (zl_val e)" using r(3) Some by (simp add: eq_commute)
      ultimately show ?thesis using b grows_trans [OF r(5) b(4)] by auto
    qed
  next
    case False
    with ob(2) obtain kvs where kvs: "otype ob = REDIS_HASH" "encoding ob = REDIS_ENCODING_HT" "ptr ob = DictHash kvs"
      "m = map_of (map (\<lambda>(k, v). (elem_str s k, elem_str s v)) kvs)"
      by (cases "ptr ob") (auto simp: hash_obj_def)
    have el: "k \<in> set (elems ob) \<and> e \<in> set (elems ob)" if "(k, e) \<in> set kvs" for k e
      using kvs that by (force simp: elems_def owned_def freeHashObject_def)
    have "find_entry s kvs v = Some (find (\<lambda>e. x = elem_str s (fst e)) kvs)"
      by (rule find_entry_ok [OF v(1)]) (use set_elem_str [OF ok ob(1)] el in blast)
    then have g: "hashTypeGetFromHashTable s a v = Some (map_option snd (find (\<lambda>e. x = elem_str s (fst e)) kvs))"
      using ob(1) kvs(2,3) by (simp add: hashTypeGetFromHashTable_def obj_def)
    show ?thesis
    proof (cases "find (\<lambda>e. x = elem_str s (fst e)) kvs")
      case None
      with g kvs ob(1) ok grows_refl show ?thesis
        by (intro exI [of _ None] exI [of _ s]) (simp add: hashTypeGetObject_def obj_def find_map_of)
    next
      case (Some e)
      then have "(fst e, snd e) \<in> set kvs" by (auto simp: find_Some_iff)
      with el have "snd e \<in> set (elems ob)" by blast
      from set_elem_str [OF ok ob(1) this] have e: "str_at s (snd e) (elem_str s (snd e))" .
      then obtain oe where oe: "heap s (snd e) = Some oe" by (auto simp: str_at_def)
      let ?s' = "s\<lparr>heap := (heap s)(snd e \<mapsto> oe\<lparr>refcount := refcount oe + 1\<rparr>)\<rparr>"
      note inc = incrRefCount_rule [OF ok oe]
      have gr: "grows {} s ?s'" using oe by (auto simp: grows_def option.rel_refl same_val_def)
      have "hashTypeGetObject a v s = Some (Some (snd e), ?s')"
        using g Some kvs(2) ob(1) inc(1) by (simp add: hashTypeGetObject_def obj_def)
      moreover have "m x = Some (elem_str s (snd e))" using kvs(4) Some by (simp add: find_map_of)
      moreover have "str_at ?s' (snd e) (elem_str s (snd e))" by (rule grows_str [OF gr ok e]) simp
      ultimately show ?thesis using gr inc(2) by (intro exI [of _ "Some (snd e)"] exI [of _ ?s']) simp
    qed
  qed
qed

section \<open>Properties\<close>

text \<open>C32. In a ziplist of alternating fields and values whose fields are distinct, setting a field
  updates the map from fields to values at exactly that field, reports whether the field was
  there, and keeps fields distinct, whether entries are stored as strings or as integers.\<close>

theorem hash_ziplist_set:
  assumes "hash_zl_ok zl"
  shows "\<exists>zl'. hash_zl_set x y zl = Some (x \<in> fst ` set (zl_pairs zl), zl') \<and> hash_zl_ok zl' \<and>
    map_of (zl_pairs zl') = (map_of (zl_pairs zl))(x \<mapsto> y)"
  using hash_zl_set_ok [OF assms] by blast

theorem hash_ziplist_set_witness:
  "\<exists>zl'. hash_zl_set ''a'' ''12'' [zl_entry ''a'', zl_entry ''x''] = Some (True, zl') \<and> map_of (zl_pairs zl') = [''a'' \<mapsto> ''12'']"
proof -
  have "hash_zl_ok [zl_entry ''a'', zl_entry ''x'']" by simp
  from hash_ziplist_set [OF this, of "''a''" "''12''"] show ?thesis by auto
qed

text \<open>C33. Looking a field of a hash up, in either encoding, gives nothing when the map the hash
  stands for has no value there, and otherwise an object that stands for the value and whose
  reference the caller holds. The heap keeps what every object stands for.\<close>

theorem hash_get_refines:
  assumes "srv_ok R s" "hash_at s a m" "str_at s v x" "v \<in># R"
  shows "\<exists>r s'. hashTypeGetObject a v s = Some (r, s') \<and>
    (case r of None \<Rightarrow> m x = None \<and> srv_ok R s'
     | Some b \<Rightarrow> (\<exists>y. m x = Some y \<and> str_at s' b y) \<and> srv_ok (add_mset b R) s')"
  using hashTypeGet_rule [OF assms] by blast

text \<open>A hash with the field \<open>a\<close> at 10000, and the argument \<open>a\<close>.\<close>

definition one_field :: robj where
  "one_field = \<lparr>otype = REDIS_HASH, encoding = REDIS_ENCODING_ZIPLIST, refcount = 1, vers = 0, ptr = Ziplist [ZStr ''a'', ZInt 5]\<rparr>"

theorem hash_get_refines_witness:
  "\<exists>b s'. hashTypeGetObject 10000 10001 (with_obj (one_string ''a'' 0) (with_obj one_field initServer)) = Some (Some b, s') \<and>
     str_at s' b ''5''"
proof -
  let ?s = "with_obj (one_string ''a'' 0) (with_obj one_field initServer)"
  have "obj_ok one_field" "elems one_field = []" "refcount one_field = 1"
    by (simp_all add: one_field_def obj_ok_def owned_def freeHashObject_def elems_def)
  from new_obj_rule [OF srv_ok_init this] have "srv_ok {#10000#} (with_obj one_field initServer)"
    by (simp add: with_obj_def new_obj_def)
  from with_obj_ok [OF this, where x = "''a''"] have ok: "srv_ok {#10001, 10000#} ?s" by simp
  have "zipTryEncoding ''a'' = None" by code_simp
  then have "zl_ok (ZStr ''a'')" "zl_ok (ZInt 5)" by (simp_all add: zl_ok_def long_range_def)
  moreover have "dec_int 5 = ''5''" by code_simp
  ultimately have h: "hash_at ?s 10000 [''a'' \<mapsto> ''5'']"
    by (simp add: hash_at_def hash_obj_def one_field_def zl_val_def)
  have a: "str_at ?s 10001 ''a''" by (simp add: str_at_def) (simp add: one_string_def str_ok_def str_val_def)
  from hash_get_refines [OF ok h a] show ?thesis by (auto split: option.splits)
qed

end
