(* ===== verification/Dict.thy ===== *)
theory Dict
  imports Prelude
begin

unbundle bit_operations_syntax

text \<open>
  The hash tables of redis (\<^verbatim>\<open>redis-2.8.17/src/dict.c\<close>): chained buckets in tables whose size is a
  power of two, a second table during incremental rehashing, the hash functions, and the scan
  with a reversed binary cursor. A chain is the list of its entries; the null table is the empty
  list. Sizes and counts (\<^verbatim>\<open>unsigned long\<close>) are natural numbers, the cursor of a scan a 64 bit
  word, hash values 32 bit words. \<open>None\<close> is an access outside a table or a failed assertion.
\<close>

record 'k dictType =
  hashFunction :: "'k \<Rightarrow> 32 word"
  keyCompare :: "'k \<Rightarrow> 'k \<Rightarrow> bool"

record ('k, 'v) dictht =
  ht_table :: "('k \<times> 'v) list list"
  ht_size :: nat
  ht_sizemask :: nat
  ht_used :: nat

record ('k, 'v) dictionary =
  ht0 :: "('k, 'v) dictht"
  ht1 :: "('k, 'v) dictht"
  rehashidx :: int
  iterators :: nat

definition DICT_HT_INITIAL_SIZE :: nat where
  "DICT_HT_INITIAL_SIZE = 4"

definition dict_force_resize_ratio :: nat where
  "dict_force_resize_ratio = 5"

definition dictIsRehashing :: "('k, 'v) dictionary \<Rightarrow> bool" where
  "dictIsRehashing d \<longleftrightarrow> rehashidx d \<noteq> - 1"

definition dictSize :: "('k, 'v) dictionary \<Rightarrow> nat" where
  "dictSize d = ht_used (ht0 d) + ht_used (ht1 d)"

definition dictSlots :: "('k, 'v) dictionary \<Rightarrow> nat" where
  "dictSlots d = ht_size (ht0 d) + ht_size (ht1 d)"


section \<open>Hash functions\<close>

definition dictIntHashFunction :: "32 word \<Rightarrow> 32 word" where
  "dictIntHashFunction key0 =
     (let k1 = key0 + NOT (push_bit 15 key0);
          k2 = k1 XOR drop_bit 10 k1;
          k3 = k2 + push_bit 3 k2;
          k4 = k3 XOR drop_bit 6 k3;
          k5 = k4 + NOT (push_bit 11 k4)
      in k5 XOR drop_bit 16 k5)"

text \<open>MurmurHash2, four bytes at a time in little-endian order; the seed is a global variable.\<close>

definition byte_of :: "char \<Rightarrow> 32 word" where
  "byte_of c = of_nat (of_char c)"

definition murmur_m :: "32 word" where
  "murmur_m = 0x5bd1e995"

fun murmur_loop :: "32 word \<Rightarrow> string \<Rightarrow> 32 word \<times> string" where
  "murmur_loop h (a # b # c # d # rest) =
     (let k = byte_of a OR push_bit 8 (byte_of b) OR push_bit 16 (byte_of c) OR push_bit 24 (byte_of d);
          k1 = k * murmur_m;
          k2 = k1 XOR drop_bit 24 k1;
          k3 = k2 * murmur_m
      in murmur_loop ((h * murmur_m) XOR k3) rest)"
| "murmur_loop h rest = (h, rest)"

definition murmur_tail :: "32 word \<Rightarrow> string \<Rightarrow> 32 word" where
  "murmur_tail h data =
     (case data of
        [a, b, c] \<Rightarrow> (h XOR push_bit 16 (byte_of c) XOR push_bit 8 (byte_of b) XOR byte_of a) * murmur_m
      | [a, b] \<Rightarrow> (h XOR push_bit 8 (byte_of b) XOR byte_of a) * murmur_m
      | [a] \<Rightarrow> (h XOR byte_of a) * murmur_m
      | _ \<Rightarrow> h)"

definition dictGenHashFunction :: "32 word \<Rightarrow> string \<Rightarrow> 32 word" where
  "dictGenHashFunction seed key =
     (let (h0, rest) = murmur_loop (seed XOR of_nat (length key)) key;
          h1 = murmur_tail h0 rest;
          h2 = h1 XOR drop_bit 13 h1;
          h3 = h2 * murmur_m
      in h3 XOR drop_bit 15 h3)"

primrec dictGenCaseHashFunction :: "32 word \<Rightarrow> string \<Rightarrow> 32 word" where
  "dictGenCaseHashFunction hash [] = hash"
| "dictGenCaseHashFunction hash (c # buf) =
     dictGenCaseHashFunction ((push_bit 5 hash + hash) + byte_of (tolower c)) buf"

text \<open>The keys of the databases are sds strings, compared by length and \<^verbatim>\<open>memcmp\<close>.\<close>

definition dictSdsHash :: "32 word \<Rightarrow> string \<Rightarrow> 32 word" where
  "dictSdsHash seed key = dictGenHashFunction seed key"

definition dictSdsKeyCompare :: "string \<Rightarrow> string \<Rightarrow> bool" where
  "dictSdsKeyCompare key1 key2 =
     (if length key1 \<noteq> length key2 then False else list_all2 (=) key1 key2)"

definition dbDictType :: "32 word \<Rightarrow> string dictType" where
  "dbDictType seed = \<lparr>hashFunction = dictSdsHash seed, keyCompare = dictSdsKeyCompare\<rparr>"


section \<open>Creation and resizing\<close>

definition dictReset :: "('k, 'v) dictht" where
  "dictReset = \<lparr>ht_table = [], ht_size = 0, ht_sizemask = 0, ht_used = 0\<rparr>"

definition dictCreate :: "('k, 'v) dictionary" where
  "dictCreate = \<lparr>ht0 = dictReset, ht1 = dictReset, rehashidx = - 1, iterators = 0\<rparr>"

text \<open>\<^verbatim>\<open>i *= 2\<close> wraps at 64 bits.\<close>

definition LONG_MAX :: nat where
  "LONG_MAX = 2 ^ 63 - 1"

partial_function (option) next_power_loop :: "nat \<Rightarrow> nat \<Rightarrow> nat option" where
  "next_power_loop i n = (if n \<le> i then Some i else next_power_loop (i * 2 mod 2 ^ 64) n)"

definition dictNextPower :: "nat \<Rightarrow> nat option" where
  "dictNextPower n = (if LONG_MAX \<le> n then Some LONG_MAX else next_power_loop DICT_HT_INITIAL_SIZE n)"

text \<open>
  The result of an expansion is \<^verbatim>\<open>DICT_OK\<close> or \<^verbatim>\<open>DICT_ERR\<close>. A table of more than \<open>2 ^ 60\<close> slots has
  no address space: \<^verbatim>\<open>zcalloc\<close> aborts.
\<close>

definition dictExpand :: "nat \<Rightarrow> ('k, 'v) dictionary \<Rightarrow> (bool \<times> ('k, 'v) dictionary) option" where
  "dictExpand n d = do {
     realsize \<leftarrow> dictNextPower n;
     if dictIsRehashing d \<or> ht_used (ht0 d) > n then Some (False, d)
     else if realsize > 2 ^ 60 then None
     else do {
       let t = \<lparr>ht_table = replicate realsize [], ht_size = realsize, ht_sizemask = realsize - 1, ht_used = 0\<rparr>;
       if ht_table (ht0 d) = [] then Some (True, d\<lparr>ht0 := t\<rparr>)
       else Some (True, d\<lparr>ht1 := t, rehashidx := 0\<rparr>)
     }
   }"

text \<open>\<open>can_resize\<close> is the global \<^verbatim>\<open>dict_can_resize\<close>; \<^verbatim>\<open>minimal\<close> is an \<^verbatim>\<open>int\<close>.\<close>

definition dictResize :: "bool \<Rightarrow> ('k, 'v) dictionary \<Rightarrow> (bool \<times> ('k, 'v) dictionary) option" where
  "dictResize can_resize d =
     (if \<not> can_resize \<or> dictIsRehashing d then Some (False, d)
      else let minimal = sint (of_nat (ht_used (ht0 d)) :: 32 word);
               n = if minimal < int DICT_HT_INITIAL_SIZE then int DICT_HT_INITIAL_SIZE else minimal
           in dictExpand (nat n) d)"

definition dictExpandIfNeeded :: "bool \<Rightarrow> ('k, 'v) dictionary \<Rightarrow> (bool \<times> ('k, 'v) dictionary) option" where
  "dictExpandIfNeeded can_resize d =
     (if dictIsRehashing d then Some (True, d)
      else if ht_size (ht0 d) = 0 then dictExpand DICT_HT_INITIAL_SIZE d
      else if ht_used (ht0 d) \<ge> ht_size (ht0 d) \<and>
              (can_resize \<or> ht_used (ht0 d) div ht_size (ht0 d) > dict_force_resize_ratio)
           then dictExpand (ht_used (ht0 d) * 2) d
      else Some (True, d))"


section \<open>Incremental rehashing\<close>

definition ht_index :: "'k dictType \<Rightarrow> ('k, 'v) dictht \<Rightarrow> 'k \<Rightarrow> nat" where
  "ht_index T t k = unat (hashFunction T k) AND ht_sizemask t"

definition ht_chain :: "('k, 'v) dictht \<Rightarrow> nat \<Rightarrow> ('k \<times> 'v) list option" where
  "ht_chain t i = (if i < length (ht_table t) then Some (ht_table t ! i) else None)"

definition ht_push :: "('k \<times> 'v) \<Rightarrow> nat \<Rightarrow> ('k, 'v) dictht \<Rightarrow> ('k, 'v) dictht option" where
  "ht_push e i t = do {
     c \<leftarrow> ht_chain t i;
     Some (t\<lparr>ht_table := (ht_table t)[i := e # c], ht_used := ht_used t + 1\<rparr>)
   }"

text \<open>The walk to the next non-empty bucket; running off the table is an invalid access.\<close>

function skip_empty :: "('k, 'v) dictht \<Rightarrow> nat \<Rightarrow> nat option" where
  "skip_empty t i =
     (case ht_chain t i of
        None \<Rightarrow> None
      | Some c \<Rightarrow> if c = [] then skip_empty t (i + 1) else Some i)"
  by pat_completeness auto
termination
  by (relation "measure (\<lambda>(t, i). length (ht_table t) - i)") (auto simp: ht_chain_def split: if_splits)

declare skip_empty.simps [simp del]

primrec move_chain ::
  "'k dictType \<Rightarrow> ('k \<times> 'v) list \<Rightarrow> ('k, 'v) dictht \<Rightarrow> ('k, 'v) dictht
    \<Rightarrow> (('k, 'v) dictht \<times> ('k, 'v) dictht) option" where
  "move_chain T [] t0 t1 = Some (t0, t1)"
| "move_chain T (e # es) t0 t1 = do {
     t1' \<leftarrow> ht_push e (ht_index T t1 (fst e)) t1;
     move_chain T es (t0\<lparr>ht_used := ht_used t0 - 1\<rparr>) t1'
   }"

text \<open>The result is \<open>True\<close> while there is more to move.\<close>

primrec rehash_loop :: "'k dictType \<Rightarrow> nat \<Rightarrow> ('k, 'v) dictionary \<Rightarrow> (bool \<times> ('k, 'v) dictionary) option" where
  "rehash_loop T 0 d = Some (True, d)"
| "rehash_loop T (Suc n) d =
     (if ht_used (ht0 d) = 0 then Some (False, d\<lparr>ht0 := ht1 d, ht1 := dictReset, rehashidx := - 1\<rparr>)
      else if \<not> rehashidx d < int (ht_size (ht0 d)) then None
      else do {
        i \<leftarrow> skip_empty (ht0 d) (nat (rehashidx d));
        c \<leftarrow> ht_chain (ht0 d) i;
        (t0, t1) \<leftarrow> move_chain T c (ht0 d) (ht1 d);
        rehash_loop T n
          (d\<lparr>ht0 := t0\<lparr>ht_table := (ht_table t0)[i := []]\<rparr>, ht1 := t1, rehashidx := int i + 1\<rparr>)
      })"

definition dictRehash :: "'k dictType \<Rightarrow> nat \<Rightarrow> ('k, 'v) dictionary \<Rightarrow> (bool \<times> ('k, 'v) dictionary) option" where
  "dictRehash T n d = (if \<not> dictIsRehashing d then Some (False, d) else rehash_loop T n d)"

definition dictRehashStep :: "'k dictType \<Rightarrow> ('k, 'v) dictionary \<Rightarrow> ('k, 'v) dictionary option" where
  "dictRehashStep T d =
     (if iterators d = 0 then do { (_, d1) \<leftarrow> dictRehash T 1 d; Some d1 } else Some d)"

definition rehash_if :: "'k dictType \<Rightarrow> ('k, 'v) dictionary \<Rightarrow> ('k, 'v) dictionary option" where
  "rehash_if T d = (if dictIsRehashing d then dictRehashStep T d else Some d)"


section \<open>Search, insertion and deletion\<close>

definition chain_find :: "'k dictType \<Rightarrow> 'k \<Rightarrow> ('k \<times> 'v) list \<Rightarrow> ('k \<times> 'v) option" where
  "chain_find T key c = find (\<lambda>e. keyCompare T key (fst e)) c"

text \<open>The loop over the two tables; the second is searched during rehashing only.\<close>

definition tables_find :: "'k dictType \<Rightarrow> 'k \<Rightarrow> ('k, 'v) dictionary \<Rightarrow> ('k \<times> 'v) option option" where
  "tables_find T key d = do {
     c0 \<leftarrow> ht_chain (ht0 d) (ht_index T (ht0 d) key);
     case chain_find T key c0 of
       Some e \<Rightarrow> Some (Some e)
     | None \<Rightarrow>
         if \<not> dictIsRehashing d then Some None
         else do {
           c1 \<leftarrow> ht_chain (ht1 d) (ht_index T (ht1 d) key);
           Some (chain_find T key c1)
         }
   }"

definition dictFind_ht ::
  "'k dictType \<Rightarrow> 'k \<Rightarrow> ('k, 'v) dictionary \<Rightarrow> (('k \<times> 'v) option \<times> ('k, 'v) dictionary) option" where
  "dictFind_ht T key d =
     (if ht_size (ht0 d) = 0 then Some (None, d)
      else do {
        d1 \<leftarrow> rehash_if T d;
        r \<leftarrow> tables_find T key d1;
        Some (r, d1)
      })"

definition dictFetchValue ::
  "'k dictType \<Rightarrow> 'k \<Rightarrow> ('k, 'v) dictionary \<Rightarrow> ('v option \<times> ('k, 'v) dictionary) option" where
  "dictFetchValue T key d = do { (r, d1) \<leftarrow> dictFind_ht T key d; Some (map_option snd r, d1) }"

text \<open>The slot of a new key, in the second table during rehashing; the inner \<open>None\<close> is -1.\<close>

definition dictKeyIndex ::
  "'k dictType \<Rightarrow> bool \<Rightarrow> 'k \<Rightarrow> ('k, 'v) dictionary \<Rightarrow> (nat option \<times> ('k, 'v) dictionary) option" where
  "dictKeyIndex T can_resize key d = do {
     (r, d1) \<leftarrow> dictExpandIfNeeded can_resize d;
     if \<not> r then Some (None, d1)
     else do {
       e \<leftarrow> tables_find T key d1;
       Some (if e \<noteq> None then None
             else Some (ht_index T (if dictIsRehashing d1 then ht1 d1 else ht0 d1) key), d1)
     }
   }"

text \<open>The entry is linked and given its key and value at once; \<open>False\<close> is \<^verbatim>\<open>DICT_ERR\<close>.\<close>

definition dictAdd_ht ::
  "'k dictType \<Rightarrow> bool \<Rightarrow> 'k \<Rightarrow> 'v \<Rightarrow> ('k, 'v) dictionary \<Rightarrow> (bool \<times> ('k, 'v) dictionary) option" where
  "dictAdd_ht T can_resize key val d = do {
     d1 \<leftarrow> rehash_if T d;
     (idx, d2) \<leftarrow> dictKeyIndex T can_resize key d1;
     case idx of
       None \<Rightarrow> Some (False, d2)
     | Some i \<Rightarrow>
         if dictIsRehashing d2 then do { t \<leftarrow> ht_push (key, val) i (ht1 d2); Some (True, d2\<lparr>ht1 := t\<rparr>) }
         else do { t \<leftarrow> ht_push (key, val) i (ht0 d2); Some (True, d2\<lparr>ht0 := t\<rparr>) }
   }"

text \<open>\<^verbatim>\<open>dictSetVal\<close> on the entry a search has found: the first match in the first table that has one.\<close>

primrec chain_set :: "'k dictType \<Rightarrow> 'k \<Rightarrow> 'v \<Rightarrow> ('k \<times> 'v) list \<Rightarrow> ('k \<times> 'v) list" where
  "chain_set T key val [] = []"
| "chain_set T key val (e # es) =
     (if keyCompare T key (fst e) then (fst e, val) # es else e # chain_set T key val es)"

definition ht_set :: "'k dictType \<Rightarrow> 'k \<Rightarrow> 'v \<Rightarrow> ('k, 'v) dictht \<Rightarrow> ('k, 'v) dictht" where
  "ht_set T key val t =
     t\<lparr>ht_table := (ht_table t)[ht_index T t key := chain_set T key val (ht_table t ! ht_index T t key)]\<rparr>"

definition entry_set :: "'k dictType \<Rightarrow> 'k \<Rightarrow> 'v \<Rightarrow> ('k, 'v) dictionary \<Rightarrow> ('k, 'v) dictionary option" where
  "entry_set T key val d = do {
     c0 \<leftarrow> ht_chain (ht0 d) (ht_index T (ht0 d) key);
     if chain_find T key c0 \<noteq> None then Some (d\<lparr>ht0 := ht_set T key val (ht0 d)\<rparr>)
     else do {
       c1 \<leftarrow> ht_chain (ht1 d) (ht_index T (ht1 d) key);
       Some (d\<lparr>ht1 := ht_set T key val (ht1 d)\<rparr>)
     }
   }"

text \<open>The value replaced, if any, is given to the value destructor; it is the first component.\<close>

definition dictReplace_ht ::
  "'k dictType \<Rightarrow> bool \<Rightarrow> 'k \<Rightarrow> 'v \<Rightarrow> ('k, 'v) dictionary \<Rightarrow> ('v option \<times> ('k, 'v) dictionary) option" where
  "dictReplace_ht T can_resize key val d = do {
     (added, d1) \<leftarrow> dictAdd_ht T can_resize key val d;
     if added then Some (None, d1)
     else do {
       (e, d2) \<leftarrow> dictFind_ht T key d1;
       (k, old) \<leftarrow> e;
       d3 \<leftarrow> entry_set T key val d2;
       Some (Some old, d3)
     }
   }"

primrec chain_remove :: "'k dictType \<Rightarrow> 'k \<Rightarrow> ('k \<times> 'v) list \<Rightarrow> ('k \<times> 'v) list" where
  "chain_remove T key [] = []"
| "chain_remove T key (e # es) = (if keyCompare T key (fst e) then es else e # chain_remove T key es)"

definition ht_remove :: "'k dictType \<Rightarrow> 'k \<Rightarrow> ('k, 'v) dictht \<Rightarrow> ('k, 'v) dictht" where
  "ht_remove T key t =
     t\<lparr>ht_table := (ht_table t)[ht_index T t key := chain_remove T key (ht_table t ! ht_index T t key)],
       ht_used := ht_used t - 1\<rparr>"

text \<open>The entry removed, which \<^verbatim>\<open>dictDelete\<close> gives to the destructors, or \<open>None\<close> for \<^verbatim>\<open>DICT_ERR\<close>.\<close>

definition dictGenericDelete ::
  "'k dictType \<Rightarrow> 'k \<Rightarrow> ('k, 'v) dictionary \<Rightarrow> (('k \<times> 'v) option \<times> ('k, 'v) dictionary) option" where
  "dictGenericDelete T key d =
     (if ht_size (ht0 d) = 0 then Some (None, d)
      else do {
        d1 \<leftarrow> rehash_if T d;
        c0 \<leftarrow> ht_chain (ht0 d1) (ht_index T (ht0 d1) key);
        case chain_find T key c0 of
          Some e \<Rightarrow> Some (Some e, d1\<lparr>ht0 := ht_remove T key (ht0 d1)\<rparr>)
        | None \<Rightarrow>
            if \<not> dictIsRehashing d1 then Some (None, d1)
            else do {
              c1 \<leftarrow> ht_chain (ht1 d1) (ht_index T (ht1 d1) key);
              case chain_find T key c1 of
                Some e \<Rightarrow> Some (Some e, d1\<lparr>ht1 := ht_remove T key (ht1 d1)\<rparr>)
              | None \<Rightarrow> Some (None, d1)
            }
      })"

definition dictEmpty :: "('k, 'v) dictionary \<Rightarrow> ('k, 'v) dictionary" where
  "dictEmpty d = d\<lparr>ht0 := dictReset, ht1 := dictReset, rehashidx := - 1, iterators := 0\<rparr>"


section \<open>Scanning\<close>

text \<open>\<open>rev64\<close> is \<^verbatim>\<open>rev\<close>, unrolled over the values 32, 16, 8, 4, 2, 1 of \<^verbatim>\<open>s\<close>.\<close>

definition rev_step :: "nat \<Rightarrow> 64 word \<times> 64 word \<Rightarrow> 64 word \<times> 64 word" where
  "rev_step s = (\<lambda>(mask, v).
     let mask' = mask XOR push_bit s mask
     in (mask', (drop_bit s v AND mask') OR (push_bit s v AND NOT mask')))"

definition rev64 :: "64 word \<Rightarrow> 64 word" where
  "rev64 v = snd (fold rev_step [32, 16, 8, 4, 2, 1] (- 1, v))"

text \<open>The loop over the indices of the larger table that expand the cursor.\<close>

partial_function (option) scan_expand ::
  "('k, 'v) dictht \<Rightarrow> 64 word \<Rightarrow> 64 word \<Rightarrow> 64 word \<Rightarrow> (('k \<times> 'v) list \<times> 64 word) option" where
  "scan_expand t m0 m1 v = do {
     c \<leftarrow> ht_chain t (unat (v AND m1));
     let v' = (((v OR m0) + 1) AND NOT m0) OR (v AND m0);
     if v' AND (m0 XOR m1) \<noteq> 0 then do {
       (es, w) \<leftarrow> scan_expand t m0 m1 v';
       Some (c @ es, w)
     }
     else Some (c, v')
   }"

definition scan_next :: "64 word \<Rightarrow> 64 word \<Rightarrow> 64 word" where
  "scan_next m0 v = rev64 (rev64 (v OR NOT m0) + 1)"

text \<open>The entries the callback sees, in order, and the next cursor.\<close>

definition dictScan :: "('k, 'v) dictionary \<Rightarrow> 64 word \<Rightarrow> (('k \<times> 'v) list \<times> 64 word) option" where
  "dictScan d v =
     (if dictSize d = 0 then Some ([], 0)
      else if \<not> dictIsRehashing d then do {
        let m0 = of_nat (ht_sizemask (ht0 d));
        c \<leftarrow> ht_chain (ht0 d) (unat (v AND m0));
        Some (c, scan_next m0 v)
      }
      else do {
        let (t0, t1) = (if ht_size (ht0 d) > ht_size (ht1 d) then (ht1 d, ht0 d) else (ht0 d, ht1 d));
        let m0 = of_nat (ht_sizemask t0);
        let m1 = of_nat (ht_sizemask t1);
        c \<leftarrow> ht_chain t0 (unat (v AND m0));
        (es, w) \<leftarrow> scan_expand t1 m0 m1 v;
        Some (c @ es, scan_next m0 w)
      })"

end
