(* ===== verification/Sim_Base.thy ===== *)
theory Sim_Base
  imports Prelude
begin

text \<open>
  Sequences of operations on a data structure whose step function may fault, and what it takes for
  them to simulate the same sequence on an abstract one. \<open>ok n\<close> is the invariant of the data
  structure with room for operations of total cost \<open>n\<close>.
\<close>

primrec run_ops :: "('op \<Rightarrow> 'c \<Rightarrow> ('r \<times> 'c) option) \<Rightarrow> 'op list \<Rightarrow> 'c \<Rightarrow> ('r list \<times> 'c) option" where
  "run_ops step [] c = Some ([], c)"
| "run_ops step (op # ops) c = do {
     (r, c1) \<leftarrow> step op c;
     (rs, c2) \<leftarrow> run_ops step ops c1;
     Some (r # rs, c2)
   }"

locale simulation =
  fixes step :: "'op \<Rightarrow> 'c \<Rightarrow> ('r \<times> 'c) option"
    and spec :: "'op \<Rightarrow> 'a \<Rightarrow> 'r \<times> 'a"
    and cost :: "'op \<Rightarrow> nat"
    and ok :: "nat \<Rightarrow> 'c \<Rightarrow> bool"
    and abs :: "'c \<Rightarrow> 'a"
  assumes step_simulates:
    "ok (cost op + n) c \<Longrightarrow> \<exists>c'. step op c = Some (fst (spec op (abs c)), c') \<and> ok n c' \<and> abs c' = snd (spec op (abs c))"
begin

lemma run_simulates:
  "ok (sum_list (map cost ops)) c \<Longrightarrow>
   \<exists>rs c'. run_ops step ops c = Some (rs, c') \<and> run_ops (\<lambda>op a. Some (spec op a)) ops (abs c) = Some (rs, abs c') \<and> ok 0 c'"
proof (induction ops arbitrary: c)
  case (Cons op ops)
  then obtain c' where c': "step op c = Some (fst (spec op (abs c)), c')" "ok (sum_list (map cost ops)) c'" "abs c' = snd (spec op (abs c))"
    using step_simulates [of op "sum_list (map cost ops)" c] by auto
  obtain rs e where e: "run_ops step ops c' = Some (rs, e)" "run_ops (\<lambda>op a. Some (spec op a)) ops (abs c') = Some (rs, abs e)" "ok 0 e"
    using Cons.IH [OF c'(2)] by blast
  then show ?case using c' by (simp add: split_beta)
qed simp

end

lemma sum_list_ones: "sum_list (map (\<lambda>_. 1) xs) = length xs"
  by (induction xs) simp_all

end
