(* ===== verification/Dict_Rules.thy ===== *)
theory Dict_Rules
  imports Dict Sim_Base "HOL-Library.Multiset"
begin

unbundle bit_operations_syntax

text \<open>
  The hash tables of \<^verbatim>\<open>dict.c\<close> refine finite maps, whatever the state of the incremental
  rehashing: their invariant, the rules of the operations, and the simulation of sequences of
  operations.
\<close>

section \<open>Invariant and abstraction\<close>

definition ht_entries :: "('k, 'v) dictht \<Rightarrow> ('k \<times> 'v) list" where
  "ht_entries t = concat (ht_table t)"

definition ht_shape :: "('k, 'v) dictht \<Rightarrow> bool" where
  "ht_shape t \<longleftrightarrow> length (ht_table t) = ht_size t \<and>
     (ht_size t = 0 \<and> ht_sizemask t = 0 \<or> (\<exists>k. 2 \<le> k \<and> k \<le> 60 \<and> ht_size t = 2 ^ k \<and> ht_sizemask t = 2 ^ k - 1))"

definition ht_ok :: "'k dictType \<Rightarrow> ('k, 'v) dictht \<Rightarrow> bool" where
  "ht_ok T t \<longleftrightarrow> ht_shape t \<and> ht_used t = length (ht_entries t) \<and>
     (\<forall>i < length (ht_table t). \<forall>e \<in> set (ht_table t ! i). ht_index T t (fst e) = i)"

definition dict_entries :: "('k, 'v) dictionary \<Rightarrow> ('k \<times> 'v) list" where
  "dict_entries d = ht_entries (ht0 d) @ ht_entries (ht1 d)"

definition rehash_ok :: "('k, 'v) dictionary \<Rightarrow> bool" where
  "rehash_ok d \<longleftrightarrow>
     (if dictIsRehashing d
      then 0 \<le> rehashidx d \<and> rehashidx d \<le> int (ht_size (ht0 d)) \<and> ht_size (ht0 d) \<noteq> 0 \<and> ht_size (ht1 d) \<noteq> 0 \<and>
           (\<forall>i < nat (rehashidx d). ht_table (ht0 d) ! i = [])
      else ht1 d = dictReset)"

definition dict_ok :: "'k dictType \<Rightarrow> ('k, 'v) dictionary \<Rightarrow> bool" where
  "dict_ok T d \<longleftrightarrow> ht_ok T (ht0 d) \<and> ht_ok T (ht1 d) \<and> rehash_ok d \<and> distinct (map fst (dict_entries d))"

definition dict_map :: "('k, 'v) dictionary \<Rightarrow> 'k \<rightharpoonup> 'v" where
  "dict_map d = map_of (dict_entries d)"

text \<open>Two states of one dictionary: the entries may have moved between buckets.\<close>

definition same_dict :: "'k dictType \<Rightarrow> ('k, 'v) dictionary \<Rightarrow> ('k, 'v) dictionary \<Rightarrow> bool" where
  "same_dict T d d' \<longleftrightarrow> dict_ok T d' \<and> dict_map d' = dict_map d \<and> dictSize d' = dictSize d \<and> iterators d' = iterators d"


section \<open>Lists of entries\<close>

lemma map_of_mset:
  assumes "mset xs = mset ys" "distinct (map fst xs)"
  shows "map_of xs = map_of ys" "distinct (map fst ys)"
proof -
  have "mset (map fst ys) = mset (map fst xs)" using assms(1) by (metis mset_map)
  then show d: "distinct (map fst ys)" using assms(2) mset_eq_imp_distinct_iff by blast
  have "set xs = set ys" using assms(1) by (metis set_mset_mset)
  then show "map_of xs = map_of ys"
    using assms(2) d by (metis map_of_inject_set)
qed

lemma mset_concat_update:
  assumes "i < length xs"
  shows "mset (concat (xs[i := c])) + mset (xs ! i) = mset (concat xs) + mset c"
proof -
  have "mset (concat (xs[i := c])) + mset (xs ! i) =
      mset (concat (take i xs)) + mset c + mset (concat (drop (Suc i) xs)) + mset (xs ! i)"
    using assms by (simp add: upd_conv_take_nth_drop)
  also have "\<dots> = mset (concat (take i xs @ xs ! i # drop (Suc i) xs)) + mset c" by simp
  also have "take i xs @ xs ! i # drop (Suc i) xs = xs" using assms by (simp add: id_take_nth_drop [symmetric])
  finally show ?thesis .
qed

lemma map_of_concat_None: "\<forall>j < length xs. map_of (xs ! j) k = None \<Longrightarrow> map_of (concat xs) k = None"
  by (induction xs) (auto simp: map_add_def All_less_Suc2 split: option.splits)

lemma map_of_concat_one:
  "i < length xs \<Longrightarrow> \<forall>j < length xs. j \<noteq> i \<longrightarrow> map_of (xs ! j) k = None \<Longrightarrow> map_of (concat xs) k = map_of (xs ! i) k"
proof (induction xs arbitrary: i)
  case (Cons c xs)
  show ?case
  proof (cases i)
    case 0
    then have "map_of (concat xs) k = None" using Cons.prems by (intro map_of_concat_None) auto
    then show ?thesis by (simp add: 0 map_add_def split: option.splits)
  next
    case (Suc l)
    then have "map_of c k = None" "map_of (concat xs) k = map_of (xs ! l) k"
      using Cons.prems Cons.IH [of l] by (auto simp: All_less_Suc2)
    then show ?thesis by (simp add: Suc map_add_def split: option.splits)
  qed
qed simp

lemma nth_le_concat: "i < length xs \<Longrightarrow> length (xs ! i) \<le> length (concat xs)"
  by (induction xs arbitrary: i) (auto simp: nth_Cons trans_le_add2 split: nat.splits)

lemma update_keeps_empty: "xs ! i = [] \<Longrightarrow> f [] = [] \<Longrightarrow> xs[j := f (xs ! j)] ! i = []"
  by (cases "i = j"; cases "j < length xs") (auto simp: list_update_beyond)

lemma nat_and_mask: "(x :: nat) AND (2 ^ k - Suc 0) = x mod 2 ^ k"
  by (metis One_nat_def mask_eq_exp_minus_1 take_bit_eq_mask take_bit_eq_mod)

lemma ht_index_less:
  assumes "ht_shape t" "ht_size t \<noteq> 0"
  shows "ht_index T t k < length (ht_table t)"
  using assms by (auto simp: ht_shape_def ht_index_def nat_and_mask)

lemma ht_index_cong [simp]:
  "ht_index T (t\<lparr>ht_table := x\<rparr>) = ht_index T t" "ht_index T (t\<lparr>ht_used := n\<rparr>) = ht_index T t"
  by (auto simp: ht_index_def fun_eq_iff)

lemma ht_order: "(t :: ('k, 'v) dictht)\<lparr>ht_used := n, ht_table := x\<rparr> = t\<lparr>ht_table := x, ht_used := n\<rparr>"
  by simp

lemma ht_shape_used [simp]: "ht_shape (t\<lparr>ht_used := n\<rparr>) = ht_shape t"
  by (simp add: ht_shape_def)

lemma ht_ok_reset [simp]: "ht_ok T dictReset"
  by (simp add: ht_ok_def ht_shape_def dictReset_def ht_entries_def)

lemma ht_entries_reset [simp]: "ht_entries dictReset = []"
  by (simp add: ht_entries_def dictReset_def)

lemma ht_okD:
  assumes "ht_ok T t"
  shows "ht_shape t" "ht_used t = length (ht_entries t)"
    "\<And>i e. i < length (ht_table t) \<Longrightarrow> e \<in> set (ht_table t ! i) \<Longrightarrow> ht_index T t (fst e) = i"
  using assms by (auto simp: ht_ok_def)

lemma dict_okD:
  assumes "dict_ok T d"
  shows "ht_ok T (ht0 d)" "ht_ok T (ht1 d)" "rehash_ok d" "distinct (map fst (dict_entries d))"
  using assms by (auto simp: dict_ok_def)

lemma dict_size: "dict_ok T d \<Longrightarrow> dictSize d = length (dict_entries d)"
  using ht_okD(2) [OF dict_okD(1)] ht_okD(2) [OF dict_okD(2)] by (fastforce simp: dictSize_def dict_entries_def)

text \<open>A bucket is replaced by another chain for the same index.\<close>

lemma ht_update_bucket:
  assumes ok: "ht_ok T t" and i: "i < length (ht_table t)"
    and c: "\<forall>e \<in> set c. ht_index T t (fst e) = i"
    and n: "n + length (ht_table t ! i) = ht_used t + length c"
    and t': "t' = t\<lparr>ht_table := (ht_table t)[i := c], ht_used := n\<rparr>"
  shows "ht_ok T t'" "mset (ht_entries t') + mset (ht_table t ! i) = mset (ht_entries t) + mset c"
    "ht_size t' = ht_size t" "ht_sizemask t' = ht_sizemask t"
proof -
  show m: "mset (ht_entries t') + mset (ht_table t ! i) = mset (ht_entries t) + mset c"
    using mset_concat_update [OF i] by (simp add: t' ht_entries_def)
  have "length (ht_entries t') + length (ht_table t ! i) = length (ht_entries t) + length c"
    using arg_cong [OF m, of size] by simp
  then have "n = length (ht_entries t')" using n ht_okD(2) [OF ok] by simp
  then show "ht_ok T t'"
    using ok c i by (auto simp: ht_ok_def ht_shape_def t' nth_list_update split: if_splits)
qed (simp_all add: t')

lemma ht_push_rule:
  assumes ok: "ht_ok T t" and n: "ht_size t \<noteq> 0"
  obtains t' where "ht_push e (ht_index T t (fst e)) t = Some t'" "ht_ok T t'"
    "mset (ht_entries t') = add_mset e (mset (ht_entries t))" "ht_size t' = ht_size t" "ht_sizemask t' = ht_sizemask t"
proof -
  let ?i = "ht_index T t (fst e)"
  let ?t = "t\<lparr>ht_table := (ht_table t)[?i := e # ht_table t ! ?i], ht_used := ht_used t + 1\<rparr>"
  have i: "?i < length (ht_table t)" by (rule ht_index_less [OF ht_okD(1) [OF ok] n])
  note u = ht_update_bucket [OF ok i, of "e # ht_table t ! ?i" "ht_used t + 1" ?t]
  have "ht_push e ?i t = Some ?t" using i by (simp add: ht_push_def ht_chain_def)
  then show ?thesis using that u ht_okD(3) [OF ok i] by simp
qed

lemma new_table:
  assumes "2 \<le> l" "l \<le> 60"
  defines "t \<equiv> \<lparr>ht_table = replicate (2 ^ l) [], ht_size = 2 ^ l, ht_sizemask = 2 ^ l - 1, ht_used = 0\<rparr>"
  shows "ht_ok T t" "ht_entries t = []" "ht_size t \<noteq> 0"
proof -
  show e: "ht_entries t = []" by (simp add: t_def ht_entries_def)
  show "ht_ok T t" unfolding ht_ok_def e using assms by (auto simp: ht_shape_def t_def)
qed (simp add: t_def)


section \<open>Searching a table\<close>

locale key_type =
  fixes T :: "'k dictType"
  assumes compare: "keyCompare T a b \<longleftrightarrow> a = b"
begin

lemma chain_find_iff: "distinct (map fst c) \<Longrightarrow> chain_find T k c = Some e \<longleftrightarrow> e \<in> set c \<and> fst e = k"
  by (induction c) (auto simp: chain_find_def compare rev_image_eqI)

lemma chain_find_map: "chain_find T k c = map_option (Pair k) (map_of c k)"
  by (induction c) (auto simp: chain_find_def compare)

lemma chain_remove_mset:
  "chain_find T k c = Some e \<Longrightarrow> add_mset e (mset (chain_remove T k c)) = mset c"
  by (induction c) (auto simp: chain_find_def split: if_splits)

lemma chain_remove_subset: "set (chain_remove T k c) \<subseteq> set c"
  by (induction c) auto

lemma chain_set_mset:
  "chain_find T k c = Some e \<Longrightarrow> add_mset e (mset (chain_set T k v c)) = add_mset (k, v) (mset c)"
  by (induction c) (auto simp: chain_find_def compare split: if_splits)

lemma chain_set_keys: "map fst (chain_set T k v c) = map fst c"
  by (induction c) (auto simp: compare)

text \<open>All entries for a key are in its bucket.\<close>

lemma bucket_map:
  assumes ok: "ht_ok T t" and n: "ht_size t \<noteq> 0"
  shows "map_of (ht_table t ! ht_index T t k) k = map_of (ht_entries t) k"
  unfolding ht_entries_def
proof (rule map_of_concat_one [symmetric])
  show "ht_index T t k < length (ht_table t)" by (rule ht_index_less [OF ht_okD(1) [OF ok] n])
  show "\<forall>j < length (ht_table t). j \<noteq> ht_index T t k \<longrightarrow> map_of (ht_table t ! j) k = None"
    using ht_okD(3) [OF ok] by (metis map_of_SomeD fst_conv not_Some_eq)
qed

lemma chain_rule:
  assumes "ht_ok T t" "ht_size t \<noteq> 0"
  shows "ht_chain t (ht_index T t k) = Some (ht_table t ! ht_index T t k)"
  using ht_index_less [OF ht_okD(1) [OF assms(1)] assms(2)] by (simp add: ht_chain_def)

lemma ht_find:
  assumes "ht_ok T t" "ht_size t \<noteq> 0"
  shows "chain_find T k (ht_table t ! ht_index T t k) = map_option (Pair k) (map_of (ht_entries t) k)"
  by (simp add: chain_find_map bucket_map [OF assms])

lemma ht_remove_rule:
  assumes ok: "ht_ok T t" and n: "ht_size t \<noteq> 0" and k: "map_of (ht_entries t) k = Some v"
  shows "ht_ok T (ht_remove T k t)" "add_mset (k, v) (mset (ht_entries (ht_remove T k t))) = mset (ht_entries t)"
    "ht_size (ht_remove T k t) = ht_size t" "ht_sizemask (ht_remove T k t) = ht_sizemask t"
proof -
  let ?i = "ht_index T t k" let ?c = "ht_table t ! ?i"
  have i: "?i < length (ht_table t)" by (rule ht_index_less [OF ht_okD(1) [OF ok] n])
  have m: "add_mset (k, v) (mset (chain_remove T k ?c)) = mset ?c"
    by (rule chain_remove_mset) (simp add: ht_find [OF ok n] k)
  have l: "length ?c = Suc (length (chain_remove T k ?c))" using arg_cong [OF m, of size] by simp
  have "length ?c \<le> ht_used t" using nth_le_concat [OF i] ht_okD(2) [OF ok] by (simp add: ht_entries_def)
  then have n': "ht_used t - 1 + length ?c = ht_used t + length (chain_remove T k ?c)" using l by simp
  have c: "\<forall>e \<in> set (chain_remove T k ?c). ht_index T t (fst e) = ?i"
    using chain_remove_subset [of k ?c] ht_okD(3) [OF ok i] by blast
  note u = ht_update_bucket [OF ok i c n' refl, folded ht_remove_def]
  show "ht_ok T (ht_remove T k t)" "ht_size (ht_remove T k t) = ht_size t" "ht_sizemask (ht_remove T k t) = ht_sizemask t"
    by (rule u)+
  show "add_mset (k, v) (mset (ht_entries (ht_remove T k t))) = mset (ht_entries t)"
    using u(2) unfolding m [symmetric] by simp
qed

lemma ht_set_rule:
  assumes ok: "ht_ok T t" and n: "ht_size t \<noteq> 0" and k: "map_of (ht_entries t) k = Some u"
  shows "ht_ok T (ht_set T k v t)"
    "add_mset (k, u) (mset (ht_entries (ht_set T k v t))) = add_mset (k, v) (mset (ht_entries t))"
    "ht_size (ht_set T k v t) = ht_size t" "ht_sizemask (ht_set T k v t) = ht_sizemask t"
proof -
  let ?i = "ht_index T t k" let ?c = "ht_table t ! ?i"
  have i: "?i < length (ht_table t)" by (rule ht_index_less [OF ht_okD(1) [OF ok] n])
  have m: "add_mset (k, u) (mset (chain_set T k v ?c)) = add_mset (k, v) (mset ?c)"
    by (rule chain_set_mset) (simp add: ht_find [OF ok n] k)
  have l: "ht_used t + length ?c = ht_used t + length (chain_set T k v ?c)" using arg_cong [OF m, of size] by simp
  have "fst ` set (chain_set T k v ?c) = fst ` set ?c" using chain_set_keys [of k v ?c] by (metis list.set_map)
  then have c: "\<forall>e \<in> set (chain_set T k v ?c). ht_index T t (fst e) = ?i"
    using ht_okD(3) [OF ok i] by (metis (no_types, lifting) imageE image_eqI)
  have eq: "ht_set T k v t = t\<lparr>ht_table := (ht_table t)[?i := chain_set T k v ?c], ht_used := ht_used t\<rparr>"
    by (simp add: ht_set_def)
  note u = ht_update_bucket [OF ok i c l eq]
  show "ht_ok T (ht_set T k v t)" "ht_size (ht_set T k v t) = ht_size t" "ht_sizemask (ht_set T k v t) = ht_sizemask t"
    by (rule u)+
  have "add_mset (k, u) (mset (ht_entries (ht_set T k v t))) + mset ?c = add_mset (k, v) (mset (ht_entries t)) + mset ?c"
    using u(2) m by simp
  then show "add_mset (k, u) (mset (ht_entries (ht_set T k v t))) = add_mset (k, v) (mset (ht_entries t))"
    by (rule add_right_imp_eq)
qed


section \<open>Rehashing\<close>

lemma move_chain_rule:
  assumes "ht_ok T t1" "ht_size t1 \<noteq> 0"
  obtains t1' where "move_chain T c t0 t1 = Some (t0\<lparr>ht_used := ht_used t0 - length c\<rparr>, t1')" "ht_ok T t1'"
    "mset (ht_entries t1') = mset c + mset (ht_entries t1)" "ht_size t1' = ht_size t1"
  using assms
proof (induction c arbitrary: t0 t1 thesis)
  case Nil
  then show ?case by simp
next
  case (Cons e c)
  obtain t' where t': "ht_push e (ht_index T t1 (fst e)) t1 = Some t'" "ht_ok T t'"
    "mset (ht_entries t') = add_mset e (mset (ht_entries t1))" "ht_size t' = ht_size t1"
    by (rule ht_push_rule [OF Cons.prems(2,3)])
  obtain t'' where t'': "move_chain T c (t0\<lparr>ht_used := ht_used t0 - 1\<rparr>) t' =
      Some (t0\<lparr>ht_used := ht_used t0 - 1 - length c\<rparr>, t'')" "ht_ok T t''"
    "mset (ht_entries t'') = mset c + mset (ht_entries t')" "ht_size t'' = ht_size t'"
    using Cons.IH [of "t0\<lparr>ht_used := ht_used t0 - 1\<rparr>" t'] t' Cons.prems(3) by auto
  show ?case by (rule Cons.prems(1) [of t'']) (use t' t'' in simp_all)
qed

lemma skip_empty_rule:
  assumes "\<exists>j < length (ht_table t). i \<le> j \<and> ht_table t ! j \<noteq> []"
  obtains j where "skip_empty t i = Some j" "i \<le> j" "j < length (ht_table t)" "ht_table t ! j \<noteq> []"
    "\<forall>l. i \<le> l \<longrightarrow> l < j \<longrightarrow> ht_table t ! l = []"
  using assms
proof (induction t i arbitrary: thesis rule: skip_empty.induct)
  case (1 t i)
  then have i: "i < length (ht_table t)" by auto
  show ?case
  proof (cases "ht_table t ! i = []")
    case False
    then show ?thesis using i by (intro "1.prems"(1) [of i]) (auto simp: skip_empty.simps [of t i] ht_chain_def)
  next
    case True
    have "\<exists>j < length (ht_table t). i + 1 \<le> j \<and> ht_table t ! j \<noteq> []"
      using "1.prems"(2) True by (metis Suc_eq_plus1 le_neq_implies_less less_eq_Suc_le)
    then obtain j where j: "skip_empty t (i + 1) = Some j" "i + 1 \<le> j" "j < length (ht_table t)" "ht_table t ! j \<noteq> []"
      "\<forall>l. i + 1 \<le> l \<longrightarrow> l < j \<longrightarrow> ht_table t ! l = []"
      using "1.IH" [of "[]"] i True by (auto simp: ht_chain_def)
    have "\<forall>l. i \<le> l \<longrightarrow> l < j \<longrightarrow> ht_table t ! l = []" using j(5) True by (metis Suc_eq_plus1 le_neq_implies_less less_eq_Suc_le)
    then show ?thesis using i True j by (intro "1.prems"(1) [of j]) (auto simp: skip_empty.simps [of t i] ht_chain_def)
  qed
qed

lemma nonempty_bucket:
  assumes "ht_ok T t" "ht_used t \<noteq> 0"
  shows "\<exists>j < length (ht_table t). ht_table t ! j \<noteq> []"
proof (rule ccontr)
  assume "\<not> ?thesis"
  then have "concat (ht_table t) = []" by (auto simp: in_set_conv_nth)
  then show False using assms ht_okD(2) [OF assms(1)] by (simp add: ht_entries_def)
qed

lemma same_dictI:
  assumes ok: "dict_ok T d" and ok': "ht_ok T (ht0 d')" "ht_ok T (ht1 d')" "rehash_ok d'"
    and m: "mset (dict_entries d') = mset (dict_entries d)" and i: "iterators d' = iterators d"
  shows "same_dict T d d'"
proof -
  note mm = map_of_mset [OF m [symmetric] dict_okD(4) [OF ok]]
  have ok2: "dict_ok T d'" using ok' mm(2) by (simp add: dict_ok_def)
  have "length (dict_entries d') = length (dict_entries d)" using m by (metis size_mset)
  then show ?thesis using ok2 mm(1) i dict_size [OF ok] dict_size [OF ok2] by (simp add: same_dict_def dict_map_def)
qed

lemma same_dict_refl: "dict_ok T d \<Longrightarrow> same_dict T d d"
  by (simp add: same_dict_def)

lemma same_dict_trans: "same_dict T d e \<Longrightarrow> same_dict T e f \<Longrightarrow> same_dict T d f"
  by (simp add: same_dict_def)

lemma rehash_finish:
  assumes ok: "dict_ok T d" and re: "dictIsRehashing d" and u: "ht_used (ht0 d) = 0"
  shows "same_dict T d (d\<lparr>ht0 := ht1 d, ht1 := dictReset, rehashidx := - 1\<rparr>)"
proof (rule same_dictI [OF ok])
  have "ht_entries (ht0 d) = []" using u ht_okD(2) [OF dict_okD(1) [OF ok]] by simp
  then show "mset (dict_entries (d\<lparr>ht0 := ht1 d, ht1 := dictReset, rehashidx := - 1\<rparr>)) = mset (dict_entries d)"
    by (simp add: dict_entries_def)
qed (use dict_okD [OF ok] in \<open>simp_all add: rehash_ok_def dictIsRehashing_def\<close>)

lemma rehash_one:
  assumes ok: "dict_ok T d" and re: "dictIsRehashing d" and u: "ht_used (ht0 d) \<noteq> 0"
  obtains d' where "\<And>n. rehash_loop T (Suc n) d = rehash_loop T n d'" "same_dict T d d'" "dictIsRehashing d'"
    "rehashidx d < rehashidx d'" "ht_size (ht0 d') = ht_size (ht0 d)"
proof -
  let ?t = "ht0 d"
  have r: "0 \<le> rehashidx d" "ht_size ?t \<noteq> 0" "ht_size (ht1 d) \<noteq> 0" "\<forall>i < nat (rehashidx d). ht_table ?t ! i = []"
    using dict_okD(3) [OF ok] re by (auto simp: rehash_ok_def)
  note o0 = dict_okD(1) [OF ok] and o1 = dict_okD(2) [OF ok]
  have len: "length (ht_table ?t) = ht_size ?t" using ht_okD(1) [OF o0] by (simp add: ht_shape_def)
  have "\<exists>j < length (ht_table ?t). nat (rehashidx d) \<le> j \<and> ht_table ?t ! j \<noteq> []"
    using nonempty_bucket [OF o0 u] r(4) by (meson not_le)
  then obtain j where j: "skip_empty ?t (nat (rehashidx d)) = Some j" "nat (rehashidx d) \<le> j" "j < length (ht_table ?t)"
    "\<forall>l. nat (rehashidx d) \<le> l \<longrightarrow> l < j \<longrightarrow> ht_table ?t ! l = []"
    by (rule skip_empty_rule) auto
  have lt: "rehashidx d < int (ht_size ?t)" using j(2,3) len r(1) by linarith
  let ?c = "ht_table ?t ! j"
  obtain t1 where t1: "move_chain T ?c ?t (ht1 d) = Some (?t\<lparr>ht_used := ht_used ?t - length ?c\<rparr>, t1)" "ht_ok T t1"
    "mset (ht_entries t1) = mset ?c + mset (ht_entries (ht1 d))" "ht_size t1 = ht_size (ht1 d)"
    by (rule move_chain_rule [OF o1 r(3)])
  let ?old = "?t\<lparr>ht_table := (ht_table ?t)[j := []], ht_used := ht_used ?t - length ?c\<rparr>"
  have "length ?c \<le> ht_used ?t" using nth_le_concat [OF j(3)] ht_okD(2) [OF o0] by (simp add: ht_entries_def)
  then have t0: "ht_ok T ?old" "mset (ht_entries ?old) + mset ?c = mset (ht_entries ?t)"
    using ht_update_bucket(1,2) [OF o0 j(3), of "[]" "ht_used ?t - length ?c" ?old] by simp_all
  let ?d = "d\<lparr>ht0 := ?old, ht1 := t1, rehashidx := int j + 1\<rparr>"
  show ?thesis
  proof
    show "rehash_loop T (Suc n) d = rehash_loop T n ?d" for n
      using u lt j len t1(1) by (simp add: ht_chain_def ht_order)
    have "\<forall>l < j. ht_table ?t ! l = []" using r(4) j(4) by (meson not_le)
    then have "rehash_ok ?d"
      using j r t1(4) len by (auto simp: rehash_ok_def dictIsRehashing_def nth_list_update less_Suc_eq nat_add_distrib not_less)
    moreover have "mset (dict_entries ?d) = mset (dict_entries d)"
      using t0(2) t1(3) by (simp add: dict_entries_def)
    ultimately show "same_dict T d ?d" using t0(1) t1(2) by (intro same_dictI [OF ok]) simp_all
    show "rehashidx d < rehashidx ?d" using j(2) by simp
  qed (simp_all add: dictIsRehashing_def)
qed

text \<open>A number of steps; \<open>True\<close> means that the rehashing goes on, and then every step has advanced.\<close>

lemma rehash_loop_rule:
  assumes "dict_ok T d" "dictIsRehashing d"
  obtains b d' where "rehash_loop T n d = Some (b, d')" "same_dict T d d'" "b \<longleftrightarrow> dictIsRehashing d'"
    "b \<Longrightarrow> rehashidx d + int n \<le> rehashidx d' \<and> ht_size (ht0 d') = ht_size (ht0 d)"
  using assms
proof (induction n arbitrary: d thesis)
  case 0
  then show ?case using same_dict_refl by fastforce
next
  case (Suc n)
  show ?case
  proof (cases "ht_used (ht0 d) = 0")
    case True
    then show ?thesis
      by (intro Suc.prems(1) [of False "d\<lparr>ht0 := ht1 d, ht1 := dictReset, rehashidx := - 1\<rparr>"])
        (use rehash_finish [OF Suc.prems(2,3)] in \<open>auto simp: dictIsRehashing_def\<close>)
  next
    case False
    obtain e where e: "rehash_loop T (Suc n) d = rehash_loop T n e" "same_dict T d e" "dictIsRehashing e"
      "rehashidx d < rehashidx e" "ht_size (ht0 e) = ht_size (ht0 d)"
      by (rule rehash_one [OF Suc.prems(2,3) False]) blast
    obtain b f where f: "rehash_loop T n e = Some (b, f)" "same_dict T e f" "b \<longleftrightarrow> dictIsRehashing f"
      "b \<Longrightarrow> rehashidx e + int n \<le> rehashidx f \<and> ht_size (ht0 f) = ht_size (ht0 e)"
      using Suc.IH [of e] e(2,3) by (auto simp: same_dict_def)
    show ?thesis
      by (rule Suc.prems(1) [of b f]) (use e f same_dict_trans [OF e(2) f(2)] in auto)
  qed
qed

lemma rehash_if_rule:
  assumes "dict_ok T d"
  obtains d' where "rehash_if T d = Some d'" "same_dict T d d'"
proof (cases "dictIsRehashing d \<and> iterators d = 0")
  case True
  obtain b d' where "rehash_loop T 1 d = Some (b, d')" "same_dict T d d'"
    by (rule rehash_loop_rule [OF assms conjunct1 [OF True]])
  then show ?thesis using True by (intro that [of d']) (auto simp: rehash_if_def dictRehashStep_def dictRehash_def)
next
  case False
  then show ?thesis
    using that [of d] same_dict_refl [OF assms] by (auto simp: rehash_if_def dictRehashStep_def)
qed


section \<open>Resizing\<close>

lemma next_power_rule:
  assumes "2 \<le> k" "k \<le> 60" "n \<le> 2 ^ 60"
  shows "\<exists>l. k \<le> l \<and> l \<le> 60 \<and> next_power_loop (2 ^ k) n = Some (2 ^ l) \<and> n \<le> 2 ^ l"
  using assms
proof (induction "60 - k" arbitrary: k)
  case 0
  then have "k = 60" by simp
  then show ?case using 0 by (intro exI [of _ 60]) (simp add: next_power_loop.simps)
next
  case (Suc m)
  show ?case
  proof (cases "n \<le> 2 ^ k")
    case True
    then show ?thesis using Suc.prems by (intro exI [of _ k]) (simp add: next_power_loop.simps [of "2 ^ k"])
  next
    case False
    have "(2 :: nat) ^ Suc k \<le> 2 ^ 60" using Suc.hyps(2) by (intro power_increasing) auto
    then have w: "2 ^ k * 2 mod 2 ^ 64 = (2 :: nat) ^ Suc k" by (intro mod_less [THEN trans]) simp_all
    have "\<exists>l. Suc k \<le> l \<and> l \<le> 60 \<and> next_power_loop (2 ^ Suc k) n = Some (2 ^ l) \<and> n \<le> 2 ^ l"
      using Suc.hyps Suc.prems by (intro Suc.hyps(1)) auto
    moreover have "next_power_loop (2 ^ k) n = next_power_loop (2 ^ Suc k) n"
      using False w by (simp only: next_power_loop.simps [of "2 ^ k"] if_False)
    ultimately show ?thesis by (metis Suc_leD)
  qed
qed

lemma dictNextPower_rule:
  assumes "n \<le> 2 ^ 60"
  obtains l where "2 \<le> l" "l \<le> 60" "dictNextPower n = Some (2 ^ l)" "n \<le> 2 ^ l"
  using next_power_rule [of 2 n] assms by (auto simp: dictNextPower_def LONG_MAX_def DICT_HT_INITIAL_SIZE_def)

lemma dictExpand_rule:
  fixes d :: "('k, 'v) dictionary"
  assumes ok: "dict_ok T d" and re: "\<not> dictIsRehashing d" and n: "dictSize d \<le> n" "n \<le> 2 ^ 60"
  obtains d' where "dictExpand n d = Some (True, d')" "same_dict T d d'" "ht_size (ht0 d') \<noteq> 0"
proof -
  obtain l where l: "2 \<le> l" "l \<le> 60" "dictNextPower n = Some (2 ^ l)" by (rule dictNextPower_rule [OF n(2)])
  let ?n = "\<lparr>ht_table = replicate (2 ^ l) [], ht_size = 2 ^ l, ht_sizemask = 2 ^ l - 1, ht_used = 0\<rparr> :: ('k, 'v) dictht"
  have nt: "ht_ok T ?n" "ht_entries ?n = []" "ht_size ?n \<noteq> 0" by (rule new_table [OF l(1,2)])+
  have p: "\<not> 2 ^ 60 < (2 :: nat) ^ l" using power_increasing [OF l(2), of "2 :: nat"] by simp
  have u: "\<not> n < ht_used (ht0 d)" using n(1) by (simp add: dictSize_def)
  have h1: "ht1 d = dictReset" using dict_okD(3) [OF ok] re by (simp add: rehash_ok_def)
  note o0 = dict_okD(1) [OF ok]
  have len: "length (ht_table (ht0 d)) = ht_size (ht0 d)" using ht_okD(1) [OF o0] by (simp add: ht_shape_def)
  show ?thesis
  proof (cases "ht_table (ht0 d) = []")
    case True
    then have "ht_entries (ht0 d) = []" by (simp add: ht_entries_def)
    then have "same_dict T d (d\<lparr>ht0 := ?n\<rparr>)"
      using nt h1 re by (intro same_dictI [OF ok]) (simp_all add: dict_entries_def rehash_ok_def dictIsRehashing_def)
    then show ?thesis using True re u p l nt(3) by (intro that) (auto simp: dictExpand_def Let_def)
  next
    case False
    then have "ht_size (ht0 d) \<noteq> 0" using len by (metis length_0_conv)
    then have "same_dict T d (d\<lparr>ht1 := ?n, rehashidx := 0\<rparr>)"
      using nt h1 o0 by (intro same_dictI [OF ok]) (auto simp: dict_entries_def rehash_ok_def dictIsRehashing_def)
    then show ?thesis using False re u p l \<open>ht_size (ht0 d) \<noteq> 0\<close>
      by (intro that [of "d\<lparr>ht1 := ?n, rehashidx := 0\<rparr>"]) (auto simp: dictExpand_def Let_def)
  qed
qed

lemma expandIfNeeded_rule:
  assumes ok: "dict_ok T d" and n: "dictSize d \<le> 2 ^ 59"
  obtains d' where "dictExpandIfNeeded can d = Some (True, d')" "same_dict T d d'" "ht_size (ht0 d') \<noteq> 0"
proof -
  have u: "ht_used (ht0 d) = dictSize d" if "\<not> dictIsRehashing d"
    using that dict_okD(3) [OF ok] by (simp add: rehash_ok_def dictSize_def dictReset_def)
  have z: "dictSize d = 0" if "\<not> dictIsRehashing d" "ht_size (ht0 d) = 0"
    using that u ht_okD(1,2) [OF dict_okD(1) [OF ok]] by (simp add: ht_shape_def ht_entries_def)
  consider "dictIsRehashing d" | "\<not> dictIsRehashing d" "ht_size (ht0 d) = 0" | "\<not> dictIsRehashing d" "ht_size (ht0 d) \<noteq> 0"
    "ht_used (ht0 d) \<ge> ht_size (ht0 d) \<and> (can \<or> ht_used (ht0 d) div ht_size (ht0 d) > dict_force_resize_ratio)"
  | "\<not> dictIsRehashing d" "ht_size (ht0 d) \<noteq> 0"
    "\<not> (ht_used (ht0 d) \<ge> ht_size (ht0 d) \<and> (can \<or> ht_used (ht0 d) div ht_size (ht0 d) > dict_force_resize_ratio))"
    by blast
  then show ?thesis
  proof cases
    case 1
    then show ?thesis using that [of d] same_dict_refl [OF ok] dict_okD(3) [OF ok]
      by (auto simp: dictExpandIfNeeded_def rehash_ok_def)
  next
    case 2
    then show ?thesis using dictExpand_rule [OF ok 2(1), of DICT_HT_INITIAL_SIZE] z [OF 2] that
      by (auto simp: dictExpandIfNeeded_def DICT_HT_INITIAL_SIZE_def)
  next
    case 3
    have "dictSize d * 2 \<le> 2 ^ 60" using n by simp
    then show ?thesis using dictExpand_rule [OF ok 3(1), of "dictSize d * 2"] 3 u [OF 3(1)] that
      by (auto simp: dictExpandIfNeeded_def)
  next
    case 4
    then show ?thesis using that [of d] same_dict_refl [OF ok] by (auto simp: dictExpandIfNeeded_def)
  qed
qed


section \<open>The operations on maps\<close>

lemma dict_map_split: "dict_map d k = (case map_of (ht_entries (ht0 d)) k of Some v \<Rightarrow> Some v | None \<Rightarrow> map_of (ht_entries (ht1 d)) k)"
  if "dict_ok T d"
proof -
  have "map_of (ht_entries (ht0 d)) k = None \<or> map_of (ht_entries (ht1 d)) k = None"
    using dict_okD(4) [OF that] by (auto simp: dict_entries_def map_of_eq_None_iff)
  then show ?thesis by (auto simp: dict_map_def dict_entries_def map_add_def split: option.splits)
qed

lemma tables_find_rule:
  assumes ok: "dict_ok T d" and n: "ht_size (ht0 d) \<noteq> 0"
  shows "tables_find T k d = Some (map_option (Pair k) (dict_map d k))"
proof (cases "dictIsRehashing d")
  case True
  then have n1: "ht_size (ht1 d) \<noteq> 0" using dict_okD(3) [OF ok] by (simp add: rehash_ok_def)
  show ?thesis
    using True chain_rule [OF dict_okD(1) [OF ok] n] chain_rule [OF dict_okD(2) [OF ok] n1]
      ht_find [OF dict_okD(1) [OF ok] n] ht_find [OF dict_okD(2) [OF ok] n1]
    by (simp add: tables_find_def dict_map_split [OF ok] split: option.splits)
next
  case False
  then have "ht_entries (ht1 d) = []" using dict_okD(3) [OF ok] by (simp add: rehash_ok_def)
  then show ?thesis
    using False chain_rule [OF dict_okD(1) [OF ok] n] ht_find [OF dict_okD(1) [OF ok] n]
    by (simp add: tables_find_def dict_map_split [OF ok] split: option.splits)
qed

lemma empty_table_map:
  assumes ok: "dict_ok T d" and n: "ht_size (ht0 d) = 0"
  shows "dict_map d = Map.empty" "\<not> dictIsRehashing d"
proof -
  show re: "\<not> dictIsRehashing d" using dict_okD(3) [OF ok] n by (auto simp: rehash_ok_def)
  then show "dict_map d = Map.empty" using dict_okD(3) [OF ok] n ht_okD(1) [OF dict_okD(1) [OF ok]]
    by (simp add: rehash_ok_def dict_map_def dict_entries_def ht_shape_def ht_entries_def dictReset_def)
qed

text \<open>A step of rehashing does not take the tables away.\<close>

lemma rehash_if_tables:
  assumes ok: "dict_ok T d" and n: "ht_size (ht0 d) \<noteq> 0"
  obtains d' where "rehash_if T d = Some d'" "same_dict T d d'" "ht_size (ht0 d') \<noteq> 0"
proof -
  obtain d' where d': "rehash_if T d = Some d'" "same_dict T d d'" by (rule rehash_if_rule [OF ok])
  have "ht_size (ht0 d') \<noteq> 0"
  proof (cases "dictIsRehashing d \<and> iterators d = 0")
    case True
    then have s: "ht_size (ht1 d) \<noteq> 0" using dict_okD(3) [OF ok] by (simp add: rehash_ok_def)
    show ?thesis
    proof (cases "ht_used (ht0 d) = 0")
      case u: True
      then show ?thesis using True d'(1) s by (auto simp: rehash_if_def dictRehashStep_def dictRehash_def)
    next
      case u: False
      obtain e where "rehash_loop T (Suc 0) d = rehash_loop T 0 e" "ht_size (ht0 e) = ht_size (ht0 d)"
        by (rule rehash_one [OF ok conjunct1 [OF True] u]) blast
      then show ?thesis using True d'(1) n by (auto simp: rehash_if_def dictRehashStep_def dictRehash_def simp del: rehash_loop.simps(2))
    qed
  qed (use d'(1) n in \<open>auto simp: rehash_if_def dictRehashStep_def split: if_splits\<close>)
  then show ?thesis using that d' by blast
qed

lemma dict_ok_added:
  assumes ok: "dict_ok T d" and k: "dict_map d k = None" and ok': "ht_ok T (ht0 d')" "ht_ok T (ht1 d')" "rehash_ok d'"
    and m: "mset (dict_entries d') = add_mset (k, v) (mset (dict_entries d))"
  shows "dict_ok T d'" "dict_map d' = (dict_map d)(k \<mapsto> v)" "dictSize d' = Suc (dictSize d)"
proof -
  have "mset ((k, v) # dict_entries d) = mset (dict_entries d')" using m by simp
  moreover have "distinct (map fst ((k, v) # dict_entries d))"
    using dict_okD(4) [OF ok] k by (simp add: dict_map_def map_of_eq_None_iff)
  ultimately have mm: "map_of ((k, v) # dict_entries d) = map_of (dict_entries d')" "distinct (map fst (dict_entries d'))"
    by (rule map_of_mset)+
  show ok2: "dict_ok T d'" using ok' mm(2) by (simp add: dict_ok_def)
  show "dict_map d' = (dict_map d)(k \<mapsto> v)" using mm(1) by (simp add: dict_map_def)
  show "dictSize d' = Suc (dictSize d)" using arg_cong [OF m, of size] by (simp add: dict_size [OF ok] dict_size [OF ok2])
qed

lemma dict_ok_removed:
  assumes ok: "dict_ok T d" and ok': "ht_ok T (ht0 d')" "ht_ok T (ht1 d')" "rehash_ok d'"
    and m: "add_mset (k, v) (mset (dict_entries d')) = mset (dict_entries d)"
  shows "dict_ok T d'" "dict_map d' = (dict_map d)(k := None)" "Suc (dictSize d') = dictSize d"
proof -
  have "mset (dict_entries d) = mset ((k, v) # dict_entries d')" using m by simp
  then have mm: "map_of (dict_entries d) = map_of ((k, v) # dict_entries d')" "distinct (map fst ((k, v) # dict_entries d'))"
    using dict_okD(4) [OF ok] by (rule map_of_mset)+
  show ok2: "dict_ok T d'" using ok' mm(2) by (simp add: dict_ok_def)
  have "map_of (dict_entries d') k = None" using mm(2) by (simp add: map_of_eq_None_iff)
  then show "dict_map d' = (dict_map d)(k := None)" using mm(1) by (auto simp: dict_map_def fun_eq_iff)
  show "Suc (dictSize d') = dictSize d" using arg_cong [OF m, of size] by (simp add: dict_size [OF ok] dict_size [OF ok2])
qed

lemma dict_ok_changed:
  assumes ok: "dict_ok T d" and k: "dict_map d k = Some u" and ok': "ht_ok T (ht0 d')" "ht_ok T (ht1 d')" "rehash_ok d'"
    and m: "add_mset (k, u) (mset (dict_entries d')) = add_mset (k, v) (mset (dict_entries d))"
  shows "dict_ok T d'" "dict_map d' = (dict_map d)(k \<mapsto> v)" "dictSize d' = dictSize d"
proof -
  define F where "F = remove1 (k, u) (dict_entries d)"
  have "(k, u) \<in> set (dict_entries d)" using k by (simp add: dict_map_def map_of_SomeD)
  then have F: "mset (dict_entries d) = mset ((k, u) # F)" by (simp add: F_def)
  have F': "mset ((k, v) # F) = mset (dict_entries d')" using m F by simp
  note a = map_of_mset [OF F dict_okD(4) [OF ok]]
  have "distinct (map fst ((k, v) # F))" using a(2) by simp
  note b = map_of_mset [OF F' this]
  show ok2: "dict_ok T d'" using ok' b(2) by (simp add: dict_ok_def)
  show "dict_map d' = (dict_map d)(k \<mapsto> v)" using a(1) b(1) by (simp add: dict_map_def)
  show "dictSize d' = dictSize d" using arg_cong [OF F, of size] arg_cong [OF F', of size]
    by (simp add: dict_size [OF ok] dict_size [OF ok2])
qed

lemma ht_find_rule:
  assumes ok: "dict_ok T d"
  obtains d' where "dictFind_ht T k d = Some (map_option (Pair k) (dict_map d k), d')" "same_dict T d d'"
    "dict_map d k \<noteq> None \<Longrightarrow> ht_size (ht0 d') \<noteq> 0"
proof (cases "ht_size (ht0 d) = 0")
  case True
  then show ?thesis
    by (intro that [of d]) (simp_all add: dictFind_ht_def empty_table_map [OF ok] same_dict_refl [OF ok])
next
  case False
  obtain d' where d': "rehash_if T d = Some d'" "same_dict T d d'" "ht_size (ht0 d') \<noteq> 0"
    by (rule rehash_if_tables [OF ok False])
  then have "tables_find T k d' = Some (map_option (Pair k) (dict_map d k))"
    using tables_find_rule [of d' k] by (simp add: same_dict_def)
  then show ?thesis using d' False by (intro that [of d']) (simp_all add: dictFind_ht_def)
qed

lemma ht_add_rule:
  assumes ok: "dict_ok T d" and n: "dictSize d \<le> 2 ^ 59"
  obtains d' where "dictAdd_ht T can k v d = Some (dict_map d k = None, d')" "dict_ok T d'"
    "dict_map d' = (if dict_map d k = None then (dict_map d)(k \<mapsto> v) else dict_map d)" "dictSize d' \<le> Suc (dictSize d)"
proof -
  obtain d1 where d1: "rehash_if T d = Some d1" "same_dict T d d1" by (rule rehash_if_rule [OF ok])
  have o1: "dict_ok T d1" "dictSize d1 \<le> 2 ^ 59" using d1(2) n by (simp_all add: same_dict_def)
  obtain d2 where d2: "dictExpandIfNeeded can d1 = Some (True, d2)" "same_dict T d1 d2" "ht_size (ht0 d2) \<noteq> 0"
    by (rule expandIfNeeded_rule [OF o1])
  have s: "same_dict T d d2" by (rule same_dict_trans [OF d1(2) d2(2)])
  then have o2: "dict_ok T d2" "dict_map d2 = dict_map d" "dictSize d2 = dictSize d" by (simp_all add: same_dict_def)
  have f: "tables_find T k d2 = Some (map_option (Pair k) (dict_map d k))"
    using tables_find_rule [OF o2(1) d2(3)] o2(2) by simp
  note eq = dictAdd_ht_def [of T can k v d] d1(1) dictKeyIndex_def [of T can k d1] d2(1) f
  show ?thesis
  proof (cases "dict_map d k = None")
    case False
    then show ?thesis using that [of d2] o2 by (auto simp: eq)
  next
    case none: True
    show ?thesis
    proof (cases "dictIsRehashing d2")
      case True
      then have "ht_size (ht1 d2) \<noteq> 0" using dict_okD(3) [OF o2(1)] by (simp add: rehash_ok_def)
      with dict_okD(2) [OF o2(1)] obtain t where t: "ht_push (k, v) (ht_index T (ht1 d2) k) (ht1 d2) = Some t" "ht_ok T t"
        "mset (ht_entries t) = add_mset (k, v) (mset (ht_entries (ht1 d2)))" "ht_size t = ht_size (ht1 d2)"
        by (rule ht_push_rule [of T _ "(k, v)"]) auto
      have "rehash_ok (d2\<lparr>ht1 := t\<rparr>)" using dict_okD(3) [OF o2(1)] True t(4) by (simp add: rehash_ok_def dictIsRehashing_def)
      then have "dict_ok T (d2\<lparr>ht1 := t\<rparr>) \<and> dict_map (d2\<lparr>ht1 := t\<rparr>) = (dict_map d2)(k \<mapsto> v) \<and> dictSize (d2\<lparr>ht1 := t\<rparr>) = Suc (dictSize d2)"
        using t none o2 dict_okD(1) [OF o2(1)] dict_ok_added [OF o2(1), of k "d2\<lparr>ht1 := t\<rparr>" v]
        by (simp add: dict_entries_def)
      then show ?thesis using that [of "d2\<lparr>ht1 := t\<rparr>"] none o2 True t(1) by (simp add: eq)
    next
      case False
      obtain t where t: "ht_push (k, v) (ht_index T (ht0 d2) k) (ht0 d2) = Some t" "ht_ok T t"
        "mset (ht_entries t) = add_mset (k, v) (mset (ht_entries (ht0 d2)))" "ht_size t = ht_size (ht0 d2)"
        by (rule ht_push_rule [OF dict_okD(1) [OF o2(1)] d2(3), of "(k, v)"]) auto
      have "rehash_ok (d2\<lparr>ht0 := t\<rparr>)" using dict_okD(3) [OF o2(1)] False by (simp add: rehash_ok_def dictIsRehashing_def)
      then have "dict_ok T (d2\<lparr>ht0 := t\<rparr>) \<and> dict_map (d2\<lparr>ht0 := t\<rparr>) = (dict_map d2)(k \<mapsto> v) \<and> dictSize (d2\<lparr>ht0 := t\<rparr>) = Suc (dictSize d2)"
        using t none o2 dict_okD(2) [OF o2(1)] dict_ok_added [OF o2(1), of k "d2\<lparr>ht0 := t\<rparr>" v]
        by (simp add: dict_entries_def)
      then show ?thesis using that [of "d2\<lparr>ht0 := t\<rparr>"] none o2 False t(1) by (simp add: eq)
    qed
  qed
qed

lemma ht_delete_rule:
  assumes ok: "dict_ok T d"
  obtains d' where "dictGenericDelete T k d = Some (map_option (Pair k) (dict_map d k), d')" "dict_ok T d'"
    "dict_map d' = (dict_map d)(k := None)" "dictSize d' \<le> dictSize d"
proof (cases "ht_size (ht0 d) = 0")
  case True
  then show ?thesis
    using ok by (intro that [of d]) (simp_all add: dictGenericDelete_def empty_table_map [OF ok])
next
  case False
  obtain e where e: "rehash_if T d = Some e" "same_dict T d e" "ht_size (ht0 e) \<noteq> 0"
    by (rule rehash_if_tables [OF ok False])
  then have oe: "dict_ok T e" "dict_map e = dict_map d" "dictSize e = dictSize d" by (simp_all add: same_dict_def)
  note o = dict_okD [OF oe(1)]
  note find0 = chain_rule [OF o(1) e(3)] ht_find [OF o(1) e(3)]
  note eq = dictGenericDelete_def [of T k d] False e(1) find0
  show ?thesis
  proof (cases "map_of (ht_entries (ht0 e)) k")
    case (Some v)
    note r = ht_remove_rule [OF o(1) e(3) Some]
    let ?d = "e\<lparr>ht0 := ht_remove T k (ht0 e)\<rparr>"
    have "rehash_ok ?d"
    proof (cases "dictIsRehashing e")
      case True
      then have re: "\<forall>i < nat (rehashidx e). ht_table (ht0 e) ! i = []" using o(3) by (simp add: rehash_ok_def)
      have "ht_table (ht_remove T k (ht0 e)) ! i = []" if "i < nat (rehashidx e)" for i
        using re that by (simp add: ht_remove_def update_keeps_empty)
      then show ?thesis using o(3) True r(3) by (simp add: rehash_ok_def dictIsRehashing_def)
    qed (use o(3) in \<open>simp add: rehash_ok_def dictIsRehashing_def\<close>)
    then have "dict_ok T ?d \<and> dict_map ?d = (dict_map e)(k := None) \<and> Suc (dictSize ?d) = dictSize e"
      using dict_ok_removed [OF oe(1), of ?d k v] r o by (simp add: dict_entries_def)
    then show ?thesis
      using that [of ?d] Some oe dict_map_split [OF oe(1), of k] by (simp add: eq)
  next
    case None
    show ?thesis
    proof (cases "dictIsRehashing e")
      case False
      then have "dict_map d k = None" using None o(3) oe(2) dict_map_split [OF oe(1), of k] by (simp add: rehash_ok_def)
      then show ?thesis using that [of e] oe None False by (simp add: eq fun_upd_idem)
    next
      case True
      then have n1: "ht_size (ht1 e) \<noteq> 0" using o(3) by (simp add: rehash_ok_def)
      note find1 = chain_rule [OF o(2) n1] ht_find [OF o(2) n1]
      have m: "map_of (ht_entries (ht1 e)) k = dict_map d k" using None oe(2) dict_map_split [OF oe(1), of k] by simp
      show ?thesis
      proof (cases "dict_map d k")
        case none: None
        then show ?thesis using that [of e] oe None True m by (simp add: eq find1 fun_upd_idem)
      next
        case (Some v)
        note r = ht_remove_rule [OF o(2) n1 m [unfolded Some]]
        let ?d = "e\<lparr>ht1 := ht_remove T k (ht1 e)\<rparr>"
        have "rehash_ok ?d" using o(3) True r(3) by (simp add: rehash_ok_def dictIsRehashing_def)
        then have "dict_ok T ?d \<and> dict_map ?d = (dict_map e)(k := None) \<and> Suc (dictSize ?d) = dictSize e"
          using dict_ok_removed [OF oe(1), of ?d k v] r o by (simp add: dict_entries_def)
        then show ?thesis using that [of ?d] Some None oe True m by (simp add: eq find1)
      qed
    qed
  qed
qed

lemma entry_set_rule:
  assumes ok: "dict_ok T d" and k: "dict_map d k = Some u" and n: "ht_size (ht0 d) \<noteq> 0"
  obtains d' where "entry_set T k v d = Some d'" "dict_ok T d'" "dict_map d' = (dict_map d)(k \<mapsto> v)" "dictSize d' = dictSize d"
proof -
  note o = dict_okD [OF ok]
  show ?thesis
  proof (cases "map_of (ht_entries (ht0 d)) k")
    case (Some w)
    then have w: "w = u" using k dict_map_split [OF ok, of k] by simp
    note r = ht_set_rule [OF o(1) n Some, of v]
    let ?d = "d\<lparr>ht0 := ht_set T k v (ht0 d)\<rparr>"
    have "ht_table (ht_set T k v (ht0 d)) ! i = []" if "ht_table (ht0 d) ! i = []" for i
      using that by (simp add: ht_set_def update_keeps_empty)
    then have "rehash_ok ?d" using o(3) r(3) by (simp add: rehash_ok_def dictIsRehashing_def)
    then have "dict_ok T ?d \<and> dict_map ?d = (dict_map d)(k \<mapsto> v) \<and> dictSize ?d = dictSize d"
      using dict_ok_changed [OF ok k, of ?d v] r o w by (simp add: dict_entries_def)
    then show ?thesis using that [of ?d] Some by (simp add: entry_set_def chain_rule [OF o(1) n] ht_find [OF o(1) n])
  next
    case None
    then have m: "map_of (ht_entries (ht1 d)) k = Some u" using k dict_map_split [OF ok, of k] by simp
    then have re: "dictIsRehashing d" using o(3) by (auto simp: rehash_ok_def split: if_splits)
    then have n1: "ht_size (ht1 d) \<noteq> 0" using o(3) by (simp add: rehash_ok_def)
    note r = ht_set_rule [OF o(2) n1 m, of v]
    let ?d = "d\<lparr>ht1 := ht_set T k v (ht1 d)\<rparr>"
    have "rehash_ok ?d" using o(3) re r(3) by (simp add: rehash_ok_def dictIsRehashing_def)
    then have "dict_ok T ?d \<and> dict_map ?d = (dict_map d)(k \<mapsto> v) \<and> dictSize ?d = dictSize d"
      using dict_ok_changed [OF ok k, of ?d v] r o by (simp add: dict_entries_def)
    then show ?thesis using that [of ?d] None
      by (simp add: entry_set_def chain_rule [OF o(1) n] ht_find [OF o(1) n] chain_rule [OF o(2) n1])
  qed
qed

lemma ht_replace_rule:
  assumes ok: "dict_ok T d" and n: "dictSize d \<le> 2 ^ 59"
  obtains d' where "dictReplace_ht T can k v d = Some (dict_map d k, d')" "dict_ok T d'"
    "dict_map d' = (dict_map d)(k \<mapsto> v)" "dictSize d' \<le> Suc (dictSize d)"
proof -
  obtain e where e: "dictAdd_ht T can k v d = Some (dict_map d k = None, e)" "dict_ok T e"
    "dict_map e = (if dict_map d k = None then (dict_map d)(k \<mapsto> v) else dict_map d)" "dictSize e \<le> Suc (dictSize d)"
    by (rule ht_add_rule [OF ok n])
  show ?thesis
  proof (cases "dict_map d k")
    case None
    then show ?thesis using that [of e] e by (simp add: dictReplace_ht_def)
  next
    case (Some u)
    then have me: "dict_map e = dict_map d" using e(3) by simp
    obtain f where f: "dictFind_ht T k e = Some (Some (k, u), f)" "same_dict T e f" "ht_size (ht0 f) \<noteq> 0"
      using ht_find_rule [OF e(2), of k] me Some by auto
    then have of_f: "dict_ok T f" "dict_map f k = Some u" "dict_map f = dict_map d" "dictSize f = dictSize e"
      using me Some by (simp_all add: same_dict_def)
    obtain g where g: "entry_set T k v f = Some g" "dict_ok T g" "dict_map g = (dict_map f)(k \<mapsto> v)" "dictSize g = dictSize f"
      by (rule entry_set_rule [OF of_f(1,2) f(3)])
    then show ?thesis using that [of g] e(1,4) f(1) of_f Some by (simp add: dictReplace_ht_def)
  qed
qed

lemma dictResize_rule:
  assumes ok: "dict_ok T d"
  obtains b d' where "dictResize can d = Some (b, d')" "same_dict T d d'"
proof (cases "\<not> can \<or> dictIsRehashing d")
  case True
  then show ?thesis using that [of False d] same_dict_refl [OF ok] by (simp add: dictResize_def)
next
  case False
  define n where "n = nat (let m = sint (of_nat (ht_used (ht0 d)) :: 32 word) in if m < int DICT_HT_INITIAL_SIZE then int DICT_HT_INITIAL_SIZE else m)"
  have eq: "dictResize can d = dictExpand n d" using False by (simp add: dictResize_def n_def Let_def)
  have "sint (of_nat (ht_used (ht0 d)) :: 32 word) < 2 ^ 31"
    using sint_lt [of "of_nat (ht_used (ht0 d)) :: 32 word"] by simp
  then have n: "n \<le> 2 ^ 60" by (auto simp: n_def Let_def DICT_HT_INITIAL_SIZE_def)
  have u: "dictSize d = ht_used (ht0 d)" using False dict_okD(3) [OF ok] by (simp add: rehash_ok_def dictSize_def dictReset_def)
  show ?thesis
  proof (cases "dictSize d \<le> n")
    case True
    then show ?thesis using dictExpand_rule [OF ok _ True n] False that eq by auto
  next
    case big: False
    obtain l where "dictNextPower n = Some (2 ^ l)" by (rule dictNextPower_rule [OF n])
    then show ?thesis using that [of False d] same_dict_refl [OF ok] big u eq by (simp add: dictExpand_def)
  qed
qed

end

lemma sds_compare: "dictSdsKeyCompare a b \<longleftrightarrow> a = b"
  by (auto simp: dictSdsKeyCompare_def list_all2_eq [symmetric] dest: list_all2_lengthD)

interpretation sds_keys: key_type "dbDictType seed" for seed
  by unfold_locales (simp add: dbDictType_def sds_compare)


section \<open>Sequences of operations\<close>

datatype ('k, 'v) dict_op =
  Find 'k | Add bool 'k 'v | Replace bool 'k 'v | Delete 'k | Rehash nat | Resize bool

datatype 'v dict_result = Value "'v option" | Added bool | Done

definition dict_step ::
  "'k dictType \<Rightarrow> ('k, 'v) dict_op \<Rightarrow> ('k, 'v) dictionary \<Rightarrow> ('v dict_result \<times> ('k, 'v) dictionary) option" where
  "dict_step T op d =
     (case op of
        Find k \<Rightarrow> do { (v, d1) \<leftarrow> dictFetchValue T k d; Some (Value v, d1) }
      | Add can k v \<Rightarrow> do { (b, d1) \<leftarrow> dictAdd_ht T can k v d; Some (Added b, d1) }
      | Replace can k v \<Rightarrow> do { (old, d1) \<leftarrow> dictReplace_ht T can k v d; Some (Value old, d1) }
      | Delete k \<Rightarrow> do { (e, d1) \<leftarrow> dictGenericDelete T k d; Some (Value (map_option snd e), d1) }
      | Rehash n \<Rightarrow> do { (_, d1) \<leftarrow> dictRehash T n d; Some (Done, d1) }
      | Resize can \<Rightarrow> do { (_, d1) \<leftarrow> dictResize can d; Some (Done, d1) })"

fun map_step :: "('k, 'v) dict_op \<Rightarrow> ('k \<rightharpoonup> 'v) \<Rightarrow> 'v dict_result \<times> ('k \<rightharpoonup> 'v)" where
  "map_step (Find k) m = (Value (m k), m)"
| "map_step (Add can k v) m = (Added (m k = None), if m k = None then m(k \<mapsto> v) else m)"
| "map_step (Replace can k v) m = (Value (m k), m(k \<mapsto> v))"
| "map_step (Delete k) m = (Value (m k), m(k := None))"
| "map_step (Rehash n) m = (Done, m)"
| "map_step (Resize can) m = (Done, m)"

definition dict_room :: "'k dictType \<Rightarrow> nat \<Rightarrow> ('k, 'v) dictionary \<Rightarrow> bool" where
  "dict_room T n d \<longleftrightarrow> dict_ok T d \<and> dictSize d + n \<le> 2 ^ 59"

context key_type
begin

lemma dictRehash_rule:
  assumes ok: "dict_ok T d"
  obtains b d' where "dictRehash T n d = Some (b, d')" "same_dict T d d'"
proof (cases "dictIsRehashing d")
  case True
  obtain b d' where "rehash_loop T n d = Some (b, d')" "same_dict T d d'" by (rule rehash_loop_rule [OF ok True])
  then show ?thesis using that True by (simp add: dictRehash_def)
next
  case False
  then show ?thesis using that [of False d] same_dict_refl [OF ok] by (simp add: dictRehash_def)
qed

lemma dict_step_simulates:
  assumes "dict_room T (Suc n) d"
  shows "\<exists>d'. dict_step T op d = Some (fst (map_step op (dict_map d)), d') \<and> dict_room T n d' \<and>
     dict_map d' = snd (map_step op (dict_map d))"
proof -
  have ok: "dict_ok T d" and n: "dictSize d + Suc n \<le> 2 ^ 59" "dictSize d \<le> 2 ^ 59" using assms by (simp_all add: dict_room_def)
  show ?thesis
  proof (cases op)
    case (Find k)
    obtain d' where "dictFind_ht T k d = Some (map_option (Pair k) (dict_map d k), d')" "same_dict T d d'"
      by (rule ht_find_rule [OF ok])
    then show ?thesis using Find n
      by (auto simp: dict_step_def dictFetchValue_def same_dict_def dict_room_def option.map_comp comp_def option.map_ident)
  next
    case (Add can k v)
    obtain d' where "dictAdd_ht T can k v d = Some (dict_map d k = None, d')" "dict_ok T d'"
      "dict_map d' = (if dict_map d k = None then (dict_map d)(k \<mapsto> v) else dict_map d)" "dictSize d' \<le> Suc (dictSize d)"
      by (rule ht_add_rule [OF ok n(2)])
    then show ?thesis using Add n(1) by (intro exI [of _ d']) (simp add: dict_step_def dict_room_def)
  next
    case (Replace can k v)
    obtain d' where "dictReplace_ht T can k v d = Some (dict_map d k, d')" "dict_ok T d'"
      "dict_map d' = (dict_map d)(k \<mapsto> v)" "dictSize d' \<le> Suc (dictSize d)"
      by (rule ht_replace_rule [OF ok n(2)])
    then show ?thesis using Replace n(1) by (intro exI [of _ d']) (simp add: dict_step_def dict_room_def)
  next
    case (Delete k)
    obtain d' where "dictGenericDelete T k d = Some (map_option (Pair k) (dict_map d k), d')" "dict_ok T d'"
      "dict_map d' = (dict_map d)(k := None)" "dictSize d' \<le> dictSize d"
      by (rule ht_delete_rule [OF ok])
    then show ?thesis using Delete n(1)
      by (intro exI [of _ d']) (simp add: dict_step_def dict_room_def option.map_comp comp_def option.map_ident)
  next
    case (Rehash m)
    obtain b d' where "dictRehash T m d = Some (b, d')" "same_dict T d d'" by (rule dictRehash_rule [OF ok])
    then show ?thesis using Rehash n(1) by (intro exI [of _ d']) (simp add: dict_step_def dict_room_def same_dict_def)
  next
    case (Resize can)
    obtain b d' where "dictResize can d = Some (b, d')" "same_dict T d d'" by (rule dictResize_rule [OF ok])
    then show ?thesis using Resize n(1) by (intro exI [of _ d']) (simp add: dict_step_def dict_room_def same_dict_def)
  qed
qed

end

interpretation dict_sim: simulation "dict_step (dbDictType seed)" map_step "\<lambda>_. 1" "dict_room (dbDictType seed)" dict_map for seed
  by unfold_locales (simp add: sds_keys.dict_step_simulates)

lemma dictCreate_ok: "dict_ok T dictCreate" "dict_map dictCreate = Map.empty" "dictSize dictCreate = 0"
  by (simp_all add: dict_ok_def dictCreate_def rehash_ok_def dictIsRehashing_def dict_entries_def dict_map_def dictSize_def
      dictReset_def ht_ok_def ht_shape_def ht_entries_def)



text \<open>C18. Incremental rehashing ends: as many steps as the old table has buckets, and one more,
  leave one table, with the same map.\<close>

theorem rehash_ends:
  assumes "dict_ok (dbDictType seed) d"
  shows "\<exists>d'. dictRehash (dbDictType seed) (ht_size (ht0 d) + 1) d = Some (False, d') \<and> \<not> dictIsRehashing d' \<and>
     dict_ok (dbDictType seed) d' \<and> dict_map d' = dict_map d"
proof (cases "dictIsRehashing d")
  case True
  obtain b d' where d': "rehash_loop (dbDictType seed) (ht_size (ht0 d) + 1) d = Some (b, d')" "same_dict (dbDictType seed) d d'"
    "b \<longleftrightarrow> dictIsRehashing d'" "b \<Longrightarrow> rehashidx d + int (ht_size (ht0 d) + 1) \<le> rehashidx d' \<and> ht_size (ht0 d') = ht_size (ht0 d)"
    by (rule sds_keys.rehash_loop_rule [OF assms True, where n = "ht_size (ht0 d) + 1"]) blast
  have "\<not> b"
  proof
    assume b: b
    then have "rehashidx d' \<le> int (ht_size (ht0 d'))" using d'(2,3) by (simp add: same_dict_def dict_ok_def rehash_ok_def)
    moreover have "0 \<le> rehashidx d" using assms True by (simp add: dict_ok_def rehash_ok_def)
    ultimately show False using d'(4) [OF b] by simp
  qed
  then show ?thesis using d' True by (auto simp: dictRehash_def same_dict_def)
qed (use assms in \<open>simp add: dictRehash_def\<close>)

end
