(* ===== verification/Dict_Scan.thy ===== *)
theory Dict_Scan
  imports Dict_Rules
begin

unbundle bit_operations_syntax

text \<open>
  The scan of \<^verbatim>\<open>dict.c\<close>: the cursor counts with its bits reversed, so that the buckets already
  visited stay visited when the table grows between calls. Shown are the reversal of bits, the
  order of the cursors, that a complete scan returns every entry that was there throughout as
  long as the tables do not shrink, and a scan across a shrinking table that misses an entry.
\<close>

section \<open>Reversing the bits of a word\<close>

definition flip :: "nat \<Rightarrow> nat \<Rightarrow> nat" where
  "flip s i = (if even (i div s) then i + s else i - s)"

lemma upt_64: "[0..<64] = [0, 1, 2, 3, 4, 5, 6, 7, 8, 9, 10, 11, 12, 13, 14, 15, 16, 17, 18, 19, 20, 21, 22, 23, 24, 25,
    26, 27, 28, 29, 30, 31, 32, 33, 34, 35, 36, 37, 38, 39, 40, 41, 42, 43, 44, 45, 46, 47, 48, 49, 50, 51, 52, 53,
    54, 55, 56, 57, 58, 59, 60, 61, 62, 63 :: nat]"
  by code_simp

lemma all_64: "\<forall>i \<in> set [0..<64]. P i \<Longrightarrow> i < 64 \<Longrightarrow> P i"
  by simp

lemma masks:
  "- 1 XOR push_bit 32 (- 1) = (0x00000000FFFFFFFF :: 64 word)"
  "0x00000000FFFFFFFF XOR push_bit 16 0x00000000FFFFFFFF = (0x0000FFFF0000FFFF :: 64 word)"
  "0x0000FFFF0000FFFF XOR push_bit 8 0x0000FFFF0000FFFF = (0x00FF00FF00FF00FF :: 64 word)"
  "0x00FF00FF00FF00FF XOR push_bit 4 0x00FF00FF00FF00FF = (0x0F0F0F0F0F0F0F0F :: 64 word)"
  "0x0F0F0F0F0F0F0F0F XOR push_bit 2 0x0F0F0F0F0F0F0F0F = (0x3333333333333333 :: 64 word)"
  "0x3333333333333333 XOR push_bit 1 0x3333333333333333 = (0x5555555555555555 :: 64 word)"
  by code_simp+

lemma mask_bits:
  "i < 64 \<Longrightarrow> bit (0x00000000FFFFFFFF :: 64 word) i = even (i div 32)"
  "i < 64 \<Longrightarrow> bit (0x0000FFFF0000FFFF :: 64 word) i = even (i div 16)"
  "i < 64 \<Longrightarrow> bit (0x00FF00FF00FF00FF :: 64 word) i = even (i div 8)"
  "i < 64 \<Longrightarrow> bit (0x0F0F0F0F0F0F0F0F :: 64 word) i = even (i div 4)"
  "i < 64 \<Longrightarrow> bit (0x3333333333333333 :: 64 word) i = even (i div 2)"
  "i < 64 \<Longrightarrow> bit (0x5555555555555555 :: 64 word) i = even (i div 1)"
  by (erule all_64 [rotated], simp only: upt_64 list.set ball_simps, simp)+

lemma flips: "i < 64 \<Longrightarrow> flip 32 (flip 16 (flip 8 (flip 4 (flip 2 (flip 1 i))))) = 63 - i"
  by (erule all_64 [rotated]) (simp only: upt_64 list.set ball_simps, simp add: flip_def)

lemma flip_less:
  "i < 64 \<Longrightarrow> flip 1 i < 64" "i < 64 \<Longrightarrow> flip 2 i < 64" "i < 64 \<Longrightarrow> flip 4 i < 64"
  "i < 64 \<Longrightarrow> flip 8 i < 64" "i < 64 \<Longrightarrow> flip 16 i < 64"
  by (erule all_64 [rotated], simp only: upt_64 list.set ball_simps, simp add: flip_def)+

definition swap_bits :: "nat \<Rightarrow> 64 word \<Rightarrow> 64 word \<Rightarrow> 64 word" where
  "swap_bits s m v = (drop_bit s v AND m) OR (push_bit s v AND NOT m)"

lemma rev_step_swap: "m XOR push_bit s m = m' \<Longrightarrow> rev_step s (m, v) = (m', swap_bits s m' v)"
  by (simp add: rev_step_def swap_bits_def)

lemma bit_swap:
  assumes "\<And>i. i < 64 \<Longrightarrow> bit m i = even (i div s)" and i: "i < 64"
  shows "bit (swap_bits s m v) i = bit v (flip s i)"
proof -
  have "s \<le> i" if "odd (i div s)" using that by (metis div_less even_zero not_le)
  then show ?thesis using assms by (auto simp: swap_bits_def bit_simps flip_def add.commute)
qed

lemma bit_rev64:
  assumes "i < 64"
  shows "bit (rev64 v) i = bit v (63 - i)"
proof -
  note steps = masks [THEN rev_step_swap]
  note swaps = mask_bits(1) [THEN bit_swap] mask_bits(2) [THEN bit_swap] mask_bits(3) [THEN bit_swap]
    mask_bits(4) [THEN bit_swap] mask_bits(5) [THEN bit_swap] mask_bits(6) [THEN bit_swap]
  have "bit (rev64 v) i = bit v (flip 32 (flip 16 (flip 8 (flip 4 (flip 2 (flip 1 i))))))"
    unfolding rev64_def by (simp only: fold_simps steps snd_conv swaps flip_less assms)
  then show ?thesis by (simp only: flips [OF assms])
qed

lemma rev64_rev64 [simp]: "rev64 (rev64 v) = v"
  by (rule bit_word_eqI) (simp add: bit_rev64)

lemma rev64_eq_iff: "rev64 a = rev64 b \<longleftrightarrow> a = b"
  by (metis rev64_rev64)


section \<open>The order of cursors\<close>

text \<open>The position of a cursor, or of a hash value, in the order of the scan.\<close>

definition scan_pos :: "64 word \<Rightarrow> nat" where
  "scan_pos v = unat (rev64 v)"

lemma rev64_zero [simp]: "rev64 0 = 0"
  by (rule bit_word_eqI) (simp add: bit_rev64)

lemma scan_pos_0 [simp]: "scan_pos 0 = 0"
  by (simp add: scan_pos_def)

lemma scan_pos_less: "scan_pos v < 2 ^ 64"
  unfolding scan_pos_def using unsigned_less [of "rev64 v"] by simp

lemma word_of_mask: "of_nat (2 ^ k - 1) = (mask k :: 64 word)"
  by (simp add: mask_eq_exp_minus_1 of_nat_diff)

lemma same_bucket:
  assumes "k \<le> 64"
  shows "take_bit k h = take_bit k v \<longleftrightarrow> drop_bit (64 - k) (rev64 h) = drop_bit (64 - k) (rev64 v)"
proof
  assume "take_bit k h = take_bit k v"
  then have b: "bit h i = bit v i" if "i < k" for i using that by (metis bit_take_bit_iff)
  show "drop_bit (64 - k) (rev64 h) = drop_bit (64 - k) (rev64 v)"
  proof (rule bit_word_eqI)
    fix n assume "n < LENGTH(64)"
    show "bit (drop_bit (64 - k) (rev64 h)) n = bit (drop_bit (64 - k) (rev64 v)) n"
    proof (cases "64 - k + n < 64")
      case True
      then have "63 - (64 - k + n) < k" using assms by linarith
      then show ?thesis using True b by (simp add: bit_simps bit_rev64)
    qed (auto simp: bit_simps dest: bit_imp_le_length)
  qed
next
  assume e: "drop_bit (64 - k) (rev64 h) = drop_bit (64 - k) (rev64 v)"
  have "bit h i = bit v i" if i: "i < k" for i
  proof -
    have j: "64 - k + (k - 1 - i) = 63 - i" "63 - i < 64" "i < 64" using assms i by linarith+
    have "bit (rev64 h) (63 - i) = bit (rev64 v) (63 - i)"
      using arg_cong [OF e, of "\<lambda>w. bit w (k - 1 - i)"] by (simp only: bit_drop_bit_eq comp_apply j(1))
    then show ?thesis using j by (simp add: bit_rev64)
  qed
  then show "take_bit k h = take_bit k v" by (intro bit_word_eqI) (auto simp: bit_simps)
qed

lemma low_bit_zero: "take_bit k w = 0 \<Longrightarrow> n < k \<Longrightarrow> \<not> bit w n" for w :: "64 word"
  by (drule arg_cong [where f = "\<lambda>w. bit w n"]) (simp add: bit_take_bit_iff)

lemma rev64_low_zero:
  assumes "k \<le> 64" "take_bit k v = v"
  shows "take_bit (64 - k) (rev64 v) = 0"
proof (rule bit_word_eqI)
  fix n assume n: "n < LENGTH(64)"
  have "\<not> bit v (63 - n)" if "n < 64 - k"
  proof -
    have "k \<le> 63 - n" using that by linarith
    then show ?thesis using assms(2) by (metis bit_take_bit_iff not_le)
  qed
  then show "bit (take_bit (64 - k) (rev64 v)) n = bit 0 n" using n by (auto simp: bit_simps bit_rev64)
qed

lemma unat_drop: "unat (drop_bit n w) = unat w div 2 ^ n"
  by (simp only: unsigned_drop_bit_eq) (simp add: drop_bit_eq_div take_bit_nat_eq_self [OF unsigned_less])

lemma unat_take: "unat (take_bit n w) = unat w mod 2 ^ n"
  by (simp only: unsigned_take_bit_eq) (simp add: take_bit_eq_mod)

text \<open>The hash values that fall into the bucket of a cursor are an interval of positions.\<close>

lemma bucket_interval:
  assumes k: "k \<le> 64" and v: "take_bit k v = v" and h: "scan_pos v \<le> scan_pos h" "scan_pos h < scan_pos v + 2 ^ (64 - k)"
  shows "take_bit k h = v"
proof -
  have "scan_pos v mod 2 ^ (64 - k) = 0"
    using arg_cong [OF rev64_low_zero [OF k v], of unat] by (simp add: scan_pos_def unat_take)
  then obtain q where q: "scan_pos v = q * 2 ^ (64 - k)" by (metis mod_0_imp_dvd dvd_div_mult_self)
  have "scan_pos h div 2 ^ (64 - k) = q"
  proof (rule div_nat_eqI)
    show "2 ^ (64 - k) * q \<le> scan_pos h" using h(1) q by (simp add: mult.commute)
    show "scan_pos h < 2 ^ (64 - k) * Suc q" using h(2) q by (simp add: mult.commute)
  qed
  moreover have "scan_pos v div 2 ^ (64 - k) = q" by (simp add: q)
  ultimately have "unat (drop_bit (64 - k) (rev64 h)) = unat (drop_bit (64 - k) (rev64 v))"
    by (simp add: unat_drop scan_pos_def)
  then have "take_bit k h = take_bit k v" using same_bucket [OF k] word_unat_eq_iff by blast
  then show ?thesis using v by simp
qed

lemma rev64_next:
  assumes k: "k \<le> 64"
  shows "rev64 (scan_next (mask k) w) = rev64 (take_bit k w) + push_bit (64 - k) 1"
proof -
  have "rev64 (w OR NOT (mask k)) = rev64 (take_bit k w) OR mask (64 - k)"
  proof (rule bit_word_eqI)
    fix n assume "n < LENGTH(64)"
    then have n: "n < 64" by simp
    have "63 - n < k \<longleftrightarrow> \<not> n < 64 - k" using k n by linarith
    then show "bit (rev64 (w OR NOT (mask k))) n = bit (rev64 (take_bit k w) OR mask (64 - k)) n"
      using n by (auto simp: bit_rev64 bit_simps)
  qed
  also have "\<dots> = rev64 (take_bit k w) + mask (64 - k)"
  proof (rule disjunctive_add [symmetric])
    fix n
    have "take_bit (64 - k) (rev64 (take_bit k w)) = 0" by (rule rev64_low_zero [OF k]) simp
    then have "\<not> bit (rev64 (take_bit k w)) n" if "n < 64 - k" using that by (rule low_bit_zero)
    then show "\<not> bit (rev64 (take_bit k w)) n \<or> \<not> bit (mask (64 - k) :: 64 word) n" by (auto simp: bit_simps)
  qed
  finally show ?thesis by (simp add: scan_next_def mask_eq_exp_minus_1 push_bit_eq_mult)
qed

lemma scan_next_rule:
  assumes k: "0 < k" "k \<le> 64" and v: "take_bit k w = v"
  shows "take_bit k (scan_next (mask k) w) = scan_next (mask k) w"
    "scan_next (mask k) w = 0 \<and> scan_pos v + 2 ^ (64 - k) = 2 ^ 64 \<or>
     scan_next (mask k) w \<noteq> 0 \<and> scan_pos (scan_next (mask k) w) = scan_pos v + 2 ^ (64 - k)"
proof -
  let ?u = "scan_next (mask k) w"
  let ?p = "push_bit (64 - k) 1 :: 64 word"
  have r: "rev64 ?u = rev64 v + ?p" using rev64_next [OF k(2), of w] v by simp
  have p: "unat ?p = 2 ^ (64 - k)" using k(1) by (simp only: unsigned_push_bit_eq) (simp add: push_bit_eq_mult)
  have z: "take_bit (64 - k) (rev64 v) = 0" using rev64_low_zero [OF k(2), of v] v by auto
  have m: "scan_pos v mod 2 ^ (64 - k) = 0" unfolding scan_pos_def unat_take [symmetric] z by simp
  have split: "(2 :: nat) ^ 64 = 2 ^ k * 2 ^ (64 - k)" using k(2) by (simp flip: power_add)
  have le: "scan_pos v + 2 ^ (64 - k) \<le> 2 ^ 64"
  proof -
    obtain q where q: "scan_pos v = q * 2 ^ (64 - k)" using m by (metis mod_0_imp_dvd dvd_div_mult_self)
    then have "q < 2 ^ k" using scan_pos_less [of v] unfolding split by simp
    then have "Suc q * 2 ^ (64 - k) \<le> 2 ^ k * 2 ^ (64 - k)" by (intro mult_le_mono1) simp
    then show ?thesis unfolding split q by simp
  qed
  have u: "scan_pos ?u = (scan_pos v + 2 ^ (64 - k)) mod 2 ^ 64"
    unfolding scan_pos_def r unat_word_ariths(1) p by simp
  show "?u = 0 \<and> scan_pos v + 2 ^ (64 - k) = 2 ^ 64 \<or> ?u \<noteq> 0 \<and> scan_pos ?u = scan_pos v + 2 ^ (64 - k)"
  proof (cases "scan_pos v + 2 ^ (64 - k) = 2 ^ 64")
    case True
    then have "rev64 ?u = rev64 0" using u by (simp add: scan_pos_def [of ?u] unat_eq_zero rev64_zero)
    then have "?u = 0" by (rule rev64_eq_iff [THEN iffD1])
    with True show ?thesis by blast
  next
    case False
    then have "scan_pos ?u = scan_pos v + 2 ^ (64 - k)" using le u by simp
    moreover from this have "scan_pos ?u \<noteq> 0" by simp
    ultimately show ?thesis by (metis scan_pos_0)
  qed
  have "take_bit (64 - k) (rev64 ?u) = 0"
  proof -
    have "scan_pos ?u mod 2 ^ (64 - k) = 0"
      unfolding u split using m by (simp add: mod_mod_cancel mod_add_self2)
    then show ?thesis by (simp add: scan_pos_def word_unat_eq_iff unat_take)
  qed
  then have "\<not> bit (rev64 ?u) n" if "n < 64 - k" for n using that by (rule low_bit_zero)
  then have "\<not> bit ?u i" if "k \<le> i" "i < 64" for i
  proof -
    have i: "63 - i < 64 - k" "63 - i < 64" "63 - (63 - i) = i" using that by linarith+
    show ?thesis using that(1) bit_rev64 [OF i(2), of ?u] i(3) \<open>\<And>n. n < 64 - k \<Longrightarrow> \<not> bit (rev64 ?u) n\<close> [OF i(1)] by simp
  qed
  then have "bit ?u n \<Longrightarrow> n < k" for n using bit_imp_le_length [of ?u n] by (simp add: not_le [symmetric]) blast
  then show "take_bit k ?u = ?u" by (intro bit_word_eqI) (auto simp: bit_simps)
qed


section \<open>One call\<close>

text \<open>The table that the cursor counts through: the smaller one during rehashing.\<close>

definition scan_size :: "('k, 'v) dictionary \<Rightarrow> nat" where
  "scan_size d = (if dictIsRehashing d then min (ht_size (ht0 d)) (ht_size (ht1 d)) else ht_size (ht0 d))"

definition key_hash :: "'k dictType \<Rightarrow> 'k \<Rightarrow> 64 word" where
  "key_hash T k = ucast (hashFunction T k)"

lemma ht_index_hash:
  assumes "ht_sizemask t = 2 ^ k - 1"
  shows "ht_index T t x = unat (take_bit k (key_hash T x))"
proof -
  have "unat (key_hash T x) = unat (hashFunction T x)"
  proof -
    have "unat (hashFunction T x) < 2 ^ LENGTH(32)" by (rule unsigned_less)
    then show ?thesis by (simp add: key_hash_def unsigned_ucast_eq take_bit_nat_eq_self)
  qed
  then show ?thesis using assms by (simp add: ht_index_def nat_and_mask unat_take)
qed

lemma and_size_mask: "v AND of_nat (2 ^ k - 1) = (take_bit k v :: 64 word)"
  by (simp only: word_of_mask take_bit_eq_mask)

lemma entry_in_bucket:
  assumes ok: "ht_ok T t" and m: "ht_sizemask t = 2 ^ k - 1" and e: "e \<in> set (ht_entries t)"
  shows "e \<in> set (ht_table t ! unat (take_bit k (key_hash T (fst e))))"
proof -
  obtain c where "c \<in> set (ht_table t)" "e \<in> set c" using e by (auto simp: ht_entries_def)
  then obtain i where "i < length (ht_table t)" "e \<in> set (ht_table t ! i)" by (metis in_set_conv_nth)
  then show ?thesis using ht_okD(3) [OF ok] ht_index_hash [OF m] by metis
qed

lemma take_bit_zero_iff: "take_bit k v = 0 \<longleftrightarrow> 2 ^ k dvd unat v"
  by (metis mod_0_imp_dvd dvd_imp_mod_0 unat_take unsigned_0 word_unat_eq_iff)

lemma take_bit_add_zero:
  fixes a b :: "64 word"
  assumes "take_bit k a = 0" "take_bit k b = 0"
  shows "take_bit k (a + b) = 0"
proof (cases "k \<le> 64")
  case True
  then have "(2 :: nat) ^ k dvd 2 ^ 64" by (rule le_imp_power_dvd)
  then show ?thesis using assms by (simp add: take_bit_zero_iff unat_word_ariths(1) dvd_mod)
next
  case False
  then show ?thesis using assms by (simp add: take_bit_word_eq_self)
qed

lemma high_part: "take_bit k w = 0 \<Longrightarrow> w AND NOT (mask k) = w" for w :: "64 word"
  by (rule bit_word_eqI) (auto simp: bit_simps dest: low_bit_zero)

lemma high_low: "take_bit k w = 0 \<Longrightarrow> w OR (v AND mask k) = w + (v AND mask k)" for w :: "64 word"
  by (rule disjunctive_add [symmetric]) (auto simp: bit_simps dest: low_bit_zero)

text \<open>Stepping through the expansions adds the size of the smaller table.\<close>

lemma next_expansion:
  assumes "k < 64"
  shows "(((v OR mask k) + 1) AND NOT (mask k)) OR (v AND mask k) = (v :: 64 word) + push_bit k 1"
proof -
  let ?h = "v AND NOT (mask k)"
  have "v OR mask k = ?h OR mask k" by (rule bit_word_eqI) (auto simp: bit_simps)
  also have "\<dots> = ?h + mask k" by (rule disjunctive_add [symmetric]) (auto simp: bit_simps)
  finally have s: "(v OR mask k) + 1 = ?h + push_bit k 1" by (simp add: mask_eq_exp_minus_1 push_bit_eq_mult)
  have "take_bit k ?h = 0" by (rule bit_word_eqI) (auto simp: bit_simps)
  moreover have "take_bit k (push_bit k 1 :: 64 word) = 0" by (rule bit_word_eqI) (auto simp: bit_simps)
  ultimately have z: "take_bit k (?h + push_bit k 1) = 0" by (rule take_bit_add_zero)
  note c = high_part [OF z] and o = high_low [OF z, of v]
  have "?h + (v AND mask k) = ?h OR (v AND mask k)" by (rule disjunctive_add) (auto simp: bit_simps)
  also have "\<dots> = v" by (rule bit_word_eqI) (auto simp: bit_simps)
  finally have "?h + push_bit k 1 + (v AND mask k) = v + push_bit k 1" by (simp add: add.commute add.left_commute)
  then show ?thesis by (simp only: s c o)
qed

lemma expansion_done:
  assumes k: "k0 \<le> k1" "k1 \<le> 60" and v: "unat v = r + j * 2 ^ k0" "r < 2 ^ k0" "j \<le> 2 ^ (k1 - k0)" "0 < j"
  shows "v AND (mask k0 XOR mask k1) = 0 \<longleftrightarrow> j = 2 ^ (k1 - k0)"
proof -
  have split: "(2 :: nat) ^ k1 = 2 ^ (k1 - k0) * 2 ^ k0" using k(1) by (simp flip: power_add)
  have "v AND (mask k0 XOR mask k1) = push_bit k0 (drop_bit k0 (take_bit k1 v))"
    using k(1) by (intro bit_word_eqI) (auto simp: bit_simps)
  moreover have "push_bit k0 (drop_bit k0 (take_bit k1 v)) = 0 \<longleftrightarrow> drop_bit k0 (take_bit k1 v) = 0"
  proof -
    have "drop_bit k0 (push_bit k0 (drop_bit k0 (take_bit k1 v))) = drop_bit k0 (take_bit k1 v)"
      by (rule bit_word_eqI) (auto simp: bit_simps dest: bit_imp_le_length)
    then show ?thesis by (metis drop_bit_of_0 push_bit_of_0)
  qed
  moreover have "drop_bit k0 (take_bit k1 v) = 0 \<longleftrightarrow> (r + j * 2 ^ k0) mod 2 ^ k1 div 2 ^ k0 = 0"
    by (simp only: word_unat_eq_iff unat_drop unat_take v(1) unsigned_0)
  moreover have "(r + j * 2 ^ k0) mod 2 ^ k1 div 2 ^ k0 = j mod 2 ^ (k1 - k0)"
    unfolding split mult.commute [of _ "2 ^ k0"] using v(2) by (simp add: mod_mult2_eq)
  moreover have "j mod 2 ^ (k1 - k0) = 0 \<longleftrightarrow> j = 2 ^ (k1 - k0)"
    using v(3,4) by (metis dvd_imp_le mod_0_imp_dvd mod_self le_antisym)
  ultimately show ?thesis by simp
qed

lemma scan_expand_rule:
  assumes k: "k0 \<le> k1" "k1 \<le> 60" and t: "length (ht_table t) = 2 ^ k1"
    and v: "unat v = r + j * 2 ^ k0" "r < 2 ^ k0" "j < 2 ^ (k1 - k0)"
  shows "\<exists>es w. scan_expand t (mask k0) (mask k1) v = Some (es, w) \<and> take_bit k0 w = take_bit k0 v \<and>
     (\<forall>i. j \<le> i \<longrightarrow> i < 2 ^ (k1 - k0) \<longrightarrow> set (ht_table t ! (r + i * 2 ^ k0)) \<subseteq> set es)"
  using v
proof (induction "2 ^ (k1 - k0) - j" arbitrary: j v)
  case 0
  then show ?case by simp
next
  case (Suc n)
  have split: "(2 :: nat) ^ k1 = 2 ^ (k1 - k0) * 2 ^ k0" using k(1) by (simp flip: power_add)
  have "j * 2 ^ k0 + 2 ^ k0 \<le> 2 ^ k1"
    unfolding split using Suc.prems(3) by (metis Suc_leI add.commute mult_Suc mult_le_mono1)
  moreover have "(2 :: nat) ^ k1 \<le> 2 ^ 60" using k(2) by (intro power_increasing) auto
  ultimately have b: "unat v < 2 ^ k1" "unat v + 2 ^ k0 < 2 ^ 64" using Suc.prems(1,2) by simp_all
  have idx: "unat (v AND mask k1) = r + j * 2 ^ k0"
    using b(1) Suc.prems(1) by (simp flip: take_bit_eq_mask add: unat_take)
  then have c: "ht_chain t (unat (v AND mask k1)) = Some (ht_table t ! (r + j * 2 ^ k0))"
    using b(1) Suc.prems(1) t by (simp add: ht_chain_def)
  let ?v = "v + push_bit k0 1"
  have "unat (push_bit k0 1 :: 64 word) = 2 ^ k0"
    using k by (simp only: unsigned_push_bit_eq) (simp add: push_bit_eq_mult)
  then have v': "unat ?v = r + Suc j * 2 ^ k0" using b(2) Suc.prems(1) by (simp add: unat_word_ariths(1))
  then have low: "take_bit k0 ?v = take_bit k0 v" by (simp only: word_unat_eq_iff unat_take v' Suc.prems(1) mod_mult_self1)
  have step: "(((v OR mask k0) + 1) AND NOT (mask k0)) OR (v AND mask k0) = ?v" by (rule next_expansion) (use k in simp)
  have fin: "?v AND (mask k0 XOR mask k1) = 0 \<longleftrightarrow> Suc j = 2 ^ (k1 - k0)"
    using v' Suc.prems(2,3) by (intro expansion_done [OF k]) auto
  note eq = scan_expand.simps [of t "mask k0" "mask k1" v] c step
  show ?case
  proof (cases "Suc j = 2 ^ (k1 - k0)")
    case True
    then have "scan_expand t (mask k0) (mask k1) v = Some (ht_table t ! (r + j * 2 ^ k0), ?v)" using fin by (simp add: eq)
    moreover have "i = j" if "j \<le> i" "i < 2 ^ (k1 - k0)" for i using that True by linarith
    ultimately show ?thesis using low by blast
  next
    case False
    then have "Suc j < 2 ^ (k1 - k0)" using Suc.prems(3) by simp
    moreover have "n = 2 ^ (k1 - k0) - Suc j" using Suc.hyps(2) by linarith
    ultimately obtain es w where es: "scan_expand t (mask k0) (mask k1) ?v = Some (es, w)" "take_bit k0 w = take_bit k0 ?v"
      "\<forall>i. Suc j \<le> i \<longrightarrow> i < 2 ^ (k1 - k0) \<longrightarrow> set (ht_table t ! (r + i * 2 ^ k0)) \<subseteq> set es"
      using Suc.hyps(1) [OF _ v' Suc.prems(2)] by blast
    have "scan_expand t (mask k0) (mask k1) v = Some (ht_table t ! (r + j * 2 ^ k0) @ es, w)"
      using False fin es(1) by (simp add: eq)
    moreover have "set (ht_table t ! (r + i * 2 ^ k0)) \<subseteq> set (ht_table t ! (r + j * 2 ^ k0) @ es)"
      if "j \<le> i" "i < 2 ^ (k1 - k0)" for i
    proof (cases "i = j")
      case False
      then have "Suc j \<le> i" using that(1) by simp
      then show ?thesis using es(3) that(2) by auto
    qed simp
    ultimately show ?thesis using es(2) low by auto
  qed
qed

text \<open>
  One call sees every entry of the interval of positions that starts at the cursor, and moves the
  cursor to the end of the interval; the bits of the cursor above the table are zero.
\<close>

lemma scan_call:
  assumes ok: "dict_ok T d" and n: "dictSize d \<noteq> 0" and k: "scan_size d = 2 ^ k" "2 \<le> k" "k \<le> 60" and v: "take_bit k v = v"
  obtains es u where "dictScan d v = Some (es, u)" "take_bit k u = u"
    "\<And>e. e \<in> set (dict_entries d) \<Longrightarrow> scan_pos v \<le> scan_pos (key_hash T (fst e)) \<Longrightarrow>
       scan_pos (key_hash T (fst e)) < scan_pos v + 2 ^ (64 - k) \<Longrightarrow> e \<in> set es"
    "u = 0 \<and> scan_pos v + 2 ^ (64 - k) = 2 ^ 64 \<or> u \<noteq> 0 \<and> scan_pos u = scan_pos v + 2 ^ (64 - k)"
proof (cases "dictIsRehashing d")
  case False
  note o0 = dict_okD(1) [OF ok]
  have m: "ht_sizemask (ht0 d) = 2 ^ k - 1" "length (ht_table (ht0 d)) = 2 ^ k"
    using ht_okD(1) [OF o0] k(1) False by (auto simp: ht_shape_def scan_size_def)
  have e1: "ht_entries (ht1 d) = []" using dict_okD(3) [OF ok] False by (simp add: rehash_ok_def)
  have i: "unat v < 2 ^ k" using v by (metis unat_take mod_less_divisor zero_less_numeral zero_less_power)
  let ?c = "ht_table (ht0 d) ! unat v"
  have "dictScan d v = Some (?c, scan_next (mask k) v)"
    using n False m i v by (simp add: dictScan_def ht_chain_def word_of_mask [unfolded One_nat_def] flip: take_bit_eq_mask)
  moreover have "e \<in> set ?c" if "e \<in> set (dict_entries d)" "take_bit k (key_hash T (fst e)) = v" for e
    using entry_in_bucket [OF o0 m(1), of e] that e1 by (simp add: dict_entries_def)
  ultimately show ?thesis
    using that [of ?c "scan_next (mask k) v"] scan_next_rule [of k v v] bucket_interval [of k v] k v by simp
next
  case True
  define t0 t1 where "t0 = (if ht_size (ht0 d) > ht_size (ht1 d) then ht1 d else ht0 d)"
    and "t1 = (if ht_size (ht0 d) > ht_size (ht1 d) then ht0 d else ht1 d)"
  have o: "ht_ok T t0" "ht_ok T t1" using dict_okD(1,2) [OF ok] by (simp_all add: t0_def t1_def)
  have s: "ht_size t0 = 2 ^ k" "ht_size t0 \<le> ht_size t1" using True k(1) by (auto simp: t0_def t1_def scan_size_def)
  have m0: "ht_sizemask t0 = 2 ^ k - 1" "length (ht_table t0) = 2 ^ k" using ht_okD(1) [OF o(1)] s(1) by (auto simp: ht_shape_def)
  have "ht_size t1 \<noteq> 0" using s by (metis le_zero_eq power_not_zero zero_neq_numeral)
  then obtain k1 where k1: "k1 \<le> 60" "ht_size t1 = 2 ^ k1" "ht_sizemask t1 = 2 ^ k1 - 1" "length (ht_table t1) = 2 ^ k1"
    using ht_okD(1) [OF o(2)] by (auto simp: ht_shape_def)
  have le: "k \<le> k1" using s k1(2) by simp
  have i: "unat v < 2 ^ k" using v by (metis unat_take mod_less_divisor zero_less_numeral zero_less_power)
  let ?c = "ht_table t0 ! unat v"
  obtain es w where es: "scan_expand t1 (mask k) (mask k1) v = Some (es, w)" "take_bit k w = take_bit k v"
    "\<forall>i. 0 \<le> i \<longrightarrow> i < 2 ^ (k1 - k) \<longrightarrow> set (ht_table t1 ! (unat v + i * 2 ^ k)) \<subseteq> set es"
    using scan_expand_rule [OF le k1(1,4), of v "unat v" 0] i by auto
  have "(if ht_size (ht0 d) > ht_size (ht1 d) then (ht1 d, ht0 d) else (ht0 d, ht1 d)) = (t0, t1)"
    by (simp add: t0_def t1_def)
  then have "dictScan d v = Some (?c @ es, scan_next (mask k) w)"
    using n True m0 k1 i v es(1)
    by (simp add: dictScan_def ht_chain_def word_of_mask [unfolded One_nat_def] flip: take_bit_eq_mask)
  moreover have "e \<in> set (?c @ es)" if e: "e \<in> set (dict_entries d)" "take_bit k (key_hash T (fst e)) = v" for e
  proof -
    have "set (dict_entries d) = set (ht_entries t0) \<union> set (ht_entries t1)" by (auto simp: dict_entries_def t0_def t1_def)
    with e(1) consider "e \<in> set (ht_entries t0)" | "e \<in> set (ht_entries t1)" by blast
    then show ?thesis
    proof cases
      case 1
      then show ?thesis using entry_in_bucket [OF o(1) m0(1) 1] e(2) by simp
    next
      case 2
      let ?h = "unat (take_bit k1 (key_hash T (fst e)))"
      have "?h mod 2 ^ k = unat v"
        using e(2) le by (metis min.absorb1 take_bit_take_bit unat_take)
      then have "?h = unat v + ?h div 2 ^ k * 2 ^ k" by (metis mod_div_mult_eq)
      moreover have "?h div 2 ^ k < 2 ^ (k1 - k)"
      proof (rule less_mult_imp_div_less)
        have "?h < 2 ^ k1" by (simp add: unat_take)
        then show "?h < 2 ^ (k1 - k) * 2 ^ k" using le by (simp flip: power_add)
      qed
      ultimately have "set (ht_table t1 ! ?h) \<subseteq> set es" using es(3) by (metis le0)
      then show ?thesis using entry_in_bucket [OF o(2) k1(3) 2] by auto
    qed
  qed
  ultimately show ?thesis
    using that [of "?c @ es" "scan_next (mask k) w"] scan_next_rule [of k w v] bucket_interval [of k v] es(2) k v by simp
qed


section \<open>Complete scans\<close>

text \<open>
  A client calls until it gets the cursor 0. Between two calls the dictionary may change: the
  list holds the state each call sees. The result is what the calls returned and whether the
  cursor came back to 0.
\<close>

primrec scan_run :: "('k, 'v) dictionary list \<Rightarrow> 64 word \<Rightarrow> (('k \<times> 'v) list \<times> bool) option" where
  "scan_run [] v = Some ([], False)"
| "scan_run (d # ds) v = do {
     (es, u) \<leftarrow> dictScan d v;
     if u = 0 then Some (es, True)
     else do {
       (es', fin) \<leftarrow> scan_run ds u;
       Some (es @ es', fin)
     }
   }"

lemma scan_size_power:
  assumes ok: "dict_ok T d" and n: "dictSize d \<noteq> 0"
  obtains k where "scan_size d = 2 ^ k" "2 \<le> k" "k \<le> 60"
proof -
  note s = ht_okD(1) [OF dict_okD(1) [OF ok]] ht_okD(1) [OF dict_okD(2) [OF ok]]
  have n0: "ht_size (ht0 d) \<noteq> 0"
  proof
    assume z: "ht_size (ht0 d) = 0"
    then have "\<not> dictIsRehashing d" using dict_okD(3) [OF ok] by (auto simp: rehash_ok_def)
    then have "ht_used (ht1 d) = 0" using dict_okD(3) [OF ok] by (simp add: rehash_ok_def dictReset_def)
    moreover have "ht_used (ht0 d) = 0" using s(1) z ht_okD(2) [OF dict_okD(1) [OF ok]] by (simp add: ht_shape_def ht_entries_def)
    ultimately show False using n by (simp add: dictSize_def)
  qed
  then have "scan_size d \<noteq> 0" using dict_okD(3) [OF ok] by (auto simp: rehash_ok_def scan_size_def min_def split: if_splits)
  moreover have "scan_size d = ht_size (ht0 d) \<or> scan_size d = ht_size (ht1 d)" by (auto simp: scan_size_def min_def)
  ultimately show ?thesis using s that by (auto simp: ht_shape_def)
qed

lemma scan_size_bound:
  assumes ok: "dict_ok T d"
  shows "\<exists>l \<le> 60. scan_size d \<le> 2 ^ l \<and> 2 ^ l \<le> max 1 (scan_size d)"
proof -
  have "scan_size d = ht_size (ht0 d) \<or> scan_size d = ht_size (ht1 d)" by (auto simp: scan_size_def min_def)
  then consider "scan_size d = 0" | k where "scan_size d = 2 ^ k" "k \<le> 60"
    using ht_okD(1) [OF dict_okD(1) [OF ok]] ht_okD(1) [OF dict_okD(2) [OF ok]] by (auto simp: ht_shape_def)
  then show ?thesis by cases (auto intro: exI [of _ 0])
qed

lemma sorted_map_last: "sorted (map f ds) \<Longrightarrow> d \<in> set ds \<Longrightarrow> f d \<le> f (last ds)"
  by (induction ds) (auto split: if_splits)

lemma scan_run_rule:
  assumes "\<forall>d \<in> set ds. dict_ok T d" "sorted (map scan_size ds)" "\<forall>d \<in> set ds. 2 ^ k \<le> scan_size d \<or> dictSize d = 0" "take_bit k v = v" "k \<le> 60"
  shows "\<exists>es fin. scan_run ds v = Some (es, fin) \<and>
     (fin \<longrightarrow> (\<forall>e. (\<forall>d \<in> set ds. e \<in> set (dict_entries d)) \<longrightarrow> scan_pos v \<le> scan_pos (key_hash T (fst e)) \<longrightarrow> e \<in> set es)) \<and>
     (\<forall>l \<le> 60. (\<forall>d \<in> set ds. scan_size d \<le> 2 ^ l) \<longrightarrow> 2 ^ 64 \<le> scan_pos v + length ds * 2 ^ (64 - l) \<longrightarrow> fin)"
  using assms
proof (induction ds arbitrary: v k)
  case Nil
  then show ?case using scan_pos_less [of v] by auto
next
  case (Cons d ds)
  show ?case
  proof (cases "dictSize d = 0")
    case True
    then have "dict_entries d = []" using Cons.prems(1) by (metis dict_size length_0_conv list.set_intros(1))
    then show ?thesis using True by (intro exI [of _ "[]"] exI [of _ True]) (simp add: dictScan_def)
  next
    case False
    have ok: "dict_ok T d" using Cons.prems(1) by simp
    obtain l where l: "scan_size d = 2 ^ l" "2 \<le> l" "l \<le> 60" by (rule scan_size_power [OF ok False])
    have kl: "k \<le> l" using Cons.prems(3) False l(1) by simp
    have v: "take_bit l v = v" using Cons.prems(4) kl by (metis min.absorb2 take_bit_take_bit)
    obtain es u where c: "dictScan d v = Some (es, u)" "take_bit l u = u"
      "\<And>e. e \<in> set (dict_entries d) \<Longrightarrow> scan_pos v \<le> scan_pos (key_hash T (fst e)) \<Longrightarrow>
         scan_pos (key_hash T (fst e)) < scan_pos v + 2 ^ (64 - l) \<Longrightarrow> e \<in> set es"
      "u = 0 \<and> scan_pos v + 2 ^ (64 - l) = 2 ^ 64 \<or> u \<noteq> 0 \<and> scan_pos u = scan_pos v + 2 ^ (64 - l)"
      by (rule scan_call [OF ok False l v]) blast
    show ?thesis
    proof (cases "u = 0")
      case True
      then show ?thesis using c scan_pos_less by auto
    next
      case u: False
      then have p: "scan_pos u = scan_pos v + 2 ^ (64 - l)" using c(4) by blast
      have "\<forall>d \<in> set ds. 2 ^ l \<le> scan_size d \<or> dictSize d = 0" using Cons.prems(2) l(1) by auto
      with Cons.prems(1,2) c(2) l(3) obtain es' fin where r: "scan_run ds u = Some (es', fin)"
        "fin \<longrightarrow> (\<forall>e. (\<forall>d \<in> set ds. e \<in> set (dict_entries d)) \<longrightarrow> scan_pos u \<le> scan_pos (key_hash T (fst e)) \<longrightarrow> e \<in> set es')"
        "\<forall>l \<le> 60. (\<forall>d \<in> set ds. scan_size d \<le> 2 ^ l) \<longrightarrow> 2 ^ 64 \<le> scan_pos u + length ds * 2 ^ (64 - l) \<longrightarrow> fin"
        using Cons.IH [of l u] by auto
      have "scan_run (d # ds) v = Some (es @ es', fin)" using c(1) u r(1) by simp
      moreover have "e \<in> set (es @ es')" if "fin" "\<forall>d \<in> set (d # ds). e \<in> set (dict_entries d)" "scan_pos v \<le> scan_pos (key_hash T (fst e))" for e
      proof (cases "scan_pos (key_hash T (fst e)) < scan_pos u")
        case True
        then have "e \<in> set es" using that(2,3) p by (intro c(3)) simp_all
        then show ?thesis by simp
      next
        case False
        then have "e \<in> set es'" using r(2) that(1,2) by (meson list.set_intros(2) not_less)
        then show ?thesis by simp
      qed
      moreover have fin if "m \<le> 60" "\<forall>d \<in> set (d # ds). scan_size d \<le> 2 ^ m" "2 ^ 64 \<le> scan_pos v + length (d # ds) * 2 ^ (64 - m)" for m
      proof -
        have "l \<le> m" using that(2) l(1) by simp
        then have "(2 :: nat) ^ (64 - m) \<le> 2 ^ (64 - l)" by (intro power_increasing) auto
        then have "scan_pos v + length (d # ds) * 2 ^ (64 - m) \<le> scan_pos u + length ds * 2 ^ (64 - m)"
          by (simp only: p length_Cons mult_Suc)
        with that(3) have "2 ^ 64 \<le> scan_pos u + length ds * 2 ^ (64 - m)" by (rule order_trans)
        then show ?thesis using r(3) that(1,2) by simp
      qed
      ultimately show ?thesis by blast
    qed
  qed
qed

section \<open>A table that shrinks\<close>

text \<open>
  A table of 16 buckets with one entry, and the same dictionary after \<^verbatim>\<open>dictResize\<close> has started to
  move it to 4 buckets.
\<close>

definition wide_table :: "nat \<Rightarrow> (string, nat) dictht" where
  "wide_table x = \<lparr>ht_table = [[], [], [], [], [(''k1'', x)], [], [], [], [], [], [], [], [], [], [], []], ht_size = 16, ht_sizemask = 15, ht_used = 1\<rparr>"

definition wide_dict :: "nat \<Rightarrow> (string, nat) dictionary" where
  "wide_dict x = \<lparr>ht0 = wide_table x, ht1 = dictReset, rehashidx = - 1, iterators = 0\<rparr>"

definition shrinking_dict :: "nat \<Rightarrow> (string, nat) dictionary" where
  "shrinking_dict x = \<lparr>ht0 = wide_table x,
     ht1 = \<lparr>ht_table = [[], [], [], []], ht_size = 4, ht_sizemask = 3, ht_used = 0\<rparr>, rehashidx = 0, iterators = 0\<rparr>"

lemma k1_hash: "unat (dictSdsHash 5381 ''k1'') AND 15 = 4"
proof -
  have "dictSdsHash 5381 ''k1'' AND 15 = 4" by code_simp
  then have "unat (dictSdsHash 5381 ''k1'' AND 15) = 4" by simp
  then show ?thesis by (simp only: unsigned_and_eq) simp
qed

lemma next_powers: "dictNextPower 16 = Some 16" "dictNextPower 4 = Some 4"
  by (simp_all add: dictNextPower_def DICT_HT_INITIAL_SIZE_def LONG_MAX_def next_power_loop.simps [of 4] next_power_loop.simps [of 8] next_power_loop.simps [of 16])

lemma empty_buckets:
  "replicate 16 [] = [[], [], [], [], [], [], [], [], [], [], [], [], [], [], [], []]" "replicate 4 [] = [[], [], [], []]"
  by (simp_all add: numeral_eq_Suc)

lemma wide_buckets: "ht_table (wide_table x) = (replicate 16 [])[4 := [(''k1'', x)]]"
  by (simp add: wide_table_def empty_buckets)

lemma fresh_wide:
  "dictExpand 16 dictCreate = Some (True, dictCreate\<lparr>ht0 := \<lparr>ht_table = replicate 16 [], ht_size = 16, ht_sizemask = 15, ht_used = 0\<rparr>\<rparr>)"
  by (simp add: dictExpand_def next_powers dictCreate_def dictReset_def dictIsRehashing_def)

lemma wide_dict_built:
  "dictAdd_ht (dbDictType 5381) True ''k1'' x (dictCreate\<lparr>ht0 := \<lparr>ht_table = replicate 16 [], ht_size = 16, ht_sizemask = 15, ht_used = 0\<rparr>\<rparr>) =
   Some (True, wide_dict x)"
  by (simp add: dictCreate_def dictReset_def dictIsRehashing_def dictAdd_ht_def rehash_if_def dictKeyIndex_def
      dictExpandIfNeeded_def tables_find_def ht_chain_def ht_index_def chain_find_def dbDictType_def k1_hash ht_push_def
      wide_dict_def wide_table_def empty_buckets)

lemma wide_dict_resized: "dictResize True (wide_dict x) = Some (True, shrinking_dict x)"
  by (simp add: dictResize_def wide_dict_def shrinking_dict_def wide_table_def dictIsRehashing_def dictExpand_def
      DICT_HT_INITIAL_SIZE_def next_powers empty_buckets)

lemma wide_dict_ok: "dict_ok (dbDictType 5381) (wide_dict x)" "dict_ok (dbDictType 5381) (shrinking_dict x)"
proof -
  have s: "ht_shape (wide_table x)" by (auto simp: ht_shape_def wide_table_def intro: exI [of _ 4])
  have "\<forall>i < 16. \<forall>e \<in> set (ht_table (wide_table x) ! i). ht_index (dbDictType 5381) (wide_table x) (fst e) = i"
  proof (intro allI impI)
    fix i :: nat assume "i < 16"
    then have "ht_table (wide_table x) ! i = (if i = 4 then [(''k1'', x)] else [])"
      unfolding wide_buckets by (simp add: nth_list_update)
    then show "\<forall>e \<in> set (ht_table (wide_table x) ! i). ht_index (dbDictType 5381) (wide_table x) (fst e) = i"
      by (simp add: ht_index_def dbDictType_def k1_hash wide_table_def)
  qed
  then have w: "ht_ok (dbDictType 5381) (wide_table x)" using s by (simp add: ht_ok_def ht_entries_def) (simp add: wide_table_def)
  then show "dict_ok (dbDictType 5381) (wide_dict x)"
    by (simp add: dict_ok_def wide_dict_def rehash_ok_def dictIsRehashing_def dict_entries_def) (simp add: wide_table_def ht_entries_def)
  have "ht_ok (dbDictType 5381) (ht1 (shrinking_dict x))"
    using new_table(1) [of 2 "dbDictType 5381"] by (simp add: shrinking_dict_def empty_buckets)
  with w show "dict_ok (dbDictType 5381) (shrinking_dict x)"
    by (simp add: dict_ok_def shrinking_dict_def rehash_ok_def dictIsRehashing_def dict_entries_def)
      (simp add: wide_table_def ht_entries_def)
qed

lemma cursors: "scan_next 15 0 = 8" "scan_next 3 16 = 2" "scan_next 3 18 = 1" "scan_next 3 17 = 3" "scan_next 3 19 = 0"
  by code_simp+

lemma scan_wide: "dictScan (wide_dict x) 0 = Some ([], 8)"
  by (simp add: dictScan_def wide_dict_def wide_table_def dictSize_def dictIsRehashing_def ht_chain_def cursors)

lemma expand_steps:
  "scan_expand t 3 15 v = do {
     c \<leftarrow> ht_chain t (unat (v AND 15));
     let v' = (((v OR 3) + 1) AND NOT 3) OR (v AND 3);
     if v' AND 12 \<noteq> 0 then do { (es, w) \<leftarrow> scan_expand t 3 15 v'; Some (c @ es, w) } else Some (c, v')
   }"
  by (subst scan_expand.simps) simp

lemma scan_shrinking:
  "dictScan (shrinking_dict x) 8 = Some ([], 2)" "dictScan (shrinking_dict x) 2 = Some ([], 1)"
  "dictScan (shrinking_dict x) 1 = Some ([], 3)" "dictScan (shrinking_dict x) 3 = Some ([], 0)"
  by (simp_all add: dictScan_def shrinking_dict_def wide_table_def dictSize_def dictIsRehashing_def ht_chain_def cursors
      expand_steps [of _ 8] expand_steps [of _ 12] expand_steps [of _ 2] expand_steps [of _ 6] expand_steps [of _ 10] expand_steps [of _ 14]
      expand_steps [of _ 1] expand_steps [of _ 5] expand_steps [of _ 9] expand_steps [of _ 13]
      expand_steps [of _ 3] expand_steps [of _ 7] expand_steps [of _ 11] expand_steps [of _ 15])

text \<open>C16. A scan that comes back to the cursor 0 has returned every entry that was in the
  dictionary at every call, however the dictionary changed between the calls, as long as the
  table it counts through did not shrink; and it comes back after at most as many calls as the
  table has buckets.\<close>

theorem scan_returns_all:
  assumes "\<forall>d \<in> set ds. dict_ok T d" "sorted (map scan_size ds)"
  shows "\<exists>es fin. scan_run ds 0 = Some (es, fin) \<and>
     (fin \<longrightarrow> (\<forall>e. (\<forall>d \<in> set ds. e \<in> set (dict_entries d)) \<longrightarrow> e \<in> set es)) \<and>
     (ds \<noteq> [] \<longrightarrow> scan_size (last ds) \<le> length ds \<longrightarrow> fin)"
proof -
  have "\<forall>d \<in> set ds. 2 ^ 0 \<le> scan_size d \<or> dictSize d = 0"
    using assms(1) scan_size_power by (metis one_le_numeral one_le_power power_0)
  from scan_run_rule [OF assms this, of 0] obtain es fin where r: "scan_run ds 0 = Some (es, fin)"
    "fin \<longrightarrow> (\<forall>e. (\<forall>d \<in> set ds. e \<in> set (dict_entries d)) \<longrightarrow> e \<in> set es)"
    "\<forall>l \<le> 60. (\<forall>d \<in> set ds. scan_size d \<le> 2 ^ l) \<longrightarrow> 2 ^ 64 \<le> length ds * 2 ^ (64 - l) \<longrightarrow> fin"
    by auto
  have fin if ds: "ds \<noteq> []" "scan_size (last ds) \<le> length ds"
  proof -
    obtain l where l: "l \<le> 60" "scan_size (last ds) \<le> 2 ^ l" "2 ^ l \<le> max 1 (scan_size (last ds))"
      using scan_size_bound assms(1) ds(1) by (metis last_in_set)
    have "\<forall>d \<in> set ds. scan_size d \<le> 2 ^ l" using sorted_map_last [OF assms(2)] l(2) by (meson order_trans)
    moreover have "2 ^ 64 \<le> length ds * 2 ^ (64 - l)"
    proof -
      have "2 ^ l \<le> length ds" using l(3) ds by (cases ds) auto
      then have "2 ^ l * 2 ^ (64 - l) \<le> length ds * 2 ^ (64 - l)" by (rule mult_le_mono1)
      then show ?thesis using l(1) by (simp flip: power_add)
    qed
    ultimately show ?thesis using r(3) l(1) by blast
  qed
  then show ?thesis using r by blast
qed

theorem scan_returns_all_witness:
  "\<exists>es fin. scan_run (replicate 16 (wide_dict 7)) 0 = Some (es, fin) \<and> fin \<and> (''k1'', 7) \<in> set es"
proof -
  let ?ds = "replicate 16 (wide_dict 7)"
  have "\<forall>d \<in> set ?ds. dict_ok (dbDictType 5381) d" by (simp add: wide_dict_ok)
  moreover have "sorted (map scan_size ?ds)" by simp
  ultimately have "\<exists>es fin. scan_run ?ds 0 = Some (es, fin) \<and>
     (fin \<longrightarrow> (\<forall>e. (\<forall>d \<in> set ?ds. e \<in> set (dict_entries d)) \<longrightarrow> e \<in> set es)) \<and>
     (?ds \<noteq> [] \<longrightarrow> scan_size (last ?ds) \<le> length ?ds \<longrightarrow> fin)"
    by (rule scan_returns_all)
  moreover have "scan_size (last ?ds) \<le> length ?ds" "?ds \<noteq> []"
    by (simp_all add: scan_size_def wide_dict_def wide_table_def dictIsRehashing_def)
  moreover have "\<forall>d \<in> set ?ds. (''k1'', 7) \<in> set (dict_entries d)"
    by (simp add: dict_entries_def wide_dict_def wide_table_def ht_entries_def)
  ultimately show ?thesis by blast
qed

text \<open>C17. A scan across a table that shrinks from 16 to 4 buckets can come back to the cursor 0
  without returning an entry that was there at every call: the loop over the expansions of the
  cursor counts upwards, not with reversed bits, and passes over buckets not visited before.\<close>

theorem scan_misses_when_shrinking:
  "dict_ok (dbDictType 5381) (wide_dict x) \<and> dict_map (wide_dict x) ''k1'' = Some x \<and>
   dictResize True (wide_dict x) = Some (True, shrinking_dict x) \<and> dict_map (shrinking_dict x) ''k1'' = Some x \<and>
   scan_run [wide_dict x, shrinking_dict x, shrinking_dict x, shrinking_dict x, shrinking_dict x] 0 = Some ([], True)"
  by (simp add: wide_dict_ok wide_dict_resized scan_wide scan_shrinking)
    (simp add: dict_map_def dict_entries_def wide_dict_def shrinking_dict_def wide_table_def ht_entries_def)

text \<open>Rehashing the shrinking table to its end.\<close>

theorem rehash_ends_witness:
  "\<exists>d'. dictRehash (dbDictType 5381) 17 (shrinking_dict 7) = Some (False, d') \<and> dict_map d' ''k1'' = Some 7"
proof -
  have "ht_size (ht0 (shrinking_dict 7)) + 1 = 17" "dict_map (shrinking_dict 7) ''k1'' = Some 7"
    by (simp_all add: shrinking_dict_def wide_table_def dict_map_def dict_entries_def ht_entries_def)
  then show ?thesis using rehash_ends [OF wide_dict_ok(2) [of 7]] by auto
qed

end
