(* ===== verification/Bytes.thy ===== *)
theory Bytes
  imports Prelude
begin

text \<open>
  Buffers of bytes as lists of characters. Reads, writes and \<^verbatim>\<open>memmove\<close> check the bounds of the
  buffer, with \<open>None\<close> for an access outside it. Little-endian integers are those of \<^verbatim>\<open>Prelude\<close>.
\<close>

section \<open>Bytes\<close>

definition u8 :: "nat \<Rightarrow> char" where
  "u8 n = char_of n"

definition byte_val :: "char \<Rightarrow> nat" where
  "byte_val c = of_char c"

lemma byte_val_u8 [simp]: "byte_val (u8 n) = n mod 256"
  by (simp add: byte_val_def u8_def)

lemma u8_byte_val [simp]: "u8 (byte_val c) = c"
  by (simp add: byte_val_def u8_def)

lemma byte_val_less [simp]: "byte_val c < 256"
  by (metis byte_val_u8 mod_less_divisor u8_byte_val zero_less_numeral)

lemma byte_val_eq_iff [simp]: "byte_val c = byte_val d \<longleftrightarrow> c = d"
  by (metis u8_byte_val)


section \<open>Buffers\<close>

definition rd :: "string \<Rightarrow> nat \<Rightarrow> char option" where
  "rd s i = (if i < length s then Some (s ! i) else None)"

definition rdn :: "string \<Rightarrow> nat \<Rightarrow> nat \<Rightarrow> string option" where
  "rdn s p n = (if p + n \<le> length s then Some (take n (drop p s)) else None)"

definition wr :: "string \<Rightarrow> nat \<Rightarrow> string \<Rightarrow> string option" where
  "wr s p x = (if p + length x \<le> length s then Some (take p s @ x @ drop (p + length x) s) else None)"

definition memmove :: "string \<Rightarrow> nat \<Rightarrow> nat \<Rightarrow> nat \<Rightarrow> string option" where
  "memmove s dst src n = do { x \<leftarrow> rdn s src n; wr s dst x }"

lemma rd_Some: "i < length s \<Longrightarrow> rd s i = Some (s ! i)"
  by (simp add: rd_def)

lemma rd_at: "i = length a \<Longrightarrow> rd (a @ c # b) i = Some c"
  by (simp add: rd_def)

lemma rd_mid: "k < length x \<Longrightarrow> rd (a @ x @ b) (length a + k) = Some (x ! k)"
  by (simp add: rd_def nth_append)

lemma rdn_at: "p = length a \<Longrightarrow> n = length x \<Longrightarrow> rdn (a @ x @ b) p n = Some x"
  by (simp add: rdn_def)

lemma wr_at: "p = length a \<Longrightarrow> length y = length x \<Longrightarrow> wr (a @ x @ b) p y = Some (a @ y @ b)"
  by (simp add: wr_def)

lemma memmove_rule:
  "s = a @ x @ b \<Longrightarrow> src = length a \<Longrightarrow> n = length x \<Longrightarrow> dst + n \<le> length s \<Longrightarrow>
   memmove s dst src n = Some (take dst s @ x @ drop (dst + n) s)"
  by (simp add: memmove_def rdn_at wr_def)


section \<open>Integers in buffers\<close>

definition byte_char :: "byte \<Rightarrow> char" where
  "byte_char b = char_of (uint b)"

definition char_byte :: "char \<Rightarrow> byte" where
  "char_byte c = word_of_int (of_char c)"

definition le_chars :: "nat \<Rightarrow> int \<Rightarrow> string" where
  "le_chars n v = map byte_char (le_bytes n v)"

definition get_uint :: "nat \<Rightarrow> string \<Rightarrow> nat \<Rightarrow> nat option" where
  "get_uint n s p = do { x \<leftarrow> rdn s p n; Some (nat (le_uint (map char_byte x))) }"

definition get_sint :: "nat \<Rightarrow> string \<Rightarrow> nat \<Rightarrow> int option" where
  "get_sint n s p = do { x \<leftarrow> rdn s p n; Some (le_sint (map char_byte x)) }"

lemma char_byte_char [simp]: "char_byte (byte_char b) = b"
proof -
  have "uint b < 256" using uint_lt2p [of b] by simp
  then show ?thesis by (simp add: char_byte_def byte_char_def)
qed

lemma map_char_byte_le [simp]: "map char_byte (le_chars n v) = le_bytes n v"
  by (simp add: le_chars_def comp_def)

lemma length_le_chars [simp]: "length (le_chars n v) = n"
  by (simp add: le_chars_def)

lemma get_uint_at: "p = length a \<Longrightarrow> 0 \<le> v \<Longrightarrow> v < 256 ^ n \<Longrightarrow> get_uint n (a @ le_chars n v @ b) p = Some (nat v)"
  by (simp add: get_uint_def rdn_at le_uint_le_bytes)

lemma get_sint_at: "p = length a \<Longrightarrow> fits_bytes n v \<Longrightarrow> get_sint n (a @ le_chars n v @ b) p = Some v"
  by (simp add: get_sint_def rdn_at)

end
