(* ===== verification/Lzf_Rules.thy ===== *)
theory Lzf_Rules
  imports Lzf
begin

text \<open>
  Decompression undoes compression: the tokens that the compressor writes decode to the prefix of
  the input it has read, and both stay inside their buffers.
\<close>

section \<open>Decoding tokens\<close>

text \<open>The decoder after a token: it stops at the end of its input.\<close>

definition lzf_rest :: "nat \<Rightarrow> string \<Rightarrow> string \<Rightarrow> string option option" where
  "lzf_rest n inp out = (if inp = [] then Some (Some out) else lzf_decode n inp out)"

lemma lzf_decode_token: "lzf_token n inp out = Some (Some (rest, out')) \<Longrightarrow> lzf_decode n inp out = lzf_rest n rest out'"
  by (simp add: lzf_decode.simps [of n inp out] lzf_rest_def)

lemma literal_token:
  assumes "xs \<noteq> []" "length xs \<le> 32" "length out + length xs \<le> n"
  shows "lzf_token n (u8 (length xs - 1) # xs @ rest) out = Some (Some (rest, out @ xs))"
proof -
  have "byte_val (u8 (length xs - 1)) = length xs - 1" using assms(2) by simp
  moreover have "length xs - 1 + 1 = length xs" "length xs - 1 < 32" using assms(1,2) by (cases xs; simp)+
  ultimately show ?thesis using assms(3) unfolding lzf_token_def Let_def by simp
qed

lemma token_short:
  assumes "\<not> byte_val c < 32" "byte_val c div 32 = len" "len \<noteq> 7" "byte_val c mod 32 = q" "byte_val r = b"
    "off = q * 256 + b" "off < length out" "length out + len + 2 \<le> n" "copy_ref (length out - off - 1) (len + 2) out = Some out'"
  shows "lzf_token n (c # r # rest) out = Some (Some (rest, out'))"
proof -
  have ref: "nat (int (length out) - int (q * 256) - 1 - int b) = length out - off - 1"
    "\<not> int (length out) - int (q * 256) - 1 - int b < 0" using assms(6,7) by linarith+
  show ?thesis unfolding lzf_token_def Let_def using assms(1-5,8,9) ref by (simp del: copy_ref.simps of_nat_mult)
qed

lemma token_long:
  assumes "\<not> byte_val c < 32" "byte_val c div 32 = 7" "byte_val c mod 32 = q" "byte_val l = k" "byte_val r = b"
    "off = q * 256 + b" "off < length out" "length out + (7 + k) + 2 \<le> n" "copy_ref (length out - off - 1) (7 + k + 2) out = Some out'"
  shows "lzf_token n (c # l # r # rest) out = Some (Some (rest, out'))"
proof -
  have ref: "nat (int (length out) - int (q * 256) - 1 - int b) = length out - off - 1"
    "\<not> int (length out) - int (q * 256) - 1 - int b < 0" using assms(6,7) by linarith+
  show ?thesis unfolding lzf_token_def Let_def using assms(1-5,8,9) ref by (simp del: copy_ref.simps of_nat_mult)
qed

lemma ref_split:
  assumes "off < (8192::nat)"
  obtains q r where "off div 256 = q" "off mod 256 = r" "q < 32" "off = q * 256 + r"
proof
  show "off div 256 < 32" using assms by (simp add: less_mult_imp_div_less)
  show "off = off div 256 * 256 + off mod 256" by (rule div_mult_mod_eq [symmetric])
qed (rule refl)+

lemma ref_head:
  assumes "q < (32::nat)" "1 \<le> len" "len \<le> 7"
  shows "byte_val (u8 (q + len * 32)) div 32 = len" "byte_val (u8 (q + len * 32)) mod 32 = q" "\<not> byte_val (u8 (q + len * 32)) < 32"
proof -
  have v: "byte_val (u8 (q + len * 32)) = q + len * 32" using assms by simp
  show "byte_val (u8 (q + len * 32)) div 32 = len" "byte_val (u8 (q + len * 32)) mod 32 = q"
    unfolding v using assms(1) by simp_all
  show "\<not> byte_val (u8 (q + len * 32)) < 32" unfolding v using assms(2) by simp
qed

lemma ref_token_short:
  assumes "off < 8192" "off < length out" "1 \<le> len" "len < 7" "length out + len + 2 \<le> n"
    and "copy_ref (length out - off - 1) (len + 2) out = Some out'"
  shows "lzf_token n (ref_bytes off len @ rest) out = Some (Some (rest, out'))"
proof -
  obtain q r where q: "off div 256 = q" "off mod 256 = r" "q < 32" "off = q * 256 + r" using ref_split [OF assms(1)] .
  have h: "byte_val (u8 (q + len * 32)) div 32 = len" "byte_val (u8 (q + len * 32)) mod 32 = q" "\<not> byte_val (u8 (q + len * 32)) < 32"
    using ref_head [of q len] q(3) assms(3,4) by simp_all
  have "lzf_token n (u8 (q + len * 32) # u8 off # rest) out = Some (Some (rest, out'))"
    by (rule token_short [OF h(3,1) _ h(2) _ q(4) assms(2,5,6)]) (use assms(4) q(2) in simp_all)
  then show ?thesis using assms(4) q(1) by (simp add: ref_bytes_def)
qed

lemma ref_token_long:
  assumes "off < 8192" "off < length out" "k < 256" "length out + (7 + k) + 2 \<le> n"
    and "copy_ref (length out - off - 1) (7 + k + 2) out = Some out'"
  shows "lzf_token n (ref_bytes off (7 + k) @ rest) out = Some (Some (rest, out'))"
proof -
  obtain q r where q: "off div 256 = q" "off mod 256 = r" "q < 32" "off = q * 256 + r" using ref_split [OF assms(1)] .
  have h: "byte_val (u8 (q + 7 * 32)) div 32 = 7" "byte_val (u8 (q + 7 * 32)) mod 32 = q" "\<not> byte_val (u8 (q + 7 * 32)) < 32"
    using ref_head [of q 7] q(3) by simp_all
  have "lzf_token n (u8 (q + 7 * 32) # u8 k # u8 off # rest) out = Some (Some (rest, out'))"
    by (rule token_long [OF h(3,1,2) _ _ q(4) assms(2,4,5)]) (use assms(3) q(2) in simp_all)
  then show ?thesis using q(1) by (simp add: ref_bytes_def)
qed

lemma ref_token:
  assumes "off < 8192" "off < length out" "3 \<le> L" "L \<le> 264" "length out + L \<le> n"
    and c: "copy_ref (length out - off - 1) L out = Some out'"
  shows "lzf_token n (ref_bytes off (L - 2) @ rest) out = Some (Some (rest, out'))"
proof (cases "L - 2 < 7")
  case True
  have "L - 2 + 2 = L" using assms(3) by simp
  with c have "copy_ref (length out - off - 1) (L - 2 + 2) out = Some out'" by metis
  then show ?thesis by (rule ref_token_short [rotated 5]) (use assms(1-5) True in simp_all)
next
  case False
  define k where "k = L - 9"
  have k: "7 + k + 2 = L" "L - 2 = 7 + k" using False by (simp_all add: k_def)
  with c have "copy_ref (length out - off - 1) (7 + k + 2) out = Some out'" by metis
  then show ?thesis unfolding k(2) by (rule ref_token_long [rotated 4]) (use assms(1-5) k(1) in simp_all)
qed

lemma copy_ref_prefix:
  "ref < m \<Longrightarrow> m + L \<le> length s \<Longrightarrow> \<forall>i < L. s ! (ref + i) = s ! (m + i) \<Longrightarrow> copy_ref ref L (take m s) = Some (take (m + L) s)"
proof (induction L arbitrary: ref m)
  case (Suc L)
  have "s ! ref = s ! m" using Suc.prems(3) by auto
  then have "take m s @ [s ! ref] = take (Suc m) s" using Suc.prems(2) by (simp add: take_Suc_conv_app_nth)
  moreover have "\<forall>i < L. s ! (Suc ref + i) = s ! (Suc m + i)" using Suc.prems(3) by (auto dest: spec [of _ "Suc _"])
  then have "copy_ref (Suc ref) L (take (Suc m) s) = Some (take (Suc m + L) s)" using Suc.prems by (intro Suc.IH) auto
  ultimately show ?case using Suc.prems by (simp add: rd_Some)
qed simp

text \<open>The bytes \<open>c\<close> decode to the first \<open>m\<close> bytes of \<open>s\<close>.\<close>

definition decodes :: "string \<Rightarrow> string \<Rightarrow> nat \<Rightarrow> bool" where
  "decodes s c m \<longleftrightarrow> m \<le> length s \<and> (\<forall>rest. lzf_rest (length s) (c @ rest) [] = lzf_rest (length s) rest (take m s))"

lemma decodes_Nil: "decodes s [] 0"
  by (simp add: decodes_def)

lemma decodes_token:
  assumes d: "decodes s c m" and t: "t \<noteq> []" "m' \<le> length s"
    "\<And>rest. lzf_token (length s) (t @ rest) (take m s) = Some (Some (rest, take m' s))"
  shows "decodes s (c @ t) m'"
proof -
  have "lzf_rest (length s) (t @ rest) (take m s) = lzf_rest (length s) rest (take m' s)" for rest
    using lzf_decode_token [OF t(3)] t(1) by (simp add: lzf_rest_def)
  then show ?thesis using d t(2) by (simp add: decodes_def)
qed

lemma decodes_literals:
  assumes "decodes s c m" "xs \<noteq> []" "length xs \<le> 32" "m + length xs \<le> length s" "xs = take (length xs) (drop m s)"
  shows "decodes s (c @ u8 (length xs - 1) # xs) (m + length xs)"
proof (rule decodes_token [OF assms(1)])
  show "lzf_token (length s) ((u8 (length xs - 1) # xs) @ rest) (take m s) = Some (Some (rest, take (m + length xs) s))" for rest
  proof -
    have "take (m + length xs) s = take m s @ xs" using assms(5) by (metis take_add)
    then show ?thesis using literal_token [of xs "take m s" "length s" rest] assms(2-4) by simp
  qed
qed (use assms in auto)

lemma decodes_ref:
  assumes "decodes s c m" "ref < m" "m - ref - 1 < 8192" "3 \<le> L" "L \<le> 264" "m + L \<le> length s"
    "\<forall>i < L. s ! (ref + i) = s ! (m + i)"
  shows "decodes s (c @ ref_bytes (m - ref - 1) (L - 2)) (m + L)"
proof (rule decodes_token [OF assms(1)])
  show "ref_bytes (m - ref - 1) (L - 2) \<noteq> []" by (simp add: ref_bytes_def)
  show "lzf_token (length s) (ref_bytes (m - ref - 1) (L - 2) @ rest) (take m s) = Some (Some (rest, take (m + L) s))" for rest
    using assms copy_ref_prefix [of ref m L s] by (intro ref_token) auto
qed (use assms in auto)


section \<open>The length of a match\<close>

lemma unrolled_rule:
  "\<forall>i \<le> len. s ! (ref + i) = s ! (p + i) \<Longrightarrow> p + len + n < length s \<Longrightarrow> ref < p \<Longrightarrow>
   \<exists>b l. unrolled s ref p n len = Some (b, l) \<and> l \<le> len + n \<and>
     (if b then len < l \<and> (\<forall>i < l. s ! (ref + i) = s ! (p + i)) else l = len + n \<and> (\<forall>i \<le> l. s ! (ref + i) = s ! (p + i)))"
proof (induction n arbitrary: len)
  case (Suc n)
  show ?case
  proof (cases "s ! (ref + Suc len) = s ! (p + Suc len)")
    case True
    then have "\<forall>i \<le> Suc len. s ! (ref + i) = s ! (p + i)" using Suc.prems(1) by (simp add: le_Suc_eq)
    from Suc.IH [OF this] Suc.prems(2,3) True show ?thesis by (auto simp: rd_Some split: if_splits)
  next
    case False
    then show ?thesis using Suc.prems by (auto simp: rd_Some less_Suc_eq_le)
  qed
qed (auto intro: exI [of _ False])

lemma more_rule:
  "\<forall>i \<le> len. s ! (ref + i) = s ! (p + i) \<Longrightarrow> p + maxlen \<le> length s \<Longrightarrow> p + Suc len \<le> length s \<Longrightarrow> ref < p \<Longrightarrow>
   \<exists>l. more s ref p maxlen len = Some l \<and> len < l \<and> l \<le> max maxlen (Suc len) \<and> p + l \<le> length s \<and> (\<forall>i < l. s ! (ref + i) = s ! (p + i))"
proof (induction s ref p maxlen len rule: more.induct)
  case (1 s ref p maxlen len)
  have rds: "rd s (ref + Suc len) = Some (s ! (ref + Suc len))" "rd s (p + Suc len) = Some (s ! (p + Suc len))" if "Suc len < maxlen"
    using that "1.prems" by (auto intro!: rd_Some)
  show ?case
  proof (cases "Suc len < maxlen \<and> s ! (ref + Suc len) = s ! (p + Suc len)")
    case True
    then have lt: "Suc len < maxlen" by simp
    have "\<forall>i \<le> Suc len. s ! (ref + i) = s ! (p + i)" using True "1.prems"(1) by (simp add: le_Suc_eq)
    moreover have "p + Suc (Suc len) \<le> length s" using True "1.prems"(2) by linarith
    ultimately have "\<exists>l. more s ref p maxlen (Suc len) = Some l \<and> Suc len < l \<and> l \<le> max maxlen (Suc (Suc len)) \<and> p + l \<le> length s \<and> (\<forall>i < l. s ! (ref + i) = s ! (p + i))"
      using "1.IH" [OF lt rds [OF lt]] True "1.prems"(2,4) by simp
    then show ?thesis using True rds by (auto simp: more.simps [of s ref p maxlen len])
  next
    case False
    then show ?thesis using "1.prems" rds by (auto simp: more.simps [of s ref p maxlen len] less_Suc_eq_le)
  qed
qed

lemma match_len_rule:
  assumes p: "p + 4 < length s" "ref < p" and eq: "\<forall>i \<le> 2. s ! (ref + i) = s ! (p + i)"
  obtains L where "match_len s ref p = Some L" "3 \<le> L" "L \<le> 264" "p + L \<le> length s" "\<forall>i < L. s ! (ref + i) = s ! (p + i)"
proof -
  define maxlen where "maxlen = min (length s - p - 2) MAX_REF"
  have m: "3 \<le> maxlen" "maxlen \<le> 264" "p + maxlen + 2 \<le> length s" using p(1) by (auto simp: maxlen_def MAX_REF_def)
  have ml: "match_len s ref p = do {
      (broke, len) \<leftarrow> (if maxlen > 16 then unrolled s ref p 16 2 else Some (False, 2));
      if broke then Some len else more s ref p maxlen len }"
    unfolding match_len_def maxlen_def Let_def by (rule refl)
  obtain b l where l: "(if maxlen > 16 then unrolled s ref p 16 2 else Some (False, 2)) = Some (b, l)"
    "if b then 2 < l \<and> l \<le> 18 \<and> p + l \<le> length s \<and> (\<forall>i < l. s ! (ref + i) = s ! (p + i))
     else (l = 2 \<or> l = 18 \<and> 16 < maxlen) \<and> (\<forall>i \<le> l. s ! (ref + i) = s ! (p + i))"
  proof (cases "maxlen > 16")
    case True
    then show ?thesis using unrolled_rule [OF eq, of 16] m p(2) that by (fastforce split: if_splits)
  qed (use eq that in auto)
  show ?thesis
  proof (cases b)
    case True
    then show ?thesis using l that [of l] by (simp add: ml)
  next
    case False
    have "\<exists>L. more s ref p maxlen l = Some L \<and> l < L \<and> L \<le> max maxlen (Suc l) \<and> p + L \<le> length s \<and> (\<forall>i < L. s ! (ref + i) = s ! (p + i))"
      using False l(2) m p(2) by (intro more_rule) auto
    then obtain L where L: "more s ref p maxlen l = Some L" "l < L" "L \<le> max maxlen (Suc l)" "p + L \<le> length s" "\<forall>i < L. s ! (ref + i) = s ! (p + i)"
      by blast
    have "match_len s ref p = Some L" using L(1) l(1) False by (simp add: ml)
    then show ?thesis using L l(2) False m that [of L] by (auto simp: max_def split: if_splits)
  qed
qed


section \<open>The state of the compressor\<close>

text \<open>
  The finished output decodes to the input before the current run, and the run is the input after
  that. \<open>m\<close> bounds the run; \<open>n\<close> is \<^verbatim>\<open>out_len\<close>, one less than the size of the buffer.
\<close>

definition lz_inv :: "nat \<Rightarrow> string \<Rightarrow> nat \<Rightarrow> lzf \<Rightarrow> bool" where
  "lz_inv m s n z \<longleftrightarrow>
     length (run z) \<le> m \<and> length (run z) \<le> ip z \<and> ip z \<le> length s \<and>
     run z = take (length (run z)) (drop (ip z - length (run z)) s) \<and>
     decodes s (fin z) (ip z - length (run z)) \<and>
     length (fin z) \<le> n \<and> (run z \<noteq> [] \<longrightarrow> lzf_op z \<le> n)"

lemma lz_inv_hash [simp]: "lz_inv m s n (z\<lparr>htab := t, hval := h\<rparr>) = lz_inv m s n z"
  "lz_inv m s n (z\<lparr>hval := h, htab := t\<rparr>) = lz_inv m s n z"
  by (simp_all add: lz_inv_def lzf_op_def)

lemma lz_inv_mono: "lz_inv m s n z \<Longrightarrow> m \<le> m' \<Longrightarrow> lz_inv m' s n z"
  by (simp add: lz_inv_def)

lemma close_run_rule:
  assumes "lz_inv 32 s n z"
  obtains z' where "close_run (n + 1) z = Some z'" "lz_inv 0 s n z'" "run z' = []" "ip z' = ip z" "lzf_op z' \<le> lzf_op z + 1"
proof (cases "run z = []")
  case True
  then show ?thesis using assms that [of z] by (simp add: close_run_def lz_inv_def)
next
  case False
  define z' where "z' = z\<lparr>fin := fin z @ u8 (length (run z) - 1) # run z, run := []\<rparr>"
  have f: "fin z' = fin z @ u8 (length (run z) - 1) # run z" by (simp add: z'_def)
  have d: "decodes s (fin z') (ip z - length (run z) + length (run z))" unfolding f
    using assms False by (intro decodes_literals) (auto simp: lz_inv_def)
  have "close_run (n + 1) z = Some z'" using False assms by (simp add: close_run_def z'_def lz_inv_def)
  moreover have "lz_inv 0 s n z'" using d assms False by (simp add: lz_inv_def z'_def lzf_op_def)
  ultimately show ?thesis using that [of z'] by (simp add: z'_def lzf_op_def)
qed

lemma take_snoc_drop:
  "k \<le> p \<Longrightarrow> p < length s \<Longrightarrow> xs = take k (drop (p - k) s) \<Longrightarrow> xs @ [s ! p] = take (Suc k) (drop (p - k) s)"
  by (simp add: take_Suc_conv_app_nth)

lemma put_literal_rule:
  assumes i: "lz_inv 31 s n z" and p: "ip z < length s" "lzf_op z < n"
  obtains z' where "put_literal s (n + 1) z = Some z'" "lz_inv 31 s n z'" "ip z' = ip z + 1" "lzf_op z' \<le> lzf_op z + 2"
proof -
  define z1 where "z1 = z\<lparr>run := run z @ [s ! ip z], ip := ip z + 1\<rparr>"
  have r: "run z @ [s ! ip z] = take (Suc (length (run z))) (drop (ip z - length (run z)) s)"
    using i p(1) unfolding lz_inv_def by (intro take_snoc_drop) auto
  have z1: "lz_inv 32 s n z1" "lzf_op z1 = lzf_op z + 1" "ip z1 = ip z + 1"
    using i p r by (auto simp: lz_inv_def z1_def lzf_op_def)
  have pl: "put_literal s (n + 1) z = (if length (run z1) = MAX_LIT then close_run (n + 1) z1 else Some z1)"
    using p by (simp add: put_literal_def rd_Some z1_def)
  show ?thesis
  proof (cases "length (run z1) = MAX_LIT")
    case True
    obtain z2 where "close_run (n + 1) z1 = Some z2" "lz_inv 0 s n z2" "run z2 = []" "ip z2 = ip z1" "lzf_op z2 \<le> lzf_op z1 + 1"
      using close_run_rule [OF z1(1)] .
    then show ?thesis using that [of z2] lz_inv_mono [of 0 s n z2 31] True z1(2,3) pl by simp
  next
    case False
    moreover have "length (run z1) \<le> 32" using z1(1) by (simp add: lz_inv_def)
    ultimately have "lz_inv 31 s n z1" using z1(1) by (simp add: lz_inv_def MAX_LIT_def)
    then show ?thesis using that [of z1] z1(2,3) pl False by simp
  qed
qed

lemma rehash_tail_rule:
  assumes "2 \<le> ip z" "ip z + 2 < length s"
  obtains t h where "rehash_tail s z = Some (z\<lparr>htab := t, hval := h\<rparr>)"
  using assms that by (simp add: rehash_tail_def Let_def FRST_def NEXT_def rd_Some)

lemma ref_bytes_length: "length (ref_bytes off len) \<le> 3"
  by (simp add: ref_bytes_def)

lemma put_match_rule:
  assumes i: "lz_inv 31 s n z" and p: "ip z + 4 < length s" "ref < ip z" "ip z - ref - 1 < 8192"
    and eq: "\<forall>i \<le> 2. s ! (ref + i) = s ! (ip z + i)"
  obtains r where "put_match s (n + 1) n ref z = Some r" "\<And>z'. r = Some z' \<Longrightarrow> lz_inv 31 s n z'"
proof -
  have "lz_inv 32 s n z" using i by (simp add: lz_inv_def)
  then obtain z1 where z1: "close_run (n + 1) z = Some z1" "lz_inv 0 s n z1" "run z1 = []" "ip z1 = ip z"
    by (rule close_run_rule)
  show ?thesis
  proof (cases "length (fin z1) + 4 \<ge> n")
    case True
    then show ?thesis using z1 that [of None] by (simp add: put_match_def)
  next
    case False
    obtain L where L: "match_len s ref (ip z) = Some L" "3 \<le> L" "L \<le> 264" "ip z + L \<le> length s" "\<forall>i < L. s ! (ref + i) = s ! (ip z + i)"
      using match_len_rule [OF p(1,2) eq] .
    define z2 where "z2 = z1\<lparr>fin := fin z1 @ ref_bytes (ip z - ref - 1) (L - 2), ip := ip z + L\<rparr>"
    have "decodes s (fin z1) (ip z)" using z1 by (simp add: lz_inv_def)
    moreover have "fin z2 = fin z1 @ ref_bytes (ip z - ref - 1) (L - 2)" by (simp add: z2_def)
    ultimately have "decodes s (fin z2) (ip z + L)" using p L decodes_ref [of s "fin z1" "ip z" ref L] by simp
    moreover have len: "length (fin z2) \<le> n" using False ref_bytes_length [of "ip z - ref - 1" "L - 2"] by (simp add: z2_def)
    ultimately have z2: "lz_inv 31 s n z2" using z1 L(4) by (simp add: lz_inv_def z2_def)
    have pm: "put_match s (n + 1) n ref z =
        (if ip z2 + 2 \<ge> length s then Some (Some z2) else do { z3 \<leftarrow> rehash_tail s z2; Some (Some z3) })"
      using z1 False L(1) len by (simp add: put_match_def z2_def)
    show ?thesis
    proof (cases "ip z2 + 2 \<ge> length s")
      case True
      then show ?thesis using that [of "Some z2"] z2 pm by simp
    next
      case False
      have "2 \<le> ip z2" "ip z2 + 2 < length s" using False L(2) by (simp_all add: z2_def)
      then obtain t h where "rehash_tail s z2 = Some (z2\<lparr>htab := t, hval := h\<rparr>)" by (rule rehash_tail_rule)
      then show ?thesis using that [of "Some (z2\<lparr>htab := t, hval := h\<rparr>)"] False z2 pm by simp
    qed
  qed
qed


lemma candidate_rule:
  assumes "p + 2 < length s"
  obtains m where "candidate s p ref = Some m"
    "m \<Longrightarrow> nat ref < p \<and> p - nat ref - 1 < 8192 \<and> p + 4 < length s \<and> (\<forall>i \<le> 2. s ! (nat ref + i) = s ! (p + i))"
proof (cases "0 \<le> int p - ref - 1 \<and> int p - ref - 1 < MAX_OFF \<and> p + 4 < length s \<and> ref > 0")
  case True
  then have r: "nat ref < p" "p - nat ref - 1 < 8192" by (auto simp: MAX_OFF_def)
  then have "candidate s p ref =
      Some (s ! nat ref = s ! p \<and> s ! (nat ref + 1) = s ! (p + 1) \<and> s ! (nat ref + 2) = s ! (p + 2))"
    using True by (simp add: candidate_def rd_Some)
  moreover have "\<forall>i \<le> 2. s ! (nat ref + i) = s ! (p + i)"
    if "s ! nat ref = s ! p" "s ! (nat ref + 1) = s ! (p + 1)" "s ! (nat ref + 2) = s ! (p + 2)"
    using that by (auto simp: le_Suc_eq numeral_2_eq_2)
  ultimately show ?thesis using that r True by blast
qed (use that [of False] in \<open>auto simp: candidate_def\<close>)

lemma lzf_loop_rule:
  "lz_inv 31 s n z \<Longrightarrow>
   \<exists>r. lzf_loop s (n + 1) n z = Some r \<and> (\<forall>z'. r = Some z' \<longrightarrow> lz_inv 31 s n z' \<and> length s \<le> ip z' + 2)"
proof (induction s "n + 1" n z rule: lzf_loop.induct)
  case (1 s n z)
  show ?case
  proof (cases "ip z + 2 < length s")
    case True
    then obtain h where h: "NEXT (hval z) s (ip z) = Some h" by (simp add: NEXT_def rd_Some)
    define ref where "ref = htab z (IDX h)"
    define z1 where "z1 = z\<lparr>hval := h, htab := (htab z)(IDX h := int (ip z))\<rparr>"
    have z1: "lz_inv 31 s n z1" "ip z1 = ip z" using "1.prems" by (simp_all add: z1_def)
    obtain m where m: "candidate s (ip z) ref = Some m"
      "m \<Longrightarrow> nat ref < ip z \<and> ip z - nat ref - 1 < 8192 \<and> ip z + 4 < length s \<and> (\<forall>i \<le> 2. s ! (nat ref + i) = s ! (ip z + i))"
      using candidate_rule [OF True, of ref] by blast
    have l: "lzf_loop s cap n z =
        (if m then (case put_match s cap n (nat ref) z1 of None \<Rightarrow> None | Some None \<Rightarrow> Some None | Some (Some z2) \<Rightarrow> lzf_loop s cap n z2)
         else if lzf_op z1 \<ge> n then Some None
         else (case put_literal s cap z1 of None \<Rightarrow> None | Some z2 \<Rightarrow> lzf_loop s cap n z2))" for cap
      using True h m(1) by (simp add: lzf_loop.simps [of s cap n z] ref_def z1_def)
    show ?thesis
    proof (cases m)
      case m': True
      obtain r where r: "put_match s (n + 1) n (nat ref) z1 = Some r" "\<And>z'. r = Some z' \<Longrightarrow> lz_inv 31 s n z'"
        using put_match_rule [OF z1(1), of "nat ref"] m(2) [OF m'] unfolding z1(2) by blast
      then show ?thesis
        using "1.hyps"(1) [OF True h ref_def z1_def m(1) m', of r] l [of "n + 1"] m' by (cases r) auto
    next
      case m': False
      show ?thesis
      proof (cases "lzf_op z1 \<ge> n")
        case False
        obtain z2 where z2: "put_literal s (n + 1) z1 = Some z2" "lz_inv 31 s n z2" "ip z2 = ip z1 + 1" "lzf_op z2 \<le> lzf_op z1 + 2"
          using put_literal_rule [OF z1(1)] True z1(2) False by auto
        then show ?thesis using "1.hyps"(2) [OF True h ref_def z1_def m(1) m'] l [of "n + 1"] m' False by auto
      qed (use l [of "n + 1"] m' in simp)
    qed
  next
    case False
    then show ?thesis using "1.prems" by (simp add: lzf_loop.simps [of s _ n z])
  qed
qed

lemma lzf_tail_rule:
  "lz_inv 31 s n z \<Longrightarrow> lzf_op z + 2 * (length s - ip z) \<le> n + 1 \<Longrightarrow>
   \<exists>z'. lzf_tail s (n + 1) z = Some z' \<and> lz_inv 31 s n z' \<and> ip z' = length s"
proof (induction s "n + 1" z rule: lzf_tail.induct)
  case (1 s z)
  show ?case
  proof (cases "ip z < length s")
    case True
    then have "lzf_op z < n" using "1.prems"(2) by simp
    with "1.prems"(1) True obtain z1 where z1: "put_literal s (n + 1) z = Some z1" "lz_inv 31 s n z1" "ip z1 = ip z + 1" "lzf_op z1 \<le> lzf_op z + 2"
      by (rule put_literal_rule)
    moreover have "lzf_op z1 + 2 * (length s - ip z1) \<le> n + 1" using "1.prems"(2) z1(3,4) True by simp
    ultimately show ?thesis using "1.hyps" [OF True z1(1)] True by (simp add: lzf_tail.simps [of s _ z])
  next
    case False
    then show ?thesis using "1.prems"(1) by (auto simp: lzf_tail.simps [of s _ z] lz_inv_def)
  qed
qed


section \<open>The round trip\<close>

lemma decodes_all:
  assumes "decodes s c (length s)" "s \<noteq> []"
  shows "lzf_decompress c (length s) = Some (Some s)"
proof -
  have "lzf_rest (length s) c [] = Some (Some s)" using assms(1) unfolding decodes_def lzf_rest_def
    by (metis append_Nil2 order_refl take_all)
  moreover from this have "c \<noteq> []" using assms(2) by (auto simp: lzf_rest_def)
  ultimately show ?thesis by (simp add: lzf_decompress_def lzf_rest_def)
qed

lemma lzf_finish:
  assumes z: "lz_inv 31 s n z" "length s \<le> ip z + 2" "lzf_op z + 3 \<le> n"
  obtains z1 z2 where "lzf_tail s (n + 1) z = Some z1" "close_run (n + 1) z1 = Some z2" "decodes s (fin z2) (length s)" "length (fin z2) \<le> n"
proof -
  have b: "lzf_op z + 2 * (length s - ip z) \<le> n + 1" using z(2,3) by linarith
  obtain z1 where z1: "lzf_tail s (n + 1) z = Some z1" "lz_inv 31 s n z1" "ip z1 = length s"
    using lzf_tail_rule [OF z(1) b] by blast
  obtain z2 where "close_run (n + 1) z1 = Some z2" "lz_inv 0 s n z2" "run z2 = []" "ip z2 = ip z1" "lzf_op z2 \<le> lzf_op z1 + 1"
    using close_run_rule [OF lz_inv_mono [OF z1(2), of 32]] by auto
  then show ?thesis using that [OF z1(1)] z1(3) by (simp add: lz_inv_def)
qed

lemma lzf_compress_rule:
  assumes "2 \<le> length s"
  shows "\<exists>r. lzf_compress junk (n + 1) s n = Some r \<and>
    (\<forall>c. r = Some c \<longrightarrow> length c \<le> n \<and> lzf_decompress c (length s) = Some (Some s))"
proof (cases "n = 0")
  case False
  have s: "s \<noteq> []" using assms by auto
  obtain h where h: "FRST s 0 = Some h" using assms s by (simp add: FRST_def rd_Some)
  define z where "z = \<lparr>ip = 0, fin = [], run = [], htab = junk, hval = h\<rparr>"
  have "lz_inv 31 s n z" by (simp add: lz_inv_def z_def decodes_Nil)
  then obtain r where r: "lzf_loop s (n + 1) n z = Some r" "\<forall>z'. r = Some z' \<longrightarrow> lz_inv 31 s n z' \<and> length s \<le> ip z' + 2"
    using lzf_loop_rule by blast
  show ?thesis
  proof (cases "\<exists>z'. r = Some z' \<and> lzf_op z' + 3 \<le> n")
    case True
    then obtain z' where z': "r = Some z'" "lzf_op z' + 3 \<le> n" by blast
    obtain z1 z2 where f: "lzf_tail s (n + 1) z' = Some z1" "close_run (n + 1) z1 = Some z2" "decodes s (fin z2) (length s)" "length (fin z2) \<le> n"
      using lzf_finish r(2) z' by blast
    then have "lzf_compress junk (n + 1) s n = Some (Some (fin z2))" using s False h r(1) z' by (simp add: lzf_compress_def z_def)
    then show ?thesis using decodes_all [OF f(3) s] f(4) by simp
  next
    case no: False
    then have "lzf_compress junk (n + 1) s n = Some None"
      using s False h r(1) by (cases r) (auto simp: lzf_compress_def z_def)
    then show ?thesis by simp
  qed
qed (simp add: lzf_compress_def)

text \<open>
  C25. Compressing two bytes or more never leaves the input or an output buffer of one byte more than
  \<^verbatim>\<open>out_len\<close> (what \<^verbatim>\<open>rdb.c\<close> allocates), whatever the uninitialised hash table holds, and it always
  returns. When it does not give up, its output has at most \<^verbatim>\<open>out_len\<close> bytes and decompressing it into
  a buffer of the size of the input gives the input back.
\<close>

theorem lzf_roundtrip:
  assumes "2 \<le> length s"
  shows "\<exists>r. lzf_compress junk (n + 1) s n = Some r \<and>
    (\<forall>c. r = Some c \<longrightarrow> length c \<le> n \<and> lzf_decompress c (length s) = Some (Some s))"
  using assms by (rule lzf_compress_rule)

theorem lzf_roundtrip_witness:
  "lzf_compress (\<lambda>_. 0) 13 (replicate 16 CHR ''a'') 12 =
     Some (Some [CHR 0x01, CHR ''a'', CHR ''a'', CHR 0xE0, CHR 0x03, CHR 0x00, CHR 0x01, CHR ''a'', CHR ''a'']) \<and>
   lzf_decompress [CHR 0x01, CHR ''a'', CHR ''a'', CHR 0xE0, CHR 0x03, CHR 0x00, CHR 0x01, CHR ''a'', CHR ''a''] 16 =
     Some (Some (replicate 16 CHR ''a''))"
proof -
  have c: "lzf_compress (\<lambda>_. 0) 13 (replicate 16 CHR ''a'') 12 =
     Some (Some [CHR 0x01, CHR ''a'', CHR ''a'', CHR 0xE0, CHR 0x03, CHR 0x00, CHR 0x01, CHR ''a'', CHR ''a''])"
    by code_simp
  then show ?thesis using lzf_roundtrip [of "replicate 16 CHR ''a''" "\<lambda>_. 0" 12] by simp
qed

text \<open>
  The output buffer has to be larger than the \<^verbatim>\<open>out_len\<close> passed. On an input of 37 bytes, 32 distinct
  ones and then a repetition, with 33 bytes of room, the compressor writes one byte past a
  buffer of 33 bytes: the run of 32 literals fills the buffer, and the match that follows stores the length of an
  empty run before it compares the output pointer with the end.
\<close>

theorem lzf_overrun:
  "lzf_compress (\<lambda>_. 0) 33 (map char_of [0..<32::nat] @ map char_of [1..<6::nat]) 33 = None \<and>
   lzf_compress (\<lambda>_. 0) 34 (map char_of [0..<32::nat] @ map char_of [1..<6::nat]) 33 = Some None"
proof
  show "lzf_compress (\<lambda>_. 0) 33 (map char_of [0..<32::nat] @ map char_of [1..<6::nat]) 33 = None" by code_simp
  show "lzf_compress (\<lambda>_. 0) 34 (map char_of [0..<32::nat] @ map char_of [1..<6::nat]) 33 = Some None" by code_simp
qed

end
