(* ===== verification/Ziplist_Bytes.thy ===== *)
theory Ziplist_Bytes
  imports Ziplist Bytes
begin

text \<open>
  Ziplists at the level of their bytes (\<^verbatim>\<open>redis-2.8.17/src/ziplist.c\<close>): a header with the size, the
  offset of the last entry and the number of entries, then the entries, each with the length of its
  predecessor, its own encoding and length, and its contents, then the byte 255. Pointers into a
  ziplist are offsets; \<open>None\<close> is an access outside the allocated block or a failed assertion.
  Insertion and deletion change the size of length fields, which may cascade through the list.
\<close>

definition ZIP_END :: char where "ZIP_END = CHR 0xFF"
definition ZIP_BIGLEN :: nat where "ZIP_BIGLEN = 254"
definition ZIPLIST_HEADER_SIZE :: nat where "ZIPLIST_HEADER_SIZE = 10"
definition ZIP_INT_16B :: nat where "ZIP_INT_16B = 0xC0"
definition ZIP_INT_32B :: nat where "ZIP_INT_32B = 0xD0"
definition ZIP_INT_64B :: nat where "ZIP_INT_64B = 0xE0"
definition ZIP_INT_24B :: nat where "ZIP_INT_24B = 0xF0"
definition ZIP_INT_8B :: nat where "ZIP_INT_8B = 0xFE"
definition ZIP_INT_IMM_MIN :: nat where "ZIP_INT_IMM_MIN = 0xF1"
definition ZIP_INT_IMM_MAX :: nat where "ZIP_INT_IMM_MAX = 0xFD"

lemmas zip_consts = ZIP_END_def ZIP_BIGLEN_def ZIPLIST_HEADER_SIZE_def ZIP_INT_16B_def ZIP_INT_32B_def
  ZIP_INT_64B_def ZIP_INT_24B_def ZIP_INT_8B_def ZIP_INT_IMM_MIN_def ZIP_INT_IMM_MAX_def


section \<open>Header fields\<close>

definition ZIPLIST_BYTES :: "string \<Rightarrow> nat option" where
  "ZIPLIST_BYTES zl = get_uint 4 zl 0"

definition ZIPLIST_TAIL_OFFSET :: "string \<Rightarrow> nat option" where
  "ZIPLIST_TAIL_OFFSET zl = get_uint 4 zl 4"

definition ZIPLIST_LENGTH :: "string \<Rightarrow> nat option" where
  "ZIPLIST_LENGTH zl = get_uint 2 zl 8"

definition set_bytes :: "string \<Rightarrow> int \<Rightarrow> string option" where
  "set_bytes zl v = wr zl 0 (le_chars 4 v)"

definition set_tail :: "string \<Rightarrow> int \<Rightarrow> string option" where
  "set_tail zl v = wr zl 4 (le_chars 4 v)"

definition ZIPLIST_INCR_LENGTH :: "string \<Rightarrow> int \<Rightarrow> string option" where
  "ZIPLIST_INCR_LENGTH zl incr = do {
     n \<leftarrow> ZIPLIST_LENGTH zl;
     if n < 65535 then wr zl 8 (le_chars 2 (int n + incr)) else Some zl
   }"

definition ZIPLIST_ENTRY_END :: "string \<Rightarrow> nat option" where
  "ZIPLIST_ENTRY_END zl = do { n \<leftarrow> ZIPLIST_BYTES zl; Some (n - 1) }"


section \<open>Fields of an entry\<close>

definition zipIntSize :: "nat \<Rightarrow> nat" where
  "zipIntSize enc =
     (if enc = ZIP_INT_8B then 1 else if enc = ZIP_INT_16B then 2 else if enc = ZIP_INT_24B then 3
      else if enc = ZIP_INT_32B then 4 else if enc = ZIP_INT_64B then 8 else 0)"

text \<open>The two high bits are not both set.\<close>

definition ZIP_IS_STR :: "nat \<Rightarrow> bool" where
  "ZIP_IS_STR enc \<longleftrightarrow> enc div 64 mod 4 < 3"

definition zipEncodeLength :: "nat \<Rightarrow> nat \<Rightarrow> string" where
  "zipEncodeLength enc rawlen =
     (if ZIP_IS_STR enc then
        (if rawlen \<le> 0x3F then [u8 rawlen]
         else if rawlen \<le> 0x3FFF then [u8 (0x40 + rawlen div 256 mod 64), u8 rawlen]
         else [u8 0x80, u8 (rawlen div 2 ^ 24), u8 (rawlen div 2 ^ 16), u8 (rawlen div 2 ^ 8), u8 rawlen])
      else [u8 enc])"

text \<open>The encoding, the size of the length field and the length.\<close>

definition ZIP_DECODE_LENGTH :: "string \<Rightarrow> nat \<Rightarrow> (nat \<times> nat \<times> nat) option" where
  "ZIP_DECODE_LENGTH zl p = do {
     c \<leftarrow> rd zl p;
     let b = byte_val c;
     if b < 0x40 then Some (0, 1, b)
     else if b < 0x80 then do { c1 \<leftarrow> rd zl (p + 1); Some (0x40, 2, b mod 64 * 256 + byte_val c1) }
     else if b < 0xC0 then do {
       c1 \<leftarrow> rd zl (p + 1); c2 \<leftarrow> rd zl (p + 2); c3 \<leftarrow> rd zl (p + 3); c4 \<leftarrow> rd zl (p + 4);
       Some (0x80, 5, byte_val c1 * 2 ^ 24 + byte_val c2 * 2 ^ 16 + byte_val c3 * 2 ^ 8 + byte_val c4)
     }
     else Some (b, 1, zipIntSize b)
   }"

definition prevlen_size :: "nat \<Rightarrow> nat" where
  "prevlen_size len = (if len < ZIP_BIGLEN then 1 else 5)"

definition zipPrevEncodeLengthForceLarge :: "nat \<Rightarrow> string" where
  "zipPrevEncodeLengthForceLarge len = u8 ZIP_BIGLEN # le_chars 4 (int len)"

definition zipPrevEncodeLength :: "nat \<Rightarrow> string" where
  "zipPrevEncodeLength len = (if len < ZIP_BIGLEN then [u8 len] else zipPrevEncodeLengthForceLarge len)"

definition ZIP_DECODE_PREVLENSIZE :: "string \<Rightarrow> nat \<Rightarrow> nat option" where
  "ZIP_DECODE_PREVLENSIZE zl p = do { c \<leftarrow> rd zl p; Some (if byte_val c < ZIP_BIGLEN then 1 else 5) }"

definition ZIP_DECODE_PREVLEN :: "string \<Rightarrow> nat \<Rightarrow> (nat \<times> nat) option" where
  "ZIP_DECODE_PREVLEN zl p = do {
     psize \<leftarrow> ZIP_DECODE_PREVLENSIZE zl p;
     if psize = 1 then do { c \<leftarrow> rd zl p; Some (1, byte_val c) }
     else do { n \<leftarrow> get_uint 4 zl (p + 1); Some (5, n) }
   }"

definition zipPrevLenByteDiff :: "string \<Rightarrow> nat \<Rightarrow> nat \<Rightarrow> int option" where
  "zipPrevLenByteDiff zl p len = do {
     psize \<leftarrow> ZIP_DECODE_PREVLENSIZE zl p;
     Some (int (prevlen_size len) - int psize)
   }"

definition zipRawEntryLength :: "string \<Rightarrow> nat \<Rightarrow> nat option" where
  "zipRawEntryLength zl p = do {
     psize \<leftarrow> ZIP_DECODE_PREVLENSIZE zl p;
     (enc, lensize, len) \<leftarrow> ZIP_DECODE_LENGTH zl (p + psize);
     Some (psize + lensize + len)
   }"

record zlentry =
  prevrawlensize :: nat
  prevrawlen :: nat
  lensize :: nat
  zlen :: nat
  headersize :: nat
  zencoding :: nat

definition zipEntry :: "string \<Rightarrow> nat \<Rightarrow> zlentry option" where
  "zipEntry zl p = do {
     (psize, plen) \<leftarrow> ZIP_DECODE_PREVLEN zl p;
     (enc, ls, len) \<leftarrow> ZIP_DECODE_LENGTH zl (p + psize);
     Some \<lparr>prevrawlensize = psize, prevrawlen = plen, lensize = ls, zlen = len, headersize = psize + ls, zencoding = enc\<rparr>
   }"


section \<open>Integers\<close>

definition zip_int_encoding :: "int \<Rightarrow> nat" where
  "zip_int_encoding v =
     (if 0 \<le> v \<and> v \<le> 12 then ZIP_INT_IMM_MIN + nat v
      else if - (2 ^ 7) \<le> v \<and> v \<le> 2 ^ 7 - 1 then ZIP_INT_8B
      else if - (2 ^ 15) \<le> v \<and> v \<le> 2 ^ 15 - 1 then ZIP_INT_16B
      else if - (2 ^ 23) \<le> v \<and> v \<le> 2 ^ 23 - 1 then ZIP_INT_24B
      else if - (2 ^ 31) \<le> v \<and> v \<le> 2 ^ 31 - 1 then ZIP_INT_32B
      else ZIP_INT_64B)"

text \<open>A 24 bit integer is the three high bytes of a 32 bit one.\<close>

definition int_chars :: "int \<Rightarrow> nat \<Rightarrow> string option" where
  "int_chars v enc =
     (if enc = ZIP_INT_8B then Some (le_chars 1 v)
      else if enc = ZIP_INT_16B then Some (le_chars 2 v)
      else if enc = ZIP_INT_24B then Some (tl (le_chars 4 (v * 256)))
      else if enc = ZIP_INT_32B then Some (le_chars 4 v)
      else if enc = ZIP_INT_64B then Some (le_chars 8 v)
      else if ZIP_INT_IMM_MIN \<le> enc \<and> enc \<le> ZIP_INT_IMM_MAX then Some []
      else None)"

definition zipSaveInteger :: "string \<Rightarrow> nat \<Rightarrow> int \<Rightarrow> nat \<Rightarrow> string option" where
  "zipSaveInteger zl p v enc = do { x \<leftarrow> int_chars v enc; wr zl p x }"

definition zipLoadInteger :: "string \<Rightarrow> nat \<Rightarrow> nat \<Rightarrow> int option" where
  "zipLoadInteger zl p enc =
     (if enc = ZIP_INT_8B then get_sint 1 zl p
      else if enc = ZIP_INT_16B then get_sint 2 zl p
      else if enc = ZIP_INT_32B then get_sint 4 zl p
      else if enc = ZIP_INT_24B then do {
        x \<leftarrow> rdn zl p 3;
        Some (le_sint (map char_byte (u8 0 # x)) div 256)
      }
      else if enc = ZIP_INT_64B then get_sint 8 zl p
      else if ZIP_INT_IMM_MIN \<le> enc \<and> enc \<le> ZIP_INT_IMM_MAX then Some (int (enc mod 16) - 1)
      else None)"


section \<open>Changing the size\<close>

definition ziplistNew :: string where
  "ziplistNew = le_chars 4 11 @ le_chars 4 10 @ le_chars 2 0 @ [ZIP_END]"

text \<open>\<open>junk\<close> is what \<^verbatim>\<open>zrealloc\<close> leaves in the new bytes.\<close>

definition ziplistResize :: "(nat \<Rightarrow> char) \<Rightarrow> string \<Rightarrow> nat \<Rightarrow> string option" where
  "ziplistResize junk zl len = do {
     zl1 \<leftarrow> set_bytes (take len zl @ map junk [length zl..<len]) (int len);
     wr zl1 (len - 1) [ZIP_END]
   }"

text \<open>
  One round of the loop. It goes on, with the new size and position, only after a length field grew,
  which happens behind entries of 254 bytes or more; so the distance from the end decreases.
\<close>

definition cascade_grow :: "(nat \<Rightarrow> char) \<Rightarrow> string \<Rightarrow> nat \<Rightarrow> nat \<Rightarrow> nat \<Rightarrow> nat \<Rightarrow> string option" where
  "cascade_grow junk zl curlen np psize rawlen = do {
     let extra = prevlen_size rawlen - psize;
     zl1 \<leftarrow> ziplistResize junk zl (curlen + extra);
     t \<leftarrow> ZIPLIST_TAIL_OFFSET zl1;
     zl2 \<leftarrow> (if t \<noteq> np then set_tail zl1 (int t + int extra) else Some zl1);
     zl3 \<leftarrow> memmove zl2 (np + prevlen_size rawlen) (np + psize) (curlen - np - psize - 1);
     wr zl3 np (zipPrevEncodeLength rawlen)
   }"

definition cascade_step :: "(nat \<Rightarrow> char) \<Rightarrow> string \<Rightarrow> nat \<Rightarrow> nat \<Rightarrow> (string \<times> (nat \<times> nat) option) option" where
  "cascade_step junk zl curlen p = do {
     cur \<leftarrow> zipEntry zl p;
     let rawlen = headersize cur + zlen cur;
     let rawlensize = prevlen_size rawlen;
     let np = p + rawlen;
     e \<leftarrow> rd zl np;
     if e = ZIP_END then Some (zl, None)
     else do {
       nx \<leftarrow> zipEntry zl np;
       if prevrawlen nx = rawlen then Some (zl, None)
       else if prevrawlensize nx < rawlensize then
         (if curlen < np + prevrawlensize nx + 1 then None
          else do {
            zl1 \<leftarrow> cascade_grow junk zl curlen np (prevrawlensize nx) rawlen;
            Some (zl1, Some (curlen + (rawlensize - prevrawlensize nx), np))
          })
       else do {
         zl1 \<leftarrow> wr zl np (if prevrawlensize nx > rawlensize then zipPrevEncodeLengthForceLarge rawlen else zipPrevEncodeLength rawlen);
         Some (zl1, None)
       }
     }
   }"

lemma prevlen_sizes: "ZIP_DECODE_PREVLEN zl p = Some (psize, n) \<Longrightarrow> psize = 1 \<or> psize = 5"
  by (simp add: ZIP_DECODE_PREVLEN_def bind_eq_Some_conv split: if_splits) blast+

lemma zipEntry_prevsize: "zipEntry zl p = Some e \<Longrightarrow> prevrawlensize e = 1 \<or> prevrawlensize e = 5"
  by (auto simp: zipEntry_def bind_eq_Some_conv dest: prevlen_sizes)

lemma cascade_step_less:
  assumes "cascade_step junk zl curlen p = Some (zl', Some (curlen', p'))"
  shows "curlen' - p' < curlen - p"
proof -
  obtain nx rawlen where "zipEntry zl (p + rawlen) = Some nx" "prevrawlensize nx < prevlen_size rawlen"
    "\<not> curlen < p + rawlen + prevrawlensize nx + 1" "curlen' = curlen + (prevlen_size rawlen - prevrawlensize nx)" "p' = p + rawlen"
    using assms unfolding cascade_step_def Let_def by (simp add: bind_eq_Some_conv split: if_splits) blast
  moreover from this have "prevrawlensize nx = 1 \<or> prevrawlensize nx = 5" by (blast dest: zipEntry_prevsize)
  ultimately have "254 \<le> rawlen" "curlen' \<le> curlen + 4" "p + rawlen < curlen" "p' = p + rawlen"
    by (auto simp: prevlen_size_def ZIP_BIGLEN_def split: if_splits)
  then show ?thesis by linarith
qed

function ziplistCascadeUpdate :: "(nat \<Rightarrow> char) \<Rightarrow> string \<Rightarrow> nat \<Rightarrow> nat \<Rightarrow> string option" where
  "ziplistCascadeUpdate junk zl curlen p = do {
     c \<leftarrow> rd zl p;
     if c = ZIP_END then Some zl
     else
       (case cascade_step junk zl curlen p of
          None \<Rightarrow> None
        | Some (zl1, None) \<Rightarrow> Some zl1
        | Some (zl1, Some (n, np)) \<Rightarrow> ziplistCascadeUpdate junk zl1 n np)
   }"
  by pat_completeness auto
termination
  by (relation "measure (\<lambda>(junk, zl, curlen, p). curlen - p)") (auto dest: cascade_step_less)

declare ziplistCascadeUpdate.simps [simp del]


section \<open>Deletion\<close>

primrec skip_entries :: "string \<Rightarrow> nat \<Rightarrow> nat \<Rightarrow> (nat \<times> nat) option" where
  "skip_entries zl p 0 = Some (p, 0)"
| "skip_entries zl p (Suc n) = do {
     c \<leftarrow> rd zl p;
     if c = ZIP_END then Some (p, 0)
     else do {
       l \<leftarrow> zipRawEntryLength zl p;
       (q, deleted) \<leftarrow> skip_entries zl (p + l) n;
       Some (q, deleted + 1)
     }
   }"

text \<open>When more than one entry follows, a change of size before it moves the last entry.\<close>

definition fix_tail :: "string \<Rightarrow> nat \<Rightarrow> int \<Rightarrow> int \<Rightarrow> string option" where
  "fix_tail zl q moved nextdiff = do {
     t \<leftarrow> ZIPLIST_TAIL_OFFSET zl;
     zl1 \<leftarrow> set_tail zl (int t + moved);
     tail \<leftarrow> zipEntry zl1 q;
     c \<leftarrow> rd zl1 (q + headersize tail + zlen tail);
     if c \<noteq> ZIP_END then do { t1 \<leftarrow> ZIPLIST_TAIL_OFFSET zl1; set_tail zl1 (int t1 + nextdiff) } else Some zl1
   }"

definition close_gap :: "string \<Rightarrow> nat \<Rightarrow> nat \<Rightarrow> nat \<Rightarrow> (string \<times> int) option" where
  "close_gap zl p q prevlen = do {
     nextdiff \<leftarrow> zipPrevLenByteDiff zl q prevlen;
     let q1 = nat (int q - nextdiff);
     zl1 \<leftarrow> wr zl q1 (zipPrevEncodeLength prevlen);
     zl2 \<leftarrow> fix_tail zl1 q1 (- int (q - p)) nextdiff;
     b \<leftarrow> ZIPLIST_BYTES zl2;
     if b < q1 + 1 then None
     else do { zl3 \<leftarrow> memmove zl2 p q1 (b - q1 - 1); Some (zl3, nextdiff) }
   }"

definition ziplistDelete_num :: "(nat \<Rightarrow> char) \<Rightarrow> string \<Rightarrow> nat \<Rightarrow> nat \<Rightarrow> string option" where
  "ziplistDelete_num junk zl p num = do {
     first \<leftarrow> zipEntry zl p;
     (q, deleted) \<leftarrow> skip_entries zl p num;
     if q - p > 0 then do {
       c \<leftarrow> rd zl q;
       (zl1, nextdiff) \<leftarrow> (if c \<noteq> ZIP_END then close_gap zl p q (prevrawlen first)
         else do { zl1 \<leftarrow> set_tail zl (int p - int (prevrawlen first)); Some (zl1, 0) });
       b \<leftarrow> ZIPLIST_BYTES zl1;
       zl2 \<leftarrow> ziplistResize junk zl1 (nat (int b - int (q - p) + nextdiff));
       zl3 \<leftarrow> ZIPLIST_INCR_LENGTH zl2 (- int deleted);
       if nextdiff \<noteq> 0 then do { n \<leftarrow> ZIPLIST_BYTES zl3; ziplistCascadeUpdate junk zl3 n p } else Some zl3
     }
     else Some zl
   }"


section \<open>Insertion\<close>

text \<open>The length of the entry before \<open>p\<close>, which is the last one when \<open>p\<close> is the end.\<close>

definition insert_prevlen :: "string \<Rightarrow> nat \<Rightarrow> nat option" where
  "insert_prevlen zl p = do {
     c \<leftarrow> rd zl p;
     if c \<noteq> ZIP_END then do { (_, n) \<leftarrow> ZIP_DECODE_PREVLEN zl p; Some n }
     else do {
       t \<leftarrow> ZIPLIST_TAIL_OFFSET zl;
       ct \<leftarrow> rd zl t;
       if ct \<noteq> ZIP_END then zipRawEntryLength zl t else Some 0
     }
   }"

definition open_gap :: "string \<Rightarrow> nat \<Rightarrow> nat \<Rightarrow> nat \<Rightarrow> int \<Rightarrow> string option" where
  "open_gap zl curlen p reqlen nextdiff =
     (if int curlen - int p - 1 + nextdiff < 0 then None
      else do {
        zl1 \<leftarrow> memmove zl (p + reqlen) (nat (int p - nextdiff)) (nat (int curlen - int p - 1 + nextdiff));
        zl2 \<leftarrow> wr zl1 (p + reqlen) (zipPrevEncodeLength reqlen);
        fix_tail zl2 (p + reqlen) (int reqlen) nextdiff
      })"

definition ziplistInsert :: "(nat \<Rightarrow> char) \<Rightarrow> string \<Rightarrow> nat \<Rightarrow> string \<Rightarrow> string option" where
  "ziplistInsert junk zl p x = do {
     curlen \<leftarrow> ZIPLIST_BYTES zl;
     prevlen \<leftarrow> insert_prevlen zl p;
     let (enc, plen) = (case zipTryEncoding x of
         Some v \<Rightarrow> (zip_int_encoding v, zipIntSize (zip_int_encoding v))
       | None \<Rightarrow> (0, length x));
     let reqlen = plen + prevlen_size prevlen + length (zipEncodeLength enc (length x));
     c \<leftarrow> rd zl p;
     nextdiff \<leftarrow> (if c \<noteq> ZIP_END then zipPrevLenByteDiff zl p reqlen else Some 0);
     zl1 \<leftarrow> ziplistResize junk zl (nat (int curlen + int reqlen + nextdiff));
     c1 \<leftarrow> rd zl1 p;
     zl2 \<leftarrow> (if c1 \<noteq> ZIP_END then open_gap zl1 curlen p reqlen nextdiff else set_tail zl1 (int p));
     zl3 \<leftarrow> (if nextdiff \<noteq> 0 then do { n \<leftarrow> ZIPLIST_BYTES zl2; ziplistCascadeUpdate junk zl2 n (p + reqlen) } else Some zl2);
     zl4 \<leftarrow> wr zl3 p (zipPrevEncodeLength prevlen);
     zl5 \<leftarrow> wr zl4 (p + prevlen_size prevlen) (zipEncodeLength enc (length x));
     let p2 = p + prevlen_size prevlen + length (zipEncodeLength enc (length x));
     zl6 \<leftarrow> (case zipTryEncoding x of None \<Rightarrow> wr zl5 p2 x | Some v \<Rightarrow> zipSaveInteger zl5 p2 v enc);
     ZIPLIST_INCR_LENGTH zl6 1
   }"

definition ziplistPush :: "(nat \<Rightarrow> char) \<Rightarrow> string \<Rightarrow> string \<Rightarrow> bool \<Rightarrow> string option" where
  "ziplistPush junk zl x head = do {
     p \<leftarrow> (if head then Some ZIPLIST_HEADER_SIZE else ZIPLIST_ENTRY_END zl);
     ziplistInsert junk zl p x
   }"


section \<open>Reading\<close>

text \<open>The loops of \<^verbatim>\<open>ziplistIndex\<close>, from the head and from the tail; the inner \<open>None\<close> is a null pointer.\<close>

primrec index_forward :: "string \<Rightarrow> nat \<Rightarrow> nat \<Rightarrow> nat option option" where
  "index_forward zl p 0 = do { c \<leftarrow> rd zl p; Some (if c = ZIP_END then None else Some p) }"
| "index_forward zl p (Suc n) = do {
     c \<leftarrow> rd zl p;
     if c = ZIP_END then Some None else do { l \<leftarrow> zipRawEntryLength zl p; index_forward zl (p + l) n }
   }"

primrec index_backward :: "string \<Rightarrow> nat \<Rightarrow> nat \<Rightarrow> nat \<Rightarrow> nat option option" where
  "index_backward zl p prevlen 0 = Some (Some p)"
| "index_backward zl p prevlen (Suc n) =
     (if prevlen > 0 then
        (if p < prevlen then None
         else do {
           (_, prevlen1) \<leftarrow> ZIP_DECODE_PREVLEN zl (p - prevlen);
           index_backward zl (p - prevlen) prevlen1 n
         })
      else Some None)"

definition ziplistIndex :: "string \<Rightarrow> int \<Rightarrow> nat option option" where
  "ziplistIndex zl i =
     (if i < 0 then do {
        p \<leftarrow> ZIPLIST_TAIL_OFFSET zl;
        c \<leftarrow> rd zl p;
        if c = ZIP_END then Some None
        else do { (_, prevlen) \<leftarrow> ZIP_DECODE_PREVLEN zl p; index_backward zl p prevlen (nat (- i - 1)) }
      }
      else index_forward zl ZIPLIST_HEADER_SIZE (nat i))"

definition ziplistNext :: "string \<Rightarrow> nat \<Rightarrow> nat option option" where
  "ziplistNext zl p = do {
     c \<leftarrow> rd zl p;
     if c = ZIP_END then Some None
     else do {
       l \<leftarrow> zipRawEntryLength zl p;
       c1 \<leftarrow> rd zl (p + l);
       Some (if c1 = ZIP_END then None else Some (p + l))
     }
   }"

definition ziplistPrev :: "string \<Rightarrow> nat \<Rightarrow> nat option option" where
  "ziplistPrev zl p = do {
     c \<leftarrow> rd zl p;
     if c = ZIP_END then do {
       t \<leftarrow> ZIPLIST_TAIL_OFFSET zl;
       ct \<leftarrow> rd zl t;
       Some (if ct = ZIP_END then None else Some t)
     }
     else if p = ZIPLIST_HEADER_SIZE then Some None
     else do {
       (_, prevlen) \<leftarrow> ZIP_DECODE_PREVLEN zl p;
       if prevlen > 0 \<and> prevlen \<le> p then Some (Some (p - prevlen)) else None
     }
   }"

definition ziplistGet :: "string \<Rightarrow> nat \<Rightarrow> zlval option option" where
  "ziplistGet zl p = do {
     c \<leftarrow> rd zl p;
     if c = ZIP_END then Some None
     else do {
       e \<leftarrow> zipEntry zl p;
       if ZIP_IS_STR (zencoding e) then do { x \<leftarrow> rdn zl (p + headersize e) (zlen e); Some (Some (ZStr x)) }
       else do { v \<leftarrow> zipLoadInteger zl (p + headersize e) (zencoding e); Some (Some (ZInt v)) }
     }
   }"

definition ziplistDelete :: "(nat \<Rightarrow> char) \<Rightarrow> string \<Rightarrow> nat \<Rightarrow> string option" where
  "ziplistDelete junk zl p = ziplistDelete_num junk zl p 1"

definition ziplistDeleteRange :: "(nat \<Rightarrow> char) \<Rightarrow> string \<Rightarrow> int \<Rightarrow> nat \<Rightarrow> string option" where
  "ziplistDeleteRange junk zl i num = do {
     p \<leftarrow> ziplistIndex zl i;
     case p of None \<Rightarrow> Some zl | Some p \<Rightarrow> ziplistDelete_num junk zl p num
   }"

definition ziplistCompare_at :: "string \<Rightarrow> nat \<Rightarrow> string \<Rightarrow> bool option" where
  "ziplistCompare_at zl p x = do {
     c \<leftarrow> rd zl p;
     if c = ZIP_END then Some False
     else do {
       e \<leftarrow> zipEntry zl p;
       if ZIP_IS_STR (zencoding e) then
         (if zlen e = length x then do { y \<leftarrow> rdn zl (p + headersize e) (length x); Some (y = x) } else Some False)
       else
         (case zipTryEncoding x of
            None \<Rightarrow> Some False
          | Some sval \<Rightarrow> do { zval \<leftarrow> zipLoadInteger zl (p + headersize e) (zencoding e); Some (zval = sval) })
     }
   }"

lemma raw_length_pos: "zipRawEntryLength zl p = Some l \<Longrightarrow> 0 < l"
  by (auto simp: zipRawEntryLength_def ZIP_DECODE_PREVLENSIZE_def bind_eq_Some_conv)

text \<open>The search; the encoding of the searched string is the same each time it is computed.\<close>

function ziplistFind_from :: "nat \<Rightarrow> nat \<Rightarrow> string \<Rightarrow> nat \<Rightarrow> string \<Rightarrow> nat option option" where
  "ziplistFind_from skip skipcnt zl p x = do {
     c \<leftarrow> rd zl p;
     if c = ZIP_END then Some None
     else
       (case (zipRawEntryLength zl p, if skipcnt = 0 then ziplistCompare_at zl p x else Some False) of
          (Some l, Some found) \<Rightarrow>
            if found then Some (Some p)
            else ziplistFind_from skip (if skipcnt = 0 then skip else skipcnt - 1) zl (p + l) x
        | _ \<Rightarrow> None)
   }"
  by pat_completeness auto
termination
  by (relation "measure (\<lambda>(skip, skipcnt, zl, p, x). length zl - p)") (auto simp: rd_def dest: raw_length_pos [OF sym] split: if_splits)

declare ziplistFind_from.simps [simp del]

function count_entries :: "string \<Rightarrow> nat \<Rightarrow> nat option" where
  "count_entries zl p = do {
     c \<leftarrow> rd zl p;
     if c = ZIP_END then Some 0
     else
       (case zipRawEntryLength zl p of
          None \<Rightarrow> None
        | Some l \<Rightarrow> do { n \<leftarrow> count_entries zl (p + l); Some (Suc n) })
   }"
  by pat_completeness auto
termination
  by (relation "measure (\<lambda>(zl, p). length zl - p)") (auto simp: rd_def dest: raw_length_pos split: if_splits)

declare count_entries.simps [simp del]

definition ziplistLen :: "string \<Rightarrow> (nat \<times> string) option" where
  "ziplistLen zl = do {
     n \<leftarrow> ZIPLIST_LENGTH zl;
     if n < 65535 then Some (n, zl)
     else do {
       len \<leftarrow> count_entries zl ZIPLIST_HEADER_SIZE;
       zl1 \<leftarrow> (if len < 65535 then wr zl 8 (le_chars 2 (int len)) else Some zl);
       Some (len, zl1)
     }
   }"

definition ziplistBlobLen :: "string \<Rightarrow> nat option" where
  "ziplistBlobLen zl = ZIPLIST_BYTES zl"

end
