(* ===== verification/Ziplist_Rules.thy ===== *)
theory Ziplist_Rules
  imports Ziplist_Bytes
begin

text \<open>
  The bytes of a ziplist as a function of its entries and of the width of their length fields, and
  the operations of \<^verbatim>\<open>ziplist.c\<close> on it: they stay inside the block and compute the operations on lists
  of entries of \<^verbatim>\<open>Ziplist\<close>, cascades included, except for an insertion that shrinks the block.
\<close>

section \<open>The layout\<close>

definition head_of :: "zlval \<Rightarrow> string" where
  "head_of e = (case e of ZStr x \<Rightarrow> zipEncodeLength 0 (length x) | ZInt v \<Rightarrow> zipEncodeLength (zip_int_encoding v) 0)"

definition data_of :: "zlval \<Rightarrow> string" where
  "data_of e = (case e of ZStr x \<Rightarrow> x | ZInt v \<Rightarrow> the (int_chars v (zip_int_encoding v)))"

definition enc_of :: "zlval \<Rightarrow> nat" where
  "enc_of e = (case e of ZStr x \<Rightarrow> (if length x \<le> 63 then 0 else if length x \<le> 16383 then 64 else 128)
                       | ZInt v \<Rightarrow> zip_int_encoding v)"

abbreviation psz :: "bool \<Rightarrow> nat" where "psz lg \<equiv> (if lg then 5 else 1)"

definition enc_prev :: "bool \<Rightarrow> nat \<Rightarrow> string" where
  "enc_prev lg n = (if lg then zipPrevEncodeLengthForceLarge n else [u8 n])"

text \<open>An entry with its length field, of one byte or of five, for a predecessor of \<open>n\<close> bytes.\<close>

definition entry :: "nat \<Rightarrow> bool \<Rightarrow> zlval \<Rightarrow> string" where
  "entry n lg e = enc_prev lg n @ head_of e @ data_of e"

definition ent_len :: "bool \<times> zlval \<Rightarrow> nat" where
  "ent_len x = psz (fst x) + length (head_of (snd x)) + length (data_of (snd x))"

primrec layout :: "nat \<Rightarrow> (bool \<times> zlval) list \<Rightarrow> string" where
  "layout n [] = []"
| "layout n (x # xs) = entry n (fst x) (snd x) @ layout (ent_len x) xs"

primrec last_len :: "nat \<Rightarrow> (bool \<times> zlval) list \<Rightarrow> nat" where
  "last_len n [] = n"
| "last_len n (x # xs) = last_len (ent_len x) xs"

definition lay_len :: "(bool \<times> zlval) list \<Rightarrow> nat" where
  "lay_len xs = sum_list (map ent_len xs)"

definition ent_ok :: "zlval \<Rightarrow> bool" where
  "ent_ok e \<longleftrightarrow> zl_ok e \<and> (case e of ZStr x \<Rightarrow> length x < 2 ^ 32 | ZInt _ \<Rightarrow> True)"

primrec lay_ok :: "nat \<Rightarrow> (bool \<times> zlval) list \<Rightarrow> bool" where
  "lay_ok n [] \<longleftrightarrow> True"
| "lay_ok n (x # xs) \<longleftrightarrow> (fst x \<or> n < 254) \<and> n < 2 ^ 32 \<and> ent_ok (snd x) \<and> lay_ok (ent_len x) xs"

lemma length_enc_prev [simp]: "length (enc_prev lg n) = psz lg"
  by (simp add: enc_prev_def zipPrevEncodeLengthForceLarge_def)

lemma length_entry: "length (entry n lg e) = ent_len (lg, e)"
  by (simp add: entry_def ent_len_def)

lemma lay_len_simps [simp]: "lay_len [] = 0" "lay_len (x # xs) = ent_len x + lay_len xs" "lay_len (xs @ ys) = lay_len xs + lay_len ys"
  by (simp_all add: lay_len_def)

lemma length_layout [simp]: "length (layout n xs) = lay_len xs"
  by (induction xs arbitrary: n) (simp_all add: length_entry)

lemma layout_append: "layout n (xs @ ys) = layout n xs @ layout (last_len n xs) ys"
  by (induction xs arbitrary: n) simp_all

lemma last_len_append [simp]: "last_len n (xs @ ys) = last_len (last_len n xs) ys"
  by (induction xs arbitrary: n) simp_all

lemma lay_ok_append: "lay_ok n (xs @ ys) \<longleftrightarrow> lay_ok n xs \<and> lay_ok (last_len n xs) ys"
  by (induction xs arbitrary: n) auto

lemma zipPrevEncodeLength_enc: "zipPrevEncodeLength n = enc_prev (254 \<le> n) n"
  by (simp add: zipPrevEncodeLength_def enc_prev_def ZIP_BIGLEN_def)

lemma prevlen_size_psz: "prevlen_size n = psz (254 \<le> n)"
  by (simp add: prevlen_size_def ZIP_BIGLEN_def)


section \<open>Decoding an entry\<close>

lemma int_encoding_cases:
  obtains "0 \<le> v" "v \<le> 12" "zip_int_encoding v = 0xF1 + nat v"
  | "zip_int_encoding v = ZIP_INT_8B" "fits_bytes 1 v"
  | "zip_int_encoding v = ZIP_INT_16B" "fits_bytes 2 v"
  | "zip_int_encoding v = ZIP_INT_24B" "fits_bytes 3 v"
  | "zip_int_encoding v = ZIP_INT_32B" "fits_bytes 4 v"
  | "zip_int_encoding v = ZIP_INT_64B"
proof -
  have "0 \<le> v \<and> v \<le> 12 \<and> zip_int_encoding v = 0xF1 + nat v
    \<or> zip_int_encoding v = ZIP_INT_8B \<and> fits_bytes 1 v \<or> zip_int_encoding v = ZIP_INT_16B \<and> fits_bytes 2 v
    \<or> zip_int_encoding v = ZIP_INT_24B \<and> fits_bytes 3 v \<or> zip_int_encoding v = ZIP_INT_32B \<and> fits_bytes 4 v
    \<or> zip_int_encoding v = ZIP_INT_64B"
    by (simp add: zip_int_encoding_def fits_bytes_def ZIP_INT_IMM_MIN_def)
  then show thesis using that by blast
qed

lemma int_encoding_range: "192 \<le> zip_int_encoding v \<and> zip_int_encoding v < 255"
  by (rule int_encoding_cases [of v]) (auto simp: zip_consts)

lemma int_encoding_not_str [simp]: "\<not> ZIP_IS_STR (zip_int_encoding v)"
  by (rule int_encoding_cases [of v]) (auto simp: ZIP_IS_STR_def zip_consts)

lemma length_int_data: "int_chars v (zip_int_encoding v) = Some x \<Longrightarrow> length x = zipIntSize (zip_int_encoding v)"
  by (auto simp: int_chars_def zipIntSize_def split: if_splits)

lemma int_chars_Some: "\<exists>x. int_chars v (zip_int_encoding v) = Some x"
  by (rule int_encoding_cases [of v]) (auto simp: int_chars_def zip_consts)

lemma int_data: "int_chars v (zip_int_encoding v) = Some (data_of (ZInt v))" "length (data_of (ZInt v)) = zipIntSize (zip_int_encoding v)"
  using int_chars_Some [of v] length_int_data [of v] by (auto simp: data_of_def)


lemma four_bytes: "b = a * 256 + y \<Longrightarrow> c = b * 256 + z \<Longrightarrow> n = c * 256 + w \<Longrightarrow> a * 2 ^ 24 + y * 2 ^ 16 + z * 2 ^ 8 + w = (n :: nat)"
  by simp

lemma decode_length:
  assumes "ent_ok e"
  shows "ZIP_DECODE_LENGTH (a @ head_of e @ c) (length a) = Some (enc_of e, length (head_of e), length (data_of e))"
proof (cases e)
  case (ZInt v)
  have "byte_val (u8 (zip_int_encoding v)) = zip_int_encoding v" using int_encoding_range [of v] by simp
  then show ?thesis using int_encoding_range [of v] ZInt
    by (simp add: ZIP_DECODE_LENGTH_def head_of_def enc_of_def zipEncodeLength_def rd_at int_data(2) Let_def)
next
  case (ZStr x)
  define n where "n = length x"
  have n: "n < 2 ^ 32" using assms ZStr by (simp add: ent_ok_def n_def)
  have str: "ZIP_IS_STR 0" by (simp add: ZIP_IS_STR_def)
  consider "n \<le> 63" | "63 < n" "n \<le> 16383" | "16383 < n" by linarith
  then show ?thesis
  proof cases
    case 1
    then show ?thesis using ZStr str by (simp add: ZIP_DECODE_LENGTH_def head_of_def enc_of_def data_of_def zipEncodeLength_def rd_at n_def)
  next
    case 2
    have "n div 256 < 64" using 2(2) by (simp add: less_mult_imp_div_less)
    then have b: "byte_val (u8 (64 + n div 256 mod 64)) = 64 + n div 256" "(64 + n div 256) mod 64 = n div 256" by simp_all
    have "rd (a @ u8 (64 + n div 256 mod 64) # u8 n # c) (length a + 1) = Some (u8 n)" by (simp add: rd_def nth_append)
    then show ?thesis using ZStr str 2 b \<open>n div 256 < 64\<close>
      by (simp add: ZIP_DECODE_LENGTH_def head_of_def enc_of_def data_of_def zipEncodeLength_def rd_at n_def div_mult_mod_eq)
  next
    case 3
    have b: "byte_val (u8 0x80) = 128" by simp
    have q: "n div 2 ^ 16 = n div 2 ^ 24 * 256 + n div 2 ^ 16 mod 256" "n div 2 ^ 8 = n div 2 ^ 16 * 256 + n div 2 ^ 8 mod 256"
      "n = n div 2 ^ 8 * 256 + n mod 256"
      using div_mult2_eq [of n "2 ^ 16" 256] div_mult2_eq [of n "2 ^ 8" 256] div_mult_mod_eq [of "n div 2 ^ 16" 256]
        div_mult_mod_eq [of "n div 2 ^ 8" 256] by simp_all
    have "n div 2 ^ 24 mod 256 = n div 2 ^ 24" using n by (simp add: less_mult_imp_div_less)
    then have s: "n div 2 ^ 24 mod 256 * 2 ^ 24 + n div 2 ^ 16 mod 256 * 2 ^ 16 + n div 2 ^ 8 mod 256 * 2 ^ 8 + n mod 256 = n"
      using four_bytes [OF q] by (simp only:)
    define h where "h = [u8 0x80, u8 (n div 2 ^ 24), u8 (n div 2 ^ 16), u8 (n div 2 ^ 8), u8 n]"
    have "rd (a @ h @ c) (length a + k) = Some (h ! k)" if "k < 5" for k using that by (intro rd_mid) (simp add: h_def)
    from this [of 0] this [of 1] this [of 2] this [of 3] this [of 4] show ?thesis using ZStr str 3 b s four_bytes [OF q]
      by (simp add: ZIP_DECODE_LENGTH_def head_of_def enc_of_def data_of_def zipEncodeLength_def n_def h_def)
  qed
qed


text \<open>The fields of an entry that follows \<open>a\<close>.\<close>

definition fields :: "nat \<Rightarrow> bool \<Rightarrow> zlval \<Rightarrow> zlentry" where
  "fields n lg e = \<lparr>prevrawlensize = psz lg, prevrawlen = n, lensize = length (head_of e), zlen = length (data_of e),
     headersize = psz lg + length (head_of e), zencoding = enc_of e\<rparr>"

lemma fields_sel [simp]:
  "prevrawlensize (fields n lg e) = psz lg" "prevrawlen (fields n lg e) = n"
  "headersize (fields n lg e) + zlen (fields n lg e) = ent_len (lg, e)" "zencoding (fields n lg e) = enc_of e"
  by (simp_all add: fields_def ent_len_def)

lemma decode_prevlen:
  assumes "lg \<or> n < 254" "n < 2 ^ 32" "p = length a"
  shows "ZIP_DECODE_PREVLENSIZE (a @ enc_prev lg n @ c) p = Some (psz lg)"
    "ZIP_DECODE_PREVLEN (a @ enc_prev lg n @ c) p = Some (psz lg, n)"
    "\<exists>b. rd (a @ enc_prev lg n @ c) p = Some b \<and> b \<noteq> ZIP_END"
proof -
  have "ZIP_DECODE_PREVLENSIZE (a @ enc_prev lg n @ c) p = Some (psz lg) \<and> ZIP_DECODE_PREVLEN (a @ enc_prev lg n @ c) p = Some (psz lg, n)
    \<and> (\<exists>b. rd (a @ enc_prev lg n @ c) p = Some b \<and> b \<noteq> ZIP_END)"
  proof (cases lg)
    case True
    have "get_uint 4 ((a @ [u8 254]) @ le_chars 4 (int n) @ c) (length a + 1) = Some (nat (int n))"
      using assms(2) by (intro get_uint_at) simp_all
    then have "get_uint 4 (a @ u8 254 # le_chars 4 (int n) @ c) (length a + 1) = Some n" by simp
    moreover have "u8 254 \<noteq> ZIP_END" using byte_val_u8 [of 254] by (auto simp: ZIP_END_def byte_val_def)
    ultimately show ?thesis using assms(3) True
      by (simp add: ZIP_DECODE_PREVLENSIZE_def ZIP_DECODE_PREVLEN_def enc_prev_def zipPrevEncodeLengthForceLarge_def ZIP_BIGLEN_def rd_at)
  next
    case False
    then have "u8 n \<noteq> ZIP_END" using assms(1) byte_val_u8 [of n] by (auto simp: ZIP_END_def byte_val_def)
    then show ?thesis using False assms(1,3)
      by (simp add: ZIP_DECODE_PREVLENSIZE_def ZIP_DECODE_PREVLEN_def enc_prev_def ZIP_BIGLEN_def rd_at)
  qed
  then show "ZIP_DECODE_PREVLENSIZE (a @ enc_prev lg n @ c) p = Some (psz lg)"
    "ZIP_DECODE_PREVLEN (a @ enc_prev lg n @ c) p = Some (psz lg, n)"
    "\<exists>b. rd (a @ enc_prev lg n @ c) p = Some b \<and> b \<noteq> ZIP_END" by blast+
qed

lemma decode_entry:
  assumes "lg \<or> n < 254" "n < 2 ^ 32" "ent_ok e" "p = length a"
  shows "zipEntry (a @ entry n lg e @ c) p = Some (fields n lg e)"
    "zipRawEntryLength (a @ entry n lg e @ c) p = Some (ent_len (lg, e))"
    "\<exists>b. rd (a @ entry n lg e @ c) p = Some b \<and> b \<noteq> ZIP_END"
proof -
  note d = decode_prevlen [OF assms(1,2,4), of "head_of e @ data_of e @ c"]
  have l: "ZIP_DECODE_LENGTH (a @ enc_prev lg n @ head_of e @ data_of e @ c) (p + psz lg) = Some (enc_of e, length (head_of e), length (data_of e))"
    using decode_length [OF assms(3), of "a @ enc_prev lg n" "data_of e @ c"] assms(4) by simp
  show "zipEntry (a @ entry n lg e @ c) p = Some (fields n lg e)"
    using d l by (simp add: zipEntry_def entry_def fields_def)
  show "zipRawEntryLength (a @ entry n lg e @ c) p = Some (ent_len (lg, e))"
    using d l by (simp add: zipRawEntryLength_def entry_def ent_len_def)
  show "\<exists>b. rd (a @ entry n lg e @ c) p = Some b \<and> b \<noteq> ZIP_END" using d(3) by (simp add: entry_def)
qed


section \<open>The header\<close>

definition hdr :: "nat \<Rightarrow> nat \<Rightarrow> nat \<Rightarrow> string" where
  "hdr b t lf = le_chars 4 (int b) @ le_chars 4 (int t) @ le_chars 2 (int lf)"

lemma length_hdr [simp]: "length (hdr b t lf) = 10"
  by (simp add: hdr_def)

lemma hdr_fields:
  "b < 2 ^ 32 \<Longrightarrow> ZIPLIST_BYTES (hdr b t lf @ r) = Some b"
  "t < 2 ^ 32 \<Longrightarrow> ZIPLIST_TAIL_OFFSET (hdr b t lf @ r) = Some t"
  "lf < 65536 \<Longrightarrow> ZIPLIST_LENGTH (hdr b t lf @ r) = Some lf"
proof -
  show "ZIPLIST_BYTES (hdr b t lf @ r) = Some b" if "b < 2 ^ 32"
    using get_uint_at [of 0 "[]" "int b" 4] that by (simp add: ZIPLIST_BYTES_def hdr_def)
  show "ZIPLIST_TAIL_OFFSET (hdr b t lf @ r) = Some t" if "t < 2 ^ 32"
    using get_uint_at [of 4 "le_chars 4 (int b)" "int t" 4 "le_chars 2 (int lf) @ r"] that by (simp add: ZIPLIST_TAIL_OFFSET_def hdr_def)
  show "ZIPLIST_LENGTH (hdr b t lf @ r) = Some lf" if "lf < 65536"
    using get_uint_at [of 8 "le_chars 4 (int b) @ le_chars 4 (int t)" "int lf" 2 r] that by (simp add: ZIPLIST_LENGTH_def hdr_def)
qed

lemma hdr_set:
  "set_bytes (hdr b t lf @ r) (int b') = Some (hdr b' t lf @ r)"
  "set_tail (hdr b t lf @ r) (int t') = Some (hdr b t' lf @ r)"
  "wr (hdr b t lf @ r) 8 (le_chars 2 (int lf')) = Some (hdr b t lf' @ r)"
proof -
  show "set_bytes (hdr b t lf @ r) (int b') = Some (hdr b' t lf @ r)"
    using wr_at [of 0 "[]" "le_chars 4 (int b')" "le_chars 4 (int b)"] by (simp add: set_bytes_def hdr_def)
  show "set_tail (hdr b t lf @ r) (int t') = Some (hdr b t' lf @ r)"
    using wr_at [of 4 "le_chars 4 (int b)" "le_chars 4 (int t')" "le_chars 4 (int t)" "le_chars 2 (int lf) @ r"]
    by (simp add: set_tail_def hdr_def)
  show "wr (hdr b t lf @ r) 8 (le_chars 2 (int lf')) = Some (hdr b t lf' @ r)"
    using wr_at [of 8 "le_chars 4 (int b) @ le_chars 4 (int t)" "le_chars 2 (int lf')" "le_chars 2 (int lf)" r] by (simp add: hdr_def)
qed

text \<open>Growing and shrinking a block: the last byte becomes the end mark.\<close>

lemma resize_rule:
  assumes "11 \<le> len"
  shows "ziplistResize junk (hdr b t lf @ r) len =
    Some (hdr len t lf @ take (len - 11) (r @ map junk [10 + length r..<len]) @ [ZIP_END])"
proof -
  define k where "k = take (len - 10) r @ map junk [10 + length r..<len]"
  have len: "length k = len - 10" using assms by (auto simp: k_def)
  then have "k \<noteq> []" using assms by auto
  have k: "k = take (len - 11) k @ [last k]" using len \<open>k \<noteq> []\<close> append_butlast_last_id [of k] by (simp add: butlast_conv_take)
  have "set_bytes (take len (hdr b t lf @ r) @ map junk [length (hdr b t lf @ r)..<len]) (int len) = Some (hdr len t lf @ k)"
    using assms hdr_set(1) [of b t lf k len] by (simp add: k_def)
  moreover have "wr ((hdr len t lf @ take (len - 11) k) @ [last k] @ []) (len - 1) [ZIP_END] = Some ((hdr len t lf @ take (len - 11) k) @ [ZIP_END] @ [])"
    using assms len by (intro wr_at) simp_all
  then have "wr (hdr len t lf @ k) (len - 1) [ZIP_END] = Some (hdr len t lf @ take (len - 11) k @ [ZIP_END])" using k by simp
  moreover have "take (len - 11) k = take (len - 11) (r @ map junk [10 + length r..<len])" by (simp add: k_def min_def)
  ultimately show ?thesis by (simp add: ziplistResize_def)
qed


lemma resize_more:
  "ziplistResize junk (hdr b t lf @ r @ [ZIP_END]) (11 + length r + j) =
    Some (hdr (11 + length r + j) t lf @ r @ take j (ZIP_END # map junk [11 + length r..<11 + length r + j]) @ [ZIP_END])"
  using resize_rule [of "11 + length r + j" junk b t lf "r @ [ZIP_END]"] by simp


section \<open>The cascade\<close>

text \<open>
  A block in which the entry \<open>cur\<close> follows the bytes \<open>pre\<close>, and the entries \<open>es\<close> follow it, the first of
  them with \<open>m\<close> in its length field. The header is that of a correct ziplist.
\<close>

definition blob :: "string \<Rightarrow> string \<Rightarrow> nat \<Rightarrow> (bool \<times> zlval) list \<Rightarrow> nat \<Rightarrow> string" where
  "blob pre cur m es lf =
     hdr (11 + length pre + length cur + lay_len es)
       (10 + length pre + (if es = [] then 0 else length cur + lay_len (butlast es))) lf
     @ pre @ cur @ layout m es @ [ZIP_END]"

text \<open>Which length fields a cascade widens: \<open>r\<close> is the length of the entry before, \<open>m\<close> the value stored.\<close>

primrec casc :: "nat \<Rightarrow> nat \<Rightarrow> (bool \<times> zlval) list \<Rightarrow> (bool \<times> zlval) list" where
  "casc r m [] = []"
| "casc r m (x # xs) =
     (if m \<noteq> r \<and> \<not> fst x \<and> 254 \<le> r then (True, snd x) # casc (ent_len (True, snd x)) (ent_len x) xs else x # xs)"

lemma casc_same [simp]: "casc r r xs = xs"
  by (cases xs) auto

lemma ent_len_pos [simp]: "0 < ent_len x"
  by (simp add: ent_len_def)

lemma lay_len_butlast: "lay_len (butlast es) \<le> lay_len es"
  by (cases es rule: rev_cases) simp_all

lemma grow_steps:
  assumes "ziplistResize junk zl (c + 4) = Some z1" "ZIPLIST_TAIL_OFFSET z1 = Some t"
    "(if t \<noteq> np then set_tail z1 (int t + int 4) else Some z1) = Some z2"
    "memmove z2 (np + 5) (np + 1) (c - np - 1 - 1) = Some z3" "wr z3 np (zipPrevEncodeLength r) = Some z4" "254 \<le> r"
  shows "cascade_grow junk zl c np 1 r = Some z4"
  using assms by (simp add: cascade_grow_def prevlen_size_psz)

lemma grow_rule:
  assumes size: "length pre + length cur + ent_len (False, e) + lay_len es + 15 < 2 ^ 32" and r: "254 \<le> r"
  shows "cascade_grow junk (blob pre cur m ((False, e) # es) lf) (11 + length pre + length cur + lay_len ((False, e) # es))
      (10 + length pre + length cur) 1 r
    = Some (blob (pre @ cur) (entry r True e) (ent_len (False, e)) es lf)"
proof -
  let ?C = "11 + length pre + length cur + lay_len ((False, e) # es)" and ?np = "10 + length pre + length cur"
  let ?T = "?np + (if es = [] then 0 else ent_len (False, e) + lay_len (butlast es))"
  let ?U = "?np + (if es = [] then 0 else ent_len (True, e) + lay_len (butlast es))"
  define B where "B = head_of e @ data_of e @ layout (ent_len (False, e)) es"
  define k where "k = map junk [?C..<?C + 3]"
  define r1 where "r1 = pre @ cur @ enc_prev False m @ B @ [ZIP_END]"
  have C: "?C = ?np + length B + 2" by (simp add: B_def ent_len_def)
  have len: "length r1 = ?C - 10" "10 + length r1 = ?C" by (simp_all add: r1_def B_def ent_len_def)
  have b: "blob pre cur m ((False, e) # es) lf = hdr ?C ?T lf @ r1"
    by (simp add: blob_def r1_def B_def entry_def ent_len_def)
  have "map junk [10 + length r1..<?C + 4] = map junk [?C..<?C + 3] @ [junk (?C + 3)]"
    unfolding len(2) by (simp add: numeral_eq_Suc)
  then have z1: "ziplistResize junk (blob pre cur m ((False, e) # es) lf) (?C + 4) = Some (hdr (?C + 4) ?T lf @ r1 @ k @ [ZIP_END])"
    unfolding b using resize_rule [of "?C + 4" junk ?C ?T lf r1] len by (simp add: k_def)
  define s where "s = hdr (?C + 4) ?U lf @ r1 @ k @ [ZIP_END]"
  have "?T < 2 ^ 32" using size lay_len_butlast [of es] by simp
  then have t: "ZIPLIST_TAIL_OFFSET (hdr (?C + 4) ?T lf @ r1 @ k @ [ZIP_END]) = Some ?T" by (rule hdr_fields(2))
  have z2: "(if ?T \<noteq> ?np then set_tail (hdr (?C + 4) ?T lf @ r1 @ k @ [ZIP_END]) (int ?T + int 4) else Some (hdr (?C + 4) ?T lf @ r1 @ k @ [ZIP_END])) = Some s"
    using hdr_set(2) [of "?C + 4" ?T lf "r1 @ k @ [ZIP_END]" "?T + 4"] by (simp add: s_def ent_len_def)
  have se: "s = (hdr (?C + 4) ?U lf @ pre @ cur @ enc_prev False m) @ B @ ([ZIP_END] @ k @ [ZIP_END])" by (simp add: s_def r1_def)
  have ls: "length s = ?np + 5 + length B + 1" using C by (simp add: s_def len k_def)
  have z3: "memmove s (?np + 5) (?np + 1) (length B) = Some (take (?np + 5) s @ B @ drop (?np + 5 + length B) s)"
    by (rule memmove_rule [OF se]) (simp_all add: ls)
  have "drop (?np + 5 + length B) s = [ZIP_END]" using C by (simp add: s_def len k_def)
  moreover have "take (?np + 5) s = (hdr (?C + 4) ?U lf @ pre @ cur) @ take 5 (enc_prev False m @ B @ [ZIP_END] @ k @ [ZIP_END])"
    by (simp add: s_def r1_def)
  moreover have "wr ((hdr (?C + 4) ?U lf @ pre @ cur) @ take 5 (enc_prev False m @ B @ [ZIP_END] @ k @ [ZIP_END]) @ B @ [ZIP_END]) ?np (enc_prev True r) =
      Some ((hdr (?C + 4) ?U lf @ pre @ cur) @ enc_prev True r @ B @ [ZIP_END])"
    by (intro wr_at) (simp_all add: k_def)
  moreover have "(hdr (?C + 4) ?U lf @ pre @ cur) @ enc_prev True r @ B @ [ZIP_END] = blob (pre @ cur) (entry r True e) (ent_len (False, e)) es lf"
    by (simp add: blob_def B_def entry_def ent_len_def ac_simps)
  moreover have "?C - ?np - 1 - 1 = length B" using C by simp
  ultimately show ?thesis
    using grow_steps [OF z1 t z2, of "take (?np + 5) s @ B @ drop (?np + 5 + length B) s" r] z3 r
    by (simp only: zipPrevEncodeLength_enc if_True simp_thms append_assoc)
qed

lemma blob_rest: "blob pre cur m (x # xs) lf =
    (hdr (11 + length pre + length cur + lay_len (x # xs)) (10 + length pre + length cur + lay_len (butlast (x # xs))) lf @ pre @ cur)
    @ entry m (fst x) (snd x) @ layout (ent_len x) xs @ [ZIP_END]"
  by (simp add: blob_def ac_simps)

lemma blob_cur: "blob pre (entry n lg e) m es lf =
    (hdr (11 + length pre + ent_len (lg, e) + lay_len es)
       (10 + length pre + (if es = [] then 0 else ent_len (lg, e) + lay_len (butlast es))) lf @ pre)
    @ entry n lg e @ layout m es @ [ZIP_END]"
  by (simp add: blob_def length_entry)

lemma blob_shift: "x = (lg, e) \<Longrightarrow> ent_len x = k \<Longrightarrow> blob (pre @ cur) (entry (length cur) lg e) k xs lf = blob pre cur (length cur) (x # xs) lf"
  by (auto simp: blob_def length_entry ac_simps)

lemma step_stop:
  assumes "zipEntry zl p = Some (fields n lg e)" "rd zl (p + ent_len (lg, e)) = Some ZIP_END"
  shows "cascade_step junk zl curlen p = Some (zl, None)"
  using assms by (simp add: cascade_step_def)

lemma step_rule:
  assumes cur: "zipEntry zl p = Some (fields n lg e)" and b: "rd zl (p + ent_len (lg, e)) = Some b" "b \<noteq> ZIP_END"
    and nx: "zipEntry zl (p + ent_len (lg, e)) = Some (fields m lg' e')"
  shows "cascade_step junk zl curlen p =
    (if m = ent_len (lg, e) then Some (zl, None)
     else if \<not> lg' \<and> 254 \<le> ent_len (lg, e) then
       (if curlen < p + ent_len (lg, e) + 2 then None
        else do {
          zl1 \<leftarrow> cascade_grow junk zl curlen (p + ent_len (lg, e)) 1 (ent_len (lg, e));
          Some (zl1, Some (curlen + 4, p + ent_len (lg, e)))
        })
     else do {
       zl1 \<leftarrow> wr zl (p + ent_len (lg, e)) (enc_prev lg' (ent_len (lg, e)));
       Some (zl1, None)
     })"
  using assms by (cases lg') (simp_all add: cascade_step_def prevlen_size_psz zipPrevEncodeLength_enc enc_prev_def Let_def)

lemma cascade_rule:
  assumes "lg \<or> n < 254" "n < 2 ^ 32" "ent_ok e" "lay_ok m es"
    "11 + length pre + ent_len (lg, e) + lay_len es + 4 * length es < 2 ^ 32"
  shows "ziplistCascadeUpdate junk (blob pre (entry n lg e) m es lf) (11 + length pre + ent_len (lg, e) + lay_len es) (10 + length pre) =
    Some (blob pre (entry n lg e) (ent_len (lg, e)) (casc (ent_len (lg, e)) m es) lf)"
  using assms
proof (induction es arbitrary: pre n lg e m)
  case Nil
  let ?z = "blob pre (entry n lg e) m [] lf"
  have z: "?z = (hdr (11 + length pre + ent_len (lg, e)) (10 + length pre) lf @ pre) @ entry n lg e @ [ZIP_END]"
    by (simp add: blob_cur)
  note d = decode_entry [OF Nil(1-3), of "10 + length pre" "hdr (11 + length pre + ent_len (lg, e)) (10 + length pre) lf @ pre" "[ZIP_END]", folded z, simplified]
  have "rd ?z (10 + length pre + ent_len (lg, e)) = Some ZIP_END"
    using rd_at [of "10 + length pre + ent_len (lg, e)" "hdr (11 + length pre + ent_len (lg, e)) (10 + length pre) lf @ pre @ entry n lg e" ZIP_END "[]"]
    by (simp add: z length_entry)
  then have "cascade_step junk ?z c (10 + length pre) = Some (?z, None)" for c using d(1) by (intro step_stop) simp_all
  moreover have "blob pre (entry n lg e) (ent_len (lg, e)) [] lf = ?z" by (simp add: blob_cur)
  ultimately show ?case using d(3) by (auto simp: ziplistCascadeUpdate.simps [of junk ?z])
next
  case (Cons x es)
  let ?r = "ent_len (lg, e)" and ?p = "10 + length pre" and ?C = "11 + length pre + ent_len (lg, e) + lay_len (x # es)"
  let ?z = "blob pre (entry n lg e) m (x # es) lf"
  obtain lg' e' where x: "x = (lg', e')" by (cases x)
  have ok: "lg' \<or> m < 254" "m < 2 ^ 32" "ent_ok e'" "lay_ok (ent_len x) es" using Cons.prems(4) x by simp_all
  define a where "a = hdr ?C (10 + length pre + ent_len (lg, e) + lay_len (butlast (x # es))) lf @ pre"
  have z: "?z = a @ entry n lg e @ layout m (x # es) @ [ZIP_END]" "?z = (a @ entry n lg e) @ entry m lg' e' @ layout (ent_len x) es @ [ZIP_END]"
    by (simp_all add: a_def blob_def length_entry x ac_simps)
  have la: "length a = ?p" "length (a @ entry n lg e) = ?p + ?r" by (simp_all add: a_def length_entry)
  have cur: "zipEntry ?z ?p = Some (fields n lg e)" "\<exists>b. rd ?z ?p = Some b \<and> b \<noteq> ZIP_END"
    using decode_entry(1,3) [OF Cons.prems(1-3) la(1) [symmetric]] unfolding z(1) by blast+
  have nx: "zipEntry ?z (?p + ?r) = Some (fields m lg' e')" and b': "\<exists>b. rd ?z (?p + ?r) = Some b \<and> b \<noteq> ZIP_END"
    using decode_entry(1,3) [OF ok(1-3) la(2) [symmetric]] unfolding z(2) by blast+
  from b' obtain b where b: "rd ?z (?p + ?r) = Some b" "b \<noteq> ZIP_END" by blast
  note step = step_rule [OF cur(1) b nx, of junk ?C]
  have unf: "ziplistCascadeUpdate junk ?z ?C ?p = (case cascade_step junk ?z ?C ?p of None \<Rightarrow> None
      | Some (zl1, None) \<Rightarrow> Some zl1 | Some (zl1, Some (n, np)) \<Rightarrow> ziplistCascadeUpdate junk zl1 n np)"
    using cur(2) by (auto simp: ziplistCascadeUpdate.simps [of junk ?z])
  show ?case
  proof (cases "m \<noteq> ?r \<and> \<not> lg' \<and> 254 \<le> ?r")
    case True
    then have x: "x = (False, e')" by (simp add: x)
    have "cascade_grow junk ?z ?C (?p + ?r) 1 ?r = Some (blob (pre @ entry n lg e) (entry ?r True e') (ent_len x) es lf)"
      using grow_rule [of pre "entry n lg e" e' es ?r junk m lf] True Cons.prems(5) by (simp add: x length_entry ac_simps)
    moreover have "\<not> ?C < ?p + ?r + 2" by (simp add: x ent_len_def)
    ultimately have "cascade_step junk ?z ?C ?p = Some (blob (pre @ entry n lg e) (entry ?r True e') (ent_len x) es lf, Some (?C + 4, ?p + ?r))"
      unfolding step using True by simp
    moreover have "ziplistCascadeUpdate junk (blob (pre @ entry n lg e) (entry ?r True e') (ent_len x) es lf) (?C + 4) (?p + ?r) =
        Some (blob (pre @ entry n lg e) (entry ?r True e') (ent_len (True, e')) (casc (ent_len (True, e')) (ent_len x) es) lf)"
      using Cons.IH [of True ?r e' "ent_len x" "pre @ entry n lg e"] ok Cons.prems(5) by (simp add: x length_entry ent_len_def ac_simps)
    moreover have "blob (pre @ entry n lg e) (entry ?r True e') (ent_len (True, e')) (casc (ent_len (True, e')) (ent_len x) es) lf =
        blob pre (entry n lg e) ?r (casc ?r m (x # es)) lf"
      using blob_shift [of "(True, e')" True e' _ pre "entry n lg e"] True by (simp add: x length_entry)
    ultimately show ?thesis unfolding unf by (simp only: option.case prod.case)
  next
    case False
    have c: "casc ?r m (x # es) = x # es" using False by (auto simp: x)
    have "wr ?z (?p + ?r) (enc_prev lg' ?r) = Some (blob pre (entry n lg e) ?r (x # es) lf)"
    proof -
      have "wr ((a @ entry n lg e) @ enc_prev lg' m @ (head_of e' @ data_of e' @ layout (ent_len x) es @ [ZIP_END])) (?p + ?r) (enc_prev lg' ?r) =
          Some ((a @ entry n lg e) @ enc_prev lg' ?r @ (head_of e' @ data_of e' @ layout (ent_len x) es @ [ZIP_END]))"
        by (rule wr_at) (simp_all add: la length_entry)
      then show ?thesis unfolding z(2) by (simp add: entry_def a_def blob_def x length_entry ent_len_def ac_simps)
    qed
    then show ?thesis unfolding c unf step using False by (cases "m = ?r") auto
  qed
qed


text \<open>What insertion and deletion do after they changed the length field of an entry.\<close>

lemma cascade_opt:
  assumes n: "lg' \<or> n < 254" "n < 2 ^ 32" and ok: "ent_ok e" "lay_ok (ent_len (lg, e)) B"
    and size: "15 + length pre + ent_len (lg, e) + lay_len B + 4 * length B < 2 ^ 32" and nd: "nd = int (psz lg') - int (psz lg)"
  shows "(if nd \<noteq> 0 then do { k \<leftarrow> ZIPLIST_BYTES (blob pre (entry n lg' e) (ent_len (lg, e)) B lf);
      ziplistCascadeUpdate junk (blob pre (entry n lg' e) (ent_len (lg, e)) B lf) k (10 + length pre) }
    else Some (blob pre (entry n lg' e) (ent_len (lg, e)) B lf)) =
    Some (blob pre (entry n lg' e) (ent_len (lg', e)) (casc (ent_len (lg', e)) (ent_len (lg, e)) B) lf)"
proof (cases "nd = 0")
  case True
  then have "ent_len (lg', e) = ent_len (lg, e)" using nd by (auto simp: ent_len_def split: if_splits)
  then show ?thesis using True by simp
next
  case False
  let ?s = "11 + length pre + ent_len (lg', e) + lay_len B"
  have "ent_len (lg', e) \<le> ent_len (lg, e) + 4" by (simp add: ent_len_def)
  then have sz: "?s + 4 * length B < 2 ^ 32" using size by simp
  then have "ZIPLIST_BYTES (blob pre (entry n lg' e) (ent_len (lg, e)) B lf) = Some ?s"
    unfolding blob_cur append_assoc by (intro hdr_fields(1)) simp
  then show ?thesis using False cascade_rule [OF n ok sz] by simp
qed


section \<open>Ziplists\<close>

definition zl_blob :: "nat \<Rightarrow> (bool \<times> zlval) list \<Rightarrow> string" where
  "zl_blob lf es = hdr (11 + lay_len es) (10 + lay_len (butlast es)) lf @ layout 0 es @ [ZIP_END]"

text \<open>The number of entries is stored up to 65534; 65535 stands for any number.\<close>

definition zl_wf :: "nat \<Rightarrow> (bool \<times> zlval) list \<Rightarrow> bool" where
  "zl_wf lf es \<longleftrightarrow> lay_ok 0 es \<and> (lf = length es \<and> lf < 65535 \<or> lf = 65535) \<and> 11 + lay_len es < 2 ^ 32"

lemma zl_blob_at: "zl_blob lf (A @ (lg, e) # B) = blob (layout 0 A) (entry (last_len 0 A) lg e) (ent_len (lg, e)) B lf"
  by (simp add: zl_blob_def blob_def layout_append length_entry butlast_append ac_simps)

lemma zl_blob_entry:
  "\<exists>h. length h = 10 \<and> zl_blob lf (A @ (lg, e) # B) = (h @ layout 0 A) @ entry (last_len 0 A) lg e @ layout (ent_len (lg, e)) B @ [ZIP_END]"
  by (rule exI [of _ "hdr (11 + lay_len (A @ (lg, e) # B)) (10 + lay_len (butlast (A @ (lg, e) # B))) lf"]) (simp add: zl_blob_def layout_append)

lemma zl_blob_end: "rd (zl_blob lf A) (10 + lay_len A) = Some ZIP_END"
  using rd_at [of "10 + lay_len A" "hdr (11 + lay_len A) (10 + lay_len (butlast A)) lf @ layout 0 A"] by (simp add: zl_blob_def)

lemma entry_at:
  assumes "zl_wf lf (A @ (lg, e) # B)"
  shows "zipEntry (zl_blob lf (A @ (lg, e) # B)) (10 + lay_len A) = Some (fields (last_len 0 A) lg e)"
    "zipRawEntryLength (zl_blob lf (A @ (lg, e) # B)) (10 + lay_len A) = Some (ent_len (lg, e))"
    "\<exists>b. rd (zl_blob lf (A @ (lg, e) # B)) (10 + lay_len A) = Some b \<and> b \<noteq> ZIP_END"
    "ZIP_DECODE_PREVLEN (zl_blob lf (A @ (lg, e) # B)) (10 + lay_len A) = Some (psz lg, last_len 0 A)"
    "ZIP_DECODE_PREVLENSIZE (zl_blob lf (A @ (lg, e) # B)) (10 + lay_len A) = Some (psz lg)"
proof -
  obtain h where h: "length h = 10" "zl_blob lf (A @ (lg, e) # B) = (h @ layout 0 A) @ entry (last_len 0 A) lg e @ layout (ent_len (lg, e)) B @ [ZIP_END]"
    using zl_blob_entry by blast
  have ok: "lg \<or> last_len 0 A < 254" "last_len 0 A < 2 ^ 32" "ent_ok e" using assms by (simp_all add: zl_wf_def lay_ok_append)
  have p: "10 + lay_len A = length (h @ layout 0 A)" using h by simp
  show "zipEntry (zl_blob lf (A @ (lg, e) # B)) (10 + lay_len A) = Some (fields (last_len 0 A) lg e)"
    "zipRawEntryLength (zl_blob lf (A @ (lg, e) # B)) (10 + lay_len A) = Some (ent_len (lg, e))"
    "\<exists>b. rd (zl_blob lf (A @ (lg, e) # B)) (10 + lay_len A) = Some b \<and> b \<noteq> ZIP_END"
    unfolding h(2) by (rule decode_entry [OF ok p])+
  show "ZIP_DECODE_PREVLEN (zl_blob lf (A @ (lg, e) # B)) (10 + lay_len A) = Some (psz lg, last_len 0 A)"
    "ZIP_DECODE_PREVLENSIZE (zl_blob lf (A @ (lg, e) # B)) (10 + lay_len A) = Some (psz lg)"
    unfolding h(2) entry_def append_assoc [of "enc_prev lg (last_len 0 A)"] by (rule decode_prevlen [OF ok(1,2) p])+
qed

lemma zl_blob_header:
  assumes "zl_wf lf es"
  shows "ZIPLIST_BYTES (zl_blob lf es) = Some (11 + lay_len es)" "ZIPLIST_TAIL_OFFSET (zl_blob lf es) = Some (10 + lay_len (butlast es))"
    "ZIPLIST_LENGTH (zl_blob lf es) = Some lf"
  using assms hdr_fields lay_len_butlast [of es] by (auto simp: zl_blob_def zl_wf_def)

lemma incr_length_rule:
  assumes "lf < 65535 \<Longrightarrow> 0 \<le> int lf + d" "lf < 65536"
  shows "ZIPLIST_INCR_LENGTH (hdr b t lf @ r) d = Some (hdr b t (if lf < 65535 then nat (int lf + d) else lf) @ r)"
proof (cases "lf < 65535")
  case True
  have "wr (hdr b t lf @ r) 8 (le_chars 2 (int lf + d)) = Some (hdr b t (nat (int lf + d)) @ r)"
    using hdr_set(3) [of b t lf r "nat (int lf + d)"] assms(1) True by simp
  then show ?thesis using True by (simp add: ZIPLIST_INCR_LENGTH_def hdr_fields)
qed (use assms(2) in \<open>simp add: ZIPLIST_INCR_LENGTH_def hdr_fields\<close>)


section \<open>Insertion\<close>

lemma insert_prevlen_rule:
  assumes "zl_wf lf (A @ B)"
  shows "insert_prevlen (zl_blob lf (A @ B)) (10 + lay_len A) = Some (last_len 0 A)"
proof (cases B)
  case (Cons x B')
  then show ?thesis using assms entry_at(3,4) [of lf A "fst x" "snd x" B'] by (auto simp: insert_prevlen_def)
next
  case Nil
  show ?thesis
  proof (cases A rule: rev_cases)
    case Nil
    then show ?thesis using \<open>B = []\<close> assms zl_blob_end [of lf A] zl_blob_header(2) [OF assms] by (simp add: insert_prevlen_def)
  next
    case (snoc A' x)
    then show ?thesis using \<open>B = []\<close> assms zl_blob_end [of lf A] zl_blob_header(2) [OF assms] entry_at(2,3) [of lf A' "fst x" "snd x" "[]"]
      by (auto simp: insert_prevlen_def)
  qed
qed


text \<open>The entry that an insertion of \<open>x\<close> behind \<open>A\<close> makes, and what becomes of the entries after it.\<close>

definition new_entry :: "(bool \<times> zlval) list \<Rightarrow> string \<Rightarrow> bool \<times> zlval" where
  "new_entry A x = (254 \<le> last_len 0 A, zl_entry x)"

definition moved :: "nat \<Rightarrow> (bool \<times> zlval) list \<Rightarrow> (bool \<times> zlval) list" where
  "moved r B = (case B of [] \<Rightarrow> [] | x # B' \<Rightarrow> (254 \<le> r, snd x) # casc (ent_len (254 \<le> r, snd x)) (ent_len x) B')"

text \<open>The lengths and bytes that the code computes are those of the new entry.\<close>

definition enc_parts :: "string \<Rightarrow> nat \<times> nat" where
  "enc_parts x = (case zipTryEncoding x of
       Some v \<Rightarrow> (zip_int_encoding v, zipIntSize (zip_int_encoding v))
     | None \<Rightarrow> (0, length x))"

lemma enc_parts_rule:
  "zipEncodeLength (fst (enc_parts x)) (length x) = head_of (zl_entry x)" "snd (enc_parts x) = length (data_of (zl_entry x))"
proof -
  have "zipEncodeLength (fst (enc_parts x)) (length x) = head_of (zl_entry x) \<and> snd (enc_parts x) = length (data_of (zl_entry x))"
  proof (cases "zipTryEncoding x")
    case (Some v)
    then show ?thesis by (simp add: enc_parts_def zl_entry_def head_of_def zipEncodeLength_def int_data(2))
  qed (simp add: enc_parts_def zl_entry_def head_of_def data_of_def)
  then show "zipEncodeLength (fst (enc_parts x)) (length x) = head_of (zl_entry x)" "snd (enc_parts x) = length (data_of (zl_entry x))"
    by blast+
qed

lemma reqlen_rule: "snd (enc_parts x) + prevlen_size (last_len 0 A) + length (zipEncodeLength (fst (enc_parts x)) (length x)) = ent_len (new_entry A x)"
  by (simp add: enc_parts_rule prevlen_size_psz new_entry_def ent_len_def)

lemma save_data: "(case zipTryEncoding x of None \<Rightarrow> wr zl p x | Some v \<Rightarrow> zipSaveInteger zl p v (fst (enc_parts x))) = wr zl p (data_of (zl_entry x))"
proof (cases "zipTryEncoding x")
  case (Some v)
  then show ?thesis by (simp add: zipSaveInteger_def enc_parts_def zl_entry_def int_data(1))
qed (simp add: zl_entry_def data_of_def)

lemma ent_ok_entry: "length x < 2 ^ 32 \<Longrightarrow> ent_ok (zl_entry x)"
  using zl_ok_entry [of x] by (auto simp: ent_ok_def zl_entry_def split: option.splits)

lemma write_parts:
  assumes "length hole = length u + length v + length w" "p = length a"
  obtains z1 z2 where "wr (a @ hole @ c) p u = Some z1" "wr z1 (p + length u) v = Some z2"
    "wr z2 (p + length u + length v) w = Some (a @ u @ v @ w @ c)"
proof -
  define k where "k = drop (length u) hole"
  define h1 h2 h3 where "h1 = take (length u) hole" and "h2 = take (length v) k" and "h3 = drop (length v) k"
  have "k = h2 @ h3" "hole = h1 @ k" by (simp_all add: h1_def h2_def h3_def k_def del: drop_drop)
  then have h: "hole = h1 @ h2 @ h3" by simp
  have l: "length h1 = length u" "length h2 = length v" "length h3 = length w" using assms(1) by (simp_all add: h1_def h2_def h3_def k_def)
  have "wr (a @ h1 @ h2 @ h3 @ c) p u = Some (a @ u @ h2 @ h3 @ c)" by (rule wr_at) (use assms l in simp_all)
  moreover have "wr ((a @ u) @ h2 @ h3 @ c) (p + length u) v = Some ((a @ u) @ v @ h3 @ c)" by (rule wr_at) (use assms l in simp_all)
  moreover have "wr ((a @ u @ v) @ h3 @ c) (p + length u + length v) w = Some ((a @ u @ v) @ w @ c)" by (rule wr_at) (use assms l in simp_all)
  ultimately show thesis using that [of "a @ u @ h2 @ h3 @ c" "a @ u @ v @ h3 @ c"] by (simp add: h)
qed

text \<open>The end of an insertion: the entry is written into the hole, and the counter raised.\<close>

lemma insert_finish:
  assumes hole: "length hole = ent_len (new_entry A x)" and lf: "lf < 65536" and p: "p = 10 + lay_len A"
  shows "do {
      zl4 \<leftarrow> wr (hdr b t lf @ layout 0 A @ hole @ r) p (zipPrevEncodeLength (last_len 0 A));
      zl5 \<leftarrow> wr zl4 (p + prevlen_size (last_len 0 A)) (zipEncodeLength (fst (enc_parts x)) (length x));
      zl6 \<leftarrow> (case zipTryEncoding x of
          None \<Rightarrow> wr zl5 (p + prevlen_size (last_len 0 A) + length (zipEncodeLength (fst (enc_parts x)) (length x))) x
        | Some v \<Rightarrow> zipSaveInteger zl5 (p + prevlen_size (last_len 0 A) + length (zipEncodeLength (fst (enc_parts x)) (length x))) v (fst (enc_parts x)));
      ZIPLIST_INCR_LENGTH zl6 1
    } = Some (hdr b t (if lf < 65535 then lf + 1 else lf) @ layout 0 A @ entry (last_len 0 A) (254 \<le> last_len 0 A) (zl_entry x) @ r)"
proof -
  let ?u = "enc_prev (254 \<le> last_len 0 A) (last_len 0 A)"
  have u: "zipPrevEncodeLength (last_len 0 A) = ?u" "prevlen_size (last_len 0 A) = length ?u"
    by (simp_all add: zipPrevEncodeLength_enc prevlen_size_psz)
  have "length hole = length ?u + length (head_of (zl_entry x)) + length (data_of (zl_entry x))"
    using hole by (simp add: new_entry_def ent_len_def)
  moreover have "p = length (hdr b t lf @ layout 0 A)" using p by simp
  ultimately obtain z1 z2 where z: "wr ((hdr b t lf @ layout 0 A) @ hole @ r) p ?u = Some z1" "wr z1 (p + length ?u) (head_of (zl_entry x)) = Some z2"
    "wr z2 (p + length ?u + length (head_of (zl_entry x))) (data_of (zl_entry x)) =
      Some ((hdr b t lf @ layout 0 A) @ ?u @ head_of (zl_entry x) @ data_of (zl_entry x) @ r)"
    by (rule write_parts)
  have "ZIPLIST_INCR_LENGTH (hdr b t lf @ layout 0 A @ entry (last_len 0 A) (254 \<le> last_len 0 A) (zl_entry x) @ r) 1 =
      Some (hdr b t (if lf < 65535 then lf + 1 else lf) @ layout 0 A @ entry (last_len 0 A) (254 \<le> last_len 0 A) (zl_entry x) @ r)"
    using incr_length_rule [of lf 1] lf by (simp add: nat_add_distrib)
  then show ?thesis unfolding u save_data enc_parts_rule using z by (simp add: entry_def del: length_enc_prev)
qed


lemma fix_tail_rule:
  assumes ok: "lg \<or> n < 254" "n < 2 ^ 32" "ent_ok e" "lay_ok m B" and t: "t < 2 ^ 32" "t1 < 2 ^ 32" "int t + mv = int t1" "B \<noteq> [] \<Longrightarrow> int t1 + nd = int t2"
  shows "fix_tail (hdr b t lf @ pre @ entry n lg e @ layout m B @ [ZIP_END]) (10 + length pre) mv nd =
    Some (hdr b (if B = [] then t1 else t2) lf @ pre @ entry n lg e @ layout m B @ [ZIP_END])"
proof -
  let ?q = "10 + length pre" and ?r = "pre @ entry n lg e @ layout m B @ [ZIP_END]"
  have s: "set_tail (hdr b t lf @ ?r) (int t + mv) = Some (hdr b t1 lf @ ?r)" unfolding t(3) by (rule hdr_set(2))
  have e: "zipEntry (hdr b t1 lf @ ?r) ?q = Some (fields n lg e)"
    using decode_entry(1) [OF ok(1-3), of ?q "hdr b t1 lf @ pre" "layout m B @ [ZIP_END]"] by simp
  have q: "?q + headersize (fields n lg e) + zlen (fields n lg e) = length (hdr b t1 lf @ pre @ entry n lg e)"
    by (simp add: length_entry fields_def ent_len_def)
  show ?thesis
  proof (cases B)
    case Nil
    have "rd (hdr b t1 lf @ ?r) (?q + headersize (fields n lg e) + zlen (fields n lg e)) = Some ZIP_END"
      using rd_at [of _ "hdr b t1 lf @ pre @ entry n lg e" ZIP_END "[]"] unfolding q by (simp add: Nil)
    then show ?thesis using hdr_fields(2) [OF t(1), of b lf ?r] s e Nil by (simp add: fix_tail_def)
  next
    case (Cons x B')
    have "\<exists>c. rd (hdr b t1 lf @ ?r) (?q + headersize (fields n lg e) + zlen (fields n lg e)) = Some c \<and> c \<noteq> ZIP_END"
      using decode_entry(3) [of "fst x" m "snd x" _ "hdr b t1 lf @ pre @ entry n lg e" "layout (ent_len x) B' @ [ZIP_END]"] ok(4) unfolding q
      by (simp add: Cons)
    moreover have "set_tail (hdr b t1 lf @ ?r) (int t1 + nd) = Some (hdr b t2 lf @ ?r)"
      using t(4) hdr_set(2) [of b t1 lf ?r t2] Cons by simp
    ultimately show ?thesis using hdr_fields(2) [OF t(1), of b lf ?r] hdr_fields(2) [OF t(2), of b lf ?r] s e Cons
      by (auto simp: fix_tail_def)
  qed
qed

lemma open_gap_steps:
  assumes "\<not> int c - int p - 1 + nd < 0" "nat (int p - nd) = src" "nat (int c - int p - 1 + nd) = n"
    "memmove zl (p + req) src n = Some z1" "wr z1 (p + req) (enc_prev (254 \<le> req) req) = Some z2" "fix_tail z2 (p + req) (int req) nd = Some z3"
  shows "open_gap zl c p req nd = Some z3"
  using assms by (simp add: open_gap_def zipPrevEncodeLength_enc)

lemma open_gap_rule:
  assumes ok: "req < 2 ^ 32" "ent_ok e" "lay_ok (ent_len (lg, e)) B"
    and nd: "nd = int (psz (254 \<le> req)) - int (psz lg)" and K: "int (length K) = int req + nd"
    and size: "15 + length LA + req + ent_len (lg, e) + lay_len B < 2 ^ 32"
  obtains hole where "length hole = req"
    "open_gap (hdr (11 + length LA + req + ent_len (254 \<le> req, e) + lay_len B)
        (10 + length LA + (if B = [] then 0 else ent_len (lg, e) + lay_len (butlast B))) lf
      @ LA @ entry pv lg e @ layout (ent_len (lg, e)) B @ K @ [ZIP_END])
      (11 + length LA + ent_len (lg, e) + lay_len B) (10 + length LA) req nd =
    Some (blob (LA @ hole) (entry req (254 \<le> req) e) (ent_len (lg, e)) B lf)"
proof -
  let ?lg = "254 \<le> req" and ?p = "10 + length LA" and ?cur = "11 + length LA + ent_len (lg, e) + lay_len B"
  let ?N = "11 + length LA + req + ent_len (?lg, e) + lay_len B" and ?t = "10 + length LA + (if B = [] then 0 else ent_len (lg, e) + lay_len (butlast B))"
  define R where "R = head_of e @ data_of e @ layout (ent_len (lg, e)) B"
  define P where "P = hdr ?N ?t lf @ LA @ enc_prev lg pv"
  define G where "G = drop (length P - psz ?lg) P"
  define s where "s = P @ R @ K @ [ZIP_END]"
  have lR: "ent_len (lg, e) + lay_len B = psz lg + length R" by (simp add: R_def ent_len_def)
  have lP: "length P = ?p + psz lg" by (simp add: P_def)
  have lG: "length G = psz ?lg" using lP by (simp add: G_def)
  have ls: "length s = ?p + req + (psz ?lg + length R) + 1" using K nd lP by (simp add: s_def split: if_splits)
  have se: "s = take (length P - psz ?lg) P @ (G @ R) @ K @ [ZIP_END]" by (simp add: s_def G_def)
  have n: "nat (int ?cur - int ?p - 1 + nd) = psz ?lg + length R" "\<not> int ?cur - int ?p - 1 + nd < 0" using lR nd by (auto split: if_splits)
  have src: "nat (int ?p - nd) = length P - psz ?lg" using nd lP by (auto split: if_splits)
  have mm: "memmove s (?p + req) (length P - psz ?lg) (psz ?lg + length R) =
      Some (take (?p + req) s @ (G @ R) @ drop (?p + req + (psz ?lg + length R)) s)"
    by (rule memmove_rule [OF se]) (simp_all add: lG ls)
  define hole where "hole = take req (enc_prev lg pv @ R @ K @ [ZIP_END])"
  have "take (?p + req) s = hdr ?N ?t lf @ LA @ hole" by (simp add: s_def P_def hole_def)
  moreover have "length (take (?p + req) s) = ?p + req" using ls by simp
  ultimately have hole: "take (?p + req) s = hdr ?N ?t lf @ LA @ hole" "length hole = req" by simp_all
  have "?p + req + (psz ?lg + length R) = length (P @ R @ K)" using ls by (simp add: s_def)
  then have dr: "drop (?p + req + (psz ?lg + length R)) s = [ZIP_END]" by (simp add: s_def)
  define z where "z = hdr ?N ?t lf @ LA @ hole"
  have lz: "length z = ?p + req" using hole(2) by (simp add: z_def)
  have w: "wr (z @ G @ R @ [ZIP_END]) (?p + req) (enc_prev ?lg req) = Some (z @ enc_prev ?lg req @ R @ [ZIP_END])"
    by (rule wr_at) (simp_all add: lz lG)
  let ?t1 = "?t + req" and ?t2 = "?p + req + ent_len (?lg, e) + lay_len (butlast B)"
  have f: "fix_tail (hdr ?N ?t lf @ (LA @ hole) @ entry req ?lg e @ layout (ent_len (lg, e)) B @ [ZIP_END]) (10 + length (LA @ hole)) (int req) nd =
      Some (hdr ?N (if B = [] then ?t1 else ?t2) lf @ (LA @ hole) @ entry req ?lg e @ layout (ent_len (lg, e)) B @ [ZIP_END])"
    by (rule fix_tail_rule) (use ok size lay_len_butlast [of B] nd in \<open>auto simp: ent_len_def\<close>)
  have "hdr ?N (if B = [] then ?t1 else ?t2) lf @ (LA @ hole) @ entry req ?lg e @ layout (ent_len (lg, e)) B @ [ZIP_END] =
      blob (LA @ hole) (entry req ?lg e) (ent_len (lg, e)) B lf"
    using hole(2) by (simp add: blob_def length_entry ac_simps)
  moreover have "z @ enc_prev ?lg req @ R @ [ZIP_END] = hdr ?N ?t lf @ (LA @ hole) @ entry req ?lg e @ layout (ent_len (lg, e)) B @ [ZIP_END]"
    by (simp add: z_def R_def entry_def)
  ultimately have f': "fix_tail (z @ enc_prev ?lg req @ R @ [ZIP_END]) (?p + req) (int req) nd = Some (blob (LA @ hole) (entry req ?lg e) (ent_len (lg, e)) B lf)"
    using f hole(2) by (simp only: length_append add.assoc)
  have "memmove s (?p + req) (length P - psz ?lg) (psz ?lg + length R) = Some (z @ G @ R @ [ZIP_END])"
    using mm hole(1) dr by (simp only: z_def append_assoc)
  from open_gap_steps [OF n(2) src n(1) this w f']
  have "open_gap s ?cur ?p req nd = Some (blob (LA @ hole) (entry req ?lg e) (ent_len (lg, e)) B lf)" .
  moreover have "s = hdr ?N ?t lf @ LA @ entry pv lg e @ layout (ent_len (lg, e)) B @ K @ [ZIP_END]" by (simp add: s_def P_def R_def entry_def)
  ultimately show ?thesis using that [OF hole(2)] by simp
qed


definition insert_end :: "string \<Rightarrow> nat \<Rightarrow> nat \<Rightarrow> string \<Rightarrow> string option" where
  "insert_end zl p pv x = do {
      zl4 \<leftarrow> wr zl p (zipPrevEncodeLength pv);
      zl5 \<leftarrow> wr zl4 (p + prevlen_size pv) (zipEncodeLength (fst (enc_parts x)) (length x));
      zl6 \<leftarrow> (case zipTryEncoding x of
          None \<Rightarrow> wr zl5 (p + prevlen_size pv + length (zipEncodeLength (fst (enc_parts x)) (length x))) x
        | Some v \<Rightarrow> zipSaveInteger zl5 (p + prevlen_size pv + length (zipEncodeLength (fst (enc_parts x)) (length x))) v (fst (enc_parts x)));
      ZIPLIST_INCR_LENGTH zl6 1
    }"

lemma insert_steps:
  assumes "ZIPLIST_BYTES zl = Some c" "insert_prevlen zl p = Some pv"
    "snd (enc_parts x) + prevlen_size pv + length (zipEncodeLength (fst (enc_parts x)) (length x)) = req"
    "rd zl p = Some b" "(if b \<noteq> ZIP_END then zipPrevLenByteDiff zl p req else Some 0) = Some nd"
    "ziplistResize junk zl (nat (int c + int req + nd)) = Some z1" "rd z1 p = Some b1"
    "(if b1 \<noteq> ZIP_END then open_gap z1 c p req nd else set_tail z1 (int p)) = Some z2"
    "(if nd \<noteq> 0 then do { n \<leftarrow> ZIPLIST_BYTES z2; ziplistCascadeUpdate junk z2 n (p + req) } else Some z2) = Some z3"
    "insert_end z3 p pv x = Some z4"
  shows "ziplistInsert junk zl p x = Some z4"
proof -
  obtain enc plen where e: "enc_parts x = (enc, plen)" by (cases "enc_parts x")
  then have c: "(case zipTryEncoding x of Some v \<Rightarrow> (zip_int_encoding v, zipIntSize (zip_int_encoding v)) | None \<Rightarrow> (0, length x)) = (enc, plen)"
    by (simp add: enc_parts_def)
  show ?thesis unfolding ziplistInsert_def c Let_def prod.case
    using assms unfolding e fst_conv snd_conv insert_end_def by (simp only: Option.bind.bind_lunit)
qed

definition bump :: "nat \<Rightarrow> nat" where
  "bump lf = (if lf < 65535 then lf + 1 else lf)"

lemma insert_end_rule:
  assumes "length hole = ent_len (new_entry A x)" "lf < 65536"
  shows "insert_end (hdr b t lf @ layout 0 A @ hole @ r) (10 + lay_len A) (last_len 0 A) x =
    Some (hdr b t (bump lf) @ layout 0 A @ entry (last_len 0 A) (fst (new_entry A x)) (snd (new_entry A x)) @ r)"
  using insert_finish [OF assms refl] by (simp add: insert_end_def bump_def new_entry_def)

lemma insert_at_end:
  assumes wf: "zl_wf lf A" and size: "11 + lay_len A + ent_len (new_entry A x) < 2 ^ 32"
  shows "ziplistInsert junk (zl_blob lf A) (10 + lay_len A) x = Some (zl_blob (bump lf) (A @ [new_entry A x]))"
proof -
  let ?req = "ent_len (new_entry A x)" and ?c = "11 + lay_len A" and ?t = "10 + lay_len (butlast A)"
  have lf: "lf < 65536" using wf by (auto simp: zl_wf_def)
  define hole where "hole = take ?req (ZIP_END # map junk [?c..<?c + ?req])"
  have hole: "length hole = ?req" by (simp add: hole_def)
  have h0: "\<exists>k. hole = ZIP_END # k" using ent_len_pos [of "new_entry A x"] unfolding hole_def by (cases ?req) (simp_all del: ent_len_pos)
  let ?z1 = "hdr (?c + ?req) ?t lf @ layout 0 A @ hole @ [ZIP_END]" and ?z2 = "hdr (?c + ?req) (10 + lay_len A) lf @ layout 0 A @ hole @ [ZIP_END]"
  show ?thesis
  proof (rule insert_steps)
    show "ZIPLIST_BYTES (zl_blob lf A) = Some ?c" by (rule zl_blob_header(1) [OF wf])
    show "insert_prevlen (zl_blob lf A) (10 + lay_len A) = Some (last_len 0 A)" using insert_prevlen_rule [of lf A "[]"] wf by simp
    show "snd (enc_parts x) + prevlen_size (last_len 0 A) + length (zipEncodeLength (fst (enc_parts x)) (length x)) = ?req" by (rule reqlen_rule)
    show "rd (zl_blob lf A) (10 + lay_len A) = Some ZIP_END" by (rule zl_blob_end)
    show "(if ZIP_END \<noteq> ZIP_END then zipPrevLenByteDiff (zl_blob lf A) (10 + lay_len A) ?req else Some 0) = Some 0" by simp
    have "nat (int ?c + int ?req + 0) = ?c + ?req" by simp
    then show "ziplistResize junk (zl_blob lf A) (nat (int ?c + int ?req + 0)) = Some ?z1"
      unfolding zl_blob_def using resize_rule [of "?c + ?req" junk ?c ?t lf "layout 0 A @ [ZIP_END]"] by (simp add: hole_def)
    show "rd ?z1 (10 + lay_len A) = Some ZIP_END" using h0 rd_at [of _ "hdr (?c + ?req) ?t lf @ layout 0 A" ZIP_END] by auto
    show "(if ZIP_END \<noteq> ZIP_END then open_gap ?z1 ?c (10 + lay_len A) ?req 0 else set_tail ?z1 (int (10 + lay_len A))) = Some ?z2"
      using hdr_set(2) [of "?c + ?req" ?t lf "layout 0 A @ hole @ [ZIP_END]" "10 + lay_len A"] by (simp del: of_nat_add)
    show "(if (0::int) \<noteq> 0 then do { n \<leftarrow> ZIPLIST_BYTES ?z2; ziplistCascadeUpdate junk ?z2 n (10 + lay_len A + ?req) } else Some ?z2) = Some ?z2" by simp
    show "insert_end ?z2 (10 + lay_len A) (last_len 0 A) x = Some (zl_blob (bump lf) (A @ [new_entry A x]))"
      using insert_end_rule [OF hole lf] by (simp add: zl_blob_def layout_append ac_simps)
  qed
qed


lemma zl_blob_insert:
  assumes "length hole = ent_len y"
  shows "blob (layout 0 A @ hole) (entry n lg e) m B lf = hdr (11 + lay_len (A @ y # (lg, e) # B)) (10 + lay_len (butlast (A @ y # (lg, e) # B))) lf
    @ layout 0 A @ hole @ entry n lg e @ layout m B @ [ZIP_END]"
  using assms by (simp add: blob_def length_entry butlast_append ac_simps)

lemma lay_len_moved: "lay_len (casc r m B) \<le> lay_len B + 4 * length B"
proof (induction B arbitrary: r m)
  case (Cons x B)
  have "ent_len (True, snd x) \<le> ent_len x + 4" by (simp add: ent_len_def)
  then show ?case using Cons [of "ent_len (True, snd x)" "ent_len x"] by simp
qed simp

lemma insert_in_middle:
  assumes wf: "zl_wf lf (A @ (lg, e) # B)" and size: "19 + lay_len (A @ (lg, e) # B) + ent_len (new_entry A x) + 4 * length B < 2 ^ 32"
    and safe: "lg \<Longrightarrow> 4 \<le> ent_len (new_entry A x)"
  shows "ziplistInsert junk (zl_blob lf (A @ (lg, e) # B)) (10 + lay_len A) x =
    Some (zl_blob (bump lf) (A @ new_entry A x # moved (ent_len (new_entry A x)) ((lg, e) # B)))"
proof -
  let ?y = "new_entry A x" and ?c = "11 + lay_len (A @ (lg, e) # B)" and ?p = "10 + lay_len A" and ?zl = "zl_blob lf (A @ (lg, e) # B)"
  let ?req = "ent_len (new_entry A x)" and ?t = "10 + lay_len A + (if B = [] then 0 else ent_len (lg, e) + lay_len (butlast B))"
  let ?lg = "254 \<le> ?req" and ?m = "ent_len (lg, e)"
  let ?r = "ent_len (?lg, e)" and ?nd = "int (psz (254 \<le> ?req)) - int (psz lg)"
  have lf: "lf < 65536" using wf by (auto simp: zl_wf_def)
  have ok: "ent_ok e" "lay_ok ?m B" using wf by (simp_all add: zl_wf_def lay_ok_append)
  have N: "nat (int ?c + int ?req + ?nd) = 11 + lay_len A + ?req + ?r + lay_len B" by (auto simp: ent_len_def)
  define K where "K = take (?req + psz ?lg - psz lg) (ZIP_END # map junk [?c..<nat (int ?c + int ?req + ?nd)])"
  have ge: "psz lg \<le> ?req + psz ?lg" using safe by auto
  have K: "int (length K) = int ?req + ?nd" using ge by (auto simp: K_def)
  define z1 where "z1 = hdr (nat (int ?c + int ?req + ?nd)) ?t lf @ layout 0 A @ entry (last_len 0 A) lg e @ layout ?m B @ K @ [ZIP_END]"
  obtain hole where hole: "length hole = ?req" and gap: "open_gap z1 ?c ?p ?req ?nd = Some (blob (layout 0 A @ hole) (entry ?req ?lg e) ?m B lf)"
    using open_gap_rule [of ?req e lg B ?nd K "layout 0 A" lf "last_len 0 A"] ok K size unfolding z1_def N by (auto simp: ac_simps)
  obtain b where b: "rd ?zl ?p = Some b" "b \<noteq> ZIP_END" using entry_at(3) [OF wf] by blast
  obtain b1 where b1: "rd z1 ?p = Some b1" "b1 \<noteq> ZIP_END"
    using decode_entry(3) [of lg "last_len 0 A" e ?p "hdr (nat (int ?c + int ?req + ?nd)) ?t lf @ layout 0 A" "layout ?m B @ K @ [ZIP_END]"] wf
    by (auto simp: z1_def zl_wf_def lay_ok_append)
  define L where "L = layout 0 (A @ (lg, e) # B)"
  have L: "length L = lay_len (A @ (lg, e) # B)" by (simp add: L_def)
  have len: "nat (int ?c + int ?req + ?nd) = ?c + (?req + psz ?lg - psz lg)" using ge by auto
  have z: "?zl = hdr ?c ?t lf @ L @ [ZIP_END]" by (simp add: L_def zl_blob_def butlast_append ac_simps)
  have "z1 = hdr (nat (int ?c + int ?req + ?nd)) ?t lf @ L @ K @ [ZIP_END]" by (simp add: z1_def L_def layout_append)
  then have rs: "ziplistResize junk ?zl (nat (int ?c + int ?req + ?nd)) = Some z1"
    using resize_more [of junk ?c ?t lf L "?req + psz ?lg - psz lg"] unfolding z K_def len L by (simp only:)
  let ?z3 = "blob (layout 0 A @ hole) (entry ?req ?lg e) ?r (casc ?r ?m B) lf"
  let ?z2 = "blob (layout 0 A @ hole) (entry ?req ?lg e) ?m B lf"
  have pos: "10 + length (layout 0 A @ hole) = ?p + ?req" using hole by simp
  have "(if ?nd \<noteq> 0 then do { n \<leftarrow> ZIPLIST_BYTES ?z2; ziplistCascadeUpdate junk ?z2 n (10 + length (layout 0 A @ hole)) } else Some ?z2) = Some ?z3"
    by (rule cascade_opt) (use ok size hole in auto)
  then have cs: "(if ?nd \<noteq> 0 then do { n \<leftarrow> ZIPLIST_BYTES ?z2; ziplistCascadeUpdate junk ?z2 n (?p + ?req) } else Some ?z2) = Some ?z3"
    unfolding pos .
  show ?thesis
  proof (rule insert_steps)
    show "ZIPLIST_BYTES ?zl = Some ?c" by (rule zl_blob_header(1) [OF wf])
    show "insert_prevlen ?zl ?p = Some (last_len 0 A)" by (rule insert_prevlen_rule [OF wf])
    show "snd (enc_parts x) + prevlen_size (last_len 0 A) + length (zipEncodeLength (fst (enc_parts x)) (length x)) = ?req" by (rule reqlen_rule)
    show "rd ?zl ?p = Some b" by (rule b)
    show "(if b \<noteq> ZIP_END then zipPrevLenByteDiff ?zl ?p ?req else Some 0) = Some ?nd"
      using b(2) entry_at(5) [OF wf] by (simp add: zipPrevLenByteDiff_def prevlen_size_psz)
    show "ziplistResize junk ?zl (nat (int ?c + int ?req + ?nd)) = Some z1" by (rule rs)
    show "rd z1 ?p = Some b1" by (rule b1)
    show "(if b1 \<noteq> ZIP_END then open_gap z1 ?c ?p ?req ?nd else set_tail z1 (int ?p)) = Some (blob (layout 0 A @ hole) (entry ?req ?lg e) ?m B lf)"
      using b1(2) gap by simp
    show "insert_end ?z3 ?p (last_len 0 A) x = Some (zl_blob (bump lf) (A @ ?y # moved ?req ((lg, e) # B)))"
      unfolding zl_blob_insert [OF hole] insert_end_rule [OF hole lf]
      by (simp add: zl_blob_def moved_def layout_append length_entry)
  qed (rule cs)
qed


section \<open>Deletion\<close>

lemma skip_rule:
  "zl_wf lf (A @ D @ B) \<Longrightarrow> num = length D \<or> B = [] \<and> length D \<le> num \<Longrightarrow>
   skip_entries (zl_blob lf (A @ D @ B)) (10 + lay_len A) num = Some (10 + lay_len A + lay_len D, length D)"
proof (induction D arbitrary: A num)
  case Nil
  then show ?case using zl_blob_end [of lf A] by (cases num) auto
next
  case (Cons x D)
  obtain lg e where x: "x = (lg, e)" by (cases x)
  obtain k where k: "num = Suc k" using Cons.prems(2) by (cases num) auto
  have wf: "zl_wf lf (A @ (lg, e) # (D @ B))" using Cons.prems(1) x by simp
  have "skip_entries (zl_blob lf ((A @ [x]) @ D @ B)) (10 + lay_len (A @ [x])) k = Some (10 + lay_len (A @ [x]) + lay_len D, length D)"
    by (rule Cons.IH) (use Cons.prems k in auto)
  then show ?case using entry_at(2,3) [OF wf] by (auto simp: k x ac_simps)
qed

lemma close_gap_steps:
  assumes "zipPrevLenByteDiff zl q pv = Some nd" "nat (int q - nd) = q1" "wr zl q1 (enc_prev (254 \<le> pv) pv) = Some z1"
    "fix_tail z1 q1 (- int (q - p)) nd = Some z2" "ZIPLIST_BYTES z2 = Some b" "q1 + 1 \<le> b" "memmove z2 p q1 (b - q1 - 1) = Some z3"
  shows "close_gap zl p q pv = Some (z3, nd)"
  using assms by (simp add: close_gap_def Let_def zipPrevEncodeLength_enc)

lemma close_gap_rule:
  assumes ok: "lg \<or> m < 254" "m < 2 ^ 32" "pv < 2 ^ 32" "ent_ok e" "lay_ok (ent_len (lg, e)) B" and LD: "254 \<le> pv \<Longrightarrow> 4 \<le> length LD"
    and size: "11 + length LA + length LD + ent_len (lg, e) + lay_len B < 2 ^ 32"
    and nd: "nd = int (psz (254 \<le> pv)) - int (psz lg)"
  obtains Z where "close_gap (hdr (11 + length LA + length LD + ent_len (lg, e) + lay_len B)
        (10 + length LA + length LD + (if B = [] then 0 else ent_len (lg, e) + lay_len (butlast B))) lf
        @ LA @ LD @ entry m lg e @ layout (ent_len (lg, e)) B @ [ZIP_END]) (10 + length LA) (10 + length LA + length LD) pv =
      Some (hdr (11 + length LA + length LD + ent_len (lg, e) + lay_len B)
        (10 + length LA + (if B = [] then 0 else ent_len (254 \<le> pv, e) + lay_len (butlast B))) lf
        @ LA @ entry pv (254 \<le> pv) e @ layout (ent_len (lg, e)) B @ Z, nd)"
proof -
  let ?lg = "254 \<le> pv" and ?p = "10 + length LA" and ?q = "10 + length LA + length LD"
  let ?b = "11 + length LA + length LD + ent_len (lg, e) + lay_len B"
  let ?t = "10 + length LA + length LD + (if B = [] then 0 else ent_len (lg, e) + lay_len (butlast B))"
  let ?t1 = "10 + length LA + (if B = [] then 0 else ent_len (lg, e) + lay_len (butlast B))"
  let ?t2 = "10 + length LA + (if B = [] then 0 else ent_len (?lg, e) + lay_len (butlast B))"
  define R where "R = head_of e @ data_of e @ layout (ent_len (lg, e)) B"
  define P where "P = LD @ enc_prev lg m"
  define G where "G = take (length P - psz ?lg) P"
  define zl where "zl = hdr ?b ?t lf @ LA @ LD @ entry m lg e @ layout (ent_len (lg, e)) B @ [ZIP_END]"
  have lR: "ent_len (lg, e) + lay_len B = psz lg + length R" by (simp add: R_def ent_len_def)
  have lP: "length P = length LD + psz lg" "psz ?lg \<le> length P" using LD by (auto simp: P_def)
  have lG: "length G + psz ?lg = length LD + psz lg" using lP by (simp add: G_def)
  have q1: "nat (int ?q - nd) = ?p + length G" using nd lG by (auto split: if_splits)
  define s where "s = hdr ?b ?t2 lf @ LA @ G @ enc_prev ?lg pv @ R @ [ZIP_END]"
  have diff: "zipPrevLenByteDiff zl ?q pv = Some nd"
    using decode_prevlen(1) [OF ok(1,2), of ?q "hdr ?b ?t lf @ LA @ LD" "head_of e @ data_of e @ layout (ent_len (lg, e)) B @ [ZIP_END]"] nd
    by (simp add: zl_def entry_def zipPrevLenByteDiff_def prevlen_size_psz)
  have "wr ((hdr ?b ?t lf @ LA @ G) @ drop (length P - psz ?lg) P @ R @ [ZIP_END]) (?p + length G) (enc_prev ?lg pv) =
      Some ((hdr ?b ?t lf @ LA @ G) @ enc_prev ?lg pv @ R @ [ZIP_END])"
    by (rule wr_at) (use lP in simp_all)
  moreover have "zl = (hdr ?b ?t lf @ LA @ G) @ drop (length P - psz ?lg) P @ R @ [ZIP_END]"
  proof -
    have "G @ drop (length P - psz ?lg) P = LD @ enc_prev lg m" unfolding G_def P_def by (rule append_take_drop_id)
    then show ?thesis unfolding zl_def entry_def R_def append_assoc by (metis append_assoc)
  qed
  ultimately have w: "wr zl (?p + length G) (enc_prev ?lg pv) = Some (hdr ?b ?t lf @ (LA @ G) @ entry pv ?lg e @ layout (ent_len (lg, e)) B @ [ZIP_END])"
    by (simp add: entry_def R_def)
  have "fix_tail (hdr ?b ?t lf @ (LA @ G) @ entry pv ?lg e @ layout (ent_len (lg, e)) B @ [ZIP_END]) (10 + length (LA @ G)) (- int (?q - ?p)) nd =
      Some (hdr ?b (if B = [] then ?t1 else ?t2) lf @ (LA @ G) @ entry pv ?lg e @ layout (ent_len (lg, e)) B @ [ZIP_END])"
    by (rule fix_tail_rule) (use ok size lay_len_butlast [of B] nd in \<open>auto simp: ent_len_def\<close>)
  moreover have "hdr ?b (if B = [] then ?t1 else ?t2) lf @ (LA @ G) @ entry pv ?lg e @ layout (ent_len (lg, e)) B @ [ZIP_END] = s"
    by (simp add: s_def entry_def R_def)
  moreover have "10 + length (LA @ G) = ?p + length G" by simp
  ultimately have f: "fix_tail (hdr ?b ?t lf @ (LA @ G) @ entry pv ?lg e @ layout (ent_len (lg, e)) B @ [ZIP_END]) (?p + length G) (- int (?q - ?p)) nd = Some s"
    by (simp only:)
  have b: "ZIPLIST_BYTES s = Some ?b" unfolding s_def by (rule hdr_fields(1)) (use size in simp)
  have n: "?b = ?p + length G + 1 + (psz ?lg + length R)" using lR lG by linarith
  have se: "s = (hdr ?b ?t2 lf @ LA @ G) @ (enc_prev ?lg pv @ R) @ [ZIP_END]" by (simp add: s_def)
  have ls: "length s = ?p + length G + (psz ?lg + length R) + 1" by (simp add: s_def)
  have "memmove s ?p (?p + length G) (?b - (?p + length G) - 1) = Some (take ?p s @ (enc_prev ?lg pv @ R) @ drop (?p + (?b - (?p + length G) - 1)) s)"
    by (rule memmove_rule [OF se]) (use n ls in simp_all)
  moreover have "take ?p s = hdr ?b ?t2 lf @ LA" by (simp add: s_def)
  ultimately have mm: "memmove s ?p (?p + length G) (?b - (?p + length G) - 1) =
      Some (hdr ?b ?t2 lf @ LA @ entry pv ?lg e @ layout (ent_len (lg, e)) B @ drop (?p + (?b - (?p + length G) - 1)) s)"
    by (simp add: entry_def R_def)
  have "?p + length G + 1 \<le> ?b" using n by simp
  from close_gap_steps [OF diff q1 w f b this mm] that show ?thesis unfolding zl_def by blast
qed


lemma delete_steps:
  assumes "zipEntry zl p = Some (fields pv lg0 e0)" "skip_entries zl p num = Some (q, k)" "p < q" "rd zl q = Some c"
    "(if c \<noteq> ZIP_END then close_gap zl p q pv else do { z \<leftarrow> set_tail zl (int p - int pv); Some (z, 0) }) = Some (z1, nd)"
    "ZIPLIST_BYTES z1 = Some b" "ziplistResize junk z1 (nat (int b - int (q - p) + nd)) = Some z2" "ZIPLIST_INCR_LENGTH z2 (- int k) = Some z3"
    "(if nd \<noteq> 0 then do { n \<leftarrow> ZIPLIST_BYTES z3; ziplistCascadeUpdate junk z3 n p } else Some z3) = Some z4"
  shows "ziplistDelete_num junk zl p num = Some z4"
proof -
  have "0 < q - p" using assms(3) by simp
  then show ?thesis unfolding ziplistDelete_num_def using assms
    by (simp only: Option.bind.bind_lunit prod.case fields_sel if_True)
qed

definition less_lf :: "nat \<Rightarrow> nat \<Rightarrow> nat" where
  "less_lf lf k = (if lf < 65535 then lf - k else lf)"

lemma decr_length_rule:
  assumes "lf < 65535 \<Longrightarrow> k \<le> lf" "lf < 65536"
  shows "ZIPLIST_INCR_LENGTH (hdr b t lf @ r) (- int k) = Some (hdr b t (less_lf lf k) @ r)"
  using incr_length_rule [of lf "- int k" b t r] assms by (cases "lf < 65535") (simp_all add: less_lf_def nat_diff_distrib)

lemma last_len_butlast: "lay_len A = lay_len (butlast A) + (if A = [] then 0 else last_len 0 A)"
  by (cases A rule: rev_cases) simp_all

lemma delete_tail:
  assumes wf: "zl_wf lf (A @ D)" and D: "D \<noteq> []" "length D \<le> num"
  shows "ziplistDelete_num junk (zl_blob lf (A @ D)) (10 + lay_len A) num = Some (zl_blob (less_lf lf (length D)) A)"
proof -
  obtain lg e D' where D': "D = (lg, e) # D'" using D(1) by (cases D) auto
  let ?b = "11 + lay_len (A @ D)" and ?p = "10 + lay_len A" and ?t = "10 + lay_len (butlast A)"
  have wf': "zl_wf lf (A @ (lg, e) # D')" using wf D' by simp
  have lf: "lf < 65536" "lf < 65535 \<Longrightarrow> length D \<le> lf" using wf by (auto simp: zl_wf_def)
  have dpos: "0 < lay_len D" by (simp add: D')
  show ?thesis
  proof (rule delete_steps)
    show "zipEntry (zl_blob lf (A @ D)) ?p = Some (fields (last_len 0 A) lg e)" using entry_at(1) [OF wf'] D' by simp
    show "skip_entries (zl_blob lf (A @ D)) ?p num = Some (?p + lay_len D, length D)" using skip_rule [of lf A D "[]" num] wf D(2) by simp
    show "?p < ?p + lay_len D" using dpos by simp
    show "rd (zl_blob lf (A @ D)) (?p + lay_len D) = Some ZIP_END" using zl_blob_end [of lf "A @ D"] by (simp add: ac_simps)
    have "int ?p - int (last_len 0 A) = int ?t" using last_len_butlast [of A] by (cases "A = []") simp_all
    then show "(if ZIP_END \<noteq> ZIP_END then close_gap (zl_blob lf (A @ D)) ?p (?p + lay_len D) (last_len 0 A)
        else do { z \<leftarrow> set_tail (zl_blob lf (A @ D)) (int ?p - int (last_len 0 A)); Some (z, 0) }) =
      Some (hdr ?b ?t lf @ layout 0 (A @ D) @ [ZIP_END], 0)"
      unfolding zl_blob_def using hdr_set(2) by (simp del: of_nat_add)
    show "ZIPLIST_BYTES (hdr ?b ?t lf @ layout 0 (A @ D) @ [ZIP_END]) = Some ?b" by (rule hdr_fields) (use wf in \<open>simp add: zl_wf_def\<close>)
    have "nat (int ?b - int (?p + lay_len D - ?p) + 0) = 11 + lay_len A" by simp
    then show "ziplistResize junk (hdr ?b ?t lf @ layout 0 (A @ D) @ [ZIP_END]) (nat (int ?b - int (?p + lay_len D - ?p) + 0)) = Some (zl_blob lf A)"
      using resize_rule [of "11 + lay_len A" junk ?b ?t lf "layout 0 (A @ D) @ [ZIP_END]"] by (simp add: zl_blob_def layout_append)
    show "ZIPLIST_INCR_LENGTH (zl_blob lf A) (- int (length D)) = Some (zl_blob (less_lf lf (length D)) A)"
      unfolding zl_blob_def by (rule decr_length_rule [OF lf(2,1)])
  qed simp
qed

lemma delete_middle:
  assumes wf: "zl_wf lf (A @ D @ (lg, e) # B)" and D: "D \<noteq> []" and size: "15 + lay_len A + ent_len (lg, e) + lay_len B + 4 * length B < 2 ^ 32"
  shows "ziplistDelete_num junk (zl_blob lf (A @ D @ (lg, e) # B)) (10 + lay_len A) (length D) =
    Some (zl_blob (less_lf lf (length D)) (A @ moved (last_len 0 A) ((lg, e) # B)))"
proof -
  obtain lg0 e0 D' where D': "D = (lg0, e0) # D'" using D by (cases D) auto
  let ?zl = "zl_blob lf (A @ D @ (lg, e) # B)" and ?pv = "last_len 0 A" and ?p = "10 + lay_len A" and ?q = "10 + lay_len A + lay_len D"
  let ?lg = "254 \<le> ?pv" and ?m = "ent_len (lg, e)" and ?LD = "layout (last_len 0 A) D"
  let ?r = "ent_len (?lg, e)" and ?nd = "int (psz (254 \<le> ?pv)) - int (psz lg)" and ?lf = "less_lf lf (length D)"
  let ?b = "11 + lay_len A + lay_len D + ?m + lay_len B" and ?t = "10 + lay_len A + (if B = [] then 0 else ?r + lay_len (butlast B))"
  have wf': "zl_wf lf (A @ (lg0, e0) # (D' @ (lg, e) # B))" "zl_wf lf ((A @ D) @ (lg, e) # B)" using wf D' by simp_all
  have lf: "lf < 65536" "lf < 65535 \<Longrightarrow> length D \<le> lf" using wf by (auto simp: zl_wf_def)
  have ok: "lg \<or> last_len ?pv D < 254" "last_len ?pv D < 2 ^ 32" "?pv < 2 ^ 32" "ent_ok e" "lay_ok ?m B" "?lg \<Longrightarrow> lg0"
    using wf D' by (auto simp: zl_wf_def lay_ok_append)
  have zl: "?zl = hdr (11 + length (layout 0 A) + length ?LD + ?m + lay_len B)
        (10 + length (layout 0 A) + length ?LD + (if B = [] then 0 else ?m + lay_len (butlast B))) lf
        @ layout 0 A @ ?LD @ entry (last_len ?pv D) lg e @ layout ?m B @ [ZIP_END]"
    by (simp add: zl_blob_def layout_append butlast_append ac_simps)
  have LD: "?lg \<Longrightarrow> 4 \<le> length ?LD" using ok(6) by (simp add: D' ent_len_def length_entry)
  have sz: "11 + length (layout 0 A) + length ?LD + ?m + lay_len B < 2 ^ 32" using wf by (simp add: zl_wf_def)
  obtain Z where "close_gap ?zl (10 + length (layout 0 A)) (10 + length (layout 0 A) + length ?LD) ?pv =
      Some (hdr (11 + length (layout 0 A) + length ?LD + ?m + lay_len B)
        (10 + length (layout 0 A) + (if B = [] then 0 else ?r + lay_len (butlast B))) lf
        @ layout 0 A @ entry ?pv ?lg e @ layout ?m B @ Z, ?nd)"
    unfolding zl by (rule close_gap_rule [OF ok(1-5) LD sz refl])
  then have gap: "close_gap ?zl ?p ?q ?pv = Some (hdr ?b ?t lf @ layout 0 A @ entry ?pv ?lg e @ layout ?m B @ Z, ?nd)" by simp
  let ?z2 = "blob (layout 0 A) (entry ?pv ?lg e) ?m B"
  obtain c where c: "rd ?zl ?q = Some c" "c \<noteq> ZIP_END" using entry_at(3) [OF wf'(2)] by (auto simp: ac_simps)
  have len: "nat (int ?b - int (?q - ?p) + ?nd) = 11 + lay_len A + ?r + lay_len B" by (auto simp: ent_len_def)
  show ?thesis
  proof (rule delete_steps)
    show "zipEntry ?zl ?p = Some (fields ?pv lg0 e0)" using entry_at(1) [OF wf'(1)] D' by simp
    show "skip_entries ?zl ?p (length D) = Some (?q, length D)" by (rule skip_rule [OF wf]) simp
    show "?p < ?q" by (simp add: D')
    show "rd ?zl ?q = Some c" by (rule c)
    show "(if c \<noteq> ZIP_END then close_gap ?zl ?p ?q ?pv else do { z \<leftarrow> set_tail ?zl (int ?p - int ?pv); Some (z, 0) }) =
        Some (hdr ?b ?t lf @ layout 0 A @ entry ?pv ?lg e @ layout ?m B @ Z, ?nd)" using c(2) gap by simp
    show "ZIPLIST_BYTES (hdr ?b ?t lf @ layout 0 A @ entry ?pv ?lg e @ layout ?m B @ Z) = Some ?b" by (rule hdr_fields) (use sz in simp)
    show "ziplistResize junk (hdr ?b ?t lf @ layout 0 A @ entry ?pv ?lg e @ layout ?m B @ Z) (nat (int ?b - int (?q - ?p) + ?nd)) = Some (?z2 lf)"
      unfolding len using resize_rule [of "11 + lay_len A + ?r + lay_len B" junk ?b ?t lf "layout 0 A @ entry ?pv ?lg e @ layout ?m B @ Z"]
      by (simp add: blob_cur length_entry)
    show "ZIPLIST_INCR_LENGTH (?z2 lf) (- int (length D)) = Some (?z2 ?lf)" unfolding blob_def by (rule decr_length_rule [OF lf(2,1)])
    have "10 + length (layout 0 A) = ?p" by simp
    moreover have "(if ?nd \<noteq> 0 then do { n \<leftarrow> ZIPLIST_BYTES (?z2 ?lf); ziplistCascadeUpdate junk (?z2 ?lf) n (10 + length (layout 0 A)) } else Some (?z2 ?lf)) =
        Some (blob (layout 0 A) (entry ?pv ?lg e) ?r (casc ?r ?m B) ?lf)"
      by (rule cascade_opt) (use ok size in auto)
    moreover have "blob (layout 0 A) (entry ?pv ?lg e) ?r (casc ?r ?m B) ?lf = zl_blob ?lf (A @ moved ?pv ((lg, e) # B))"
      by (simp add: moved_def zl_blob_at)
    ultimately show "(if ?nd \<noteq> 0 then do { n \<leftarrow> ZIPLIST_BYTES (?z2 ?lf); ziplistCascadeUpdate junk (?z2 ?lf) n ?p } else Some (?z2 ?lf)) =
        Some (zl_blob ?lf (A @ moved ?pv ((lg, e) # B)))" by (simp only:)
  qed
qed

end
