(* ===== verification/Ziplist_Refine.thy ===== *)
theory Ziplist_Refine
  imports Ziplist_Rules Sim_Base
begin

text \<open>
  Reading a ziplist, and the ziplist as a sequence of entries: pushes at both ends and deletions
  simulate the same operations on a list, for every sequence of them; an insertion in the middle
  does so too, unless it is of an entry of less than four bytes in front of a length field that is wider than
  it has to be, where it leaves the block.
\<close>

section \<open>Reading\<close>

lemma load_imm: "0 \<le> v \<Longrightarrow> v \<le> 12 \<Longrightarrow> zipLoadInteger zl p (0xF1 + nat v) = Some v"
proof -
  assume "0 \<le> v" "v \<le> 12"
  then have "nat v \<le> 12" "int (nat v) = v" by simp_all
  moreover from this have "(0xF1 + nat v) mod 16 = 1 + nat v" by (simp add: mod_add_left_eq [symmetric, of "0xF1"])
  ultimately show ?thesis by (simp add: zipLoadInteger_def zip_consts)
qed

lemma le_sint_24:
  assumes "fits_bytes 3 v"
  shows "le_sint (map char_byte (u8 0 # tl (le_chars 4 (v * 256)))) div 256 = v"
proof -
  have "word_of_int (v * 256) = (word_of_int 0 :: byte)" unfolding word_of_int_eq_iff by (simp add: take_bit_eq_mod)
  then have "word_of_int (v * 256) = (0 :: byte)" by (simp only: word_of_int_0)
  then have "hd (le_chars 4 (v * 256)) = byte_char 0" by (simp add: le_chars_def numeral_eq_Suc)
  moreover have "byte_char 0 = u8 0" by (simp add: byte_char_def u8_def char_of_def)
  moreover have "le_chars 4 (v * 256) \<noteq> []" by (metis length_le_chars list.size(3) zero_neq_numeral)
  ultimately have "u8 0 # tl (le_chars 4 (v * 256)) = le_chars 4 (v * 256)" by (metis list.collapse)
  moreover have "fits_bytes 4 (v * 256)" using assms by (simp add: fits_bytes_def)
  ultimately show ?thesis by simp
qed

lemma load_data:
  assumes "long_range v" "p = length a"
  shows "zipLoadInteger (a @ data_of (ZInt v) @ c) p (zip_int_encoding v) = Some v"
proof (rule int_encoding_cases [of v])
  assume "0 \<le> v" "v \<le> 12" "zip_int_encoding v = 0xF1 + nat v"
  then show ?thesis using load_imm by simp
next
  assume e: "zip_int_encoding v = ZIP_INT_24B" "fits_bytes 3 v"
  then have d: "data_of (ZInt v) = tl (le_chars 4 (v * 256))" by (simp add: data_of_def int_chars_def zip_consts)
  then have "rdn (a @ data_of (ZInt v) @ c) p 3 = Some (tl (le_chars 4 (v * 256)))" using rdn_at [OF assms(2), of 3 "data_of (ZInt v)" c] by simp
  then show ?thesis using e(1) le_sint_24 [OF e(2)] by (simp add: zipLoadInteger_def zip_consts)
next
  assume e: "zip_int_encoding v = ZIP_INT_64B"
  have "fits_bytes 8 v" using assms(1) by (simp add: fits_bytes_def long_range_def)
  then show ?thesis using e get_sint_at [OF assms(2)] by (simp add: zipLoadInteger_def data_of_def int_chars_def zip_consts)
qed (use get_sint_at [OF assms(2)] in \<open>simp_all add: zipLoadInteger_def data_of_def int_chars_def zip_consts\<close>)

lemma is_str_enc: "ZIP_IS_STR (enc_of e) \<longleftrightarrow> (\<exists>x. e = ZStr x)"
proof (cases e)
  case (ZStr x)
  then show ?thesis by (simp add: enc_of_def ZIP_IS_STR_def)
qed (simp add: enc_of_def)

lemma fields_zlen [simp]: "zlen (fields n lg e) = length (data_of e)"
  by (simp add: fields_def)

text \<open>The contents of an entry, behind its header.\<close>

lemma contents_at:
  assumes "zl_wf lf (A @ (lg, e) # B)"
  obtains a c where "zl_blob lf (A @ (lg, e) # B) = a @ data_of e @ c" "length a = 10 + lay_len A + headersize (fields (last_len 0 A) lg e)"
proof -
  obtain h where h: "length h = 10" "zl_blob lf (A @ (lg, e) # B) = (h @ layout 0 A) @ entry (last_len 0 A) lg e @ layout (ent_len (lg, e)) B @ [ZIP_END]"
    using zl_blob_entry by blast
  have "zl_blob lf (A @ (lg, e) # B) = (h @ layout 0 A @ enc_prev lg (last_len 0 A) @ head_of e) @ data_of e @ layout (ent_len (lg, e)) B @ [ZIP_END]"
    by (simp add: h(2) entry_def)
  then show thesis by (rule that) (simp add: h(1) fields_def)
qed

lemma zl_wf_ent_ok: "zl_wf lf (A @ (lg, e) # B) \<Longrightarrow> ent_ok e"
  by (simp add: zl_wf_def lay_ok_append)

lemma get_rule:
  assumes wf: "zl_wf lf (A @ (lg, e) # B)"
  shows "ziplistGet (zl_blob lf (A @ (lg, e) # B)) (10 + lay_len A) = Some (Some e)"
proof -
  obtain a c where z: "zl_blob lf (A @ (lg, e) # B) = a @ data_of e @ c" "length a = 10 + lay_len A + headersize (fields (last_len 0 A) lg e)"
    using contents_at [OF wf] .
  show ?thesis
  proof (cases e)
    case (ZStr x)
    then have "rdn (a @ data_of e @ c) (length a) (length (data_of e)) = Some x" by (simp add: rdn_at data_of_def)
    then show ?thesis using entry_at(1,3) [OF wf] is_str_enc [of e] z ZStr by (auto simp: ziplistGet_def)
  next
    case (ZInt v)
    have "zipLoadInteger (a @ data_of e @ c) (length a) (zip_int_encoding v) = Some v"
      using load_data [of v "length a" a c] zl_wf_ent_ok [OF wf] ZInt by (simp add: ent_ok_def zl_ok_def)
    then show ?thesis using entry_at(1,3) [OF wf] is_str_enc [of e] z ZInt by (auto simp: ziplistGet_def enc_of_def)
  qed
qed

lemma compare_rule:
  assumes wf: "zl_wf lf (A @ (lg, e) # B)"
  shows "ziplistCompare_at (zl_blob lf (A @ (lg, e) # B)) (10 + lay_len A) x = Some (ziplistCompare e x)"
proof -
  obtain a c where z: "zl_blob lf (A @ (lg, e) # B) = a @ data_of e @ c" "length a = 10 + lay_len A + headersize (fields (last_len 0 A) lg e)"
    using contents_at [OF wf] .
  show ?thesis
  proof (cases e)
    case (ZStr y)
    then have "rdn (a @ data_of e @ c) (length a) (length (data_of e)) = Some y" by (simp add: rdn_at data_of_def)
    then show ?thesis using entry_at(1,3) [OF wf] is_str_enc [of e] z ZStr
      by (auto simp: ziplistCompare_at_def ziplistCompare_def data_of_def)
  next
    case (ZInt v)
    have "zipLoadInteger (a @ data_of e @ c) (length a) (zip_int_encoding v) = Some v"
      using load_data [of v "length a" a c] zl_wf_ent_ok [OF wf] ZInt by (simp add: ent_ok_def zl_ok_def)
    then show ?thesis using entry_at(1,3) [OF wf] is_str_enc [of e] z ZInt
      by (auto simp: ziplistCompare_at_def ziplistCompare_def enc_of_def split: option.splits)
  qed
qed


lemma next_pos:
  assumes "zl_wf lf (A @ x # B)"
  shows "zipRawEntryLength (zl_blob lf (A @ x # B)) (10 + lay_len A) = Some (ent_len x)"
    "\<exists>b. rd (zl_blob lf (A @ x # B)) (10 + lay_len A) = Some b \<and> b \<noteq> ZIP_END"
  using entry_at(2,3) [of lf A "fst x" "snd x" B] assms by simp_all

lemma index_forward_rule:
  "zl_wf lf (A @ B) \<Longrightarrow>
   index_forward (zl_blob lf (A @ B)) (10 + lay_len A) n = Some (if n < length B then Some (10 + lay_len (A @ take n B)) else None)"
proof (induction n arbitrary: A B)
  case 0
  then show ?case using zl_blob_end [of lf A] next_pos(2) [of lf A "hd B" "tl B"] by (cases B) auto
next
  case (Suc n)
  show ?case
  proof (cases B)
    case Nil
    then show ?thesis using zl_blob_end [of lf A] by simp
  next
    case (Cons x B')
    then have wf: "zl_wf lf (A @ x # B')" using Suc.prems by simp
    have "index_forward (zl_blob lf ((A @ [x]) @ B')) (10 + lay_len (A @ [x])) n = Some (if n < length B' then Some (10 + lay_len ((A @ [x]) @ take n B')) else None)"
      by (rule Suc.IH) (use wf in simp)
    then show ?thesis using next_pos [OF wf] by (auto simp: Cons ac_simps)
  qed
qed

lemma last_len_pos: "A \<noteq> [] \<Longrightarrow> 0 < last_len 0 A"
  by (cases A rule: rev_cases) simp_all

lemma index_backward_rule:
  "zl_wf lf (A @ x # B) \<Longrightarrow>
   index_backward (zl_blob lf (A @ x # B)) (10 + lay_len A) (last_len 0 A) n =
     Some (if n \<le> length A then Some (10 + lay_len (take (length A - n) A)) else None)"
proof (induction n arbitrary: A x B)
  case (Suc n)
  show ?case
  proof (cases A rule: rev_cases)
    case (snoc A' y)
    then have wf: "zl_wf lf (A' @ y # (x # B))" using Suc.prems by simp
    have "ZIP_DECODE_PREVLEN (zl_blob lf (A' @ y # (x # B))) (10 + lay_len A') = Some (psz (fst y), last_len 0 A')"
      using entry_at(4) [of lf A' "fst y" "snd y" "x # B"] wf by simp
    then show ?thesis using Suc.IH [OF wf] by (simp add: snoc Suc_diff_le)
  qed simp
qed simp

definition zl_index :: "int \<Rightarrow> nat \<Rightarrow> nat option" where
  "zl_index i n = (let j = (if i < 0 then int n + i else i) in if 0 \<le> j \<and> j < int n then Some (nat j) else None)"

lemma index_rule:
  assumes wf: "zl_wf lf es"
  shows "ziplistIndex (zl_blob lf es) i = Some (map_option (\<lambda>j. 10 + lay_len (take j es)) (zl_index i (length es)))"
proof (cases "i < 0")
  case False
  then show ?thesis using index_forward_rule [of lf "[]" es "nat i"] wf
    by (auto simp: ziplistIndex_def zl_index_def Let_def zip_consts nat_less_iff)
next
  case True
  show ?thesis
  proof (cases es rule: rev_cases)
    case Nil
    then show ?thesis using True zl_blob_header(2) [OF wf] zl_blob_end [of lf es] by (simp add: ziplistIndex_def zl_index_def)
  next
    case (snoc A x)
    have w: "zl_wf lf (A @ x # [])" using wf snoc by simp
    have "ziplistIndex (zl_blob lf es) i = Some (if nat (- i - 1) \<le> length A then Some (10 + lay_len (take (length A - nat (- i - 1)) A)) else None)"
      using True zl_blob_header(2) [OF wf] next_pos(2) [OF w] entry_at(4) [of lf A "fst x" "snd x" "[]"] w index_backward_rule [OF w]
      by (auto simp: ziplistIndex_def snoc)
    moreover have "nat (- i - 1) \<le> length A \<longleftrightarrow> 0 \<le> int (length es) + i" using True snoc by auto
    moreover have "length A - nat (- i - 1) = nat (int (length es) + i)" if "0 \<le> int (length es) + i" using True snoc that by auto
    moreover have "take (nat (int (length es) + i)) es = take (nat (int (length es) + i)) A" if "0 \<le> int (length es) + i"
      using True snoc by (simp add: take_Cons')
    ultimately show ?thesis using True by (auto simp: zl_index_def)
  qed
qed

lemma find_rule:
  "zl_wf lf (A @ B) \<Longrightarrow>
   ziplistFind_from skip cnt (zl_blob lf (A @ B)) (10 + lay_len A) x =
     Some (map_option (\<lambda>i. 10 + lay_len (A @ take i B)) (ziplistFind skip cnt (map snd B) x))"
proof (induction B arbitrary: A cnt)
  case Nil
  then show ?case using zl_blob_end [of lf A] by (simp add: ziplistFind_from.simps [of skip cnt "zl_blob lf A"])
next
  case (Cons y B)
  obtain lg e where y: "y = (lg, e)" by (cases y)
  have wf: "zl_wf lf (A @ (lg, e) # B)" using Cons.prems y by simp
  have "ziplistFind_from skip k (zl_blob lf ((A @ [y]) @ B)) (10 + lay_len (A @ [y])) x =
     Some (map_option (\<lambda>i. 10 + lay_len ((A @ [y]) @ take i B)) (ziplistFind skip k (map snd B) x))" for k
    by (rule Cons.IH) (use Cons.prems in simp)
  moreover have "ziplistFind_from skip cnt (zl_blob lf (A @ y # B)) (10 + lay_len A) x =
      (if cnt = 0 \<and> ziplistCompare e x then Some (Some (10 + lay_len A))
       else ziplistFind_from skip (if cnt = 0 then skip else cnt - 1) (zl_blob lf (A @ y # B)) (10 + lay_len A + ent_len y) x)"
    using next_pos [OF Cons.prems] compare_rule [OF wf, of x] by (subst ziplistFind_from.simps) (auto simp: y)
  ultimately show ?case by (auto simp: y option.map_comp comp_def ac_simps)
qed

lemma count_rule: "zl_wf lf (A @ B) \<Longrightarrow> count_entries (zl_blob lf (A @ B)) (10 + lay_len A) = Some (length B)"
proof (induction B arbitrary: A)
  case Nil
  then show ?case using zl_blob_end [of lf A] by (simp add: count_entries.simps [of "zl_blob lf A"])
next
  case (Cons y B)
  have "count_entries (zl_blob lf ((A @ [y]) @ B)) (10 + lay_len (A @ [y])) = Some (length B)" by (rule Cons.IH) (use Cons.prems in simp)
  then show ?case using next_pos [OF Cons.prems] by (auto simp: count_entries.simps [of "zl_blob lf (A @ y # B)"] ac_simps)
qed

lemma len_rule:
  assumes wf: "zl_wf lf es"
  obtains lf' where "ziplistLen (zl_blob lf es) = Some (length es, zl_blob lf' es)" "zl_wf lf' es"
proof (cases "lf < 65535")
  case True
  then show ?thesis using that [of lf] wf zl_blob_header(3) [OF wf] by (simp add: ziplistLen_def zl_wf_def)
next
  case False
  have c: "count_entries (zl_blob lf es) 10 = Some (length es)" using count_rule [of lf "[]" es] wf by simp
  have w: "wr (zl_blob lf es) 8 (le_chars 2 (int (length es))) = Some (zl_blob (length es) es)" unfolding zl_blob_def by (rule hdr_set(3))
  show ?thesis
    using that [of "if length es < 65535 then length es else lf"] False wf zl_blob_header(3) [OF wf] c w
    by (auto simp: ziplistLen_def zl_wf_def zip_consts)
qed


section \<open>Well-formedness is kept\<close>

text \<open>An upper bound of the size that does not depend on the width of the length fields.\<close>

definition wide :: "zlval list \<Rightarrow> nat" where
  "wide vs = sum_list (map (\<lambda>e. ent_len (True, e) + 4) vs)"

lemma wide_simps [simp]: "wide [] = 0" "wide (e # vs) = ent_len (True, e) + 4 + wide vs" "wide (vs @ ws) = wide vs + wide ws"
  by (simp_all add: wide_def)

lemma ent_len_wide: "ent_len x \<le> ent_len (True, snd x)"
  by (simp add: ent_len_def)

lemma lay_len_wide: "lay_len es + 4 * length es \<le> wide (map snd es)"
proof (induction es)
  case (Cons x es)
  then show ?case using ent_len_wide [of x] by simp
qed simp

lemma wide_entry: "ent_len (True, zl_entry x) + 4 \<le> length x + 32"
proof (cases "zipTryEncoding x")
  case None
  then show ?thesis by (simp add: zl_entry_def ent_len_def head_of_def data_of_def zipEncodeLength_def)
next
  case (Some v)
  have "zipIntSize (zip_int_encoding v) \<le> 8" by (simp add: zipIntSize_def)
  then show ?thesis using Some by (simp add: zl_entry_def ent_len_def head_of_def int_data(2) zipEncodeLength_def)
qed

lemma snd_casc [simp]: "map snd (casc r m es) = map snd es"
  by (induction es arbitrary: r m) simp_all

lemma snd_moved [simp]: "map snd (moved r B) = map snd B"
  by (simp add: moved_def split: list.splits)

lemma length_moved [simp]: "length (moved r B) = length B"
  by (metis length_map snd_moved)

lemma lay_ok_casc: "lay_ok m es \<Longrightarrow> r < 2 ^ 32 \<Longrightarrow> wide (map snd es) < 2 ^ 32 \<Longrightarrow> lay_ok r (casc r m es)"
proof (induction es arbitrary: r m)
  case (Cons x es)
  show ?case
  proof (cases "m \<noteq> r \<and> \<not> fst x \<and> 254 \<le> r")
    case True
    have "lay_ok (ent_len (True, snd x)) (casc (ent_len (True, snd x)) (ent_len x) es)"
      by (rule Cons.IH) (use Cons.prems in simp_all)
    then show ?thesis using True Cons.prems by simp
  next
    case False
    then have "casc r m (x # es) = x # es" "m = r \<or> fst x \<or> r < 254" by auto
    then show ?thesis using Cons.prems by auto
  qed
qed simp

lemma lay_ok_moved: "lay_ok m B \<Longrightarrow> r < 2 ^ 32 \<Longrightarrow> wide (map snd B) < 2 ^ 32 \<Longrightarrow> lay_ok r (moved r B)"
proof (cases B)
  case (Cons x B')
  assume a: "lay_ok m B" "r < 2 ^ 32" "wide (map snd B) < 2 ^ 32"
  have "ent_len (254 \<le> r, snd x) \<le> ent_len (True, snd x)" by (rule ent_len_wide [of "(254 \<le> r, snd x)", simplified])
  then have "lay_ok (ent_len (254 \<le> r, snd x)) (casc (ent_len (254 \<le> r, snd x)) (ent_len x) B')"
    by (intro lay_ok_casc) (use a Cons in auto)
  then show ?thesis using a Cons by (auto simp: moved_def)
qed (simp add: moved_def)

text \<open>The list of entries that a block stands for. The first length field is never wide.\<close>

definition zl_rep :: "string \<Rightarrow> zlval list \<Rightarrow> bool" where
  "zl_rep zl vs \<longleftrightarrow> (\<exists>lf es. zl = zl_blob lf es \<and> zl_wf lf es \<and> map snd es = vs \<and> (es \<noteq> [] \<longrightarrow> \<not> fst (hd es)))"

lemma zl_repE:
  assumes "zl_rep zl vs"
  obtains lf es where "zl = zl_blob lf es" "zl_wf lf es" "map snd es = vs" "es \<noteq> [] \<longrightarrow> \<not> fst (hd es)"
  using assms unfolding zl_rep_def by blast

lemma zl_wf_intro:
  assumes "lay_ok 0 es" "lf = length es \<or> lf = 65535" "lf \<le> 65535" "wide (map snd es) + 11 < 2 ^ 32"
  shows "zl_wf lf es"
  using assms lay_len_wide [of es] unfolding zl_wf_def by (cases "lf = 65535") auto

lemma new_blob: "ziplistNew = zl_blob 0 []"
  by (simp add: ziplistNew_def zl_blob_def hdr_def)

lemma zl_new_rep: "zl_rep ziplistNew []"
  unfolding zl_rep_def new_blob by (intro exI [of _ 0] exI [of _ "[]"]) (simp add: zl_wf_def)

lemma last_len_le: "last_len 0 A \<le> lay_len A"
  by (cases A rule: rev_cases) simp_all

lemma insert_rep:
  assumes es: "zl_wf lf (A @ B)" "A @ B \<noteq> [] \<longrightarrow> \<not> fst (hd (A @ B))" and room: "wide (map snd (A @ B)) + wide [zl_entry x] + 64 < 2 ^ 32"
    and x: "length x < 2 ^ 32" and safe: "B \<noteq> [] \<and> fst (hd B) \<Longrightarrow> 4 \<le> ent_len (new_entry A x)"
  obtains zl' where "ziplistInsert junk (zl_blob lf (A @ B)) (10 + lay_len A) x = Some zl'" "zl_rep zl' (map snd A @ zl_entry x # map snd B)"
proof -
  let ?y = "new_entry A x" and ?es = "A @ new_entry A x # moved (ent_len (new_entry A x)) B"
  have y: "snd ?y = zl_entry x" "ent_len ?y \<le> ent_len (True, zl_entry x)" using ent_len_wide [of ?y] by (simp_all add: new_entry_def)
  have ins: "ziplistInsert junk (zl_blob lf (A @ B)) (10 + lay_len A) x = Some (zl_blob (bump lf) ?es)"
  proof (cases B)
    case Nil
    then show ?thesis using insert_at_end [of lf A x junk] es(1) room y(2) lay_len_wide [of A] by (simp add: moved_def)
  next
    case (Cons b B')
    then show ?thesis using insert_in_middle [of lf A "fst b" "snd b" B' x junk] es(1) safe room y(2) lay_len_wide [of "A @ B"] by simp
  qed
  have ok: "lay_ok 0 A" "lay_ok (last_len 0 A) B" using es(1) by (simp_all add: zl_wf_def lay_ok_append)
  have "last_len 0 A < 2 ^ 32" using last_len_le [of A] lay_len_wide [of A] room by simp
  moreover have "ent_len ?y < 2 ^ 32" using y(2) room by simp
  moreover from this have "lay_ok (ent_len ?y) (moved (ent_len ?y) B)" by (rule lay_ok_moved [OF ok(2)]) (use room in simp)
  ultimately have "lay_ok 0 ?es" using ok(1) ent_ok_entry [OF x] y(1) by (auto simp: lay_ok_append new_entry_def)
  moreover have "bump lf = length ?es \<or> bump lf = 65535" "bump lf \<le> 65535" using es(1) by (auto simp: zl_wf_def bump_def)
  ultimately have "zl_wf (bump lf) ?es" by (rule zl_wf_intro) (use room y(1) in simp)
  moreover have "\<not> fst (hd ?es)" using es(2) by (cases A) (simp_all add: new_entry_def)
  moreover have "map snd ?es = map snd A @ zl_entry x # map snd B" by (simp add: y(1))
  ultimately have "zl_rep (zl_blob (bump lf) ?es) (map snd A @ zl_entry x # map snd B)" unfolding zl_rep_def by blast
  with ins show thesis by (rule that)
qed

lemma push_rep:
  assumes rep: "zl_rep zl vs" and room: "wide vs + length x + 96 < 2 ^ 32"
  obtains zl' where "ziplistPush junk zl x front = Some zl'" "zl_rep zl' (if front then zl_entry x # vs else vs @ [zl_entry x])"
proof -
  obtain lf es where es: "zl = zl_blob lf es" "zl_wf lf es" "map snd es = vs" "es \<noteq> [] \<longrightarrow> \<not> fst (hd es)" using rep by (rule zl_repE)
  have w: "wide (map snd es) + wide [zl_entry x] + 64 < 2 ^ 32" "length x < 2 ^ 32" using room wide_entry [of x] es(3) by simp_all
  show ?thesis
  proof (cases front)
    case True
    obtain zl' where "ziplistInsert junk (zl_blob lf ([] @ es)) (10 + lay_len []) x = Some zl'" "zl_rep zl' (map snd [] @ zl_entry x # map snd es)"
      by (rule insert_rep [of lf "[]" es x junk]) (use es w in auto)
    then show ?thesis using that True es by (simp add: ziplistPush_def zip_consts)
  next
    case False
    obtain zl' where "ziplistInsert junk (zl_blob lf (es @ [])) (10 + lay_len es) x = Some zl'" "zl_rep zl' (map snd es @ zl_entry x # map snd [])"
      by (rule insert_rep [of lf es "[]" x junk]) (use es w in auto)
    then show ?thesis using that False es zl_blob_header(1) [OF es(2)] by (simp add: ziplistPush_def ZIPLIST_ENTRY_END_def)
  qed
qed

lemma delete_num_rep:
  assumes es: "zl_wf lf (A @ D @ B)" "A @ D @ B \<noteq> [] \<longrightarrow> \<not> fst (hd (A @ D @ B))" and D: "D \<noteq> []" "num = length D \<or> B = [] \<and> length D \<le> num"
    and room: "wide (map snd (A @ D @ B)) + 64 < 2 ^ 32"
  obtains zl' where "ziplistDelete_num junk (zl_blob lf (A @ D @ B)) (10 + lay_len A) num = Some zl'" "zl_rep zl' (map snd A @ map snd B)"
proof -
  let ?es = "A @ moved (last_len 0 A) B"
  have del: "ziplistDelete_num junk (zl_blob lf (A @ D @ B)) (10 + lay_len A) num = Some (zl_blob (less_lf lf (length D)) ?es)"
  proof (cases B)
    case Nil
    then show ?thesis using delete_tail [of lf A D num junk] es(1) D by (auto simp: moved_def)
  next
    case (Cons b B')
    then show ?thesis using delete_middle [of lf A D "fst b" "snd b" B' junk] es(1) D room lay_len_wide [of "A @ B"] by simp
  qed
  have ok: "lay_ok 0 A" "lay_ok (last_len (last_len 0 A) D) B" using es(1) by (simp_all add: zl_wf_def lay_ok_append)
  have "last_len 0 A < 2 ^ 32" using last_len_le [of A] lay_len_wide [of A] room by simp
  then have "lay_ok (last_len 0 A) (moved (last_len 0 A) B)" by (rule lay_ok_moved [OF ok(2)]) (use room in simp)
  then have "lay_ok 0 ?es" using ok(1) by (simp add: lay_ok_append)
  moreover have "less_lf lf (length D) = length ?es \<or> less_lf lf (length D) = 65535" "less_lf lf (length D) \<le> 65535"
    using es(1) by (auto simp: zl_wf_def less_lf_def)
  ultimately have "zl_wf (less_lf lf (length D)) ?es" by (rule zl_wf_intro) (use room in simp)
  moreover have "?es \<noteq> [] \<longrightarrow> \<not> fst (hd ?es)" using es(2) by (cases A) (auto simp: moved_def split: list.splits)
  moreover have "map snd ?es = map snd A @ map snd B" by simp
  ultimately have "zl_rep (zl_blob (less_lf lf (length D)) ?es) (map snd A @ map snd B)" unfolding zl_rep_def by blast
  with del show thesis by (rule that)
qed


lemma delete_range_rep:
  assumes rep: "zl_rep zl vs" and room: "wide vs + 64 < 2 ^ 32"
  obtains zl' where "ziplistDeleteRange junk zl i num = Some zl'"
    "zl_rep zl' (case zl_index i (length vs) of None \<Rightarrow> vs | Some j \<Rightarrow> take j vs @ drop (j + num) vs)"
proof -
  obtain lf es where es: "zl = zl_blob lf es" "zl_wf lf es" "map snd es = vs" "es \<noteq> [] \<longrightarrow> \<not> fst (hd es)" using rep by (rule zl_repE)
  have len: "length vs = length es" using es(3) by auto
  show ?thesis
  proof (cases "zl_index i (length es)")
    case None
    then show ?thesis using that [of zl] rep index_rule [OF es(2), of i] es(1) len by (simp add: ziplistDeleteRange_def)
  next
    case (Some j)
    then have j: "j < length es" by (auto simp: zl_index_def Let_def split: if_splits)
    define A D B where "A = take j es" and "D = take num (drop j es)" and "B = drop (j + num) es"
    have split: "es = A @ D @ B" unfolding A_def D_def B_def by (metis add.commute append_take_drop_id drop_drop)
    have dr: "ziplistDeleteRange junk zl i num = ziplistDelete_num junk (zl_blob lf (A @ D @ B)) (10 + lay_len A) num"
      unfolding split [symmetric] using index_rule [OF es(2), of i] Some es(1) by (simp add: ziplistDeleteRange_def A_def)
    have vs: "take j vs @ drop (j + num) vs = map snd A @ map snd B" using es(3) by (auto simp: A_def B_def take_map drop_map)
    show ?thesis
    proof (cases "num = 0")
      case True
      obtain x B' where "es = A @ x # B'" using j id_take_nth_drop [of j es] by (auto simp: A_def)
      then have "zipEntry (zl_blob lf es) (10 + lay_len A) = Some (fields (last_len 0 A) (fst x) (snd x))"
        using entry_at(1) [of lf A "fst x" "snd x" B'] es(2) by simp
      then have "ziplistDelete_num junk (zl_blob lf es) (10 + lay_len A) num = Some zl" using True es(1) by (simp add: ziplistDelete_num_def)
      then show ?thesis using that [of zl] dr rep Some len True unfolding split [symmetric] by simp
    next
      case False
      have D: "D \<noteq> []" "num = length D \<or> B = [] \<and> length D \<le> num" using False j by (auto simp: D_def B_def min_def)
      have "zl_wf lf (A @ D @ B)" "A @ D @ B \<noteq> [] \<longrightarrow> \<not> fst (hd (A @ D @ B))" "wide (map snd (A @ D @ B)) + 64 < 2 ^ 32"
        using es(2-4) room unfolding split [symmetric] by simp_all
      from delete_num_rep [OF this(1,2) D this(3)]
      obtain zl' where "ziplistDelete_num junk (zl_blob lf (A @ D @ B)) (10 + lay_len A) num = Some zl'" "zl_rep zl' (map snd A @ map snd B)" .
      then show ?thesis using that [of zl'] dr Some len vs by simp
    qed
  qed
qed


section \<open>Sequences of operations\<close>

datatype zl_op = ZPush bool string | ZDelete int nat | ZGet int | ZMember string | ZLen

datatype zl_result = ZDone | ZVal "zlval option" | ZBool bool | ZNum nat

definition zl_step :: "(nat \<Rightarrow> char) \<Rightarrow> zl_op \<Rightarrow> string \<Rightarrow> (zl_result \<times> string) option" where
  "zl_step junk op zl =
     (case op of
        ZPush front x \<Rightarrow> do { zl1 \<leftarrow> ziplistPush junk zl x front; Some (ZDone, zl1) }
      | ZDelete i num \<Rightarrow> do { zl1 \<leftarrow> ziplistDeleteRange junk zl i num; Some (ZDone, zl1) }
      | ZGet i \<Rightarrow> do {
          p \<leftarrow> ziplistIndex zl i;
          v \<leftarrow> (case p of None \<Rightarrow> Some None | Some p \<Rightarrow> ziplistGet zl p);
          Some (ZVal v, zl)
        }
      | ZMember x \<Rightarrow> do { p \<leftarrow> ziplistFind_from 0 0 zl ZIPLIST_HEADER_SIZE x; Some (ZBool (p \<noteq> None), zl) }
      | ZLen \<Rightarrow> do { (n, zl1) \<leftarrow> ziplistLen zl; Some (ZNum n, zl1) })"

fun list_step :: "zl_op \<Rightarrow> zlval list \<Rightarrow> zl_result \<times> zlval list" where
  "list_step (ZPush front x) vs = (ZDone, if front then zl_entry x # vs else vs @ [zl_entry x])"
| "list_step (ZDelete i num) vs = (ZDone, case zl_index i (length vs) of None \<Rightarrow> vs | Some j \<Rightarrow> take j vs @ drop (j + num) vs)"
| "list_step (ZGet i) vs = (ZVal (map_option (\<lambda>j. vs ! j) (zl_index i (length vs))), vs)"
| "list_step (ZMember x) vs = (ZBool (x \<in> set (map zl_val vs)), vs)"
| "list_step ZLen vs = (ZNum (length vs), vs)"

fun zl_cost :: "zl_op \<Rightarrow> nat" where
  "zl_cost (ZPush front x) = length x + 32"
| "zl_cost _ = 0"

lemma zl_get_rep:
  assumes rep: "zl_rep zl vs"
  shows "\<exists>p. ziplistIndex zl i = Some p \<and> (case p of None \<Rightarrow> Some None | Some p \<Rightarrow> ziplistGet zl p) = Some (map_option (\<lambda>j. vs ! j) (zl_index i (length vs)))"
proof -
  obtain lf es where es: "zl = zl_blob lf es" "zl_wf lf es" "map snd es = vs" using rep unfolding zl_rep_def by blast
  have "ziplistGet zl (10 + lay_len (take j es)) = Some (Some (vs ! j))" if "j < length es" for j
  proof -
    have "es = take j es @ (fst (es ! j), snd (es ! j)) # drop (Suc j) es" using that by (simp add: id_take_nth_drop)
    then show ?thesis using get_rule [of lf "take j es" "fst (es ! j)" "snd (es ! j)" "drop (Suc j) es"] es that by auto
  qed
  moreover have "j < length es" if "zl_index i (length vs) = Some j" for j
    using that es(3) by (auto simp: zl_index_def Let_def split: if_splits)
  ultimately show ?thesis using index_rule [OF es(2), of i] es(1,3) by (cases "zl_index i (length vs)") auto
qed

lemma ziplistFind_member: "\<forall>e \<in> set vs. zl_ok e \<Longrightarrow> ziplistFind 0 0 vs x \<noteq> None \<longleftrightarrow> x \<in> set (map zl_val vs)"
  by (induction vs) (auto simp: ziplistCompare_ok)

lemma lay_ok_entries: "lay_ok n es \<Longrightarrow> e \<in> set es \<Longrightarrow> zl_ok (snd e)"
  by (induction es arbitrary: n) (auto simp: ent_ok_def)

lemma member_rep:
  assumes rep: "zl_rep zl vs"
  shows "\<exists>p. ziplistFind_from 0 0 zl ZIPLIST_HEADER_SIZE x = Some p \<and> (p \<noteq> None \<longleftrightarrow> x \<in> set (map zl_val vs))"
proof -
  obtain lf es where es: "zl = zl_blob lf es" "zl_wf lf es" "map snd es = vs" using rep unfolding zl_rep_def by blast
  have "\<forall>e \<in> set vs. zl_ok e" using es(2,3) lay_ok_entries by (auto simp: zl_wf_def)
  then show ?thesis using find_rule [of lf "[]" es 0 0 x] es ziplistFind_member [of vs x] by (auto simp: zip_consts)
qed


text \<open>The entries, read one by one.\<close>

definition zl_list :: "string \<Rightarrow> zlval list" where
  "zl_list zl = (case count_entries zl ZIPLIST_HEADER_SIZE of
       None \<Rightarrow> []
     | Some n \<Rightarrow> concat (map (\<lambda>i. case zl_step (\<lambda>_. NUL) (ZGet (int i)) zl of Some (ZVal (Some v), _) \<Rightarrow> [v] | _ \<Rightarrow> []) [0..<n]))"

lemma zl_list_rep:
  assumes rep: "zl_rep zl vs"
  shows "zl_list zl = vs"
proof -
  obtain lf es where es: "zl = zl_blob lf es" "zl_wf lf es" "map snd es = vs" using rep unfolding zl_rep_def by blast
  have n: "count_entries zl ZIPLIST_HEADER_SIZE = Some (length vs)" using count_rule [of lf "[]" es] es by (auto simp: zip_consts)
  have "zl_step (\<lambda>_. NUL) (ZGet (int i)) zl = Some (ZVal (Some (vs ! i)), zl)" if "i < length vs" for i
    using zl_get_rep [OF rep, of "int i"] that by (auto simp: zl_step_def zl_index_def)
  then have "map (\<lambda>i. case zl_step (\<lambda>_. NUL) (ZGet (int i)) zl of Some (ZVal (Some v), _) \<Rightarrow> [v] | _ \<Rightarrow> []) [0..<length vs] = map (\<lambda>i. [vs ! i]) [0..<length vs]"
    by simp
  moreover have "concat (map (\<lambda>i. [vs ! i]) [0..<length vs]) = vs" by (simp add: concat_map_singleton map_nth)
  ultimately show ?thesis unfolding zl_list_def n option.case by (simp only:)
qed

definition zl_room :: "nat \<Rightarrow> string \<Rightarrow> bool" where
  "zl_room n zl \<longleftrightarrow> zl_rep zl (zl_list zl) \<and> wide (zl_list zl) + n + 64 < 2 ^ 32"

lemma zl_room_intro: "zl_rep zl vs \<Longrightarrow> wide vs + n + 64 < 2 ^ 32 \<Longrightarrow> zl_room n zl \<and> zl_list zl = vs"
  by (simp add: zl_room_def zl_list_rep)

lemma wide_delete: "wide (take j vs @ drop (j + num) vs) \<le> wide vs"
proof -
  have "wide vs = wide (take j vs @ take num (drop j vs) @ drop num (drop j vs))" by (simp only: append_take_drop_id)
  then show ?thesis by (simp add: drop_drop add.commute)
qed

lemma zl_step_simulates:
  assumes "zl_room (zl_cost op + n) zl"
  shows "\<exists>zl'. zl_step junk op zl = Some (fst (list_step op (zl_list zl)), zl') \<and> zl_room n zl' \<and> zl_list zl' = snd (list_step op (zl_list zl))"
proof -
  have rep: "zl_rep zl (zl_list zl)" and room: "wide (zl_list zl) + zl_cost op + n + 64 < 2 ^ 32"
    using assms by (simp_all add: zl_room_def ac_simps)
  show ?thesis
  proof (cases op)
    case (ZPush front x)
    have "wide (zl_list zl) + length x + 96 < 2 ^ 32" using room ZPush by simp
    from push_rep [OF rep this] obtain zl' where zl': "ziplistPush junk zl x front = Some zl'"
      "zl_rep zl' (if front then zl_entry x # zl_list zl else zl_list zl @ [zl_entry x])" .
    then have "zl_room n zl' \<and> zl_list zl' = (if front then zl_entry x # zl_list zl else zl_list zl @ [zl_entry x])"
      by (intro zl_room_intro) (use room wide_entry [of x] ZPush in simp_all)
    then show ?thesis using zl'(1) ZPush by (simp add: zl_step_def)
  next
    case (ZDelete i num)
    let ?vs = "case zl_index i (length (zl_list zl)) of None \<Rightarrow> zl_list zl | Some j \<Rightarrow> take j (zl_list zl) @ drop (j + num) (zl_list zl)"
    have "wide (zl_list zl) + 64 < 2 ^ 32" using room by simp
    from delete_range_rep [OF rep this] obtain zl' where zl': "ziplistDeleteRange junk zl i num = Some zl'" "zl_rep zl' ?vs" .
    have "wide ?vs \<le> wide (zl_list zl)" using wide_delete [of _ "zl_list zl" num] by (simp split: option.split)
    then have "zl_room n zl' \<and> zl_list zl' = ?vs" by (intro zl_room_intro [OF zl'(2)]) (use room in simp)
    then show ?thesis using zl'(1) ZDelete by (simp add: zl_step_def)
  next
    case (ZGet i)
    then show ?thesis using zl_get_rep [OF rep, of i] assms by (auto simp: zl_step_def)
  next
    case (ZMember x)
    then show ?thesis using member_rep [OF rep, of x] assms by (auto simp: zl_step_def)
  next
    case ZLen
    obtain lf es where es: "zl = zl_blob lf es" "zl_wf lf es" "map snd es = zl_list zl" "es \<noteq> [] \<longrightarrow> \<not> fst (hd es)" using rep by (rule zl_repE)
    obtain lf' where lf': "ziplistLen zl = Some (length es, zl_blob lf' es)" "zl_wf lf' es" using len_rule [OF es(2)] es(1) by auto
    have "zl_rep (zl_blob lf' es) (zl_list zl)" using lf'(2) es(3,4) unfolding zl_rep_def by blast
    then have "zl_room n (zl_blob lf' es) \<and> zl_list (zl_blob lf' es) = zl_list zl" by (rule zl_room_intro) (use room in simp)
    moreover have "length es = length (zl_list zl)" using es(3) by (metis length_map)
    ultimately show ?thesis using lf'(1) ZLen by (simp add: zl_step_def)
  qed
qed

interpretation zl_sim: simulation "zl_step junk" list_step zl_cost zl_room zl_list for junk
  by unfold_locales (rule zl_step_simulates)

text \<open>
  C26. Starting from a new ziplist, every sequence of pushes at either end, deletions of ranges, reads by
  index, searches and length queries on its bytes runs without an access outside the block, ends
  (cascades included), and gives the results of the same sequence on a list of entries, whatever
  the memory returned by \<^verbatim>\<open>zrealloc\<close> contains, if the pushed strings fit 32 bits of length together.
\<close>

theorem ziplist_refines_list:
  assumes "sum_list (map zl_cost ops) + 64 < 2 ^ 32"
  shows "\<exists>rs zl. run_ops (zl_step junk) ops ziplistNew = Some (rs, zl) \<and>
    run_ops (\<lambda>op vs. Some (list_step op vs)) ops [] = Some (rs, zl_list zl)"
proof -
  have "zl_room (sum_list (map zl_cost ops)) ziplistNew" "zl_list ziplistNew = []"
    using zl_room_intro [OF zl_new_rep, of "sum_list (map zl_cost ops)"] assms by simp_all
  from zl_sim.run_simulates [OF this(1), of junk] this(2) show ?thesis by auto
qed

theorem ziplist_refines_list_witness:
  "\<exists>zl. run_ops (zl_step (\<lambda>_. CHR ''?'')) [ZPush False ''ab'', ZPush True ''7'', ZGet 0, ZGet (- 1), ZDelete 0 1, ZMember ''7'', ZLen] ziplistNew =
     Some ([ZDone, ZDone, ZVal (Some (ZInt 7)), ZVal (Some (ZStr ''ab'')), ZDone, ZBool False, ZNum 1], zl)"
proof -
  have "zipTryEncoding ''ab'' = None" "zipTryEncoding ''7'' = Some 7" by code_simp+
  then have e: "zl_entry ''ab'' = ZStr ''ab''" "zl_entry ''7'' = ZInt 7" by (simp_all add: zl_entry_def)
  have "zl_val (ZStr ''ab'') = ''ab''" by (simp add: zl_val_def)
  with e ziplist_refines_list [of "[ZPush False ''ab'', ZPush True ''7'', ZGet 0, ZGet (- 1), ZDelete 0 1, ZMember ''7'', ZLen]" "\<lambda>_. CHR ''?''"]
  show ?thesis by (auto simp: zl_index_def)
qed


section \<open>Insertion in the middle\<close>

lemma push_end:
  assumes "zl_wf lf A" "11 + lay_len A + ent_len (new_entry A x) < 2 ^ 32"
  shows "ziplistPush junk (zl_blob lf A) x False = Some (zl_blob (bump lf) (A @ [new_entry A x]))"
  using insert_at_end [OF assms, of junk] zl_blob_header(1) [OF assms(1)] by (simp add: ziplistPush_def ZIPLIST_ENTRY_END_def)

text \<open>
  C27. Inserting a string before the entry at an index, which may move the entries behind it and widen
  their length fields, inserts the entry into the list, if the length field of the entry behind has
  one byte or the new entry takes four bytes or more.
\<close>

theorem ziplist_insert_refines:
  assumes rep: "zl_rep zl vs" and room: "wide vs + length x + 96 < 2 ^ 32" and p: "ziplistIndex zl (int i) = Some (Some p)"
    and safe: "ZIP_DECODE_PREVLENSIZE zl p = Some 1 \<or> 4 \<le> ent_len (False, zl_entry x)"
  shows "\<exists>zl'. ziplistInsert junk zl p x = Some zl' \<and> zl_rep zl' (zl_insert i x vs)"
proof -
  obtain lf es where es: "zl = zl_blob lf es" "zl_wf lf es" "map snd es = vs" "es \<noteq> [] \<longrightarrow> \<not> fst (hd es)" using rep by (rule zl_repE)
  have i: "i < length es" "p = 10 + lay_len (take i es)" using p index_rule [OF es(2), of "int i"] es(1) by (auto simp: zl_index_def split: if_splits)
  define A B where "A = take i es" and "B = drop (Suc i) es"
  obtain lg e where split: "es = A @ (lg, e) # B" using i(1) id_take_nth_drop [of i es] by (cases "es ! i") (auto simp: A_def B_def)
  have w: "wide (map snd (A @ (lg, e) # B)) + wide [zl_entry x] + 64 < 2 ^ 32" "length x < 2 ^ 32"
    using room wide_entry [of x] es(3) by (simp_all add: split [symmetric])
  have wf: "zl_wf lf (A @ (lg, e) # B)" "A @ (lg, e) # B \<noteq> [] \<longrightarrow> \<not> fst (hd (A @ (lg, e) # B))"
    using es(2,4) by (simp_all add: split [symmetric])
  have zl: "zl = zl_blob lf (A @ (lg, e) # B)" using es(1) unfolding split [symmetric] .
  have at: "p = 10 + lay_len A" using i(2) by (simp only: A_def)
  have "4 \<le> ent_len (new_entry A x)" if "lg"
    using safe entry_at(5) [OF wf(1)] that unfolding zl at by (auto simp: new_entry_def ent_len_def)
  then obtain zl' where "ziplistInsert junk (zl_blob lf (A @ (lg, e) # B)) (10 + lay_len A) x = Some zl'"
    "zl_rep zl' (map snd A @ zl_entry x # map snd ((lg, e) # B))"
    by (rule_tac insert_rep [OF wf w]) auto
  moreover have "length A = i" using i(1) by (simp add: A_def)
  then have "zl_insert i x vs = map snd A @ zl_entry x # map snd ((lg, e) # B)" unfolding es(3) [symmetric] split by (simp add: zl_insert_def)
  ultimately show ?thesis unfolding zl at by auto
qed

theorem ziplist_insert_refines_witness:
  "\<exists>zl p zl'. ziplistPush (\<lambda>_. CHR ''?'') ziplistNew ''ab'' False = Some zl \<and> ziplistIndex zl (int 0) = Some (Some p) \<and>
     ziplistInsert (\<lambda>_. CHR ''?'') zl p ''7'' = Some zl' \<and> zl_rep zl' [ZInt 7, ZStr ''ab'']"
proof -
  have "zipTryEncoding ''ab'' = None" "zipTryEncoding ''7'' = Some 7" by code_simp+
  then have e: "zl_entry ''ab'' = ZStr ''ab''" "zl_entry ''7'' = ZInt 7" by (simp_all add: zl_entry_def)
  obtain zl where zl: "ziplistPush (\<lambda>_. CHR ''?'') ziplistNew ''ab'' False = Some zl" "zl_rep zl [ZStr ''ab'']"
    using push_rep [OF zl_new_rep, of "''ab''" "\<lambda>_. CHR ''?''" False] e by auto
  obtain lf x where x: "zl = zl_blob lf [x]" "zl_wf lf [x]" "\<not> fst x" using zl(2) by (rule zl_repE) (auto simp: map_eq_Cons_conv)
  have i: "ziplistIndex zl (int 0) = Some (Some 10)" using index_rule [OF x(2), of 0] x(1) by (simp add: zl_index_def)
  have "ZIP_DECODE_PREVLENSIZE zl 10 = Some 1" using entry_at(5) [of lf "[]" "fst x" "snd x" "[]"] x by (cases x) simp
  then show ?thesis using zl i e ziplist_insert_refines [OF zl(2) _ i, of "''7''" "\<lambda>_. CHR ''?''"]
    by (auto simp: zl_insert_def ent_len_def head_of_def data_of_def zipEncodeLength_def ZIP_IS_STR_def)
qed

lemma insert_fails:
  assumes "ZIPLIST_BYTES zl = Some c" "insert_prevlen zl p = Some pv"
    "snd (enc_parts x) + prevlen_size pv + length (zipEncodeLength (fst (enc_parts x)) (length x)) = req"
    "rd zl p = Some b" "(if b \<noteq> ZIP_END then zipPrevLenByteDiff zl p req else Some 0) = Some nd"
    "ziplistResize junk zl (nat (int c + int req + nd)) = Some z1" "rd z1 p = Some b1"
    "(if b1 \<noteq> ZIP_END then open_gap z1 c p req nd else set_tail z1 (int p)) = None"
  shows "ziplistInsert junk zl p x = None"
proof -
  obtain enc plen where e: "enc_parts x = (enc, plen)" by (cases "enc_parts x")
  then have c: "(case zipTryEncoding x of Some v \<Rightarrow> (zip_int_encoding v, zipIntSize (zip_int_encoding v)) | None \<Rightarrow> (0, length x)) = (enc, plen)"
    by (simp add: enc_parts_def)
  show ?thesis unfolding ziplistInsert_def c Let_def prod.case
    using assms unfolding e fst_conv snd_conv by (simp only: Option.bind.simps)
qed

lemma insert_overrun:
  assumes wf: "zl_wf lf (A @ (True, e) # B)" and req: "ent_len (new_entry A x) = 2"
  shows "ziplistInsert junk (zl_blob lf (A @ (True, e) # B)) (10 + lay_len A) x = None"
proof -
  let ?es = "A @ (True, e) # B" and ?p = "10 + lay_len A"
  let ?c = "11 + lay_len ?es" and ?t = "10 + lay_len (butlast ?es)"
  obtain b where b: "rd (zl_blob lf ?es) ?p = Some b" "b \<noteq> ZIP_END" using entry_at(3) [OF wf] by blast
  define z1 where "z1 = hdr (?c - 2) ?t lf @ take (?c - 13) (layout 0 ?es @ [ZIP_END]) @ [ZIP_END]"
  have lay: "6 \<le> ent_len (True, e)" by (cases e) (simp_all add: ent_len_def head_of_def zipEncodeLength_def)
  then have c: "?c - 13 = lay_len A + Suc (ent_len (True, e) + lay_len B - 3)" by simp
  have rs: "ziplistResize junk (zl_blob lf ?es) (?c - 2) = Some z1"
    unfolding zl_blob_def z1_def using resize_rule [of "?c - 2" junk ?c ?t lf "layout 0 ?es @ [ZIP_END]"] lay by simp
  have lz: "length z1 = ?c - 2" using lay by (simp add: z1_def)
  obtain k where k: "entry (last_len 0 A) True e = u8 254 # k" by (simp add: entry_def enc_prev_def zipPrevEncodeLengthForceLarge_def ZIP_BIGLEN_def)
  have "\<exists>r. z1 = (hdr (?c - 2) ?t lf @ layout 0 A) @ u8 254 # r" unfolding z1_def c by (simp add: layout_append k)
  then have b1: "rd z1 ?p = Some (u8 254)" using rd_at [of ?p "hdr (?c - 2) ?t lf @ layout 0 A"] by auto
  have ne: "u8 254 \<noteq> ZIP_END" using byte_val_u8 [of 254] by (auto simp: ZIP_END_def byte_val_def)
  have "\<not> nat (int ?p - - 4) + nat (int ?c - int ?p - 1 + - 4) \<le> length z1" unfolding lz using lay by simp
  then have "memmove z1 (?p + 2) (nat (int ?p - - 4)) (nat (int ?c - int ?p - 1 + - 4)) = None" by (simp only: memmove_def rdn_def if_False bind.simps)
  then have gap: "open_gap z1 ?c ?p 2 (- 4) = None" by (simp only: open_gap_def bind.simps if_cancel)
  show ?thesis
  proof (rule insert_fails)
    show "ZIPLIST_BYTES (zl_blob lf ?es) = Some ?c" by (rule zl_blob_header(1) [OF wf])
    show "insert_prevlen (zl_blob lf ?es) ?p = Some (last_len 0 A)" by (rule insert_prevlen_rule [OF wf])
    show "snd (enc_parts x) + prevlen_size (last_len 0 A) + length (zipEncodeLength (fst (enc_parts x)) (length x)) = 2"
      using req reqlen_rule [of x A] by simp
    show "(if b \<noteq> ZIP_END then zipPrevLenByteDiff (zl_blob lf ?es) ?p 2 else Some 0) = Some (- 4)"
      using b(2) entry_at(5) [OF wf] by (simp add: zipPrevLenByteDiff_def prevlen_size_psz)
    have "nat (int ?c + int 2 + - 4) = ?c - 2" by simp
    then show "ziplistResize junk (zl_blob lf ?es) (nat (int ?c + int 2 + - 4)) = Some z1" using rs by (simp only:)
    show "(if u8 254 \<noteq> ZIP_END then open_gap z1 ?c ?p 2 (- 4) else set_tail z1 (int ?p)) = None" using ne gap by (simp only: if_True not_False_eq_True)
  qed (rule b b1)+
qed


text \<open>
  C28. A call sequence on a block of three strings after which the second of the two remaining entries
  has a length field of five bytes where one is enough. Inserting an entry of two bytes before it then
  shrinks the block by two bytes before the entries are moved, and the move reads past its end.
\<close>

theorem ziplist_insert_overrun:
  "\<exists>zl p. do {
      z1 \<leftarrow> ziplistPush junk ziplistNew (replicate 300 CHR ''a'') False;
      z2 \<leftarrow> ziplistPush junk z1 (replicate 248 CHR ''b'') False;
      z3 \<leftarrow> ziplistPush junk z2 ''ccc'' False;
      first \<leftarrow> ziplistIndex z3 0;
      case first of None \<Rightarrow> None | Some q \<Rightarrow> ziplistDelete junk z3 q
    } = Some zl \<and> ziplistIndex zl 1 = Some (Some p) \<and> ziplistInsert junk zl p ''7'' = None"
proof -
  let ?a = "(False, ZStr (replicate 300 CHR ''a''))" and ?b = "(True, ZStr (replicate 248 CHR ''b''))" and ?c = "(True, ZStr ''ccc'')"
  let ?es = "[(False, ZStr (replicate 248 CHR ''b'')), ?c]"
  have tr: "zipTryEncoding ''ccc'' = None" "zipTryEncoding ''7'' = Some 7" by code_simp+
  have "zipTryEncoding (replicate 300 CHR ''a'') = None" "zipTryEncoding (replicate 248 CHR ''b'') = None" by (simp_all add: zipTryEncoding_def)
  note e = this tr [unfolded zl_entry_def]
  have len: "ent_len ?a = 303" "ent_len ?b = 255" "ent_len ?c = 9" "ent_len (False, snd ?b) = 251"
    by (simp_all add: ent_len_def head_of_def data_of_def zipEncodeLength_def ZIP_IS_STR_def)
  have n: "new_entry [] (replicate 300 CHR ''a'') = ?a" "new_entry [?a] (replicate 248 CHR ''b'') = ?b" "new_entry [?a, ?b] ''ccc'' = ?c"
    using e len by (simp_all add: new_entry_def zl_entry_def)
  have ok: "ent_ok (snd ?a)" "ent_ok (snd ?b)" "ent_ok (snd ?c)" using e by (simp_all add: ent_ok_def zl_ok_def)
  have wf: "zl_wf 0 []" "zl_wf 1 [?a]" "zl_wf 2 [?a, ?b]" "zl_wf 3 [?a, ?b, ?c]" "zl_wf 2 ?es" using ok len by (simp_all add: zl_wf_def lay_len_def)
  have bm: "bump 1 = 2" by (simp add: bump_def)
  have p1: "ziplistPush junk ziplistNew (replicate 300 CHR ''a'') False = Some (zl_blob 1 [?a])"
    using push_end [OF wf(1), of "replicate 300 CHR ''a''" junk] len by (simp add: n(1) new_blob bump_def lay_len_def)
  have p2: "ziplistPush junk (zl_blob 1 [?a]) (replicate 248 CHR ''b'') False = Some (zl_blob 2 [?a, ?b])"
    using push_end [OF wf(2), of "replicate 248 CHR ''b''" junk] len unfolding n(2) bm by (simp add: lay_len_def)
  have p3: "ziplistPush junk (zl_blob 2 [?a, ?b]) ''ccc'' False = Some (zl_blob 3 [?a, ?b, ?c])"
    using push_end [OF wf(3), of "''ccc''" junk] len by (simp add: n(3) bump_def lay_len_def)
  have i0: "ziplistIndex (zl_blob 3 [?a, ?b, ?c]) 0 = Some (Some 10)" using index_rule [OF wf(4), of 0] by (simp add: zl_index_def)
  have d: "ziplistDelete junk (zl_blob 3 [?a, ?b, ?c]) 10 = Some (zl_blob 2 ?es)"
    using delete_middle [of 3 "[]" "[?a]" True "snd ?b" "[?c]" junk] wf(4) len by (simp add: ziplistDelete_def moved_def less_lf_def lay_len_def)
  have i1: "ziplistIndex (zl_blob 2 ?es) 1 = Some (Some (10 + lay_len [hd ?es]))" using index_rule [OF wf(5), of 1] by (simp add: zl_index_def)
  have "ent_len (new_entry [hd ?es] ''7'') = 2" using e(4) len(4)
    by (simp add: new_entry_def zl_entry_def ent_len_def head_of_def data_of_def zip_int_encoding_def zipEncodeLength_def int_chars_def ZIP_IS_STR_def zip_consts)
  then have "ziplistInsert junk (zl_blob 2 ?es) (10 + lay_len [hd ?es]) ''7'' = None" using insert_overrun [of 2 "[hd ?es]" "snd ?c" "[]" "''7''" junk] wf(5) by simp
  then show ?thesis using p1 p2 p3 i0 d i1 by (intro exI [of _ "zl_blob 2 ?es"] exI [of _ "10 + lay_len [hd ?es]"]) simp
qed

end
