(* ===== verification/Crc64.thy ===== *)
theory Crc64
  imports Bytes
begin

unbundle bit_operations_syntax

text \<open>
  The checksum of dump files (\<^verbatim>\<open>redis-2.8.17/src/crc64.c\<close>): a CRC of 64 bits computed bytewise with a
  table. It is shown to be the division by the Jones polynomial that the file documents, done bit
  by bit, and to tell apart any two messages that differ within eight consecutive bytes.
\<close>

section \<open>The table and the loop\<close>

definition crc64_tab :: "64 word list" where
  "crc64_tab =
    [0x0000000000000000, 0x7ad870c830358979, 0xf5b0e190606b12f2, 0x8f689158505e9b8b,
     0xc038e5739841b68f, 0xbae095bba8743ff6, 0x358804e3f82aa47d, 0x4f50742bc81f2d04,
     0xab28ecb46814fe75, 0xd1f09c7c5821770c, 0x5e980d24087fec87, 0x24407dec384a65fe,
     0x6b1009c7f05548fa, 0x11c8790fc060c183, 0x9ea0e857903e5a08, 0xe478989fa00bd371,
     0x7d08ff3b88be6f81, 0x07d08ff3b88be6f8, 0x88b81eabe8d57d73, 0xf2606e63d8e0f40a,
     0xbd301a4810ffd90e, 0xc7e86a8020ca5077, 0x4880fbd87094cbfc, 0x32588b1040a14285,
     0xd620138fe0aa91f4, 0xacf86347d09f188d, 0x2390f21f80c18306, 0x594882d7b0f40a7f,
     0x1618f6fc78eb277b, 0x6cc0863448deae02, 0xe3a8176c18803589, 0x997067a428b5bcf0,
     0xfa11fe77117cdf02, 0x80c98ebf2149567b, 0x0fa11fe77117cdf0, 0x75796f2f41224489,
     0x3a291b04893d698d, 0x40f16bccb908e0f4, 0xcf99fa94e9567b7f, 0xb5418a5cd963f206,
     0x513912c379682177, 0x2be1620b495da80e, 0xa489f35319033385, 0xde51839b2936bafc,
     0x9101f7b0e12997f8, 0xebd98778d11c1e81, 0x64b116208142850a, 0x1e6966e8b1770c73,
     0x8719014c99c2b083, 0xfdc17184a9f739fa, 0x72a9e0dcf9a9a271, 0x08719014c99c2b08,
     0x4721e43f0183060c, 0x3df994f731b68f75, 0xb29105af61e814fe, 0xc849756751dd9d87,
     0x2c31edf8f1d64ef6, 0x56e99d30c1e3c78f, 0xd9810c6891bd5c04, 0xa3597ca0a188d57d,
     0xec09088b6997f879, 0x96d1784359a27100, 0x19b9e91b09fcea8b, 0x636199d339c963f2,
     0xdf7adabd7a6e2d6f, 0xa5a2aa754a5ba416, 0x2aca3b2d1a053f9d, 0x50124be52a30b6e4,
     0x1f423fcee22f9be0, 0x659a4f06d21a1299, 0xeaf2de5e82448912, 0x902aae96b271006b,
     0x74523609127ad31a, 0x0e8a46c1224f5a63, 0x81e2d7997211c1e8, 0xfb3aa75142244891,
     0xb46ad37a8a3b6595, 0xceb2a3b2ba0eecec, 0x41da32eaea507767, 0x3b024222da65fe1e,
     0xa2722586f2d042ee, 0xd8aa554ec2e5cb97, 0x57c2c41692bb501c, 0x2d1ab4dea28ed965,
     0x624ac0f56a91f461, 0x1892b03d5aa47d18, 0x97fa21650afae693, 0xed2251ad3acf6fea,
     0x095ac9329ac4bc9b, 0x7382b9faaaf135e2, 0xfcea28a2faafae69, 0x8632586aca9a2710,
     0xc9622c4102850a14, 0xb3ba5c8932b0836d, 0x3cd2cdd162ee18e6, 0x460abd1952db919f,
     0x256b24ca6b12f26d, 0x5fb354025b277b14, 0xd0dbc55a0b79e09f, 0xaa03b5923b4c69e6,
     0xe553c1b9f35344e2, 0x9f8bb171c366cd9b, 0x10e3202993385610, 0x6a3b50e1a30ddf69,
     0x8e43c87e03060c18, 0xf49bb8b633338561, 0x7bf329ee636d1eea, 0x012b592653589793,
     0x4e7b2d0d9b47ba97, 0x34a35dc5ab7233ee, 0xbbcbcc9dfb2ca865, 0xc113bc55cb19211c,
     0x5863dbf1e3ac9dec, 0x22bbab39d3991495, 0xadd33a6183c78f1e, 0xd70b4aa9b3f20667,
     0x985b3e827bed2b63, 0xe2834e4a4bd8a21a, 0x6debdf121b863991, 0x1733afda2bb3b0e8,
     0xf34b37458bb86399, 0x8993478dbb8deae0, 0x06fbd6d5ebd3716b, 0x7c23a61ddbe6f812,
     0x3373d23613f9d516, 0x49aba2fe23cc5c6f, 0xc6c333a67392c7e4, 0xbc1b436e43a74e9d,
     0x95ac9329ac4bc9b5, 0xef74e3e19c7e40cc, 0x601c72b9cc20db47, 0x1ac40271fc15523e,
     0x5594765a340a7f3a, 0x2f4c0692043ff643, 0xa02497ca54616dc8, 0xdafce7026454e4b1,
     0x3e847f9dc45f37c0, 0x445c0f55f46abeb9, 0xcb349e0da4342532, 0xb1eceec59401ac4b,
     0xfebc9aee5c1e814f, 0x8464ea266c2b0836, 0x0b0c7b7e3c7593bd, 0x71d40bb60c401ac4,
     0xe8a46c1224f5a634, 0x927c1cda14c02f4d, 0x1d148d82449eb4c6, 0x67ccfd4a74ab3dbf,
     0x289c8961bcb410bb, 0x5244f9a98c8199c2, 0xdd2c68f1dcdf0249, 0xa7f41839ecea8b30,
     0x438c80a64ce15841, 0x3954f06e7cd4d138, 0xb63c61362c8a4ab3, 0xcce411fe1cbfc3ca,
     0x83b465d5d4a0eece, 0xf96c151de49567b7, 0x76048445b4cbfc3c, 0x0cdcf48d84fe7545,
     0x6fbd6d5ebd3716b7, 0x15651d968d029fce, 0x9a0d8ccedd5c0445, 0xe0d5fc06ed698d3c,
     0xaf85882d2576a038, 0xd55df8e515432941, 0x5a3569bd451db2ca, 0x20ed197575283bb3,
     0xc49581ead523e8c2, 0xbe4df122e51661bb, 0x3125607ab548fa30, 0x4bfd10b2857d7349,
     0x04ad64994d625e4d, 0x7e7514517d57d734, 0xf11d85092d094cbf, 0x8bc5f5c11d3cc5c6,
     0x12b5926535897936, 0x686de2ad05bcf04f, 0xe70573f555e26bc4, 0x9ddd033d65d7e2bd,
     0xd28d7716adc8cfb9, 0xa85507de9dfd46c0, 0x273d9686cda3dd4b, 0x5de5e64efd965432,
     0xb99d7ed15d9d8743, 0xc3450e196da80e3a, 0x4c2d9f413df695b1, 0x36f5ef890dc31cc8,
     0x79a59ba2c5dc31cc, 0x037deb6af5e9b8b5, 0x8c157a32a5b7233e, 0xf6cd0afa9582aa47,
     0x4ad64994d625e4da, 0x300e395ce6106da3, 0xbf66a804b64ef628, 0xc5bed8cc867b7f51,
     0x8aeeace74e645255, 0xf036dc2f7e51db2c, 0x7f5e4d772e0f40a7, 0x05863dbf1e3ac9de,
     0xe1fea520be311aaf, 0x9b26d5e88e0493d6, 0x144e44b0de5a085d, 0x6e963478ee6f8124,
     0x21c640532670ac20, 0x5b1e309b16452559, 0xd476a1c3461bbed2, 0xaeaed10b762e37ab,
     0x37deb6af5e9b8b5b, 0x4d06c6676eae0222, 0xc26e573f3ef099a9, 0xb8b627f70ec510d0,
     0xf7e653dcc6da3dd4, 0x8d3e2314f6efb4ad, 0x0256b24ca6b12f26, 0x788ec2849684a65f,
     0x9cf65a1b368f752e, 0xe62e2ad306bafc57, 0x6946bb8b56e467dc, 0x139ecb4366d1eea5,
     0x5ccebf68aecec3a1, 0x2616cfa09efb4ad8, 0xa97e5ef8cea5d153, 0xd3a62e30fe90582a,
     0xb0c7b7e3c7593bd8, 0xca1fc72bf76cb2a1, 0x45775673a732292a, 0x3faf26bb9707a053,
     0x70ff52905f188d57, 0x0a2722586f2d042e, 0x854fb3003f739fa5, 0xff97c3c80f4616dc,
     0x1bef5b57af4dc5ad, 0x61372b9f9f784cd4, 0xee5fbac7cf26d75f, 0x9487ca0fff135e26,
     0xdbd7be24370c7322, 0xa10fceec0739fa5b, 0x2e675fb4576761d0, 0x54bf2f7c6752e8a9,
     0xcdcf48d84fe75459, 0xb71738107fd2dd20, 0x387fa9482f8c46ab, 0x42a7d9801fb9cfd2,
     0x0df7adabd7a6e2d6, 0x772fdd63e7936baf, 0xf8474c3bb7cdf024, 0x829f3cf387f8795d,
     0x66e7a46c27f3aa2c, 0x1c3fd4a417c62355, 0x935745fc4798b8de, 0xe98f353477ad31a7,
     0xa6df411fbfb21ca3, 0xdc0731d78f8795da, 0x536fa08fdfd90e51, 0x29b7d047efec8728]"

definition crc64_step :: "64 word \<Rightarrow> char \<Rightarrow> 64 word" where
  "crc64_step crc c = (crc64_tab ! (unat (crc AND 0xFF) XOR byte_val c)) XOR drop_bit 8 crc"

definition crc64 :: "64 word \<Rightarrow> string \<Rightarrow> 64 word" where
  "crc64 crc s = foldl crc64_step crc s"


section \<open>The polynomial\<close>

text \<open>
  The polynomial \<^verbatim>\<open>0xad93d23594c935a9\<close> with its bits in reverse order, as the bits of a message are
  taken from the lowest. One bit is taken into the remainder by \<open>crc_bit\<close>.
\<close>

definition jones :: "64 word" where "jones = 0x95AC9329AC4BC9B5"

definition crc_bit :: "64 word \<Rightarrow> 64 word" where
  "crc_bit x = drop_bit 1 x XOR (if bit x 0 then jones else 0)"

definition crc_bits :: "nat \<Rightarrow> 64 word \<Rightarrow> 64 word" where
  "crc_bits n = crc_bit ^^ n"

lemma crc_bit_xor: "crc_bit (x XOR y) = crc_bit x XOR crc_bit y"
  by (auto simp: crc_bit_def drop_bit_xor bit_xor_iff ac_simps)

lemma crc_bits_xor: "crc_bits n (x XOR y) = crc_bits n x XOR crc_bits n y"
  by (induction n) (simp_all add: crc_bits_def crc_bit_xor)

lemma crc_bits_0 [simp]: "crc_bits n 0 = 0"
  by (induction n) (simp_all add: crc_bits_def crc_bit_def)

lemma crc_bits_add: "crc_bits (m + n) x = crc_bits m (crc_bits n x)"
  by (simp add: crc_bits_def funpow_add)

text \<open>The table is closed under exclusive or, so that its first powers of two determine it.\<close>

lemma crc_table_double:
  assumes "k < 64"
  shows "map (\<lambda>i. crc_bits 8 (of_nat i)) [0..<2 ^ Suc k] =
    map (\<lambda>i. crc_bits 8 (of_nat i)) [0..<2 ^ k] @ map (\<lambda>i. crc_bits 8 (of_nat i) XOR crc_bits 8 (2 ^ k)) [0..<2 ^ k]"
proof -
  have x: "(of_nat (2 ^ k + i) :: 64 word) = of_nat i XOR 2 ^ k" if "i < 2 ^ k" for i
  proof -
    have "(of_nat i :: 64 word) AND 2 ^ k = 0"
    proof (rule bit_word_eqI)
      fix n :: nat
      have "\<not> bit i k" using bit_take_bit_iff [of k i k] take_bit_nat_eq_self [OF that] by simp
      then show "bit ((of_nat i :: 64 word) AND 2 ^ k) n \<longleftrightarrow> bit (0 :: 64 word) n" by (auto simp: bit_and_iff bit_exp_iff bit_of_nat_iff_bit bit_simps)
    qed
    then show ?thesis by (simp add: disjunctive_xor_eq_or disjunctive_add_eq_or add.commute)
  qed
  have "[0..<2 ^ Suc k] = [0..<2 ^ k] @ map (\<lambda>i. 2 ^ k + i) [0..<2 ^ k]"
    using upt_add_eq_append [of 0 "2 ^ k" "2 ^ k"] map_add_upt [of "2 ^ k" "2 ^ k"] by (simp add: mult_2 add.commute)
  then show ?thesis by (auto simp: x crc_bits_xor simp flip: of_nat_add)
qed

lemma crc_bits_8: "crc_bits 8 x = crc_bit (crc_bit (crc_bit (crc_bit (crc_bit (crc_bit (crc_bit (crc_bit x)))))))"
  by (simp add: crc_bits_def eval_nat_numeral)

lemma crc_basis:
  "crc_bits 8 1 = 0x7ad870c830358979"
  "crc_bits 8 2 = 0xf5b0e190606b12f2"
  "crc_bits 8 4 = 0xc038e5739841b68f"
  "crc_bits 8 8 = 0xab28ecb46814fe75"
  "crc_bits 8 16 = 0x7d08ff3b88be6f81"
  "crc_bits 8 32 = 0xfa11fe77117cdf02"
  "crc_bits 8 64 = 0xdf7adabd7a6e2d6f"
  "crc_bits 8 128 = 0x95ac9329ac4bc9b5"
  by (simp_all add: crc_bits_8 crc_bit_def jones_def)

primrec doubled :: "64 word list \<Rightarrow> 64 word list \<Rightarrow> 64 word list" where
  "doubled [] T = T"
| "doubled (b # bs) T = doubled bs (T @ map (\<lambda>x. x XOR b) T)"

lemma doubled_table:
  "k + n \<le> 64 \<Longrightarrow> doubled (map (\<lambda>j. crc_bits 8 (2 ^ j)) [k..<k + n]) (map (\<lambda>i. crc_bits 8 (of_nat i)) [0..<2 ^ k]) =
    map (\<lambda>i. crc_bits 8 (of_nat i)) [0..<2 ^ (k + n)]"
proof (induction n arbitrary: k)
  case (Suc n)
  have "[k..<k + Suc n] = k # [Suc k..<Suc k + n]" by (simp add: upt_conv_Cons)
  moreover have "k < 64" using Suc.prems by simp
  ultimately show ?case using Suc.IH [of "Suc k"] Suc.prems crc_table_double [of k] by (simp add: comp_def del: power_Suc upt_Suc)
qed simp

lemma table_ok: "crc64_tab = map (\<lambda>i. crc_bits 8 (of_nat i)) [0..<256]"
proof -
  have "map (\<lambda>j. crc_bits 8 (2 ^ j)) [0..<8] =
    [0x7ad870c830358979, 0xf5b0e190606b12f2, 0xc038e5739841b68f, 0xab28ecb46814fe75,
     0x7d08ff3b88be6f81, 0xfa11fe77117cdf02, 0xdf7adabd7a6e2d6f, 0x95ac9329ac4bc9b5]"
    using crc_basis by (simp add: upt_rec)
  then have "doubled [0x7ad870c830358979, 0xf5b0e190606b12f2, 0xc038e5739841b68f, 0xab28ecb46814fe75,
     0x7d08ff3b88be6f81, 0xfa11fe77117cdf02, 0xdf7adabd7a6e2d6f, 0x95ac9329ac4bc9b5] [0] = map (\<lambda>i. crc_bits 8 (of_nat i)) [0..<256]"
    using doubled_table [of 0 8] by simp
  then show ?thesis by (simp add: crc64_tab_def)
qed


section \<open>Division bit by bit\<close>

primrec crc_ref :: "64 word \<Rightarrow> bool list \<Rightarrow> 64 word" where
  "crc_ref c [] = c"
| "crc_ref c (b # bs) = crc_ref (crc_bit (c XOR of_bool b)) bs"

definition bits_of :: "string \<Rightarrow> bool list" where
  "bits_of s = concat (map (\<lambda>c. map (bit (byte_val c)) [0..<8]) s)"

definition word_of :: "bool list \<Rightarrow> 64 word" where
  "word_of bs = horner_sum of_bool 2 bs"

lemma word_of_simps: "word_of [] = 0" "word_of (b # bs) = of_bool b + 2 * word_of bs"
  by (simp_all add: word_of_def)

lemma bit_word_of: "bit (word_of bs) n \<longleftrightarrow> n < 64 \<and> n < length bs \<and> bs ! n"
  by (auto simp: word_of_def bit_horner_sum_bit_iff bit_simps possible_bit_word)

lemma crc_bit_shift:
  assumes "length bs < 64"
  shows "word_of (b # bs) = of_bool b XOR word_of (False # bs)" "crc_bit (word_of (False # bs)) = word_of bs"
proof -
  show "word_of (b # bs) = of_bool b XOR word_of (False # bs)"
    by (rule bit_word_eqI) (auto simp: bit_word_of bit_simps nth_Cons split: nat.splits)
  show "crc_bit (word_of (False # bs)) = word_of bs"
    using assms by (auto intro!: bit_word_eqI simp: crc_bit_def bit_word_of bit_simps)
qed

lemma crc_ref_word:
  "length bs \<le> 64 \<Longrightarrow> crc_ref c bs = crc_bits (length bs) (c XOR word_of bs)"
proof (induction bs arbitrary: c)
  case (Cons b bs)
  then have n: "length bs < 64" by simp
  have "crc_bit (c XOR word_of (b # bs)) = crc_bit (c XOR of_bool b) XOR word_of bs"
    by (subst crc_bit_shift(1) [OF n]) (simp only: crc_bit_shift(2) [OF n] crc_bit_xor xor.assoc)
  then show ?case using Cons by (simp add: crc_bits_def funpow_swap1)
qed (simp add: crc_bits_def word_of_simps)

lemma crc_ref_append: "crc_ref c (as @ bs) = crc_ref (crc_ref c as) bs"
  by (induction as arbitrary: c) simp_all

lemma word_of_byte: "word_of (map (bit (byte_val ch)) [0..<8]) = of_nat (byte_val ch)"
proof (rule bit_word_eqI)
  fix n assume "n < LENGTH(64)"
  moreover have "\<not> bit (byte_val ch) n" if "8 \<le> n"
    using that bit_take_bit_iff [of 8 "byte_val ch" n] take_bit_nat_eq_self [of "byte_val ch" 8] byte_val_less [of ch] by simp
  ultimately show "bit (word_of (map (bit (byte_val ch)) [0..<8])) n \<longleftrightarrow> bit (of_nat (byte_val ch) :: 64 word) n"
    by (cases "n < 8") (simp_all add: bit_word_of bit_of_nat_iff_bit bit_simps)
qed

lemma crc_bits_high: "n \<le> 8 \<Longrightarrow> crc_bits n (push_bit n (drop_bit 8 c)) = drop_bit 8 c"
proof (induction n)
  case (Suc n)
  have b: "\<not> bit c k" if "64 \<le> k" for k using that bit_imp_le_length [of c k] by auto
  have "crc_bit (push_bit m (drop_bit 8 c)) = push_bit (m - 1) (drop_bit 8 c)" if "0 < m" "m \<le> 8" for m
  proof (rule bit_word_eqI)
    fix k :: nat
    have "k < 63 \<or> \<not> bit c (9 + k - m)" using b [of "9 + k - m"] that by linarith
    then show "bit (crc_bit (push_bit m (drop_bit 8 c))) k \<longleftrightarrow> bit (push_bit (m - 1) (drop_bit 8 c)) k"
      using that by (auto simp: crc_bit_def bit_simps)
  qed
  from this [of "Suc n"] show ?case using Suc by (simp add: crc_bits_def funpow_swap1 del: push_bit_Suc)
qed (simp add: crc_bits_def)

lemma nat_xor_less: "a < 256 \<Longrightarrow> b < 256 \<Longrightarrow> (a XOR b :: nat) < 256"
  using take_bit_xor [of 8 a b] take_bit_nat_eq_self [of a 8] take_bit_nat_eq_self [of b 8] take_bit_nat_less_exp [of 8 "a XOR b"] by simp

lemma crc64_step_bits: "crc64_step c ch = crc_bits 8 (c XOR of_nat (byte_val ch))"
proof -
  let ?l = "unat (c AND 0xFF)"
  have l: "?l < 256" using word_and_le1 [of c "0xFF"] by (simp add: word_le_nat_alt)
  have "crc64_tab ! (?l XOR byte_val ch) = crc_bits 8 (of_nat (?l XOR byte_val ch))"
    using nat_xor_less [OF l byte_val_less] by (simp add: table_ok)
  also have "of_nat (?l XOR byte_val ch) = (c AND 0xFF) XOR of_nat (byte_val ch)" by (simp add: of_nat_xor_eq)
  finally have "crc64_step c ch = crc_bits 8 ((c AND 0xFF) XOR of_nat (byte_val ch)) XOR crc_bits 8 (push_bit 8 (drop_bit 8 c))"
    by (simp add: crc64_step_def crc_bits_high)
  also have "\<dots> = crc_bits 8 (((c AND 0xFF) XOR push_bit 8 (drop_bit 8 c)) XOR of_nat (byte_val ch))"
    by (simp add: crc_bits_xor ac_simps)
  also have "(c AND 0xFF) XOR push_bit 8 (drop_bit 8 c) = c"
  proof (rule bit_word_eqI)
    fix n assume "n < LENGTH(64)"
    moreover have "bit (0xFF :: 64 word) n \<longleftrightarrow> n < 8" using bit_mask_iff [of 8 n, where ?'a = "64 word"] by (auto simp: mask_eq_exp_minus_1)
    ultimately show "bit ((c AND 0xFF) XOR push_bit 8 (drop_bit 8 c)) n \<longleftrightarrow> bit c n" by (auto simp: bit_simps)
  qed
  finally show ?thesis .
qed

lemma length_bits_of [simp]: "length (bits_of s) = 8 * length s"
  by (induction s) (simp_all add: bits_of_def)

lemma crc64_ref: "crc64 c s = crc_ref c (bits_of s)"
proof (induction s arbitrary: c)
  case (Cons ch s)
  have "crc64_step c ch = crc_ref c (map (bit (byte_val ch)) [0..<8])"
    by (simp only: crc64_step_bits crc_ref_word length_map length_upt word_of_byte) simp
  then show ?case using Cons by (simp add: crc64_def bits_of_def crc_ref_append del: upt_rec_numeral)
qed (simp add: crc64_def bits_of_def)


section \<open>Errors that are detected\<close>

lemma crc_bit_zero: "crc_bit z = 0 \<Longrightarrow> z = 0"
proof -
  assume z: "crc_bit z = 0"
  have "bit (crc_bit z) 63 \<longleftrightarrow> bit z 0" using bit_imp_le_length [of z 64] by (auto simp: crc_bit_def jones_def bit_simps)
  then have b: "\<not> bit z 0" using z by simp
  then have "drop_bit 1 z = 0" using z by (simp add: crc_bit_def)
  then have "\<not> bit z (Suc n)" for n using bit_drop_bit_eq [of 1 z] by (metis bit_0_eq bot_apply bot_bool_def plus_1_eq_Suc comp_apply)
  then show ?thesis using b by (intro bit_word_eqI) (metis bit_0_eq bot_apply bot_bool_def not0_implies_Suc)
qed

lemma xor_inject: "(x XOR y :: 64 word) = 0 \<longleftrightarrow> x = y"
  by (auto simp: bit_eq_iff bit_simps)

lemma xor_cancel: "(x XOR z) XOR (y XOR z) = (x XOR y :: 64 word)"
  by (rule bit_word_eqI) (auto simp: bit_simps)

lemma crc_bits_inject: "crc_bits n x = crc_bits n y \<longleftrightarrow> x = y"
proof -
  have "crc_bits n z = 0 \<Longrightarrow> z = 0" for z by (induction n) (auto simp: crc_bits_def dest: crc_bit_zero)
  moreover have "crc_bits n x = crc_bits n y \<Longrightarrow> crc_bits n (x XOR y) = 0" by (simp add: crc_bits_xor)
  ultimately show ?thesis using xor_inject [of x y] by blast
qed

lemma crc64_inject: "crc64 c s = crc64 d s \<longleftrightarrow> c = d"
proof (induction s arbitrary: c d)
  case (Cons ch s)
  have "crc64_step c ch = crc64_step d ch \<longleftrightarrow> c = d"
    using xor_inject [of "c XOR of_nat (byte_val ch)" "d XOR of_nat (byte_val ch)"] xor_inject [of c d]
    by (auto simp: crc64_step_bits crc_bits_inject xor_cancel)
  then show ?case using Cons by (simp add: crc64_def)
qed (simp add: crc64_def)

lemma crc64_append: "crc64 c (s @ t) = crc64 (crc64 c s) t"
  by (simp add: crc64_def)

lemma bits_of_inject: "length x = length y \<Longrightarrow> bits_of x = bits_of y \<Longrightarrow> x = y"
proof (induction x y rule: list_induct2)
  case (Cons a x b y)
  have "map (bit (byte_val a)) [0..<8] = map (bit (byte_val b)) [0..<8]" "bits_of x = bits_of y"
    using Cons.prems by (simp_all add: bits_of_def del: upt_rec_numeral)
  then have "(of_nat (byte_val a) :: 64 word) = of_nat (byte_val b)" "x = y" using word_of_byte Cons.IH by metis+
  moreover have "byte_val a = byte_val b" using \<open>(of_nat (byte_val a) :: 64 word) = of_nat (byte_val b)\<close> byte_val_less [of a] byte_val_less [of b]
    by (simp add: word_of_nat_eq_iff take_bit_nat_eq_self)
  ultimately show ?case by simp
qed simp

lemma word_of_inject: "length as = length bs \<Longrightarrow> length bs \<le> 64 \<Longrightarrow> word_of as = word_of bs \<Longrightarrow> as = bs"
  by (rule nth_equalityI) (use bit_word_of in \<open>metis order_less_le_trans\<close>)+


text \<open>The check value given in the source: the checksum of \<^verbatim>\<open>123456789\<close> from the initial value 0.\<close>

lemma crc64_check: "crc64 0 ''123456789'' = 0xE9C6D914C4B8D9CA"
  by (simp add: crc64_def crc64_step_bits byte_val_def crc_bits_8 crc_bit_def jones_def)

text \<open>
  C23. The table-driven loop computes, for every initial value and every message, the remainder of the
  division by the Jones polynomial done one bit at a time.
\<close>

theorem crc64_polynomial: "crc64 c s = crc_ref c (bits_of s)"
  by (rule crc64_ref)

text \<open>
  C24. Two messages of the same length that differ only within eight consecutive bytes have
  different checksums, so that no such corruption of a dump goes unnoticed.
\<close>

theorem crc64_detects_burst:
  assumes "length x = length y" "length x \<le> 8" "x \<noteq> y"
  shows "crc64 c (a @ x @ b) \<noteq> crc64 c (a @ y @ b)"
proof
  assume "crc64 c (a @ x @ b) = crc64 c (a @ y @ b)"
  then have "crc64 (crc64 c a) x = crc64 (crc64 c a) y" by (simp add: crc64_append crc64_inject)
  then have "(crc64 c a XOR word_of (bits_of x)) XOR (crc64 c a XOR word_of (bits_of y)) = 0"
    using assms by (simp add: crc64_ref crc_ref_word crc_bits_inject)
  then have "word_of (bits_of x) = word_of (bits_of y)" by (simp add: xor_inject xor_cancel xor.commute [of "crc64 c a"])
  then have "bits_of x = bits_of y" using word_of_inject [of "bits_of x" "bits_of y"] assms by simp
  then show False using bits_of_inject assms by blast
qed

theorem crc64_detects_burst_witness: "crc64 0 (''REDIS'' @ ''0006'' @ ''x'') \<noteq> crc64 0 (''REDIS'' @ ''0005'' @ ''x'')"
  by (rule crc64_detects_burst) simp_all

end
