(* ===== verification/Rio.thy ===== *)
theory Rio
  imports Crc64
begin

text \<open>
  Streams (\<^verbatim>\<open>redis-2.8.17/src/rio.h\<close>, \<^verbatim>\<open>rio.c\<close>): reading and writing in chunks with a running checksum, on a
  file or on a buffer. A file is the bytes it holds, a position for reading and the number of bytes
  that can still be written before a write fails; a buffer grows without limit. \<open>None\<close> is the
  result 0, an error of the stream.
\<close>

datatype rio_target = BufferIO | FileIO

record rio =
  target :: rio_target
  rdata :: string
  rpos :: nat
  rroom :: nat
  update_cksum :: bool
  cksum :: "64 word"
  processed_bytes :: nat
  max_processing_chunk :: nat

definition rioInitWithFile :: "string \<Rightarrow> nat \<Rightarrow> rio" where
  "rioInitWithFile x space = \<lparr>target = FileIO, rdata = x, rpos = 0, rroom = space, update_cksum = False, cksum = 0,
     processed_bytes = 0, max_processing_chunk = 0\<rparr>"

definition rioInitWithBuffer :: "string \<Rightarrow> rio" where
  "rioInitWithBuffer x = \<lparr>target = BufferIO, rdata = x, rpos = 0, rroom = 0, update_cksum = False, cksum = 0,
     processed_bytes = 0, max_processing_chunk = 0\<rparr>"

definition rioBufferWrite :: "string \<Rightarrow> rio \<Rightarrow> rio option" where
  "rioBufferWrite x r = Some (r\<lparr>rdata := rdata r @ x, rpos := rpos r + length x\<rparr>)"

definition rioFileWrite :: "string \<Rightarrow> rio \<Rightarrow> rio option" where
  "rioFileWrite x r = (if rroom r < length x then None else Some (r\<lparr>rdata := rdata r @ x, rroom := rroom r - length x\<rparr>))"

definition rio_write :: "string \<Rightarrow> rio \<Rightarrow> rio option" where
  "rio_write x r = (case target r of BufferIO \<Rightarrow> rioBufferWrite x r | FileIO \<Rightarrow> rioFileWrite x r)"

text \<open>Both targets read alike: all the bytes asked for, or none.\<close>

definition rioBufferRead :: "nat \<Rightarrow> rio \<Rightarrow> (string \<times> rio) option" where
  "rioBufferRead n r = (if length (rdata r) - rpos r < n then None
     else Some (take n (drop (rpos r) (rdata r)), r\<lparr>rpos := rpos r + n\<rparr>))"

definition rioGenericUpdateChecksum :: "string \<Rightarrow> rio \<Rightarrow> rio" where
  "rioGenericUpdateChecksum x r = r\<lparr>cksum := crc64 (cksum r) x\<rparr>"

definition rio_update :: "string \<Rightarrow> rio \<Rightarrow> rio" where
  "rio_update x r = (if update_cksum r then rioGenericUpdateChecksum x r else r)"

definition rio_chunk :: "rio \<Rightarrow> nat \<Rightarrow> nat" where
  "rio_chunk r n = (if max_processing_chunk r \<noteq> 0 \<and> max_processing_chunk r < n then max_processing_chunk r else n)"

lemma rio_chunk_le: "rio_chunk r n \<le> n" "0 < n \<Longrightarrow> 0 < rio_chunk r n"
  by (simp_all add: rio_chunk_def)

function rioWrite :: "string \<Rightarrow> rio \<Rightarrow> rio option" where
  "rioWrite buf r =
     (if buf = [] then Some r
      else (case rio_write (take (rio_chunk r (length buf)) buf) (rio_update (take (rio_chunk r (length buf)) buf) r) of
         None \<Rightarrow> None
       | Some r1 \<Rightarrow> rioWrite (drop (rio_chunk r (length buf)) buf)
           (r1\<lparr>processed_bytes := processed_bytes r1 + rio_chunk r (length buf)\<rparr>)))"
  by pat_completeness auto
termination
  by (relation "measure (\<lambda>(buf, r). length buf)") (auto simp: rio_chunk_le)

function rioRead :: "nat \<Rightarrow> rio \<Rightarrow> (string \<times> rio) option" where
  "rioRead len r =
     (if len = 0 then Some ([], r)
      else (case rioBufferRead (rio_chunk r len) r of
         None \<Rightarrow> None
       | Some (x, r1) \<Rightarrow>
           (case rioRead (len - rio_chunk r len) ((rio_update x r1)\<lparr>processed_bytes := processed_bytes r1 + rio_chunk r len\<rparr>) of
              None \<Rightarrow> None
            | Some (y, r2) \<Rightarrow> Some (x @ y, r2))))"
  by pat_completeness auto
termination
  by (relation "measure (\<lambda>(len, r). len)") (auto simp: rio_chunk_le)

declare rioWrite.simps [simp del] rioRead.simps [simp del]


section \<open>What reading and writing do\<close>

definition next_cksum :: "rio \<Rightarrow> string \<Rightarrow> 64 word" where
  "next_cksum r x = (if update_cksum r then crc64 (cksum r) x else cksum r)"

definition wrote :: "string \<Rightarrow> rio \<Rightarrow> rio" where
  "wrote x r = r\<lparr>rdata := rdata r @ x, rpos := (if target r = BufferIO then rpos r + length x else rpos r),
     rroom := (if target r = BufferIO then rroom r else rroom r - length x), cksum := next_cksum r x,
     processed_bytes := processed_bytes r + length x\<rparr>"

definition did_read :: "string \<Rightarrow> rio \<Rightarrow> rio" where
  "did_read x r = r\<lparr>rpos := rpos r + length x, cksum := next_cksum r x, processed_bytes := processed_bytes r + length x\<rparr>"

definition has_room :: "nat \<Rightarrow> rio \<Rightarrow> bool" where
  "has_room n r \<longleftrightarrow> target r = BufferIO \<or> n \<le> rroom r"

lemma wrote_simps [simp]:
  "wrote y (wrote x r) = wrote (x @ y) r" "wrote [] r = r" "rdata (wrote x r) = rdata r @ x"
  by (simp_all add: wrote_def next_cksum_def crc64_append) (simp add: crc64_def)

lemma has_room_wrote [simp]: "has_room m r \<Longrightarrow> length x \<le> m \<Longrightarrow> has_room n (wrote x r) \<longleftrightarrow> has_room (length x + n) r"
  by (auto simp: has_room_def wrote_def)

lemma did_read_simps [simp]:
  "did_read y (did_read x r) = did_read (x @ y) r" "did_read [] r = r" "rdata (did_read x r) = rdata r" "rpos (did_read x r) = rpos r + length x"
  by (simp_all add: did_read_def next_cksum_def crc64_append) (simp add: crc64_def)

lemma rioWrite_rule: "rioWrite x r = (if has_room (length x) r then Some (wrote x r) else None)"
proof (induction x r rule: rioWrite.induct)
  case (1 buf r)
  show ?case
  proof (cases "buf = []")
    case False
    define n where "n = rio_chunk r (length buf)"
    have n: "0 < n" "n \<le> length buf" using False by (simp_all add: n_def rio_chunk_le)
    have w: "rio_write (take n buf) (rio_update (take n buf) r) =
      (if has_room n r then Some ((wrote (take n buf) r)\<lparr>processed_bytes := processed_bytes r\<rparr>) else None)"
      using n by (cases "target r") (auto simp: rio_write_def rio_update_def rioGenericUpdateChecksum_def rioBufferWrite_def rioFileWrite_def wrote_def has_room_def next_cksum_def min_def)
    have p: "((wrote (take n buf) r)\<lparr>processed_bytes := processed_bytes r\<rparr>)\<lparr>processed_bytes := processed_bytes r + n\<rparr> = wrote (take n buf) r"
      using n by (simp add: wrote_def)
    show ?thesis
    proof (cases "has_room n r")
      case True
      have "rioWrite buf r = rioWrite (drop n buf) (wrote (take n buf) r)"
        using False True w p by (subst rioWrite.simps) (simp add: n_def [symmetric])
      also have "\<dots> = (if has_room (length (drop n buf)) (wrote (take n buf) r) then Some (wrote (drop n buf) (wrote (take n buf) r)) else None)"
        using 1 [OF False] True w p by (simp add: n_def [symmetric])
      also have "\<dots> = (if has_room (length buf) r then Some (wrote buf r) else None)"
        using n has_room_wrote [OF True, of "take n buf"] by simp
      finally show ?thesis .
    next
      case no: False
      then have "\<not> has_room (length buf) r" using n by (simp add: has_room_def)
      then show ?thesis using False no w by (subst rioWrite.simps) (simp add: n_def [symmetric])
    qed
  qed (simp add: rioWrite.simps has_room_def)
qed

lemma rioRead_rule:
  "rioRead n r = (if n = 0 then Some ([], r) else if rpos r + n \<le> length (rdata r)
     then Some (take n (drop (rpos r) (rdata r)), did_read (take n (drop (rpos r) (rdata r))) r) else None)"
proof (induction n r rule: rioRead.induct)
  case (1 len r)
  show ?case
  proof (cases "len = 0")
    case False
    define n where "n = rio_chunk r len"
    let ?x = "take n (drop (rpos r) (rdata r))"
    have n: "0 < n" "n \<le> len" using False by (simp_all add: n_def rio_chunk_le)
    show ?thesis
    proof (cases "rpos r + n \<le> length (rdata r)")
      case True
      then have x: "rioBufferRead n r = Some (?x, r\<lparr>rpos := rpos r + n\<rparr>)" by (simp add: rioBufferRead_def)
      have d: "(rio_update ?x (r\<lparr>rpos := rpos r + n\<rparr>))\<lparr>processed_bytes := processed_bytes r + n\<rparr> = did_read ?x r"
        using True by (simp add: did_read_def rio_update_def rioGenericUpdateChecksum_def next_cksum_def)
      have eq: "rioRead len r = (case rioRead (len - n) (did_read ?x r) of None \<Rightarrow> None | Some (y, r2) \<Rightarrow> Some (?x @ y, r2))"
        using False x d by (subst rioRead.simps) (simp add: n_def [symmetric])
      have "take len (drop (rpos r) (rdata r)) = ?x @ take (len - n) (drop (rpos r + n) (rdata r))"
        using n take_add [of n "len - n" "drop (rpos r) (rdata r)"] by (simp add: add.commute)
      moreover have "length ?x = n" using True by simp
      ultimately show ?thesis unfolding eq using 1 [OF False x [unfolded n_def] refl] False n True d unfolding n_def [symmetric]
        by (auto simp: add.commute)
    next
      case no: False
      then have "rioBufferRead n r = None" "\<not> rpos r + len \<le> length (rdata r)" using n by (auto simp: rioBufferRead_def)
      then show ?thesis using False by (subst rioRead.simps) (simp add: n_def [symmetric])
    qed
  qed (simp add: rioRead.simps)
qed

text \<open>The reader stands before the bytes \<open>x\<close>.\<close>

definition ahead :: "string \<Rightarrow> rio \<Rightarrow> bool" where
  "ahead x r \<longleftrightarrow> (\<exists>pre post. rdata r = pre @ x @ post \<and> rpos r = length pre)"

lemma ahead_append: "ahead (x @ y) r \<longleftrightarrow> ahead x r \<and> ahead y (did_read x r)"
proof
  assume "ahead (x @ y) r"
  then obtain pre post where p: "rdata r = pre @ x @ y @ post" "rpos r = length pre" by (auto simp: ahead_def)
  then have "rdata (did_read x r) = (pre @ x) @ y @ post" "rpos (did_read x r) = length (pre @ x)" by simp_all
  with p show "ahead x r \<and> ahead y (did_read x r)" unfolding ahead_def by blast
next
  assume "ahead x r \<and> ahead y (did_read x r)"
  then obtain p q p' q' where "rdata r = p @ x @ q" "rpos r = length p" "rdata r = p' @ y @ q'" "length p' = length p + length x"
    by (auto simp: ahead_def)
  moreover from this have "p' = p @ x" using append_eq_append_conv [of p' "p @ x" "y @ q'" q] by simp
  ultimately show "ahead (x @ y) r" unfolding ahead_def by (intro exI [of _ p] exI [of _ q']) simp
qed

lemma rioRead_ahead: "ahead x r \<Longrightarrow> rioRead (length x) r = Some (x, did_read x r)"
  by (auto simp: rioRead_rule ahead_def)

end
