(* ===== verification/Rdb.thy ===== *)
theory Rdb
  imports T_List T_Set T_Hash Kvolve_Registry Lzf Ziplist_Bytes Rio
begin

text \<open>
  Dump files (\<^verbatim>\<open>redis-2.8.17/src/rdb.c\<close>): lengths, strings, objects and whole databases, written to and
  read from a stream. kvolve stores the version of a value in one byte behind its type.

  The result of an operation is \<open>None\<close> for a fault of the program, \<open>Some None\<close> for an error it
  reports (\<^verbatim>\<open>-1\<close>, \<^verbatim>\<open>NULL\<close>) and \<open>Some (Some x)\<close> for a result. Operations that cannot fault
  have one option less.

  Ziplists are saved as their bytes, of which the objects of the model keep only the entries: the
  parameter \<open>blk\<close> gives the block of a ziplist object. Sorted sets and the zipmaps of old dumps are
  loaded by the parameter \<open>other\<close>. \<open>junk\<close> is the uninitialised hash table of the compression.
\<close>

definition ebind :: "'a option option \<Rightarrow> ('a \<Rightarrow> 'b option option) \<Rightarrow> 'b option option" where
  "ebind m f = (case m of None \<Rightarrow> None | Some None \<Rightarrow> Some None | Some (Some x) \<Rightarrow> f x)"

lemma ebind_simps [simp]:
  "ebind None f = None" "ebind (Some None) f = Some None" "ebind (Some (Some x)) f = f x"
  by (simp_all add: ebind_def)

text \<open>The fields of the server that only this file uses.\<close>

record rdb_server =
  rdb_compression :: bool
  rdb_checksum :: bool
  lastsave :: int
  lastbgsave_ok :: bool


section \<open>Bytes, times and lengths\<close>

definition rdbWriteRaw :: "string \<Rightarrow> rio \<Rightarrow> (nat \<times> rio) option" where
  "rdbWriteRaw x r = do { r1 \<leftarrow> rioWrite x r; Some (length x, r1) }"

text \<open>The type is an \<^verbatim>\<open>unsigned char\<close>: of a larger integer the lowest byte remains.\<close>

definition rdbSaveType :: "int \<Rightarrow> rio \<Rightarrow> (nat \<times> rio) option" where
  "rdbSaveType ty r = rdbWriteRaw [u8 (nat (ty mod 256))] r"

definition rdbLoadType :: "rio \<Rightarrow> (nat \<times> rio) option" where
  "rdbLoadType r = do { (x, r1) \<leftarrow> rioRead 1 r; Some (byte_val (hd x), r1) }"

definition rdbLoadTime :: "rio \<Rightarrow> (int \<times> rio) option" where
  "rdbLoadTime r = do { (x, r1) \<leftarrow> rioRead 4 r; Some (le_sint (map char_byte x), r1) }"

definition rdbSaveMillisecondTime :: "int \<Rightarrow> rio \<Rightarrow> (nat \<times> rio) option" where
  "rdbSaveMillisecondTime t r = rdbWriteRaw (le_chars 8 t) r"

definition rdbLoadMillisecondTime :: "rio \<Rightarrow> (int \<times> rio) option" where
  "rdbLoadMillisecondTime r = do { (x, r1) \<leftarrow> rioRead 8 r; Some (le_sint (map char_byte x), r1) }"

text \<open>The length is converted to 32 bits.\<close>

definition rdbSaveLen :: "nat \<Rightarrow> rio \<Rightarrow> (nat \<times> rio) option" where
  "rdbSaveLen n r =
     (let len = n mod 2 ^ 32 in
      if len < 64 then rdbWriteRaw [u8 len] r
      else if len < 16384 then rdbWriteRaw [u8 (64 + len div 256), u8 (len mod 256)] r
      else do {
        (n1, r1) \<leftarrow> rdbWriteRaw [u8 128] r;
        (n2, r2) \<leftarrow> rdbWriteRaw (rev (le_chars 4 (int len))) r1;
        Some (1 + 4, r2)
      })"

text \<open>
  Whether the value is an encoding, and the value. \<^verbatim>\<open>REDIS_RDB_LENERR\<close> is the largest 32-bit integer,
  so a length of that value counts as an error.
\<close>

definition rdbLoadLen :: "rio \<Rightarrow> (bool \<times> nat \<times> rio) option" where
  "rdbLoadLen r = do {
     (x, r1) \<leftarrow> rioRead 1 r;
     let b = byte_val (hd x);
     let ty = b div 64;
     if ty = 3 then Some (True, b mod 64, r1)
     else if ty = 0 then Some (False, b mod 64, r1)
     else if ty = 1 then do {
       (y, r2) \<leftarrow> rioRead 1 r1;
       Some (False, (b mod 64) * 256 + byte_val (hd y), r2)
     }
     else do {
       (y, r2) \<leftarrow> rioRead 4 r1;
       let len = nat (le_uint (map char_byte (rev y)));
       if len = 4294967295 then None else Some (False, len, r2)
     }
   }"


section \<open>Strings\<close>

definition rdbEncodeInteger :: "int \<Rightarrow> string option" where
  "rdbEncodeInteger v =
     (if - (2 ^ 7) \<le> v \<and> v \<le> 2 ^ 7 - 1 then Some (u8 192 # le_chars 1 v)
      else if - (2 ^ 15) \<le> v \<and> v \<le> 2 ^ 15 - 1 then Some (u8 193 # le_chars 2 v)
      else if - (2 ^ 31) \<le> v \<and> v \<le> 2 ^ 31 - 1 then Some (u8 194 # le_chars 4 v)
      else None)"

definition rdbLoadIntegerObject :: "nat \<Rightarrow> bool \<Rightarrow> server \<Rightarrow> rio \<Rightarrow> (addr \<times> server \<times> rio) option option" where
  "rdbLoadIntegerObject enctype encode s r =
     (if enctype \<noteq> 0 \<and> enctype \<noteq> 1 \<and> enctype \<noteq> 2 then None
      else ebind (Some (rioRead (if enctype = 0 then 1 else if enctype = 1 then 2 else 4) r)) (\<lambda>(x, r1).
        let val = le_sint (map char_byte x) in
        if encode then do { (a, s1) \<leftarrow> createStringObjectFromLongLong val s; Some (Some (a, s1, r1)) }
        else (case createObject REDIS_STRING (Sds (dec_int val)) s of (a, s1) \<Rightarrow> Some (Some (a, s1, r1)))))"

text \<open>
  The string is read up to its terminator; of the blocks that are passed here besides sds strings,
  those of at most eleven bytes hold a zero byte.
\<close>

definition rdbTryIntegerEncoding :: "string \<Rightarrow> string option option" where
  "rdbTryIntegerEncoding x =
     (case strtoll (c_str x) of (value, endptr, _) \<Rightarrow>
        if endptr \<noteq> [] then Some None
        else do {
          buf \<leftarrow> ll_chars 32 value;
          if length buf \<noteq> length x \<or> memcmp buf x \<noteq> 0 then Some None else Some (rdbEncodeInteger value)
        })"

definition rdbSaveLzfStringObject :: "(32 word \<Rightarrow> int) \<Rightarrow> string \<Rightarrow> rio \<Rightarrow> (nat \<times> rio) option option" where
  "rdbSaveLzfStringObject junk x r =
     (if length x \<le> 4 then Some (Some (0, r))
      else do {
        c \<leftarrow> lzf_compress junk (length x - 4 + 1) x (length x - 4);
        case c of
          None \<Rightarrow> Some (Some (0, r))
        | Some out \<Rightarrow> Some (do {
            (n1, r1) \<leftarrow> rdbWriteRaw [u8 195] r;
            (n2, r2) \<leftarrow> rdbSaveLen (length out) r1;
            (n3, r3) \<leftarrow> rdbSaveLen (length x) r2;
            (n4, r4) \<leftarrow> rdbWriteRaw out r3;
            Some (n1 + n2 + n3 + n4, r4)
          })
      })"

text \<open>The string is allocated with the stored length and zero bytes before it is filled.\<close>

definition rdbLoadLzfStringObject :: "server \<Rightarrow> rio \<Rightarrow> (addr \<times> server \<times> rio) option option" where
  "rdbLoadLzfStringObject s r =
     ebind (Some (rdbLoadLen r)) (\<lambda>(_, clen, r1).
     ebind (Some (rdbLoadLen r1)) (\<lambda>(_, len, r2).
     ebind (Some (rioRead clen r2)) (\<lambda>(c, r3).
     ebind (lzf_decompress c len) (\<lambda>val.
       case createObject REDIS_STRING (Sds (val @ replicate (len - length val) NUL)) s of (a, s1) \<Rightarrow> Some (Some (a, s1, r3))))))"

definition rdbSaveRawString :: "rdb_server \<Rightarrow> (32 word \<Rightarrow> int) \<Rightarrow> string \<Rightarrow> rio \<Rightarrow> (nat \<times> rio) option option" where
  "rdbSaveRawString cfg junk x r = do {
     enc \<leftarrow> (if length x \<le> 11 then rdbTryIntegerEncoding x else Some None);
     case enc of
       Some buf \<Rightarrow> Some (rdbWriteRaw buf r)
     | None \<Rightarrow>
         ebind (if rdb_compression cfg \<and> length x > 20 then rdbSaveLzfStringObject junk x r else Some (Some (0, r))) (\<lambda>(n, r1).
           if n > 0 then Some (Some (n, r1))
           else Some (do {
             (n1, r2) \<leftarrow> rdbSaveLen (length x) r1;
             if length x > 0 then do { (n2, r3) \<leftarrow> rdbWriteRaw x r2; Some (n1 + length x, r3) } else Some (n1, r2)
           }))
   }"

definition rdbSaveLongLongAsStringObject :: "int \<Rightarrow> rio \<Rightarrow> (nat \<times> rio) option option" where
  "rdbSaveLongLongAsStringObject v r =
     (case rdbEncodeInteger v of
        Some buf \<Rightarrow> Some (rdbWriteRaw buf r)
      | None \<Rightarrow> do {
          buf \<leftarrow> ll_chars 32 v;
          if length buf < 32 then Some (do {
            (n1, r1) \<leftarrow> rdbSaveLen (length buf) r;
            (n2, r2) \<leftarrow> rdbWriteRaw buf r1;
            Some (n1 + n2, r2)
          })
          else None
        })"

definition rdbSaveStringObject :: "rdb_server \<Rightarrow> (32 word \<Rightarrow> int) \<Rightarrow> server \<Rightarrow> addr \<Rightarrow> rio \<Rightarrow> (nat \<times> rio) option option" where
  "rdbSaveStringObject cfg junk s a r = do {
     ob \<leftarrow> obj s a;
     if encoding ob = REDIS_ENCODING_INT then
       (case ptr ob of Long v \<Rightarrow> rdbSaveLongLongAsStringObject v r | _ \<Rightarrow> None)
     else if encoding ob = REDIS_ENCODING_RAW then do { x \<leftarrow> sds_of s a; rdbSaveRawString cfg junk x r }
     else None
   }"

definition rdbGenericLoadStringObject :: "bool \<Rightarrow> server \<Rightarrow> rio \<Rightarrow> (addr \<times> server \<times> rio) option option" where
  "rdbGenericLoadStringObject encode s r =
     ebind (Some (rdbLoadLen r)) (\<lambda>(isencoded, len, r1).
       if isencoded then
         (if len = 0 \<or> len = 1 \<or> len = 2 then rdbLoadIntegerObject len encode s r1
          else if len = 3 then rdbLoadLzfStringObject s r1
          else None)
       else ebind (Some (rioRead len r1)) (\<lambda>(val, r2).
         case createObject REDIS_STRING (Sds val) s of (a, s1) \<Rightarrow> Some (Some (a, s1, r2))))"

definition rdbLoadStringObject :: "server \<Rightarrow> rio \<Rightarrow> (addr \<times> server \<times> rio) option option" where
  "rdbLoadStringObject s r = rdbGenericLoadStringObject False s r"

definition rdbLoadEncodedStringObject :: "server \<Rightarrow> rio \<Rightarrow> (addr \<times> server \<times> rio) option option" where
  "rdbLoadEncodedStringObject s r = rdbGenericLoadStringObject True s r"


section \<open>Saving objects\<close>

definition rdbSaveObjectType :: "robj \<Rightarrow> rio \<Rightarrow> (nat \<times> rio) option option" where
  "rdbSaveObjectType ob r =
     (case (otype ob, encoding ob) of
        (REDIS_STRING, _) \<Rightarrow> Some (rdbSaveType 0 r)
      | (REDIS_LIST, REDIS_ENCODING_ZIPLIST) \<Rightarrow> Some (rdbSaveType 10 r)
      | (REDIS_LIST, REDIS_ENCODING_LINKEDLIST) \<Rightarrow> Some (rdbSaveType 1 r)
      | (REDIS_SET, REDIS_ENCODING_INTSET) \<Rightarrow> Some (rdbSaveType 11 r)
      | (REDIS_SET, REDIS_ENCODING_HT) \<Rightarrow> Some (rdbSaveType 2 r)
      | (REDIS_ZSET, REDIS_ENCODING_ZIPLIST) \<Rightarrow> Some (rdbSaveType 12 r)
      | (REDIS_ZSET, REDIS_ENCODING_SKIPLIST) \<Rightarrow> Some (rdbSaveType 3 r)
      | (REDIS_HASH, REDIS_ENCODING_ZIPLIST) \<Rightarrow> Some (rdbSaveType 13 r)
      | (REDIS_HASH, REDIS_ENCODING_HT) \<Rightarrow> Some (rdbSaveType 4 r)
      | _ \<Rightarrow> None)"

definition rdbIsObjectType :: "nat \<Rightarrow> bool" where
  "rdbIsObjectType t \<longleftrightarrow> t \<le> 4 \<or> 9 \<le> t \<and> t \<le> 13"

definition rdbLoadObjectType :: "rio \<Rightarrow> (nat \<times> rio) option" where
  "rdbLoadObjectType r = do { (ty, r1) \<leftarrow> rdbLoadType r; if rdbIsObjectType ty then Some (ty, r1) else None }"

primrec save_strings :: "rdb_server \<Rightarrow> (32 word \<Rightarrow> int) \<Rightarrow> server \<Rightarrow> addr list \<Rightarrow> rio \<Rightarrow> (nat \<times> rio) option option" where
  "save_strings cfg junk s [] r = Some (Some (0, r))"
| "save_strings cfg junk s (a # as) r =
     ebind (rdbSaveStringObject cfg junk s a r) (\<lambda>(n, r1).
     ebind (save_strings cfg junk s as r1) (\<lambda>(m, r2). Some (Some (n + m, r2))))"

definition intset_chars :: "intset \<Rightarrow> string" where
  "intset_chars is = le_chars 4 (int (is_encoding is)) @ le_chars 4 (int (is_length is)) @ map byte_char (is_contents is)"

definition save_counted :: "rdb_server \<Rightarrow> (32 word \<Rightarrow> int) \<Rightarrow> server \<Rightarrow> nat \<Rightarrow> addr list \<Rightarrow> rio \<Rightarrow> (nat \<times> rio) option option" where
  "save_counted cfg junk s n as r =
     ebind (Some (rdbSaveLen n r)) (\<lambda>(k, r1). ebind (save_strings cfg junk s as r1) (\<lambda>(m, r2). Some (Some (k + m, r2))))"

text \<open>A block is saved with the length it gives itself.\<close>

definition save_block :: "rdb_server \<Rightarrow> (32 word \<Rightarrow> int) \<Rightarrow> string \<Rightarrow> rio \<Rightarrow> (nat \<times> rio) option option" where
  "save_block cfg junk zl r = do { l \<leftarrow> ziplistBlobLen zl; x \<leftarrow> rdn zl 0 l; rdbSaveRawString cfg junk x r }"

definition rdbSaveObject ::
  "rdb_server \<Rightarrow> (32 word \<Rightarrow> int) \<Rightarrow> (addr \<Rightarrow> string) \<Rightarrow> server \<Rightarrow> addr \<Rightarrow> rio \<Rightarrow> (nat \<times> rio) option option" where
  "rdbSaveObject cfg junk blk s a r = do {
     ob \<leftarrow> obj s a;
     case (otype ob, encoding ob, ptr ob) of
       (REDIS_STRING, _, _) \<Rightarrow> rdbSaveStringObject cfg junk s a r
     | (REDIS_LIST, REDIS_ENCODING_ZIPLIST, Ziplist _) \<Rightarrow> save_block cfg junk (blk a) r
     | (REDIS_LIST, REDIS_ENCODING_LINKEDLIST, Linked as) \<Rightarrow> save_counted cfg junk s (length as) as r
     | (REDIS_SET, REDIS_ENCODING_HT, DictSet as) \<Rightarrow> save_counted cfg junk s (length as) as r
     | (REDIS_SET, REDIS_ENCODING_INTSET, Is is) \<Rightarrow> do {
         x \<leftarrow> rdn (intset_chars is) 0 (intsetBlobLen is);
         rdbSaveRawString cfg junk x r
       }
     | (REDIS_ZSET, REDIS_ENCODING_ZIPLIST, Ziplist _) \<Rightarrow> save_block cfg junk (blk a) r
     | (REDIS_HASH, REDIS_ENCODING_ZIPLIST, Ziplist _) \<Rightarrow> save_block cfg junk (blk a) r
     | (REDIS_HASH, REDIS_ENCODING_HT, DictHash kvs) \<Rightarrow>
         save_counted cfg junk s (length kvs) (concat (map (\<lambda>(k, v). [k, v]) kvs)) r
     | _ \<Rightarrow> None
   }"

text \<open>Whether the key was saved. The key is a static raw string object.\<close>

definition rdbSaveKeyValuePair ::
  "rdb_server \<Rightarrow> (32 word \<Rightarrow> int) \<Rightarrow> (addr \<Rightarrow> string) \<Rightarrow> server \<Rightarrow> string \<Rightarrow> addr \<Rightarrow> int \<Rightarrow> int \<Rightarrow> rio \<Rightarrow> (bool \<times> rio) option option" where
  "rdbSaveKeyValuePair cfg junk blk s key val expiretime now r =
     (if expiretime \<noteq> - 1 \<and> expiretime < now then Some (Some (False, r))
      else
        ebind (Some (if expiretime \<noteq> - 1 then do {
            (_, r1) \<leftarrow> rdbSaveType 252 r;
            rdbSaveMillisecondTime expiretime r1
          } else Some (0, r))) (\<lambda>(_, r1). do {
        ob \<leftarrow> obj s val;
        ebind (rdbSaveObjectType ob r1) (\<lambda>(_, r2).
        ebind (Some (rdbSaveType (vers ob) r2)) (\<lambda>(_, r3).
        ebind (rdbSaveRawString cfg junk key r3) (\<lambda>(_, r4).
        ebind (rdbSaveObject cfg junk blk s val r4) (\<lambda>(_, r5). Some (Some (True, r5))))))}))"


section \<open>Saving the databases\<close>

definition key_expire :: "redisDb \<Rightarrow> string \<Rightarrow> int option" where
  "key_expire dbv k =
     (case dictFind (expires dbv) k of
        None \<Rightarrow> Some (- 1)
      | Some t \<Rightarrow> if dictFind (dict dbv) k = None then None else Some t)"

primrec save_entries ::
  "rdb_server \<Rightarrow> (32 word \<Rightarrow> int) \<Rightarrow> (addr \<Rightarrow> string) \<Rightarrow> server \<Rightarrow> int \<Rightarrow> redisDb \<Rightarrow> (string \<times> addr) list \<Rightarrow> rio \<Rightarrow> rio option option" where
  "save_entries cfg junk blk s now dbv [] r = Some (Some r)"
| "save_entries cfg junk blk s now dbv (e # es) r = do {
     expire \<leftarrow> key_expire dbv (fst e);
     ebind (rdbSaveKeyValuePair cfg junk blk s (fst e) (snd e) expire now r) (\<lambda>(_, r1).
       save_entries cfg junk blk s now dbv es r1)
   }"

primrec save_dbs ::
  "rdb_server \<Rightarrow> (32 word \<Rightarrow> int) \<Rightarrow> (addr \<Rightarrow> string) \<Rightarrow> server \<Rightarrow> int \<Rightarrow> nat \<Rightarrow> redisDb list \<Rightarrow> rio \<Rightarrow> rio option option" where
  "save_dbs cfg junk blk s now j [] r = Some (Some r)"
| "save_dbs cfg junk blk s now j (dbv # dbs) r =
     (if dict dbv = [] then save_dbs cfg junk blk s now (Suc j) dbs r
      else
        ebind (Some (rdbSaveType 254 r)) (\<lambda>(_, r1).
        ebind (Some (rdbSaveLen j r1)) (\<lambda>(_, r2).
        ebind (save_entries cfg junk blk s now dbv (dict dbv) r2) (\<lambda>r3.
          save_dbs cfg junk blk s now (Suc j) dbs r3))))"

definition save_all :: "rdb_server \<Rightarrow> (32 word \<Rightarrow> int) \<Rightarrow> (addr \<Rightarrow> string) \<Rightarrow> server \<Rightarrow> rio \<Rightarrow> rio option option" where
  "save_all cfg junk blk s r =
     ebind (Some (rdbWriteRaw ''REDIS0006'' r)) (\<lambda>(_, r1).
     ebind (save_dbs cfg junk blk s (mstime s) 0 (db s) r1) (\<lambda>r2.
     ebind (Some (rdbSaveType 255 r2)) (\<lambda>(_, r3).
       Some (rioWrite (le_chars 8 (uint (cksum r3))) r3))))"

text \<open>
  What the operating system answers while a dump is saved: whether the temporary file can be
  opened, how many bytes it takes, whether it can be synchronised and closed, whether it can be
  renamed; and the time.
\<close>

record save_env =
  open_ok :: bool
  space :: nat
  sync_ok :: bool
  rename_ok :: bool
  now_time :: int

text \<open>
  Whether the databases were saved, with the files by name. The temporary file is unlinked on
  every error.
\<close>

definition rdbSave ::
  "rdb_server \<Rightarrow> (32 word \<Rightarrow> int) \<Rightarrow> (addr \<Rightarrow> string) \<Rightarrow> save_env \<Rightarrow> string \<Rightarrow> string \<Rightarrow> server \<Rightarrow> (string \<rightharpoonup> string) \<Rightarrow>
   (bool \<times> server \<times> rdb_server \<times> (string \<rightharpoonup> string)) option" where
  "rdbSave cfg junk blk env tmpfile filename s fs =
     (if \<not> open_ok env then Some (False, s, cfg, fs)
      else do {
        res \<leftarrow> save_all cfg junk blk s ((rioInitWithFile [] (space env))\<lparr>update_cksum := rdb_checksum cfg\<rparr>);
        case res of
          None \<Rightarrow> Some (False, s, cfg, fs(tmpfile := None))
        | Some r \<Rightarrow>
            if \<not> sync_ok env \<or> \<not> rename_ok env then Some (False, s, cfg, fs(tmpfile := None))
            else Some (True, s\<lparr>dirty := 0\<rparr>, cfg\<lparr>lastsave := now_time env, lastbgsave_ok := True\<rparr>,
              fs(tmpfile := None, filename \<mapsto> rdata r))
      })"


section \<open>Loading objects\<close>

type_synonym loaded = "(addr \<times> server \<times> rio) option option"

definition push_loaded :: "addr \<Rightarrow> addr \<Rightarrow> server \<Rightarrow> server option" where
  "push_loaded o' ele s = do {
     ob \<leftarrow> obj s o';
     el \<leftarrow> obj s ele;
     big \<leftarrow> (if encoding ob = REDIS_ENCODING_ZIPLIST \<and> encoding el = REDIS_ENCODING_RAW
             then do { x \<leftarrow> sds_of s ele; Some (length x > list_max_ziplist_value s) } else Some False);
     s1 \<leftarrow> (if big then listTypeConvert o' s else Some s);
     ob1 \<leftarrow> obj s1 o';
     case (encoding ob1, ptr ob1) of
       (REDIS_ENCODING_ZIPLIST, Ziplist zl) \<Rightarrow> do {
         (dec, s2) \<leftarrow> getDecodedObject ele s1;
         x \<leftarrow> sds_of s2 dec;
         s3 \<leftarrow> upd_obj o' (\<lambda>ob. ob\<lparr>ptr := Ziplist (zl_insert (length zl) x zl)\<rparr>) s2;
         s4 \<leftarrow> decrRefCount dec s3;
         decrRefCount ele s4
       }
     | (REDIS_ENCODING_LINKEDLIST, Linked as) \<Rightarrow> do {
         (ele1, s2) \<leftarrow> tryObjectEncoding ele s1;
         upd_obj o' (\<lambda>ob. ob\<lparr>ptr := Linked (as @ [ele1])\<rparr>) s2
       }
     | _ \<Rightarrow> None
   }"

primrec load_list :: "nat \<Rightarrow> addr \<Rightarrow> server \<Rightarrow> rio \<Rightarrow> loaded" where
  "load_list 0 o' s r = Some (Some (o', s, r))"
| "load_list (Suc n) o' s r =
     ebind (rdbLoadEncodedStringObject s r) (\<lambda>(ele, s1, r1). do { s2 \<leftarrow> push_loaded o' ele s1; load_list n o' s2 r1 })"

text \<open>The result of the insertion into the dictionary is not looked at.\<close>

definition add_loaded :: "addr \<Rightarrow> addr \<Rightarrow> server \<Rightarrow> server option" where
  "add_loaded o' ele0 s0 = do {
     (ele, s) \<leftarrow> tryObjectEncoding ele0 s0;
     ob \<leftarrow> obj s o';
     s1 \<leftarrow> (if encoding ob = REDIS_ENCODING_INTSET then do {
              v \<leftarrow> isObjectRepresentableAsLongLong s ele;
              case (v, ptr ob) of
                (Some llval, Is is) \<Rightarrow> do { (is1, _) \<leftarrow> intsetAdd is llval; upd_obj o' (\<lambda>ob. ob\<lparr>ptr := Is is1\<rparr>) s }
              | (None, _) \<Rightarrow> setTypeConvert o' s
              | _ \<Rightarrow> None
            } else Some s);
     ob1 \<leftarrow> obj s1 o';
     if encoding ob1 = REDIS_ENCODING_HT then do { (_, s2) \<leftarrow> set_dictAdd o' ele s1; Some s2 }
     else decrRefCount ele s1
   }"

primrec load_set :: "nat \<Rightarrow> addr \<Rightarrow> server \<Rightarrow> rio \<Rightarrow> loaded" where
  "load_set 0 o' s r = Some (Some (o', s, r))"
| "load_set (Suc n) o' s r =
     ebind (rdbLoadEncodedStringObject s r) (\<lambda>(ele, s1, r1). do { s2 \<leftarrow> add_loaded o' ele s1; load_set n o' s2 r1 })"

text \<open>The remaining pairs of a hash, into the hash table; a field that is there already is an assertion.\<close>

primrec load_hash_table :: "nat \<Rightarrow> addr \<Rightarrow> server \<Rightarrow> rio \<Rightarrow> loaded" where
  "load_hash_table 0 o' s r = Some (Some (o', s, r))"
| "load_hash_table (Suc n) o' s r =
     ebind (rdbLoadEncodedStringObject s r) (\<lambda>(field0, s1, r1).
     ebind (rdbLoadEncodedStringObject s1 r1) (\<lambda>(value0, s2, r2). do {
       (field, s3) \<leftarrow> tryObjectEncoding field0 s2;
       (value, s4) \<leftarrow> tryObjectEncoding value0 s3;
       ob \<leftarrow> obj s4 o';
       case ptr ob of
         DictHash kvs \<Rightarrow> do {
           found \<leftarrow> find_entry s4 kvs field;
           if found \<noteq> None then None
           else do {
             s5 \<leftarrow> upd_obj o' (\<lambda>ob. ob\<lparr>ptr := DictHash ((field, value) # kvs)\<rparr>) s4;
             load_hash_table n o' s5 r2
           }
         }
       | _ \<Rightarrow> None
     }))"

primrec load_hash :: "nat \<Rightarrow> addr \<Rightarrow> server \<Rightarrow> rio \<Rightarrow> loaded" where
  "load_hash 0 o' s r = Some (Some (o', s, r))"
| "load_hash (Suc n) o' s r =
     ebind (rdbLoadStringObject s r) (\<lambda>(field, s1, r1).
     ebind (rdbLoadStringObject s1 r1) (\<lambda>(value, s2, r2). do {
       ob \<leftarrow> obj s2 o';
       f \<leftarrow> sds_of s2 field;
       v \<leftarrow> sds_of s2 value;
       case ptr ob of
         Ziplist zl \<Rightarrow> do {
           s3 \<leftarrow> upd_obj o' (\<lambda>ob. ob\<lparr>ptr := Ziplist (zl @ [zl_entry f, zl_entry v])\<rparr>) s2;
           s4 \<leftarrow> decrRefCount field s3;
           s5 \<leftarrow> decrRefCount value s4;
           if length f > hash_max_ziplist_value s \<or> length v > hash_max_ziplist_value s then do {
             s6 \<leftarrow> hashTypeConvert o' REDIS_ENCODING_HT s5;
             load_hash_table n o' s6 r2
           }
           else load_hash n o' s5 r2
         }
       | _ \<Rightarrow> None
     }))"

text \<open>The entries of a block that was loaded, and an intset from its bytes.\<close>

function block_entries :: "string \<Rightarrow> nat \<Rightarrow> zlval list option" where
  "block_entries zl p = do {
     c \<leftarrow> rd zl p;
     if c = ZIP_END then Some []
     else
       (case (zipRawEntryLength zl p, ziplistGet zl p) of
          (Some l, Some (Some v)) \<Rightarrow> do { vs \<leftarrow> block_entries zl (p + l); Some (v # vs) }
        | _ \<Rightarrow> None)
   }"
  by pat_completeness auto
termination
  by (relation "measure (\<lambda>(zl, p). length zl - p)") (auto simp: rd_def dest: raw_length_pos [OF sym] split: if_splits)

declare block_entries.simps [simp del]

definition chars_intset :: "string \<Rightarrow> intset option" where
  "chars_intset x = do {
     enc \<leftarrow> get_uint 4 x 0;
     len \<leftarrow> get_uint 4 x 4;
     Some \<lparr>is_encoding = enc, is_length = len, is_contents = map char_byte (drop 8 x)\<rparr>
   }"

definition load_block :: "nat \<Rightarrow> string \<Rightarrow> addr \<Rightarrow> server \<Rightarrow> server option" where
  "load_block ty x a s =
     (if ty = 10 then do {
        zl \<leftarrow> block_entries x ZIPLIST_HEADER_SIZE;
        (n, _) \<leftarrow> ziplistLen x;
        s1 \<leftarrow> upd_obj a (\<lambda>ob. ob\<lparr>otype := REDIS_LIST, encoding := REDIS_ENCODING_ZIPLIST, ptr := Ziplist zl\<rparr>) s;
        if n > list_max_ziplist_entries s then listTypeConvert a s1 else Some s1
      }
      else if ty = 11 then do {
        is \<leftarrow> chars_intset x;
        s1 \<leftarrow> upd_obj a (\<lambda>ob. ob\<lparr>otype := REDIS_SET, encoding := REDIS_ENCODING_INTSET, ptr := Is is\<rparr>) s;
        if intsetLen is > set_max_intset_entries s then setTypeConvert a s1 else Some s1
      }
      else do {
        zl \<leftarrow> block_entries x ZIPLIST_HEADER_SIZE;
        (n, _) \<leftarrow> ziplistLen x;
        s1 \<leftarrow> upd_obj a (\<lambda>ob. ob\<lparr>otype := REDIS_HASH, encoding := REDIS_ENCODING_ZIPLIST, ptr := Ziplist zl\<rparr>) s;
        if n div 2 > hash_max_ziplist_entries s then hashTypeConvert a REDIS_ENCODING_HT s1 else Some s1
      })"

definition rdbLoadObject :: "(nat \<Rightarrow> server \<Rightarrow> rio \<Rightarrow> loaded) \<Rightarrow> nat \<Rightarrow> server \<Rightarrow> rio \<Rightarrow> loaded" where
  "rdbLoadObject other ty s r =
     (if ty = 0 then
        ebind (rdbLoadEncodedStringObject s r) (\<lambda>(o0, s1, r1). do { (o', s2) \<leftarrow> tryObjectEncoding o0 s1; Some (Some (o', s2, r1)) })
      else if ty = 1 then
        ebind (Some (rdbLoadLen r)) (\<lambda>(_, len, r1).
          case (if len > list_max_ziplist_entries s then createListObject s else createZiplistObject s) of
            (o', s1) \<Rightarrow> load_list len o' s1 r1)
      else if ty = 2 then
        ebind (Some (rdbLoadLen r)) (\<lambda>(_, len, r1).
          case (if len > set_max_intset_entries s then createSetObject s else createIntsetObject s) of
            (o', s1) \<Rightarrow> load_set len o' s1 r1)
      else if ty = 4 then
        ebind (Some (rdbLoadLen r)) (\<lambda>(_, len, r1).
          case createHashObject s of
            (o', s1) \<Rightarrow>
              if len > hash_max_ziplist_entries s then do {
                s2 \<leftarrow> hashTypeConvert o' REDIS_ENCODING_HT s1;
                load_hash_table len o' s2 r1
              }
              else load_hash len o' s1 r1)
      else if ty = 10 \<or> ty = 11 \<or> ty = 13 then
        ebind (rdbLoadStringObject s r) (\<lambda>(aux, s1, r1). do {
          x \<leftarrow> sds_of s1 aux;
          let (o', s2) = createObject REDIS_STRING Null s1;
          s3 \<leftarrow> decrRefCount aux s2;
          s4 \<leftarrow> load_block ty x o' s3;
          Some (Some (o', s4, r1))
        })
      else if ty = 3 \<or> ty = 9 \<or> ty = 12 then other ty s r
      else None)"


section \<open>Loading the databases\<close>

text \<open>
  What one round of the loop comes to: the end of the dump, the next round with the database that
  is selected, or the end of the process.
\<close>

datatype round_result = Eof rio | Next nat server rio | Exit

definition load_expire :: "rio \<Rightarrow> (int \<times> nat \<times> rio) option" where
  "load_expire r = do {
     (ty, r1) \<leftarrow> rdbLoadType r;
     if ty = 253 then do {
       (t, r2) \<leftarrow> rdbLoadTime r1;
       if t = - 1 then None
       else do { (ty1, r3) \<leftarrow> rdbLoadType r2; Some (t * 1000, ty1, r3) }
     }
     else if ty = 252 then do {
       (t, r2) \<leftarrow> rdbLoadMillisecondTime r1;
       if t = - 1 then None
       else do { (ty1, r3) \<leftarrow> rdbLoadType r2; Some (t, ty1, r3) }
     }
     else Some (- 1, ty, r1)
   }"

definition load_pair :: "(nat \<Rightarrow> server \<Rightarrow> rio \<Rightarrow> loaded) \<Rightarrow> int \<Rightarrow> nat \<Rightarrow> int \<Rightarrow> nat \<Rightarrow> server \<Rightarrow> rio \<Rightarrow> round_result option" where
  "load_pair other now d expiretime ty s r = do {
     res \<leftarrow> ebind (Some (rdbLoadType r)) (\<lambda>(v, r1).
       ebind (rdbLoadStringObject s r1) (\<lambda>(key, s1, r2).
       ebind (rdbLoadObject other ty s1 r2) (\<lambda>(val, s2, r3). Some (Some (v, key, val, s2, r3)))));
     case res of
       None \<Rightarrow> Some Exit
     | Some (v, key, val, s2, r3) \<Rightarrow>
         if \<not> masterhost s2 \<and> expiretime \<noteq> - 1 \<and> expiretime < now then do {
           s3 \<leftarrow> decrRefCount key s2;
           s4 \<leftarrow> decrRefCount val s3;
           Some (Next d s4 r3)
         }
         else do {
           s3 \<leftarrow> upd_obj val (\<lambda>ob. ob\<lparr>vers := int v\<rparr>) s2;
           s4 \<leftarrow> dbAdd d key val s3;
           s5 \<leftarrow> (if expiretime \<noteq> - 1 then setExpire d key expiretime s4 else Some s4);
           s6 \<leftarrow> decrRefCount key s5;
           Some (Next d s6 r3)
         }
   }"

definition load_round :: "(nat \<Rightarrow> server \<Rightarrow> rio \<Rightarrow> loaded) \<Rightarrow> int \<Rightarrow> nat \<Rightarrow> server \<Rightarrow> rio \<Rightarrow> round_result option" where
  "load_round other now d s r =
     (case load_expire r of
        None \<Rightarrow> Some Exit
      | Some (expiretime, ty, r1) \<Rightarrow>
          if ty = 255 then Some (Eof r1)
          else if ty = 254 then
            (case rdbLoadLen r1 of
               None \<Rightarrow> Some Exit
             | Some (_, dbid, r2) \<Rightarrow> if dbid \<ge> length (db s) then Some Exit else Some (Next dbid s r2))
          else load_pair other now d expiretime ty s r1)"

text \<open>The loop; \<open>Some None\<close> is the end of the process.\<close>

partial_function (option) load_loop ::
  "(nat \<Rightarrow> server \<Rightarrow> rio \<Rightarrow> loaded) \<Rightarrow> int \<Rightarrow> nat \<Rightarrow> server \<Rightarrow> rio \<Rightarrow> (server \<times> rio) option option" where
  "load_loop other now d s r = do {
     res \<leftarrow> load_round other now d s r;
     case res of
       Exit \<Rightarrow> Some None
     | Eof r1 \<Rightarrow> Some (Some (s, r1))
     | Next d1 s1 r1 \<Rightarrow> load_loop other now d1 s1 r1
   }"

datatype rdb_result = RdbOk server | RdbErr | RdbExit

definition rdbLoad ::
  "rdb_server \<Rightarrow> (nat \<Rightarrow> server \<Rightarrow> rio \<Rightarrow> loaded) \<Rightarrow> nat \<Rightarrow> string option \<Rightarrow> server \<Rightarrow> rdb_result option" where
  "rdbLoad cfg other chunk file s =
     (case file of
        None \<Rightarrow> Some RdbErr
      | Some x \<Rightarrow>
          (case rioRead 9 ((rioInitWithFile x 0)\<lparr>update_cksum := rdb_checksum cfg, max_processing_chunk := chunk\<rparr>) of
             None \<Rightarrow> Some RdbExit
           | Some (buf, r1) \<Rightarrow>
               let rdbver = atoi (c_str (drop 5 buf)) in
               if take 5 buf \<noteq> ''REDIS'' then Some RdbErr
               else if rdbver < 1 \<or> rdbver > 6 then Some RdbErr
               else do {
                 res \<leftarrow> load_loop other (mstime s) 0 (s\<lparr>loading := True\<rparr>) r1;
                 case res of
                   None \<Rightarrow> Some RdbExit
                 | Some (s1, r2) \<Rightarrow>
                     if rdbver \<ge> 5 \<and> rdb_checksum cfg then
                       (case rioRead 8 r2 of
                          None \<Rightarrow> Some RdbExit
                        | Some (y, r3) \<Rightarrow>
                            let ck = le_uint (map char_byte y) in
                            if ck \<noteq> 0 \<and> ck \<noteq> uint (cksum r2) then Some RdbExit
                            else Some (RdbOk (s1\<lparr>loading := False\<rparr>)))
                     else Some (RdbOk (s1\<lparr>loading := False\<rparr>))
               }))"

end
