(* ===== verification/Rdb_Rules.thy ===== *)
theory Rdb_Rules
  imports Rdb Lzf_Rules
begin

text \<open>
  Dumps are read back as they were written. Every operation that saves writes bytes that do not
  depend on the stream, or reports an error when they do not fit; every operation that loads takes
  back what the corresponding one wrote.
\<close>

section \<open>Writing\<close>

text \<open>\<open>f\<close> writes the bytes \<open>x\<close> and returns \<open>v\<close>, or reports an error if there is no room for them.\<close>

definition emits :: "(rio \<Rightarrow> ('a \<times> rio) option option) \<Rightarrow> 'a \<Rightarrow> string \<Rightarrow> bool" where
  "emits f v x \<longleftrightarrow> (\<forall>r. f r = Some (if has_room (length x) r then Some (v, wrote x r) else None))"

lemma emitsI: "(\<And>r. f r = Some (if has_room (length x) r then Some (v, wrote x r) else None)) \<Longrightarrow> emits f v x"
  by (simp add: emits_def)

lemma emitsD: "emits f v x \<Longrightarrow> f r = Some (if has_room (length x) r then Some (v, wrote x r) else None)"
  by (simp add: emits_def)

lemma has_room_0 [simp]: "has_room 0 r"
  by (simp add: has_room_def)

lemma has_room_mono: "has_room n r \<Longrightarrow> m \<le> n \<Longrightarrow> has_room m r"
  by (auto simp: has_room_def)

lemma emits_return: "emits (\<lambda>r. Some (Some (v, r))) v []"
  by (simp add: emits_def)

lemma emits_bind:
  assumes "emits f v x" "emits (g v) w y"
  shows "emits (\<lambda>r. ebind (f r) (\<lambda>(u, r1). g u r1)) w (x @ y)"
proof (rule emitsI)
  fix r
  show "ebind (f r) (\<lambda>(u, r1). g u r1) = Some (if has_room (length (x @ y)) r then Some (w, wrote (x @ y) r) else None)"
    using has_room_mono [of "length x + length y" r "length x"]
    by (cases "has_room (length x) r") (auto simp: emitsD [OF assms(1)] emitsD [OF assms(2)])
qed

lemma ebind_lift: "ebind (Some m) (\<lambda>u. Some (g u)) = Some (Option.bind m g)"
  by (cases m) simp_all

lemma emits_bind1:
  assumes "emits (\<lambda>r. Some (f r)) v x" "emits (\<lambda>r. Some (g v r)) w y"
  shows "emits (\<lambda>r. Some (do { (u, r1) \<leftarrow> f r; g u r1 })) w (x @ y)"
  using emits_bind [of "\<lambda>r. Some (f r)" v x "\<lambda>u r. Some (g u r)", OF assms] by (simp add: split_def ebind_lift)

lemma write_raw: "rdbWriteRaw x r = (if has_room (length x) r then Some (length x, wrote x r) else None)"
  by (simp add: rdbWriteRaw_def rioWrite_rule)

lemma emits_raw: "emits (\<lambda>r. Some (rdbWriteRaw x r)) (length x) x"
  by (simp add: emits_def write_raw)

lemma emits_type: "emits (\<lambda>r. Some (rdbSaveType t r)) 1 [u8 (nat (t mod 256))]"
  by (simp add: emits_def rdbSaveType_def write_raw)



section \<open>Lengths\<close>

definition len_bytes :: "nat \<Rightarrow> string" where
  "len_bytes n =
     (if n < 64 then [u8 n] else if n < 16384 then [u8 (64 + n div 256), u8 (n mod 256)]
      else u8 128 # rev (le_chars 4 (int n)))"

lemma emits_len: "n < 2 ^ 32 \<Longrightarrow> emits (\<lambda>r. Some (rdbSaveLen n r)) (length (len_bytes n)) (len_bytes n)"
proof (rule emitsI)
  fix r assume n: "n < 2 ^ 32"
  have "has_room 5 r \<Longrightarrow> has_room (Suc 0) r" by (simp add: has_room_def) linarith
  then show "Some (rdbSaveLen n r) = Some (if has_room (length (len_bytes n)) r then Some (length (len_bytes n), wrote (len_bytes n) r) else None)"
    using n by (cases "has_room 1 r") (auto simp: rdbSaveLen_def len_bytes_def write_raw Let_def)
qed

lemma ahead_Cons: "ahead (c # x) r \<longleftrightarrow> ahead [c] r \<and> ahead x (did_read [c] r)"
  using ahead_append [of "[c]" x r] by simp

lemma read_1: "ahead [c] r \<Longrightarrow> rioRead 1 r = Some ([c], did_read [c] r)" "ahead [c] r \<Longrightarrow> rioRead (Suc 0) r = Some ([c], did_read [c] r)"
  using rioRead_ahead [of "[c]" r] by simp_all

lemma load_len:
  assumes "ahead (len_bytes n) r" "n < 4294967295"
  shows "rdbLoadLen r = Some (False, n, did_read (len_bytes n) r)"
proof -
  consider "n < 64" | "64 \<le> n" "n < 16384" | "16384 \<le> n" by linarith
  then show ?thesis
  proof cases
    case 1
    then show ?thesis using assms(1) by (simp add: rdbLoadLen_def len_bytes_def read_1 Let_def)
  next
    case 2
    have d: "n div 256 < 64" using 2 by simp
    then have "(64 + n div 256) div 64 = 1" "(64 + n div 256) mod 64 = n div 256" "64 + n div 256 < 256" by simp_all
    moreover have "ahead [u8 (64 + n div 256)] r" "ahead [u8 (n mod 256)] (did_read [u8 (64 + n div 256)] r)"
      using assms(1) 2 ahead_Cons [of "u8 (64 + n div 256)" "[u8 (n mod 256)]" r] by (simp_all add: len_bytes_def)
    ultimately show ?thesis using 2 by (simp add: rdbLoadLen_def len_bytes_def read_1 Let_def)
  next
    case 3
    then have a: "ahead [u8 128] r" "ahead (rev (le_chars 4 (int n))) (did_read [u8 128] r)"
      using assms(1) ahead_Cons [of "u8 128" "rev (le_chars 4 (int n))" r] by (simp_all add: len_bytes_def)
    have "le_uint (map char_byte (le_chars 4 (int n))) = int n" using assms(2) by (simp add: le_uint_le_bytes)
    then show ?thesis using 3 a assms(2) rioRead_ahead [OF a(2)] by (simp add: rdbLoadLen_def len_bytes_def read_1 Let_def)
  qed
qed


lemma le_sint_at: "fits_bytes n v \<Longrightarrow> le_sint (map char_byte (le_chars n v)) = v"
  by simp

lemma load_type: "ahead [u8 n] r \<Longrightarrow> rdbLoadType r = Some (n mod 256, did_read [u8 n] r)"
  by (simp add: rdbLoadType_def read_1)


section \<open>Strings\<close>

text \<open>
  How a string that was loaded lies in the heap: as a new raw string, or as an integer object if
  encodings are asked for.
\<close>

definition made :: "bool \<Rightarrow> string \<Rightarrow> server \<Rightarrow> addr \<Rightarrow> server \<Rightarrow> bool" where
  "made encode x s b s2 \<longleftrightarrow> (b, s2) = createObject REDIS_STRING (Sds x) s \<or>
     encode \<and> (\<exists>v. long_range v \<and> x = dec_int v \<and> createStringObjectFromLongLong v s = Some (b, s2))"

text \<open>The bytes \<open>y\<close> are those of the string \<open>x\<close>.\<close>

definition str_bytes :: "string \<Rightarrow> string \<Rightarrow> bool" where
  "str_bytes x y \<longleftrightarrow> (\<forall>encode s r. heap_ok s \<longrightarrow> ahead y r \<longrightarrow>
     (\<exists>b s2. rdbGenericLoadStringObject encode s r = Some (Some (b, s2, did_read y r)) \<and> made encode x s b s2))"

lemma from_long_long:
  assumes "heap_ok s"
  shows "\<exists>b s2. createStringObjectFromLongLong v s = Some (b, s2)"
proof (cases "0 \<le> v \<and> v < 10000")
  case True
  then have "nat v < 10000" using nat_less_iff [of v 10000] by auto
  then obtain ob where "heap s (nat v) = Some ob" using assms unfolding heap_ok_def shared_ok_def by blast
  then show ?thesis using True by (simp add: createStringObjectFromLongLong_def incrRefCount_def upd_obj_def)
next
  case False
  then show ?thesis by (auto simp: createStringObjectFromLongLong_def createObject_def new_obj_def upd_obj_def)
qed

lemma encoded_int:
  assumes "rdbEncodeInteger v = Some y"
  shows "str_bytes (dec_int v) y"
  unfolding str_bytes_def
proof (intro allI impI)
  fix encode s r assume s: "heap_ok s" and a: "ahead y r"
  obtain k n where k: "y = u8 (192 + k) # le_chars n v" "fits_bytes n v" "k = 0 \<and> n = 1 \<or> k = 1 \<and> n = 2 \<or> k = 2 \<and> n = 4"
  proof -
    have "fits_bytes 1 v" if "- 128 \<le> v" "v \<le> 127" using that by (simp add: fits_bytes_def)
    moreover have "fits_bytes 2 v" if "- 32768 \<le> v" "v \<le> 32767" using that by (simp add: fits_bytes_def)
    moreover have "fits_bytes 4 v" if "- 2147483648 \<le> v" "v \<le> 2147483647" using that by (simp add: fits_bytes_def)
    ultimately show ?thesis using assms that [of 0 1] that [of 1 2] that [of 2 4] by (simp add: rdbEncodeInteger_def split: if_splits)
  qed
  have h: "ahead [u8 (192 + k)] r" "ahead (le_chars n v) (did_read [u8 (192 + k)] r)" using a unfolding k(1) ahead_Cons [of _ "le_chars n v"] by simp_all
  have len: "rdbLoadLen r = Some (True, k, did_read [u8 (192 + k)] r)" using h(1) k(3) by (auto simp: rdbLoadLen_def read_1 Let_def)
  have rd: "rioRead n (did_read [u8 (192 + k)] r) = Some (le_chars n v, did_read y r)"
    using rioRead_ahead [OF h(2)] k(1) by simp
  have v: "long_range v" using assms by (auto simp: rdbEncodeInteger_def long_range_def split: if_splits)
  obtain b s2 where b: "createStringObjectFromLongLong v s = Some (b, s2)" using from_long_long [OF s] by blast
  have l: "rdbLoadIntegerObject k encode s (did_read [u8 (192 + k)] r) =
    (if encode then Some (Some (b, s2, did_read y r))
     else (case createObject REDIS_STRING (Sds (dec_int v)) s of (a, s1) \<Rightarrow> Some (Some (a, s1, did_read y r))))"
  proof -
    have e: "(if k = 0 then 1 else if k = 1 then 2 else 4) = n" "\<not> (k \<noteq> 0 \<and> k \<noteq> 1 \<and> k \<noteq> 2)" using k(3) by auto
    show ?thesis unfolding rdbLoadIntegerObject_def e(1) rd using e(2) b le_sint_at [OF k(2)] by auto
  qed
  have k2: "k = 0 \<or> k = 1 \<or> k = 2" using k(3) by blast
  show "\<exists>b s2. rdbGenericLoadStringObject encode s r = Some (Some (b, s2, did_read y r)) \<and> made encode (dec_int v) s b s2"
    unfolding rdbGenericLoadStringObject_def len using l k2 b v by (auto simp: made_def split: prod.splits)
qed

lemma plain_string:
  assumes "length x < 4294967295"
  shows "str_bytes x (len_bytes (length x) @ x)"
  unfolding str_bytes_def
proof (intro allI impI)
  fix encode s r assume a: "ahead (len_bytes (length x) @ x) r"
  then have "rdbLoadLen r = Some (False, length x, did_read (len_bytes (length x)) r)"
    "rioRead (length x) (did_read (len_bytes (length x)) r) = Some (x, did_read (len_bytes (length x) @ x) r)"
    using load_len assms rioRead_ahead by (simp_all add: ahead_append)
  then show "\<exists>b s2. rdbGenericLoadStringObject encode s r = Some (Some (b, s2, did_read (len_bytes (length x) @ x) r)) \<and> made encode x s b s2"
    by (auto simp: rdbGenericLoadStringObject_def made_def split: prod.splits)
qed

lemma lzf_string:
  assumes "lzf_decompress c (length x) = Some (Some x)" "length c < 4294967295" "length x < 4294967295"
  shows "str_bytes x (u8 195 # len_bytes (length c) @ len_bytes (length x) @ c)"
  unfolding str_bytes_def
proof (intro allI impI)
  fix encode s r let ?y = "u8 195 # len_bytes (length c) @ len_bytes (length x) @ c"
  assume "ahead ?y r"
  then have a: "ahead [u8 195] r" "ahead (len_bytes (length c)) (did_read [u8 195] r)"
    "ahead (len_bytes (length x)) (did_read (u8 195 # len_bytes (length c)) r)" "ahead c (did_read (u8 195 # len_bytes (length c) @ len_bytes (length x)) r)"
    unfolding ahead_Cons [of _ "len_bytes (length c) @ _"] ahead_append by simp_all
  have "rdbLoadLen r = Some (True, 3, did_read [u8 195] r)" using a(1) by (simp add: rdbLoadLen_def read_1 Let_def)
  moreover have "rdbLoadLzfStringObject s (did_read [u8 195] r) = (case createObject REDIS_STRING (Sds x) s of (a, s1) \<Rightarrow> Some (Some (a, s1, did_read ?y r)))"
    using load_len [OF a(2) assms(2)] load_len [OF a(3) assms(3)] rioRead_ahead [OF a(4)] assms(1) by (simp add: rdbLoadLzfStringObject_def)
  ultimately show "\<exists>b s2. rdbGenericLoadStringObject encode s r = Some (Some (b, s2, did_read ?y r)) \<and> made encode x s b s2"
    by (auto simp: rdbGenericLoadStringObject_def made_def split: prod.splits)
qed


lemma strtoll_range: "long_range (fst (strtoll x))"
  by (simp add: strtoll_def long_range_def Let_def)

lemma try_int:
  obtains e where "rdbTryIntegerEncoding x = Some e" "\<And>y. e = Some y \<Longrightarrow> str_bytes x y"
proof -
  obtain v ep er where v: "strtoll (c_str x) = (v, ep, er)" by (cases "strtoll (c_str x)")
  then have buf: "ll_chars 32 v = Some (dec_int v)" using strtoll_range [of "c_str x"] by (simp add: ll_chars_ok)
  show ?thesis
  proof (cases "ep = [] \<and> length (dec_int v) = length x \<and> memcmp (dec_int v) x = 0")
    case True
    then have "rdbTryIntegerEncoding x = Some (rdbEncodeInteger v)" "x = dec_int v"
      using v buf memcmp_zero [of "dec_int v" x] by (simp_all add: rdbTryIntegerEncoding_def)
    then show ?thesis using that encoded_int by simp
  next
    case False
    then have "rdbTryIntegerEncoding x = Some None" using v buf by (auto simp: rdbTryIntegerEncoding_def)
    then show ?thesis using that by simp
  qed
qed

lemma emits_plain:
  assumes "length x < 4294967295"
  shows "emits (\<lambda>r. Some (do {
      (n1, r2) \<leftarrow> rdbSaveLen (length x) r;
      if length x > 0 then do { (n2, r3) \<leftarrow> rdbWriteRaw x r2; Some (n1 + length x, r3) } else Some (n1, r2)
    })) (length (len_bytes (length x) @ x)) (len_bytes (length x) @ x)"
proof (rule emits_bind1 [OF emits_len])
  have "emits (\<lambda>r. Some (do { (n2, r3) \<leftarrow> rdbWriteRaw x r; Some (n1 + length x, r3) })) (n1 + length x) (x @ [])" for n1
    by (rule emits_bind1 [OF emits_raw emits_return])
  then show "emits (\<lambda>r. Some (if length x > 0 then do { (n2, r3) \<leftarrow> rdbWriteRaw x r; Some (length (len_bytes (length x)) + length x, r3) }
      else Some (length (len_bytes (length x)), r))) (length (len_bytes (length x) @ x)) x"
    by (cases "x = []") (simp_all add: emits_return)
qed (use assms in simp)

lemma emits_lzf:
  assumes "length c < 4294967295" "length x < 4294967295"
  shows "emits (\<lambda>r. Some (do {
      (n1, r1) \<leftarrow> rdbWriteRaw [u8 195] r;
      (n2, r2) \<leftarrow> rdbSaveLen (length c) r1;
      (n3, r3) \<leftarrow> rdbSaveLen (length x) r2;
      (n4, r4) \<leftarrow> rdbWriteRaw c r3;
      Some (n1 + n2 + n3 + n4, r4)
    })) (length [u8 195] + length (len_bytes (length c)) + length (len_bytes (length x)) + length c)
      ([u8 195] @ len_bytes (length c) @ len_bytes (length x) @ c @ [])"
  by (rule emits_bind1 [OF emits_raw emits_bind1 [OF emits_len emits_bind1 [OF emits_len emits_bind1 [OF emits_raw emits_return]]]]) (use assms in auto)

lemma save_raw_string:
  assumes "length x < 4294967295"
  obtains y where "emits (rdbSaveRawString cfg junk x) (length y) y" "str_bytes x y"
proof -
  obtain e where e: "rdbTryIntegerEncoding x = Some e" "\<And>y. e = Some y \<Longrightarrow> str_bytes x y" by (rule try_int) blast
  define e' where "e' = (if length x \<le> 11 then e else None)"
  let ?lzf = "\<lambda>r. if rdb_compression cfg \<and> length x > 20 then rdbSaveLzfStringObject junk x r else Some (Some (0, r))"
  have unf: "rdbSaveRawString cfg junk x r = (case e' of
       Some buf \<Rightarrow> Some (rdbWriteRaw buf r)
     | None \<Rightarrow> ebind (?lzf r) (\<lambda>(n, r1). if n > 0 then Some (Some (n, r1))
         else Some (do {
             (n1, r2) \<leftarrow> rdbSaveLen (length x) r1;
             if length x > 0 then do { (n2, r3) \<leftarrow> rdbWriteRaw x r2; Some (n1 + length x, r3) } else Some (n1, r2)
           })))" for r using e(1) by (simp add: rdbSaveRawString_def e'_def)
  show ?thesis
  proof (cases e')
    case (Some y)
    then have "emits (rdbSaveRawString cfg junk x) (length y) y" using emits_raw [of y] by (simp add: emits_def unf)
    moreover have "e = Some y" using Some by (simp add: e'_def split: if_splits)
    ultimately show ?thesis using that e(2) by blast
  next
    case None
    show ?thesis
    proof (cases "\<exists>c. rdb_compression cfg \<and> length x > 20 \<and> lzf_compress junk (length x - 4 + 1) x (length x - 4) = Some (Some c)")
      case True
      then obtain c where c: "rdb_compression cfg" "length x > 20" "lzf_compress junk (length x - 4 + 1) x (length x - 4) = Some (Some c)" by blast
      then have d: "length c \<le> length x - 4" "lzf_decompress c (length x) = Some (Some x)"
        using lzf_compress_rule [of x junk "length x - 4"] by auto
      let ?y = "[u8 195] @ len_bytes (length c) @ len_bytes (length x) @ c @ []"
      have lc: "length c < 4294967295" using d(1) assms by simp
      have "emits (rdbSaveRawString cfg junk x) (length ?y) ?y"
        using emits_lzf [OF lc assms] c None by (auto simp: emits_def unf rdbSaveLzfStringObject_def add.assoc)
      then show ?thesis by (rule that) (use lzf_string [OF d(2) lc assms] in simp)
    next
      case False
      have "?lzf r = Some (Some (0, r))" for r
        using False lzf_compress_rule [of x junk "length x - 4"] by (auto simp: rdbSaveLzfStringObject_def)
      then have "emits (rdbSaveRawString cfg junk x) (length (len_bytes (length x) @ x)) (len_bytes (length x) @ x)"
        using emits_plain [OF assms] None by (simp add: emits_def unf)
      then show ?thesis using that plain_string [OF assms] by blast
    qed
  qed
qed

lemma dec_length: "long_range v \<Longrightarrow> length (dec_int v) < 32 \<and> length (dec_int v) < 4294967295"
  using length_dec_int_le [of v] by simp

lemma save_long_long:
  assumes "long_range v"
  obtains y where "emits (rdbSaveLongLongAsStringObject v) (length y) y" "str_bytes (dec_int v) y"
proof (cases "rdbEncodeInteger v")
  case (Some y)
  then have "emits (rdbSaveLongLongAsStringObject v) (length y) y" using emits_raw [of y] by (simp add: emits_def rdbSaveLongLongAsStringObject_def)
  then show ?thesis using that encoded_int [OF Some] by blast
next
  case None
  let ?x = "dec_int v"
  have "emits (\<lambda>r. Some (do { (n1, r1) \<leftarrow> rdbSaveLen (length ?x) r; (n2, r2) \<leftarrow> rdbWriteRaw ?x r1; Some (n1 + n2, r2) }))
    (length (len_bytes (length ?x)) + length ?x) (len_bytes (length ?x) @ ?x @ [])"
    by (rule emits_bind1 [OF emits_len emits_bind1 [OF emits_raw emits_return]]) (use dec_length [OF assms] in simp)
  then have "emits (rdbSaveLongLongAsStringObject v) (length (len_bytes (length ?x) @ ?x)) (len_bytes (length ?x) @ ?x)"
    using None dec_length [OF assms] ll_chars_ok [OF assms, of 32] by (simp add: emits_def rdbSaveLongLongAsStringObject_def)
  then show ?thesis using that plain_string dec_length [OF assms] by blast
qed

lemma save_string:
  assumes "heap s a = Some ob" "str_ok ob" "length (str_val ob) < 4294967295"
  obtains y where "emits (rdbSaveStringObject cfg junk s a) (length y) y" "str_bytes (str_val ob) y"
  using assms(2)
proof (cases rule: str_ok_cases)
  case (raw x)
  obtain y where y: "emits (rdbSaveRawString cfg junk x) (length y) y" "str_bytes x y" using save_raw_string [of x] assms(3) raw(4) by auto
  have "rdbSaveStringObject cfg junk s a = rdbSaveRawString cfg junk x"
    using raw assms(1) by (auto simp: rdbSaveStringObject_def obj_def sds_of_def)
  then show ?thesis using that y raw(4) by simp
next
  case (int v)
  obtain y where y: "emits (rdbSaveLongLongAsStringObject v) (length y) y" "str_bytes (dec_int v) y" using save_long_long [OF int(4)] by blast
  have "rdbSaveStringObject cfg junk s a = rdbSaveLongLongAsStringObject v"
    using int assms(1) by (auto simp: rdbSaveStringObject_def obj_def)
  then show ?thesis using that y int(5) by simp
qed


lemma made_value:
  assumes "heap_ok s" "made encode x s b s2"
  shows "\<exists>ob. heap s2 b = Some ob \<and> str_ok ob \<and> str_val ob = x"
  using assms(2) unfolding made_def
proof (elim disjE conjE exE)
  assume "(b, s2) = createObject REDIS_STRING (Sds x) s"
  then show ?thesis by (auto simp: createObject_def new_obj_def str_ok_def str_val_def)
next
  fix v assume v: "long_range v" "x = dec_int v" "createStringObjectFromLongLong v s = Some (b, s2)"
  show ?thesis
  proof (cases "0 \<le> v \<and> v < 10000")
    case True
    then have "nat v < 10000" using nat_less_iff [of v 10000] by auto
    then obtain ob where "heap s (nat v) = Some ob" "otype ob = REDIS_STRING" "encoding ob = REDIS_ENCODING_INT" "ptr ob = Long (int (nat v))"
      using assms(1) unfolding heap_ok_def shared_ok_def by blast
    then show ?thesis using v True by (auto simp: createStringObjectFromLongLong_def incrRefCount_def upd_obj_def str_ok_def str_val_def)
  next
    case False
    then show ?thesis using v by (auto simp: createStringObjectFromLongLong_def createObject_def new_obj_def upd_obj_def str_ok_def str_val_def long_range_def)
  qed
qed

text \<open>
  C22. Saving a string object of either encoding writes bytes that do not depend on the stream, an integer,
  compressed data or the string itself, and returns their number; it reports an error when they do not fit.
  Loading those bytes, with or without encoding, wherever they stand in a stream, gives an object for the
  same string and reads no further.
\<close>

theorem rdb_string_roundtrip:
  assumes "heap s a = Some ob" "str_ok ob" "length (str_val ob) < 4294967295"
  shows "\<exists>y. (\<forall>r. rdbSaveStringObject cfg junk s a r = Some (if has_room (length y) r then Some (length y, wrote y r) else None)) \<and>
    (\<forall>encode s' r'. heap_ok s' \<longrightarrow> ahead y r' \<longrightarrow>
       (\<exists>b s2 ob2. rdbGenericLoadStringObject encode s' r' = Some (Some (b, s2, did_read y r')) \<and>
          heap s2 b = Some ob2 \<and> str_ok ob2 \<and> str_val ob2 = str_val ob))"
proof -
  obtain y where y: "emits (rdbSaveStringObject cfg junk s a) (length y) y" "str_bytes (str_val ob) y"
    using save_string [OF assms] by blast
  show ?thesis
  proof (intro exI [of _ y] conjI allI impI)
    fix encode s' r' assume s: "heap_ok s'" "ahead y r'"
    then obtain b s2 where "rdbGenericLoadStringObject encode s' r' = Some (Some (b, s2, did_read y r'))" "made encode (str_val ob) s' b s2"
      using y(2) unfolding str_bytes_def by blast
    then show "\<exists>b s2 ob2. rdbGenericLoadStringObject encode s' r' = Some (Some (b, s2, did_read y r')) \<and>
          heap s2 b = Some ob2 \<and> str_ok ob2 \<and> str_val ob2 = str_val ob"
      using made_value [OF s(1)] by blast
  qed (rule emitsD [OF y(1)])
qed

theorem rdb_string_roundtrip_witness:
  "\<exists>y. rdbSaveStringObject \<lparr>rdb_compression = True, rdb_checksum = True, lastsave = 0, lastbgsave_ok = True\<rparr> (\<lambda>_. 0)
      (snd (new_obj (one_string ''hello'' 3) initServer)) 10000 (rioInitWithBuffer []) = Some (Some (length y, wrote y (rioInitWithBuffer []))) \<and>
    (\<exists>b s2 ob2. rdbGenericLoadStringObject True initServer (rioInitWithFile y 0) = Some (Some (b, s2, did_read y (rioInitWithFile y 0))) \<and>
       heap s2 b = Some ob2 \<and> str_val ob2 = ''hello'')"
proof -
  let ?s = "snd (new_obj (one_string ''hello'' 3) initServer)"
  have h: "heap ?s 10000 = Some (one_string ''hello'' 3)" "str_ok (one_string ''hello'' 3)" "str_val (one_string ''hello'' 3) = ''hello''"
    by (simp_all add: new_obj_def initServer_def one_string_def str_ok_def str_val_def)
  have "ahead y (rioInitWithFile y 0)" "has_room n (rioInitWithBuffer [])" for y n
    by (simp_all add: ahead_def rioInitWithFile_def has_room_def rioInitWithBuffer_def)
  then show ?thesis
    using rdb_string_roundtrip [OF h(1,2), of "\<lparr>rdb_compression = True, rdb_checksum = True, lastsave = 0, lastbgsave_ok = True\<rparr>" "\<lambda>_. 0"] h(3) heap_ok_init
    by fastforce
qed



section \<open>Saving whole databases\<close>

definition emits0 :: "(rio \<Rightarrow> rio option option) \<Rightarrow> string \<Rightarrow> bool" where
  "emits0 f x \<longleftrightarrow> (\<forall>r. f r = Some (if has_room (length x) r then Some (wrote x r) else None))"

lemma emits0D: "emits0 f x \<Longrightarrow> f r = Some (if has_room (length x) r then Some (wrote x r) else None)"
  by (simp add: emits0_def)

lemma emits0_return: "emits0 (\<lambda>r. Some (Some r)) []"
  by (simp add: emits0_def)

lemma emits0_bind:
  assumes "emits f v x" "emits0 g y"
  shows "emits0 (\<lambda>r. ebind (f r) (\<lambda>(u, r1). g r1)) (x @ y)"
  unfolding emits0_def
proof
  fix r
  show "ebind (f r) (\<lambda>(u, r1). g r1) = Some (if has_room (length (x @ y)) r then Some (wrote (x @ y) r) else None)"
    using has_room_mono [of "length x + length y" r "length x"]
    by (cases "has_room (length x) r") (auto simp: emitsD [OF assms(1)] emits0D [OF assms(2)])
qed

lemma emits0_bind0:
  assumes "emits0 f x" "emits0 g y"
  shows "emits0 (\<lambda>r. ebind (f r) g) (x @ y)"
  unfolding emits0_def
proof
  fix r
  show "ebind (f r) g = Some (if has_room (length (x @ y)) r then Some (wrote (x @ y) r) else None)"
    using has_room_mono [of "length x + length y" r "length x"]
    by (cases "has_room (length x) r") (auto simp: emits0D [OF assms(1)] emits0D [OF assms(2)])
qed

text \<open>Objects that can be saved: strings, and containers of strings; a block gives its own length.\<close>

definition short_string :: "server \<Rightarrow> addr \<Rightarrow> bool" where
  "short_string s a \<longleftrightarrow> (\<exists>ob. heap s a = Some ob \<and> str_ok ob \<and> length (str_val ob) < 4294967295)"

definition savable :: "(addr \<Rightarrow> string) \<Rightarrow> server \<Rightarrow> addr \<Rightarrow> bool" where
  "savable blk s a \<longleftrightarrow> (\<exists>ob. heap s a = Some ob \<and>
     (case (otype ob, encoding ob, ptr ob) of
        (REDIS_STRING, _, _) \<Rightarrow> short_string s a
      | (REDIS_LIST, REDIS_ENCODING_LINKEDLIST, Linked as) \<Rightarrow> length as < 4294967295 \<and> list_all (short_string s) as
      | (REDIS_SET, REDIS_ENCODING_HT, DictSet as) \<Rightarrow> length as < 4294967295 \<and> list_all (short_string s) as
      | (REDIS_SET, REDIS_ENCODING_INTSET, Is is) \<Rightarrow> intsetBlobLen is \<le> length (intset_chars is) \<and> intsetBlobLen is < 4294967295
      | (REDIS_HASH, REDIS_ENCODING_HT, DictHash kvs) \<Rightarrow> length kvs < 4294967295 \<and> list_all (\<lambda>(k, v). short_string s k \<and> short_string s v) kvs
      | (ty, REDIS_ENCODING_ZIPLIST, Ziplist _) \<Rightarrow> ty \<noteq> REDIS_SET \<and> ZIPLIST_BYTES (blk a) = Some (length (blk a)) \<and> length (blk a) < 4294967295
      | _ \<Rightarrow> False))"

lemma save_strings_emits:
  "list_all (short_string s) as \<Longrightarrow> \<exists>y. emits (save_strings cfg junk s as) (length y) y"
proof (induction as)
  case (Cons a as)
  obtain ob where ob: "heap s a = Some ob" "str_ok ob" "length (str_val ob) < 4294967295" using Cons.prems by (auto simp: short_string_def)
  obtain x where x: "emits (rdbSaveStringObject cfg junk s a) (length x) x" using save_string [OF ob] by blast
  obtain y where y: "emits (save_strings cfg junk s as) (length y) y" using Cons by auto
  have "emits (\<lambda>r. ebind (rdbSaveStringObject cfg junk s a r) (\<lambda>(n, r1). ebind (save_strings cfg junk s as r1) (\<lambda>(m, r2). Some (Some (n + m, r2)))))
    (length x + length y) (x @ y @ [])"
    by (rule emits_bind [OF x emits_bind [OF y emits_return]])
  then show ?case by (auto simp: emits_def intro!: exI [of _ "x @ y"])
qed (auto simp: emits_def intro!: exI [of _ "[]"])

lemma save_counted_emits:
  assumes "n < 4294967295" "list_all (short_string s) as"
  shows "\<exists>y. emits (save_counted cfg junk s n as) (length y) y"
proof -
  obtain y where y: "emits (save_strings cfg junk s as) (length y) y" using save_strings_emits [OF assms(2)] by blast
  have "emits (\<lambda>r. ebind (Some (rdbSaveLen n r)) (\<lambda>(k, r1). ebind (save_strings cfg junk s as r1) (\<lambda>(m, r2). Some (Some (k + m, r2)))))
    (length (len_bytes n) + length y) (len_bytes n @ y @ [])"
    by (rule emits_bind [OF emits_len emits_bind [OF y emits_return]]) (use assms in simp)
  then show ?thesis by (auto simp: emits_def save_counted_def intro!: exI [of _ "len_bytes n @ y"])
qed

lemma save_object_emits:
  assumes "savable blk s a"
  obtains y where "emits (rdbSaveObject cfg junk blk s a) (length y) y"
proof -
  have raw: "\<exists>y. emits (rdbSaveRawString cfg junk x) (length y) y" if "length x < 4294967295" for x using save_raw_string [OF that] by blast
  have str: "\<exists>y. emits (rdbSaveStringObject cfg junk s a) (length y) y" if "short_string s a" using that save_string unfolding short_string_def by blast
  have hash: "list_all (short_string s) (concat (map (\<lambda>(k, v). [k, v]) kvs))" if "list_all (\<lambda>(k, v). short_string s k \<and> short_string s v) kvs" for kvs
    using that by (induction kvs) auto
  obtain ob where ob: "heap s a = Some ob" using assms by (auto simp: savable_def)
  have "\<exists>y. emits (rdbSaveObject cfg junk blk s a) (length y) y"
    using assms ob raw str hash save_counted_emits
    by (cases "otype ob"; cases "encoding ob"; cases "ptr ob")
      (auto simp: savable_def rdbSaveObject_def obj_def save_block_def ziplistBlobLen_def rdn_def emits_def)
  then show ?thesis using that by blast
qed


text \<open>The bytes of an entry: its expire time, type, version, key and value.\<close>

definition expire_bytes :: "int \<Rightarrow> string" where
  "expire_bytes t = (if t = - 1 then [] else u8 252 # le_chars 8 t)"

definition type_code :: "robj \<Rightarrow> nat" where
  "type_code ob = (case (otype ob, encoding ob) of
      (REDIS_STRING, _) \<Rightarrow> 0
    | (REDIS_LIST, REDIS_ENCODING_ZIPLIST) \<Rightarrow> 10 | (REDIS_LIST, _) \<Rightarrow> 1
    | (REDIS_SET, REDIS_ENCODING_INTSET) \<Rightarrow> 11 | (REDIS_SET, _) \<Rightarrow> 2
    | (REDIS_ZSET, REDIS_ENCODING_ZIPLIST) \<Rightarrow> 12 | (REDIS_ZSET, _) \<Rightarrow> 3
    | (REDIS_HASH, REDIS_ENCODING_ZIPLIST) \<Rightarrow> 13 | (REDIS_HASH, _) \<Rightarrow> 4)"

lemma save_type_emits: "savable blk s a \<Longrightarrow> heap s a = Some ob \<Longrightarrow> emits (rdbSaveObjectType ob) 1 [u8 (type_code ob)]"
  by (cases "otype ob"; cases "encoding ob") (auto simp: savable_def rdbSaveObjectType_def type_code_def emits_def rdbSaveType_def write_raw split: payload.splits)

lemma expire_emits:
  "emits (\<lambda>r. Some (if t \<noteq> - 1 then do { (_, r1) \<leftarrow> rdbSaveType 252 r; rdbSaveMillisecondTime t r1 } else Some (0, r)))
     (if t \<noteq> - 1 then 8 else 0) (expire_bytes t)"
proof (cases "t = - 1")
  case False
  have "emits (\<lambda>r. Some (do { (_, r1) \<leftarrow> rdbSaveType 252 r; rdbSaveMillisecondTime t r1 })) 8 ([u8 (nat (252 mod 256))] @ le_chars 8 t)"
    by (rule emits_bind1 [OF emits_type]) (use emits_raw [of "le_chars 8 t"] in \<open>simp add: rdbSaveMillisecondTime_def\<close>)
  then show ?thesis using False by (simp add: expire_bytes_def)
qed (simp add: expire_bytes_def emits_return)

lemma save_pair_emits:
  assumes "savable blk s a" "heap s a = Some ob" "t = - 1 \<or> now \<le> t"
    and key: "emits (rdbSaveRawString cfg junk k) (length y1) y1" and val: "emits (rdbSaveObject cfg junk blk s a) (length y2) y2"
  shows "emits (rdbSaveKeyValuePair cfg junk blk s k a t now) True (expire_bytes t @ [u8 (type_code ob)] @ [u8 (nat (vers ob mod 256))] @ y1 @ y2 @ [])"
proof -
  have "emits (\<lambda>r. ebind (Some (if t \<noteq> - 1 then do { (_, r1) \<leftarrow> rdbSaveType 252 r; rdbSaveMillisecondTime t r1 } else Some (0, r))) (\<lambda>(_, r1).
      ebind (rdbSaveObjectType ob r1) (\<lambda>(_, r2).
      ebind (Some (rdbSaveType (vers ob) r2)) (\<lambda>(_, r3).
      ebind (rdbSaveRawString cfg junk k r3) (\<lambda>(_, r4).
      ebind (rdbSaveObject cfg junk blk s a r4) (\<lambda>(_, r5). Some (Some (True, r5))))))))
    True (expire_bytes t @ [u8 (type_code ob)] @ [u8 (nat (vers ob mod 256))] @ y1 @ y2 @ [])"
    by (rule emits_bind [OF expire_emits emits_bind [OF save_type_emits [OF assms(1,2)]
      emits_bind [OF emits_type emits_bind [OF key emits_bind [OF val emits_return]]]]])
  moreover have n: "(t \<noteq> - 1 \<and> t < now) = False" using assms(3) by auto
  moreover have o: "obj s a = Some ob" using assms(2) by (simp add: obj_def)
  ultimately show ?thesis by (simp only: rdbSaveKeyValuePair_def [abs_def] n if_False o Option.bind.bind_lunit)
qed

text \<open>Databases that can be saved.\<close>

definition db_savable :: "(addr \<Rightarrow> string) \<Rightarrow> server \<Rightarrow> redisDb \<Rightarrow> bool" where
  "db_savable blk s dbv \<longleftrightarrow> (\<forall>(k, a) \<in> set (dict dbv). length k < 4294967295 \<and> savable blk s a)"

lemma pair_emits:
  assumes "length k < 4294967295" "savable blk s a"
  shows "\<exists>v y. emits (rdbSaveKeyValuePair cfg junk blk s k a t now) v y"
proof (cases "t \<noteq> - 1 \<and> t < now")
  case True
  then have "emits (rdbSaveKeyValuePair cfg junk blk s k a t now) False []" by (simp add: rdbSaveKeyValuePair_def [abs_def] emits_return)
  then show ?thesis by blast
next
  case False
  obtain ob where ob: "heap s a = Some ob" using assms(2) by (auto simp: savable_def)
  obtain y1 where y1: "emits (rdbSaveRawString cfg junk k) (length y1) y1" using save_raw_string [OF assms(1)] by blast
  obtain y2 where y2: "emits (rdbSaveObject cfg junk blk s a) (length y2) y2" using save_object_emits [OF assms(2)] by blast
  have "t = - 1 \<or> now \<le> t" using False by auto
  from save_pair_emits [OF assms(2) ob this y1 y2] show ?thesis by blast
qed

lemma entries_emits:
  assumes "\<forall>(k, a) \<in> set es. length k < 4294967295 \<and> savable blk s a" "set es \<subseteq> set (dict dbv)"
  shows "\<exists>y. emits0 (save_entries cfg junk blk s now dbv es) y"
  using assms
proof (induction es)
  case (Cons e es)
  obtain k a where e: "e = (k, a)" by (cases e)
  have "dictFind (dict dbv) k \<noteq> None" using Cons.prems(2) e weak_map_of_SomeI [of k a "dict dbv"] by (auto simp: dictFind_def)
  then have "\<exists>t. key_expire dbv k = Some t" by (cases "dictFind (expires dbv) k") (simp_all add: key_expire_def)
  then obtain t where t: "key_expire dbv k = Some t" ..
  obtain v x where x: "emits (rdbSaveKeyValuePair cfg junk blk s k a t now) v x" using pair_emits Cons.prems(1) e by fastforce
  obtain y where "emits0 (save_entries cfg junk blk s now dbv es) y" using Cons by auto
  from emits0_bind [OF x this] show ?case using e t by (auto simp: emits0_def)
qed (auto intro!: exI [of _ "[]"] simp: emits0_def)

lemma dbs_emits:
  assumes "\<forall>dbv \<in> set dbs. db_savable blk s dbv" "j + length dbs < 4294967295"
  shows "\<exists>y. emits0 (save_dbs cfg junk blk s now j dbs) y"
  using assms
proof (induction dbs arbitrary: j)
  case (Cons dbv dbs)
  obtain z where z: "emits0 (save_dbs cfg junk blk s now (Suc j) dbs) z" using Cons.IH [of "Suc j"] Cons.prems by auto
  show ?case
  proof (cases "dict dbv = []")
    case False
    obtain y where y: "emits0 (save_entries cfg junk blk s now dbv (dict dbv)) y"
      using entries_emits [of "dict dbv" blk s dbv] Cons.prems(1) unfolding db_savable_def by (meson list.set_intros(1) order_refl)
    have "emits0 (\<lambda>r. ebind (Some (rdbSaveType 254 r)) (\<lambda>(_, r1).
        ebind (Some (rdbSaveLen j r1)) (\<lambda>(_, r2).
        ebind (save_entries cfg junk blk s now dbv (dict dbv) r2) (save_dbs cfg junk blk s now (Suc j) dbs))))
      ([u8 (nat (254 mod 256))] @ len_bytes j @ y @ z)"
      by (rule emits0_bind [OF emits_type emits0_bind [OF emits_len emits0_bind0 [OF y z]]]) (use Cons.prems(2) in simp)
    then show ?thesis using False by (auto simp: emits0_def)
  qed (use z in \<open>auto simp: emits0_def\<close>)
qed (auto intro!: exI [of _ "[]"] simp: emits0_def)


definition dump_rio :: "rdb_server \<Rightarrow> nat \<Rightarrow> rio" where
  "dump_rio cfg n = (rioInitWithFile [] n)\<lparr>update_cksum := rdb_checksum cfg\<rparr>"

definition with_cksum :: "rdb_server \<Rightarrow> string \<Rightarrow> string" where
  "with_cksum cfg x = x @ le_chars 8 (uint (if rdb_checksum cfg then crc64 0 x else 0))"

lemma save_all_rule:
  assumes "emits0 (save_dbs cfg junk blk s (mstime s) 0 (db s)) y"
  shows "\<exists>r. save_all cfg junk blk s (dump_rio cfg n) =
    Some (if length (with_cksum cfg (''REDIS0006'' @ y @ [u8 255])) \<le> n then Some r else None) \<and>
    rdata r = with_cksum cfg (''REDIS0006'' @ y @ [u8 255])"
proof -
  let ?x = "''REDIS0006'' @ y @ [u8 (nat (255 mod 256))] @ []" and ?r = "dump_rio cfg n"
  let ?f = "\<lambda>r. ebind (Some (rdbWriteRaw ''REDIS0006'' r)) (\<lambda>(_, r1).
     ebind (save_dbs cfg junk blk s (mstime s) 0 (db s) r1) (\<lambda>r2. ebind (Some (rdbSaveType 255 r2)) (\<lambda>(_, r3). Some (Some r3))))"
  have e: "emits0 ?f ?x" by (rule emits0_bind [OF emits_raw emits0_bind0 [OF assms emits0_bind [OF emits_type emits0_return]]])
  have f: "save_all cfg junk blk s ?r = ebind (?f ?r) (\<lambda>r3. Some (rioWrite (le_chars 8 (uint (cksum r3))) r3))"
    by (simp add: save_all_def ebind_def split: option.splits)
  have "cksum (wrote ?x ?r) = (if rdb_checksum cfg then crc64 0 ?x else 0)"
    by (simp add: dump_rio_def wrote_def next_cksum_def rioInitWithFile_def)
  moreover have "has_room m ?r \<longleftrightarrow> m \<le> n" for m by (simp add: has_room_def dump_rio_def rioInitWithFile_def)
  moreover have "rdata ?r = []" by (simp add: dump_rio_def rioInitWithFile_def)
  ultimately show ?thesis unfolding f emits0D [OF e]
    by (intro exI [of _ "wrote (with_cksum cfg (''REDIS0006'' @ y @ [u8 255])) ?r"]) (auto simp: rioWrite_rule with_cksum_def)
qed



end
