(* ===== verification/Rdb_Load.thy ===== *)
theory Rdb_Load
  imports Rdb_Rules
begin

text \<open>
  A dump of databases of strings is loaded again: every key gets back its string and its expire time,
  and its version modulo 256. Small integers are excluded, since they are loaded as shared objects,
  whose version all keys share; that this loses versions is shown by an example.
\<close>

section \<open>Loading one entry\<close>

definition small_int :: "string \<Rightarrow> bool" where
  "small_int x \<longleftrightarrow> (\<exists>v. 0 \<le> v \<and> v < 10000 \<and> x = dec_int v)"

lemma small_int_long: "small_int x \<Longrightarrow> string2l x \<noteq> None"
proof -
  assume "small_int x"
  then obtain v where "0 \<le> v" "v < 10000" "x = dec_int v" by (auto simp: small_int_def)
  then have "string2l x = Some v" by (simp add: string2l_iff long_range_def)
  then show ?thesis by simp
qed

lemma load_value:
  assumes s: "heap_ok s" and y: "str_bytes x y" "ahead y r" and x: "\<not> small_int x"
  shows "\<exists>ob. rdbLoadObject other 0 s r = Some (Some (brk s, s\<lparr>heap := (heap s)(brk s \<mapsto> ob), brk := brk s + 1\<rparr>, did_read y r)) \<and>
    str_ok ob \<and> str_val ob = x \<and> otype ob = REDIS_STRING"
proof -
  obtain b s2 where b: "rdbGenericLoadStringObject True s r = Some (Some (b, s2, did_read y r))" "made True x s b s2"
    using assms unfolding str_bytes_def by blast
  have "\<exists>ob. tryObjectEncoding b s2 = Some (brk s, s\<lparr>heap := (heap s)(brk s \<mapsto> ob), brk := brk s + 1\<rparr>) \<and> str_ok ob \<and> str_val ob = x \<and> otype ob = REDIS_STRING"
    using b(2) unfolding made_def
  proof (elim disjE conjE exE)
    let ?ob = "\<lparr>otype = REDIS_STRING, encoding = REDIS_ENCODING_RAW, refcount = 1, vers = 0, ptr = Sds x\<rparr>"
    assume "(b, s2) = createObject REDIS_STRING (Sds x) s"
    then have c: "b = brk s" "s2 = s\<lparr>heap := (heap s)(brk s \<mapsto> ?ob), brk := brk s + 1\<rparr>" by (simp_all add: createObject_def new_obj_def)
    show ?thesis
    proof (cases "string2l x")
      case None
      then show ?thesis using c tryObjectEncoding_plain [of s2 b ?ob] by (auto simp: str_ok_def str_val_def)
    next
      case (Some v)
      then have v: "long_range v" "x = dec_int v" by (simp_all add: string2l_iff)
      then have "v < 0 \<or> 10000 \<le> v" using x unfolding small_int_def by (metis not_le)
      then show ?thesis using c v tryObjectEncoding_in_place [of s2 b ?ob v] by (auto simp: str_ok_def str_val_def)
    qed
  next
    fix v assume v: "long_range v" "x = dec_int v" "createStringObjectFromLongLong v s = Some (b, s2)"
    then have "\<not> (0 \<le> v \<and> v < 10000)" using x by (auto simp: small_int_def)
    then show ?thesis using v
      by (intro exI [of _ "\<lparr>otype = REDIS_STRING, encoding = REDIS_ENCODING_INT, refcount = 1, vers = 0, ptr = Long v\<rparr>"])
        (auto simp: createStringObjectFromLongLong_def createObject_def new_obj_def upd_obj_def tryObjectEncoding_def obj_def str_ok_def str_val_def long_range_def)
  qed
  then show ?thesis using b(1) by (auto simp: rdbLoadObject_def rdbLoadEncodedStringObject_def)
qed

lemma load_key:
  assumes "heap_ok s" "str_bytes k y" "ahead y r"
  shows "rdbLoadStringObject s r = Some (Some (brk s,
    s\<lparr>heap := (heap s)(brk s \<mapsto> \<lparr>otype = REDIS_STRING, encoding = REDIS_ENCODING_RAW, refcount = 1, vers = 0, ptr = Sds k\<rparr>), brk := brk s + 1\<rparr>, did_read y r))"
proof -
  obtain b s2 where "rdbGenericLoadStringObject False s r = Some (Some (b, s2, did_read y r))" "made False k s b s2"
    using assms unfolding str_bytes_def by blast
  then show ?thesis by (simp add: rdbLoadStringObject_def made_def createObject_def new_obj_def)
qed

text \<open>The server with one more key.\<close>

definition with_entry :: "nat \<Rightarrow> string \<Rightarrow> robj \<Rightarrow> int \<Rightarrow> server \<Rightarrow> server" where
  "with_entry d k ob t s = s\<lparr>heap := (heap s)(brk s := None, brk s + 1 \<mapsto> ob), brk := brk s + 2,
     db := (db s)[d := (db s ! d)\<lparr>dict := (k, brk s + 1) # dict (db s ! d),
       expires := (if t = - 1 then expires (db s ! d) else AList.update k t (expires (db s ! d)))\<rparr>]\<rparr>"

lemma load_pair_rule:
  assumes s: "heap_ok s" "d < length (db s)" "dictFind (dict (db s ! d)) k = None"
    and y: "str_bytes k y1" "str_bytes x y2" "\<not> small_int x" "ahead ([u8 v] @ y1 @ y2) r" "v < 256"
    and t: "t = - 1 \<or> masterhost s \<or> now \<le> t"
  shows "\<exists>ob. load_pair other now d t 0 s r = Some (Next d (with_entry d k ob t s) (did_read ([u8 v] @ y1 @ y2) r)) \<and>
    str_ok ob \<and> str_val ob = x \<and> vers ob = int v"
proof -
  have a: "ahead [u8 v] r" "ahead y1 (did_read [u8 v] r)" "ahead y2 (did_read ([u8 v] @ y1) r)" using y(4) by (simp_all only: ahead_append did_read_simps)
  let ?key = "\<lparr>otype = REDIS_STRING, encoding = REDIS_ENCODING_RAW, refcount = 1, vers = 0, ptr = Sds k\<rparr>"
  let ?s1 = "s\<lparr>heap := (heap s)(brk s \<mapsto> ?key), brk := brk s + 1\<rparr>"
  have k: "rdbLoadStringObject s (did_read [u8 v] r) = Some (Some (brk s, ?s1, did_read ([u8 v] @ y1) r))"
    using load_key [OF s(1) y(1) a(2)] by simp
  have "heap_ok ?s1" by (rule heap_ok_new [OF s(1)])
  then obtain ob where ob: "rdbLoadObject other 0 ?s1 (did_read ([u8 v] @ y1) r) =
    Some (Some (brk s + 1, ?s1\<lparr>heap := (heap ?s1)(brk s + 1 \<mapsto> ob), brk := brk s + 2\<rparr>, did_read ([u8 v] @ y1 @ y2) r))"
    "str_ok ob" "str_val ob = x" "otype ob = REDIS_STRING" using load_value [OF _ y(2) a(3) y(3)] by fastforce
  have ty: "rdbLoadType r = Some (v, did_read [u8 v] r)" using load_type [OF a(1)] y(5) by simp
  have n: "\<not> (\<not> masterhost s \<and> t \<noteq> - 1 \<and> t < now)" using t by auto
  have f: "heap s (brk s) = None" using s(1) by simp
  let ?s2 = "?s1\<lparr>heap := (heap ?s1)(brk s + 1 \<mapsto> ob), brk := brk s + 2\<rparr>" and ?ob = "ob\<lparr>vers := int v\<rparr>"
  let ?s3 = "?s1\<lparr>heap := (heap ?s1)(brk s + 1 \<mapsto> ?ob), brk := brk s + 2\<rparr>"
  let ?s4 = "upd_db d (\<lambda>x. x\<lparr>dict := (k, brk s + 1) # dict x\<rparr>) ?s3"
  let ?s5 = "if t = - 1 then ?s4 else upd_db d (\<lambda>x. x\<lparr>expires := AList.update k t (expires x)\<rparr>) ?s4"
  have u: "upd_obj (brk s + 1) (\<lambda>ob. ob\<lparr>vers := int v\<rparr>) ?s2 = Some ?s3" by (simp add: upd_obj_def)
  have add: "dbAdd d (brk s) (brk s + 1) ?s3 = Some ?s4"
    using s(2,3) ob(4) by (simp add: dbAdd_def getdb_def sds_of_def upd_db_def obj_def)
  have ex: "(if t \<noteq> - 1 then setExpire d (brk s) t ?s4 else Some ?s4) = Some ?s5"
    using s(2) by (simp add: setExpire_def getdb_def sds_of_def upd_db_def dictFind_def)
  have "heap ?s5 (brk s) = Some ?key" by (simp add: upd_db_def)
  then have del: "decrRefCount (brk s) ?s5 = Some (?s5\<lparr>heap := (heap ?s5)(brk s := None)\<rparr>)"
    by (simp add: decrRefCount_def obj_def owned_def freeStringObject_def zfree_def)
  have w: "?s5\<lparr>heap := (heap ?s5)(brk s := None)\<rparr> = with_entry d k ?ob t s"
    using s(2) by (auto simp: with_entry_def upd_db_def fun_eq_iff)
  have m: "masterhost ?s2 = masterhost s" by simp
  have "load_pair other now d t 0 s r = Some (Next d (with_entry d k ?ob t s) (did_read ([u8 v] @ y1 @ y2) r))"
    unfolding load_pair_def ty
    by (simp only: ebind_simps split_conv k ob(1) Option.bind.bind_lunit option.case m n if_False u add ex del w)
  then show ?thesis using ob by (intro exI [of _ "ob\<lparr>vers := int v\<rparr>"]) (simp add: str_ok_def str_val_def split: payload.splits)
qed


lemma load_round_entry:
  assumes s: "heap_ok s" "d < length (db s)" "dictFind (dict (db s ! d)) k = None"
    and y: "str_bytes k y1" "str_bytes x y2" "\<not> small_int x" "v < 256"
    and a: "ahead (expire_bytes t @ [u8 0] @ [u8 v] @ y1 @ y2) r"
    and t: "t = - 1 \<or> (masterhost s \<or> now \<le> t) \<and> fits_bytes 8 t"
  shows "\<exists>ob. load_round other now d s r = Some (Next d (with_entry d k ob t s) (did_read (expire_bytes t @ [u8 0] @ [u8 v] @ y1 @ y2) r)) \<and>
    str_ok ob \<and> str_val ob = x \<and> vers ob = int v"
proof -
  let ?r = "did_read (expire_bytes t @ [u8 0]) r"
  have e: "ahead (expire_bytes t) r" "ahead [u8 0] (did_read (expire_bytes t) r)" "ahead ([u8 v] @ y1 @ y2) ?r"
    using a by (simp_all only: ahead_append did_read_simps append_assoc)
  have x: "load_expire r = Some (t, 0, ?r)"
  proof (cases "t = - 1")
    case True
    then show ?thesis using e(2) load_type [of 0 r] by (simp add: load_expire_def expire_bytes_def)
  next
    case False
    then have b: "expire_bytes t = [u8 252] @ le_chars 8 t" by (simp add: expire_bytes_def)
    have c: "ahead [u8 252] r" "ahead (le_chars 8 t) (did_read [u8 252] r)" using e(1) unfolding b ahead_append by simp_all
    have "rdbLoadMillisecondTime (did_read [u8 252] r) = Some (t, did_read (expire_bytes t) r)"
      using rioRead_ahead [OF c(2)] False t b le_sint_at [of 8 t] by (simp add: rdbLoadMillisecondTime_def)
    then show ?thesis using load_type [OF c(1)] load_type [OF e(2)] False by (simp add: load_expire_def)
  qed
  have "t = - 1 \<or> masterhost s \<or> now \<le> t" using t by blast
  from load_pair_rule [OF s y(1-3) e(3) y(4) this, of other] x show ?thesis by (simp add: load_round_def)
qed


section \<open>The entries of a server\<close>

definition entry_of :: "server \<Rightarrow> nat \<Rightarrow> string \<Rightarrow> (string \<times> int \<times> int) option" where
  "entry_of s d k = (case dictFind (dict (db s ! d)) k of
      None \<Rightarrow> None
    | Some a \<Rightarrow> (case heap s a of
          None \<Rightarrow> None
        | Some ob \<Rightarrow> Some (str_val ob, vers ob, case dictFind (expires (db s ! d)) k of None \<Rightarrow> - 1 | Some t \<Rightarrow> t)))"

lemma entry_of_loading [simp]: "entry_of (s\<lparr>loading := b\<rparr>) d k = entry_of s d k"
  by (simp add: entry_of_def split: option.splits)

text \<open>A server that can load: values are live, and only keys have expire times.\<close>

definition can_load :: "server \<Rightarrow> bool" where
  "can_load s \<longleftrightarrow> heap_ok s \<and> (\<forall>d < length (db s). (\<forall>(k, a) \<in> set (dict (db s ! d)). heap s a \<noteq> None) \<and>
     (\<forall>k. dictFind (dict (db s ! d)) k = None \<longrightarrow> dictFind (expires (db s ! d)) k = None))"

lemma can_load_less: "can_load s \<Longrightarrow> d < length (db s) \<Longrightarrow> dictFind (dict (db s ! d)) k = Some a \<Longrightarrow> a < brk s"
  unfolding can_load_def heap_ok_def dictFind_def by (metis (mono_tags, lifting) case_prodD map_of_SomeD not_le)

lemma with_entry_db:
  assumes "d < length (db s)" "d' < length (db s)"
  shows "length (db (with_entry d k ob t s)) = length (db s)" "masterhost (with_entry d k ob t s) = masterhost s"
    "dictFind (dict (db (with_entry d k ob t s) ! d')) k' = (if d' = d \<and> k' = k then Some (brk s + 1) else dictFind (dict (db s ! d')) k')"
    "dictFind (expires (db (with_entry d k ob t s) ! d')) k' = (if d' = d \<and> k' = k \<and> t \<noteq> - 1 then Some t else dictFind (expires (db s ! d')) k')"
  using assms by (auto simp: with_entry_def dictFind_def update_conv' nth_list_update)

lemma loaded_entry_ok:
  assumes "can_load s" "d < length (db s)"
  shows "can_load (with_entry d k ob t s)"
proof -
  have h: "heap_ok s" using assms(1) by (simp add: can_load_def)
  then have "heap_ok (with_entry d k ob t s)" by (auto simp: heap_ok_def shared_ok_def with_entry_def)
  moreover have "heap (with_entry d k ob t s) a \<noteq> None" if "d' < length (db s)" "(k', a) \<in> set (dict (db (with_entry d k ob t s) ! d'))" for d' k' a
  proof (cases "a = brk s + 1")
    case False
    then have "(k', a) \<in> set (dict (db s ! d'))" using that assms(2) by (auto simp: with_entry_def nth_list_update split: if_splits)
    then have "heap s a \<noteq> None" using assms(1) that(1) by (auto simp: can_load_def)
    then show ?thesis using h by (auto simp: with_entry_def heap_ok_def)
  qed (simp add: with_entry_def)
  moreover have "dictFind (dict (db s ! d')) k' = None \<longrightarrow> dictFind (expires (db s ! d')) k' = None" if "d' < length (db s)" for d' k'
    using assms(1) that by (simp add: can_load_def)
  ultimately show ?thesis unfolding can_load_def using assms(2) by (auto simp: with_entry_db)
qed

lemma entry_of_with_entry:
  assumes "can_load s" "d < length (db s)" "dictFind (dict (db s ! d)) k = None" "d' < length (db s)"
  shows "entry_of (with_entry d k ob t s) d' k' = (if d' = d \<and> k' = k then Some (str_val ob, vers ob, t) else entry_of s d' k')"
proof (cases "d' = d \<and> k' = k")
  case True
  moreover have "dictFind (expires (db s ! d)) k = None" using assms by (simp add: can_load_def)
  moreover have "heap (with_entry d k ob t s) (brk s + 1) = Some ob" by (simp add: with_entry_def)
  ultimately show ?thesis using assms by (auto simp: entry_of_def with_entry_db)
next
  case False
  have "heap (with_entry d k ob t s) a = heap s a" if "dictFind (dict (db s ! d')) k' = Some a" for a
    using can_load_less [OF assms(1,4) that] by (simp add: with_entry_def)
  then show ?thesis using False assms by (auto simp: entry_of_def with_entry_db split: option.splits)
qed


section \<open>The entries of a database\<close>

text \<open>
  A string under a key that can be saved at the time of the server and loaded at the time \<open>now\<close>: it is
  not a small integer, and it does not expire before.
\<close>

definition plain_entry :: "server \<Rightarrow> int \<Rightarrow> redisDb \<Rightarrow> string \<times> addr \<Rightarrow> bool" where
  "plain_entry s now dbv = (\<lambda>(k, a). length k < 4294967295 \<and>
     (\<exists>ob. heap s a = Some ob \<and> str_ok ob \<and> length (str_val ob) < 4294967295 \<and> \<not> small_int (str_val ob)) \<and>
     (\<forall>t. dictFind (expires dbv) k = Some t \<longrightarrow> t = - 1 \<or> mstime s \<le> t \<and> now \<le> t \<and> fits_bytes 8 t))"

definition tagged :: "(string \<times> int \<times> int) option \<Rightarrow> (string \<times> int \<times> int) option" where
  "tagged = map_option (\<lambda>(x, v, t). (x, v mod 256, t))"

text \<open>Reading the bytes \<open>y\<close> in database \<open>d\<close>, the loader goes on in database \<open>d1\<close>, with the servers related by \<open>post\<close>.\<close>

definition loads :: "int \<Rightarrow> nat \<Rightarrow> nat \<Rightarrow> string \<Rightarrow> (server \<Rightarrow> bool) \<Rightarrow> (server \<Rightarrow> server \<Rightarrow> bool) \<Rightarrow> bool" where
  "loads now d d1 y pre post \<longleftrightarrow> (\<forall>other s r. pre s \<longrightarrow> ahead y r \<longrightarrow>
     (\<exists>s1. load_loop other now d s r = load_loop other now d1 s1 (did_read y r) \<and> post s s1))"

text \<open>The loader has room for the keys \<open>K\<close> in database \<open>d\<close>.\<close>

definition free_keys :: "nat \<Rightarrow> string set \<Rightarrow> server \<Rightarrow> bool" where
  "free_keys d K s \<longleftrightarrow> can_load s \<and> d < length (db s) \<and> (\<forall>k \<in> K. dictFind (dict (db s ! d)) k = None)"

text \<open>The loader got the entries under the keys \<open>K\<close> that the server \<open>src\<close> has in database \<open>d\<close>.\<close>

definition got_keys :: "server \<Rightarrow> nat \<Rightarrow> string set \<Rightarrow> server \<Rightarrow> server \<Rightarrow> bool" where
  "got_keys src d K s s1 \<longleftrightarrow> can_load s1 \<and> length (db s1) = length (db s) \<and>
     (\<forall>k. dictFind (dict (db s1 ! d)) k = None \<longleftrightarrow> k \<notin> K \<and> dictFind (dict (db s ! d)) k = None) \<and>
     (\<forall>d'. d' \<noteq> d \<longrightarrow> db s1 ! d' = db s ! d') \<and>
     (\<forall>d' < length (db s). \<forall>k. entry_of s1 d' k = (if d' = d \<and> k \<in> K then tagged (entry_of src d k) else entry_of s d' k))"

lemma load_loop_next: "load_round other now d s r = Some (Next d1 s1 r1) \<Longrightarrow> load_loop other now d s r = load_loop other now d1 s1 r1"
  by (subst load_loop.simps) simp

lemma entry_loads:
  assumes e: "plain_entry s now dbv (k, a)" "db s ! d = dbv" "dictFind (dict dbv) k = Some a" "d < length (db s)"
    and x: "key_expire dbv k = Some t"
  shows "\<exists>y. emits (rdbSaveKeyValuePair cfg junk blk s k a t (mstime s)) True y \<and>
    loads now d d y (free_keys d {k}) (got_keys s d {k})"
proof -
  obtain ob where ob: "heap s a = Some ob" "str_ok ob" "length (str_val ob) < 4294967295" "\<not> small_int (str_val ob)" and lk: "length k < 4294967295"
    using e(1) by (auto simp: plain_entry_def)
  have t: "t = - 1 \<or> mstime s \<le> t \<and> now \<le> t \<and> fits_bytes 8 t"
    using e(1) x by (auto simp: plain_entry_def key_expire_def split: option.splits if_splits)
  obtain y1 where y1: "emits (rdbSaveRawString cfg junk k) (length y1) y1" "str_bytes k y1" using save_raw_string [OF lk] by blast
  obtain y2 where y2: "emits (rdbSaveStringObject cfg junk s a) (length y2) y2" "str_bytes (str_val ob) y2" using save_string [OF ob(1-3)] by blast
  have ty: "otype ob = REDIS_STRING" using ob(2) by (simp add: str_ok_def)
  have sv: "savable blk s a" using ob ty by (auto simp: savable_def short_string_def split: rencoding.splits)
  have "rdbSaveObject cfg junk blk s a = rdbSaveStringObject cfg junk s a" using ob(1) ty by (auto simp: rdbSaveObject_def obj_def)
  then have v: "emits (rdbSaveObject cfg junk blk s a) (length y2) y2" using y2(1) by simp
  have now: "t = - 1 \<or> mstime s \<le> t" using t by blast
  let ?v = "nat (vers ob mod 256)" and ?y = "expire_bytes t @ [u8 0] @ [u8 (nat (vers ob mod 256))] @ y1 @ y2"
  have em: "emits (rdbSaveKeyValuePair cfg junk blk s k a t (mstime s)) True ?y"
    using save_pair_emits [OF sv ob(1) now y1(1) v] ty by (simp add: type_code_def)
  have src: "entry_of s d k = Some (str_val ob, vers ob, t)"
    using e(2,3) ob(1) x by (auto simp: entry_of_def key_expire_def split: option.splits)
  have "loads now d d ?y (free_keys d {k}) (got_keys s d {k})"
    unfolding loads_def
  proof (intro allI impI)
    fix other s0 r assume s0: "free_keys d {k} s0" and a: "ahead ?y r"
    then have f: "can_load s0" "d < length (db s0)" "dictFind (dict (db s0 ! d)) k = None" by (simp_all add: free_keys_def)
    have h: "heap_ok s0" using f(1) by (simp add: can_load_def)
    have "t = - 1 \<or> (masterhost s0 \<or> now \<le> t) \<and> fits_bytes 8 t" using t by blast
    from load_round_entry [OF h f(2,3) y1(2) y2(2) ob(4) _ a this] obtain ob1 where
      o1: "load_round other now d s0 r = Some (Next d (with_entry d k ob1 t s0) (did_read ?y r))" "str_val ob1 = str_val ob" "vers ob1 = vers ob mod 256"
      by (auto simp: nat_less_iff)
    have "got_keys s d {k} s0 (with_entry d k ob1 t s0)"
      unfolding got_keys_def using f loaded_entry_ok [OF f(1,2)] entry_of_with_entry [OF f] o1(2,3) src
      by (auto simp: with_entry_db tagged_def) (simp add: with_entry_def)
    then show "\<exists>s1. load_loop other now d s0 r = load_loop other now d s1 (did_read ?y r) \<and> got_keys s d {k} s0 s1"
      using load_loop_next [OF o1(1)] by blast
  qed
  then show ?thesis using em by blast
qed


lemma loads_trans:
  assumes "loads now d d1 x pre1 post1" "loads now d1 d2 y pre2 post2"
    and "\<And>s. pre s \<Longrightarrow> pre1 s" "\<And>s s1. pre s \<Longrightarrow> post1 s s1 \<Longrightarrow> pre2 s1" "\<And>s s1 s2. pre s \<Longrightarrow> post1 s s1 \<Longrightarrow> post2 s1 s2 \<Longrightarrow> post s s2"
  shows "loads now d d2 (x @ y) pre post"
  unfolding loads_def
proof (intro allI impI)
  fix other s r assume s: "pre s" "ahead (x @ y) r"
  then have a: "ahead x r" "ahead y (did_read x r)" by (simp_all add: ahead_append)
  obtain s1 where s1: "load_loop other now d s r = load_loop other now d1 s1 (did_read x r)" "post1 s s1"
    using assms(1) assms(3) [OF s(1)] a(1) unfolding loads_def by blast
  obtain s2 where s2: "load_loop other now d1 s1 (did_read x r) = load_loop other now d2 s2 (did_read y (did_read x r))" "post2 s1 s2"
    using assms(2) assms(4) [OF s(1) s1(2)] a(2) unfolding loads_def by blast
  show "\<exists>s1. load_loop other now d s r = load_loop other now d2 s1 (did_read (x @ y) r) \<and> post s s1"
    using s1(1) s2 assms(5) [OF s(1) s1(2) s2(2)] by (intro exI [of _ s2]) simp
qed

lemma loads_weaken:
  assumes "loads now d d1 y pre1 post1" "\<And>s. pre s \<Longrightarrow> pre1 s" "\<And>s s1. pre s \<Longrightarrow> post1 s s1 \<Longrightarrow> post s s1"
  shows "loads now d d1 y pre post"
  using assms unfolding loads_def by blast

lemma loads_refl: "(\<And>s. pre s \<Longrightarrow> post s s) \<Longrightarrow> loads now d d [] pre post"
  unfolding loads_def by (auto intro: exI)

lemma got_keys_trans:
  "got_keys src d K s s1 \<Longrightarrow> got_keys src d L s1 s2 \<Longrightarrow> d < length (db s) \<Longrightarrow> K \<inter> L = {} \<Longrightarrow> got_keys src d (K \<union> L) s s2"
  by (auto simp: got_keys_def)

lemma entries_loads:
  assumes "\<forall>e \<in> set es. plain_entry s now dbv e" "db s ! d = dbv" "d < length (db s)"
    and "distinct (map fst es)" "\<forall>(k, a) \<in> set es. dictFind (dict dbv) k = Some a"
  shows "\<exists>y. emits0 (save_entries cfg junk blk s (mstime s) dbv es) y \<and>
    loads now d d y (free_keys d (fst ` set es)) (got_keys s d (fst ` set es))"
  using assms
proof (induction es)
  case Nil
  have "emits0 (save_entries cfg junk blk s (mstime s) dbv []) []" by (simp add: emits0_def)
  moreover have "loads now d d [] (free_keys d {}) (got_keys s d {})" by (rule loads_refl) (simp add: free_keys_def got_keys_def)
  ultimately show ?case by (intro exI [of _ "[]"] conjI) (simp_all only: list.set image_empty)
next
  case (Cons e es)
  obtain k a where e: "e = (k, a)" by (cases e)
  have f: "dictFind (dict dbv) k = Some a" "plain_entry s now dbv (k, a)" using Cons.prems e by auto
  have "\<exists>t. key_expire dbv k = Some t" using f(1) by (cases "dictFind (expires dbv) k") (simp_all add: key_expire_def)
  then obtain t where t: "key_expire dbv k = Some t" ..
  obtain x where x: "emits (rdbSaveKeyValuePair cfg junk blk s k a t (mstime s)) True x" "loads now d d x (free_keys d {k}) (got_keys s d {k})"
    using entry_loads [OF f(2) Cons.prems(2) f(1) Cons.prems(3) t] by blast
  obtain y where y: "emits0 (save_entries cfg junk blk s (mstime s) dbv es) y" "loads now d d y (free_keys d (fst ` set es)) (got_keys s d (fst ` set es))"
    using Cons.IH Cons.prems by auto
  have "emits0 (save_entries cfg junk blk s (mstime s) dbv (e # es)) (x @ y)" using emits0_bind [OF x(1) y(1)] e t by (simp add: emits0_def)
  moreover have "loads now d d (x @ y) (free_keys d (fst ` set (e # es))) (got_keys s d (fst ` set (e # es)))"
  proof (rule loads_trans [OF x(2) y(2)])
    fix s0 assume s0: "free_keys d (fst ` set (e # es)) s0"
    then show "free_keys d {k} s0" using e by (simp add: free_keys_def)
    fix s1 assume s1: "got_keys s d {k} s0 s1"
    then show "free_keys d (fst ` set es) s1" using s0 Cons.prems(4) e by (auto simp: free_keys_def got_keys_def)
    fix s2 assume "got_keys s d (fst ` set es) s1 s2"
    from got_keys_trans [OF s1 this] show "got_keys s d (fst ` set (e # es)) s0 s2"
      using s0 Cons.prems(4) e by (auto simp: free_keys_def)
  qed
  ultimately show ?case by blast
qed


section \<open>All databases\<close>

definition free_dbs :: "nat \<Rightarrow> nat \<Rightarrow> server \<Rightarrow> bool" where
  "free_dbs j n s \<longleftrightarrow> can_load s \<and> j + n \<le> length (db s) \<and> (\<forall>d. j \<le> d \<and> d < j + n \<longrightarrow> dict (db s ! d) = [])"

definition got_dbs :: "server \<Rightarrow> nat \<Rightarrow> nat \<Rightarrow> server \<Rightarrow> server \<Rightarrow> bool" where
  "got_dbs src j n s s1 \<longleftrightarrow> can_load s1 \<and> length (db s1) = length (db s) \<and>
     (\<forall>d. \<not> (j \<le> d \<and> d < j + n) \<longrightarrow> db s1 ! d = db s ! d) \<and>
     (\<forall>d < length (db s). \<forall>k. entry_of s1 d k = (if j \<le> d \<and> d < j + n then tagged (entry_of src d k) else entry_of s d k))"

lemma select_loads:
  assumes "j < 4294967295"
  shows "loads now d j ([u8 254] @ len_bytes j) (\<lambda>s. j < length (db s)) (=)"
  unfolding loads_def
proof (intro allI impI)
  fix other and s :: server and r assume j: "j < length (db s)" and "ahead ([u8 254] @ len_bytes j) r"
  then have a: "ahead [u8 254] r" "ahead (len_bytes j) (did_read [u8 254] r)" by (simp_all only: ahead_append)
  have "load_round other now d s r = Some (Next j s (did_read ([u8 254] @ len_bytes j) r))"
    using load_type [OF a(1)] load_len [OF a(2) assms] j by (simp add: load_round_def load_expire_def)
  from load_loop_next [OF this]
  show "\<exists>s1. load_loop other now d s r = load_loop other now j s1 (did_read ([u8 254] @ len_bytes j) r) \<and> s = s1" by blast
qed

definition plain_db :: "server \<Rightarrow> int \<Rightarrow> redisDb \<Rightarrow> bool" where
  "plain_db s now dbv \<longleftrightarrow> distinct (map fst (dict dbv)) \<and> (\<forall>e \<in> set (dict dbv). plain_entry s now dbv e)"

lemma entry_of_None: "dictFind (dict (db s ! d)) k = None \<Longrightarrow> entry_of s d k = None"
  by (simp add: entry_of_def)

lemma db_loads:
  assumes "plain_db s now (db s ! j)" "j < length (db s)" "j < 4294967295" "dict (db s ! j) \<noteq> []"
  shows "\<exists>y. emits0 (save_entries cfg junk blk s (mstime s) (db s ! j) (dict (db s ! j))) y \<and>
    (\<forall>d. loads now d j (([u8 254] @ len_bytes j) @ y) (free_dbs j 1) (got_dbs s j 1))"
proof -
  let ?K = "fst ` set (dict (db s ! j))"
  have m: "\<forall>(k, a) \<in> set (dict (db s ! j)). dictFind (dict (db s ! j)) k = Some a"
    using assms(1) by (auto simp: plain_db_def dictFind_def)
  obtain y where y: "emits0 (save_entries cfg junk blk s (mstime s) (db s ! j) (dict (db s ! j))) y" "loads now j j y (free_keys j ?K) (got_keys s j ?K)"
    using entries_loads [OF _ refl assms(2) _ m] assms(1) unfolding plain_db_def by blast
  have "loads now d j (([u8 254] @ len_bytes j) @ y) (free_dbs j 1) (got_dbs s j 1)" for d
  proof (rule loads_trans [OF select_loads [OF assms(3)] y(2)])
    fix s0 assume s0: "free_dbs j 1 s0"
    then show "j < length (db s0)" by (simp add: free_dbs_def)
    fix s1 assume "s0 = s1"
    then show "free_keys j ?K s1" using s0 by (simp add: free_dbs_def free_keys_def dictFind_def)
    fix s2 assume "got_keys s j ?K s1 s2"
    moreover have "entry_of s0 j k = None" for k using s0 by (intro entry_of_None) (simp add: free_dbs_def dictFind_def)
    moreover have "entry_of s j k = None" if "k \<notin> ?K" for k using that by (intro entry_of_None) (simp add: dictFind_def map_of_eq_None_iff)
    moreover have "(j \<le> d' \<and> d' < j + 1) = (d' = j)" for d' by auto
    ultimately show "got_dbs s j 1 s0 s2" using \<open>s0 = s1\<close> unfolding got_keys_def got_dbs_def by (auto simp: tagged_def)
  qed
  then show ?thesis using y(1) by blast
qed


lemma got_dbs_trans: "got_dbs src j 1 s s1 \<Longrightarrow> got_dbs src (Suc j) n s1 s2 \<Longrightarrow> got_dbs src j (Suc n) s s2"
proof -
  assume a: "got_dbs src j 1 s s1" "got_dbs src (Suc j) n s1 s2"
  have q: "(j \<le> d \<and> d < j + Suc n) = ((j \<le> d \<and> d < j + 1) \<or> (Suc j \<le> d \<and> d < Suc j + n))" for d by auto
  show ?thesis using a unfolding got_dbs_def q by auto
qed

lemma empty_db_got:
  assumes "free_dbs j (Suc n) s0" "dict (db s ! j) = []"
  shows "got_dbs s j 1 s0 s0"
proof -
  have "entry_of s0 j k = None" "entry_of s j k = None" for k using assms by (auto intro!: entry_of_None simp: free_dbs_def dictFind_def)
  moreover have "(j \<le> d \<and> d < j + 1) = (d = j)" for d by auto
  ultimately show ?thesis using assms(1) by (auto simp: got_dbs_def free_dbs_def tagged_def)
qed

lemma free_dbs_next: "free_dbs j (Suc n) s0 \<Longrightarrow> got_dbs s j 1 s0 s1 \<Longrightarrow> free_dbs (Suc j) n s1"
  by (auto simp: free_dbs_def got_dbs_def)

lemma dbs_loads:
  assumes "\<forall>dbv \<in> set dbs. plain_db s now dbv" "\<forall>i < length dbs. db s ! (j + i) = dbs ! i" "j + length dbs \<le> length (db s)" "length (db s) < 4294967295"
  shows "\<exists>y. emits0 (save_dbs cfg junk blk s (mstime s) j dbs) y \<and>
    (\<forall>d. \<exists>d1. loads now d d1 y (free_dbs j (length dbs)) (got_dbs s j (length dbs)))"
  using assms
proof (induction dbs arbitrary: j)
  case Nil
  have "emits0 (save_dbs cfg junk blk s (mstime s) j []) []" by (simp add: emits0_def)
  moreover have "loads now d d [] (free_dbs j 0) (got_dbs s j 0)" for d by (rule loads_refl) (auto simp: free_dbs_def got_dbs_def)
  ultimately show ?case by (intro exI [of _ "[]"]) (auto simp only: list.size)
next
  case (Cons dbv dbs)
  have dbv: "db s ! j = dbv" using Cons.prems(2) [rule_format, of 0] by simp
  have nx: "\<forall>i < length dbs. db s ! (Suc j + i) = dbs ! i"
  proof (intro allI impI)
    fix i assume "i < length dbs"
    then show "db s ! (Suc j + i) = dbs ! i" using Cons.prems(2) [rule_format, of "Suc i"] by simp
  qed
  have pl: "\<forall>dbv \<in> set dbs. plain_db s now dbv" "Suc j + length dbs \<le> length (db s)" "plain_db s now dbv" "j < length (db s)" "j < 4294967295"
    using Cons.prems by auto
  obtain z where z: "emits0 (save_dbs cfg junk blk s (mstime s) (Suc j) dbs) z"
    "\<And>d. \<exists>d1. loads now d d1 z (free_dbs (Suc j) (length dbs)) (got_dbs s (Suc j) (length dbs))"
    using Cons.IH [OF pl(1) nx pl(2) Cons.prems(4)] by blast
  show ?case
  proof (cases "dict dbv = []")
    case True
    have "loads now d d1 z (free_dbs j (length (dbv # dbs))) (got_dbs s j (length (dbv # dbs)))"
      if "loads now d d1 z (free_dbs (Suc j) (length dbs)) (got_dbs s (Suc j) (length dbs))" for d d1
    proof (rule loads_weaken [OF that])
      fix s0 assume s0: "free_dbs j (length (dbv # dbs)) s0"
      then have g: "got_dbs s j 1 s0 s0" using empty_db_got [of j "length dbs" s0 s] True dbv by simp
      then show "free_dbs (Suc j) (length dbs) s0" using s0 free_dbs_next [of j "length dbs" s0 s s0] by simp
      show "got_dbs s j (length (dbv # dbs)) s0 s1" if "got_dbs s (Suc j) (length dbs) s0 s1" for s1
        using got_dbs_trans [OF g that] by simp
    qed
    then have "\<exists>d1. loads now d d1 z (free_dbs j (length (dbv # dbs))) (got_dbs s j (length (dbv # dbs)))" for d using z(2) by blast
    moreover have "emits0 (save_dbs cfg junk blk s (mstime s) j (dbv # dbs)) z" using z(1) True by (simp add: emits0_def)
    ultimately show ?thesis by blast
  next
    case False
    obtain y where y: "emits0 (save_entries cfg junk blk s (mstime s) (db s ! j) (dict (db s ! j))) y"
      "\<And>d. loads now d j (([u8 254] @ len_bytes j) @ y) (free_dbs j 1) (got_dbs s j 1)"
      using db_loads [of s now j cfg junk blk] pl(3-5) dbv False by blast
    have "emits0 (\<lambda>r. ebind (Some (rdbSaveType 254 r)) (\<lambda>(_, r1).
        ebind (Some (rdbSaveLen j r1)) (\<lambda>(_, r2).
        ebind (save_entries cfg junk blk s (mstime s) (db s ! j) (dict (db s ! j)) r2) (save_dbs cfg junk blk s (mstime s) (Suc j) dbs))))
      ([u8 (nat (254 mod 256))] @ len_bytes j @ y @ z)"
      by (rule emits0_bind [OF emits_type emits0_bind [OF emits_len emits0_bind0 [OF y(1) z(1)]]]) (use Cons.prems in simp)
    then have "emits0 (save_dbs cfg junk blk s (mstime s) j (dbv # dbs)) ((([u8 254] @ len_bytes j) @ y) @ z)"
      using False dbv by (simp add: emits0_def)
    moreover have "\<exists>d1. loads now d d1 ((([u8 254] @ len_bytes j) @ y) @ z) (free_dbs j (length (dbv # dbs))) (got_dbs s j (length (dbv # dbs)))" for d
    proof -
      obtain d1 where d1: "loads now j d1 z (free_dbs (Suc j) (length dbs)) (got_dbs s (Suc j) (length dbs))" using z(2) by blast
      have "loads now d d1 ((([u8 254] @ len_bytes j) @ y) @ z) (free_dbs j (length (dbv # dbs))) (got_dbs s j (length (dbv # dbs)))"
      proof (rule loads_trans [OF y(2) d1])
        fix s0 assume s0: "free_dbs j (length (dbv # dbs)) s0"
        then show "free_dbs j 1 s0" by (simp add: free_dbs_def)
        fix s1 assume s1: "got_dbs s j 1 s0 s1"
        then show "free_dbs (Suc j) (length dbs) s1" using s0 free_dbs_next [of j "length dbs" s0 s s1] by simp
        fix s2 assume "got_dbs s (Suc j) (length dbs) s1 s2"
        from got_dbs_trans [OF s1 this] show "got_dbs s j (length (dbv # dbs)) s0 s2" by simp
      qed
      then show ?thesis ..
    qed
    ultimately show ?thesis by blast
  qed
qed


lemma version_6: "atoi (c_str (drop 5 ''REDIS0006'')) = 6"
  by code_simp

lemma eof_round:
  assumes "ahead [u8 255] r"
  shows "load_loop other now d s r = Some (Some (s, did_read [u8 255] r))"
  using load_type [OF assms] by (subst load_loop.simps) (simp add: load_round_def load_expire_def)

lemma load_dump:
  assumes y: "\<exists>d1. loads (mstime s0) 0 d1 y pre post" and s0: "pre (s0\<lparr>loading := True\<rparr>)"
  shows "\<exists>s1. rdbLoad cfg2 other chunk (Some (with_cksum cfg (''REDIS0006'' @ y @ [u8 255]))) s0 = Some (RdbOk (s1\<lparr>loading := False\<rparr>)) \<and>
    post (s0\<lparr>loading := True\<rparr>) s1"
proof -
  let ?x = "''REDIS0006'' @ y @ [u8 255]" and ?s = "s0\<lparr>loading := True\<rparr>"
  let ?w = "if rdb_checksum cfg then crc64 0 (''REDIS0006'' @ y @ [u8 255]) else 0"
  define r where "r = (rioInitWithFile (with_cksum cfg ?x) 0)\<lparr>update_cksum := rdb_checksum cfg2, max_processing_chunk := chunk\<rparr>"
  have "ahead (''REDIS0006'' @ y @ [u8 255] @ le_chars 8 (uint ?w)) r"
    unfolding ahead_def r_def by (rule exI [of _ "[]"]) (simp add: rioInitWithFile_def with_cksum_def)
  then have a: "ahead ''REDIS0006'' r" "ahead y (did_read ''REDIS0006'' r)" "ahead [u8 255] (did_read (''REDIS0006'' @ y) r)" "ahead (le_chars 8 (uint ?w)) (did_read ?x r)"
    by (simp_all only: ahead_append did_read_simps append_assoc)
  obtain d1 s1 where s1: "load_loop other (mstime s0) 0 ?s (did_read ''REDIS0006'' r) = load_loop other (mstime s0) d1 s1 (did_read (''REDIS0006'' @ y) r)" "post ?s s1"
    using y s0 a(2) unfolding loads_def did_read_simps(1) [symmetric] by blast
  have l: "load_loop other (mstime s0) 0 ?s (did_read ''REDIS0006'' r) = Some (Some (s1, did_read ?x r))"
    unfolding s1(1) eof_round [OF a(3)] by simp
  have h: "rioRead 9 r = Some (''REDIS0006'', did_read ''REDIS0006'' r)" using rioRead_ahead [OF a(1)] by (simp add: eval_nat_numeral)
  have c: "rioRead 8 (did_read ?x r) = Some (le_chars 8 (uint ?w), did_read (le_chars 8 (uint ?w)) (did_read ?x r))" using rioRead_ahead [OF a(4)] by simp
  have k: "cksum (did_read ?x r) = (if rdb_checksum cfg2 then crc64 0 ?x else 0)"
    by (simp add: did_read_def next_cksum_def r_def rioInitWithFile_def)
  have u: "le_uint (map char_byte (le_chars 8 (uint w))) = uint w" for w :: "64 word"
    using uint_lt2p [of w] by (simp add: le_uint_le_bytes)
  have "rdbLoad cfg2 other chunk (Some (with_cksum cfg ?x)) s0 = Some (RdbOk (s1\<lparr>loading := False\<rparr>))"
    unfolding rdbLoad_def option.case r_def [symmetric] h prod.case version_6 Let_def l
    using c k u by (auto simp: rdb_result.inject)
  then show ?thesis using s1(2) by blast
qed

lemma saved_loads:
  assumes y: "emits0 (save_dbs cfg junk blk s (mstime s) 0 (db s)) y" "\<exists>d1. loads (mstime s0) 0 d1 y pre post" and s0: "pre (s0\<lparr>loading := True\<rparr>)"
  shows "\<exists>n. \<forall>env fs. open_ok env \<and> sync_ok env \<and> rename_ok env \<and> n \<le> space env \<longrightarrow>
    (\<exists>s' cfg' fs' s1. rdbSave cfg junk blk env tmpfile filename s fs = Some (True, s', cfg', fs') \<and>
       rdbLoad cfg2 other chunk (fs' filename) s0 = Some (RdbOk (s1\<lparr>loading := False\<rparr>)) \<and> post (s0\<lparr>loading := True\<rparr>) s1)"
proof -
  from load_dump [OF y(2) s0] obtain s1 where
    s1: "rdbLoad cfg2 other chunk (Some (with_cksum cfg (''REDIS0006'' @ y @ [u8 255]))) s0 = Some (RdbOk (s1\<lparr>loading := False\<rparr>))"
      "post (s0\<lparr>loading := True\<rparr>) s1" by blast
  show ?thesis
  proof (intro exI [of _ "length (with_cksum cfg (''REDIS0006'' @ y @ [u8 255]))"] allI impI)
    fix env :: save_env and fs
    assume "open_ok env \<and> sync_ok env \<and> rename_ok env \<and> length (with_cksum cfg (''REDIS0006'' @ y @ [u8 255])) \<le> space env"
    then obtain s' cfg' fs' where "rdbSave cfg junk blk env tmpfile filename s fs = Some (True, s', cfg', fs')"
      "fs' filename = Some (with_cksum cfg (''REDIS0006'' @ y @ [u8 255]))"
      using save_all_rule [OF y(1), of "space env"] by (auto simp: rdbSave_def dump_rio_def)
    then show "\<exists>s' cfg' fs' s1. rdbSave cfg junk blk env tmpfile filename s fs = Some (True, s', cfg', fs') \<and>
       rdbLoad cfg2 other chunk (fs' filename) s0 = Some (RdbOk (s1\<lparr>loading := False\<rparr>)) \<and> post (s0\<lparr>loading := True\<rparr>) s1"
      using s1 by (intro exI [of _ s'] exI [of _ cfg'] exI [of _ fs'] exI [of _ s1]) simp
  qed
qed

text \<open>
  C19. A dump of databases whose values are strings, small integers excepted, that do not expire. If the operating
  system reports no error and there is room for it, the dump is saved; and loading it into an empty server, with
  whatever settings for checksums and reading, succeeds and gives every key of every database its string and its
  expire time, and its version modulo 256.
\<close>

theorem rdb_dump_roundtrip:
  assumes "\<forall>dbv \<in> set (db s). plain_db s (mstime s0) dbv" "length (db s) < 4294967295"
    and "heap_ok s0" "length (db s0) = length (db s)" "\<forall>dbv \<in> set (db s0). dict dbv = [] \<and> expires dbv = []"
  shows "\<exists>n. \<forall>env fs. open_ok env \<and> sync_ok env \<and> rename_ok env \<and> n \<le> space env \<longrightarrow>
    (\<exists>s' cfg' fs' s1. rdbSave cfg junk blk env tmpfile filename s fs = Some (True, s', cfg', fs') \<and>
       rdbLoad cfg2 other chunk (fs' filename) s0 = Some (RdbOk s1) \<and>
       (\<forall>d < length (db s). \<forall>k. entry_of s1 d k = map_option (\<lambda>(x, v, t). (x, v mod 256, t)) (entry_of s d k)))"
proof -
  obtain y where y: "emits0 (save_dbs cfg junk blk s (mstime s) 0 (db s)) y"
    "\<exists>d1. loads (mstime s0) 0 d1 y (free_dbs 0 (length (db s))) (got_dbs s 0 (length (db s)))"
    using dbs_loads [OF assms(1), of 0 cfg junk blk] assms(2) by auto
  have "heap_ok (s0\<lparr>loading := True\<rparr>)" using assms(3) by (simp add: heap_ok_def shared_ok_def)
  then have "free_dbs 0 (length (db s)) (s0\<lparr>loading := True\<rparr>)" using assms(4,5) by (auto simp: free_dbs_def can_load_def dictFind_def)
  from saved_loads [OF y this, of tmpfile filename cfg2 other chunk] obtain n where n:
    "\<And>env fs. open_ok env \<and> sync_ok env \<and> rename_ok env \<and> n \<le> space env \<Longrightarrow>
      \<exists>s' cfg' fs' s1. rdbSave cfg junk blk env tmpfile filename s fs = Some (True, s', cfg', fs') \<and>
        rdbLoad cfg2 other chunk (fs' filename) s0 = Some (RdbOk (s1\<lparr>loading := False\<rparr>)) \<and> got_dbs s 0 (length (db s)) (s0\<lparr>loading := True\<rparr>) s1"
    by blast
  have e: "\<forall>d < length (db s). \<forall>k. entry_of (s1\<lparr>loading := False\<rparr>) d k = map_option (\<lambda>(x, v, t). (x, v mod 256, t)) (entry_of s d k)"
    if "got_dbs s 0 (length (db s)) (s0\<lparr>loading := True\<rparr>) s1" for s1
    using that assms(4) by (simp add: got_dbs_def tagged_def)
  show ?thesis by (intro exI [of _ n] allI impI) (use n e in blast)
qed

definition one_key :: "string \<Rightarrow> string \<Rightarrow> int \<Rightarrow> server" where
  "one_key k x v = initServer\<lparr>heap := (heap initServer)(10000 \<mapsto> one_string x v), brk := 10001,
     db := empty_db\<lparr>dict := [(k, 10000)]\<rparr> # replicate 15 empty_db\<rparr>"

theorem rdb_dump_roundtrip_witness:
  "\<exists>n. \<forall>fs. \<exists>s' cfg' fs' s1.
     rdbSave \<lparr>rdb_compression = True, rdb_checksum = True, lastsave = 0, lastbgsave_ok = True\<rparr> (\<lambda>_. 0) (\<lambda>_. [])
       \<lparr>open_ok = True, space = n, sync_ok = True, rename_ok = True, now_time = 7\<rparr> ''temp-1.rdb'' ''dump.rdb'' (one_key ''k'' ''hello'' 300) fs =
       Some (True, s', cfg', fs') \<and>
     rdbLoad \<lparr>rdb_compression = True, rdb_checksum = True, lastsave = 0, lastbgsave_ok = True\<rparr> (\<lambda>_ _ _. None) 0 (fs' ''dump.rdb'') initServer =
       Some (RdbOk s1) \<and> entry_of s1 0 ''k'' = Some (''hello'', 44, - 1)"
proof -
  let ?c = "\<lparr>rdb_compression = True, rdb_checksum = True, lastsave = 0, lastbgsave_ok = True\<rparr>" and ?s = "one_key ''k'' ''hello'' 300"
  have "string2l ''hello'' = None" by code_simp
  then have "\<not> small_int ''hello''" using small_int_long by blast
  then have pl: "\<forall>dbv \<in> set (db ?s). plain_db ?s (mstime initServer) dbv"
    by (auto simp: one_key_def plain_db_def plain_entry_def empty_db_def one_string_def str_ok_def str_val_def dictFind_def)
  have e: "entry_of ?s 0 ''k'' = Some (''hello'', 300, - 1)"
    by (simp add: one_key_def entry_of_def dictFind_def empty_db_def one_string_def str_val_def)
  have l: "length (db ?s) = 16" "length (db ?s) < 4294967295" "length (db initServer) = length (db ?s)" "\<forall>dbv \<in> set (db initServer). dict dbv = [] \<and> expires dbv = []"
    by (simp_all add: one_key_def initServer_def empty_db_def)
  obtain n where n: "\<forall>env fs. open_ok env \<and> sync_ok env \<and> rename_ok env \<and> n \<le> space env \<longrightarrow>
    (\<exists>s' cfg' fs' s1. rdbSave ?c (\<lambda>_. 0) (\<lambda>_. []) env ''temp-1.rdb'' ''dump.rdb'' ?s fs = Some (True, s', cfg', fs') \<and>
       rdbLoad ?c (\<lambda>_ _ _. None) 0 (fs' ''dump.rdb'') initServer = Some (RdbOk s1) \<and>
       (\<forall>d < length (db ?s). \<forall>k. entry_of s1 d k = map_option (\<lambda>(x, v, t). (x, v mod 256, t)) (entry_of ?s d k)))"
    using rdb_dump_roundtrip [OF pl l(2) heap_ok_init l(3,4)] ..
  show ?thesis
  proof (intro exI [of _ n] allI)
    fix fs
    let ?env = "\<lparr>open_ok = True, space = n, sync_ok = True, rename_ok = True, now_time = 7\<rparr>"
    obtain s' cfg' fs' s1 where r: "rdbSave ?c (\<lambda>_. 0) (\<lambda>_. []) ?env ''temp-1.rdb'' ''dump.rdb'' ?s fs = Some (True, s', cfg', fs')"
      "rdbLoad ?c (\<lambda>_ _ _. None) 0 (fs' ''dump.rdb'') initServer = Some (RdbOk s1)"
      "\<forall>d < length (db ?s). \<forall>k. entry_of s1 d k = map_option (\<lambda>(x, v, t). (x, v mod 256, t)) (entry_of ?s d k)"
      using n [rule_format, of ?env fs] by auto
    have "entry_of s1 0 ''k'' = Some (''hello'', 44, - 1)" using r(3) [rule_format, of 0 "''k''"] l(1) e by simp
    with r(1,2) show "\<exists>s' cfg' fs' s1. rdbSave ?c (\<lambda>_. 0) (\<lambda>_. []) ?env ''temp-1.rdb'' ''dump.rdb'' ?s fs = Some (True, s', cfg', fs') \<and>
      rdbLoad ?c (\<lambda>_ _ _. None) 0 (fs' ''dump.rdb'') initServer = Some (RdbOk s1) \<and> entry_of s1 0 ''k'' = Some (''hello'', 44, - 1)" by blast
  qed
qed

end
