(* ===== verification/Rdb_Shared.thy ===== *)
theory Rdb_Shared
  imports Rdb_Load
begin

text \<open>
  What a dump does to versions. A version of 256 or more is cut to one byte. A small integer is
  loaded as the shared object for it, so that loading one key changes the version of every other
  key with the same value.
\<close>

section \<open>Small integers\<close>

lemma load_small:
  assumes s: "heap_ok s" "\<not> maxmemory_lru s" and y: "str_bytes (dec_int n) y" "ahead y r" and n: "0 \<le> n" "n < 10000"
    and sh: "heap s (nat n) = Some ob"
  shows "\<exists>s2. rdbLoadObject other 0 s r = Some (Some (nat n, s2, did_read y r)) \<and>
    (\<exists>b. s2 = s\<lparr>heap := (heap s)(nat n \<mapsto> ob\<lparr>refcount := refcount ob + 1\<rparr>), brk := b\<rparr> \<and> brk s \<le> b)"
proof -
  have lt: "nat n < 10000" using n nat_less_iff [of n 10000] by auto
  have lr: "long_range n" using n by (simp add: long_range_def)
  have ne: "nat n \<noteq> brk s" using s(1) lt by (simp add: heap_ok_def)
  have inc: "createStringObjectFromLongLong n s = Some (nat n, s\<lparr>heap := (heap s)(nat n \<mapsto> ob\<lparr>refcount := refcount ob + 1\<rparr>)\<rparr>)"
    using n sh by (simp add: createStringObjectFromLongLong_def incrRefCount_def upd_obj_def)
  have enc: "encoding ob = REDIS_ENCODING_INT" using s(1) lt sh by (auto simp: heap_ok_def shared_ok_def)
  obtain b s2 where b: "rdbGenericLoadStringObject True s r = Some (Some (b, s2, did_read y r))" "made True (dec_int n) s b s2"
    using s(1) y unfolding str_bytes_def by blast
  have "\<exists>b2. tryObjectEncoding b s2 = Some (nat n, s\<lparr>heap := (heap s)(nat n \<mapsto> ob\<lparr>refcount := refcount ob + 1\<rparr>), brk := b2\<rparr>) \<and> brk s \<le> b2"
    using b(2) unfolding made_def
  proof (elim disjE conjE exE)
    let ?ob = "\<lparr>otype = REDIS_STRING, encoding = REDIS_ENCODING_RAW, refcount = 1, vers = 0, ptr = Sds (dec_int n)\<rparr>"
    assume "(b, s2) = createObject REDIS_STRING (Sds (dec_int n)) s"
    then have c: "b = brk s" "s2 = s\<lparr>heap := (heap s)(brk s \<mapsto> ?ob), brk := brk s + 1\<rparr>" by (simp_all add: createObject_def new_obj_def)
    have "tryObjectEncoding b s2 = Some (nat n, s2\<lparr>heap := (heap s2)(b := None, nat n \<mapsto> ob\<lparr>refcount := refcount ob + 1\<rparr>)\<rparr>)"
      by (rule tryObjectEncoding_shared [of s2 b ?ob n]) (use c s(2) n ne sh in auto)
    moreover have "(heap s2)(b := None) = heap s" using c s(1) by (auto simp: fun_eq_iff)
    ultimately show ?thesis using c by (intro exI [of _ "brk s + 1"]) simp
  next
    fix v assume v: "long_range v" "dec_int n = dec_int v" "createStringObjectFromLongLong v s = Some (b, s2)"
    then have "v = n" using dec_int_inject [OF lr v(1)] by simp
    then have "b = nat n" "s2 = s\<lparr>heap := (heap s)(nat n \<mapsto> ob\<lparr>refcount := refcount ob + 1\<rparr>)\<rparr>" using v(3) inc by auto
    then show ?thesis using enc by (intro exI [of _ "brk s"]) (simp add: tryObjectEncoding_def obj_def)
  qed
  then show ?thesis using b(1) by (auto simp: rdbLoadObject_def rdbLoadEncodedStringObject_def)
qed

text \<open>The loader before and after a key \<open>k\<close> with the integer \<open>n\<close> and the version \<open>v\<close>.\<close>

definition before :: "nat \<Rightarrow> string set \<Rightarrow> server \<Rightarrow> bool" where
  "before d K s \<longleftrightarrow> heap_ok s \<and> \<not> maxmemory_lru s \<and> d < length (db s) \<and> (\<forall>k \<in> K. dictFind (dict (db s ! d)) k = None)"

definition after :: "nat \<Rightarrow> string \<Rightarrow> int \<Rightarrow> nat \<Rightarrow> server \<Rightarrow> server \<Rightarrow> bool" where
  "after d k n v s s1 \<longleftrightarrow> heap_ok s1 \<and> \<not> maxmemory_lru s1 \<and> length (db s1) = length (db s) \<and>
     dict (db s1 ! d) = (k, nat n) # dict (db s ! d) \<and> expires (db s1 ! d) = expires (db s ! d) \<and>
     (\<exists>ob. heap s1 (nat n) = Some ob \<and> vers ob = int v \<and> ptr ob = Long n)"

lemma heap_ok_shared:
  assumes "heap_ok s" "nat n < 10000" "heap s (nat n) = Some ob" "ob1 = ob\<lparr>refcount := refcount ob + 1, vers := v\<rparr>" "brk s \<le> b"
  shows "heap_ok (s\<lparr>heap := (heap s)(nat n \<mapsto> ob1), brk := b\<rparr>)"
proof -
  have "otype ob1 = REDIS_STRING \<and> encoding ob1 = REDIS_ENCODING_INT \<and> ptr ob1 = Long (int (nat n)) \<and> 0 < refcount ob1"
    using assms(1-4) by (fastforce simp: heap_ok_def shared_ok_def)
  then show ?thesis using assms(1,2,5) by (auto simp: heap_ok_def shared_ok_def)
qed

lemma small_pair:
  assumes s: "before d {k} s" and n: "0 \<le> n" "n < 10000"
    and y: "str_bytes k y1" "str_bytes (dec_int n) y2" "ahead ([u8 v] @ y1 @ y2) r" "v < 256"
  shows "\<exists>s1. load_pair other now d (- 1) 0 s r = Some (Next d s1 (did_read ([u8 v] @ y1 @ y2) r)) \<and> after d k n v s s1"
proof -
  have f: "heap_ok s" "\<not> maxmemory_lru s" "d < length (db s)" "dictFind (dict (db s ! d)) k = None" using s by (simp_all add: before_def)
  have a: "ahead [u8 v] r" "ahead y1 (did_read [u8 v] r)" "ahead y2 (did_read ([u8 v] @ y1) r)" using y(3) by (simp_all only: ahead_append did_read_simps)
  have lt: "nat n < 10000" using n nat_less_iff [of n 10000] by auto
  then obtain ob where ob: "heap s (nat n) = Some ob" "otype ob = REDIS_STRING" "ptr ob = Long (int (nat n))" using f(1) unfolding heap_ok_def shared_ok_def by blast
  have ne: "nat n \<noteq> brk s" using f(1) lt by (simp add: heap_ok_def)
  let ?key = "\<lparr>otype = REDIS_STRING, encoding = REDIS_ENCODING_RAW, refcount = 1, vers = 0, ptr = Sds k\<rparr>" and ?ob = "ob\<lparr>refcount := refcount ob + 1, vers := int v\<rparr>"
  let ?s1 = "s\<lparr>heap := (heap s)(brk s \<mapsto> ?key), brk := brk s + 1\<rparr>"
  have k: "rdbLoadStringObject s (did_read [u8 v] r) = Some (Some (brk s, ?s1, did_read ([u8 v] @ y1) r))" using load_key [OF f(1) y(1) a(2)] by simp
  have "heap_ok ?s1" by (rule heap_ok_new [OF f(1)])
  then obtain b where b: "rdbLoadObject other 0 ?s1 (did_read ([u8 v] @ y1) r) =
      Some (Some (nat n, ?s1\<lparr>heap := (heap ?s1)(nat n \<mapsto> ob\<lparr>refcount := refcount ob + 1\<rparr>), brk := b\<rparr>, did_read ([u8 v] @ y1 @ y2) r))" "brk s + 1 \<le> b"
    using load_small [of ?s1 n y2 "did_read ([u8 v] @ y1) r" ob other] f(2) y(2) a(3) n ob(1) ne by fastforce
  let ?s2 = "?s1\<lparr>heap := (heap ?s1)(nat n \<mapsto> ob\<lparr>refcount := refcount ob + 1\<rparr>), brk := b\<rparr>"
  let ?s3 = "?s1\<lparr>heap := (heap ?s1)(nat n \<mapsto> ?ob), brk := b\<rparr>"
  let ?s4 = "upd_db d (\<lambda>x. x\<lparr>dict := (k, nat n) # dict x\<rparr>) ?s3" and ?s5 = "upd_db d (\<lambda>x. x\<lparr>dict := (k, nat n) # dict x\<rparr>) (s\<lparr>heap := (heap s)(nat n \<mapsto> ?ob), brk := b\<rparr>)"
  have ty: "rdbLoadType r = Some (v, did_read [u8 v] r)" using load_type [OF a(1)] y(4) by simp
  have u: "upd_obj (nat n) (\<lambda>ob. ob\<lparr>vers := int v\<rparr>) ?s2 = Some ?s3" by (simp add: upd_obj_def)
  have add: "dbAdd d (brk s) (nat n) ?s3 = Some ?s4"
    using f(3,4) ob(2) ne by (simp add: dbAdd_def getdb_def sds_of_def upd_db_def obj_def)
  have "heap ?s4 (brk s) = Some ?key" using ne by (simp add: upd_db_def)
  then have del: "decrRefCount (brk s) ?s4 = Some (?s4\<lparr>heap := (heap ?s4)(brk s := None)\<rparr>)"
    by (simp add: decrRefCount_def obj_def owned_def freeStringObject_def zfree_def)
  have "((heap s)(brk s \<mapsto> ?key, nat n \<mapsto> ?ob))(brk s := None) = (heap s)(nat n \<mapsto> ?ob)" using f(1) ne by (auto simp: fun_eq_iff)
  then have w: "?s4\<lparr>heap := (heap ?s4)(brk s := None)\<rparr> = ?s5" by (simp add: upd_db_def)
  have "load_pair other now d (- 1) 0 s r = Some (Next d ?s5 (did_read ([u8 v] @ y1 @ y2) r))"
    unfolding load_pair_def ty
    by (simp only: ebind_simps split_conv k b(1) Option.bind.bind_lunit option.case simp_thms if_False u add del w)
  moreover have "heap_ok (s\<lparr>heap := (heap s)(nat n \<mapsto> ?ob), brk := b\<rparr>)" by (rule heap_ok_shared [OF f(1) lt ob(1) refl]) (use b(2) in simp)
  then have "heap_ok ?s5" by (simp add: heap_ok_def shared_ok_def upd_db_def)
  then have "after d k n v s ?s5" using f ob(3) n by (simp add: after_def upd_db_def)
  ultimately show ?thesis by blast
qed

lemma small_loads:
  assumes n: "0 \<le> n" "n < 10000" and y: "str_bytes k y1" "str_bytes (dec_int n) y2" and v: "v < 256"
  shows "loads now d d ([u8 0] @ [u8 v] @ y1 @ y2) (before d {k}) (after d k n v)"
  unfolding loads_def
proof (intro allI impI)
  fix other s r assume s: "before d {k} s" and "ahead ([u8 0] @ [u8 v] @ y1 @ y2) r"
  then have a: "ahead [u8 0] r" "ahead ([u8 v] @ y1 @ y2) (did_read [u8 0] r)" using ahead_append [of "[u8 0]" "[u8 v] @ y1 @ y2" r] by simp_all
  obtain s1 where s1: "load_pair other now d (- 1) 0 s (did_read [u8 0] r) = Some (Next d s1 (did_read ([u8 v] @ y1 @ y2) (did_read [u8 0] r)))" "after d k n v s s1"
    using small_pair [OF s n y a(2) v] by blast
  then have "load_round other now d s r = Some (Next d s1 (did_read ([u8 0] @ [u8 v] @ y1 @ y2) r))"
    using load_type [OF a(1)] by (simp add: load_round_def load_expire_def)
  from load_loop_next [OF this] s1(2)
  show "\<exists>s1. load_loop other now d s r = load_loop other now d s1 (did_read ([u8 0] @ [u8 v] @ y1 @ y2) r) \<and> after d k n v s s1" by blast
qed



section \<open>Two keys with the same integer\<close>

definition int_object :: "int \<Rightarrow> int \<Rightarrow> robj" where
  "int_object n v = \<lparr>otype = REDIS_STRING, encoding = REDIS_ENCODING_INT, refcount = 1, vers = v, ptr = Long n\<rparr>"

text \<open>A server with the integer \<open>n\<close> under two keys, each with an object and a version of its own.\<close>

definition two_ints :: "int \<Rightarrow> string \<Rightarrow> int \<Rightarrow> string \<Rightarrow> int \<Rightarrow> server" where
  "two_ints n k1 v1 k2 v2 = initServer\<lparr>heap := (heap initServer)(10000 \<mapsto> int_object n v1, 10001 \<mapsto> int_object n v2), brk := 10002,
     db := empty_db\<lparr>dict := [(k1, 10000), (k2, 10001)]\<rparr> # replicate 15 empty_db\<rparr>"

lemma save_no_dbs: "emits0 (save_dbs cfg junk blk s now j (replicate n empty_db)) []"
  by (induction n arbitrary: j) (simp_all add: emits0_def empty_db_def)

lemma int_entry:
  assumes "heap s a = Some (int_object n v)" "long_range n" "length k < 4294967295"
  obtains y1 y2 where "str_bytes k y1" "str_bytes (dec_int n) y2"
    "emits (rdbSaveKeyValuePair cfg junk blk s k a (- 1) now) True ([u8 0] @ [u8 (nat (v mod 256))] @ y1 @ y2)"
proof -
  have ob: "str_ok (int_object n v)" "str_val (int_object n v) = dec_int n" "otype (int_object n v) = REDIS_STRING" "vers (int_object n v) = v"
    using assms(2) by (simp_all add: int_object_def str_ok_def str_val_def)
  have len: "length (str_val (int_object n v)) < 4294967295" using dec_length [OF assms(2)] ob(2) by simp
  obtain y1 where y1: "emits (rdbSaveRawString cfg junk k) (length y1) y1" "str_bytes k y1" using save_raw_string [OF assms(3)] by blast
  obtain y2 where y2: "emits (rdbSaveStringObject cfg junk s a) (length y2) y2" "str_bytes (dec_int n) y2" using save_string [OF assms(1) ob(1) len] ob(2) by auto
  have sv: "savable blk s a" using assms(1) ob len by (auto simp: savable_def short_string_def split: rencoding.splits)
  have "rdbSaveObject cfg junk blk s a = rdbSaveStringObject cfg junk s a" using assms(1) ob(3) by (auto simp: rdbSaveObject_def obj_def)
  then have "emits (rdbSaveObject cfg junk blk s a) (length y2) y2" using y2(1) by simp
  from save_pair_emits [OF sv assms(1) _ y1(1) this, of "- 1" now]
  have "emits (rdbSaveKeyValuePair cfg junk blk s k a (- 1) now) True ([u8 0] @ [u8 (nat (v mod 256))] @ y1 @ y2)"
    using ob(3,4) by (simp add: expire_bytes_def type_code_def)
  then show ?thesis using that y1(2) y2(2) by blast
qed

lemma two_ints_saves:
  assumes n: "0 \<le> n" "n < 10000" and k: "k1 \<noteq> k2" "length k1 < 4294967295" "length k2 < 4294967295"
  shows "\<exists>y. emits0 (save_dbs cfg junk blk (two_ints n k1 v1 k2 v2) 0 0 (db (two_ints n k1 v1 k2 v2))) y \<and>
    (\<forall>now. loads now 0 0 y (before 0 {k1, k2}) (\<lambda>s s2. \<exists>s1. after 0 k1 n (nat (v1 mod 256)) s s1 \<and> after 0 k2 n (nat (v2 mod 256)) s1 s2))"
proof -
  let ?s = "two_ints n k1 v1 k2 v2" and ?db = "empty_db\<lparr>dict := [(k1, 10000), (k2, 10001)]\<rparr>"
  have h: "heap ?s 10000 = Some (int_object n v1)" "heap ?s 10001 = Some (int_object n v2)" by (simp_all add: two_ints_def)
  have lr: "long_range n" using n by (simp add: long_range_def)
  obtain a1 b1 where y1: "str_bytes k1 a1" "str_bytes (dec_int n) b1"
    "emits (rdbSaveKeyValuePair cfg junk blk ?s k1 10000 (- 1) 0) True ([u8 0] @ [u8 (nat (v1 mod 256))] @ a1 @ b1)" using int_entry [OF h(1) lr k(2)] by blast
  obtain a2 b2 where y2: "str_bytes k2 a2" "str_bytes (dec_int n) b2"
    "emits (rdbSaveKeyValuePair cfg junk blk ?s k2 10001 (- 1) 0) True ([u8 0] @ [u8 (nat (v2 mod 256))] @ a2 @ b2)" using int_entry [OF h(2) lr k(3)] by blast
  let ?y1 = "[u8 0] @ [u8 (nat (v1 mod 256))] @ a1 @ b1" and ?y2 = "[u8 0] @ [u8 (nat (v2 mod 256))] @ a2 @ b2"
  have x: "key_expire ?db k = Some (- 1)" for k by (simp add: key_expire_def empty_db_def dictFind_def)
  have e: "emits0 (save_entries cfg junk blk ?s 0 ?db (dict ?db)) (?y1 @ ?y2 @ [])"
    using emits0_bind [OF y1(3) emits0_bind [OF y2(3) emits0_return]] x by (simp add: emits0_def)
  have "emits0 (\<lambda>r. ebind (Some (rdbSaveType 254 r)) (\<lambda>(_, r1). ebind (Some (rdbSaveLen 0 r1)) (\<lambda>(_, r2).
      ebind (save_entries cfg junk blk ?s 0 ?db (dict ?db) r2) (save_dbs cfg junk blk ?s 0 (Suc 0) (replicate 15 empty_db)))))
    ([u8 (nat (254 mod 256))] @ len_bytes 0 @ (?y1 @ ?y2 @ []) @ [])"
    by (rule emits0_bind [OF emits_type emits0_bind [OF emits_len emits0_bind0 [OF e save_no_dbs]]]) simp
  then have s: "emits0 (save_dbs cfg junk blk ?s 0 0 (db ?s)) (([u8 254] @ len_bytes 0) @ ?y1 @ ?y2)"
    by (simp add: emits0_def two_ints_def)
  have v: "nat (v1 mod 256) < 256" "nat (v2 mod 256) < 256" by (simp_all add: nat_less_iff)
  have "loads now 0 0 (([u8 254] @ len_bytes 0) @ ?y1 @ ?y2) (before 0 {k1, k2})
    (\<lambda>s s2. \<exists>s1. after 0 k1 n (nat (v1 mod 256)) s s1 \<and> after 0 k2 n (nat (v2 mod 256)) s1 s2)" for now
  proof (rule loads_trans [OF select_loads loads_trans [OF small_loads [OF n y1(1,2) v(1)] small_loads [OF n y2(1,2) v(2)], of "before 0 {k1, k2}"]])
    show "before 0 {k2} s1" if "before 0 {k1, k2} s" "after 0 k1 n (nat (v1 mod 256)) s s1" for s s1
      using that k(1) by (auto simp: before_def after_def dictFind_def)
  qed (auto simp: before_def)
  then show ?thesis using s by blast
qed



end
