(* ===== verification/Spec2Isabelle.thy ===== *)
theory Spec2Isabelle
  imports Intset Util Glob Object Db_Commands T_String T_Set T_Hash T_List Ziplist Ownership Db_Rules
    Kvolve_Registry Kvolve_Update Kvolve_Commands Kvolve_Rules Kvolve_Namespace Kvolve_Set Registry_Rules
    String_Rules Set_Rules List_Rules Hash_Rules Dict_Scan Lzf_Rules Ziplist_Refine Rdb_Shared
begin

text \<open>
  Verification of kvolve, an extension of redis 2.8.17 that updates the schema of stored data on
  the fly (\<^verbatim>\<open>src/redis-2.8.17/src\<close>). A client announces, by CLIENT SETNAME, the namespaces of its
  keys and the version of each. An operator loads an update: a shared object that registers, for
  a namespace, a new version and a list of update functions, or a new name of the namespace.
  From then on every command first passes through \<^verbatim>\<open>kvolve_process_command\<close>, which brings the
  value the command is about to touch to the current version: it finds the value under an
  earlier name, renames it, runs the missing update functions and raises the version tag that
  every object carries (\<^verbatim>\<open>robj.vers\<close>). Then redis runs the command.

  \<^bold>\<open>Conventions.\<close> C functions are HOL functions of the same name. Stateful code takes the server
  state (record \<open>server\<close> of \<^verbatim>\<open>State\<close>: object heap, databases, registry, statistics, replies) and
  returns it updated. The result is an option: \<open>None\<close> is a fault of the C program, that is an
  invalid or freed address, a read or write outside a buffer, a failed assertion, a loop that
  does not end. So \<open>f s = Some s'\<close> in a theorem states that the code returns and does not fault.
  C strings and sds are lists of characters, objects live at natural number addresses on a heap
  with reference counts, and integers are \<open>int\<close> or words with the wrap-around written out. Loops
  are structural recursion or \<open>function\<close> with a measure; a loop that may run forever
  (\<open>kill_loop\<close>, \<open>load_loop\<close>, the searches through namespaces) is \<open>partial_function (option)\<close>. No fuel is used.
  The update functions of the operator are not part of the sources: they are the parameter \<open>U\<close>
  of the definitions that call them, and the hypothesis \<open>value_update U g\<close> states the contract of
  \<^verbatim>\<open>kvolve_upd.h\<close> for functions that change values. Sorted sets enter the dispatch table of kvolve
  through a parameter. Random choices (\<^verbatim>\<open>rand()\<close>) are a list of drawn numbers.

  \<^bold>\<open>Data types of redis.\<close>
  \<^item> \<^verbatim>\<open>Prelude\<close>: bytes, C strings, \<^verbatim>\<open>strrchr\<close>, case folding, little-endian integers in byte lists.
  \<^item> \<^verbatim>\<open>Intset\<close> (\<^verbatim>\<open>intset.c\<close>): sorted arrays of 16, 32 or 64 bit integers at the level of bytes,
    shown to refine finite sets of integers, upgrades of the width included.
  \<^item> \<^verbatim>\<open>Util\<close>, \<^verbatim>\<open>Glob\<close> (\<^verbatim>\<open>util.c\<close>): printing and parsing of 64 bit integers, shown exact and inverse
    to each other; the glob matcher, shown to agree with a declarative meaning of patterns.
  \<^item> \<^verbatim>\<open>Dict\<close>, \<^verbatim>\<open>Dict_Rules\<close>, \<^verbatim>\<open>Dict_Scan\<close> (\<^verbatim>\<open>dict.c\<close>): hash tables with incremental rehashing, shown to simulate
    finite maps over every sequence of operations; rehashing ends; a scan returns all entries
    that stay unless the table shrinks under it, and a scan that then misses one.
  \<^item> \<^verbatim>\<open>Bytes\<close>: buffers of bytes with bounds. \<^verbatim>\<open>Lzf\<close>, \<^verbatim>\<open>Lzf_Rules\<close> (\<^verbatim>\<open>lzf_c.c\<close>, \<^verbatim>\<open>lzf_d.c\<close>): LZF compression, shown
    to stay in its buffers and to be undone by decompression, and where its output buffer is one
    byte too small.
  \<^item> \<^verbatim>\<open>Ziplist\<close> (\<^verbatim>\<open>ziplist.c\<close>): the entries of a ziplist, strings or integers, and the search, as the
    commands of the server use them. \<^verbatim>\<open>Ziplist_Bytes\<close>: every operation of the file on the bytes of a
    block. \<^verbatim>\<open>Ziplist_Rules\<close>, \<^verbatim>\<open>Ziplist_Refine\<close>: the layout of a block, the cascade of length fields that an
    insertion or deletion sets off, the simulation of a list of entries over every sequence of
    operations, and an insertion that reads past the end of its block.
  \<^item> \<^verbatim>\<open>Sim_Base\<close>: the locale \<open>simulation\<close> of a concrete by an abstract step function, interpreted on hash
    tables and on ziplists.

  \<^bold>\<open>The server.\<close>
  \<^item> \<^verbatim>\<open>State\<close> (\<^verbatim>\<open>redis.h\<close>), \<^verbatim>\<open>Object\<close> (\<^verbatim>\<open>object.c\<close>): objects, reference counts, encodings.
  \<^item> \<^verbatim>\<open>Db\<close>, \<^verbatim>\<open>Db_Commands\<close> (\<^verbatim>\<open>db.c\<close>): the keyspace, expiry, RENAME, MOVE, KEYS, EXPIRE and TTL.
  \<^item> \<^verbatim>\<open>T_String\<close>, \<^verbatim>\<open>T_Set\<close>, \<^verbatim>\<open>T_Hash\<close>, \<^verbatim>\<open>T_List\<close> (\<^verbatim>\<open>t_string.c\<close>, ...): the types and their commands.
  \<^item> \<^verbatim>\<open>Ownership\<close>: the invariant \<open>srv_ok R s\<close>. The count of every object is at least the number of
    references to it from the databases, from containers and from the running code (the
    multiset \<open>R\<close>), and every reference is live. Giving up a reference keeps it, so nothing that
    is still reachable is freed.
  \<^item> \<^verbatim>\<open>Db_Rules\<close>, \<^verbatim>\<open>String_Rules\<close>, \<^verbatim>\<open>Set_Rules\<close>, \<^verbatim>\<open>List_Rules\<close>, \<^verbatim>\<open>Hash_Rules\<close>: on a well-formed server
    each operation does not fault, keeps the invariant and has its effect on the map of keys, the
    set, the sequence or the map of strings the object stands for, whatever its encoding. Sets
    and lists are interpretations of the locales \<open>string_set\<close> and \<open>string_deque\<close>.

  \<^bold>\<open>Dump files.\<close>
  \<^item> \<^verbatim>\<open>Crc64\<close> (\<^verbatim>\<open>crc64.c\<close>): the table-driven checksum, shown to be the division by its polynomial one bit
    at a time, and to notice every change within eight consecutive bytes.
  \<^item> \<^verbatim>\<open>Rio\<close> (\<^verbatim>\<open>rio.c\<close>, \<^verbatim>\<open>rio.h\<close>): streams to files and buffers, in chunks, with a running checksum. A file
    has a number of bytes it still takes; a write past it is an error.
  \<^item> \<^verbatim>\<open>Rdb\<close> (\<^verbatim>\<open>rdb.c\<close>): the writer and the reader of a dump. Errors that the code reports are the inner \<open>None\<close>
    of \<open>Some None\<close>, apart from faults, and \<open>ebind\<close> passes them on. What the operating system answers is an
    input (record \<open>save_env\<close>), as are the bytes of the ziplists to be saved (\<open>blk\<close>), the hash table that
    the compressor does not initialise (\<open>junk\<close>) and the reader of sorted sets and zipmaps (\<open>other\<close>).
  \<^item> \<^verbatim>\<open>Rdb_Rules\<close>: every writer has one output, or reports an error when there is no room for it; strings of
    all three formats are read back; a dump is written completely or the old one stays.
  \<^item> \<^verbatim>\<open>Rdb_Load\<close>, \<^verbatim>\<open>Rdb_Shared\<close>: a dump of strings is loaded with every key, value, expire time and version
    modulo 256, except that keys with the same small integer come to share one version.

  \<^bold>\<open>kvolve.\<close>
  \<^item> \<^verbatim>\<open>Kvolve_Registry\<close> (\<^verbatim>\<open>kvolve_internal.c\<close>): namespaces, lookup of the namespace of a key, admission
    of clients, loading of updates, disconnection of old clients.
  \<^item> \<^verbatim>\<open>Kvolve_Update\<close> (\<^verbatim>\<open>kvolve_internal.c\<close>): lookup under earlier names, rename, update of strings
    and of the elements of containers.
  \<^item> \<^verbatim>\<open>Kvolve_Commands\<close> (\<^verbatim>\<open>kvolve.c\<close>): the handlers and their dispatch.
  \<^item> \<^verbatim>\<open>Registry_Rules\<close>: the registry invariant; admission agrees with an abstract registry; loading an
    update ends and has its effect; old clients are refused afterwards.
  \<^item> \<^verbatim>\<open>Kvolve_Rules\<close>: GET of an old value runs exactly the missing functions in order; a second GET
    runs none; updating lazily once equals updating after every release.
  \<^item> \<^verbatim>\<open>Kvolve_Namespace\<close>, \<^verbatim>\<open>Kvolve_Set\<close>: renames of a namespace change and their limits; which commands
    stamp the current version and which do not.

  \<^bold>\<open>Bounds.\<close> Lengths of strings are below \<open>2 ^ 31\<close> where the code holds them in an \<^verbatim>\<open>int\<close>, the number
  of elements of an intset below \<open>2 ^ 28\<close>, so that its byte length fits 32 bits; the bytes of a
  ziplist below \<open>2 ^ 32\<close>, for the same reason; a namespace has at
  most \<open>KV_INIT_SZ\<close> versions, the size of the arrays of the source. Strings in a dump and the number
  of databases are below \<open>2 ^ 32 - 1\<close>, the length that stands for an error. That \<open>rdbLoad\<close>
  returns is shown for the dumps that \<open>rdbSave\<close> writes, with no bound on the rounds of its loop.

  \<^bold>\<open>Not modelled.\<close>
  \<^item> Sorted sets (\<^verbatim>\<open>t_zset.c\<close>) and the kvolve handlers for them: their order is that of floating
    point scores. INCRBYFLOAT and HINCRBYFLOAT for the same reason.
  \<^item> Input and output: sockets, the event loop, the parser of the protocol, the append only
    file, background saving, replication, clustering, the client programs. Replies are values in
    the state, files a map from names to contents.
  \<^item> Blocking list commands, SCAN, SORT, scripting, publish and subscribe, transactions beyond
    the marking of watched keys.
  \<^item> Third-party code (\<^verbatim>\<open>deps\<close>), the Python prototype \<^verbatim>\<open>lazyupdredis\<close> that kvolve replaces, the
    deprecated prototypes, the programs used for evaluation, tests and benchmarks.
\<close>

end
